(* ===== verification/MO_Prelude.thy ===== *)
theory MO_Prelude
  imports Main "HOL-Library.Word" "HOL-Library.Monad_Syntax" "HOL-Library.Char_ord"
begin

text \<open>
  Shared vocabulary of the development: the machine integer types of the code
  (\<open>uint8_t\<close>, \<open>unsigned int\<close>, \<open>unsigned long\<close>), the conversions the code performs
  implicitly, and the generic lemmas on lists, maps and words that the component theories use.
  A C \<open>int\<close> or \<open>long\<close> whose overflow would be undefined behaviour is an \<open>int\<close>;
  every unsigned type keeps its width.
\<close>

unbundle bit_operations_syntax

section \<open>Machine integers\<close>

type_synonym u8 = "8 word"
type_synonym u16 = "16 word"
type_synonym u32 = "32 word"
type_synonym u64 = "64 word"

text \<open>Implicit conversion of an \<open>int\<close> to \<open>int8_t\<close>.\<close>

definition int8_of :: "int \<Rightarrow> int" where
  "int8_of i = signed_take_bit 7 i"

lemma int8_of_id: "- 128 \<le> i \<Longrightarrow> i < 128 \<Longrightarrow> int8_of i = i"
  by (simp add: int8_of_def signed_take_bit_int_eq_self)

lemma ucast_u8_u64_id:
  fixes d :: u64
  assumes "d \<le> 255"
  shows "(ucast (ucast d :: u8) :: u64) = d"
proof -
  have "unat d \<le> 255" using assms by (simp add: word_le_nat_alt)
  then show ?thesis
    by (simp add: word_unat_eq_iff unsigned_ucast_eq unsigned_take_bit_eq take_bit_nat_eq_self)
qed

lemma ucast_u8_le: "(ucast (d :: u8) :: u64) \<le> 255"
proof -
  have "unat d < 256" using unsigned_less [of d, where ?'a = nat] by simp
  then show ?thesis
    by (simp add: word_le_nat_alt unsigned_ucast_eq take_bit_nat_eq_self)
qed

lemma and_pow2_minus1_eq_take_bit:
  fixes x :: "'a::len word"
  shows "x AND (2 ^ k - 1) = take_bit k x"
  by (simp add: take_bit_eq_mask mask_eq_exp_minus_1)

lemma push_drop_bit_aligned:
  fixes x :: "'a::len word"
  assumes "x AND (2 ^ k - 1) = 0"
  shows "push_bit k (drop_bit k x) = x"
proof -
  have "take_bit k x = 0" using assms by (simp add: and_pow2_minus1_eq_take_bit)
  then show ?thesis
    by (metis add.right_neutral bits_ident)
qed

lemma ucast_u32_take_bit_eq_0:
  fixes x :: u64
  assumes "k \<le> 30"
  shows "(ucast (take_bit k x) :: u32) = 0 \<longleftrightarrow> take_bit k x = 0"
proof -
  have "unat (take_bit k x) < 2 ^ k"
    by (simp add: unsigned_take_bit_eq take_bit_nat_less_exp)
  also have "(2::nat) ^ k \<le> 2 ^ 30" using assms by (intro power_increasing) auto
  finally have "unat (take_bit k x) < 2 ^ 32" by simp
  then show ?thesis
    by (simp add: word_unat_eq_iff unsigned_ucast_eq take_bit_nat_eq_self)
qed

lemma and_not_mask: "x AND NOT (push_bit k 1 - 1) = push_bit k (drop_bit k (x :: u64))"
proof -
  have "push_bit k 1 - 1 = (mask k :: u64)" by (simp add: mask_eq_exp_minus_1 push_bit_eq_mult)
  then show ?thesis by (simp, intro bit_word_eqI) (auto simp: bit_simps)
qed

lemma unat_push_drop: "unat (push_bit k (drop_bit k (x :: u64))) = unat x div 2 ^ k * 2 ^ k"
proof -
  have "unat x div 2 ^ k * 2 ^ k \<le> unat x" by simp
  also have "\<dots> < 2 ^ 64" using unsigned_less [of x, where ?'a = nat] by simp
  finally have "take_bit 64 (push_bit k (drop_bit k (unat x))) = unat x div 2 ^ k * 2 ^ k"
    by (simp add: push_bit_eq_mult drop_bit_eq_div take_bit_nat_eq_self)
  moreover have "take_bit 64 (unat x) = unat x"
    using unsigned_less [of x, where ?'a = nat] by (simp add: take_bit_nat_eq_self)
  then have "unat (push_bit k (drop_bit k x)) = take_bit 64 (push_bit k (drop_bit k (unat x)))"
    by (simp add: unsigned_push_bit_eq unsigned_drop_bit_eq)
  ultimately show ?thesis by simp
qed

lemma unat_align_down: "unat ((x :: u64) AND NOT (push_bit k 1 - 1)) = unat x div 2 ^ k * 2 ^ k"
  by (simp only: and_not_mask unat_push_drop)

lemma unat_add_small: "unat x + unat y < 2 ^ 64 \<Longrightarrow> unat (x + y :: u64) = unat x + unat y"
  by (simp add: unat_word_ariths)

lemma unat_of_nat_small: "n < 2 ^ LENGTH('a) \<Longrightarrow> unat (of_nat n :: 'a::len word) = n"
  by (simp add: unsigned_of_nat take_bit_nat_eq_self)

section \<open>Lists\<close>

lemma length_concat_map: "length (concat (map f xs)) = (\<Sum>x\<leftarrow>xs. length (f x))"
  by (simp add: length_concat comp_def)

lemma nth_concat_map:
  assumes "i < length xs" and "j < length (f (xs ! i))"
  shows "concat (map f xs) ! ((\<Sum>x\<leftarrow>take i xs. length (f x)) + j) = f (xs ! i) ! j"
  using assms
proof (induction xs arbitrary: i)
  case Nil
  then show ?case by simp
next
  case (Cons x xs)
  then show ?case by (cases i) (auto simp: nth_append)
qed

lemma concat_map_index_less:
  assumes "i < length xs" and "j < length (f (xs ! i))"
  shows "(\<Sum>x\<leftarrow>take i xs. length (f x)) + j < length (concat (map f xs))"
  using assms
proof (induction xs arbitrary: i)
  case Nil
  then show ?case by simp
next
  case (Cons x xs)
  then show ?case by (cases i) (auto simp: length_concat_map)
qed

lemma map_upd_distinct:
  assumes "distinct xs" and "k < length xs"
  shows "map (m(xs ! k := v)) xs = (map m xs)[k := v]"
  using assms by (intro nth_equalityI) (auto simp: nth_list_update nth_eq_iff_index_eq)

lemma sorted_wrt_less_nth_mono:
  fixes xs :: "'a::linorder list"
  assumes "sorted_wrt (<) xs" "i < length xs" "j < length xs"
  shows "xs ! i < xs ! j \<longleftrightarrow> i < j"
  using assms by (metis linorder_neqE_nat not_less_iff_gr_or_eq sorted_wrt_nth_less)

section \<open>Faults and results\<close>

text \<open>
  What ends an operation of the code other than by returning: a null pointer or a freed object is
  used, \<open>at()\<close> is out of range, the program calls \<open>exit\<close>, or an index runs past a vector.
\<close>

datatype fault = Null_pointer | Freed_object | Out_of_range | Exit_called | Bad_index | Div_by_zero

type_synonym 'a run = "fault + 'a"

fun rbind :: "'a run \<Rightarrow> ('a \<Rightarrow> 'b run) \<Rightarrow> 'b run" where
  "rbind (Inl e) f = Inl e"
| "rbind (Inr x) f = f x"

lemma rbind_Inr_iff [simp]: "rbind r f = Inr y \<longleftrightarrow> (\<exists>x. r = Inr x \<and> f x = Inr y)"
  by (cases r) auto

lemma rbind_cong [fundef_cong]:
  "r = r' \<Longrightarrow> (\<And>x. r' = Inr x \<Longrightarrow> f x = g x) \<Longrightarrow> rbind r f = rbind r' g"
  by (cases r') auto

text \<open>A loop over a list whose body may fault.\<close>

fun rfold :: "('x \<Rightarrow> 's \<Rightarrow> 's run) \<Rightarrow> 'x list \<Rightarrow> 's \<Rightarrow> 's run" where
  "rfold f [] s = Inr s"
| "rfold f (x # xs) s = rbind (f x s) (rfold f xs)"

lemma rfold_invariant:
  assumes "rfold f xs s = Inr t" and "P s"
    and "\<And>x s t. x \<in> set xs \<Longrightarrow> P s \<Longrightarrow> f x s = Inr t \<Longrightarrow> P t"
  shows "P t"
  using assms
proof (induction xs arbitrary: s)
  case (Cons x xs)
  then obtain u where "f x s = Inr u" "rfold f xs u = Inr t" by auto
  then show ?case using Cons.IH [of u] Cons.prems by auto
qed simp

lemma rfold_append: "rfold f (xs @ ys) s = rbind (rfold f xs s) (rfold f ys)"
proof (induction xs arbitrary: s)
  case (Cons x xs)
  then show ?case by (cases "f x s") auto
qed simp

lemma rfold_total:
  assumes "P s" and "\<And>x s. x \<in> set xs \<Longrightarrow> P s \<Longrightarrow> \<exists>t. f x s = Inr t \<and> P t"
  shows "\<exists>t. rfold f xs s = Inr t \<and> P t"
  using assms
proof (induction xs arbitrary: s)
  case (Cons x xs)
  then obtain u where "f x s = Inr u" "P u" by force
  then show ?case using Cons.IH [of u] Cons.prems(2) by auto
qed simp

section \<open>Characters and numbers\<close>

definition is_digit :: "char \<Rightarrow> bool" where
  "is_digit c \<longleftrightarrow> CHR ''0'' \<le> c \<and> c \<le> CHR ''9''"

definition is_space :: "char \<Rightarrow> bool" where
  "is_space c \<longleftrightarrow> c = CHR '' '' \<or> (of_char c :: nat) \<in> {9..13}"

definition digit_val :: "char \<Rightarrow> int" where
  "digit_val c = of_char c - 48"

definition decimal :: "string \<Rightarrow> int" where
  "decimal s = foldl (\<lambda>n c. 10 * n + digit_val c) 0 (takeWhile is_digit s)"

text \<open>\<open>atoi\<close>; a number beyond the range of \<open>int\<close> is undefined behaviour in C.\<close>

definition atoi :: "string \<Rightarrow> int" where
  "atoi s =
     (case dropWhile is_space s of
        [] \<Rightarrow> 0
      | c # cs \<Rightarrow> if c = CHR ''-'' then - decimal cs else if c = CHR ''+'' then decimal cs
                  else decimal (c # cs))"

section \<open>Programs that may fault or not return\<close>

text \<open>\<open>None\<close>: the code does not return.\<close>

type_synonym 'a trun = "'a run option"

definition tbind :: "'a trun \<Rightarrow> ('a \<Rightarrow> 'b trun) \<Rightarrow> 'b trun" where
  "tbind m f = (case m of None \<Rightarrow> None | Some (Inl e) \<Rightarrow> Some (Inl e) | Some (Inr x) \<Rightarrow> f x)"

fun tfold :: "('x \<Rightarrow> 's \<Rightarrow> 's trun) \<Rightarrow> 'x list \<Rightarrow> 's \<Rightarrow> 's trun" where
  "tfold f [] s = Some (Inr s)"
| "tfold f (x # xs) s = tbind (f x s) (tfold f xs)"

lemma tbind_simps [simp]:
  "tbind None f = None" "tbind (Some (Inl e)) f = Some (Inl e)" "tbind (Some (Inr x)) f = f x"
  by (simp_all add: tbind_def)

lemma tbind_Inr_iff [simp]: "tbind m f = Some (Inr y) \<longleftrightarrow> (\<exists>x. m = Some (Inr x) \<and> f x = Some (Inr y))"
  by (auto simp: tbind_def split: option.splits sum.splits)

end
