(* ===== verification/Addr_Sequence.thy ===== *)
theory Addr_Sequence
  imports MO_Prelude
begin

text \<open>
  The address sequence of \<open>AddrSequence.h\<close> and \<open>AddrSequence.cc\<close>: a sparse array of page
  addresses in ascending order, kept as clusters of 8-bit deltas that live in fixed-size buffers.
  A pointer into the buffer pool is a pair of a buffer number and an item index, and the pool is a
  store from such pointers to items, so that the sharing of a buffer by consecutive clusters is
  visible. The pointers of an iterator into the vector of clusters are cluster numbers.

  Operations that loop return \<open>None\<close> for a run that does not return. Out-of-memory exceptions
  are taken from two lists in the state, one for the allocator of the buffers and one for
  \<open>std::vector::push_back\<close>: the head says whether the next request throws, an empty list that
  every further request succeeds. Messages are not modelled.
\<close>

unbundle bit_operations_syntax

section \<open>Data\<close>

record delta_payload =
  dp_delta :: u8
  dp_payload :: u8
  dp_nid :: int
  dp_location :: int

type_synonym item_ptr = "nat \<times> nat"

record addr_cluster =
  ac_start :: u64
  ac_size :: nat
  ac_deltas :: item_ptr

record walk_iterator =
  cluster_iter :: nat
  cluster_iter_end :: nat
  delta_sum :: u64
  delta_index :: nat
  cur_cluster_ptr :: nat
  cur_delta_ptr :: item_ptr

record addr_seq =
  nr_walks :: int
  pageshift :: nat
  pagesize :: u64
  addr_size :: u64
  top_bytes :: "int \<Rightarrow> u64"
  young_bytes :: "int \<Rightarrow> u64"
  addr_clusters :: "addr_cluster list"
  item_store :: "item_ptr \<Rightarrow> delta_payload"
  buf_pool :: nat
  buf_used_count :: nat
  walk_iter :: walk_iterator
  find_iter :: walk_iterator
  last_cluster_end :: u64
  user_flags :: u64
  buf_oom :: "bool list"
  vec_oom :: "bool list"

text \<open>The status codes, with the value \<open>-1\<close> of a refused or empty operation.\<close>

datatype as_rc =
    RC_OK
  | RC_REFUSED
  | RC_NOMEM
  | ADDR_NOT_FOUND
  | IGNORE_DUPLICATED_ADDR
  | END_OF_SEQUENCE

definition rc_negative :: "as_rc \<Rightarrow> bool" where
  "rc_negative rc \<longleftrightarrow> rc = RC_REFUSED \<or> rc = RC_NOMEM"

definition LOC_DRAM :: int where "LOC_DRAM = 0"
definition LOC_PMEM :: int where "LOC_PMEM = 1"
definition LOC_UNKNOW :: int where "LOC_UNKNOW = 2"

definition BUF_SIZE :: nat where "BUF_SIZE = 0x10000"
definition ITEM_SIZE :: nat where "ITEM_SIZE = 4"
definition MAX_ITEM_COUNT :: nat where "MAX_ITEM_COUNT = BUF_SIZE div ITEM_SIZE"
definition MAX_DELTA_DIST :: u64 where "MAX_DELTA_DIST = push_bit 8 1 - 1"

lemma MAX_ITEM_COUNT_eq [simp]: "MAX_ITEM_COUNT = 16384"
  by (simp add: MAX_ITEM_COUNT_def BUF_SIZE_def ITEM_SIZE_def)

lemma MAX_DELTA_DIST_eq [simp]: "MAX_DELTA_DIST = 255"
  by (simp add: MAX_DELTA_DIST_def)

definition item_at :: "item_ptr \<Rightarrow> nat \<Rightarrow> item_ptr" where
  "item_at p i = (fst p, snd p + i)"

section \<open>Iterators\<close>

definition do_walk_update_current_ptr :: "addr_seq \<Rightarrow> walk_iterator \<Rightarrow> walk_iterator" where
  "do_walk_update_current_ptr s it =
     it\<lparr>cur_cluster_ptr := cluster_iter it,
        cur_delta_ptr := ac_deltas (addr_clusters s ! cluster_iter it)\<rparr>"

definition reset_iterator :: "addr_seq \<Rightarrow> walk_iterator \<Rightarrow> nat \<Rightarrow> walk_iterator" where
  "reset_iterator s it new_start =
     (let it = it\<lparr>cluster_iter := new_start, cluster_iter_end := length (addr_clusters s),
                  delta_sum := 0, delta_index := 0\<rparr>
      in if addr_clusters s \<noteq> [] then do_walk_update_current_ptr s it else it)"

text \<open>
  \<open>do_walk\<close> reads the item under the iterator; \<open>None\<close> is the code \<open>END_OF_SEQUENCE\<close>.
\<close>

definition do_walk :: "addr_seq \<Rightarrow> walk_iterator \<Rightarrow> (u64 \<times> u8 \<times> int) option" where
  "do_walk s it =
     (if cluster_iter it = cluster_iter_end it then None
      else let x = item_store s (item_at (cur_delta_ptr it) (delta_index it));
               dsum = delta_sum it + ucast (dp_delta x)
           in Some (ac_start (addr_clusters s ! cur_cluster_ptr it) + push_bit (pageshift s) dsum,
                    dp_payload x, dp_nid x))"

definition do_walk_move_next :: "addr_seq \<Rightarrow> walk_iterator \<Rightarrow> walk_iterator" where
  "do_walk_move_next s it =
     (let x = item_store s (item_at (cur_delta_ptr it) (delta_index it));
          it = it\<lparr>delta_sum := delta_sum it + ucast (dp_delta x)\<rparr>;
          it = it\<lparr>delta_index := delta_index it + 1\<rparr>
      in if delta_index it \<ge> ac_size (addr_clusters s ! cur_cluster_ptr it)
         then let it = it\<lparr>delta_index := 0, delta_sum := 0, cluster_iter := cluster_iter it + 1\<rparr>
              in if cluster_iter it < cluster_iter_end it
                 then do_walk_update_current_ptr s it else it
         else it)"

section \<open>Construction and reset\<close>

definition clear_location_count :: "addr_seq \<Rightarrow> addr_seq" where
  "clear_location_count s = s\<lparr>top_bytes := (\<lambda>_. 0), young_bytes := (\<lambda>_. 0)\<rparr>"

definition free_all_buf :: "addr_seq \<Rightarrow> addr_seq" where
  "free_all_buf s = s\<lparr>buf_pool := 0, buf_used_count := MAX_ITEM_COUNT\<rparr>"

text \<open>
  The constructor: \<open>raw\<close> is the object's storage before it, from which the members that the
  constructor leaves alone keep their value; the two vectors start empty.
\<close>

definition AddrSequence_ctor :: "addr_seq \<Rightarrow> addr_seq" where
  "AddrSequence_ctor raw =
     clear_location_count
       (raw\<lparr>addr_size := 0, nr_walks := 0, pageshift := 0, pagesize := 0, user_flags := 0,
            buf_used_count := MAX_ITEM_COUNT, addr_clusters := [], buf_pool := 0\<rparr>)"

definition as_clear :: "addr_seq \<Rightarrow> addr_seq" where
  "as_clear s =
     (let s = s\<lparr>addr_size := 0, nr_walks := 0, addr_clusters := []\<rparr>;
          s = free_all_buf s;
          s = s\<lparr>find_iter := reset_iterator s (find_iter s) 0\<rparr>
      in clear_location_count s)"

definition set_pageshift :: "addr_seq \<Rightarrow> nat \<Rightarrow> addr_seq" where
  "set_pageshift s shift = s\<lparr>pageshift := shift, pagesize := word_of_int (push_bit shift 1)\<rparr>"

definition rewind :: "addr_seq \<Rightarrow> addr_seq" where
  "rewind s =
     (let s = s\<lparr>find_iter := reset_iterator s (find_iter s) 0\<rparr>;
          s = s\<lparr>nr_walks := nr_walks s + 1, last_cluster_end := 0\<rparr>
      in clear_location_count s)"

definition prepare_update :: "addr_seq \<Rightarrow> addr_seq" where
  "prepare_update s =
     s\<lparr>find_iter := reset_iterator s (find_iter s) 0, last_cluster_end := 0\<rparr>"

definition in_append_period :: "addr_seq \<Rightarrow> bool" where
  "in_append_period s \<longleftrightarrow> nr_walks s < 2"

definition set_user_flag :: "addr_seq \<Rightarrow> nat \<Rightarrow> addr_seq" where
  "set_user_flag s b = s\<lparr>user_flags := user_flags s OR push_bit b 1\<rparr>"

definition clear_user_flag :: "addr_seq \<Rightarrow> nat \<Rightarrow> addr_seq" where
  "clear_user_flag s b = s\<lparr>user_flags := user_flags s AND NOT (push_bit b 1)\<rparr>"

definition is_user_flag_set :: "addr_seq \<Rightarrow> nat \<Rightarrow> bool" where
  "is_user_flag_set s b \<longleftrightarrow> user_flags s AND push_bit b 1 \<noteq> 0"

definition get_top_bytes :: "addr_seq \<Rightarrow> u64" where
  "get_top_bytes s = top_bytes s LOC_DRAM + top_bytes s LOC_PMEM"

definition get_young_bytes :: "addr_seq \<Rightarrow> u64" where
  "get_young_bytes s = young_bytes s LOC_DRAM + young_bytes s LOC_PMEM"

definition as_empty :: "addr_seq \<Rightarrow> bool" where
  "as_empty s \<longleftrightarrow> addr_size s = 0"

section \<open>Appending\<close>

definition is_buffer_full :: "addr_seq \<Rightarrow> bool" where
  "is_buffer_full s \<longleftrightarrow> buf_used_count s = MAX_ITEM_COUNT"

definition allocate_buf :: "addr_seq \<Rightarrow> as_rc \<times> addr_seq" where
  "allocate_buf s =
     (let oom = (buf_oom s \<noteq> [] \<and> hd (buf_oom s)); s = s\<lparr>buf_oom := tl (buf_oom s)\<rparr>
      in if oom then (RC_NOMEM, s)
         else (RC_OK, s\<lparr>buf_pool := buf_pool s + 1, buf_used_count := 0\<rparr>))"

definition get_free_buffer :: "addr_seq \<Rightarrow> (as_rc + item_ptr) \<times> addr_seq" where
  "get_free_buffer s =
     (let (rc, s) = (if is_buffer_full s then allocate_buf s else (RC_OK, s))
      in if rc_negative rc then (Inl rc, s)
         else (Inr (buf_pool s - 1, buf_used_count s), s))"

definition new_cluster :: "u64 \<Rightarrow> item_ptr \<Rightarrow> addr_cluster" where
  "new_cluster addr buffer = \<lparr>ac_start = addr, ac_size = 0, ac_deltas = buffer\<rparr>"

text \<open>Both callers pass the last cluster, \<open>addr_clusters.back()\<close>.\<close>

definition save_into_cluster :: "addr_seq \<Rightarrow> u64 \<Rightarrow> int \<Rightarrow> as_rc \<times> addr_seq" where
  "save_into_cluster s addr n =
     (let c = last (addr_clusters s);
          delta = drop_bit (pageshift s) (addr - last_cluster_end s);
          p = item_at (ac_deltas c) (ac_size c);
          x = \<lparr>dp_delta = ucast delta, dp_payload = word_of_int n, dp_nid = - 1,
               dp_location = LOC_DRAM\<rparr>
      in (RC_OK,
          s\<lparr>item_store := (item_store s)(p := x),
            addr_clusters := butlast (addr_clusters s) @ [c\<lparr>ac_size := ac_size c + 1\<rparr>],
            buf_used_count := buf_used_count s + 1,
            addr_size := addr_size s + 1,
            last_cluster_end := addr\<rparr>))"

definition can_merge_into_cluster :: "addr_seq \<Rightarrow> u64 \<Rightarrow> bool" where
  "can_merge_into_cluster s addr =
     (let addr_delta = addr - last_cluster_end s;
          delta_distance = drop_bit (pageshift s) addr_delta;
          is_not_align = (ucast (addr_delta AND (pagesize s - 1)) :: u32)
      in \<not> (delta_distance > MAX_DELTA_DIST \<or> is_buffer_full s \<or> is_not_align \<noteq> 0))"

definition create_cluster :: "addr_seq \<Rightarrow> u64 \<Rightarrow> int \<Rightarrow> as_rc \<times> addr_seq" where
  "create_cluster s addr n =
     (case get_free_buffer s of
        (Inl rc, s) \<Rightarrow> (rc, s)
      | (Inr buf, s) \<Rightarrow>
          let oom = (vec_oom s \<noteq> [] \<and> hd (vec_oom s)); s = s\<lparr>vec_oom := tl (vec_oom s)\<rparr>
          in if oom then (RC_NOMEM, s)
             else let s = s\<lparr>addr_clusters := addr_clusters s @ [new_cluster addr buf]\<rparr>;
                      s = s\<lparr>last_cluster_end := addr\<rparr>;
                      s = s\<lparr>find_iter :=
                            reset_iterator s (find_iter s) (length (addr_clusters s) - 1)\<rparr>
                  in save_into_cluster s addr n)"

definition append_addr :: "addr_seq \<Rightarrow> u64 \<Rightarrow> int \<Rightarrow> as_rc \<times> addr_seq" where
  "append_addr s addr n =
     (if addr_clusters s = [] then create_cluster s addr n
      else if addr \<le> last_cluster_end s then (IGNORE_DUPLICATED_ADDR, s)
      else if can_merge_into_cluster s addr then save_into_cluster s addr n
      else create_cluster s addr n)"

section \<open>Updating\<close>

definition update_addr_location_count :: "addr_seq \<Rightarrow> walk_iterator \<Rightarrow> addr_seq" where
  "update_addr_location_count s it =
     (let x = item_store s (item_at (cur_delta_ptr it) (delta_index it));
          payload = uint (dp_payload x);
          location = dp_location x;
          s = (if payload \<ge> 1
               then s\<lparr>young_bytes :=
                      (young_bytes s)(location := young_bytes s location + pagesize s)\<rparr>
               else s)
      in if payload \<ge> nr_walks s
         then s\<lparr>top_bytes := (top_bytes s)(location := top_bytes s location + pagesize s)\<rparr>
         else s)"

definition do_walk_update_payload :: "addr_seq \<Rightarrow> walk_iterator \<Rightarrow> u8 \<Rightarrow> bool \<Rightarrow> addr_seq" where
  "do_walk_update_payload s it payload is_inc_payload =
     (let p = item_at (cur_delta_ptr it) (delta_index it); x = item_store s p
      in if is_inc_payload \<and> payload = 0 then s
         else let v = (if is_inc_payload then dp_payload x + 1 else payload);
                  s = s\<lparr>item_store := (item_store s)(p := x\<lparr>dp_payload := v\<rparr>)\<rparr>
              in update_addr_location_count s it)"

definition do_walk_update_nid :: "addr_seq \<Rightarrow> walk_iterator \<Rightarrow> int \<Rightarrow> int \<Rightarrow> addr_seq" where
  "do_walk_update_nid s it nid location =
     (let p = item_at (cur_delta_ptr it) (delta_index it);
          x = (item_store s p)\<lparr>dp_nid := nid, dp_location := location\<rparr>
      in update_addr_location_count (s\<lparr>item_store := (item_store s)(p := x)\<rparr>) it)"

text \<open>
  The search loop that \<open>update_addr\<close> and \<open>update_nodeid\<close> share: it advances the find iterator
  until the address is met, passed, or the sequence ends (reported as \<open>ADDR_NOT_FOUND\<close>).
\<close>

partial_function (option) find_loop ::
    "addr_seq \<Rightarrow> u64 \<Rightarrow> walk_iterator \<Rightarrow> (as_rc \<times> walk_iterator) option" where
  "find_loop s addr it =
     (case do_walk s it of
        None \<Rightarrow> Some (ADDR_NOT_FOUND, it)
      | Some (next_addr, _, _) \<Rightarrow>
          if next_addr = addr then Some (RC_OK, it)
          else if next_addr > addr then Some (ADDR_NOT_FOUND, it)
          else find_loop s addr (do_walk_move_next s it))"

definition update_addr :: "addr_seq \<Rightarrow> u64 \<Rightarrow> int \<Rightarrow> bool \<Rightarrow> (as_rc \<times> addr_seq) option" where
  "update_addr s addr n is_inc_payload =
     do { (rc, it) \<leftarrow> find_loop s addr (find_iter s);
          let s = s\<lparr>find_iter := it\<rparr>;
          Some (if rc = RC_OK
                then (RC_OK, do_walk_update_payload s it (word_of_int n) is_inc_payload)
                else (rc, s)) }"

definition update_nodeid :: "addr_seq \<Rightarrow> u64 \<Rightarrow> int \<Rightarrow> int \<Rightarrow> (as_rc \<times> addr_seq) option" where
  "update_nodeid s addr nid location =
     (if \<not> in_append_period s then Some (RC_REFUSED, s)
      else do { (rc, it) \<leftarrow> find_loop s addr (find_iter s);
                let s = s\<lparr>find_iter := it\<rparr>;
                Some (if rc = RC_OK then (RC_OK, do_walk_update_nid s it nid location)
                      else (rc, s)) })"

definition inc_payload :: "addr_seq \<Rightarrow> u64 \<Rightarrow> int \<Rightarrow> (as_rc \<times> addr_seq) option" where
  "inc_payload s addr n =
     (if in_append_period s then Some (append_addr s addr n) else update_addr s addr n True)"

definition set_payload :: "addr_seq \<Rightarrow> u64 \<Rightarrow> int \<Rightarrow> (as_rc \<times> addr_seq) option" where
  "set_payload s addr n =
     (if in_append_period s then Some (RC_REFUSED, s) else update_addr s addr n False)"

section \<open>Smoothing\<close>

text \<open>
  The inner loop of \<open>smooth_payloads\<close> over one cluster, from item \<open>i\<close> with the running average
  \<open>runavg\<close> (which the first item of the cluster sets).
\<close>

function smooth_cluster ::
    "addr_cluster \<Rightarrow> nat \<Rightarrow> int \<Rightarrow> (item_ptr \<Rightarrow> delta_payload) \<Rightarrow> (item_ptr \<Rightarrow> delta_payload)" where
  "smooth_cluster c i runavg st =
     (if i < ac_size c
      then let p = item_at (ac_deltas c) i; x = st p
           in if i = 0 \<or> dp_delta x > 3
              then smooth_cluster c (i + 1) (uint (dp_payload x)) st
              else let runavg = (7 + runavg * 7 + uint (dp_payload x)) div 8
                   in smooth_cluster c (i + 1) runavg
                        (st(p := x\<lparr>dp_payload := word_of_int runavg\<rparr>))
      else st)"
  by pat_completeness auto
termination
  by (relation "measure (\<lambda>(c, i, _, _). ac_size c - i)") auto

declare smooth_cluster.simps [simp del]

definition smooth_payloads :: "addr_seq \<Rightarrow> addr_seq" where
  "smooth_payloads s =
     s\<lparr>item_store := fold (\<lambda>c. smooth_cluster c 0 0) (addr_clusters s) (item_store s)\<rparr>"

section \<open>Sequential visiting\<close>

definition prepare_get :: "addr_seq \<Rightarrow> bool \<times> addr_seq" where
  "prepare_get s =
     (let is_empty = (addr_clusters s = [])
      in (\<not> is_empty,
          if is_empty then s else s\<lparr>walk_iter := reset_iterator s (walk_iter s) 0\<rparr>))"

definition get_next :: "addr_seq \<Rightarrow> (as_rc + u64 \<times> u8 \<times> int) \<times> addr_seq" where
  "get_next s =
     (case do_walk s (walk_iter s) of
        None \<Rightarrow> (Inl END_OF_SEQUENCE, s)
      | Some x \<Rightarrow> (Inr x, s\<lparr>walk_iter := do_walk_move_next s (walk_iter s)\<rparr>))"

definition get_first :: "addr_seq \<Rightarrow> (as_rc + u64 \<times> u8 \<times> int) \<times> addr_seq" where
  "get_first s =
     (let (ok, s) = prepare_get s in if \<not> ok then (Inl RC_REFUSED, s) else get_next s)"

text \<open>
  The loop every client of the sequence writes:
  \<open>rc = get_first(...); while (!rc) { body; rc = get_next(...); }\<close>. The body may change
  the sequence itself.
\<close>

partial_function (option) visit_loop ::
    "(u64 \<times> u8 \<times> int \<Rightarrow> 'b \<Rightarrow> addr_seq \<Rightarrow> ('b \<times> addr_seq) option) \<Rightarrow>
     as_rc + u64 \<times> u8 \<times> int \<Rightarrow> 'b \<Rightarrow> addr_seq \<Rightarrow> ('b \<times> addr_seq) option" where
  "visit_loop body rc b s =
     (case rc of
        Inl _ \<Rightarrow> Some (b, s)
      | Inr x \<Rightarrow> do { (b, s) \<leftarrow> body x b s;
                     let (rc, s) = get_next s;
                     visit_loop body rc b s })"

definition visit_all ::
    "(u64 \<times> u8 \<times> int \<Rightarrow> 'b \<Rightarrow> addr_seq \<Rightarrow> ('b \<times> addr_seq) option) \<Rightarrow>
     'b \<Rightarrow> addr_seq \<Rightarrow> ('b \<times> addr_seq) option" where
  "visit_all body b s = (let (rc, s) = get_first s in visit_loop body rc b s)"

end
