(* ===== verification/Addr_Sequence_View.thy ===== *)
theory Addr_Sequence_View
  imports Addr_Sequence
begin

text \<open>
  The abstract view of an address sequence: the list of its entries (address, payload, node,
  location) in order. \<open>seq_inv\<close> is the representation invariant; \<open>iter_at\<close> says that an iterator
  stands at a flat position. The lemmas show that an iterator moves through the entries one by one
  and that a write under it changes exactly one entry.
\<close>

unbundle bit_operations_syntax

section \<open>Cells, addresses and entries\<close>

definition cluster_cells :: "addr_cluster \<Rightarrow> item_ptr list" where
  "cluster_cells c = map (item_at (ac_deltas c)) [0..<ac_size c]"

definition cells :: "addr_seq \<Rightarrow> item_ptr list" where
  "cells s = concat (map cluster_cells (addr_clusters s))"

definition dist_upto :: "addr_seq \<Rightarrow> addr_cluster \<Rightarrow> nat \<Rightarrow> u64" where
  "dist_upto s c k = (\<Sum>i\<leftarrow>[0..<k]. ucast (dp_delta (item_store s (item_at (ac_deltas c) i))))"

definition cluster_addr :: "addr_seq \<Rightarrow> addr_cluster \<Rightarrow> nat \<Rightarrow> u64" where
  "cluster_addr s c i = ac_start c + push_bit (pageshift s) (dist_upto s c (Suc i))"

definition cluster_addrs :: "addr_seq \<Rightarrow> addr_cluster \<Rightarrow> u64 list" where
  "cluster_addrs s c = map (cluster_addr s c) [0..<ac_size c]"

definition addrs :: "addr_seq \<Rightarrow> u64 list" where
  "addrs s = concat (map (cluster_addrs s) (addr_clusters s))"

type_synonym entry = "u64 \<times> u8 \<times> int \<times> int"

definition entry_of :: "u64 \<Rightarrow> delta_payload \<Rightarrow> entry" where
  "entry_of a x = (a, dp_payload x, dp_nid x, dp_location x)"

definition contents :: "addr_seq \<Rightarrow> entry list" where
  "contents s = map2 entry_of (addrs s) (map (item_store s) (cells s))"

lemma length_cluster_cells [simp]: "length (cluster_cells c) = ac_size c"
  by (simp add: cluster_cells_def)

lemma length_cluster_addrs [simp]: "length (cluster_addrs s c) = ac_size c"
  by (simp add: cluster_addrs_def)

lemma cluster_cells_nth [simp]: "i < ac_size c \<Longrightarrow> cluster_cells c ! i = item_at (ac_deltas c) i"
  by (simp add: cluster_cells_def)

lemma cluster_addrs_nth [simp]: "i < ac_size c \<Longrightarrow> cluster_addrs s c ! i = cluster_addr s c i"
  by (simp add: cluster_addrs_def)

lemma length_cells: "length (cells s) = (\<Sum>c\<leftarrow>addr_clusters s. ac_size c)"
  by (simp add: cells_def length_concat_map)

lemma length_addrs [simp]: "length (addrs s) = length (cells s)"
  by (simp add: addrs_def length_cells length_concat_map)

lemma length_contents [simp]: "length (contents s) = length (cells s)"
  by (simp add: contents_def)

lemma contents_nth:
  "k < length (cells s) \<Longrightarrow> contents s ! k = entry_of (addrs s ! k) (item_store s (cells s ! k))"
  by (simp add: contents_def)

lemma map_fst_contents [simp]: "map fst (contents s) = addrs s"
  by (rule nth_equalityI) (simp_all add: contents_nth entry_of_def)

lemma dist_upto_0 [simp]: "dist_upto s c 0 = 0"
  by (simp add: dist_upto_def)

lemma dist_upto_Suc:
  "dist_upto s c (Suc k) =
     dist_upto s c k + ucast (dp_delta (item_store s (item_at (ac_deltas c) k)))"
  by (simp add: dist_upto_def)

section \<open>The representation invariant\<close>

definition cluster_before :: "addr_cluster \<Rightarrow> addr_cluster \<Rightarrow> bool" where
  "cluster_before c d \<longleftrightarrow>
     fst (ac_deltas c) < fst (ac_deltas d) \<or>
     fst (ac_deltas c) = fst (ac_deltas d) \<and> snd (ac_deltas c) + ac_size c \<le> snd (ac_deltas d)"

definition cluster_ok :: "nat \<Rightarrow> addr_cluster \<Rightarrow> bool" where
  "cluster_ok pool c \<longleftrightarrow>
     0 < ac_size c \<and> fst (ac_deltas c) < pool \<and> snd (ac_deltas c) + ac_size c \<le> MAX_ITEM_COUNT"

definition seq_inv :: "addr_seq \<Rightarrow> bool" where
  "seq_inv s \<longleftrightarrow>
     pageshift s \<le> 30 \<and> pagesize s = 2 ^ pageshift s \<and>
     buf_used_count s \<le> MAX_ITEM_COUNT \<and>
     (\<forall>c \<in> set (addr_clusters s). cluster_ok (buf_pool s) c) \<and>
     sorted_wrt cluster_before (addr_clusters s) \<and>
     addr_size s = of_nat (length (cells s)) \<and>
     sorted_wrt (<) (addrs s) \<and>
     (addr_clusters s \<noteq> [] \<longrightarrow>
        (let c = last (addr_clusters s)
         in item_at (ac_deltas c) (ac_size c) = (buf_pool s - 1, buf_used_count s))) \<and>
     (buf_pool s = 0 \<longrightarrow> buf_used_count s = MAX_ITEM_COUNT)"

lemma distinct_cluster_cells: "distinct (cluster_cells c)"
  by (simp add: cluster_cells_def distinct_map inj_on_def item_at_def)

lemma cluster_before_disjoint:
  "cluster_before c d \<Longrightarrow> set (cluster_cells c) \<inter> set (cluster_cells d) = {}"
  by (auto simp: cluster_before_def cluster_cells_def item_at_def)

lemma distinct_concat_cells:
  "sorted_wrt cluster_before cs \<Longrightarrow> distinct (concat (map cluster_cells cs))"
proof (induction cs)
  case Nil
  then show ?case by simp
next
  case (Cons c cs)
  then have "set (cluster_cells c) \<inter> set (cluster_cells d) = {}" if "d \<in> set cs" for d
    using cluster_before_disjoint that by simp
  then show ?case using Cons by (auto simp: distinct_cluster_cells)
qed

lemma seq_inv_distinct_cells: "seq_inv s \<Longrightarrow> distinct (cells s)"
  by (simp add: seq_inv_def cells_def distinct_concat_cells)

section \<open>Positions\<close>

definition flat_index :: "addr_seq \<Rightarrow> nat \<Rightarrow> nat \<Rightarrow> nat" where
  "flat_index s i j = (\<Sum>c\<leftarrow>take i (addr_clusters s). ac_size c) + j"

lemma cells_flat:
  assumes "i < length (addr_clusters s)" and "j < ac_size (addr_clusters s ! i)"
  shows "cells s ! flat_index s i j = item_at (ac_deltas (addr_clusters s ! i)) j"
  using nth_concat_map [of i "addr_clusters s" j cluster_cells] assms
  by (simp add: cells_def flat_index_def)

lemma addrs_flat:
  assumes "i < length (addr_clusters s)" and "j < ac_size (addr_clusters s ! i)"
  shows "addrs s ! flat_index s i j = cluster_addr s (addr_clusters s ! i) j"
  using nth_concat_map [of i "addr_clusters s" j "cluster_addrs s"] assms
  by (simp add: addrs_def flat_index_def)

lemma flat_index_less:
  assumes "i < length (addr_clusters s)" and "j < ac_size (addr_clusters s ! i)"
  shows "flat_index s i j < length (cells s)"
  using concat_map_index_less [of i "addr_clusters s" j cluster_cells] assms
  by (simp add: cells_def flat_index_def)

lemma flat_index_Suc_cluster:
  assumes "i < length (addr_clusters s)"
  shows "flat_index s (Suc i) 0 = flat_index s i (ac_size (addr_clusters s ! i))"
  using assms by (simp add: flat_index_def take_Suc_conv_app_nth)

lemma flat_index_end: "flat_index s (length (addr_clusters s)) 0 = length (cells s)"
  by (simp add: flat_index_def length_cells)

definition iter_at :: "addr_seq \<Rightarrow> walk_iterator \<Rightarrow> nat \<Rightarrow> bool" where
  "iter_at s it k \<longleftrightarrow>
     cluster_iter_end it = length (addr_clusters s) \<and>
     (cluster_iter it = length (addr_clusters s) \<and> k = length (cells s) \<or>
      cluster_iter it < length (addr_clusters s) \<and>
      cur_cluster_ptr it = cluster_iter it \<and>
      cur_delta_ptr it = ac_deltas (addr_clusters s ! cluster_iter it) \<and>
      delta_index it < ac_size (addr_clusters s ! cluster_iter it) \<and>
      delta_sum it = dist_upto s (addr_clusters s ! cluster_iter it) (delta_index it) \<and>
      k = flat_index s (cluster_iter it) (delta_index it))"

definition sizes_pos :: "addr_seq \<Rightarrow> bool" where
  "sizes_pos s \<longleftrightarrow> (\<forall>c \<in> set (addr_clusters s). 0 < ac_size c)"

lemma seq_inv_sizes_pos: "seq_inv s \<Longrightarrow> sizes_pos s"
  by (simp add: seq_inv_def sizes_pos_def cluster_ok_def)

lemma iter_at_le: "iter_at s it k \<Longrightarrow> k \<le> length (cells s)"
  by (auto simp: iter_at_def intro: less_imp_le flat_index_less)

lemma iter_at_end_iff:
  "iter_at s it k \<Longrightarrow> cluster_iter it = cluster_iter_end it \<longleftrightarrow> k = length (cells s)"
  using flat_index_less by (fastforce simp: iter_at_def)

lemma iter_at_reset:
  assumes "sizes_pos s"
  shows "iter_at s (reset_iterator s it 0) 0"
proof (cases "addr_clusters s = []")
  case True
  then show ?thesis by (simp add: iter_at_def reset_iterator_def length_cells)
next
  case False
  then show ?thesis using assms
    by (simp add: iter_at_def reset_iterator_def do_walk_update_current_ptr_def
        flat_index_def sizes_pos_def)
qed

lemma do_walk_at:
  assumes "iter_at s it k" and "k < length (cells s)"
  shows "do_walk s it =
           Some (addrs s ! k, dp_payload (item_store s (cells s ! k)),
                 dp_nid (item_store s (cells s ! k)))"
proof -
  let ?i = "cluster_iter it" and ?j = "delta_index it"
  have pos: "?i < length (addr_clusters s)" "?j < ac_size (addr_clusters s ! ?i)"
    "k = flat_index s ?i ?j"
    using assms by (auto simp: iter_at_def)
  then show ?thesis using assms
    by (simp add: iter_at_def do_walk_def cells_flat addrs_flat cluster_addr_def
        dist_upto_Suc Let_def)
qed

lemma do_walk_at_end: "iter_at s it (length (cells s)) \<Longrightarrow> do_walk s it = None"
  using iter_at_end_iff by (simp add: do_walk_def)

lemma iter_at_move_next:
  assumes "iter_at s it k" and "k < length (cells s)" and "sizes_pos s"
  shows "iter_at s (do_walk_move_next s it) (Suc k)"
proof -
  let ?i = "cluster_iter it" and ?j = "delta_index it"
  let ?c = "addr_clusters s ! ?i"
  have pos: "?i < length (addr_clusters s)" "?j < ac_size ?c" "k = flat_index s ?i ?j"
    "cur_cluster_ptr it = ?i" "cur_delta_ptr it = ac_deltas ?c"
    "delta_sum it = dist_upto s ?c ?j" "cluster_iter_end it = length (addr_clusters s)"
    using assms by (auto simp: iter_at_def)
  show ?thesis
  proof (cases "Suc ?j < ac_size ?c")
    case True
    then show ?thesis using pos
      by (simp add: iter_at_def do_walk_move_next_def dist_upto_Suc flat_index_def Let_def)
  next
    case False
    then have k: "Suc k = flat_index s (Suc ?i) 0"
      using pos flat_index_Suc_cluster [of ?i s] by (simp add: flat_index_def)
    show ?thesis
    proof (cases "Suc ?i < length (addr_clusters s)")
      case True
      then show ?thesis using pos k False assms(3)
        by (simp add: iter_at_def do_walk_move_next_def do_walk_update_current_ptr_def
            sizes_pos_def Let_def)
    next
      case last: False
      then have "Suc ?i = length (addr_clusters s)" using pos by simp
      then show ?thesis using pos k False flat_index_end [of s]
        by (simp add: iter_at_def do_walk_move_next_def Let_def)
    qed
  qed
qed

lemma iter_at_cell:
  assumes "iter_at s it k" and "k < length (cells s)"
  shows "item_at (cur_delta_ptr it) (delta_index it) = cells s ! k"
proof -
  let ?i = "cluster_iter it" and ?j = "delta_index it"
  have "?i < length (addr_clusters s)" "?j < ac_size (addr_clusters s ! ?i)"
    "k = flat_index s ?i ?j" "cur_delta_ptr it = ac_deltas (addr_clusters s ! ?i)"
    using assms by (auto simp: iter_at_def)
  then show ?thesis by (simp add: cells_flat)
qed

section \<open>Writes that keep the addresses\<close>

text \<open>
  \<open>same_shape s t\<close>: \<open>t\<close> differs from \<open>s\<close> only in fields that neither the addresses nor the
  iterators depend on.
\<close>

definition same_shape :: "addr_seq \<Rightarrow> addr_seq \<Rightarrow> bool" where
  "same_shape s t \<longleftrightarrow>
     addr_clusters t = addr_clusters s \<and> pageshift t = pageshift s \<and> pagesize t = pagesize s \<and>
     addr_size t = addr_size s \<and> buf_pool t = buf_pool s \<and>
     buf_used_count t = buf_used_count s \<and> nr_walks t = nr_walks s \<and>
     (\<forall>p. dp_delta (item_store t p) = dp_delta (item_store s p))"

lemma same_shape_refl [simp, intro]: "same_shape s s"
  by (simp add: same_shape_def)

lemma same_shape_trans [trans]: "same_shape s t \<Longrightarrow> same_shape t u \<Longrightarrow> same_shape s u"
  by (simp add: same_shape_def)

lemma same_shape_dist: "same_shape s t \<Longrightarrow> dist_upto t c k = dist_upto s c k"
  by (simp add: same_shape_def dist_upto_def item_at_def)

lemma same_shape_cells: "same_shape s t \<Longrightarrow> cells t = cells s"
  by (simp add: same_shape_def cells_def)

lemma same_shape_addrs: "same_shape s t \<Longrightarrow> addrs t = addrs s"
proof -
  assume sh: "same_shape s t"
  then have "cluster_addrs t c = cluster_addrs s c" for c
    using same_shape_dist [OF sh] by (simp add: cluster_addrs_def cluster_addr_def same_shape_def)
  then show ?thesis using sh by (simp add: addrs_def same_shape_def cong: map_cong)
qed

lemma same_shape_inv: "same_shape s t \<Longrightarrow> seq_inv s \<Longrightarrow> seq_inv t"
  using same_shape_cells [of s t] same_shape_addrs [of s t]
  by (simp add: seq_inv_def same_shape_def)

lemma same_shape_iter: "same_shape s t \<Longrightarrow> iter_at t it k \<longleftrightarrow> iter_at s it k"
  using same_shape_cells [of s t] same_shape_dist [of s t]
  by (simp add: iter_at_def same_shape_def flat_index_def)

lemma same_shape_contents:
  assumes "same_shape s t" and "\<forall>p \<in> set (cells s). item_store t p = item_store s p"
  shows "contents t = contents s"
  using assms same_shape_cells same_shape_addrs
  by (simp add: contents_def cong: map_cong)

lemmas same_shape_simps = same_shape_cells same_shape_addrs same_shape_iter

lemma contents_write:
  assumes "seq_inv s" and "k < length (cells s)" and "same_shape s t"
    and "item_store t = (item_store s)(cells s ! k := x)"
  shows "contents t = (contents s)[k := entry_of (addrs s ! k) x]"
proof -
  have "map (item_store t) (cells t) = (map (item_store s) (cells s))[k := x]"
    using assms map_upd_distinct [OF seq_inv_distinct_cells] by (simp add: same_shape_cells)
  then show ?thesis using assms
    by (intro nth_equalityI)
      (auto simp: contents_def same_shape_cells same_shape_addrs nth_list_update)
qed

end
