(* ===== verification/Addr_Sequence_Append.thy ===== *)
theory Addr_Sequence_Append
  imports Addr_Sequence_View
begin

text \<open>
  The append period of the address sequence: \<open>append_addr\<close> against the abstract rule "a new address
  is kept when it lies beyond the last one", with the encoding of the distance in one byte, the
  placement of the item in its buffer, and the failures of the allocators.
\<close>

unbundle bit_operations_syntax

definition append_ready :: "addr_seq \<Rightarrow> bool" where
  "append_ready s \<longleftrightarrow> addr_clusters s \<noteq> [] \<longrightarrow> last_cluster_end s = last (addrs s)"

lemma cells_snoc:
  "addr_clusters s = cs @ [c] \<Longrightarrow> cells s = concat (map cluster_cells cs) @ cluster_cells c"
  by (simp add: cells_def)

lemma addrs_snoc:
  "addr_clusters s = cs @ [c] \<Longrightarrow>
     addrs s = concat (map (cluster_addrs s) cs) @ cluster_addrs s c"
  by (simp add: addrs_def)

lemma cluster_addrs_cong:
  assumes "pageshift t = pageshift s" and "\<forall>p \<in> set (cluster_cells c). item_store t p = item_store s p"
  shows "cluster_addrs t c = cluster_addrs s c"
proof -
  have "dist_upto t c k = dist_upto s c k" if "k \<le> ac_size c" for k
    using assms(2) that by (induction k) (auto simp: dist_upto_Suc cluster_cells_def)
  then show ?thesis using assms(1) by (simp add: cluster_addrs_def cluster_addr_def)
qed

lemma view_cong:
  assumes "addr_clusters t = addr_clusters s" and "pageshift t = pageshift s"
    and "item_store t = item_store s"
  shows "cells t = cells s" and "addrs t = addrs s" and "contents t = contents s"
proof -
  have "cluster_addrs t = cluster_addrs s"
    by (rule ext, rule cluster_addrs_cong) (simp_all add: assms)
  then show c: "cells t = cells s" and a: "addrs t = addrs s"
    by (simp_all add: cells_def addrs_def assms)
  show "contents t = contents s" by (simp add: contents_def c a assms)
qed

lemma addrs_nonempty: "seq_inv s \<Longrightarrow> addr_clusters s \<noteq> [] \<Longrightarrow> cells s \<noteq> []"
  using seq_inv_sizes_pos [of s] by (cases "addr_clusters s") (auto simp: cells_def sizes_pos_def cluster_cells_def)

lemma last_addr:
  assumes "addr_clusters s = cs @ [c]" and "0 < ac_size c"
  shows "last (addrs s) = ac_start c + push_bit (pageshift s) (dist_upto s c (ac_size c))"
  using assms
  by (cases "ac_size c") (auto simp: addrs_snoc cluster_addrs_def cluster_addr_def last_map)

section \<open>Saving an item behind the last cluster\<close>

text \<open>
  What \<open>save_into_cluster\<close> needs: the free slot behind the last cluster, and a distance that the
  byte \<open>delta\<close> can express.
\<close>

definition can_save :: "addr_seq \<Rightarrow> addr_cluster list \<Rightarrow> addr_cluster \<Rightarrow> u64 \<Rightarrow> bool" where
  "can_save s cs c a \<longleftrightarrow>
     addr_clusters s = cs @ [c] \<and>
     item_at (ac_deltas c) (ac_size c) \<notin> set (cells s) \<and>
     (let delta = drop_bit (pageshift s) (a - last_cluster_end s)
      in delta \<le> 255 \<and>
         a = ac_start c + push_bit (pageshift s) (dist_upto s c (ac_size c) + delta))"

lemma save_into_cluster_view:
  fixes n :: int
  assumes "can_save s cs c a"
  defines "t \<equiv> snd (save_into_cluster s a n)"
  shows "fst (save_into_cluster s a n) = RC_OK"
    and "addr_clusters t = cs @ [c\<lparr>ac_size := ac_size c + 1\<rparr>]"
    and "cells t = cells s @ [item_at (ac_deltas c) (ac_size c)]"
    and "addrs t = addrs s @ [a]"
    and "contents t = contents s @ [(a, word_of_int n, - 1, LOC_DRAM)]"
proof -
  let ?p = "item_at (ac_deltas c) (ac_size c)"
  let ?c = "c\<lparr>ac_size := ac_size c + 1\<rparr>"
  let ?delta = "drop_bit (pageshift s) (a - last_cluster_end s)"
  let ?x = "\<lparr>dp_delta = ucast ?delta, dp_payload = word_of_int n, dp_nid = - 1,
             dp_location = LOC_DRAM\<rparr>"
  from assms(1) have cl: "addr_clusters s = cs @ [c]" and fresh: "?p \<notin> set (cells s)"
    and small: "?delta \<le> 255"
    and a: "a = ac_start c + push_bit (pageshift s) (dist_upto s c (ac_size c) + ?delta)"
    by (auto simp: can_save_def Let_def)
  show "fst (save_into_cluster s a n) = RC_OK"
    by (simp add: save_into_cluster_def Let_def)
  show clt: "addr_clusters t = cs @ [?c]"
    by (simp add: t_def save_into_cluster_def cl Let_def)
  have st: "item_store t = (item_store s)(?p := ?x)" and sh: "pageshift t = pageshift s"
    by (simp_all add: t_def save_into_cluster_def cl Let_def)
  show ct: "cells t = cells s @ [?p]"
    by (simp add: cells_snoc [OF clt] cells_snoc [OF cl] cluster_cells_def)
  have old: "item_store t p = item_store s p" if "p \<in> set (cells s)" for p
    using st fresh that by auto
  have pre: "concat (map (cluster_addrs t) cs) = concat (map (cluster_addrs s) cs)"
    using old sh by (intro arg_cong [where f = concat] map_cong refl cluster_addrs_cong)
      (auto simp: cells_snoc [OF cl])
  have "dist_upto t ?c k = dist_upto s c k" if "k \<le> ac_size c" for k
    using that old
    by (induction k) (auto simp: dist_upto_Suc cells_snoc [OF cl] cluster_cells_def)
  moreover have "dist_upto t ?c (Suc (ac_size c)) = dist_upto s c (ac_size c) + ?delta"
    using st small calculation [of "ac_size c"] by (simp add: dist_upto_Suc ucast_u8_u64_id)
  ultimately have "cluster_addrs t ?c = cluster_addrs s c @ [a]"
    using sh a by (simp add: cluster_addrs_def cluster_addr_def)
  then show at: "addrs t = addrs s @ [a]"
    by (simp add: addrs_snoc [OF clt] addrs_snoc [OF cl] pre)
  have "map (item_store t) (cells t) = map (item_store s) (cells s) @ [?x]"
    using ct old st by simp
  then show "contents t = contents s @ [(a, word_of_int n, - 1, LOC_DRAM)]"
    by (simp add: contents_def at entry_of_def)
qed

text \<open>\<open>slot_before s c\<close>: the slot that \<open>get_free_buffer\<close> gives lies behind every cluster.\<close>

lemma clusters_before_end:
  assumes "seq_inv s" and "c \<in> set (addr_clusters s)"
  shows "fst (ac_deltas c) < buf_pool s - 1 \<or>
         fst (ac_deltas c) = buf_pool s - 1 \<and> snd (ac_deltas c) + ac_size c \<le> buf_used_count s"
proof -
  obtain cs d where cl: "addr_clusters s = cs @ [d]"
    using assms(2) by (cases "addr_clusters s" rule: rev_cases) auto
  then have d: "fst (ac_deltas d) = buf_pool s - 1" "snd (ac_deltas d) + ac_size d = buf_used_count s"
    using assms(1) by (auto simp: seq_inv_def item_at_def Let_def)
  show ?thesis
  proof (cases "c = d")
    case True
    then show ?thesis using d by simp
  next
    case False
    then have "cluster_before c d"
      using assms cl by (auto simp: seq_inv_def sorted_wrt_append)
    then show ?thesis using d by (auto simp: cluster_before_def)
  qed
qed

lemma cells_before_slot:
  assumes "seq_inv s" and "p \<in> set (cells s)"
  shows "fst p < buf_pool s - 1 \<or> fst p = buf_pool s - 1 \<and> snd p < buf_used_count s"
proof -
  obtain c where c: "c \<in> set (addr_clusters s)" and p: "p \<in> set (cluster_cells c)"
    using assms(2) by (auto simp: cells_def)
  then show ?thesis
    using clusters_before_end [OF assms(1) c] by (auto simp: cluster_cells_def item_at_def)
qed

section \<open>The invariant across a save\<close>

lemma sorted_wrt_before_resize:
  "sorted_wrt cluster_before (cs @ [c]) \<Longrightarrow>
     sorted_wrt cluster_before (cs @ [c\<lparr>ac_size := k\<rparr>])"
  by (auto simp: sorted_wrt_append cluster_before_def)

lemma save_into_cluster_inv:
  assumes "can_save s cs c a" and "pageshift s \<le> 30" and "pagesize s = 2 ^ pageshift s"
    and "item_at (ac_deltas c) (ac_size c) = (buf_pool s - 1, buf_used_count s)"
    and "buf_used_count s < MAX_ITEM_COUNT" and "0 < buf_pool s"
    and "\<forall>d \<in> set cs. cluster_ok (buf_pool s) d" and "sorted_wrt cluster_before (cs @ [c])"
    and "addr_size s = of_nat (length (cells s))"
    and "sorted_wrt (<) (addrs s)" and "addrs s \<noteq> [] \<Longrightarrow> last (addrs s) < a"
  shows "seq_inv (snd (save_into_cluster s a n))"
    and "append_ready (snd (save_into_cluster s a n))"
proof -
  let ?t = "snd (save_into_cluster s a n)"
  note view = save_into_cluster_view [OF assms(1), of n]
  have flds: "pageshift ?t = pageshift s" "pagesize ?t = pagesize s" "buf_pool ?t = buf_pool s"
    "buf_used_count ?t = buf_used_count s + 1" "addr_size ?t = addr_size s + 1"
    "last_cluster_end ?t = a"
    by (simp_all add: save_into_cluster_def Let_def)
  have "\<forall>x \<in> set (addrs s). x < a"
    using assms(10,11) by (cases "addrs s" rule: rev_cases) (auto simp: sorted_wrt_append)
  then have asc: "sorted_wrt (<) (addrs s @ [a])"
    using assms(10) by (simp add: sorted_wrt_append)
  have pos: "fst (ac_deltas c) = buf_pool s - 1"
    "snd (ac_deltas c) + ac_size c = buf_used_count s"
    using assms(4) by (auto simp: item_at_def)
  show "seq_inv ?t"
    using assms asc pos sorted_wrt_before_resize [OF assms(8), of "Suc (ac_size c)"]
    by (auto simp: seq_inv_def view flds cluster_ok_def item_at_def Let_def)
  show "append_ready ?t" by (simp add: append_ready_def view flds)
qed

section \<open>Opening a cluster\<close>

text \<open>The state between \<open>get_free_buffer\<close> and \<open>save_into_cluster\<close>: a free slot behind all clusters.\<close>

definition slot_ready :: "addr_seq \<Rightarrow> bool" where
  "slot_ready s \<longleftrightarrow>
     pageshift s \<le> 30 \<and> pagesize s = 2 ^ pageshift s \<and>
     (\<forall>c \<in> set (addr_clusters s). cluster_ok (buf_pool s) c \<and>
        (fst (ac_deltas c) < buf_pool s - 1 \<or>
         fst (ac_deltas c) = buf_pool s - 1 \<and>
         snd (ac_deltas c) + ac_size c \<le> buf_used_count s)) \<and>
     sorted_wrt cluster_before (addr_clusters s) \<and> addr_size s = of_nat (length (cells s)) \<and>
     sorted_wrt (<) (addrs s) \<and> 0 < buf_pool s \<and> buf_used_count s < MAX_ITEM_COUNT"

lemma seq_inv_slot_ready: "seq_inv s \<Longrightarrow> \<not> is_buffer_full s \<Longrightarrow> slot_ready s"
  using clusters_before_end [of s]
  by (cases "buf_pool s = 0") (auto simp: seq_inv_def slot_ready_def is_buffer_full_def)

definition buf_ok :: "addr_seq \<Rightarrow> bool" where
  "buf_ok s \<longleftrightarrow> is_buffer_full s \<longrightarrow> buf_oom s = [] \<or> \<not> hd (buf_oom s)"

definition vec_ok :: "addr_seq \<Rightarrow> bool" where
  "vec_ok s \<longleftrightarrow> vec_oom s = [] \<or> \<not> hd (vec_oom s)"

lemma get_free_buffer_ok:
  assumes "seq_inv s" and "buf_ok s"
  obtains t where "get_free_buffer s = (Inr (buf_pool t - 1, buf_used_count t), t)"
    and "slot_ready t" and "addr_clusters t = addr_clusters s" and "pageshift t = pageshift s"
    and "item_store t = item_store s" and "nr_walks t = nr_walks s" and "vec_oom t = vec_oom s"
proof (cases "is_buffer_full s")
  case False
  then show ?thesis using that [of s] seq_inv_slot_ready [OF assms(1)]
    by (simp add: get_free_buffer_def rc_negative_def)
next
  case True
  let ?t = "s\<lparr>buf_oom := tl (buf_oom s), buf_pool := buf_pool s + 1, buf_used_count := 0\<rparr>"
  have view: "cells ?t = cells s" "addrs ?t = addrs s"
    using view_cong [of ?t s] by simp_all
  have "slot_ready ?t" unfolding slot_ready_def view
    using assms(1) by (auto simp: seq_inv_def cluster_ok_def)
  moreover have "get_free_buffer s = (Inr (buf_pool ?t - 1, buf_used_count ?t), ?t)"
    using True assms(2)
    by (auto simp: get_free_buffer_def allocate_buf_def buf_ok_def rc_negative_def Let_def)
  ultimately show ?thesis using that [of ?t] by simp
qed

lemma create_cluster_at_slot:
  fixes n :: int and it :: walk_iterator
  assumes ready: "slot_ready s" and last: "addrs s \<noteq> [] \<Longrightarrow> last (addrs s) < a"
  defines "c \<equiv> new_cluster a (buf_pool s - 1, buf_used_count s)"
  defines "u \<equiv> s\<lparr>addr_clusters := addr_clusters s @ [c], last_cluster_end := a,
                  find_iter := it\<rparr>"
  shows "can_save u (addr_clusters s) c a"
    and "seq_inv (snd (save_into_cluster u a n))"
    and "append_ready (snd (save_into_cluster u a n))"
    and "contents u = contents s"
proof -
  have c: "ac_size c = 0" "ac_start c = a" "ac_deltas c = (buf_pool s - 1, buf_used_count s)"
    by (simp_all add: c_def new_cluster_def)
  have cu: "cells u = cells s" by (simp add: cells_def u_def cluster_cells_def c)
  have cau: "cluster_addrs u = cluster_addrs s"
    by (rule ext, rule cluster_addrs_cong) (simp_all add: u_def)
  have "addr_clusters u = addr_clusters s @ [c]" by (simp add: u_def)
  moreover have "cluster_addrs s c = []" by (simp add: cluster_addrs_def c)
  ultimately have au: "addrs u = addrs s" by (simp add: addrs_def cau)
  show "contents u = contents s" by (simp add: contents_def cu au) (simp add: u_def)
  have "(buf_pool s - 1, buf_used_count s) \<notin> set (cells s)"
    using ready by (fastforce simp: cells_def cluster_cells_def item_at_def slot_ready_def)
  then show save: "can_save u (addr_clusters s) c a"
    by (simp add: can_save_def cu c item_at_def) (simp add: u_def c)
  have "cluster_before d c" if "d \<in> set (addr_clusters s)" for d
    using ready that by (auto simp: cluster_before_def c slot_ready_def)
  then have "sorted_wrt cluster_before (addr_clusters s @ [c])"
    using ready by (simp add: sorted_wrt_append slot_ready_def)
  moreover have "item_at (ac_deltas c) (ac_size c) = (buf_pool s - 1, buf_used_count s)"
    by (simp add: c item_at_def)
  ultimately show "seq_inv (snd (save_into_cluster u a n))"
      "append_ready (snd (save_into_cluster u a n))"
    using save_into_cluster_inv [OF save, of n] ready last unfolding cu au
    by (simp_all add: u_def slot_ready_def)
qed

text \<open>What a successful append leaves.\<close>

definition appended :: "addr_seq \<Rightarrow> u64 \<Rightarrow> int \<Rightarrow> addr_seq \<Rightarrow> bool" where
  "appended s a n t \<longleftrightarrow>
     seq_inv t \<and> append_ready t \<and> nr_walks t = nr_walks s \<and>
     contents t = contents s @ [(a, word_of_int n, - 1, LOC_DRAM)]"

lemma appended_save:
  assumes "can_save u cs c a" and "seq_inv (snd (save_into_cluster u a n))"
    and "append_ready (snd (save_into_cluster u a n))"
    and "contents u = contents s" and "nr_walks u = nr_walks s"
  shows "appended s a n (snd (save_into_cluster u a n))"
  using assms save_into_cluster_view [OF assms(1), of n]
  by (simp add: appended_def) (simp add: save_into_cluster_def Let_def)

lemma create_cluster_ok:
  assumes "seq_inv s" and "addrs s \<noteq> [] \<Longrightarrow> last (addrs s) < a" and "vec_ok s" and "buf_ok s"
  shows "fst (create_cluster s a n) = RC_OK \<and> appended s a n (snd (create_cluster s a n))"
proof -
  obtain t where gfb: "get_free_buffer s = (Inr (buf_pool t - 1, buf_used_count t), t)"
    and ready: "slot_ready t"
    and keep: "addr_clusters t = addr_clusters s" "pageshift t = pageshift s"
      "item_store t = item_store s" "nr_walks t = nr_walks s" "vec_oom t = vec_oom s"
    using get_free_buffer_ok [OF assms(1,4)] .
  define t2 where "t2 = t\<lparr>vec_oom := tl (vec_oom t)\<rparr>"
  have view: "cells t2 = cells t" "addrs t2 = addrs t" "contents t2 = contents t"
    using view_cong [of t2 t] by (simp_all add: t2_def)
  have ready2: "slot_ready t2" using ready view by (simp add: slot_ready_def) (simp add: t2_def)
  have ts: "addrs t = addrs s" "contents t = contents s"
    by (simp_all add: view_cong [OF keep(1,2,3)])
  have last: "addrs t2 \<noteq> [] \<Longrightarrow> last (addrs t2) < a" using assms(2) by (simp add: view ts)
  let ?c = "new_cluster a (buf_pool t2 - 1, buf_used_count t2)"
  define it where "it = reset_iterator (t2\<lparr>addr_clusters := addr_clusters t2 @ [?c],
    last_cluster_end := a\<rparr>) (find_iter t2) (length (addr_clusters t2))"
  define u where "u = t2\<lparr>addr_clusters := addr_clusters t2 @ [?c], last_cluster_end := a,
    find_iter := it\<rparr>"
  have "create_cluster s a n = save_into_cluster u a n"
    using assms(3) keep
    by (auto simp: create_cluster_def gfb vec_ok_def Let_def u_def it_def t2_def)
  moreover have "appended s a n (snd (save_into_cluster u a n))"
  proof (rule appended_save)
    show "contents u = contents s"
      using create_cluster_at_slot(4) [OF ready2 last] view ts by (simp add: u_def)
    show "nr_walks u = nr_walks s" by (simp add: u_def t2_def keep)
  qed (use create_cluster_at_slot(1-3) [OF ready2 last] in \<open>simp_all add: u_def\<close>)
  ultimately show ?thesis by (simp add: save_into_cluster_def Let_def)
qed

lemma create_cluster_nomem:
  assumes "seq_inv s" and "append_ready s" and "\<not> buf_ok s"
  shows "fst (create_cluster s a n) = RC_NOMEM" and "seq_inv (snd (create_cluster s a n))"
    and "append_ready (snd (create_cluster s a n))"
    and "contents (snd (create_cluster s a n)) = contents s"
proof -
  let ?t = "s\<lparr>buf_oom := tl (buf_oom s)\<rparr>"
  have c: "create_cluster s a n = (RC_NOMEM, ?t)"
    using assms(3)
    by (auto simp: create_cluster_def get_free_buffer_def allocate_buf_def buf_ok_def
        rc_negative_def Let_def)
  have view: "cells ?t = cells s" "addrs ?t = addrs s" "contents ?t = contents s"
    using view_cong [of ?t s] by simp_all
  show "fst (create_cluster s a n) = RC_NOMEM" "contents (snd (create_cluster s a n)) = contents s"
    by (simp_all add: c view)
  show "seq_inv (snd (create_cluster s a n))" "append_ready (snd (create_cluster s a n))"
    using assms(1,2) by (simp_all add: c seq_inv_def append_ready_def view)
qed

section \<open>Appending to the last cluster\<close>

lemma merge_can_save:
  assumes "seq_inv s" and "append_ready s" and "addr_clusters s = cs @ [c]"
    and "can_merge_into_cluster s a"
  shows "can_save s cs c a"
proof -
  let ?d = "a - last_cluster_end s" and ?k = "pageshift s"
  have k: "?k \<le> 30" "pagesize s = 2 ^ ?k" "0 < ac_size c"
    using assms(1,3) by (auto simp: seq_inv_def cluster_ok_def)
  from assms(4) have small: "drop_bit ?k ?d \<le> 255"
    and al: "(ucast (?d AND (pagesize s - 1)) :: u32) = 0"
    by (auto simp: can_merge_into_cluster_def Let_def)
  have "?d AND (2 ^ ?k - 1) = 0"
    using al k ucast_u32_take_bit_eq_0 [OF k(1)] by (simp add: and_pow2_minus1_eq_take_bit)
  then have pd: "push_bit ?k (drop_bit ?k ?d) = ?d" by (rule push_drop_bit_aligned)
  have "last_cluster_end s = ac_start c + push_bit ?k (dist_upto s c (ac_size c))"
    using assms(2,3) last_addr [OF assms(3) k(3)] by (simp add: append_ready_def)
  then have "a = ac_start c + push_bit ?k (dist_upto s c (ac_size c) + drop_bit ?k ?d)"
    using pd by (simp add: push_bit_add)
  moreover have "item_at (ac_deltas c) (ac_size c) = (buf_pool s - 1, buf_used_count s)"
    using assms(1,3) by (simp add: seq_inv_def Let_def)
  then have "item_at (ac_deltas c) (ac_size c) \<notin> set (cells s)"
    using cells_before_slot [OF assms(1)] by fastforce
  ultimately show ?thesis using assms(3) small by (simp add: can_save_def Let_def)
qed

lemma merge_ok:
  assumes "seq_inv s" and "append_ready s" and "addr_clusters s = cs @ [c]"
    and "can_merge_into_cluster s a" and "last (addrs s) < a"
  shows "appended s a n (snd (save_into_cluster s a n))"
proof -
  note save = merge_can_save [OF assms(1-4)]
  have nf: "\<not> is_buffer_full s" using assms(4) by (simp add: can_merge_into_cluster_def Let_def)
  have ready: "slot_ready s" using seq_inv_slot_ready [OF assms(1) nf] .
  have c: "item_at (ac_deltas c) (ac_size c) = (buf_pool s - 1, buf_used_count s)"
    using assms(1,3) by (simp add: seq_inv_def Let_def)
  have "seq_inv (snd (save_into_cluster s a n))" "append_ready (snd (save_into_cluster s a n))"
    using save_into_cluster_inv [OF save _ _ c, of n] ready assms(3,5)
    by (auto simp: slot_ready_def)
  then show ?thesis using appended_save [OF save] by simp
qed

section \<open>Append against its specification\<close>

lemma append_addr_new:
  assumes "seq_inv s" and "append_ready s" and "addrs s = [] \<or> last (addrs s) < a"
    and "vec_ok s" and "buf_ok s"
  shows "fst (append_addr s a n) = RC_OK \<and> appended s a n (snd (append_addr s a n))"
proof (cases "addr_clusters s" rule: rev_cases)
  case Nil
  then show ?thesis using create_cluster_ok [OF assms(1)] assms(3-5)
    by (auto simp: append_addr_def addrs_def)
next
  case (snoc cs c)
  have ne: "addrs s \<noteq> []" using addrs_nonempty [OF assms(1)] snoc by (metis length_0_conv length_addrs snoc_eq_iff_butlast)
  with assms(2,3) snoc have less: "last_cluster_end s < a" "last (addrs s) < a"
    by (auto simp: append_ready_def)
  show ?thesis
  proof (cases "can_merge_into_cluster s a")
    case True
    then show ?thesis using merge_ok [OF assms(1,2) snoc True less(2)] less snoc
      by (simp add: append_addr_def not_le) (simp add: save_into_cluster_def Let_def)
  next
    case False
    then show ?thesis using create_cluster_ok [OF assms(1) _ assms(4,5)] less snoc
      by (simp add: append_addr_def not_le)
  qed
qed

lemma append_addr_old:
  assumes "seq_inv s" and "append_ready s" and "addrs s \<noteq> []" and "a \<le> last (addrs s)"
  shows "append_addr s a n = (IGNORE_DUPLICATED_ADDR, s)"
  using assms by (auto simp: append_addr_def append_ready_def addrs_def)

end
