(* ===== verification/Addr_Sequence_Update.thy ===== *)
theory Addr_Sequence_Update
  imports Addr_Sequence_Append
begin

text \<open>
  Searching, updating and visiting: the find iterator against a search in the sorted address list,
  the update operations against \<open>map_at\<close> on the entries together with the byte counters they
  keep, and the visiting loop of the clients against a fold over the entries.
\<close>

unbundle bit_operations_syntax

section \<open>The search loop\<close>

definition locate :: "u64 list \<Rightarrow> u64 \<Rightarrow> nat" where
  "locate xs a = length (takeWhile (\<lambda>x. x < a) xs)"

lemma locate_le: "locate xs a \<le> length xs"
  by (simp add: locate_def length_takeWhile_le)

lemma locate_less: "i < locate xs a \<Longrightarrow> xs ! i < a"
  unfolding locate_def by (metis nth_mem set_takeWhileD takeWhile_nth)

lemma locate_hit: "locate xs a < length xs \<Longrightarrow> \<not> xs ! locate xs a < a"
  unfolding locate_def by (rule nth_length_takeWhile)

lemma locate_mem_iff:
  assumes "sorted_wrt (<) xs"
  shows "a \<in> set xs \<longleftrightarrow> locate xs a < length xs \<and> xs ! locate xs a = a"
proof
  assume "a \<in> set xs"
  then obtain i where i: "i < length xs" "xs ! i = a" by (auto simp: in_set_conv_nth)
  have ge: "locate xs a \<le> i" using locate_less [of i xs a] i by force
  then have "xs ! locate xs a \<le> a"
  proof (cases "locate xs a = i")
    case False
    then have "xs ! locate xs a < xs ! i"
      using ge i(1) sorted_wrt_nth_less [OF assms, of "locate xs a" i] by simp
    then show ?thesis using i(2) by simp
  qed (use i in simp)
  moreover have "\<not> xs ! locate xs a < a" using locate_hit ge i by simp
  ultimately show "locate xs a < length xs \<and> xs ! locate xs a = a" using ge i by simp
qed (use nth_mem in force)

text \<open>\<open>find_ok s a\<close>: the find iterator has passed no address from \<open>a\<close> on.\<close>

definition find_ok :: "addr_seq \<Rightarrow> u64 \<Rightarrow> bool" where
  "find_ok s a \<longleftrightarrow> (\<exists>k. iter_at s (find_iter s) k \<and> (\<forall>i < k. addrs s ! i < a))"

lemma find_ok_mono: "find_ok s a \<Longrightarrow> a \<le> b \<Longrightarrow> find_ok s b"
  unfolding find_ok_def by (meson less_le_trans)

lemma find_loop_at:
  assumes "seq_inv s" and "iter_at s it k" and "\<forall>i < k. addrs s ! i < a"
  shows "\<exists>it'. find_loop s a it =
           Some (if a \<in> set (addrs s) then RC_OK else ADDR_NOT_FOUND, it') \<and>
           iter_at s it' (locate (addrs s) a)"
  using assms(2,3)
proof (induction "length (cells s) - k" arbitrary: it k)
  case 0
  then have k: "k = length (cells s)" using iter_at_le by fastforce
  then have "locate (addrs s) a = k"
    using "0.prems" locate_hit [of "addrs s" a] locate_le [of "addrs s" a]
    by (metis le_neq_implies_less length_addrs)
  moreover have "a \<notin> set (addrs s)"
    using "0.prems" k by (metis in_set_conv_nth length_addrs less_irrefl)
  ultimately show ?case
    using "0.prems" k do_walk_at_end [of s it] by (simp add: find_loop.simps [of s a it])
next
  case (Suc d)
  then have k: "k < length (cells s)" by simp
  note w = do_walk_at [OF Suc.prems(1) k]
  have asc: "sorted_wrt (<) (addrs s)" using assms(1) by (simp add: seq_inv_def)
  show ?case
  proof (cases "addrs s ! k < a")
    case True
    have next_at: "iter_at s (do_walk_move_next s it) (Suc k)"
      using iter_at_move_next [OF Suc.prems(1) k seq_inv_sizes_pos [OF assms(1)]] .
    have "\<forall>i < Suc k. addrs s ! i < a" using True Suc.prems(2) by (simp add: less_Suc_eq)
    then have "\<exists>it'. find_loop s a (do_walk_move_next s it) =
           Some (if a \<in> set (addrs s) then RC_OK else ADDR_NOT_FOUND, it') \<and>
           iter_at s it' (locate (addrs s) a)"
      using Suc.hyps(1) [of "Suc k"] Suc.hyps(2) next_at by simp
    moreover have "find_loop s a it = find_loop s a (do_walk_move_next s it)"
      using True w by (auto simp: find_loop.simps [of s a it])
    ultimately show ?thesis by simp
  next
    case False
    then have loc: "locate (addrs s) a = k"
    proof -
      have "\<not> locate (addrs s) a < k"
      proof
        assume less: "locate (addrs s) a < k"
        then have "addrs s ! locate (addrs s) a < a" using Suc.prems(2) by blast
        moreover have "locate (addrs s) a < length (addrs s)" using less k by simp
        ultimately show False using locate_hit by blast
      qed
      moreover have "\<not> k < locate (addrs s) a" using False locate_less by blast
      ultimately show ?thesis by simp
    qed
    have "a \<in> set (addrs s) \<longleftrightarrow> addrs s ! k = a"
      using locate_mem_iff [OF asc, of a] loc k by simp
    then show ?thesis using w False loc Suc.prems(1) by (auto simp: find_loop.simps [of s a it])
  qed
qed

section \<open>Writing under the find iterator\<close>

definition map_at :: "u64 \<Rightarrow> (entry \<Rightarrow> entry) \<Rightarrow> entry list \<Rightarrow> entry list" where
  "map_at a f xs = map (\<lambda>e. if fst e = a then f e else e) xs"

lemma map_at_nth_update:
  assumes "distinct (map fst xs)" and "k < length xs" and "fst (xs ! k) = a"
  shows "xs[k := f (xs ! k)] = map_at a f xs"
proof (rule nth_equalityI)
  fix i assume i: "i < length (xs[k := f (xs ! k)])"
  have "fst (xs ! i) = a \<longleftrightarrow> i = k"
    using assms i nth_eq_iff_index_eq [OF assms(1), of i k] by auto
  then show "xs[k := f (xs ! k)] ! i = map_at a f xs ! i"
    using i by (auto simp: map_at_def)
qed (simp add: map_at_def)

lemma map_at_absent: "a \<notin> fst ` set xs \<Longrightarrow> map_at a f xs = xs"
  by (induction xs) (auto simp: map_at_def)

lemma map_fst_map_at: "(\<And>e. fst (f e) = fst e) \<Longrightarrow> map fst (map_at a f xs) = map fst xs"
  by (simp add: map_at_def)

definition bump_entry :: "entry \<Rightarrow> entry" where
  "bump_entry e = (case e of (a, p, nid, loc) \<Rightarrow> (a, p + 1, nid, loc))"

definition store_payload :: "u8 \<Rightarrow> entry \<Rightarrow> entry" where
  "store_payload v e = (case e of (a, p, nid, loc) \<Rightarrow> (a, v, nid, loc))"

definition store_node :: "int \<Rightarrow> int \<Rightarrow> entry \<Rightarrow> entry" where
  "store_node nid loc e = (case e of (a, p, _, _) \<Rightarrow> (a, p, nid, loc))"

text \<open>The byte counters after one counted entry.\<close>

definition add_young :: "addr_seq \<Rightarrow> entry \<Rightarrow> (int \<Rightarrow> u64) \<Rightarrow> int \<Rightarrow> u64" where
  "add_young s e y = (case e of (a, p, nid, loc) \<Rightarrow>
     if uint p \<ge> 1 then y(loc := y loc + pagesize s) else y)"

definition add_top :: "addr_seq \<Rightarrow> entry \<Rightarrow> (int \<Rightarrow> u64) \<Rightarrow> int \<Rightarrow> u64" where
  "add_top s e t = (case e of (a, p, nid, loc) \<Rightarrow>
     if uint p \<ge> nr_walks s then t(loc := t loc + pagesize s) else t)"

lemma update_addr_location_count_fields:
  "addr_clusters (update_addr_location_count s it) = addr_clusters s"
  "item_store (update_addr_location_count s it) = item_store s"
  "find_iter (update_addr_location_count s it) = find_iter s"
  "walk_iter (update_addr_location_count s it) = walk_iter s"
  "buf_oom (update_addr_location_count s it) = buf_oom s"
  "vec_oom (update_addr_location_count s it) = vec_oom s"
  "same_shape s (update_addr_location_count s it)"
  by (simp_all add: update_addr_location_count_def same_shape_def Let_def)

text \<open>\<open>touched s a f t\<close>: \<open>t\<close> is \<open>s\<close> after the entry of \<open>a\<close> became \<open>f\<close> of it and was counted.\<close>

definition touched :: "addr_seq \<Rightarrow> u64 \<Rightarrow> (entry \<Rightarrow> entry) \<Rightarrow> addr_seq \<Rightarrow> bool" where
  "touched s a f t \<longleftrightarrow>
     seq_inv t \<and> same_shape s t \<and> walk_iter t = walk_iter s \<and> (\<forall>b \<ge> a. find_ok t b) \<and>
     buf_oom t = buf_oom s \<and> vec_oom t = vec_oom s \<and> last_cluster_end t = last_cluster_end s \<and>
     contents t = map_at a f (contents s) \<and>
     (\<forall>e \<in> set (contents s). fst e = a \<longrightarrow>
        young_bytes t = add_young s (f e) (young_bytes s) \<and>
        top_bytes t = add_top s (f e) (top_bytes s)) \<and>
     (a \<notin> set (addrs s) \<longrightarrow> young_bytes t = young_bytes s \<and> top_bytes t = top_bytes s)"

lemma find_iter_update_same: "same_shape s (s\<lparr>find_iter := it\<rparr>)"
  by (simp add: same_shape_def)

lemma find_ok_at_locate:
  assumes "seq_inv t" and "iter_at t (find_iter t) (locate (addrs t) a)" and "a \<le> b"
  shows "find_ok t b"
  using assms locate_less [of _ "addrs t" a] unfolding find_ok_def by (meson less_le_trans)

lemma contents_same_store:
  assumes "same_shape s t" and "item_store t = item_store s"
  shows "contents t = contents s"
  using same_shape_contents [OF assms(1)] assms(2) by simp

lemma touched_miss:
  assumes "seq_inv s" and "a \<notin> set (addrs s)" and "iter_at s it (locate (addrs s) a)"
  shows "touched s a f (s\<lparr>find_iter := it\<rparr>)"
proof -
  let ?t = "s\<lparr>find_iter := it\<rparr>"
  have sh: "same_shape s ?t" by (rule find_iter_update_same)
  have inv: "seq_inv ?t" using same_shape_inv [OF sh assms(1)] .
  have "find_ok ?t b" if "a \<le> b" for b
    using find_ok_at_locate [OF inv _ that] assms(3) by (simp add: same_shape_simps [OF sh])
  moreover have "contents ?t = map_at a f (contents s)"
    using assms(2) map_at_absent [of a "contents s" f] contents_same_store [OF sh]
    by (simp flip: map_fst_contents)
  ultimately show ?thesis using sh inv assms(2)
    by (auto simp: touched_def simp flip: map_fst_contents)
qed

lemma touched_hit:
  assumes "seq_inv s" and "a \<in> set (addrs s)" and "iter_at s it (locate (addrs s) a)"
    and "k = locate (addrs s) a" and "same_shape s u"
    and "item_store u = (item_store s)(cells s ! k := x)"
    and "entry_of a x = f (contents s ! k)" and "\<And>e. fst (f e) = fst e"
    and "find_iter u = it" and "walk_iter u = walk_iter s" and "pagesize u = pagesize s"
    and "young_bytes u = young_bytes s" and "top_bytes u = top_bytes s"
    and "buf_oom u = buf_oom s" and "vec_oom u = vec_oom s"
    and "last_cluster_end u = last_cluster_end s"
  shows "touched s a f (update_addr_location_count u it)"
proof -
  let ?t = "update_addr_location_count u it"
  note upd = update_addr_location_count_fields [of u it]
  have asc: "sorted_wrt (<) (addrs s)" using assms(1) by (simp add: seq_inv_def)
  then have dist: "distinct (map fst (contents s))"
    by (simp add: strict_sorted_iff)
  have k: "k < length (cells s)" "addrs s ! k = a"
    using assms(2,4) locate_mem_iff [OF asc, of a] by auto
  have sh: "same_shape s ?t" using same_shape_trans [OF assms(5) upd(7)] .
  have inv: "seq_inv ?t" using same_shape_inv [OF sh assms(1)] .
  have cont: "contents ?t = map_at a f (contents s)"
  proof -
    have "contents ?t = (contents s)[k := entry_of (addrs s ! k) x]"
      using contents_write [OF assms(1) k(1) sh] upd(2) assms(6) by simp
    also have "\<dots> = (contents s)[k := f (contents s ! k)]" using assms(7) k(2) by simp
    also have "\<dots> = map_at a f (contents s)"
      using map_at_nth_update [OF dist, of k a f] k by (simp add: contents_nth entry_of_def)
    finally show ?thesis .
  qed
  have ok: "find_ok ?t b" if "a \<le> b" for b
    using find_ok_at_locate [OF inv _ that] assms(3,9) upd(3) by (simp add: same_shape_simps [OF sh])
  have under: "item_store u (item_at (cur_delta_ptr it) (delta_index it)) = x"
    using iter_at_cell [OF assms(3)] k assms(4,6) by simp
  have only: "e = contents s ! k" if "e \<in> set (contents s)" "fst e = a" for e
  proof -
    obtain i where i: "i < length (contents s)" "e = contents s ! i"
      using \<open>e \<in> set (contents s)\<close> by (auto simp: in_set_conv_nth)
    have "addrs s ! i = addrs s ! k" using that(2) i k by (simp add: contents_nth entry_of_def)
    then show ?thesis using i k nth_eq_iff_index_eq [OF dist, of i k] by simp
  qed
  have "f (contents s ! k) = (a, dp_payload x, dp_nid x, dp_location x)"
    using assms(7) by (simp add: entry_of_def)
  then have "young_bytes ?t = add_young s (f (contents s ! k)) (young_bytes s) \<and>
      top_bytes ?t = add_top s (f (contents s ! k)) (top_bytes s)"
    using under assms(5,11-13)
    by (simp add: update_addr_location_count_def add_young_def add_top_def same_shape_def Let_def)
  then show ?thesis using sh inv ok cont only upd assms
    by (auto simp: touched_def update_addr_location_count_def Let_def)
qed

section \<open>The update operations\<close>

lemma update_addr_found:
  assumes "seq_inv s" and "find_ok s a" and "a \<in> set (addrs s)" and "\<not> (inc \<and> word_of_int n = (0 :: u8))"
  shows "\<exists>t. update_addr s a n inc = Some (RC_OK, t) \<and>
           touched s a (if inc then bump_entry else store_payload (word_of_int n)) t"
proof -
  let ?f = "if inc then bump_entry else store_payload (word_of_int n)"
  obtain k where "iter_at s (find_iter s) k" "\<forall>i < k. addrs s ! i < a"
    using assms(2) by (auto simp: find_ok_def)
  then obtain it where fl: "find_loop s a (find_iter s) = Some (RC_OK, it)"
    and it: "iter_at s it (locate (addrs s) a)"
    using find_loop_at [OF assms(1), of "find_iter s" k a] assms(3) by auto
  let ?k = "locate (addrs s) a"
  have k: "?k < length (cells s)" "addrs s ! ?k = a"
    using assms(1,3) locate_mem_iff [of "addrs s" a] by (auto simp: seq_inv_def)
  let ?p = "cells s ! ?k"
  let ?old = "item_store s ?p"
  let ?x = "?old\<lparr>dp_payload := if inc then dp_payload ?old + 1 else word_of_int n\<rparr>"
  let ?u = "s\<lparr>find_iter := it, item_store := (item_store s)(?p := ?x)\<rparr>"
  have cell: "item_at (cur_delta_ptr it) (delta_index it) = ?p"
    using iter_at_cell [OF it k(1)] .
  have "update_addr s a n inc = Some (RC_OK, update_addr_location_count ?u it)"
    using assms(4) by (simp add: update_addr_def fl do_walk_update_payload_def cell Let_def)
  moreover have "touched s a ?f (update_addr_location_count ?u it)"
    by (rule touched_hit [OF assms(1,3) it refl])
      (auto simp: same_shape_def contents_nth [OF k(1)] entry_of_def bump_entry_def
        store_payload_def k(2))
  ultimately show ?thesis by blast
qed

lemma update_addr_missing:
  assumes "seq_inv s" and "find_ok s a" and "a \<notin> set (addrs s)"
  shows "\<exists>t. update_addr s a n inc = Some (ADDR_NOT_FOUND, t) \<and> touched s a f t"
proof -
  obtain k where "iter_at s (find_iter s) k" "\<forall>i < k. addrs s ! i < a"
    using assms(2) by (auto simp: find_ok_def)
  then obtain it where fl: "find_loop s a (find_iter s) = Some (ADDR_NOT_FOUND, it)"
    and it: "iter_at s it (locate (addrs s) a)"
    using find_loop_at [OF assms(1), of "find_iter s" k a] assms(3) by auto
  then show ?thesis using touched_miss [OF assms(1,3) it] by (simp add: update_addr_def)
qed

text \<open>An idle report (\<open>n\<close> is zero) moves the find iterator and changes nothing else.\<close>

definition passed_over :: "addr_seq \<Rightarrow> u64 \<Rightarrow> addr_seq \<Rightarrow> bool" where
  "passed_over s a t \<longleftrightarrow>
     seq_inv t \<and> (\<exists>it. t = s\<lparr>find_iter := it\<rparr>) \<and> (\<forall>b \<ge> a. find_ok t b) \<and> contents t = contents s"

lemma update_addr_idle:
  assumes "seq_inv s" and "find_ok s a" and "a \<in> set (addrs s)"
    and idle: "word_of_int n = (0 :: u8)"
  shows "\<exists>t. update_addr s a n True = Some (RC_OK, t) \<and> passed_over s a t"
proof -
  obtain k where "iter_at s (find_iter s) k" "\<forall>i < k. addrs s ! i < a"
    using assms(2) by (auto simp: find_ok_def)
  then obtain it where fl: "find_loop s a (find_iter s) = Some (RC_OK, it)"
    and it: "iter_at s it (locate (addrs s) a)"
    using find_loop_at [OF assms(1), of "find_iter s" k a] assms(3) by auto
  let ?t = "s\<lparr>find_iter := it\<rparr>"
  have sh: "same_shape s ?t" by (rule find_iter_update_same)
  have inv: "seq_inv ?t" using same_shape_inv [OF sh assms(1)] .
  have "find_ok ?t b" if "a \<le> b" for b
    using find_ok_at_locate [OF inv _ that] it by (simp add: same_shape_simps [OF sh])
  then have "passed_over s a ?t"
    using inv contents_same_store [OF sh] by (auto simp: passed_over_def)
  then show ?thesis by (simp add: update_addr_def fl do_walk_update_payload_def idle Let_def)
qed

lemma update_nodeid_found:
  assumes "seq_inv s" and "in_append_period s" and "find_ok s a" and "a \<in> set (addrs s)"
  shows "\<exists>t. update_nodeid s a nid loc = Some (RC_OK, t) \<and> touched s a (store_node nid loc) t"
proof -
  obtain k where "iter_at s (find_iter s) k" "\<forall>i < k. addrs s ! i < a"
    using assms(3) by (auto simp: find_ok_def)
  then obtain it where fl: "find_loop s a (find_iter s) = Some (RC_OK, it)"
    and it: "iter_at s it (locate (addrs s) a)"
    using find_loop_at [OF assms(1), of "find_iter s" k a] assms(4) by auto
  let ?k = "locate (addrs s) a"
  have k: "?k < length (cells s)" "addrs s ! ?k = a"
    using assms(1,4) locate_mem_iff [of "addrs s" a] by (auto simp: seq_inv_def)
  let ?p = "cells s ! ?k"
  let ?x = "(item_store s ?p)\<lparr>dp_nid := nid, dp_location := loc\<rparr>"
  let ?u = "s\<lparr>find_iter := it, item_store := (item_store s)(?p := ?x)\<rparr>"
  have cell: "item_at (cur_delta_ptr it) (delta_index it) = ?p"
    using iter_at_cell [OF it k(1)] .
  have "update_nodeid s a nid loc = Some (RC_OK, update_addr_location_count ?u it)"
    using assms(2) by (simp add: update_nodeid_def fl do_walk_update_nid_def cell Let_def)
  moreover have "touched s a (store_node nid loc) (update_addr_location_count ?u it)"
    by (rule touched_hit [OF assms(1,4) it refl])
      (auto simp: same_shape_def contents_nth [OF k(1)] entry_of_def store_node_def k(2))
  ultimately show ?thesis by blast
qed

lemma update_nodeid_missing:
  assumes "seq_inv s" and "in_append_period s" and "find_ok s a" and "a \<notin> set (addrs s)"
  shows "\<exists>t. update_nodeid s a nid loc = Some (ADDR_NOT_FOUND, t) \<and> touched s a f t"
proof -
  obtain k where "iter_at s (find_iter s) k" "\<forall>i < k. addrs s ! i < a"
    using assms(3) by (auto simp: find_ok_def)
  then obtain it where fl: "find_loop s a (find_iter s) = Some (ADDR_NOT_FOUND, it)"
    and it: "iter_at s it (locate (addrs s) a)"
    using find_loop_at [OF assms(1), of "find_iter s" k a] assms(4) by auto
  then show ?thesis using touched_miss [OF assms(1,4) it] assms(2) by (simp add: update_nodeid_def)
qed

end
