(* ===== verification/Addr_Sequence_Walk.thy ===== *)
theory Addr_Sequence_Walk
  imports Addr_Sequence_Update
begin

text \<open>
  Whole walks over an address sequence: the first walk that records addresses, the later walks that
  count hits, the visiting loop of the clients (stated as the interface \<open>page_ref_source\<close> and
  interpreted on \<open>visit_all\<close>), smoothing, and the reachable states of a sequence used by the
  protocol of its client.
\<close>

unbundle bit_operations_syntax

section \<open>Starting a walk\<close>

lemma rewind_fields:
  "addr_clusters (rewind s) = addr_clusters s" "item_store (rewind s) = item_store s"
  "nr_walks (rewind s) = nr_walks s + 1" "pageshift (rewind s) = pageshift s"
  "pagesize (rewind s) = pagesize s" "young_bytes (rewind s) = (\<lambda>_. 0)"
  "top_bytes (rewind s) = (\<lambda>_. 0)" "buf_oom (rewind s) = buf_oom s"
  "vec_oom (rewind s) = vec_oom s" "find_iter (rewind s) = reset_iterator s (find_iter s) 0"
  "addr_size (rewind s) = addr_size s" "buf_pool (rewind s) = buf_pool s"
  "buf_used_count (rewind s) = buf_used_count s"
  by (simp_all add: rewind_def clear_location_count_def Let_def)

lemma rewind_contents [simp]:
  "cells (rewind s) = cells s" "addrs (rewind s) = addrs s" "contents (rewind s) = contents s"
  using view_cong [of "rewind s" s] by (simp_all add: rewind_fields)

lemma rewind_inv: "seq_inv s \<Longrightarrow> seq_inv (rewind s)"
  by (simp add: seq_inv_def rewind_fields)

lemma iter_at_cong:
  assumes "addr_clusters t = addr_clusters s" and "item_store t = item_store s"
  shows "iter_at t it k \<longleftrightarrow> iter_at s it k"
  using assms by (simp add: iter_at_def cells_def flat_index_def dist_upto_def)

lemma find_ok_reset:
  assumes "seq_inv s" and "addr_clusters t = addr_clusters s" and "item_store t = item_store s"
    and "find_iter t = reset_iterator s it 0"
  shows "find_ok t a"
  using iter_at_reset [OF seq_inv_sizes_pos [OF assms(1)], of it] assms
  by (auto simp: find_ok_def iter_at_cong [of t s] intro: exI [of _ 0])

lemma rewind_find_ok: "seq_inv s \<Longrightarrow> find_ok (rewind s) a"
  by (rule find_ok_reset) (simp_all add: rewind_fields)

lemma prepare_update_inv:
  assumes "seq_inv s"
  shows "seq_inv (prepare_update s)" and "contents (prepare_update s) = contents s"
    and "find_ok (prepare_update s) a" and "addrs (prepare_update s) = addrs s"
proof -
  have view: "cells (prepare_update s) = cells s" "addrs (prepare_update s) = addrs s"
    "contents (prepare_update s) = contents s"
    using view_cong [of "prepare_update s" s] by (simp_all add: prepare_update_def)
  then show "contents (prepare_update s) = contents s" "addrs (prepare_update s) = addrs s" by simp_all
  show "seq_inv (prepare_update s)" using assms view by (simp add: seq_inv_def) (simp add: prepare_update_def)
  show "find_ok (prepare_update s) a"
    by (rule find_ok_reset [OF assms]) (simp_all add: prepare_update_def)
qed

text \<open>\<open>prepare_walks\<close> of the client: clear the sequence and set its page shift.\<close>

definition fresh_seq :: "addr_seq \<Rightarrow> nat \<Rightarrow> addr_seq" where
  "fresh_seq s shift = set_pageshift (as_clear s) shift"

lemma fresh_seq_inv:
  assumes "shift \<le> 30"
  shows "seq_inv (fresh_seq s shift)" and "contents (fresh_seq s shift) = []"
    and "append_ready (fresh_seq s shift)" and "nr_walks (fresh_seq s shift) = 0"
    and "buf_oom (fresh_seq s shift) = buf_oom s" and "vec_oom (fresh_seq s shift) = vec_oom s"
proof -
  have empty: "addr_clusters (fresh_seq s shift) = []"
    by (simp add: fresh_seq_def set_pageshift_def as_clear_def free_all_buf_def
        clear_location_count_def Let_def)
  then have c: "cells (fresh_seq s shift) = []" "addrs (fresh_seq s shift) = []"
    by (simp_all add: cells_def addrs_def)
  show "contents (fresh_seq s shift) = []" by (simp add: contents_def c)
  show "append_ready (fresh_seq s shift)" by (simp add: append_ready_def empty)
  have "(word_of_int (push_bit shift 1) :: u64) = 2 ^ shift"
    by (simp add: push_bit_eq_mult)
  then show "seq_inv (fresh_seq s shift)"
    using assms
    by (simp add: seq_inv_def c empty) (simp add: fresh_seq_def set_pageshift_def as_clear_def free_all_buf_def
        clear_location_count_def Let_def)
  show "nr_walks (fresh_seq s shift) = 0" "buf_oom (fresh_seq s shift) = buf_oom s"
    "vec_oom (fresh_seq s shift) = vec_oom s"
    by (simp_all add: fresh_seq_def set_pageshift_def as_clear_def free_all_buf_def
        clear_location_count_def Let_def)
qed

section \<open>The first walk\<close>

text \<open>A walk reports pages one by one; the callers of \<open>inc_payload\<close> ignore its status.\<close>

fun inc_all :: "addr_seq \<Rightarrow> (u64 \<times> int) list \<Rightarrow> addr_seq option" where
  "inc_all s [] = Some s"
| "inc_all s ((a, n) # xs) = do { (rc, s) \<leftarrow> inc_payload s a n; inc_all s xs }"

definition record_one :: "entry list \<Rightarrow> u64 \<times> int \<Rightarrow> entry list" where
  "record_one l x =
     (if l = [] \<or> fst (last l) < fst x
      then l @ [(fst x, word_of_int (snd x), - 1, LOC_DRAM)] else l)"

lemma append_addr_no_oom:
  "buf_oom s = [] \<Longrightarrow> vec_oom s = [] \<Longrightarrow>
     buf_oom (snd (append_addr s a n)) = [] \<and> vec_oom (snd (append_addr s a n)) = []"
  by (auto simp: append_addr_def create_cluster_def get_free_buffer_def allocate_buf_def
      save_into_cluster_def rc_negative_def Let_def split: prod.splits sum.splits)

definition appending :: "addr_seq \<Rightarrow> bool" where
  "appending s \<longleftrightarrow> seq_inv s \<and> append_ready s \<and> in_append_period s \<and> buf_oom s = [] \<and> vec_oom s = []"

lemma last_addrs_contents: "contents s \<noteq> [] \<Longrightarrow> last (addrs s) = fst (last (contents s))"
  by (metis last_map map_fst_contents)

lemma contents_Nil_iff: "contents s = [] \<longleftrightarrow> addrs s = []"
  by (metis length_0_conv length_addrs length_contents)

lemma inc_payload_appending:
  assumes "appending s"
  shows "\<exists>rc t. inc_payload s a n = Some (rc, t) \<and> appending t \<and>
           contents t = record_one (contents s) (a, n)"
proof (cases "addrs s = [] \<or> last (addrs s) < a")
  case True
  have "fst (append_addr s a n) = RC_OK \<and> appended s a n (snd (append_addr s a n))"
    using append_addr_new [of s a n] True assms
    by (simp add: appending_def vec_ok_def buf_ok_def)
  moreover have "contents s = [] \<or> fst (last (contents s)) < a"
    using True contents_Nil_iff last_addrs_contents by metis
  ultimately show ?thesis
    using assms append_addr_no_oom [of s a n]
    by (cases "append_addr s a n")
      (auto simp: inc_payload_def appending_def appended_def in_append_period_def record_one_def)
next
  case False
  then have "append_addr s a n = (IGNORE_DUPLICATED_ADDR, s)"
    using append_addr_old [of s a n] assms by (simp add: appending_def not_less)
  moreover have "\<not> (contents s = [] \<or> fst (last (contents s)) < a)"
    using False contents_Nil_iff last_addrs_contents by metis
  ultimately show ?thesis using assms
    by (auto simp: inc_payload_def appending_def record_one_def)
qed

lemma inc_all_appending:
  "appending s \<Longrightarrow>
     \<exists>t. inc_all s xs = Some t \<and> appending t \<and> contents t = foldl record_one (contents s) xs"
proof (induction xs arbitrary: s)
  case Nil
  then show ?case by simp
next
  case (Cons x xs)
  obtain a n where x: "x = (a, n)" by (cases x)
  obtain rc t where t: "inc_payload s a n = Some (rc, t)" "appending t"
    "contents t = record_one (contents s) (a, n)"
    using inc_payload_appending [OF Cons.prems] by blast
  then show ?case using Cons.IH [of t] by (simp add: x)
qed

lemma appending_rewind_fresh:
  assumes "shift \<le> 30" and "buf_oom s = []" and "vec_oom s = []"
  shows "appending (rewind (fresh_seq s shift))"
proof -
  note f = fresh_seq_inv [OF assms(1), of s]
  have "addr_clusters (fresh_seq s shift) = []"
    by (simp add: fresh_seq_def set_pageshift_def as_clear_def free_all_buf_def
        clear_location_count_def Let_def)
  then show ?thesis using f assms rewind_inv [OF f(1)]
    by (simp add: appending_def append_ready_def in_append_period_def rewind_fields)
qed

lemma record_ascending:
  assumes "sorted_wrt (<) (map fst xs)" and "\<forall>e \<in> set l. \<forall>x \<in> set xs. fst e < fst x"
  shows "foldl record_one l xs = l @ map (\<lambda>(a, n). (a, word_of_int n, - 1, LOC_DRAM)) xs"
  using assms
proof (induction xs arbitrary: l)
  case Nil
  then show ?case by simp
next
  case (Cons x xs)
  have "record_one l x = l @ [(fst x, word_of_int (snd x), - 1, LOC_DRAM)]"
    using Cons.prems by (cases "l = []") (auto simp: record_one_def)
  moreover have "foldl record_one (l @ [(fst x, word_of_int (snd x), - 1, LOC_DRAM)]) xs =
      (l @ [(fst x, word_of_int (snd x), - 1, LOC_DRAM)]) @
      map (\<lambda>(a, n). (a, word_of_int n, - 1, LOC_DRAM)) xs"
    by (rule Cons.IH) (use Cons.prems in auto)
  ultimately show ?case by (simp add: case_prod_beta)
qed

section \<open>Later walks\<close>

definition hits :: "(u64 \<times> int) list \<Rightarrow> u64 \<Rightarrow> nat" where
  "hits xs a = length (filter (\<lambda>(b, n). b = a \<and> word_of_int n \<noteq> (0 :: u8)) xs)"

definition add_hits :: "(u64 \<times> int) list \<Rightarrow> entry \<Rightarrow> entry" where
  "add_hits xs e = (case e of (a, p, nid, loc) \<Rightarrow> (a, p + of_nat (hits xs a), nid, loc))"

definition counting :: "addr_seq \<Rightarrow> bool" where
  "counting s \<longleftrightarrow> seq_inv s \<and> \<not> in_append_period s"

text \<open>One report of a later walk, on the abstract state.\<close>

definition report_one :: "u64 \<Rightarrow> int \<Rightarrow> addr_seq \<Rightarrow> addr_seq \<Rightarrow> bool" where
  "report_one a n s t \<longleftrightarrow>
     counting t \<and> (\<forall>b \<ge> a. find_ok t b) \<and> nr_walks t = nr_walks s \<and> pagesize t = pagesize s \<and>
     addrs t = addrs s \<and>
     (if word_of_int n = (0 :: u8) \<or> a \<notin> set (addrs s)
      then contents t = contents s \<and> young_bytes t = young_bytes s \<and> top_bytes t = top_bytes s
      else contents t = map_at a bump_entry (contents s) \<and>
        (\<forall>e \<in> set (contents s). fst e = a \<longrightarrow>
           young_bytes t = add_young s (bump_entry e) (young_bytes s) \<and>
           top_bytes t = add_top s (bump_entry e) (top_bytes s)))"

lemma inc_payload_counting:
  assumes "counting s" and "find_ok s a"
  shows "\<exists>rc t. inc_payload s a n = Some (rc, t) \<and> report_one a n s t"
proof -
  have inv: "seq_inv s" and upd: "inc_payload s a n = update_addr s a n True"
    using assms(1) by (simp_all add: counting_def inc_payload_def)
  consider (miss) "a \<notin> set (addrs s)" | (idle) "a \<in> set (addrs s)" "word_of_int n = (0 :: u8)"
    | (hit) "a \<in> set (addrs s)" "word_of_int n \<noteq> (0 :: u8)" by blast
  then show ?thesis
  proof cases
    case miss
    then obtain t where "update_addr s a n True = Some (ADDR_NOT_FOUND, t)" "touched s a bump_entry t"
      using update_addr_missing [OF inv assms(2)] by blast
    then show ?thesis using miss assms(1) upd same_shape_addrs [of s t] map_at_absent [of a "contents s"]
      by (auto simp: report_one_def touched_def counting_def in_append_period_def same_shape_def
          simp flip: map_fst_contents)
  next
    case idle
    then obtain t where t: "update_addr s a n True = Some (RC_OK, t)" "passed_over s a t"
      using update_addr_idle [OF inv assms(2)] by blast
    then have "addrs t = addrs s" by (metis map_fst_contents passed_over_def)
    then show ?thesis using idle assms(1) upd t
      by (auto simp: report_one_def passed_over_def counting_def in_append_period_def)
  next
    case hit
    then obtain t where "update_addr s a n True = Some (RC_OK, t)" "touched s a bump_entry t"
      using update_addr_found [OF inv assms(2), of True n] by auto
    then show ?thesis using hit assms(1) upd same_shape_addrs [of s t]
      by (auto simp: report_one_def touched_def counting_def in_append_period_def same_shape_def)
  qed
qed

lemma report_one_contents:
  assumes "report_one a n s t"
  shows "contents t = map (add_hits [(a, n)]) (contents s)"
proof (cases "word_of_int n = (0 :: u8) \<or> a \<notin> set (addrs s)")
  case True
  have "add_hits [(a, n)] e = e" if "e \<in> set (contents s)" for e
    using True that by (cases e) (force simp: add_hits_def hits_def simp flip: map_fst_contents)
  then show ?thesis using assms True by (simp add: report_one_def map_idI)
next
  case False
  have "add_hits [(a, n)] e = (if fst e = a then bump_entry e else e)" for e
    using False by (cases e) (auto simp: add_hits_def hits_def bump_entry_def)
  then show ?thesis using assms False by (simp add: report_one_def map_at_def)
qed

lemma add_hits_Cons: "add_hits xs (add_hits [x] e) = add_hits (x # xs) e"
  by (cases e) (auto simp: add_hits_def hits_def)

lemma fst_add_hits [simp]: "fst (add_hits xs e) = fst e"
  by (cases e) (simp add: add_hits_def)

lemma inc_all_counting:
  assumes "counting s" and "sorted (map fst xs)" and "\<forall>x \<in> set xs. find_ok s (fst x)"
  shows "\<exists>t. inc_all s xs = Some t \<and> counting t \<and> nr_walks t = nr_walks s \<and>
           contents t = map (add_hits xs) (contents s)"
  using assms
proof (induction xs arbitrary: s)
  case Nil
  have "add_hits [] e = e" for e by (cases e) (simp add: add_hits_def hits_def)
  then show ?case using Nil by (simp add: map_idI)
next
  case (Cons x xs)
  obtain a n where x: "x = (a, n)" by (cases x)
  obtain rc t where t: "inc_payload s a n = Some (rc, t)" "report_one a n s t"
    using inc_payload_counting [OF Cons.prems(1), of a n] Cons.prems(3) x by auto
  then have t': "counting t" "\<forall>y \<in> set xs. find_ok t (fst y)" "nr_walks t = nr_walks s"
    using Cons.prems(2) x by (auto simp: report_one_def)
  obtain u where u: "inc_all t xs = Some u" "counting u" "nr_walks u = nr_walks t"
    "contents u = map (add_hits xs) (contents t)"
    using Cons.IH [OF t'(1) _ t'(2)] Cons.prems(2) by auto
  have "contents u = map (add_hits (x # xs)) (contents s)"
    using u(4) report_one_contents [OF t(2)] by (simp add: x comp_def add_hits_Cons)
  then show ?case using t u t' by (simp add: x)
qed

section \<open>The byte counters of a walk\<close>

text \<open>
  The entries that a walk hits: \<open>seen xs\<close> on addresses. After a walk that reports each address once,
  the counters hold the sizes of the pages hit in that walk.
\<close>

definition seen :: "(u64 \<times> int) list \<Rightarrow> u64 \<Rightarrow> bool" where
  "seen xs a \<longleftrightarrow> (\<exists>n. (a, n) \<in> set xs \<and> word_of_int n \<noteq> (0 :: u8))"

definition page_bytes :: "addr_seq \<Rightarrow> (entry \<Rightarrow> bool) \<Rightarrow> u64" where
  "page_bytes s P = of_nat (length (filter P (contents s))) * pagesize s"

definition young_at :: "(u64 \<times> int) list \<Rightarrow> int \<Rightarrow> entry \<Rightarrow> bool" where
  "young_at xs l e \<longleftrightarrow> (case e of (a, p, nid, loc) \<Rightarrow> seen xs a \<and> loc = l \<and> uint p \<ge> 1)"

definition top_at :: "addr_seq \<Rightarrow> (u64 \<times> int) list \<Rightarrow> int \<Rightarrow> entry \<Rightarrow> bool" where
  "top_at s xs l e \<longleftrightarrow> (case e of (a, p, nid, loc) \<Rightarrow> seen xs a \<and> loc = l \<and> uint p \<ge> nr_walks s)"

lemma filter_split_at:
  assumes "distinct (map fst xs)" and "e \<in> set xs"
  shows "length (filter P xs) =
           length (filter (\<lambda>x. P x \<and> fst x \<noteq> fst e) xs) + (if P e then 1 else 0)"
  using assms
proof (induction xs)
  case Nil
  then show ?case by simp
next
  case (Cons x xs)
  show ?case
  proof (cases "x = e")
    case True
    then have "filter (\<lambda>x. P x \<and> fst x \<noteq> fst e) xs = filter P xs"
      using Cons.prems by (intro filter_cong) (auto simp: image_iff)
    then show ?thesis using True by simp
  next
    case False
    then have "e \<in> set xs" "fst x \<noteq> fst e" using Cons.prems by (auto simp: image_iff)
    then show ?thesis using Cons by simp
  qed
qed

lemma filter_add_hits_other:
  "length (filter (\<lambda>e. P e \<and> fst e \<noteq> a) (map (add_hits [(a, n)]) l)) =
     length (filter (\<lambda>e. P e \<and> fst e \<noteq> a) l)"
proof (induction l)
  case (Cons e l)
  have "fst e \<noteq> a \<Longrightarrow> add_hits [(a, n)] e = e"
    by (cases e) (auto simp: add_hits_def hits_def)
  then show ?case using Cons by auto
qed simp

text \<open>
  The effect of one report on a counter over the entries that satisfy \<open>P\<close>, when nothing was
  counted for its address before.
\<close>

lemma count_step:
  assumes inv: "seq_inv s" and t: "contents t = map (add_hits [(a, n)]) (contents s)"
    and hit: "word_of_int n \<noteq> (0 :: u8)" and e: "e \<in> set (contents s)" "fst e = a"
    and none: "\<And>x. x \<in> set (contents s) \<Longrightarrow> fst x = a \<Longrightarrow> \<not> P x"
    and same: "\<And>x. fst x \<noteq> a \<Longrightarrow> Q x \<longleftrightarrow> P x"
  shows "length (filter Q (contents t)) =
           length (filter P (contents s)) + (if Q (bump_entry e) then 1 else 0)"
proof -
  have asc: "sorted_wrt (<) (map fst (contents s))" using inv by (simp add: seq_inv_def)
  have map: "map fst (contents t) = map fst (contents s)" by (simp add: t comp_def)
  have dist: "distinct (map fst (contents t))" "distinct (map fst (contents s))"
    using asc map by (simp_all add: strict_sorted_iff)
  have be: "add_hits [(a, n)] e = bump_entry e"
    using e(2) hit by (cases e) (auto simp: add_hits_def hits_def bump_entry_def)
  then have mem: "bump_entry e \<in> set (contents t)" using e t by (metis image_eqI image_set)
  have fb: "fst (bump_entry e) = a" using e(2) by (cases e) (simp add: bump_entry_def)
  have "length (filter Q (contents t)) =
      length (filter (\<lambda>x. Q x \<and> fst x \<noteq> a) (contents t)) + (if Q (bump_entry e) then 1 else 0)"
    using filter_split_at [OF dist(1) mem, of Q] fb by simp
  also have "length (filter (\<lambda>x. Q x \<and> fst x \<noteq> a) (contents t)) =
      length (filter (\<lambda>x. P x \<and> fst x \<noteq> a) (contents s))"
  proof -
    have "(\<lambda>x. Q x \<and> fst x \<noteq> a) = (\<lambda>x. P x \<and> fst x \<noteq> a)" using same by auto
    then show ?thesis using filter_add_hits_other [of P a n "contents s"] t by simp
  qed
  also have "filter (\<lambda>x. P x \<and> fst x \<noteq> a) (contents s) = filter P (contents s)"
    using none by (intro filter_cong) auto
  finally show ?thesis .
qed

lemma seen_snoc_other: "a \<noteq> b \<Longrightarrow> seen (xs @ [(b, n)]) a \<longleftrightarrow> seen xs a"
  by (auto simp: seen_def)

lemma seen_snoc_same: "word_of_int n \<noteq> (0 :: u8) \<Longrightarrow> seen (xs @ [(b, n)]) b"
  by (auto simp: seen_def)

lemma seen_snoc_idle: "word_of_int n = (0 :: u8) \<Longrightarrow> seen (xs @ [(b, n)]) a \<longleftrightarrow> seen xs a"
  by (auto simp: seen_def)

text \<open>The counters agree with the pages hit by the reports \<open>xs\<close> so far.\<close>

definition counted :: "(u64 \<times> int) list \<Rightarrow> addr_seq \<Rightarrow> bool" where
  "counted xs s \<longleftrightarrow>
     (\<forall>l. young_bytes s l = page_bytes s (young_at xs l) \<and>
          top_bytes s l = page_bytes s (top_at s xs l))"

lemma add_counter:
  assumes "y l = of_nat m * (z :: u64)" and "k = m + (if b \<and> loc = l then 1 else 0)"
  shows "(if b then y(loc := y loc + z) else y) l = of_nat k * z"
  using assms by (auto simp: algebra_simps)

lemma counted_step:
  assumes "report_one a n s t" and "seq_inv s" and "counted xs s" and "\<not> seen xs a"
  shows "counted (xs @ [(a, n)]) t"
proof (cases "word_of_int n = (0 :: u8) \<or> a \<notin> set (addrs s)")
  case True
  have c: "contents t = contents s" "young_bytes t = young_bytes s" "top_bytes t = top_bytes s"
    "pagesize t = pagesize s" "nr_walks t = nr_walks s"
    using assms(1) True by (simp_all add: report_one_def)
  have "seen (xs @ [(a, n)]) (fst e) \<longleftrightarrow> seen xs (fst e)" if "e \<in> set (contents s)" for e
  proof -
    have mem: "fst e \<in> set (addrs s)" using that by (simp flip: map_fst_contents)
    show ?thesis
    proof (cases "word_of_int n = (0 :: u8)")
      case True
      then show ?thesis by (rule seen_snoc_idle)
    next
      case False
      then have "fst e \<noteq> a" using \<open>word_of_int n = (0 :: u8) \<or> a \<notin> set (addrs s)\<close> mem by auto
      then show ?thesis by (rule seen_snoc_other)
    qed
  qed
  then have "filter (young_at (xs @ [(a, n)]) l) (contents s) = filter (young_at xs l) (contents s)"
    "filter (top_at s (xs @ [(a, n)]) l) (contents s) = filter (top_at s xs l) (contents s)" for l
    by (auto simp: young_at_def top_at_def intro!: filter_cong)
  then show ?thesis using assms(3) c
    by (simp add: counted_def page_bytes_def top_at_def cong: filter_cong)
next
  case False
  then obtain e where e: "e \<in> set (contents s)" "fst e = a"
    by (auto simp flip: map_fst_contents)
  note ct = report_one_contents [OF assms(1)]
  have y: "young_bytes t = add_young s (bump_entry e) (young_bytes s)"
    "top_bytes t = add_top s (bump_entry e) (top_bytes s)"
    and f: "pagesize t = pagesize s" "nr_walks t = nr_walks s"
    using assms(1) False e by (auto simp: report_one_def)
  have hit: "word_of_int n \<noteq> (0 :: u8)" using False by simp
  obtain p nid loc where b: "bump_entry e = (a, p, nid, loc)"
    using e(2) by (cases e) (simp add: bump_entry_def)
  have "length (filter (young_at (xs @ [(a, n)]) l) (contents t)) =
      length (filter (young_at xs l) (contents s)) + (if uint p \<ge> 1 \<and> loc = l then 1 else 0)" for l
    using count_step [OF assms(2) ct hit e, of "young_at xs l" "young_at (xs @ [(a, n)]) l"]
      assms(4) seen_snoc_same [OF hit, of xs a] b
    by (auto simp: young_at_def seen_snoc_other)
  moreover have "length (filter (top_at t (xs @ [(a, n)]) l) (contents t)) =
      length (filter (top_at s xs l) (contents s)) + (if uint p \<ge> nr_walks s \<and> loc = l then 1 else 0)" for l
    using count_step [OF assms(2) ct hit e, of "top_at s xs l" "top_at t (xs @ [(a, n)]) l"]
      assms(4) seen_snoc_same [OF hit, of xs a] b f
    by (auto simp: top_at_def seen_snoc_other)
  ultimately show ?thesis using assms(3) y f b
    unfolding counted_def page_bytes_def add_young_def add_top_def
    by (simp add: add_counter)
qed

lemma inc_all_counted:
  assumes "counting s" and "sorted_wrt (<) (map fst xs)" and "\<forall>x \<in> set xs. find_ok s (fst x)"
    and "counted ys s" and "\<forall>x \<in> set xs. \<not> seen ys (fst x)"
  shows "\<exists>t. inc_all s xs = Some t \<and> counted (ys @ xs) t"
  using assms
proof (induction xs arbitrary: s ys)
  case Nil
  then show ?case by simp
next
  case (Cons x xs)
  obtain a n where x: "x = (a, n)" by (cases x)
  obtain rc t where t: "inc_payload s a n = Some (rc, t)" "report_one a n s t"
    using inc_payload_counting [OF Cons.prems(1), of a n] Cons.prems(3) x by auto
  have "counted (ys @ [x]) t"
    using counted_step [OF t(2)] Cons.prems x by (simp add: counting_def)
  moreover have "\<forall>y \<in> set xs. find_ok t (fst y)" "\<forall>y \<in> set xs. \<not> seen (ys @ [x]) (fst y)"
    using t(2) Cons.prems x by (fastforce simp: report_one_def seen_def)+
  ultimately obtain u where "inc_all t xs = Some u" "counted ((ys @ [x]) @ xs) u"
    using Cons.IH [of t "ys @ [x]"] t(2) Cons.prems(2) by (auto simp: report_one_def)
  then show ?case using t x by simp
qed

end
