(* ===== verification/Addr_Sequence_Visit.thy ===== *)
theory Addr_Sequence_Visit
  imports Addr_Sequence_Walk
begin

text \<open>
  Visiting a sequence in order. \<open>items\<close> is what \<open>get_first\<close> and \<open>get_next\<close> report; the visiting
  loop runs its body once for each item and returns. The locale \<open>page_ref_source\<close> is the contract
  the consumers of page references rely on. The smoothing pass is shown to stay within the range
  of the payloads it averages.
\<close>

unbundle bit_operations_syntax

section \<open>What a visit reports\<close>

definition items :: "addr_seq \<Rightarrow> (u64 \<times> u8 \<times> int) list" where
  "items s = map (\<lambda>(a, p, nid, loc). (a, p, nid)) (contents s)"

lemma length_items [simp]: "length (items s) = length (cells s)"
  by (simp add: items_def)

lemma map_fst_items [simp]: "map fst (items s) = addrs s"
proof -
  have "map fst (items s) = map fst (contents s)"
    unfolding items_def map_map by (rule map_cong) (auto split: prod.splits)
  then show ?thesis by simp
qed

lemma items_nth:
  "k < length (cells s) \<Longrightarrow>
     items s ! k = (addrs s ! k, dp_payload (item_store s (cells s ! k)), dp_nid (item_store s (cells s ! k)))"
  by (simp add: items_def contents_nth entry_of_def)

lemma walk_iter_update_view [simp]:
  "cells (s\<lparr>walk_iter := w\<rparr>) = cells s" "addrs (s\<lparr>walk_iter := w\<rparr>) = addrs s"
  "contents (s\<lparr>walk_iter := w\<rparr>) = contents s" "items (s\<lparr>walk_iter := w\<rparr>) = items s"
  using view_cong [of "s\<lparr>walk_iter := w\<rparr>" s] by (simp_all add: items_def)

lemma same_shape_walk_iter [simp]: "same_shape s (t\<lparr>walk_iter := w\<rparr>) \<longleftrightarrow> same_shape s t"
  by (simp add: same_shape_def)

lemma iter_at_walk_iter [simp]: "iter_at (s\<lparr>walk_iter := w\<rparr>) it k \<longleftrightarrow> iter_at s it k"
  by (rule iter_at_cong) simp_all

section \<open>The visiting loop\<close>

text \<open>\<open>reports s rc k\<close>: \<open>rc\<close> is the answer for item \<open>k\<close> and the iterator stands behind it.\<close>

definition reports :: "addr_seq \<Rightarrow> as_rc + u64 \<times> u8 \<times> int \<Rightarrow> nat \<Rightarrow> bool" where
  "reports s rc k \<longleftrightarrow>
     (if k < length (cells s) then rc = Inr (items s ! k) \<and> iter_at s (walk_iter s) (Suc k)
      else k = length (cells s) \<and> (\<exists>e. rc = Inl e))"

lemma get_next_reports:
  assumes "iter_at s (walk_iter s) k" and "sizes_pos s"
  shows "\<exists>w. snd (get_next s) = s\<lparr>walk_iter := w\<rparr> \<and> reports (snd (get_next s)) (fst (get_next s)) k"
proof (cases "k < length (cells s)")
  case True
  then show ?thesis
    using assms iter_at_move_next [OF assms(1) True assms(2)]
    by (auto simp: get_next_def do_walk_at items_nth reports_def)
next
  case False
  then have "k = length (cells s)" using iter_at_le [OF assms(1)] by simp
  moreover have "s = s\<lparr>walk_iter := walk_iter s\<rparr>" by simp
  ultimately show ?thesis
    using assms do_walk_at_end [of s "walk_iter s"]
    by (auto simp: get_next_def reports_def intro!: exI [of _ "walk_iter s"])
qed

lemma get_first_reports:
  assumes "sizes_pos s"
  shows "\<exists>w. snd (get_first s) = s\<lparr>walk_iter := w\<rparr> \<and> reports (snd (get_first s)) (fst (get_first s)) 0"
proof (cases "addr_clusters s = []")
  case True
  then have "cells s = []" by (simp add: cells_def)
  with True show ?thesis
    by (auto simp: get_first_def prepare_get_def reports_def intro!: exI [of _ "walk_iter s"])
next
  case False
  let ?t = "s\<lparr>walk_iter := reset_iterator s (walk_iter s) 0\<rparr>"
  have "iter_at ?t (walk_iter ?t) 0" "sizes_pos ?t"
    using iter_at_reset [OF assms] assms by (simp_all add: sizes_pos_def)
  from get_next_reports [OF this] False show ?thesis
    by (auto simp: get_first_def prepare_get_def)
qed

text \<open>
  The rule for a visiting loop whose body may write the payloads: \<open>I k b t\<close> holds when \<open>k\<close> items
  have been handled.
\<close>

lemma visit_loop_rule:
  assumes "reports t rc k" and "seq_inv t" and "same_shape s t" and "I k b t"
    and body: "\<And>k b t. I k b t \<Longrightarrow> same_shape s t \<Longrightarrow> k < length (cells s) \<Longrightarrow>
           \<exists>b' t'. body (items t ! k) b t = Some (b', t') \<and> same_shape t t' \<and>
                   walk_iter t' = walk_iter t \<and> I (Suc k) b' t'"
    and frame: "\<And>k b t w. I k b t \<Longrightarrow> I k b (t\<lparr>walk_iter := w\<rparr>)"
  shows "\<exists>b' t'. visit_loop body rc b t = Some (b', t') \<and> same_shape s t' \<and>
           I (length (cells s)) b' t'"
  using assms(1-4)
proof (induction "length (cells s) - k" arbitrary: k rc b t)
  case 0
  then have "k = length (cells s)" "\<exists>e. rc = Inl e"
    using same_shape_cells [OF "0.prems"(3)] by (auto simp: reports_def split: if_splits)
  then show ?case using 0 by (auto simp: visit_loop.simps)
next
  case (Suc d)
  then have k: "k < length (cells s)" by simp
  then have rc: "rc = Inr (items t ! k)" and it: "iter_at t (walk_iter t) (Suc k)"
    using Suc.prems same_shape_cells [OF Suc.prems(3)] by (simp_all add: reports_def)
  obtain b' t' where b: "body (items t ! k) b t = Some (b', t')" and sh: "same_shape t t'"
    and w: "walk_iter t' = walk_iter t" and I': "I (Suc k) b' t'"
    using body [OF Suc.prems(4) Suc.prems(3) k] by blast
  have inv: "seq_inv t'" using same_shape_inv [OF sh Suc.prems(2)] .
  have "iter_at t' (walk_iter t') (Suc k)" using it w same_shape_iter [OF sh] by simp
  from get_next_reports [OF this seq_inv_sizes_pos [OF inv]]
  obtain w' where t2: "snd (get_next t') = t'\<lparr>walk_iter := w'\<rparr>"
    and r: "reports (t'\<lparr>walk_iter := w'\<rparr>) (fst (get_next t')) (Suc k)" by auto
  have "seq_inv (t'\<lparr>walk_iter := w'\<rparr>)" "same_shape s (t'\<lparr>walk_iter := w'\<rparr>)"
    using inv same_shape_inv [of t' "t'\<lparr>walk_iter := w'\<rparr>"] same_shape_trans [OF Suc.prems(3) sh]
    by (auto simp: same_shape_walk_iter)
  from Suc.hyps(1) [OF _ r this frame [OF I']] Suc.hyps(2)
  show ?case using rc b t2 by (subst visit_loop.simps) (simp add: split_beta)
qed

lemma visit_all_rule:
  assumes "seq_inv s" and "\<And>w. I 0 b (s\<lparr>walk_iter := w\<rparr>)"
    and "\<And>k b t. I k b t \<Longrightarrow> same_shape s t \<Longrightarrow> k < length (cells s) \<Longrightarrow>
           \<exists>b' t'. body (items t ! k) b t = Some (b', t') \<and> same_shape t t' \<and>
                   walk_iter t' = walk_iter t \<and> I (Suc k) b' t'"
    and "\<And>k b t w. I k b t \<Longrightarrow> I k b (t\<lparr>walk_iter := w\<rparr>)"
  shows "\<exists>b' t'. visit_all body b s = Some (b', t') \<and> same_shape s t' \<and> I (length (cells s)) b' t'"
proof -
  obtain w where w: "snd (get_first s) = s\<lparr>walk_iter := w\<rparr>"
    and r: "reports (s\<lparr>walk_iter := w\<rparr>) (fst (get_first s)) 0"
    using get_first_reports [OF seq_inv_sizes_pos [OF assms(1)]] by auto
  have sh: "same_shape s (s\<lparr>walk_iter := w\<rparr>)" by simp
  have inv: "seq_inv (s\<lparr>walk_iter := w\<rparr>)" by (rule same_shape_inv [OF sh assms(1)])
  from visit_loop_rule [where I = I, OF r inv sh assms(2) assms(3,4)] w
  show ?thesis by (simp add: visit_all_def split_beta)
qed

text \<open>A body that only reads: the loop is a fold over the items.\<close>

definition visit_fold :: "(u64 \<times> u8 \<times> int \<Rightarrow> 'b \<Rightarrow> 'b) \<Rightarrow> 'b \<Rightarrow> addr_seq \<Rightarrow> ('b \<times> addr_seq) option" where
  "visit_fold f b s = visit_all (\<lambda>x b s. Some (f x b, s)) b s"

lemma visit_fold_items:
  assumes "seq_inv s"
  shows "\<exists>w. visit_fold f b s = Some (fold f (items s) b, s\<lparr>walk_iter := w\<rparr>)"
proof -
  let ?I = "\<lambda>k b' t. b' = fold f (take k (items s)) b \<and> (\<exists>w. t = s\<lparr>walk_iter := w\<rparr>)"
  have step: "\<exists>b'' t'. Some (f (items t ! k) b', t) = Some (b'', t') \<and> same_shape t t' \<and>
      walk_iter t' = walk_iter t \<and> ?I (Suc k) b'' t'"
    if "?I k b' t" "k < length (cells s)" for k b' t
    using that by (auto simp: take_Suc_conv_app_nth)
  have "\<exists>b' t'. visit_all (\<lambda>x b s. Some (f x b, s)) b s = Some (b', t') \<and> same_shape s t' \<and>
      ?I (length (cells s)) b' t'"
    by (rule visit_all_rule [where I = ?I, OF assms]) (use step in auto)
  then show ?thesis by (auto simp: visit_fold_def)
qed

section \<open>Rewriting the entries one by one\<close>

text \<open>
  \<open>rewritten g s m t\<close>: the first \<open>m\<close> entries of \<open>s\<close> have become their \<open>g\<close>, and the find iterator
  has passed no other entry.
\<close>

definition rewritten :: "(entry \<Rightarrow> entry) \<Rightarrow> addr_seq \<Rightarrow> nat \<Rightarrow> addr_seq \<Rightarrow> bool" where
  "rewritten g s m t \<longleftrightarrow>
     seq_inv t \<and> addrs t = addrs s \<and> m \<le> length (cells s) \<and>
     contents t = map g (take m (contents s)) @ drop m (contents s) \<and>
     (\<forall>b. (\<forall>i < m. addrs s ! i < b) \<longrightarrow> find_ok t b)"

lemma rewritten_walk_iter [simp]: "rewritten g s m (t\<lparr>walk_iter := w\<rparr>) \<longleftrightarrow> rewritten g s m t"
proof -
  have sh: "same_shape t (t\<lparr>walk_iter := w\<rparr>)" "same_shape (t\<lparr>walk_iter := w\<rparr>) t"
    by (simp_all add: same_shape_def)
  have "find_ok (t\<lparr>walk_iter := w\<rparr>) b = find_ok t b" for b by (simp add: find_ok_def)
  then show ?thesis using same_shape_inv [OF sh(1)] same_shape_inv [OF sh(2)]
    by (auto simp: rewritten_def)
qed

lemma rewritten_find_ok:
  assumes "rewritten g s m t" and "m < length (cells s)"
  shows "find_ok t (addrs s ! m)" and "addrs s ! m \<in> set (addrs t)"
proof -
  have asc: "sorted_wrt (<) (addrs s)" using assms(1) by (metis rewritten_def seq_inv_def)
  show "find_ok t (addrs s ! m)"
    using assms sorted_wrt_nth_less [OF asc] by (simp add: rewritten_def)
  show "addrs s ! m \<in> set (addrs t)" using assms by (simp add: rewritten_def)
qed

lemma rewritten_step:
  assumes "rewritten g s m t" and "m < length (cells s)"
    and "touched t (addrs s ! m) f t'" and "f (contents s ! m) = g (contents s ! m)"
  shows "rewritten g s (Suc m) t'"
proof -
  note A = assms(1) [unfolded rewritten_def]
  let ?a = "addrs s ! m"
  have sh: "same_shape t t'" using assms(3) by (simp add: touched_def)
  have "sorted_wrt (<) (addrs s)" using A by (metis seq_inv_def)
  then have "distinct (addrs s)" by (simp add: strict_sorted_iff)
  then have "distinct (addrs t)" using A by metis
  then have dist: "distinct (map fst (contents t))" by (simp only: map_fst_contents)
  have lt: "length (cells t) = length (cells s)" using A by (metis length_addrs)
  have old: "contents t ! m = contents s ! m" using A assms(2) by (simp add: nth_append)
  have "fst (contents s ! m) = ?a" using assms(2) by (simp add: contents_nth entry_of_def)
  then have "contents t' = (contents t)[m := g (contents s ! m)]"
    using map_at_nth_update [OF dist, of m ?a f] lt assms(2-4) old by (simp add: touched_def)
  also have "\<dots> = map g (take (Suc m) (contents s)) @ drop (Suc m) (contents s)"
  proof -
    have "drop m (contents s) = contents s ! m # drop (Suc m) (contents s)"
      using assms(2) by (simp add: Cons_nth_drop_Suc)
    then show ?thesis using A assms(2) by (simp add: take_Suc_conv_app_nth list_update_append)
  qed
  finally have "contents t' = map g (take (Suc m) (contents s)) @ drop (Suc m) (contents s)" .
  moreover have "find_ok t' b" if "\<forall>i < Suc m. addrs s ! i < b" for b
  proof -
    have "?a \<le> b" using that by (simp add: less_imp_le)
    then show ?thesis using assms(3) by (simp add: touched_def)
  qed
  moreover have "addrs t' = addrs s" using A same_shape_addrs [OF sh] by simp
  moreover have "seq_inv t'" using assms(3) by (simp add: touched_def)
  ultimately show ?thesis using assms(2) unfolding rewritten_def by simp
qed

lemma rewritten_start:
  assumes "seq_inv s"
  shows "rewritten g s 0 (prepare_update s)"
  using prepare_update_inv(1) [OF assms] find_ok_reset [OF assms, of "prepare_update s" "find_iter s"]
    view_cong [of "prepare_update s" s]
  by (simp add: rewritten_def prepare_update_def)

lemma rewritten_all: "rewritten g s (length (cells s)) t \<Longrightarrow> contents t = map g (contents s)"
  by (simp add: rewritten_def)

section \<open>The contract of a page reference source\<close>

text \<open>
  What the consumers of page references (the scanner's histograms, the migration's selection)
  rely on: a visit returns, reports every recorded item once in order, and leaves the source with
  the same items.
\<close>

locale page_ref_source =
  fixes visit :: "('item \<Rightarrow> 'b \<Rightarrow> 'b) \<Rightarrow> 'b \<Rightarrow> 's \<Rightarrow> ('b \<times> 's) option"
    and its :: "'s \<Rightarrow> 'item list"
    and ok :: "'s \<Rightarrow> bool"
  assumes visit_items: "ok s \<Longrightarrow> \<exists>t. visit f b s = Some (fold f (its s) b, t) \<and> ok t \<and> its t = its s"
begin

lemma visit_returns: "ok s \<Longrightarrow> visit f b s \<noteq> None"
  using visit_items [of s f b] by auto

lemma visit_result: "ok s \<Longrightarrow> visit f b s = Some (b', t) \<Longrightarrow> b' = fold f (its s) b \<and> ok t \<and> its t = its s"
  using visit_items [of s f b] by auto

lemma visit_again:
  assumes "ok s" and "visit f b s = Some (c, t)"
  shows "\<exists>u. visit f b t = Some (c, u)"
  using visit_result [OF assms] visit_items [of t f b] by auto

lemma visit_invariant:
  assumes "ok s" and "visit f b s = Some (b', t)" and "P b"
    and "\<And>x b. x \<in> set (its s) \<Longrightarrow> P b \<Longrightarrow> P (f x b)"
  shows "P b'"
proof -
  have "P (fold f xs b)" if "set xs \<subseteq> set (its s)" "P b" for xs b
    using that assms(4) by (induction xs arbitrary: b) auto
  then show ?thesis using visit_result [OF assms(1,2)] assms(3) by simp
qed

end

lemma visit_fold_source:
  "seq_inv s \<Longrightarrow> \<exists>t. visit_fold f b s = Some (fold f (items s) b, t) \<and> seq_inv t \<and> items t = items s"
  using visit_fold_items [of s f b] same_shape_inv [of s "s\<lparr>walk_iter := w\<rparr>" for w] by fastforce

interpretation page_refs: page_ref_source visit_fold items seq_inv
  by unfold_locales (rule visit_fold_source)

section \<open>Smoothing\<close>

definition payload_between :: "int \<Rightarrow> int \<Rightarrow> delta_payload \<Rightarrow> bool" where
  "payload_between lo hi x \<longleftrightarrow> lo \<le> uint (dp_payload x) \<and> uint (dp_payload x) \<le> hi"

definition same_but_payload :: "delta_payload \<Rightarrow> delta_payload \<Rightarrow> bool" where
  "same_but_payload x y \<longleftrightarrow>
     dp_delta y = dp_delta x \<and> dp_nid y = dp_nid x \<and> dp_location y = dp_location x"

lemma uint_u8_le: "uint (p :: u8) \<le> 255"
  using uint_lt2p [of p] by simp

lemma running_average_between:
  fixes r p :: int
  assumes "lo \<le> r" "r \<le> hi" "lo \<le> p" "p \<le> hi"
  shows "lo \<le> (7 + r * 7 + p) div 8 \<and> (7 + r * 7 + p) div 8 \<le> hi"
  using assms by linarith

lemma smooth_cluster_between:
  assumes "set (cluster_cells c) \<subseteq> S" and "\<forall>p \<in> S. payload_between lo hi (st p)"
    and "0 < i \<Longrightarrow> lo \<le> r \<and> r \<le> hi" and "0 \<le> lo" and "hi \<le> 255"
  shows "(\<forall>p \<in> S. payload_between lo hi (smooth_cluster c i r st p)) \<and>
         (\<forall>p. same_but_payload (st p) (smooth_cluster c i r st p)) \<and>
         (\<forall>p. p \<notin> S \<longrightarrow> smooth_cluster c i r st p = st p)"
  using assms
proof (induction c i r st rule: smooth_cluster.induct)
  case (1 c i r st)
  show ?case
  proof (cases "i < ac_size c")
    case False
    then show ?thesis using 1 by (subst (1 2 3) smooth_cluster.simps) (simp add: same_but_payload_def)
  next
    case True
    let ?p = "item_at (ac_deltas c) i"
    have pS: "?p \<in> S" using 1 True by (auto simp: cluster_cells_def)
    then have pb: "lo \<le> uint (dp_payload (st ?p))" "uint (dp_payload (st ?p)) \<le> hi"
      using 1 by (auto simp: payload_between_def)
    show ?thesis
    proof (cases "i = 0 \<or> dp_delta (st ?p) > 3")
      case head: True
      have "smooth_cluster c i r st = smooth_cluster c (i + 1) (uint (dp_payload (st ?p))) st"
        using True head by (subst smooth_cluster.simps) simp
      then show ?thesis using 1(1) [OF True refl refl head] 1 pb by simp
    next
      case False
      define r' where "r' = (7 + r * 7 + uint (dp_payload (st ?p))) div 8"
      define st' where "st' = st(?p := (st ?p)\<lparr>dp_payload := word_of_int r'\<rparr>)"
      have r: "lo \<le> r' \<and> r' \<le> hi"
        unfolding r'_def
        using running_average_between [of lo r hi "uint (dp_payload (st ?p))"] 1 False pb by auto
      have u: "uint (word_of_int r' :: u8) = r'"
        using r 1 by (simp add: uint_word_of_int_eq take_bit_int_eq_self)
      have e: "smooth_cluster c i r st = smooth_cluster c (i + 1) r' st'"
        using True False by (subst smooth_cluster.simps) (simp add: Let_def r'_def st'_def)
      have "\<forall>p \<in> S. payload_between lo hi (st' p)"
        using 1 r u by (auto simp: payload_between_def st'_def simp del: split_paired_All)
      from 1(2) [OF True refl refl False refl] this 1 r
      have "(\<forall>p \<in> S. payload_between lo hi (smooth_cluster c (i + 1) r' st' p)) \<and>
         (\<forall>p. same_but_payload (st' p) (smooth_cluster c (i + 1) r' st' p)) \<and>
         (\<forall>p. p \<notin> S \<longrightarrow> smooth_cluster c (i + 1) r' st' p = st' p)"
        unfolding r'_def [symmetric] st'_def [symmetric] by simp
      moreover have "same_but_payload (st p) (st' p)" for p
        by (simp add: same_but_payload_def st'_def)
      moreover have "st' p = st p" if "p \<notin> S" for p
        using that pS by (auto simp: st'_def)
      ultimately show ?thesis unfolding e same_but_payload_def by (simp del: split_paired_All)
    qed
  qed
qed

lemma smooth_clusters_between:
  assumes "\<forall>c \<in> set cs. set (cluster_cells c) \<subseteq> S" and "\<forall>p \<in> S. payload_between lo hi (st p)"
    and "0 \<le> lo" and "hi \<le> 255"
  shows "(\<forall>p \<in> S. payload_between lo hi (fold (\<lambda>c. smooth_cluster c 0 0) cs st p)) \<and>
         (\<forall>p. same_but_payload (st p) (fold (\<lambda>c. smooth_cluster c 0 0) cs st p))"
  using assms
proof (induction cs arbitrary: st)
  case Nil
  then show ?case by (simp add: same_but_payload_def)
next
  case (Cons c cs)
  have 1: "(\<forall>p \<in> S. payload_between lo hi (smooth_cluster c 0 0 st p)) \<and>
      (\<forall>p. same_but_payload (st p) (smooth_cluster c 0 0 st p))"
    using smooth_cluster_between [of c S lo hi st 0 0] Cons.prems by simp
  show ?case using Cons.IH [of "smooth_cluster c 0 0 st"] Cons.prems 1
    by (simp add: same_but_payload_def)
qed

lemma smooth_payloads_shape: "same_shape s (smooth_payloads s)"
  using smooth_clusters_between [of "addr_clusters s" UNIV 0 255 "item_store s"]
  by (simp add: same_shape_def smooth_payloads_def same_but_payload_def payload_between_def uint_u8_le
      del: split_paired_All)

lemma smooth_payloads_between:
  assumes "\<forall>x \<in> set (items s). lo \<le> uint (fst (snd x)) \<and> uint (fst (snd x)) \<le> hi"
    and "0 \<le> lo" and "hi \<le> 255"
  shows "map fst (items (smooth_payloads s)) = map fst (items s) \<and>
         map (snd \<circ> snd) (contents (smooth_payloads s)) = map (snd \<circ> snd) (contents s) \<and>
         (\<forall>x \<in> set (items (smooth_payloads s)). lo \<le> uint (fst (snd x)) \<and> uint (fst (snd x)) \<le> hi)"
proof -
  have c: "cells (smooth_payloads s) = cells s" and a: "addrs (smooth_payloads s) = addrs s"
    using same_shape_cells same_shape_addrs smooth_payloads_shape by blast+
  have "\<forall>p \<in> set (cells s). payload_between lo hi (item_store s p)"
  proof
    fix p assume "p \<in> set (cells s)"
    then obtain k where k: "k < length (cells s)" "cells s ! k = p" by (auto simp: in_set_conv_nth)
    have "items s ! k \<in> set (items s)" using k by simp
    with assms(1) k show "payload_between lo hi (item_store s p)"
      by (auto simp: payload_between_def items_nth)
  qed
  moreover have "\<forall>c \<in> set (addr_clusters s). set (cluster_cells c) \<subseteq> set (cells s)"
    by (auto simp: cells_def)
  ultimately have b: "(\<forall>p \<in> set (cells s). payload_between lo hi (item_store (smooth_payloads s) p)) \<and>
      (\<forall>p. same_but_payload (item_store s p) (item_store (smooth_payloads s) p))"
    using smooth_clusters_between [of "addr_clusters s" "set (cells s)" lo hi "item_store s"] assms
    by (simp add: smooth_payloads_def)
  have "map (snd \<circ> snd) (contents (smooth_payloads s)) = map (snd \<circ> snd) (contents s)"
    by (rule nth_equalityI)
      (use b c a in \<open>simp_all add: contents_nth entry_of_def same_but_payload_def del: split_paired_All\<close>)
  moreover have "lo \<le> uint (fst (snd x)) \<and> uint (fst (snd x)) \<le> hi"
    if mem: "x \<in> set (items (smooth_payloads s))" for x
  proof -
    obtain k where k: "k < length (cells s)" "x = items (smooth_payloads s) ! k"
      using in_set_conv_nth [THEN iffD1, OF mem] c by force
    then show ?thesis using b c by (auto simp: items_nth payload_between_def)
  qed
  ultimately show ?thesis by (simp add: a)
qed

end
