(* ===== verification/Addr_Sequence_Protocol.thy ===== *)
theory Addr_Sequence_Protocol
  imports Addr_Sequence_Visit
begin

text \<open>
  The life of an address sequence under its clients, as a step relation over three phases (the
  first walk appends, node ids are filled in, later walks count), its invariant, and the
  properties of the address sequence that the rest of the program relies on.
\<close>

unbundle bit_operations_syntax

section \<open>The phases of a sequence\<close>

datatype phase = Appending | Annotating | Counting

inductive seq_run :: "phase \<Rightarrow> addr_seq \<Rightarrow> bool" where
  start: "shift \<le> 30 \<Longrightarrow> buf_oom s = [] \<Longrightarrow> vec_oom s = [] \<Longrightarrow>
            seq_run Appending (rewind (fresh_seq s shift))"
| append: "seq_run Appending s \<Longrightarrow> inc_payload s a n = Some (rc, t) \<Longrightarrow> seq_run Appending t"
| prepare: "seq_run ph s \<Longrightarrow> ph \<noteq> Counting \<Longrightarrow> seq_run Annotating (prepare_update s)"
| node: "seq_run Annotating s \<Longrightarrow> update_nodeid s a nid loc = Some (rc, t) \<Longrightarrow> seq_run Annotating t"
| next_walk: "seq_run ph s \<Longrightarrow> seq_run Counting (rewind s)"
| count: "seq_run Counting s \<Longrightarrow> inc_payload s a n = Some (rc, t) \<Longrightarrow> seq_run Counting t"
| set: "seq_run Counting s \<Longrightarrow> set_payload s a n = Some (rc, t) \<Longrightarrow> seq_run Counting t"
| first: "seq_run ph s \<Longrightarrow> seq_run ph (snd (get_first s))"
| smooth: "seq_run Counting s \<Longrightarrow> seq_run Counting (smooth_payloads s)"

inductive_cases seq_run_AppendingE: "seq_run Appending s"

definition iter_valid :: "addr_seq \<Rightarrow> walk_iterator \<Rightarrow> bool" where
  "iter_valid s it \<longleftrightarrow> (\<exists>k. iter_at s it k)"

definition phase_inv :: "phase \<Rightarrow> addr_seq \<Rightarrow> bool" where
  "phase_inv ph s \<longleftrightarrow>
     (case ph of
        Appending \<Rightarrow> appending s \<and> nr_walks s = 1
      | Annotating \<Rightarrow> seq_inv s \<and> nr_walks s = 1 \<and> iter_valid s (find_iter s)
      | Counting \<Rightarrow> seq_inv s \<and> 2 \<le> nr_walks s \<and> iter_valid s (find_iter s))"

lemma phase_inv_seq_inv: "phase_inv ph s \<Longrightarrow> seq_inv s"
  by (cases ph) (auto simp: phase_inv_def appending_def)

text \<open>Wherever a valid iterator stands, a search from it ends at a valid position.\<close>

lemma find_loop_valid:
  assumes "sizes_pos s" and "iter_at s it k"
  shows "\<exists>rc it' k'. find_loop s a it = Some (rc, it') \<and> iter_at s it' k' \<and>
           (rc = RC_OK \<and> k' < length (cells s) \<or> rc = ADDR_NOT_FOUND)"
  using assms
proof (induction "length (cells s) - k" arbitrary: it k)
  case 0
  then have "k = length (cells s)" using iter_at_le by fastforce
  then show ?case using 0 do_walk_at_end by (subst find_loop.simps) auto
next
  case (Suc d)
  then have k: "k < length (cells s)" by simp
  note w = do_walk_at [OF Suc.prems(2) k]
  show ?case
  proof (cases "addrs s ! k < a")
    case True
    have "iter_at s (do_walk_move_next s it) (Suc k)"
      using iter_at_move_next [OF Suc.prems(2) k Suc.prems(1)] .
    from Suc.hyps(1) [OF _ Suc.prems(1) this] Suc.hyps(2)
    show ?thesis using w True by (subst find_loop.simps) auto
  next
    case False
    then show ?thesis using w Suc.prems k by (subst find_loop.simps) auto
  qed
qed

text \<open>What every update keeps: the shape of the sequence and the validity of the iterator.\<close>

definition kept :: "addr_seq \<Rightarrow> addr_seq \<Rightarrow> bool" where
  "kept s t \<longleftrightarrow> same_shape s t \<and> iter_valid t (find_iter t)"

lemma kept_location_count:
  assumes "same_shape s t" and "iter_at s (find_iter t) k"
  shows "kept s (update_addr_location_count t it)"
  using assms update_addr_location_count_fields [of t it]
  by (metis kept_def iter_valid_def same_shape_iter same_shape_trans)

lemma update_addr_kept:
  assumes "sizes_pos s" and "iter_valid s (find_iter s)"
  shows "\<exists>rc t. update_addr s a n inc = Some (rc, t) \<and> kept s t"
proof -
  obtain rc it k where f: "find_loop s a (find_iter s) = Some (rc, it)" "iter_at s it k"
    using find_loop_valid assms unfolding iter_valid_def by blast
  let ?t = "s\<lparr>find_iter := it\<rparr>"
  have sh: "same_shape s (?t\<lparr>item_store := (item_store s)(p := (item_store s p)\<lparr>dp_payload := v\<rparr>)\<rparr>)" for p v
    by (simp add: same_shape_def)
  have base: "kept s ?t"
    using f(2) same_shape_iter [of s ?t] by (auto simp: kept_def iter_valid_def find_iter_update_same)
  have "kept s (do_walk_update_payload ?t it v inc)" for v
    using base kept_location_count [where k = k and it = it, OF sh] f(2)
    by (simp add: do_walk_update_payload_def Let_def)
  then show ?thesis using f(1) base by (simp add: update_addr_def Let_def)
qed

lemma update_nodeid_kept:
  assumes "sizes_pos s" and "iter_valid s (find_iter s)"
  shows "\<exists>rc t. update_nodeid s a nid loc = Some (rc, t) \<and> kept s t"
proof -
  obtain rc it k where f: "find_loop s a (find_iter s) = Some (rc, it)" "iter_at s it k"
    using find_loop_valid assms unfolding iter_valid_def by blast
  let ?t = "s\<lparr>find_iter := it\<rparr>"
  have sh: "same_shape s (?t\<lparr>item_store := (item_store s)
      (p := (item_store s p)\<lparr>dp_nid := nid, dp_location := loc\<rparr>)\<rparr>)" for p
    by (simp add: same_shape_def)
  have base: "kept s ?t"
    using f(2) same_shape_iter [of s ?t] by (auto simp: kept_def iter_valid_def find_iter_update_same)
  have "kept s (do_walk_update_nid ?t it nid loc)"
    using kept_location_count [where k = k and it = it, OF sh] f(2) by (simp add: do_walk_update_nid_def Let_def)
  moreover have "kept s s" using assms(2) by (simp add: kept_def)
  ultimately show ?thesis using f(1) base by (simp add: update_nodeid_def Let_def)
qed

lemma kept_phase:
  assumes "kept s t" and "phase_inv ph s" and "ph \<noteq> Appending"
  shows "phase_inv ph t"
  using assms same_shape_inv [of s t]
  by (cases ph) (auto simp: phase_inv_def kept_def same_shape_def)

lemma iter_valid_reset:
  assumes "seq_inv s" and "addr_clusters t = addr_clusters s" and "item_store t = item_store s"
    and "find_iter t = reset_iterator s it 0"
  shows "iter_valid t (find_iter t)"
  using find_ok_reset [OF assms, of 0] by (auto simp: iter_valid_def find_ok_def)

lemma phase_inv_rewind:
  assumes "phase_inv ph s"
  shows "phase_inv Counting (rewind s)"
  using assms rewind_inv [OF phase_inv_seq_inv [OF assms]]
    iter_valid_reset [OF phase_inv_seq_inv [OF assms], of "rewind s" "find_iter s"]
  by (cases ph) (auto simp: phase_inv_def rewind_fields)

lemma phase_inv_prepare:
  assumes "phase_inv ph s" and "ph \<noteq> Counting"
  shows "phase_inv Annotating (prepare_update s)"
  using assms prepare_update_inv(1) [OF phase_inv_seq_inv [OF assms(1)]]
    iter_valid_reset [OF phase_inv_seq_inv [OF assms(1)], of "prepare_update s" "find_iter s"]
  by (cases ph) (auto simp: phase_inv_def prepare_update_def)

lemma walk_iter_phase:
  assumes "phase_inv ph s"
  shows "phase_inv ph (s\<lparr>walk_iter := w\<rparr>)"
proof -
  have "seq_inv (s\<lparr>walk_iter := w\<rparr>)"
    using same_shape_inv [of s "s\<lparr>walk_iter := w\<rparr>"] phase_inv_seq_inv [OF assms] by simp
  then show ?thesis using assms
    by (cases ph) (auto simp: phase_inv_def appending_def append_ready_def in_append_period_def iter_valid_def)
qed

lemma get_first_phase:
  assumes "phase_inv ph s"
  shows "phase_inv ph (snd (get_first s))"
  using get_first_reports [OF seq_inv_sizes_pos [OF phase_inv_seq_inv [OF assms]]]
    walk_iter_phase [OF assms] by auto

lemma inc_payload_phase:
  assumes "phase_inv ph s" and "ph = Appending \<or> ph = Counting"
  shows "\<exists>rc t. inc_payload s a n = Some (rc, t) \<and> phase_inv ph t"
proof (cases "ph = Appending")
  case True
  then have s: "appending s" "nr_walks s = 1" using assms by (auto simp: phase_inv_def)
  obtain rc t where t: "inc_payload s a n = Some (rc, t)" "appending t"
    using inc_payload_appending [OF s(1)] by blast
  moreover have "nr_walks (snd (append_addr s a n)) = nr_walks s"
    by (auto simp: append_addr_def create_cluster_def get_free_buffer_def allocate_buf_def
        save_into_cluster_def rc_negative_def Let_def split: prod.splits sum.splits)
  ultimately show ?thesis using True s by (auto simp: phase_inv_def inc_payload_def appending_def)
next
  case False
  then have "ph = Counting" using assms by simp
  then have s: "seq_inv s" "\<not> in_append_period s" "iter_valid s (find_iter s)"
    using assms by (auto simp: phase_inv_def in_append_period_def)
  obtain rc t where "update_addr s a n True = Some (rc, t)" "kept s t"
    using update_addr_kept [OF seq_inv_sizes_pos [OF s(1)] s(3)] by blast
  then show ?thesis using s(2) kept_phase [OF _ assms(1) False] by (auto simp: inc_payload_def)
qed

lemma set_payload_phase:
  assumes "phase_inv Counting s"
  shows "\<exists>rc t. set_payload s a n = Some (rc, t) \<and> phase_inv Counting t"
  using assms update_addr_kept [OF seq_inv_sizes_pos [OF phase_inv_seq_inv [OF assms]], of a n False]
    kept_phase [OF _ assms]
  by (auto simp: set_payload_def phase_inv_def)

lemma update_nodeid_phase:
  assumes "phase_inv Annotating s"
  shows "\<exists>rc t. update_nodeid s a nid loc = Some (rc, t) \<and> phase_inv Annotating t"
  using assms update_nodeid_kept [OF seq_inv_sizes_pos [OF phase_inv_seq_inv [OF assms]], of a nid loc]
    kept_phase [OF _ assms]
  by (auto simp: phase_inv_def)

lemma seq_run_phase_inv: "seq_run ph s \<Longrightarrow> phase_inv ph s"
proof (induction rule: seq_run.induct)
  case (start shift s)
  then have "appending (rewind (fresh_seq s shift))" by (rule appending_rewind_fresh)
  moreover have "nr_walks (rewind (fresh_seq s shift)) = 1"
    using fresh_seq_inv(4) [OF start(1), of s] by (simp add: rewind_fields)
  ultimately show ?case by (simp add: phase_inv_def)
next
  case (append s a n rc t)
  then show ?case using inc_payload_phase [of Appending s a n] by auto
next
  case (node s a nid loc rc t)
  then show ?case using update_nodeid_phase [of s a nid loc] by auto
next
  case (count s a n rc t)
  then show ?case using inc_payload_phase [of Counting s a n] by auto
next
  case (set s a n rc t)
  then show ?case using set_payload_phase [of s a n] by auto
next
  case (smooth s)
  have "kept s (smooth_payloads s)"
    using smooth smooth_payloads_shape same_shape_iter [OF smooth_payloads_shape]
    by (auto simp: kept_def phase_inv_def iter_valid_def smooth_payloads_def)
  then show ?case using kept_phase smooth by blast
qed (auto intro: phase_inv_prepare phase_inv_rewind get_first_phase)


section \<open>Properties\<close>

text \<open>A concrete sequence for the witnesses: a constructed object whose storage was zero.\<close>

definition zero_iter :: walk_iterator where
  "zero_iter = \<lparr>cluster_iter = 0, cluster_iter_end = 0, delta_sum = 0, delta_index = 0,
                cur_cluster_ptr = 0, cur_delta_ptr = (0, 0)\<rparr>"

definition new_seq :: addr_seq where
  "new_seq = AddrSequence_ctor
     \<lparr>nr_walks = 0, pageshift = 0, pagesize = 0, addr_size = 0, top_bytes = (\<lambda>_. 0),
      young_bytes = (\<lambda>_. 0), addr_clusters = [],
      item_store = (\<lambda>_. \<lparr>dp_delta = 0, dp_payload = 0, dp_nid = 0, dp_location = 0\<rparr>),
      buf_pool = 0, buf_used_count = 0, walk_iter = zero_iter, find_iter = zero_iter,
      last_cluster_end = 0, user_flags = 0, buf_oom = [], vec_oom = []\<rparr>"

lemma new_seq_oom [simp]: "buf_oom new_seq = []" "vec_oom new_seq = []"
  by (simp_all add: new_seq_def AddrSequence_ctor_def clear_location_count_def)

lemma new_seq_run: "shift \<le> 30 \<Longrightarrow> seq_run Appending (rewind (fresh_seq new_seq shift))"
  by (rule seq_run.start) simp_all

text \<open>
  C1: The first walk records what is reported: after a clear and a rewind, reporting pages in
  ascending order always returns, and a visit of the sequence then yields exactly the reported
  addresses in order, each with its payload (cut to 8 bits) and the node id -1; the size is the
  number of reports. Deltas, clusters and buffers do not show.
\<close>

theorem first_walk_records:
  assumes "shift \<le> 30" and "buf_oom s = []" and "vec_oom s = []" and "sorted_wrt (<) (map fst xs)"
  shows "\<exists>t u. inc_all (rewind (fresh_seq s shift)) xs = Some t \<and>
           visit_fold (\<lambda>x l. l @ [x]) [] t = Some (map (\<lambda>(a, n). (a, word_of_int n, - 1)) xs, u) \<and>
           addr_size t = of_nat (length xs)"
proof -
  let ?s = "rewind (fresh_seq s shift)"
  have c: "contents ?s = []" using fresh_seq_inv(2) [OF assms(1)] by simp
  obtain t where t: "inc_all ?s xs = Some t" "appending t" "contents t = foldl record_one [] xs"
    using inc_all_appending [OF appending_rewind_fresh [OF assms(1-3)], of xs] c by auto
  have ct: "contents t = map (\<lambda>(a, n). (a, word_of_int n, - 1, LOC_DRAM)) xs"
    using t(3) record_ascending [OF assms(4), of "[]"] by simp
  then have it: "items t = map (\<lambda>(a, n). (a, word_of_int n, - 1)) xs"
    by (auto simp: items_def split: prod.splits)
  have "fold (\<lambda>x l. l @ [x]) ys zs = zs @ ys" for ys zs :: "(u64 \<times> u8 \<times> int) list"
    by (induction ys arbitrary: zs) auto
  moreover have "seq_inv t" using t(2) by (simp add: appending_def)
  moreover have "length (cells t) = length xs"
    using ct by (metis length_contents length_map)
  ultimately show ?thesis
    using t(1) it visit_fold_items [of t "\<lambda>x l. l @ [x]" "[]"] by (auto simp: seq_inv_def)
qed

theorem first_walk_records_witness:
  "\<exists>t u. inc_all (rewind (fresh_seq new_seq 12)) [(0x1000, 1), (0x3000, 0), (0x801000, 1)] = Some t \<and>
     visit_fold (\<lambda>x l. l @ [x]) [] t = Some ([(0x1000, 1, - 1), (0x3000, 0, - 1), (0x801000, 1, - 1)], u) \<and>
     addr_size t = 3"
  using first_walk_records [of 12 new_seq "[(0x1000, 1), (0x3000, 0), (0x801000, 1)]"] by simp

text \<open>
  C3: A later walk counts: whatever has been done to a sequence since its first walk, after a
  rewind the reports of a walk in ascending order (repetitions allowed, unknown addresses too)
  always return; each recorded page's payload grows by the number of its non-idle reports, modulo
  256, and no page appears, disappears or changes its node.
\<close>

theorem later_walk_counts:
  assumes "seq_run ph s" and "sorted (map fst xs)"
  shows "\<exists>t. inc_all (rewind s) xs = Some t \<and> nr_walks t = nr_walks s + 1 \<and>
           contents t = map (add_hits xs) (contents s)"
proof -
  have p: "phase_inv Counting (rewind s)"
    using phase_inv_rewind [OF seq_run_phase_inv [OF assms(1)]] .
  have "counting (rewind s)"
    using p by (auto simp: phase_inv_def counting_def in_append_period_def)
  from inc_all_counting [OF this assms(2)] rewind_find_ok
    phase_inv_seq_inv [OF seq_run_phase_inv [OF assms(1)]]
  show ?thesis by (auto simp: rewind_fields)
qed

theorem later_walk_counts_witness:
  "\<exists>t. inc_all (rewind (rewind (fresh_seq new_seq 12))) [(0x1000, 1), (0x2000, 0)] = Some t \<and>
     nr_walks t = nr_walks (rewind (fresh_seq new_seq 12)) + 1 \<and>
     contents t = map (add_hits [(0x1000, 1), (0x2000, 0)]) (contents (rewind (fresh_seq new_seq 12)))"
  by (rule later_walk_counts [OF new_seq_run [of 12]]) simp_all

text \<open>
  C6: The byte counters of a later walk: when each page is reported at most once, the young bytes of
  a location are the sizes of the pages there that this walk hit, and the top bytes those that every
  walk hit (payload at least the number of walks).
\<close>

theorem walk_byte_counters:
  assumes "seq_run ph s" and "sorted_wrt (<) (map fst xs)"
  shows "\<exists>t. inc_all (rewind s) xs = Some t \<and>
           (\<forall>l. young_bytes t l = page_bytes t (young_at xs l) \<and>
                top_bytes t l = page_bytes t (top_at t xs l))"
proof -
  have p: "phase_inv Counting (rewind s)"
    using phase_inv_rewind [OF seq_run_phase_inv [OF assms(1)]] .
  then have c: "counting (rewind s)"
    by (auto simp: phase_inv_def counting_def in_append_period_def)
  have "counted [] (rewind s)"
    by (simp add: counted_def rewind_fields page_bytes_def young_at_def top_at_def seen_def
        case_prod_beta)
  then show ?thesis
    using inc_all_counted [OF c assms(2), of "[]"] rewind_find_ok
      phase_inv_seq_inv [OF seq_run_phase_inv [OF assms(1)]]
    by (auto simp: counted_def seen_def)
qed

theorem walk_byte_counters_witness:
  "\<exists>t. inc_all (rewind (rewind (fresh_seq new_seq 21))) [(0x200000, 1)] = Some t \<and>
     (\<forall>l. young_bytes t l = page_bytes t (young_at [(0x200000, 1)] l) \<and>
          top_bytes t l = page_bytes t (top_at t [(0x200000, 1)] l))"
  by (rule walk_byte_counters [OF new_seq_run [of 21]]) simp_all



text \<open>
  C5: No operation of a client hangs: in every reachable state of the phase that allows it,
  recording, counting, setting a payload and setting a node return, whatever address they are given.
\<close>

theorem sequence_operations_return:
  assumes "seq_run ph s"
  shows "case ph of
           Appending \<Rightarrow> \<exists>rc t. inc_payload s a n = Some (rc, t)
         | Annotating \<Rightarrow> \<exists>rc t. update_nodeid s a nid loc = Some (rc, t)
         | Counting \<Rightarrow> (\<exists>rc t. inc_payload s a n = Some (rc, t)) \<and>
                       (\<exists>rc t. set_payload s a n = Some (rc, t))"
  using seq_run_phase_inv [OF assms] inc_payload_phase [of ph s a n] set_payload_phase [of s a n]
    update_nodeid_phase [of s a nid loc]
  by (cases ph) auto

theorem sequence_operations_return_witness:
  "\<exists>rc t. inc_payload (rewind (rewind (fresh_seq new_seq 12))) 0x1000 1 = Some (rc, t)"
  using sequence_operations_return [OF seq_run.next_walk [OF new_seq_run [of 12]], of "0x1000" 1] by simp

text \<open>
  Smoothing averages: every payload after the pass lies between the smallest and the largest
  payload before it (so the 8-bit running average never wraps), and addresses, nodes and locations
  stay.
\<close>

definition payloads :: "addr_seq \<Rightarrow> int set" where
  "payloads s = (\<lambda>x. uint (fst (snd x))) ` set (items s)"

theorem smoothing_in_range:
  assumes "items s \<noteq> []"
  shows "payloads (smooth_payloads s) \<subseteq> {Min (payloads s)..Max (payloads s)} \<and>
         map fst (items (smooth_payloads s)) = map fst (items s) \<and>
         map (snd \<circ> snd) (contents (smooth_payloads s)) = map (snd \<circ> snd) (contents s)"
proof -
  have fin: "finite (payloads s)" and ne: "payloads s \<noteq> {}" using assms by (auto simp: payloads_def)
  have bounds: "x \<in> payloads s \<Longrightarrow> 0 \<le> x \<and> x \<le> 255" for x
    using uint_u8_le by (auto simp: payloads_def)
  have "\<forall>x \<in> set (items s). Min (payloads s) \<le> uint (fst (snd x)) \<and> uint (fst (snd x)) \<le> Max (payloads s)"
    using fin by (auto simp: payloads_def)
  moreover have "0 \<le> Min (payloads s)" "Max (payloads s) \<le> 255"
    using bounds Min_in [OF fin ne] Max_in [OF fin ne] by auto
  ultimately have "\<forall>x \<in> set (items (smooth_payloads s)).
      Min (payloads s) \<le> uint (fst (snd x)) \<and> uint (fst (snd x)) \<le> Max (payloads s)"
    "map fst (items (smooth_payloads s)) = map fst (items s)"
    "map (snd \<circ> snd) (contents (smooth_payloads s)) = map (snd \<circ> snd) (contents s)"
    using smooth_payloads_between by blast+
  then show ?thesis by (auto simp: payloads_def)
qed

definition one_item :: addr_seq where
  "one_item = snd (append_addr (rewind (fresh_seq new_seq 12)) 0x1000 8)"

lemma one_item_contents: "contents one_item = [(0x1000, 8, - 1, LOC_DRAM)]"
proof -
  have r: "appending (rewind (fresh_seq new_seq 12))" by (rule appending_rewind_fresh) simp_all
  have "contents (rewind (fresh_seq new_seq 12)) = []" using fresh_seq_inv(2) [of 12 new_seq] by simp
  then show ?thesis
    using inc_payload_appending [OF r, of "0x1000" 8] r
    by (auto simp: inc_payload_def appending_def one_item_def record_one_def)
qed

theorem smoothing_in_range_witness:
  "payloads (smooth_payloads one_item) \<subseteq> {Min (payloads one_item)..Max (payloads one_item)}"
  using smoothing_in_range [of one_item] one_item_contents by (simp add: items_def)

text \<open>
  C9: When the buffer allocator throws, appending a page that needs a new buffer reports the error
  and leaves the recorded contents and the invariant untouched.
\<close>

theorem append_out_of_memory:
  assumes "seq_inv s" and "append_ready s" and "addrs s = [] \<or> last (addrs s) < a"
    and "is_buffer_full s" and "buf_oom s = True # rest"
  shows "\<exists>t. append_addr s a n = (RC_NOMEM, t) \<and> seq_inv t \<and> append_ready t \<and>
           contents t = contents s \<and> buf_oom t = rest"
proof -
  have nb: "\<not> buf_ok s" using assms by (simp add: buf_ok_def)
  have "append_addr s a n = create_cluster s a n"
  proof (cases "addr_clusters s = []")
    case False
    then have "addrs s \<noteq> []" using addrs_nonempty [OF assms(1)] by (metis length_0_conv length_addrs)
    then show ?thesis using assms False
      by (auto simp: append_addr_def append_ready_def can_merge_into_cluster_def Let_def)
  qed (simp add: append_addr_def)
  moreover have "buf_oom (snd (create_cluster s a n)) = rest"
    using assms(4,5) by (simp add: create_cluster_def get_free_buffer_def allocate_buf_def rc_negative_def Let_def)
  ultimately show ?thesis using create_cluster_nomem [OF assms(1,2) nb, of a n] by (metis prod.collapse)
qed

theorem append_out_of_memory_witness:
  "\<exists>t. append_addr ((rewind (fresh_seq new_seq 12))\<lparr>buf_oom := [True]\<rparr>) 0x1000 1 = (RC_NOMEM, t) \<and>
     contents t = contents ((rewind (fresh_seq new_seq 12))\<lparr>buf_oom := [True]\<rparr>)"
proof -
  let ?r = "rewind (fresh_seq new_seq 12)"
  let ?s = "?r\<lparr>buf_oom := [True]\<rparr>"
  have "appending ?r" by (rule appending_rewind_fresh) simp_all
  then have r: "seq_inv ?r" "append_ready ?r" by (simp_all add: appending_def)
  have v: "cells ?s = cells ?r" "addrs ?s = addrs ?r" using view_cong [of ?s ?r] by simp_all
  have "seq_inv ?s" "append_ready ?s"
    using r v by (simp_all add: seq_inv_def append_ready_def)
  moreover have "addrs ?s = []" using v fresh_seq_inv(2) [of 12 new_seq] by (simp add: contents_Nil_iff)
  moreover have "is_buffer_full ?s"
    by (simp add: is_buffer_full_def rewind_def clear_location_count_def fresh_seq_def as_clear_def
        free_all_buf_def set_pageshift_def Let_def)
  ultimately show ?thesis using append_out_of_memory [of ?s "0x1000" "[]" 1] by auto
qed

text \<open>
  The other allocation that may throw is \<open>push_back\<close> on the vector of clusters, after
  \<open>get_free_buffer\<close> has replaced the current buffer: the used count then belongs to the new buffer
  while the last cluster still ends at the end of the old one, so the next page that merges is
  written behind the old buffer's end.
\<close>

lemma push_back_failure_breaks_bounds:
  fixes n :: int
  assumes "seq_inv s" and "addr_clusters s = cs @ [c]" and "is_buffer_full s"
    and "buf_oom s = []" and "vec_oom s = True # rest"
    and "last_cluster_end s < a" and "last_cluster_end s < b"
    and "drop_bit (pageshift s) (b - last_cluster_end s) \<le> 255"
    and "(b - last_cluster_end s) AND (pagesize s - 1) = 0"
  defines "t \<equiv> snd (append_addr s a n)"
  shows "fst (append_addr s a n) = RC_NOMEM"
    and "(fst (ac_deltas c), MAX_ITEM_COUNT) \<in> set (cells (snd (append_addr t b n)))"
proof -
  have full: "buf_used_count s = MAX_ITEM_COUNT" using assms(3) by (simp add: is_buffer_full_def)
  have "create_cluster s a n = (RC_NOMEM, s\<lparr>buf_oom := [], buf_pool := buf_pool s + 1,
      buf_used_count := 0, vec_oom := rest\<rparr>)"
    using assms(3-5) by (simp add: create_cluster_def get_free_buffer_def allocate_buf_def rc_negative_def Let_def)
  moreover have "append_addr s a n = create_cluster s a n"
    using assms(2,3,6) by (auto simp: append_addr_def can_merge_into_cluster_def Let_def)
  ultimately have ap: "append_addr s a n = (RC_NOMEM, s\<lparr>buf_oom := [], buf_pool := buf_pool s + 1,
      buf_used_count := 0, vec_oom := rest\<rparr>)" by simp
  then show "fst (append_addr s a n) = RC_NOMEM" by simp
  have "can_merge_into_cluster t b"
    using ap assms(8,9) by (simp add: t_def can_merge_into_cluster_def is_buffer_full_def Let_def)
  then have "append_addr t b n = save_into_cluster t b n"
    using ap assms(2) not_le [THEN iffD2, OF assms(7)] by (simp add: t_def append_addr_def)
  moreover have "item_at (ac_deltas c) (ac_size c) = (buf_pool s - 1, MAX_ITEM_COUNT)"
    using assms(1,2) full by (simp add: seq_inv_def Let_def)
  ultimately show "(fst (ac_deltas c), MAX_ITEM_COUNT) \<in> set (cells (snd (append_addr t b n)))"
    using ap assms(2) by (simp add: t_def save_into_cluster_def cells_def cluster_cells_def item_at_def Let_def)
qed

end
