(* ===== verification/Page_Stream.thy ===== *)
theory Page_Stream
  imports MO_Prelude
begin

text \<open>
  The byte stream of \<open>/proc/PID/idle_pages\<close>: the kernel module's encoder
  (\<open>kernel_module/ept_idle.c\<close>: \<open>u64_to_u8\<close>, \<open>eic_report_addr\<close>, \<open>eic_add_page\<close>,
  \<open>init_ept_idle_ctrl_buffer\<close>) and the byte format that both sides share (\<open>ProcIdlePages.h\<close>).
  An abstract reading of a stream as a list of pages is the specification that the parser of
  \<open>ProcIdlePages.cc\<close> is later shown to follow.
\<close>

unbundle bit_operations_syntax

section \<open>Page types\<close>

text \<open>Page types are C enumerators; the parser casts any nibble to the enumeration.\<close>

type_synonym page_type = nat

definition PTE_ACCESSED :: page_type where "PTE_ACCESSED = 0"
definition PMD_ACCESSED :: page_type where "PMD_ACCESSED = 1"
definition PUD_PRESENT :: page_type where "PUD_PRESENT = 2"
definition PTE_DIRTY :: page_type where "PTE_DIRTY = 3"
definition PMD_DIRTY :: page_type where "PMD_DIRTY = 4"
definition PTE_IDLE :: page_type where "PTE_IDLE = 5"
definition PMD_IDLE :: page_type where "PMD_IDLE = 6"
definition PMD_IDLE_PTES :: page_type where "PMD_IDLE_PTES = 7"
definition PTE_HOLE :: page_type where "PTE_HOLE = 8"
definition PMD_HOLE :: page_type where "PMD_HOLE = 9"
definition PIP_CMD :: page_type where "PIP_CMD = 10"
definition IDLE_PAGE_TYPE_MAX :: page_type where "IDLE_PAGE_TYPE_MAX = 11"
definition MAX_ACCESSED :: page_type where "MAX_ACCESSED = PUD_PRESENT"

lemmas page_type_defs [simp] = PTE_ACCESSED_def PMD_ACCESSED_def PUD_PRESENT_def PTE_DIRTY_def
  PMD_DIRTY_def PTE_IDLE_def PMD_IDLE_def PMD_IDLE_PTES_def PTE_HOLE_def PMD_HOLE_def PIP_CMD_def
  IDLE_PAGE_TYPE_MAX_def MAX_ACCESSED_def

definition PTE_SIZE :: u64 where "PTE_SIZE = push_bit 12 1"
definition PMD_SIZE :: u64 where "PMD_SIZE = push_bit 21 1"
definition PUD_SIZE :: u64 where "PUD_SIZE = push_bit 30 1"

text \<open>The table has \<open>IDLE_PAGE_TYPE_MAX\<close> entries; the one of \<open>PIP_CMD\<close> is zero-initialised.\<close>

definition pagetype_size :: "page_type \<Rightarrow> u64" where
  "pagetype_size type = [PTE_SIZE, PMD_SIZE, PUD_SIZE, PTE_SIZE, PMD_SIZE, PTE_SIZE, PMD_SIZE,
     PMD_SIZE, PTE_SIZE, PMD_SIZE, 0] ! type"

definition pagetype_shift :: "page_type \<Rightarrow> nat" where
  "pagetype_shift type = [12, 21, 30, 12, 21, 12, 21, 21, 12, 21, 0] ! type"

text \<open>The table of reference arrays; it has entries for the types up to \<open>PMD_IDLE\<close> only.\<close>

definition pagetype_index :: "page_type \<Rightarrow> nat" where
  "pagetype_index type = [PTE_ACCESSED, PMD_ACCESSED, PUD_PRESENT, PTE_ACCESSED, PMD_ACCESSED,
     PTE_ACCESSED, PMD_ACCESSED] ! type"

definition PIP_TYPE :: "u8 \<Rightarrow> page_type" where
  "PIP_TYPE a = unat (0xf AND drop_bit 4 a)"

definition PIP_SIZE :: "u8 \<Rightarrow> nat" where
  "PIP_SIZE a = unat (0xf AND a)"

definition PIP_COMPOSE :: "page_type \<Rightarrow> nat \<Rightarrow> u8" where
  "PIP_COMPOSE type nr = push_bit 4 (of_nat type) OR of_nat nr"

definition PIP_CMD_SET_HVA :: u8 where
  "PIP_CMD_SET_HVA = PIP_COMPOSE PIP_CMD 0"

lemma PIP_CMD_SET_HVA_eq [simp]: "PIP_CMD_SET_HVA = 0xA0"
  by (simp add: PIP_CMD_SET_HVA_def PIP_COMPOSE_def)

lemma PIP_CMD_SET_HVA_type: "PIP_TYPE 0xA0 = 10"
  by (simp add: PIP_TYPE_def)

lemma PIP_TYPE_unat: "PIP_TYPE b = take_bit 4 (drop_bit 4 (unat b))"
  and PIP_SIZE_unat: "PIP_SIZE b = take_bit 4 (unat b)"
proof -
  have m: "(0xf :: u8) = mask 4" by (simp add: mask_eq_exp_minus_1)
  have "take_bit 8 (unat b) = unat b"
    using unsigned_less [of b, where ?'a = nat] by (simp add: take_bit_nat_eq_self)
  then show "PIP_TYPE b = take_bit 4 (drop_bit 4 (unat b))" "PIP_SIZE b = take_bit 4 (unat b)"
    unfolding PIP_TYPE_def PIP_SIZE_def m and.commute [of "mask 4"] take_bit_eq_mask [symmetric]
      unsigned_take_bit_eq unsigned_drop_bit_eq by simp_all
qed

lemma PIP_split: "unat b = 16 * PIP_TYPE b + PIP_SIZE b" "PIP_TYPE b < 16" "PIP_SIZE b < 16"
proof -
  have "unat b < 256" using unsigned_less [of b, where ?'a = nat] by simp
  then show "unat b = 16 * PIP_TYPE b + PIP_SIZE b" "PIP_TYPE b < 16" "PIP_SIZE b < 16"
    unfolding PIP_TYPE_unat PIP_SIZE_unat by (simp_all add: take_bit_eq_mod drop_bit_eq_div)
qed

lemma PIP_byte_eqI: "PIP_TYPE a = PIP_TYPE b \<Longrightarrow> PIP_SIZE a = PIP_SIZE b \<Longrightarrow> a = b"
  by (metis PIP_split(1) word_unat_eq_iff)

lemma bit_nibble:
  assumes "n < 16" and "bit (n :: nat) k"
  shows "k < 4" and "k < 8"
proof -
  show "k < 4" using assms take_bit_nat_eq_self [of n 4] bit_take_bit_iff [of 4 n k] by auto
  then show "k < 8" by simp
qed

lemma PIP_COMPOSE_split [simp]:
  assumes "type < 16" and "nr < 16"
  shows "PIP_TYPE (PIP_COMPOSE type nr) = type" and "PIP_SIZE (PIP_COMPOSE type nr) = nr"
proof -
  show "PIP_TYPE (PIP_COMPOSE type nr) = type"
    unfolding PIP_TYPE_unat PIP_COMPOSE_def
    by (rule bit_eqI) (use bit_nibble [OF assms(1)] bit_nibble [OF assms(2)] in \<open>auto simp: bit_simps\<close>)
  show "PIP_SIZE (PIP_COMPOSE type nr) = nr"
    unfolding PIP_SIZE_unat PIP_COMPOSE_def
    by (rule bit_eqI) (use bit_nibble [OF assms(1)] bit_nibble [OF assms(2)] in \<open>auto simp: bit_simps\<close>)
qed

lemma PIP_increment:
  assumes "PIP_SIZE b < 15"
  shows "PIP_TYPE (b + 1) = PIP_TYPE b" and "PIP_SIZE (b + 1) = PIP_SIZE b + 1"
proof -
  have "unat b < 255" using PIP_split [of b] assms by linarith
  then have u: "unat (b + 1) = unat b + 1" by (simp add: unat_word_ariths)
  have "16 * PIP_TYPE (b + 1) + PIP_SIZE (b + 1) = 16 * PIP_TYPE b + (PIP_SIZE b + 1)"
    using u PIP_split(1) [of b] PIP_split(1) [of "b + 1"] by linarith
  moreover have "PIP_SIZE b + 1 < 16" "PIP_SIZE (b + 1) < 16" using assms PIP_split(3) by auto
  ultimately show "PIP_TYPE (b + 1) = PIP_TYPE b" by linarith
  with \<open>16 * PIP_TYPE (b + 1) + PIP_SIZE (b + 1) = 16 * PIP_TYPE b + (PIP_SIZE b + 1)\<close>
  show "PIP_SIZE (b + 1) = PIP_SIZE b + 1" by linarith
qed

section \<open>Addresses as bytes\<close>

text \<open>A byte buffer is a function from positions to bytes.\<close>

definition u64_to_u8 :: "u64 \<Rightarrow> nat \<Rightarrow> (nat \<Rightarrow> u8) \<Rightarrow> (nat \<Rightarrow> u8)" where
  "u64_to_u8 n p a =
     (let a = a(p + 7 := ucast n); n = drop_bit 8 n;
          a = a(p + 6 := ucast n); n = drop_bit 8 n;
          a = a(p + 5 := ucast n); n = drop_bit 8 n;
          a = a(p + 4 := ucast n); n = drop_bit 8 n;
          a = a(p + 3 := ucast n); n = drop_bit 8 n;
          a = a(p + 2 := ucast n); n = drop_bit 8 n;
          a = a(p + 1 := ucast n); n = drop_bit 8 n
      in a(p := ucast n))"

definition u8_to_u64 :: "(nat \<Rightarrow> u8) \<Rightarrow> nat \<Rightarrow> u64" where
  "u8_to_u64 a p =
     (push_bit 56 (ucast (a p)) AND 0xFF00000000000000)
     OR (push_bit 48 (ucast (a (p + 1))) AND 0x00FF000000000000)
     OR (push_bit 40 (ucast (a (p + 2))) AND 0x0000FF0000000000)
     OR (push_bit 32 (ucast (a (p + 3))) AND 0x000000FF00000000)
     OR (push_bit 24 (ucast (a (p + 4))) AND 0x00000000FF000000)
     OR (push_bit 16 (ucast (a (p + 5))) AND 0x0000000000FF0000)
     OR (push_bit 8 (ucast (a (p + 6))) AND 0x000000000000FF00)
     OR (ucast (a (p + 7)) AND 0x00000000000000FF)"

lemma push_byte_mask: "push_bit k (ucast (b :: u8) :: u64) AND push_bit k 255 = push_bit k (ucast b)"
proof -
  have "take_bit 8 (ucast b :: u64) = ucast b"
    by (rule bit_word_eqI) (auto simp: bit_simps dest: bit_imp_le_length)
  moreover have "(mask 8 :: u64) = 255" by (simp add: mask_eq_exp_minus_1)
  ultimately have "(ucast b :: u64) AND 255 = ucast b" by (metis take_bit_eq_mask)
  then show ?thesis by (simp flip: push_bit_and)
qed

lemma u8_to_u64_eq:
  "u8_to_u64 a p =
     push_bit 56 (ucast (a p)) OR push_bit 48 (ucast (a (p + 1)))
     OR push_bit 40 (ucast (a (p + 2))) OR push_bit 32 (ucast (a (p + 3)))
     OR push_bit 24 (ucast (a (p + 4))) OR push_bit 16 (ucast (a (p + 5)))
     OR push_bit 8 (ucast (a (p + 6))) OR ucast (a (p + 7))"
proof -
  have m: "(0xFF00000000000000 :: u64) = push_bit 56 255" "(0x00FF000000000000 :: u64) = push_bit 48 255"
    "(0x0000FF0000000000 :: u64) = push_bit 40 255" "(0x000000FF00000000 :: u64) = push_bit 32 255"
    "(0x00000000FF000000 :: u64) = push_bit 24 255" "(0x0000000000FF0000 :: u64) = push_bit 16 255"
    "(0x000000000000FF00 :: u64) = push_bit 8 255" by simp_all
  have "ucast b AND 255 = (ucast b :: u64)" for b :: u8
    using push_byte_mask [of 0 b] by simp
  then show ?thesis unfolding u8_to_u64_def m push_byte_mask by simp
qed

lemma u64_to_u8_bytes:
  "i < 8 \<Longrightarrow> u64_to_u8 n p a (p + i) = ucast (drop_bit (8 * (7 - i)) n)"
  by (auto simp: u64_to_u8_def Let_def less_Suc_eq numeral_eq_Suc)

lemma u64_to_u8_other: "j < p \<or> p + 8 \<le> j \<Longrightarrow> u64_to_u8 n p a j = a j"
  by (auto simp: u64_to_u8_def Let_def)

lemma bit_byte_at:
  "i < 64 \<Longrightarrow> bit (push_bit k (ucast (ucast (drop_bit k (n :: u64)) :: u8) :: u64)) i \<longleftrightarrow>
     bit n i \<and> k \<le> i \<and> i < k + 8"
  by (auto simp: bit_simps)

lemma u8_to_u64_inverse: "u8_to_u64 (u64_to_u8 n p a) p = n"
proof (rule bit_word_eqI)
  fix i :: nat assume "i < LENGTH(64)"
  then have i: "i < 64" by simp
  have b: "u64_to_u8 n p a p = ucast (drop_bit 56 n)" "u64_to_u8 n p a (p + 1) = ucast (drop_bit 48 n)"
    "u64_to_u8 n p a (p + 2) = ucast (drop_bit 40 n)" "u64_to_u8 n p a (p + 3) = ucast (drop_bit 32 n)"
    "u64_to_u8 n p a (p + 4) = ucast (drop_bit 24 n)" "u64_to_u8 n p a (p + 5) = ucast (drop_bit 16 n)"
    "u64_to_u8 n p a (p + 6) = ucast (drop_bit 8 n)" "u64_to_u8 n p a (p + 7) = ucast n"
    using u64_to_u8_bytes [of 0 n p a] u64_to_u8_bytes [of 1 n p a] u64_to_u8_bytes [of 2 n p a]
      u64_to_u8_bytes [of 3 n p a] u64_to_u8_bytes [of 4 n p a] u64_to_u8_bytes [of 5 n p a]
      u64_to_u8_bytes [of 6 n p a] u64_to_u8_bytes [of 7 n p a] by simp_all
  have "bit (u8_to_u64 (u64_to_u8 n p a) p) i \<longleftrightarrow> bit n i \<and>
      (56 \<le> i \<and> i < 56 + 8 \<or> 48 \<le> i \<and> i < 48 + 8 \<or> 40 \<le> i \<and> i < 40 + 8 \<or> 32 \<le> i \<and> i < 32 + 8 \<or>
       24 \<le> i \<and> i < 24 + 8 \<or> 16 \<le> i \<and> i < 16 + 8 \<or> 8 \<le> i \<and> i < 8 + 8 \<or> 0 \<le> i \<and> i < 0 + 8)"
    unfolding u8_to_u64_eq b bit_or_iff bit_byte_at [OF i]
    using bit_byte_at [OF i, of 0 n] by (simp only: push_bit_0_id drop_bit_0 id_apply) blast
  also have "\<dots> \<longleftrightarrow> bit n i"
  proof -
    have "56 \<le> i \<and> i < 56 + 8 \<or> 48 \<le> i \<and> i < 48 + 8 \<or> 40 \<le> i \<and> i < 40 + 8 \<or> 32 \<le> i \<and> i < 32 + 8 \<or>
       24 \<le> i \<and> i < 24 + 8 \<or> 16 \<le> i \<and> i < 16 + 8 \<or> 8 \<le> i \<and> i < 8 + 8 \<or> 0 \<le> i \<and> i < 0 + 8"
      using i by linarith
    then show ?thesis by blast
  qed
  finally show "bit (u8_to_u64 (u64_to_u8 n p a) p) i = bit n i" .
qed

section \<open>The encoder\<close>

definition EPT_IDLE_KBUF_FULL :: int where "EPT_IDLE_KBUF_FULL = 1"
definition EPT_IDLE_BUF_FULL :: int where "EPT_IDLE_BUF_FULL = 2"
definition EPT_IDLE_KBUF_SIZE :: int where "EPT_IDLE_KBUF_SIZE = 8000"

text \<open>
  The scan state. \<open>ubuf\<close> stands for the user's buffer behind \<open>buf\<close>: the bytes copied to it so
  far. The virtual machine and address space handles are not part of the model.
\<close>

record ept_idle_ctrl =
  kpie :: "nat \<Rightarrow> u8"
  pie_read :: nat
  pie_read_max :: int
  ubuf :: "u8 list"
  buf_size :: int
  bytes_copied :: int
  next_hva :: u64
  gpa_to_hva :: u64
  restart_gpa :: u64
  last_va :: u64
  eic_flags :: u32

definition setup_ept_idle_ctrl :: "ept_idle_ctrl \<Rightarrow> int \<Rightarrow> u32 \<Rightarrow> ept_idle_ctrl" where
  "setup_ept_idle_ctrl e sz flags =
     e\<lparr>ubuf := [], buf_size := sz, bytes_copied := 0, next_hva := 0, gpa_to_hva := 0,
       restart_gpa := 0, last_va := 0, eic_flags := flags\<rparr>"

text \<open>The comparison with \<open>sizeof(uint64_t) + 2\<close> converts the \<open>int\<close> limit to \<open>unsigned long\<close>.\<close>

definition init_ept_idle_ctrl_buffer :: "ept_idle_ctrl \<Rightarrow> int \<times> ept_idle_ctrl" where
  "init_ept_idle_ctrl_buffer e =
     (let e = e\<lparr>pie_read := 0,
                pie_read_max := min EPT_IDLE_KBUF_SIZE (buf_size e - bytes_copied e)\<rparr>;
          e = e\<lparr>pie_read_max := pie_read_max e - (8 + 1)\<rparr>
      in if (word_of_int (pie_read_max e) :: u64) \<le> 8 + 2 then (EPT_IDLE_KBUF_FULL, e)
         else (0, e\<lparr>kpie := (\<lambda>_. 0)\<rparr>))"

definition eic_report_addr :: "ept_idle_ctrl \<Rightarrow> u64 \<Rightarrow> ept_idle_ctrl" where
  "eic_report_addr e addr =
     (let e = e\<lparr>kpie := (kpie e)(pie_read e := PIP_CMD_SET_HVA), pie_read := pie_read e + 1\<rparr>;
          e = e\<lparr>kpie := u64_to_u8 addr (pie_read e) (kpie e)\<rparr>
      in e\<lparr>pie_read := pie_read e + 8\<rparr>)"

definition round_up :: "u64 \<Rightarrow> u64 \<Rightarrow> u64" where
  "round_up x y = ((x - 1) OR (y - 1)) + 1"

definition round_down :: "u64 \<Rightarrow> u64 \<Rightarrow> u64" where
  "round_down x y = x AND NOT (y - 1)"

definition eic_add_page :: "ept_idle_ctrl \<Rightarrow> u64 \<Rightarrow> u64 \<Rightarrow> page_type \<Rightarrow> int \<times> ept_idle_ctrl" where
  "eic_add_page e addr nxt type =
     (let page_size = pagetype_size type;
          nxt = round_up nxt page_size;
          new_item = (\<lambda>e. (0, e\<lparr>next_hva := nxt + gpa_to_hva e, restart_gpa := nxt,
                                kpie := (kpie e)(pie_read e := PIP_COMPOSE type 1),
                                pie_read := pie_read e + 1\<rparr>))
      in if pie_read e = 0 \<or> addr + gpa_to_hva e \<noteq> next_hva e
         then if type = PTE_HOLE \<or> type = PMD_HOLE then (0, e\<lparr>restart_gpa := nxt\<rparr>)
              else if (of_nat (pie_read e + 8 + 2) :: u64) \<ge> word_of_int (pie_read_max e)
              then (EPT_IDLE_KBUF_FULL, e\<lparr>restart_gpa := addr\<rparr>)
              else new_item (eic_report_addr e (round_down addr page_size + gpa_to_hva e))
         else let b = kpie e (pie_read e - 1)
              in if PIP_TYPE b = type \<and> PIP_SIZE b < 0xF
                 then (0, e\<lparr>next_hva := nxt + gpa_to_hva e, restart_gpa := nxt,
                            kpie := (kpie e)(pie_read e - 1 := b + 1)\<rparr>)
                 else if int (pie_read e) \<ge> pie_read_max e
                 then (EPT_IDLE_KBUF_FULL, e\<lparr>restart_gpa := addr\<rparr>)
                 else new_item e)"

text \<open>
  \<open>ept_idle_copy_user\<close>; \<open>fault\<close> says whether \<open>copy_to_user\<close> fails. The result \<open>-14\<close> is
  \<open>-EFAULT\<close>.
\<close>

definition ept_idle_copy_user :: "ept_idle_ctrl \<Rightarrow> bool \<Rightarrow> u64 \<Rightarrow> u64 \<Rightarrow> int \<times> ept_idle_ctrl" where
  "ept_idle_copy_user e fault start end_va =
     (let lc = (pie_read e = 0);
          start = (if lc \<and> start < end_va then end_va else start);
          e = (if start \<ge> end_va \<and> start > next_hva e
               then eic_report_addr (e\<lparr>next_hva := start\<rparr>) start else e);
          bytes_read = pie_read e
      in if bytes_read = 0 then (1, e)
         else if fault then (- 14, e)
         else let e = e\<lparr>ubuf := ubuf e @ map (kpie e) [0..<bytes_read],
                        bytes_copied := bytes_copied e + int bytes_read\<rparr>
              in if bytes_copied e \<ge> buf_size e then (EPT_IDLE_BUF_FULL, e)
                 else if lc then (1, e)
                 else init_ept_idle_ctrl_buffer e)"

section \<open>Reading a stream\<close>

text \<open>
  The specification of the format: a stream is a sequence of tokens, each setting the current
  address or describing a run of pages of one type from it.
\<close>

datatype token = Set_va u64 | Run page_type nat

function tokens :: "u8 list \<Rightarrow> token list option" where
  "tokens [] = Some []"
| "tokens (b # bs) =
     (if b = PIP_CMD_SET_HVA
      then if length bs < 8 then None
           else map_option ((#) (Set_va (u8_to_u64 ((!) bs) 0))) (tokens (drop 8 bs))
      else map_option ((#) (Run (PIP_TYPE b) (PIP_SIZE b))) (tokens bs))"
  by pat_completeness auto
termination
  by (relation "measure length") auto

declare tokens.simps(2) [simp del]

fun expand :: "token list \<Rightarrow> u64 \<Rightarrow> (page_type \<times> u64) list" where
  "expand [] va = []"
| "expand (Set_va v # ts) va = expand ts v"
| "expand (Run t n # ts) va =
     map (\<lambda>i. (t, va + of_nat i * pagetype_size t)) [0..<n] @ expand ts (va + of_nat n * pagetype_size t)"

fun end_va :: "token list \<Rightarrow> u64 \<Rightarrow> u64" where
  "end_va [] va = va"
| "end_va (Set_va v # ts) va = end_va ts v"
| "end_va (Run t n # ts) va = end_va ts (va + of_nat n * pagetype_size t)"

text \<open>The shape the encoder gives a stream: no empty runs, an address only in front of a run.\<close>

fun wf_stream :: "token list \<Rightarrow> bool" where
  "wf_stream [] \<longleftrightarrow> True"
| "wf_stream (Run t n # ts) \<longleftrightarrow> 0 < n \<and> t \<le> 9 \<and> wf_stream ts"
| "wf_stream (Set_va v # Run t n # ts) \<longleftrightarrow> 0 < n \<and> t \<le> 9 \<and> wf_stream ts"
| "wf_stream (Set_va v # ts) \<longleftrightarrow> False"

lemma wf_stream_append: "wf_stream xs \<Longrightarrow> wf_stream ys \<Longrightarrow> wf_stream (xs @ ys)"
  by (induction xs rule: wf_stream.induct) auto

lemma wf_stream_grow:
  "wf_stream (xs @ [Run t n]) \<Longrightarrow> wf_stream (xs @ [Run t (Suc n)])"
  by (induction xs rule: wf_stream.induct) auto

lemma expand_append: "expand (xs @ ys) va = expand xs va @ expand ys (end_va xs va)"
  by (induction xs va rule: expand.induct) auto

lemma end_va_append: "end_va (xs @ ys) va = end_va ys (end_va xs va)"
  by (induction xs va rule: end_va.induct) auto

lemma u8_to_u64_cong:
  assumes "\<And>i. i < 8 \<Longrightarrow> a (p + i) = b (q + i)"
  shows "u8_to_u64 a p = u8_to_u64 b q"
  using assms [of 0] assms [of 1] assms [of 2] assms [of 3] assms [of 4] assms [of 5] assms [of 6]
    assms [of 7] by (simp add: u8_to_u64_def)

lemma tokens_append:
  "tokens xs = Some ts \<Longrightarrow> tokens (xs @ ys) = map_option ((@) ts) (tokens ys)"
proof (induction xs arbitrary: ts rule: tokens.induct)
  case 1
  then show ?case by (simp add: option.map_id [unfolded id_def])
next
  case (2 b bs)
  show ?case
  proof (cases "b = PIP_CMD_SET_HVA")
    case True
    with "2.prems" obtain us where us: "\<not> length bs < 8" "tokens (drop 8 bs) = Some us"
      "ts = Set_va (u8_to_u64 ((!) bs) 0) # us"
      by (auto simp: tokens.simps(2) split: if_splits)
    have "u8_to_u64 ((!) (bs @ ys)) 0 = u8_to_u64 ((!) bs) 0"
      using us(1) by (intro u8_to_u64_cong) (simp add: nth_append)
    then show ?thesis using True us "2.IH"(1) [OF True us(1,2)]
      by (simp add: tokens.simps(2) option.map_comp comp_def)
  next
    case False
    with "2.prems" obtain us where us: "tokens bs = Some us" "ts = Run (PIP_TYPE b) (PIP_SIZE b) # us"
      by (auto simp: tokens.simps(2))
    then show ?thesis using False "2.IH"(2) [OF False us(1)]
      by (simp add: tokens.simps(2) option.map_comp comp_def)
  qed
qed

section \<open>The encoder follows the format\<close>

definition written :: "ept_idle_ctrl \<Rightarrow> u8 list" where
  "written e = map (kpie e) [0..<pie_read e]"

text \<open>
  \<open>encodes e ps\<close>: the bytes written so far read as the pages \<open>ps\<close>, whatever address the reader
  starts from, end at \<open>next_hva\<close>, and the last byte is a run that may be incremented in place.
\<close>

definition encodes :: "ept_idle_ctrl \<Rightarrow> (page_type \<times> u64) list \<Rightarrow> bool" where
  "encodes e ps \<longleftrightarrow>
     (if pie_read e = 0 then ps = []
      else \<exists>pre us b. written e = pre @ [b] \<and> tokens pre = Some us \<and> PIP_TYPE b \<le> 9 \<and>
             wf_stream (us @ [Run (PIP_TYPE b) (PIP_SIZE b)]) \<and>
             (\<forall>va. expand (us @ [Run (PIP_TYPE b) (PIP_SIZE b)]) va = ps \<and>
                   end_va (us @ [Run (PIP_TYPE b) (PIP_SIZE b)]) va = next_hva e))"

lemma tokens_run: "PIP_TYPE b \<le> 9 \<Longrightarrow> tokens [b] = Some [Run (PIP_TYPE b) (PIP_SIZE b)]"
  using PIP_CMD_SET_HVA_type by (auto simp: tokens.simps(2))

lemma encodes_tokens:
  assumes "encodes e ps"
  shows "\<exists>ts. tokens (written e) = Some ts \<and> wf_stream ts \<and> (\<forall>va. expand ts va = ps)"
proof (cases "pie_read e = 0")
  case True
  then show ?thesis using assms by (simp add: encodes_def written_def)
next
  case False
  then show ?thesis
    using assms by (auto simp: encodes_def tokens_append tokens_run)
qed

definition is_hole :: "page_type \<Rightarrow> bool" where
  "is_hole t \<longleftrightarrow> t = PTE_HOLE \<or> t = PMD_HOLE"

text \<open>
  What the page table walkers report: a page type, an aligned address, and an end whose last byte
  lies in the same page.
\<close>

definition report_ok :: "u64 \<times> u64 \<times> page_type \<Rightarrow> bool" where
  "report_ok r = (case r of (addr, nxt, t) \<Rightarrow>
     t \<le> 9 \<and> take_bit (pagetype_shift t) addr = 0 \<and>
     drop_bit (pagetype_shift t) (nxt - 1) = drop_bit (pagetype_shift t) addr)"

lemma page_type_cases:
  "t \<le> 9 \<Longrightarrow> t = 0 \<or> t = 1 \<or> t = 2 \<or> t = 3 \<or> t = 4 \<or> t = 5 \<or> t = 6 \<or> t = 7 \<or> t = 8 \<or> (t :: nat) = 9"
  by presburger

lemma pagetype_size_shift:
  assumes "t \<le> 9"
  shows "pagetype_size t = 2 ^ pagetype_shift t" and "pagetype_shift t \<le> 30"
  using page_type_cases [OF assms]
  by (auto simp: pagetype_size_def pagetype_shift_def PTE_SIZE_def PMD_SIZE_def PUD_SIZE_def push_bit_eq_mult)

lemma round_down_aligned:
  assumes "take_bit k x = (0 :: u64)"
  shows "round_down x (2 ^ k) = x"
proof -
  have "round_down x (2 ^ k) = x AND NOT (mask k)"
    by (simp add: round_down_def mask_eq_exp_minus_1)
  also have "\<dots> = x"
  proof (rule bit_word_eqI)
    fix i :: nat
    have "bit (take_bit k x) i = False" using assms by simp
    then show "bit (x AND NOT (mask k)) i = bit x i" if "i < LENGTH(64)"
      using that by (auto simp: bit_simps)
  qed
  finally show ?thesis .
qed

lemma round_up_page:
  assumes "take_bit k x = (0 :: u64)" and "drop_bit k (y - 1) = drop_bit k x"
  shows "round_up y (2 ^ k) = x + 2 ^ k"
proof -
  have "(y - 1) OR mask k = x OR mask k"
  proof (rule bit_word_eqI)
    fix i :: nat assume i: "i < LENGTH(64)"
    have "bit (drop_bit k (y - 1)) (i - k) = bit (drop_bit k x) (i - k)" using assms(2) by simp
    then have "k \<le> i \<Longrightarrow> bit (y - 1) i = bit x i" by (simp add: bit_drop_bit_eq)
    then show "bit ((y - 1) OR mask k) i = bit (x OR mask k) i"
      using i by (auto simp: bit_simps)
  qed
  moreover have "x + mask k = x OR mask k"
  proof (rule disjunctive_add_eq_or, rule bit_word_eqI)
    fix i :: nat
    have "bit (take_bit k x) i = False" using assms(1) by simp
    then show "bit (x AND mask k) i = bit (0 :: u64) i" if "i < LENGTH(64)"
      using that by (auto simp: bit_simps)
  qed
  ultimately have "(y - 1) OR mask k = x + mask k" by simp
  then show ?thesis by (simp add: round_up_def mask_eq_exp_minus_1)
qed

lemma tokens_report:
  "tokens (0xA0 # map (u64_to_u8 v p a) [p..<p + 8]) = Some [Set_va v]"
proof -
  have "u8_to_u64 ((!) (map (u64_to_u8 v p a) [p..<p + 8])) 0 = u8_to_u64 (u64_to_u8 v p a) p"
    by (rule u8_to_u64_cong) simp
  then show ?thesis by (simp add: tokens.simps(2) u8_to_u64_inverse)
qed

lemma written_report:
  "written (eic_report_addr e v) =
     written e @ 0xA0 # map (u64_to_u8 v (pie_read e + 1) ((kpie e)(pie_read e := 0xA0)))
                            [pie_read e + 1..<pie_read e + 1 + 8]"
proof -
  let ?p = "pie_read e" and ?a = "u64_to_u8 v (pie_read e + 1) ((kpie e)(pie_read e := 0xA0))"
  have "[0..<?p + 9] = [0..<?p] @ [?p..<?p + 9]" by (rule upt_add_eq_append) simp
  moreover have "[?p..<?p + 9] = ?p # [Suc ?p..<?p + 9]" by (rule upt_conv_Cons) simp
  ultimately have "[0..<?p + 1 + 8] = [0..<?p] @ ?p # [?p + 1..<?p + 1 + 8]"
    by (simp del: upt_Suc add: add.commute)
  moreover have "map ?a [0..<?p] = map (kpie e) [0..<?p]" "?a ?p = 0xA0"
    by (auto simp: u64_to_u8_other)
  ultimately show ?thesis
    by (simp add: written_def eic_report_addr_def Let_def del: upt_Suc)
qed

text \<open>A new item behind bytes that read as \<open>ts\<close>.\<close>

lemma encodes_new_item:
  assumes "tokens (written e) = Some ts" and "t \<le> 9" and "wf_stream (ts @ [Run t 1])"
    and "\<And>va. expand ts va = ps \<and> end_va ts va = a"
    and "kpie e' = (kpie e)(pie_read e := PIP_COMPOSE t 1)" and "pie_read e' = pie_read e + 1"
    and "next_hva e' = a + pagetype_size t"
  shows "encodes e' (ps @ [(t, a)])"
proof -
  have w: "written e' = written e @ [PIP_COMPOSE t 1]"
    using assms(5,6) by (simp add: written_def)
  have t: "PIP_TYPE (PIP_COMPOSE t 1) = t" "PIP_SIZE (PIP_COMPOSE t 1) = 1"
    using assms(2) by simp_all
  show ?thesis unfolding encodes_def
    using assms(1-4,6,7) w t by (auto simp: expand_append end_va_append)
qed

lemma encodes_increment:
  assumes "encodes e ps" and "0 < pie_read e" and "PIP_TYPE (kpie e (pie_read e - 1)) = t"
    and "PIP_SIZE (kpie e (pie_read e - 1)) < 15" and "t \<le> 9"
    and "kpie e' = (kpie e)(pie_read e - 1 := kpie e (pie_read e - 1) + 1)"
    and "pie_read e' = pie_read e" and "next_hva e' = next_hva e + pagetype_size t"
  shows "encodes e' (ps @ [(t, next_hva e)])"
proof -
  obtain pre us b where w: "written e = pre @ [b]" and us: "tokens pre = Some us" and "PIP_TYPE b \<le> 9"
    and wf: "wf_stream (us @ [Run (PIP_TYPE b) (PIP_SIZE b)])" and x: "\<And>va. expand (us @ [Run (PIP_TYPE b) (PIP_SIZE b)]) va = ps"
      "\<And>va. end_va (us @ [Run (PIP_TYPE b) (PIP_SIZE b)]) va = next_hva e"
    using assms(1,2) by (auto simp: encodes_def)
  obtain m where m: "pie_read e = Suc m" using assms(2) by (cases "pie_read e") auto
  have b: "b = kpie e m" "pre = map (kpie e) [0..<m]"
    using w by (simp_all add: written_def m)
  have w': "written e' = pre @ [b + 1]"
    using assms(6,7) b by (simp add: written_def m)
  have inc: "PIP_TYPE (b + 1) = t" "PIP_SIZE (b + 1) = PIP_SIZE b + 1" "PIP_TYPE b = t"
    using PIP_increment [of b] assms(3,4) b m by simp_all
  have e: "end_va us va + of_nat (PIP_SIZE b) * pagetype_size t = next_hva e" for va
    using x(2) [of va] inc by (simp add: end_va_append)
  have "expand (us @ [Run t (PIP_SIZE b + 1)]) va = ps @ [(t, next_hva e)]" for va
    using x(1) [of va] inc e [of va] by (simp add: expand_append)
  moreover have "end_va (us @ [Run t (PIP_SIZE b + 1)]) va = next_hva e + pagetype_size t" for va
    using e [of va] by (simp add: end_va_append algebra_simps)
  ultimately show ?thesis unfolding encodes_def
    using assms(5,7,8) m w' us inc wf_stream_grow [OF wf] by auto
qed

text \<open>One report of the walkers.\<close>

definition reported :: "u64 \<Rightarrow> u64 \<times> u64 \<times> page_type \<Rightarrow> page_type \<times> u64" where
  "reported base r = (case r of (addr, _, t) \<Rightarrow> (t, addr + base))"

lemma eic_add_page_step:
  assumes "encodes e ps" and "report_ok (addr, nxt, t)" and "eic_add_page e addr nxt t = (err, e')"
  shows "gpa_to_hva e' = gpa_to_hva e \<and> pie_read_max e' = pie_read_max e \<and>
         (if err = 0
          then \<exists>qs. encodes e' (ps @ qs) \<and> restart_gpa e' = addr + pagetype_size t \<and>
                    (qs = [(t, addr + gpa_to_hva e)] \<or> is_hole t \<and> qs = [])
          else encodes e' ps \<and> restart_gpa e' = addr)"
proof -
  from assms(2) have t: "t \<le> 9" and al: "take_bit (pagetype_shift t) addr = 0"
    and nx: "drop_bit (pagetype_shift t) (nxt - 1) = drop_bit (pagetype_shift t) addr"
    by (simp_all add: report_ok_def)
  have up: "round_up nxt (pagetype_size t) = addr + pagetype_size t"
    and down: "round_down addr (pagetype_size t) = addr"
    using round_up_page [OF al nx] round_down_aligned [OF al] pagetype_size_shift [OF t] by simp_all
  let ?a = "addr + gpa_to_hva e"
  have keep: "encodes (e\<lparr>restart_gpa := r\<rparr>) ps" for r
  proof -
    have "written (e\<lparr>restart_gpa := r\<rparr>) = written e" by (simp add: written_def)
    then show ?thesis using assms(1) by (simp add: encodes_def)
  qed
  obtain ts where ts: "tokens (written e) = Some ts" and wf: "wf_stream ts"
    using encodes_tokens [OF assms(1)] by blast
  have ts_ps: "expand ts va = ps \<and> (0 < pie_read e \<longrightarrow> end_va ts va = next_hva e)" for va
    using assms(1) ts by (auto simp: encodes_def written_def tokens_append tokens_run split: if_splits)
  show ?thesis
  proof (cases "pie_read e = 0 \<or> ?a \<noteq> next_hva e")
    case new: True
    let ?r = "eic_report_addr e ?a"
    have rw: "tokens (written ?r) = Some (ts @ [Set_va ?a])"
      unfolding written_report tokens_append [OF ts] tokens_report by simp
    have "encodes (?r\<lparr>next_hva := addr + pagetype_size t + gpa_to_hva ?r,
        restart_gpa := addr + pagetype_size t,
        kpie := (kpie ?r)(pie_read ?r := PIP_COMPOSE t 1), pie_read := pie_read ?r + 1\<rparr>) (ps @ [(t, ?a)])"
    proof (rule encodes_new_item [OF rw t])
      show "wf_stream ((ts @ [Set_va ?a]) @ [Run t 1])"
        using wf_stream_append [OF wf, of "[Set_va ?a, Run t 1]"] t by simp
      show "expand (ts @ [Set_va ?a]) va = ps \<and> end_va (ts @ [Set_va ?a]) va = ?a" for va
        using ts_ps [of va] by (simp add: expand_append end_va_append)
    qed (simp_all add: eic_report_addr_def Let_def)
    moreover have "gpa_to_hva ?r = gpa_to_hva e" "pie_read_max ?r = pie_read_max e"
      by (simp_all add: eic_report_addr_def Let_def)
    moreover have ?thesis if "is_hole t"
    proof -
      have "err = 0 \<and> e' = e\<lparr>restart_gpa := addr + pagetype_size t\<rparr>"
        using assms(3) new up that by (auto simp: eic_add_page_def Let_def is_hole_def)
      then show ?thesis using keep [of "addr + pagetype_size t"] that
        by (auto intro!: exI [of _ "[]"])
    qed
    ultimately show ?thesis
      using assms(3) new up down keep
      by (cases "is_hole t")
        (auto simp: eic_add_page_def Let_def is_hole_def EPT_IDLE_KBUF_FULL_def split: if_splits)
  next
    case False
    then have pos: "0 < pie_read e" and a: "?a = next_hva e" by simp_all
    let ?b = "kpie e (pie_read e - 1)"
    show ?thesis
    proof (cases "PIP_TYPE ?b = t \<and> PIP_SIZE ?b < 15")
      case True
      have "encodes (e\<lparr>next_hva := addr + pagetype_size t + gpa_to_hva e,
          restart_gpa := addr + pagetype_size t,
          kpie := (kpie e)(pie_read e - 1 := ?b + 1)\<rparr>) (ps @ [(t, next_hva e)])"
        by (rule encodes_increment [OF assms(1) pos _ _ t])
          (use True a in \<open>simp_all add: algebra_simps\<close>)
      then show ?thesis using assms(3) False up True a
        by (auto simp: eic_add_page_def Let_def)
    next
      case other: False
      have "encodes (e\<lparr>next_hva := addr + pagetype_size t + gpa_to_hva e,
          restart_gpa := addr + pagetype_size t,
          kpie := (kpie e)(pie_read e := PIP_COMPOSE t 1), pie_read := pie_read e + 1\<rparr>) (ps @ [(t, ?a)])"
        by (rule encodes_new_item [OF ts t wf_stream_append [OF wf]]) (use t ts_ps pos a in \<open>auto simp: algebra_simps\<close>)
      then show ?thesis using assms(3) False up other keep a
        by (auto simp: eic_add_page_def Let_def EPT_IDLE_KBUF_FULL_def split: if_splits)
    qed
  qed
qed

text \<open>The walkers report pages until the buffer is full.\<close>

fun add_pages :: "ept_idle_ctrl \<Rightarrow> (u64 \<times> u64 \<times> page_type) list \<Rightarrow> int \<times> ept_idle_ctrl" where
  "add_pages e [] = (0, e)"
| "add_pages e ((addr, nxt, t) # rs) =
     (let (err, e) = eic_add_page e addr nxt t in if err \<noteq> 0 then (err, e) else add_pages e rs)"

definition no_holes :: "(page_type \<times> u64) list \<Rightarrow> (page_type \<times> u64) list" where
  "no_holes ps = filter (\<lambda>p. \<not> is_hole (fst p)) ps"

lemma add_pages_encodes:
  assumes "encodes e ps" and "\<forall>r \<in> set rs. report_ok r" and "add_pages e rs = (err, e')"
  shows "\<exists>k qs. k \<le> length rs \<and> (err = 0 \<longrightarrow> k = length rs) \<and>
           (err \<noteq> 0 \<longrightarrow> k < length rs \<and> restart_gpa e' = fst (rs ! k)) \<and>
           encodes e' (ps @ qs) \<and> no_holes qs = no_holes (map (reported (gpa_to_hva e)) (take k rs)) \<and>
           set qs \<subseteq> set (map (reported (gpa_to_hva e)) rs) \<and>
           (\<forall>P. sorted_wrt P (map (reported (gpa_to_hva e)) rs) \<longrightarrow> sorted_wrt P qs)"
  using assms
proof (induction rs arbitrary: e ps)
  case Nil
  then show ?case by (intro exI [of _ 0] exI [of _ "[]"]) (auto simp: no_holes_def)
next
  case (Cons r rs)
  obtain addr nxt t where r: "r = (addr, nxt, t)" by (cases r)
  obtain err1 e1 where st: "eic_add_page e addr nxt t = (err1, e1)" by fastforce
  have ok: "report_ok (addr, nxt, t)" using Cons.prems(2) r by simp
  note step = eic_add_page_step [OF Cons.prems(1) ok st]
  show ?case
  proof (cases "err1 = 0")
    case False
    then show ?thesis using Cons.prems(3) step st r
      by (intro exI [of _ 0] exI [of _ "[]"]) (auto simp: no_holes_def)
  next
    case True
    then obtain q where q: "encodes e1 (ps @ q)" "gpa_to_hva e1 = gpa_to_hva e"
      "no_holes q = no_holes [reported (gpa_to_hva e) r]"
      "q = [reported (gpa_to_hva e) r] \<or> q = []"
    proof -
      obtain q where "encodes e1 (ps @ q)" "gpa_to_hva e1 = gpa_to_hva e"
        "q = [(t, addr + gpa_to_hva e)] \<or> is_hole t \<and> q = []"
        using step True by auto
      then show thesis using that [of q] by (auto simp: no_holes_def reported_def r)
    qed
    have "add_pages e1 rs = (err, e')" using Cons.prems(3) st r True by simp
    from Cons.IH [OF q(1) _ this] Cons.prems(2) obtain k qs where qs:
      "k \<le> length rs" "err = 0 \<longrightarrow> k = length rs"
      "err \<noteq> 0 \<longrightarrow> k < length rs \<and> restart_gpa e' = fst (rs ! k)"
      "encodes e' ((ps @ q) @ qs)"
      "no_holes qs = no_holes (map (reported (gpa_to_hva e1)) (take k rs))"
      "set qs \<subseteq> set (map (reported (gpa_to_hva e1)) rs)"
      "\<And>P. sorted_wrt P (map (reported (gpa_to_hva e1)) rs) \<Longrightarrow> sorted_wrt P qs" by auto
    have mem: "set (q @ qs) \<subseteq> set (map (reported (gpa_to_hva e)) (r # rs))"
      using qs(6) q(2,4) by auto
    have "sorted_wrt P (q @ qs)" if "sorted_wrt P (map (reported (gpa_to_hva e)) (r # rs))" for P
    proof -
      have "\<forall>x \<in> set qs. P (reported (gpa_to_hva e) r) x"
        using that qs(6) q(2) by (metis list.simps(9) sorted_wrt.simps(2) subsetD)
      then show ?thesis using qs(7) that q(2,4) \<open>\<forall>x \<in> set qs. P (reported (gpa_to_hva e) r) x\<close> by auto
    qed
    with mem show ?thesis
      using q(1-3) qs(1-5) by (intro exI [of _ "Suc k"] exI [of _ "q @ qs"]) (simp_all add: no_holes_def)
  qed
qed

section \<open>The encoder stays within its buffer\<close>

definition kbuf_ok :: "ept_idle_ctrl \<Rightarrow> bool" where
  "kbuf_ok e \<longleftrightarrow> int (pie_read e) \<le> pie_read_max e \<and> pie_read_max e + 9 \<le> EPT_IDLE_KBUF_SIZE"

lemma word_of_int_le_of_nat:
  assumes "0 \<le> m" and "m < 2 ^ 64" and "n < 2 ^ 64"
  shows "(word_of_int m :: u64) \<le> of_nat n \<longleftrightarrow> m \<le> int n"
  using assms by (simp add: word_le_def uint_word_of_int_eq take_bit_int_eq_self flip: of_nat_take_bit)
    (simp add: unsigned_of_nat take_bit_nat_eq_self)

lemma eic_add_page_kbuf:
  assumes "kbuf_ok e" and "eic_add_page e addr nxt t = (err, e')"
  shows "kbuf_ok e'"
proof -
  have m: "0 \<le> pie_read_max e" "pie_read_max e < 8000" "pie_read e + 10 < 2 ^ 64"
    using assms(1) by (auto simp: kbuf_ok_def EPT_IDLE_KBUF_SIZE_def)
  have c: "(word_of_int (pie_read_max e) :: u64) \<le> of_nat (pie_read e + 8 + 2) \<longleftrightarrow>
      pie_read_max e \<le> int (pie_read e) + 10"
  proof -
    have n: "pie_read e + 8 + 2 = pie_read e + 10" by simp
    show ?thesis unfolding n using word_of_int_le_of_nat [OF _ _ m(3)] m(1,2) by simp
  qed
  show ?thesis
  proof (cases "pie_read e = 0 \<or> addr + gpa_to_hva e \<noteq> next_hva e")
    case True
    then show ?thesis using assms m
      unfolding eic_add_page_def Let_def c
      by (auto simp: kbuf_ok_def eic_report_addr_def Let_def split: if_splits)
  next
    case False
    then show ?thesis using assms
      by (auto simp: eic_add_page_def Let_def kbuf_ok_def split: if_splits)
  qed
qed

lemma add_pages_kbuf:
  "kbuf_ok e \<Longrightarrow> add_pages e rs = (err, e') \<Longrightarrow> kbuf_ok e'"
proof (induction rs arbitrary: e)
  case (Cons r rs)
  obtain addr nxt t where r: "r = (addr, nxt, t)" by (cases r)
  obtain err1 e1 where e1: "eic_add_page e addr nxt t = (err1, e1)" by fastforce
  then have "kbuf_ok e1" using eic_add_page_kbuf [OF Cons.prems(1)] by blast
  then show ?case using Cons e1 r by (auto split: if_splits)
qed simp

lemma add_pages_limit: "add_pages e rs = (err, e') \<Longrightarrow> pie_read_max e' = pie_read_max e"
proof (induction rs arbitrary: e)
  case (Cons r rs)
  obtain addr nxt t where r: "r = (addr, nxt, t)" by (cases r)
  obtain err1 e1 where e1: "eic_add_page e addr nxt t = (err1, e1)" by fastforce
  then have "pie_read_max e1 = pie_read_max e"
    by (auto simp: eic_add_page_def eic_report_addr_def Let_def split: if_splits)
  then show ?case using Cons e1 r by (auto split: if_splits)
qed simp

lemma init_buffer_ok:
  assumes "init_ept_idle_ctrl_buffer e = (0, e')" and "9 \<le> buf_size e - bytes_copied e"
  shows "kbuf_ok e'" and "encodes e' []" and "gpa_to_hva e' = gpa_to_hva e"
    and "pie_read_max e' + 9 \<le> buf_size e - bytes_copied e"
  using assms
  by (auto simp: init_ept_idle_ctrl_buffer_def Let_def kbuf_ok_def EPT_IDLE_KBUF_SIZE_def
      EPT_IDLE_KBUF_FULL_def encodes_def split: if_splits)

text \<open>
  Fewer than nine bytes left in the user's buffer make the limit negative, and the unsigned
  comparison lets it pass: initialisation succeeds, and pages that do not continue the last run are
  then accepted however many bytes are already in the kernel buffer.
\<close>

lemma init_accepts_short_buffer:
  assumes "buf_size e - bytes_copied e \<in> {1..<9}"
  shows "fst (init_ept_idle_ctrl_buffer e) = 0"
    and "pie_read_max (snd (init_ept_idle_ctrl_buffer e)) < 0"
proof -
  let ?m = "buf_size e - bytes_copied e - 9"
  have m: "min EPT_IDLE_KBUF_SIZE (buf_size e - bytes_copied e) - 9 = ?m"
    using assms by (auto simp: EPT_IDLE_KBUF_SIZE_def)
  have "?m \<in> {- 8, - 7, - 6, - 5, - 4, - 3, - 2, - 1}" using assms by auto
  then have "\<not> (word_of_int ?m :: u64) \<le> 10"
    by (elim insertE) (simp_all add: word_le_def uint_word_of_int_eq take_bit_eq_mod unsigned_minus_1_eq_mask mask_eq_exp_minus_1
        del: of_int_diff)
  then show "fst (init_ept_idle_ctrl_buffer e) = 0"
    "pie_read_max (snd (init_ept_idle_ctrl_buffer e)) < 0"
    using m assms by (auto simp: init_ept_idle_ctrl_buffer_def Let_def)
qed

lemma negative_limit_never_full:
  assumes "pie_read_max e \<in> {-8..<0}" and "pie_read e < 2 ^ 32"
    and "pie_read e = 0 \<or> addr + gpa_to_hva e \<noteq> next_hva e" and "\<not> is_hole t"
  shows "fst (eic_add_page e addr nxt t) = 0 \<and>
         pie_read (snd (eic_add_page e addr nxt t)) = pie_read e + 10"
proof -
  have "pie_read_max e \<in> {- 8, - 7, - 6, - 5, - 4, - 3, - 2, - 1}" using assms by auto
  then have "uint (word_of_int (pie_read_max e) :: u64) \<ge> 2 ^ 64 - 8"
    by (elim insertE) (simp_all add: uint_word_of_int_eq take_bit_eq_mod unsigned_minus_1_eq_mask mask_eq_exp_minus_1)
  moreover have "uint (of_nat (pie_read e + 8 + 2) :: u64) < 2 ^ 33"
    using assms(2) unfolding unsigned_of_nat
    by (subst take_bit_nat_eq_self) simp_all
  ultimately have "\<not> (word_of_int (pie_read_max e) :: u64) \<le> of_nat (pie_read e + 8 + 2)"
    by (simp add: word_le_def)
  then show ?thesis
    using assms(3,4) unfolding eic_add_page_def Let_def is_hole_def
    by (auto simp: eic_report_addr_def Let_def)
qed

end
