(* ===== verification/Idle_Parse.thy ===== *)
theory Idle_Parse
  imports Addr_Sequence_Protocol Page_Stream
begin

text \<open>
  The parser of \<open>ProcIdlePages.cc\<close> (\<open>parse_idlepages\<close>, \<open>inc_page_refs\<close>), which turns the kernel's byte
  stream into reports to the reference arrays, and the proof that it delivers exactly the reports
  the stream stands for.
\<close>

unbundle bit_operations_syntax

section \<open>Reference arrays\<close>

text \<open>
  \<open>pagetype_refs\<close> is an array of \<open>MAX_ACCESSED + 1\<close> elements. A histogram is indexed by location
  and number of references.
\<close>

record proc_idle_refs =
  page_refs :: addr_seq
  histogram_2d :: "nat \<Rightarrow> u64 list"

type_synonym refs_array = "nat \<Rightarrow> proc_idle_refs"

definition set_page_refs :: "refs_array \<Rightarrow> nat \<Rightarrow> addr_seq \<Rightarrow> refs_array" where
  "set_page_refs refs i s = refs(i := (refs i)\<lparr>page_refs := s\<rparr>)"

lemma set_page_refs_simps [simp]:
  "page_refs (set_page_refs refs i s i) = s"
  "j \<noteq> i \<Longrightarrow> set_page_refs refs i s j = refs j"
  "histogram_2d (set_page_refs refs i s j) = histogram_2d (refs j)"
  by (simp_all add: set_page_refs_def)

section \<open>Parsing\<close>

definition inc_of_type :: "page_type \<Rightarrow> int" where
  "inc_of_type type = (if type \<ge> PTE_IDLE then 0 else if type \<ge> PTE_DIRTY then 3 else 1)"

text \<open>The loop of \<open>inc_page_refs\<close>, with the number of pages that remain.\<close>

fun inc_refs_loop :: "page_type \<Rightarrow> u64 \<Rightarrow> u64 \<Rightarrow> nat \<Rightarrow> u64 \<Rightarrow> addr_seq \<Rightarrow> addr_seq option" where
  "inc_refs_loop type page_size lim 0 va s = Some s"
| "inc_refs_loop type page_size lim (Suc k) va s =
     do { (rc, s) \<leftarrow> inc_payload s va (inc_of_type type);
          let va = va + page_size;
          if va \<ge> lim then Some s else inc_refs_loop type page_size lim k va s }"

definition inc_page_refs :: "refs_array \<Rightarrow> page_type \<Rightarrow> nat \<Rightarrow> u64 \<Rightarrow> u64 \<Rightarrow> refs_array option" where
  "inc_page_refs refs type nr va lim =
     (let page_size = pagetype_size type; i = pagetype_index type
      in if va AND (page_size - 1) \<noteq> 0 then Some refs
         else do { s \<leftarrow> inc_refs_loop type page_size lim nr va (page_refs (refs i));
                   Some (set_page_refs refs i s) })"

text \<open>
  The loop of \<open>parse_idlepages\<close> from position \<open>i\<close> of the read buffer. A page type the reader does
  not know is skipped with \<open>continue\<close>, which leaves \<open>i\<close> where it is.
\<close>

partial_function (option) parse_loop ::
    "(nat \<Rightarrow> u8) \<Rightarrow> u64 \<Rightarrow> nat \<Rightarrow> nat \<Rightarrow> u64 \<Rightarrow> refs_array \<Rightarrow> (u64 \<times> refs_array) option" where
  "parse_loop buf lim bytes i va refs =
     (if i < bytes
      then if buf i = PIP_CMD_SET_HVA
           then parse_loop buf lim bytes (i + 1 + 8) (u8_to_u64 buf (i + 1)) refs
           else let type = PIP_TYPE (buf i); nr = PIP_SIZE (buf i)
                in if type \<ge> IDLE_PAGE_TYPE_MAX then parse_loop buf lim bytes i va refs
                   else if va \<ge> lim then Some (va, refs)
                   else do { refs \<leftarrow> (if type \<le> PMD_IDLE_PTES
                                     then if type = PMD_IDLE_PTES
                                          then inc_page_refs refs PTE_IDLE (nr * 512) va lim
                                          else inc_page_refs refs type nr va lim
                                     else Some refs);
                             parse_loop buf lim bytes (i + 1) (va + pagetype_size type * of_nat nr) refs }
      else Some (va, refs))"

definition parse_idlepages :: "(nat \<Rightarrow> u8) \<Rightarrow> u64 \<Rightarrow> u64 \<Rightarrow> nat \<Rightarrow> refs_array \<Rightarrow> (u64 \<times> refs_array) option" where
  "parse_idlepages buf va lim bytes refs = parse_loop buf lim bytes 0 va refs"

section \<open>What the parser delivers\<close>

text \<open>
  The specification: each page of the stream stands for reports to one of the arrays; a huge page
  whose small pages are all idle stands for its 512 small pages; holes stand for nothing.
\<close>

type_synonym report = "nat \<times> u64 \<times> int"

definition page_reports :: "page_type \<times> u64 \<Rightarrow> report list" where
  "page_reports p = (case p of (t, va) \<Rightarrow>
     if t < PMD_IDLE_PTES
     then if va AND (pagetype_size t - 1) = 0 then [(pagetype_index t, va, inc_of_type t)] else []
     else if t = PMD_IDLE_PTES
     then if va AND (pagetype_size PTE_IDLE - 1) = 0
          then map (\<lambda>i. (pagetype_index PTE_IDLE, va + of_nat i * pagetype_size PTE_IDLE, inc_of_type PTE_IDLE))
                   [0..<512]
          else []
     else [])"

definition below :: "u64 \<Rightarrow> report list \<Rightarrow> report list" where
  "below lim rs = filter (\<lambda>(i, va, n). va < lim) rs"

definition stream_reports :: "u64 \<Rightarrow> (page_type \<times> u64) list \<Rightarrow> report list" where
  "stream_reports lim ps = below lim (concat (map page_reports ps))"

fun deliver :: "refs_array \<Rightarrow> report list \<Rightarrow> refs_array option" where
  "deliver refs [] = Some refs"
| "deliver refs ((i, va, n) # rs) =
     do { (rc, s) \<leftarrow> inc_payload (page_refs (refs i)) va n; deliver (set_page_refs refs i s) rs }"

lemma deliver_append: "deliver refs (xs @ ys) = do { refs \<leftarrow> deliver refs xs; deliver refs ys }"
  by (induction refs xs rule: deliver.induct) (auto split: Option.bind_splits prod.splits)

definition reports_of :: "nat \<Rightarrow> report list \<Rightarrow> (u64 \<times> int) list" where
  "reports_of i rs = map snd (filter (\<lambda>r. fst r = i) rs)"

text \<open>The arrays are independent: each receives its own reports in order.\<close>

lemma deliver_each:
  "deliver refs rs = Some refs' \<Longrightarrow>
     inc_all (page_refs (refs i)) (reports_of i rs) = Some (page_refs (refs' i))"
proof (induction refs rs rule: deliver.induct)
  case (1 refs)
  then show ?case by (simp add: reports_of_def)
next
  case (2 refs j va n rs)
  then obtain rc s where s: "inc_payload (page_refs (refs j)) va n = Some (rc, s)"
    "deliver (set_page_refs refs j s) rs = Some refs'"
    by (auto split: Option.bind_splits)
  have IH: "inc_all (page_refs (set_page_refs refs j s i)) (reports_of i rs) = Some (page_refs (refs' i))"
    using "2.IH" [of "(rc, s)" rc s] s by simp
  show ?case
  proof (cases "i = j")
    case True
    then show ?thesis using s(1) IH by (simp add: reports_of_def)
  next
    case False
    then show ?thesis using IH by (simp add: reports_of_def)
  qed
qed

section \<open>The parser follows the format\<close>

text \<open>Pages that ascend without overlapping and without wrapping around the address space.\<close>

definition ascending :: "(page_type \<times> u64) list \<Rightarrow> bool" where
  "ascending ps \<longleftrightarrow>
     sorted_wrt (\<lambda>p q. unat (snd p) + unat (pagetype_size (fst p)) \<le> unat (snd q)) ps \<and>
     (\<forall>p \<in> set ps. unat (snd p) + unat (pagetype_size (fst p)) < 2 ^ 64)"

lemma ascending_append:
  "ascending (xs @ ys) \<longleftrightarrow> ascending xs \<and> ascending ys \<and>
     (\<forall>p \<in> set xs. \<forall>q \<in> set ys. unat (snd p) + unat (pagetype_size (fst p)) \<le> unat (snd q))"
  by (auto simp: ascending_def sorted_wrt_append)

lemma below_append: "below lim (xs @ ys) = below lim xs @ below lim ys"
  by (simp add: below_def)

lemma below_none: "(\<And>r. r \<in> set rs \<Longrightarrow> lim \<le> fst (snd r)) \<Longrightarrow> below lim rs = []"
  by (fastforce simp: below_def filter_empty_conv not_less)

text \<open>\<open>steps va size k\<close>: the addresses of \<open>k\<close> consecutive pages that do not wrap.\<close>

definition no_wrap :: "u64 \<Rightarrow> u64 \<Rightarrow> nat \<Rightarrow> bool" where
  "no_wrap va sz k \<longleftrightarrow> unat va + k * unat sz < 2 ^ 64"

lemma no_wrap_unat:
  assumes "no_wrap va sz k" and "i \<le> k"
  shows "unat (va + of_nat i * sz) = unat va + i * unat sz"
proof -
  have "i * unat sz \<le> k * unat sz" using assms(2) by (rule mult_le_mono1)
  then have lt: "unat va + i * unat sz < 2 ^ 64" using assms(1) unfolding no_wrap_def by linarith
  have "unat (of_nat i * sz) = i * unat sz"
  proof (cases "unat sz = 0")
    case True
    then show ?thesis by (simp add: unat_eq_zero)
  next
    case False
    then have "i \<le> i * unat sz" by simp
    then have "i < 2 ^ 64" using lt by linarith
    then show ?thesis using lt by (simp add: unat_word_ariths unat_of_nat take_bit_nat_eq_self)
  qed
  then show ?thesis using lt by (simp add: unat_word_ariths)
qed

definition run_reports :: "page_type \<Rightarrow> u64 \<Rightarrow> nat \<Rightarrow> report list" where
  "run_reports t va k =
     map (\<lambda>i. (pagetype_index t, va + of_nat i * pagetype_size t, inc_of_type t)) [0..<k]"

lemma run_reports_Suc:
  "run_reports t va (Suc k) =
     (pagetype_index t, va, inc_of_type t) # run_reports t (va + pagetype_size t) k"
proof -
  have "[0..<Suc k] = 0 # map Suc [0..<k]" by (simp add: map_Suc_upt upt_conv_Cons del: upt_Suc)
  then show ?thesis by (simp add: run_reports_def algebra_simps del: upt_Suc)
qed

lemma set_page_refs_same: "set_page_refs refs i (page_refs (refs i)) = refs"
  by (auto simp: set_page_refs_def fun_eq_iff)

lemma set_page_refs_twice: "set_page_refs (set_page_refs refs i s) i t = set_page_refs refs i t"
  by (auto simp: set_page_refs_def)

lemma inc_refs_loop_deliver:
  assumes "no_wrap va (pagetype_size t) k" and "va < lim"
  shows "do { s \<leftarrow> inc_refs_loop t (pagetype_size t) lim k va (page_refs (refs (pagetype_index t)));
              Some (set_page_refs refs (pagetype_index t) s) } =
         deliver refs (below lim (run_reports t va k))"
  using assms
proof (induction k arbitrary: va refs)
  case 0
  then show ?case by (simp add: run_reports_def below_def set_page_refs_same)
next
  case (Suc k)
  let ?sz = "pagetype_size t" and ?i = "pagetype_index t"
  have nw: "no_wrap (va + ?sz) ?sz k" and up: "unat (va + ?sz) = unat va + unat ?sz"
    using Suc.prems(1) no_wrap_unat [OF Suc.prems(1), of 1] by (simp_all add: no_wrap_def algebra_simps)
  have ih: "do { s \<leftarrow> inc_refs_loop t ?sz lim k (va + ?sz) u; Some (set_page_refs refs ?i s) } =
      deliver (set_page_refs refs ?i u) (below lim (run_reports t (va + ?sz) k))"
    if "va + ?sz < lim" for u
    using Suc.IH [OF nw that, of "set_page_refs refs ?i u"] by (simp add: set_page_refs_twice)
  have stop: "below lim (run_reports t (va + ?sz) k) = []" if "lim \<le> va + ?sz"
  proof (rule below_none)
    fix r assume "r \<in> set (run_reports t (va + ?sz) k)"
    then obtain i where "i < k" "r = (?i, va + ?sz + of_nat i * ?sz, inc_of_type t)"
      by (auto simp: run_reports_def)
    then show "lim \<le> fst (snd r)"
      using that no_wrap_unat [OF nw, of i] by (simp add: word_le_nat_alt)
  qed
  show ?case
  proof (cases "lim \<le> va + ?sz")
    case True
    then show ?thesis using stop Suc.prems(2)
      by (auto simp: run_reports_Suc below_def split: Option.bind_splits)
  next
    case False
    then have "inc_refs_loop t ?sz lim (Suc k) va (page_refs (refs ?i)) =
        do { (rc, u) \<leftarrow> inc_payload (page_refs (refs ?i)) va (inc_of_type t);
             inc_refs_loop t ?sz lim k (va + ?sz) u }" by simp
    moreover have "below lim (run_reports t va (Suc k)) =
        (?i, va, inc_of_type t) # below lim (run_reports t (va + ?sz) k)"
      using Suc.prems(2) by (simp add: run_reports_Suc below_def)
    ultimately show ?thesis using ih False
      by (cases "inc_payload (page_refs (refs ?i)) va (inc_of_type t)")
        (simp_all add: not_le split_beta del: inc_refs_loop.simps)
  qed
qed

lemma take_bit_add_multiple:
  fixes va x :: u64
  assumes "take_bit k x = 0" and "k \<le> 64"
  shows "take_bit k (va + x) = take_bit k va"
proof -
  have d: "(2 :: nat) ^ k dvd 2 ^ 64" using assms(2) by (rule le_imp_power_dvd)
  have tb: "unat (take_bit k y) = unat y mod 2 ^ k" for y :: u64
    by (simp only: unsigned_take_bit_eq take_bit_eq_mod [where ?'a = nat])
  have "unat x mod 2 ^ k = 0"
    using arg_cong [OF assms(1), of unat] unfolding tb by simp
  then have "(unat va + unat x) mod 2 ^ k = unat va mod 2 ^ k"
    by (metis add.right_neutral mod_add_right_eq)
  moreover have "unat (va + x) mod 2 ^ k = (unat va + unat x) mod 2 ^ k"
    using mod_mod_cancel [OF d, of "unat va + unat x"] by (simp add: unat_word_ariths)
  ultimately show ?thesis
    unfolding word_unat_eq_iff tb by simp
qed

lemma aligned_step:
  assumes "k \<le> m" and "k \<le> 64"
  shows "(va + of_nat i * 2 ^ m) AND (2 ^ k - 1) = (va :: u64) AND (2 ^ k - 1)"
proof -
  have "take_bit k (of_nat i * 2 ^ m :: u64) = take_bit k (push_bit m (of_nat i))"
    by (simp add: push_bit_eq_mult)
  also have "\<dots> = 0" using assms by (simp add: take_bit_push_bit)
  finally have "take_bit k (va + of_nat i * 2 ^ m) = take_bit k va"
    using take_bit_add_multiple assms(2) by blast
  then show ?thesis by (simp add: and_pow2_minus1_eq_take_bit)
qed

definition run_pages :: "page_type \<Rightarrow> u64 \<Rightarrow> nat \<Rightarrow> (page_type \<times> u64) list" where
  "run_pages t va n = map (\<lambda>i. (t, va + of_nat i * pagetype_size t)) [0..<n]"

lemma expand_run: "expand (Run t n # ts) va = run_pages t va n @ expand ts (va + of_nat n * pagetype_size t)"
  by (simp add: run_pages_def)

lemma concat_map_singleton: "concat (map (\<lambda>i. [f i]) xs) = map f xs"
  by (induction xs) auto

lemma reports_of_run:
  assumes "t < PMD_IDLE_PTES"
  shows "concat (map page_reports (run_pages t va n)) =
           (if va AND (pagetype_size t - 1) = 0 then run_reports t va n else [])"
proof -
  have t: "t \<le> 9" using assms by simp
  have al: "(va + of_nat i * pagetype_size t) AND (pagetype_size t - 1) = va AND (pagetype_size t - 1)" for i
    unfolding pagetype_size_shift(1) [OF t] by (rule aligned_step) (use pagetype_size_shift(2) [OF t] in simp_all)
  have "map page_reports (run_pages t va n) =
      map (\<lambda>i. if va AND (pagetype_size t - 1) = 0
               then [(pagetype_index t, va + of_nat i * pagetype_size t, inc_of_type t)] else []) [0..<n]"
    using assms by (simp add: run_pages_def page_reports_def al)
  then show ?thesis
    by (cases "va AND (pagetype_size t - 1) = 0") (simp_all add: run_reports_def concat_map_singleton)
qed

lemma upt_blocks: "[0..<m * n] = concat (map (\<lambda>i. map ((+) (i * m)) [0..<m]) [0..<n])"
proof (induction n)
  case (Suc n)
  have "[0..<m * n + m] = [0..<m * n] @ [m * n..<m * n + m]" by (rule upt_add_eq_append) simp
  then have "[0..<m * Suc n] = [0..<m * n] @ [m * n..<m * n + m]" by (simp add: add.commute)
  moreover have "[m * n..<m * n + m] = map ((+) (n * m)) [0..<m]"
    using map_add_upt [of "m * n" m] by (simp add: mult.commute [of n m] add.commute [of _ "m * n"])
  ultimately show ?case using Suc.IH by simp
qed simp

lemma reports_of_idle_ptes:
  "concat (map page_reports (run_pages PMD_IDLE_PTES va n)) =
     (if va AND (pagetype_size PTE_IDLE - 1) = 0 then run_reports PTE_IDLE va (512 * n) else [])"
proof -
  have sz: "pagetype_size PMD_IDLE_PTES = 2 ^ 21" "pagetype_size PTE_IDLE = 2 ^ 12"
    by (simp_all add: pagetype_size_def PMD_SIZE_def PTE_SIZE_def)
  have al: "(va + of_nat i * 0x200000) AND 0xFFF = va AND 0xFFF" for i
    using aligned_step [of 12 21 va i] by simp
  let ?g = "\<lambda>k. (pagetype_index PTE_IDLE, va + of_nat k * (2 ^ 12 :: u64), inc_of_type PTE_IDLE)"
  have "map page_reports (run_pages PMD_IDLE_PTES va n) =
      map (\<lambda>i. if va AND (2 ^ 12 - 1) = 0 then map ?g (map ((+) (i * 512)) [0..<512]) else []) [0..<n]"
    unfolding run_pages_def page_reports_def sz
    by (simp add: al algebra_simps del: upt_Suc)
  moreover have "run_reports PTE_IDLE va (512 * n) = map ?g [0..<512 * n]"
    unfolding run_reports_def sz ..
  moreover have "concat (map (\<lambda>i. map ?g (map ((+) (i * 512)) [0..<512])) [0..<n]) = map ?g [0..<512 * n]"
    unfolding upt_blocks [of 512 n] map_concat map_map comp_def ..
  ultimately show ?thesis
    by (cases "va AND (2 ^ 12 - 1) = 0") (simp_all only: sz if_True if_False, simp_all)
qed

lemma run_no_wrap:
  assumes "ascending (run_pages t va n)"
  shows "no_wrap va (pagetype_size t) n \<or> n = 0"
proof -
  let ?sz = "unat (pagetype_size t)"
  have "n \<noteq> 0 \<longrightarrow> unat va + n * ?sz < 2 ^ 64" using assms
  proof (induction n)
    case (Suc n)
    show ?case
    proof (cases "n = 0")
      case True
      then show ?thesis using Suc.prems by (simp add: ascending_def run_pages_def)
    next
      case False
      have "ascending (run_pages t va n)" using Suc.prems by (simp add: run_pages_def ascending_append)
      with Suc.IH False have "no_wrap va (pagetype_size t) n" by (simp add: no_wrap_def)
      then have "unat (va + of_nat n * pagetype_size t) = unat va + n * ?sz" by (rule no_wrap_unat) simp
      moreover have "unat (va + of_nat n * pagetype_size t) + ?sz < 2 ^ 64"
        using Suc.prems by (simp add: run_pages_def ascending_append) (simp add: ascending_def)
      ultimately show ?thesis by simp
    qed
  qed simp
  then show ?thesis by (auto simp: no_wrap_def)
qed

lemma inc_page_refs_run:
  assumes "t < PMD_IDLE_PTES" and "ascending (run_pages t va n)" and "va < lim"
  shows "inc_page_refs refs t n va lim = deliver refs (stream_reports lim (run_pages t va n))"
proof (cases "n = 0")
  case True
  then show ?thesis
    by (simp add: inc_page_refs_def stream_reports_def run_pages_def below_def set_page_refs_same Let_def)
next
  case False
  then have "no_wrap va (pagetype_size t) n" using run_no_wrap [OF assms(2)] by simp
  from inc_refs_loop_deliver [OF this assms(3), of refs]
  show ?thesis
    by (simp add: inc_page_refs_def stream_reports_def reports_of_run [OF assms(1)] Let_def below_def)
qed

lemma inc_page_refs_idle_ptes:
  assumes "ascending (run_pages PMD_IDLE_PTES va n)" and "va < lim"
  shows "inc_page_refs refs PTE_IDLE (n * 512) va lim =
           deliver refs (stream_reports lim (run_pages PMD_IDLE_PTES va n))"
proof (cases "n = 0")
  case True
  then show ?thesis
    by (simp add: inc_page_refs_def stream_reports_def run_pages_def below_def set_page_refs_same Let_def)
next
  case False
  have "unat (pagetype_size PMD_IDLE_PTES) = 512 * unat (pagetype_size PTE_IDLE)"
    by (simp add: pagetype_size_def PMD_SIZE_def PTE_SIZE_def)
  then have "no_wrap va (pagetype_size PTE_IDLE) (512 * n)"
    using run_no_wrap [OF assms(1)] False by (simp add: no_wrap_def algebra_simps)
  from inc_refs_loop_deliver [OF this assms(2), of refs]
  show ?thesis
    by (simp add: inc_page_refs_def stream_reports_def reports_of_idle_ptes Let_def below_def mult.commute
        del: page_type_defs)
qed

definition runs_ok :: "token list \<Rightarrow> bool" where
  "runs_ok ts \<longleftrightarrow> (\<forall>t n. Run t n \<in> set ts \<longrightarrow> 0 < n \<and> t \<le> 9)"

lemma wf_stream_runs_ok: "wf_stream ts \<Longrightarrow> runs_ok ts"
  by (induction ts rule: wf_stream.induct) (auto simp: runs_ok_def)

lemma page_reports_above:
  assumes "r \<in> set (page_reports p)" and "unat (snd p) + unat (pagetype_size (fst p)) < 2 ^ 64"
    and "fst p \<le> 9"
  shows "snd p \<le> fst (snd r)"
proof (cases "fst p < PMD_IDLE_PTES")
  case True
  then show ?thesis using assms(1) by (cases p) (auto simp: page_reports_def split: if_splits)
next
  case False
  then obtain i :: nat where i: "i < 512" "fst (snd r) = snd p + of_nat i * pagetype_size PTE_IDLE" "fst p = PMD_IDLE_PTES"
    using assms(1) by (cases p) (auto simp: page_reports_def split: if_splits)
  have "no_wrap (snd p) (pagetype_size PTE_IDLE) 512"
    using assms(2) i(3) by (simp add: no_wrap_def pagetype_size_def PMD_SIZE_def PTE_SIZE_def)
  from no_wrap_unat [OF this, of i] i show ?thesis by (simp add: word_le_nat_alt)
qed

lemma stream_reports_above:
  assumes "ascending ps" and "\<forall>p \<in> set ps. fst p \<le> 9 \<and> lim \<le> snd p"
  shows "stream_reports lim ps = []"
  unfolding stream_reports_def
proof (rule below_none)
  fix r assume "r \<in> set (concat (map page_reports ps))"
  then obtain p where p: "p \<in> set ps" "r \<in> set (page_reports p)" by auto
  then show "lim \<le> fst (snd r)"
    using page_reports_above [OF p(2)] assms by (fastforce simp: ascending_def)
qed

lemma expand_types: "runs_ok ts \<Longrightarrow> p \<in> set (expand ts va) \<Longrightarrow> fst p \<le> 9"
  by (induction ts va rule: expand.induct) (auto simp: runs_ok_def)

lemma stream_reports_append: "stream_reports lim (xs @ ys) = stream_reports lim xs @ stream_reports lim ys"
  by (simp add: stream_reports_def below_append)

lemma run_head: "0 < n \<Longrightarrow> (t, va) \<in> set (run_pages t va n)"
  by (auto simp: run_pages_def intro!: rev_image_eqI [of 0])

lemma ascending_run_above:
  assumes "ascending (run_pages t va n @ qs)" and "0 < n" and "lim \<le> va"
    and "p \<in> set (run_pages t va n @ qs)"
  shows "lim \<le> snd p"
proof -
  have "va \<le> snd p"
  proof (cases "p \<in> set qs")
    case True
    then show ?thesis using assms(1) run_head [OF assms(2), of t va]
      by (fastforce simp: ascending_append word_le_nat_alt)
  next
    case False
    then obtain i where i: "i < n" "snd p = va + of_nat i * pagetype_size t"
      using assms(4) by (auto simp: run_pages_def)
    have "no_wrap va (pagetype_size t) n"
      using assms(1,2) run_no_wrap by (auto simp: ascending_append)
    from no_wrap_unat [OF this, of i] i show ?thesis by (simp add: word_le_nat_alt)
  qed
  with assms(3) show ?thesis by order
qed

lemma tokens_buf_Cons:
  assumes "tokens (map buf [i..<bytes]) = Some (x # ts)"
  shows "i < bytes"
    and "case x of
           Set_va v \<Rightarrow> buf i = PIP_CMD_SET_HVA \<and> v = u8_to_u64 buf (i + 1) \<and>
                       tokens (map buf [i + 9..<bytes]) = Some ts
         | Run t n \<Rightarrow> buf i \<noteq> PIP_CMD_SET_HVA \<and> t = PIP_TYPE (buf i) \<and> n = PIP_SIZE (buf i) \<and>
                      tokens (map buf [i + 1..<bytes]) = Some ts"
proof -
  show i: "i < bytes" using assms by (cases "i < bytes") auto
  have m: "map buf [i..<bytes] = buf i # map buf [i + 1..<bytes]"
    using i by (simp add: upt_conv_Cons)
  have d: "drop 8 (map buf [i + 1..<bytes]) = map buf [i + 9..<bytes]"
    by (simp add: drop_map add.commute [of 9 i])
  have u: "u8_to_u64 ((!) (map buf [i + 1..<bytes])) 0 = u8_to_u64 buf (i + 1)"
    if "8 \<le> bytes - (i + 1)"
    by (rule u8_to_u64_cong) (use that in simp)
  show "case x of
           Set_va v \<Rightarrow> buf i = PIP_CMD_SET_HVA \<and> v = u8_to_u64 buf (i + 1) \<and>
                       tokens (map buf [i + 9..<bytes]) = Some ts
         | Run t n \<Rightarrow> buf i \<noteq> PIP_CMD_SET_HVA \<and> t = PIP_TYPE (buf i) \<and> n = PIP_SIZE (buf i) \<and>
                      tokens (map buf [i + 1..<bytes]) = Some ts"
    using assms u unfolding m tokens.simps(2) d
    by (auto split: if_splits simp del: upt_Suc)
qed

lemma parse_loop_end: "bytes \<le> i \<Longrightarrow> parse_loop buf lim bytes i va refs = Some (va, refs)"
  by (subst parse_loop.simps) simp

lemma tokens_buf_Nil: "tokens (map buf [i..<bytes]) = Some [] \<Longrightarrow> bytes \<le> i"
proof (rule ccontr)
  assume a: "tokens (map buf [i..<bytes]) = Some []" "\<not> bytes \<le> i"
  then have "map buf [i..<bytes] = buf i # map buf [i + 1..<bytes]" by (simp add: upt_conv_Cons)
  with a(1) show False by (auto simp: tokens.simps(2) split: if_splits)
qed

lemma parse_loop_delivers:
  assumes "tokens (map buf [i..<bytes]) = Some ts" and "runs_ok ts" and "ascending (expand ts va)"
  shows "\<exists>va'. parse_loop buf lim bytes i va refs =
           map_option (Pair va') (deliver refs (stream_reports lim (expand ts va)))"
  using assms
proof (induction ts arbitrary: i va refs)
  case Nil
  then show ?case using parse_loop_end [OF tokens_buf_Nil]
    by (auto simp: stream_reports_def below_def)
next
  case (Cons x ts)
  note i = tokens_buf_Cons(1) [OF Cons.prems(1)] and x = tokens_buf_Cons(2) [OF Cons.prems(1)]
  have ok: "runs_ok ts" using Cons.prems(2) by (auto simp: runs_ok_def)
  show ?case
  proof (cases x)
    case (Set_va v)
    have "parse_loop buf lim bytes i va refs = parse_loop buf lim bytes (i + 9) v refs"
      using i x Set_va by (subst parse_loop.simps) (simp add: add.commute [of 9 i])
    then show ?thesis using Cons.IH [OF _ ok, of "i + 9" v refs] x Set_va Cons.prems(3) by simp
  next
    case (Run t n)
    have b: "buf i \<noteq> PIP_CMD_SET_HVA" "t = PIP_TYPE (buf i)" "n = PIP_SIZE (buf i)"
      "tokens (map buf [i + 1..<bytes]) = Some ts"
      using x Run by simp_all
    have tn: "0 < n" "t \<le> 9" using Cons.prems(2) Run by (auto simp: runs_ok_def)
    let ?va = "va + pagetype_size t * of_nat n"
    have ex: "expand (x # ts) va = run_pages t va n @ expand ts ?va"
      by (simp only: Run expand_run mult.commute)
    have asc: "ascending (run_pages t va n)" "ascending (expand ts ?va)"
      using Cons.prems(3) ex by (simp_all add: ascending_append)
    show ?thesis
    proof (cases "lim \<le> va")
      case True
      have "parse_loop buf lim bytes i va refs = Some (va, refs)"
        using i b tn True by (subst parse_loop.simps) (simp add: Let_def)
      moreover have "stream_reports lim (expand (x # ts) va) = []"
        using expand_types [OF Cons.prems(2), of _ va]
          ascending_run_above [OF Cons.prems(3) [unfolded ex] tn(1) True]
        by (intro stream_reports_above [OF Cons.prems(3)] ballI conjI) (simp_all only: ex)
      ultimately show ?thesis by auto
    next
      case False
      let ?d = "deliver refs (stream_reports lim (run_pages t va n))"
      have step: "(if t \<le> PMD_IDLE_PTES
           then if t = PMD_IDLE_PTES then inc_page_refs refs PTE_IDLE (n * 512) va lim
                else inc_page_refs refs t n va lim
           else Some refs) = ?d"
      proof -
        consider "t < PMD_IDLE_PTES" | "t = PMD_IDLE_PTES" | "PMD_IDLE_PTES < t" by linarith
        then show ?thesis
        proof cases
          case 1
          then show ?thesis using inc_page_refs_run [OF 1 asc(1)] False by (simp add: not_le)
        next
          case 2
          then show ?thesis using inc_page_refs_idle_ptes [of va n lim refs] asc(1) False by (simp add: not_le)
        next
          case 3
          then have "stream_reports lim (run_pages t va n) = []"
            by (auto simp: stream_reports_def run_pages_def page_reports_def below_def)
          then show ?thesis using 3 by simp
        qed
      qed
      have "parse_loop buf lim bytes i va refs =
          do { refs \<leftarrow> ?d; parse_loop buf lim bytes (i + 1) ?va refs }"
        using i b(1) tn False unfolding step [symmetric] unfolding b(2,3)
        by (subst parse_loop.simps) (simp add: Let_def)
      moreover have "deliver refs (stream_reports lim (expand (x # ts) va)) =
          do { refs \<leftarrow> ?d; deliver refs (stream_reports lim (expand ts ?va)) }"
        unfolding ex stream_reports_append deliver_append ..
      ultimately show ?thesis
        using Cons.IH [OF b(4) ok asc(2)] by (cases ?d) auto
    qed
  qed
qed

text \<open>A byte with a page type the reader does not know makes the loop spin.\<close>

lemma parse_loop_unknown_type:
  assumes "i < bytes" and "buf i \<noteq> PIP_CMD_SET_HVA" and "IDLE_PAGE_TYPE_MAX \<le> PIP_TYPE (buf i)"
  shows "parse_loop buf lim bytes i va refs = None"
proof -
  have "\<not> (b = buf \<and> l = lim \<and> n = bytes \<and> j = i)"
    if "parse_loop b l n j v r = Some y" for b l n j v r y
  proof (rule parse_loop.raw_induct [OF _ that,
        where P = "\<lambda>b l n j v r y. \<not> (b = buf \<and> l = lim \<and> n = bytes \<and> j = i)"], goal_cases)
    case (1 f b l n j v r y)
    show ?case
    proof
      assume e: "b = buf \<and> l = lim \<and> n = bytes \<and> j = i"
      then have "f b l n j v r = Some y" using 1(2) assms by (simp add: Let_def)
      then show False using 1(1) e by blast
    qed
  qed
  then have "parse_loop buf lim bytes i va refs \<noteq> Some y" for y by blast
  then show ?thesis by (meson not_Some_eq)
qed

end
