(* ===== verification/Idle_Pages.thy ===== *)
theory Idle_Pages
  imports Idle_Parse
begin

text \<open>
  The scanner of one process: \<open>ProcIdlePages.h\<close>, \<open>ProcIdlePages.cc\<close> and the part of
  \<open>ProcMaps.cc\<close> it uses. The kernel's \<open>idle_pages\<close> file (\<open>open\<close>, \<open>lseek\<close>, \<open>read\<close>, \<open>close\<close>) is a
  parameter with a state of its own; so is \<open>sscanf\<close> on a line of \<open>/proc/PID/maps\<close>.
\<close>

unbundle bit_operations_syntax

section \<open>Memory maps\<close>

record proc_maps_entry =
  vma_start :: u64
  vma_end :: u64
  perms :: string
  vma_read :: bool
  vma_write :: bool
  vma_exec :: bool
  mayshare :: bool
  vma_offset :: u64
  dev_major :: int
  dev_minor :: int
  ino :: u64
  vma_path :: string

text \<open>What \<open>sscanf\<close> stores for one line, and the number of conversions it returns.\<close>

record maps_scan =
  sc_ret :: int
  sc_start :: u64
  sc_end :: u64
  sc_perms :: string
  sc_offset :: u64
  sc_major :: int
  sc_minor :: int
  sc_ino :: u64
  sc_path_index :: nat

text \<open>A character of a NUL-terminated string.\<close>

definition char_at :: "string \<Rightarrow> nat \<Rightarrow> char" where
  "char_at s i = (if i < length s then s ! i else CHR 0x00)"

definition maps_entry_of :: "string \<Rightarrow> maps_scan \<Rightarrow> proc_maps_entry" where
  "maps_entry_of line r =
     \<lparr>vma_start = sc_start r, vma_end = sc_end r, perms = sc_perms r,
      vma_read = (char_at (sc_perms r) 0 = CHR ''r''),
      vma_write = (char_at (sc_perms r) 1 = CHR ''w''),
      vma_exec = (char_at (sc_perms r) 2 = CHR ''x''),
      mayshare = (char_at (sc_perms r) 3 \<noteq> CHR ''p''),
      vma_offset = sc_offset r, dev_major = sc_major r, dev_minor = sc_minor r, ino = sc_ino r,
      vma_path = butlast (drop (sc_path_index r) line)\<rparr>"

definition EINVAL :: int where "EINVAL = 22"
definition ESRCH :: int where "ESRCH = 3"
definition ENOENT :: int where "ENOENT = 2"
definition ENXIO :: int where "ENXIO = 6"
definition ERANGE :: int where "ERANGE = 34"

fun parse_proc_maps :: "(string \<Rightarrow> maps_scan) \<Rightarrow> string list \<Rightarrow> int \<Rightarrow> int \<times> proc_maps_entry list" where
  "parse_proc_maps scan [] ret = (ret, [])"
| "parse_proc_maps scan (line # lines) ret =
     (let r = scan line
      in if sc_ret r < 7 then (- EINVAL, [])
         else let (ret, maps) = parse_proc_maps scan lines (sc_ret r)
              in (ret, maps_entry_of line r # maps))"

text \<open>\<open>lines\<close> is \<open>None\<close> when the file cannot be opened.\<close>

definition maps_load :: "(string \<Rightarrow> maps_scan) \<Rightarrow> string list option \<Rightarrow> proc_maps_entry list" where
  "maps_load scan lines = (case lines of None \<Rightarrow> [] | Some ls \<Rightarrow> snd (parse_proc_maps scan ls 0))"

definition is_anonymous :: "proc_maps_entry \<Rightarrow> bool" where
  "is_anonymous vma =
     (if mayshare vma then False
      else if vma_exec vma then False
      else if ino vma = 0 then True
      else if vma_write vma then True
      else False)"

section \<open>State of a scan\<close>

datatype placement = PLACEMENT_NONE | PLACEMENT_DRAM | PLACEMENT_PMEM | PLACEMENT_END

record idle_pages =
  ip_pid :: int
  ip_placement :: placement
  va_start :: u64
  va_end :: u64
  io_error :: int
  ip_nr_walks :: int
  pagetype_refs :: refs_array
  idle_fd :: int
  read_buf :: "nat \<Rightarrow> u8"
  read_buf_size :: nat
  min_read_size :: u64
  next_va :: u64

definition PAGE_SHIFT :: nat where "PAGE_SHIFT = 12"
definition PAGE_SIZE :: u64 where "PAGE_SIZE = 4096"
definition TASK_SIZE_MAX :: u64 where "TASK_SIZE_MAX = push_bit 47 1 - PAGE_SIZE"
definition READ_BUF_SIZE :: nat where "READ_BUF_SIZE = 0x100000"
definition EPT_IDLE_BUF_MIN :: u64 where "EPT_IDLE_BUF_MIN = (8 + 2) * 2"

definition ProcIdlePages_ctor :: "idle_pages \<Rightarrow> idle_pages" where
  "ProcIdlePages_ctor raw = raw\<lparr>va_start := 0, va_end := TASK_SIZE_MAX, io_error := 0\<rparr>"

definition set_va_range :: "idle_pages \<Rightarrow> u64 \<Rightarrow> u64 \<Rightarrow> idle_pages" where
  "set_va_range s a b = s\<lparr>va_start := a, va_end := b\<rparr>"

text \<open>The two files the scanner tries.\<close>

datatype idle_path = Global_idle_pages | Pid_idle_pages int

datatype read_result = Read_error int | Read_bytes "u8 list"

record 'd idle_ops =
  op_open :: "'d \<Rightarrow> idle_path \<Rightarrow> int \<times> 'd"
  op_set_pid :: "'d \<Rightarrow> int \<Rightarrow> 'd"
  op_seek_set :: "'d \<Rightarrow> u64 \<Rightarrow> bool \<times> 'd"
  op_seek_cur :: "'d \<Rightarrow> u64 option \<times> 'd"
  op_read :: "'d \<Rightarrow> u64 \<Rightarrow> read_result \<times> 'd"
  op_close :: "'d \<Rightarrow> 'd"

section \<open>Walking\<close>

definition read_size :: "idle_pages \<Rightarrow> u64 \<Rightarrow> u64 \<Rightarrow> u64" where
  "read_size s va lim =
     (let size = drop_bit (3 + PAGE_SHIFT) (lim - va + push_bit PAGE_SHIFT 7);
          size = (if size < min_read_size s then min_read_size s else size)
      in if size > of_nat (read_buf_size s) then of_nat (read_buf_size s) else size)"

definition fill_buf :: "u8 list \<Rightarrow> (nat \<Rightarrow> u8) \<Rightarrow> (nat \<Rightarrow> u8)" where
  "fill_buf bs buf i = (if i < length bs then bs ! i else buf i)"

text \<open>
  The loop of \<open>walk_vma\<close>. The first component of the result is the value of an early return, or
  \<open>None\<close> when the loop ends because the area is done.
\<close>

partial_function (option) walk_loop ::
    "'d idle_ops \<Rightarrow> u64 \<Rightarrow> u64 \<Rightarrow> 'd \<Rightarrow> idle_pages \<Rightarrow> (int option \<times> u64 \<times> 'd \<times> idle_pages) option" where
  "walk_loop ops lim va d s =
     (if \<not> va < lim then Some (None, va, d, s)
      else case op_seek_cur ops d of
        (None, d) \<Rightarrow> Some (Some (- 1), va, d, s\<lparr>io_error := - 1\<rparr>)
      | (Some pos, d) \<Rightarrow>
          let (ok, d) = (if pos \<noteq> va \<and> va > pos then op_seek_set ops d va else (True, d))
          in if \<not> ok then Some (Some (- 2), va, d, s\<lparr>io_error := - 1\<rparr>)
             else let size = read_size s va lim
                  in case op_read ops d size of
                    (Read_error e, d) \<Rightarrow>
                      if e = ENXIO then Some (Some 0, va, d, s)
                      else if e = ERANGE
                      then let va = va + push_bit (3 + PAGE_SHIFT) size; (ok, d) = op_seek_set ops d va
                           in if \<not> ok then Some (Some (- 1), va, d, s\<lparr>io_error := - 1\<rparr>)
                              else walk_loop ops lim va d s
                      else Some (Some (- 1), va, d, s\<lparr>io_error := - 1\<rparr>)
                  | (Read_bytes bs, d) \<Rightarrow>
                      if bs = [] then Some (Some 0, va, d, s)
                      else let s = s\<lparr>read_buf := fill_buf bs (read_buf s)\<rparr>
                           in do { (va, refs) \<leftarrow> parse_idlepages (read_buf s) va lim (length bs) (pagetype_refs s);
                                   walk_loop ops lim va d (s\<lparr>pagetype_refs := refs\<rparr>) })"

definition walk_vma :: "'d idle_ops \<Rightarrow> proc_maps_entry \<Rightarrow> 'd \<Rightarrow> idle_pages \<Rightarrow> (int \<times> 'd \<times> idle_pages) option" where
  "walk_vma ops vma d s =
     (let va = vma_start vma; lim = vma_end vma
      in if lim \<le> next_va s then Some (0, d, s)
         else if lim \<le> va_start s then Some (0, d, s)
         else if va \<ge> va_end s then Some (1, d, s)
         else if \<not> is_anonymous vma then Some (0, d, s)
         else let va = (if va < next_va s then next_va s else va);
                  va = (if va < va_start s then va_start s else va);
                  lim = (if lim > va_end s then va_end s else lim);
                  (ok, d) = op_seek_set ops d va
              in if \<not> ok then Some (- 1, d, s\<lparr>io_error := - 1\<rparr>)
                 else do { (early, va, d, s) \<leftarrow> walk_loop ops lim va d s;
                           Some (case early of
                                   Some rc \<Rightarrow> (rc, d, s)
                                 | None \<Rightarrow> (0, d, s\<lparr>next_va := va\<rparr>)) })"

definition open_file :: "'d idle_ops \<Rightarrow> 'd \<Rightarrow> idle_pages \<Rightarrow> int \<times> 'd \<times> idle_pages" where
  "open_file ops d s =
     (let (fd, d) = op_open ops d Global_idle_pages; s = s\<lparr>idle_fd := fd\<rparr>
      in if fd \<ge> 0 then (fd, op_set_pid ops d (ip_pid s), s)
         else let (fd, d) = op_open ops d (Pid_idle_pages (ip_pid s)); s = s\<lparr>idle_fd := fd\<rparr>
              in if fd < 0 then (fd, d, s\<lparr>io_error := fd\<rparr>) else (fd, d, s))"

fun walk_vmas :: "'d idle_ops \<Rightarrow> proc_maps_entry list \<Rightarrow> int \<Rightarrow> 'd \<Rightarrow> idle_pages \<Rightarrow> (int \<times> 'd \<times> idle_pages) option" where
  "walk_vmas ops [] err d s = Some (err, d, s)"
| "walk_vmas ops (vma # vmas) err d s =
     do { (err, d, s) \<leftarrow> walk_vma ops vma d s;
          if err \<noteq> 0 then Some (err, d, s) else walk_vmas ops vmas err d s }"

definition rewind_refs :: "refs_array \<Rightarrow> refs_array" where
  "rewind_refs refs = (\<lambda>i. if i \<le> MAX_ACCESSED then (refs i)\<lparr>page_refs := rewind (page_refs (refs i))\<rparr> else refs i)"

definition walk :: "'d idle_ops \<Rightarrow> int \<Rightarrow> proc_maps_entry list \<Rightarrow> 'd \<Rightarrow> idle_pages \<Rightarrow> (int \<times> 'd \<times> idle_pages) option" where
  "walk ops max_threads address_map d s =
     (if ip_placement s = PLACEMENT_DRAM then Some (0, d, s\<lparr>io_error := 1\<rparr>)
      else if address_map = [] then Some (- ESRCH, d, s\<lparr>io_error := - ESRCH\<rparr>)
      else let (fd, d, s) = open_file ops d s
           in if fd < 0 then Some (fd, d, s)
              else let s = s\<lparr>ip_nr_walks := ip_nr_walks s + 1, read_buf_size := READ_BUF_SIZE\<rparr>;
                       s = s\<lparr>min_read_size := (if max_threads \<le> 1 then PAGE_SIZE else EPT_IDLE_BUF_MIN)\<rparr>;
                       s = s\<lparr>pagetype_refs := rewind_refs (pagetype_refs s)\<rparr>;
                       s = s\<lparr>next_va := 0\<rparr>
                   in do { (err, d, s) \<leftarrow> walk_vmas ops address_map (- 1) d s;
                           Some (err, op_close ops d, s) })"

section \<open>What a walk delivers\<close>

text \<open>\<open>delivers P refs refs'\<close>: \<open>refs'\<close> is \<open>refs\<close> after reports that all satisfy \<open>P\<close>.\<close>

definition delivers :: "(u64 \<Rightarrow> bool) \<Rightarrow> refs_array \<Rightarrow> refs_array \<Rightarrow> bool" where
  "delivers P refs refs' \<longleftrightarrow> (\<exists>rs. deliver refs rs = Some refs' \<and> (\<forall>r \<in> set rs. P (fst (snd r))))"

lemma delivers_refl [simp, intro]: "delivers P refs refs"
  unfolding delivers_def by (intro exI [of _ "[]"]) simp

lemma delivers_trans [trans]:
  assumes "delivers P a b" and "delivers P b c"
  shows "delivers P a c"
proof -
  obtain xs ys where "deliver a xs = Some b" "deliver b ys = Some c"
    "\<forall>r \<in> set xs. P (fst (snd r))" "\<forall>r \<in> set ys. P (fst (snd r))"
    using assms by (auto simp: delivers_def)
  then show ?thesis unfolding delivers_def by (intro exI [of _ "xs @ ys"]) (auto simp: deliver_append)
qed

lemma delivers_mono: "delivers P a b \<Longrightarrow> (\<And>x. P x \<Longrightarrow> Q x) \<Longrightarrow> delivers Q a b"
  by (auto simp: delivers_def)

lemma inc_refs_loop_within:
  assumes "inc_refs_loop t sz lim k va (page_refs (refs i)) = Some s" and "va < lim"
  shows "delivers (\<lambda>a. a < lim) refs (set_page_refs refs i s)"
  using assms
proof (induction k arbitrary: va refs)
  case 0
  then show ?case using set_page_refs_same [of refs i] by auto
next
  case (Suc k)
  obtain rc u where u: "inc_payload (page_refs (refs i)) va (inc_of_type t) = Some (rc, u)"
    "(if va + sz \<ge> lim then Some u else inc_refs_loop t sz lim k (va + sz) u) = Some s"
    using Suc.prems(1) by (auto simp: Let_def split: Option.bind_splits)
  have 1: "delivers (\<lambda>a. a < lim) refs (set_page_refs refs i u)"
    unfolding delivers_def using u(1) Suc.prems(2)
    by (intro exI [of _ "[(i, va, inc_of_type t)]"]) simp
  show ?case
  proof (cases "va + sz \<ge> lim")
    case True
    then show ?thesis using 1 u(2) by simp
  next
    case False
    have "inc_refs_loop t sz lim k (va + sz) u = Some s" using u(2) False by simp
    moreover have "va + sz < lim" using False by (simp add: not_le)
    ultimately have "delivers (\<lambda>a. a < lim) (set_page_refs refs i u) (set_page_refs refs i s)"
      using Suc.IH [of "va + sz" "set_page_refs refs i u"] by (simp add: set_page_refs_twice)
    with 1 show ?thesis by (rule delivers_trans)
  qed
qed

lemma inc_page_refs_within:
  assumes "inc_page_refs refs t n va lim = Some refs'" and "va < lim"
  shows "delivers (\<lambda>a. a < lim) refs refs'"
  using assms inc_refs_loop_within [of t "pagetype_size t" lim n va refs "pagetype_index t"]
  by (auto simp: inc_page_refs_def Let_def split: if_splits Option.bind_splits)

text \<open>Whatever bytes the kernel delivers, nothing at or above the limit is recorded.\<close>

lemma parse_loop_within:
  assumes "parse_loop buf lim bytes i va refs = Some y"
  shows "delivers (\<lambda>a. a < lim) refs (snd y)"
proof (rule parse_loop.raw_induct [OF _ assms,
    where P = "\<lambda>buf lim bytes i va refs y. delivers (\<lambda>a. a < lim) refs (snd y)"], goal_cases)
  case (1 f buf lim bytes i va refs y)
  consider (at_end) "\<not> i < bytes" | (addr) "i < bytes" "buf i = PIP_CMD_SET_HVA"
    | (spin) "i < bytes" "buf i \<noteq> PIP_CMD_SET_HVA" "IDLE_PAGE_TYPE_MAX \<le> PIP_TYPE (buf i)"
    | (over) "i < bytes" "buf i \<noteq> PIP_CMD_SET_HVA" "\<not> IDLE_PAGE_TYPE_MAX \<le> PIP_TYPE (buf i)" "lim \<le> va"
    | (run) "i < bytes" "buf i \<noteq> PIP_CMD_SET_HVA" "\<not> IDLE_PAGE_TYPE_MAX \<le> PIP_TYPE (buf i)" "\<not> lim \<le> va"
    by blast
  then show ?case
  proof cases
    case run
    then obtain refs1 where r: "(if PIP_TYPE (buf i) \<le> PMD_IDLE_PTES
          then if PIP_TYPE (buf i) = PMD_IDLE_PTES
               then inc_page_refs refs PTE_IDLE (PIP_SIZE (buf i) * 512) va lim
               else inc_page_refs refs (PIP_TYPE (buf i)) (PIP_SIZE (buf i)) va lim
          else Some refs) = Some refs1"
      and f: "f buf lim bytes (i + 1) (va + pagetype_size (PIP_TYPE (buf i)) * of_nat (PIP_SIZE (buf i))) refs1 = Some y"
      using 1(2) by (auto simp: Let_def split: Option.bind_splits)
    have "delivers (\<lambda>a. a < lim) refs refs1"
      using r run(4) inc_page_refs_within by (auto simp: not_le split: if_splits)
    with 1(1) [OF f] show ?thesis using delivers_trans by blast
  qed (use 1 in \<open>auto simp: Let_def\<close>)
qed


lemma walk_loop_within:
  assumes "walk_loop ops lim va d s = Some y"
  shows "delivers (\<lambda>a. a < lim) (pagetype_refs s) (pagetype_refs (snd (snd (snd y)))) \<and>
         va_end (snd (snd (snd y))) = va_end s \<and>
         ip_nr_walks (snd (snd (snd y))) = ip_nr_walks s"
proof (rule walk_loop.raw_induct [OF _ assms,
    where P = "\<lambda>ops lim va d s y. delivers (\<lambda>a. a < lim) (pagetype_refs s) (pagetype_refs (snd (snd (snd y)))) \<and>
         va_end (snd (snd (snd y))) = va_end s \<and>
         ip_nr_walks (snd (snd (snd y))) = ip_nr_walks s"], goal_cases)
  case (1 f ops lim va d s y)
  note IH = 1(1) and run = 1(2)
  show ?case
  proof (cases "va < lim")
    case False
    then show ?thesis using run by auto
  next
    case True
    obtain pos d1 where cur: "op_seek_cur ops d = (pos, d1)" by fastforce
    show ?thesis
    proof (cases pos)
      case None
      then show ?thesis using run True cur by auto
    next
      case (Some p)
      obtain ok d2 where seek: "(if p \<noteq> va \<and> va > p then op_seek_set ops d1 va else (True, d1)) = (ok, d2)"
        by fastforce
      show ?thesis
      proof (cases ok)
        case False
        then show ?thesis using run True cur Some seek by (simp split: if_splits) auto
      next
        case ok: True
        obtain r d3 where rd: "op_read ops d2 (read_size s va lim) = (r, d3)" by fastforce
        show ?thesis
        proof (cases r)
          case (Read_error e)
          show ?thesis
            using run True cur Some seek ok rd Read_error IH
            by (auto simp: Let_def split: if_splits prod.splits)
        next
          case (Read_bytes bs)
          show ?thesis
          proof (cases "bs = []")
            case True
            then show ?thesis using run \<open>va < lim\<close> cur Some seek ok rd Read_bytes
              by (auto simp: Let_def split: if_splits prod.splits)
          next
            case False
            let ?s = "s\<lparr>read_buf := fill_buf bs (read_buf s)\<rparr>"
            obtain va1 refs1 where p1: "parse_idlepages (read_buf ?s) va lim (length bs) (pagetype_refs ?s) = Some (va1, refs1)"
              and f: "f ops lim va1 d3 (?s\<lparr>pagetype_refs := refs1\<rparr>) = Some y"
              using run \<open>va < lim\<close> cur Some seek ok rd Read_bytes False
              by (auto simp: Let_def split: if_splits prod.splits Option.bind_splits)
            have "delivers (\<lambda>a. a < lim) (pagetype_refs s) refs1"
              using parse_loop_within [OF p1 [unfolded parse_idlepages_def]] by simp
            with IH [OF f] show ?thesis using delivers_trans by auto
          qed
        qed
      qed
    qed
  qed
qed

lemma walk_vma_within:
  assumes "walk_vma ops vma d s = Some (rc, d', s')"
  shows "delivers (\<lambda>a. a < va_end s \<and> is_anonymous vma \<and> a < vma_end vma) (pagetype_refs s) (pagetype_refs s') \<and>
         va_end s' = va_end s \<and> ip_nr_walks s' = ip_nr_walks s"
proof (cases "vma_end vma \<le> next_va s \<or> vma_end vma \<le> va_start s \<or> va_end s \<le> vma_start vma \<or> \<not> is_anonymous vma")
  case True
  then show ?thesis using assms by (auto simp: walk_vma_def Let_def split: if_splits)
next
  case False
  let ?lim = "if vma_end vma > va_end s then va_end s else vma_end vma"
  define va where "va = (let va = vma_start vma; va = (if va < next_va s then next_va s else va)
    in if va < va_start s then va_start s else va)"
  obtain ok d1 where seek: "op_seek_set ops d va = (ok, d1)" by fastforce
  show ?thesis
  proof (cases ok)
    case no: False
    then show ?thesis using assms False seek by (auto simp: walk_vma_def va_def Let_def split: if_splits)
  next
    case True
    obtain early va2 d2 s2 where w: "walk_loop ops ?lim va d1 s = Some (early, va2, d2, s2)"
      and r: "(rc, d', s') = (case early of Some rc \<Rightarrow> (rc, d2, s2) | None \<Rightarrow> (0, d2, s2\<lparr>next_va := va2\<rparr>))"
      using assms False seek True unfolding walk_vma_def va_def Let_def
      by (auto split: Option.bind_splits)
    have s': "pagetype_refs s' = pagetype_refs s2" "va_end s' = va_end s2" "ip_nr_walks s' = ip_nr_walks s2"
      using r by (auto split: option.splits)
    have "?lim \<le> va_end s" "?lim \<le> vma_end vma" by auto
    then have "delivers (\<lambda>a. a < va_end s \<and> is_anonymous vma \<and> a < vma_end vma) (pagetype_refs s) (pagetype_refs s2)"
      using walk_loop_within [OF w] False by (auto elim!: delivers_mono dest: less_le_trans)
    then show ?thesis using s' walk_loop_within [OF w] by simp
  qed
qed

lemma walk_vmas_within:
  assumes "walk_vmas ops vmas err d s = Some (rc, d', s')"
  shows "delivers (\<lambda>a. a < va_end s \<and> (\<exists>vma \<in> set vmas. is_anonymous vma \<and> a < vma_end vma))
           (pagetype_refs s) (pagetype_refs s') \<and>
         ip_nr_walks s' = ip_nr_walks s"
  using assms
proof (induction vmas arbitrary: err d s)
  case Nil
  then show ?case by simp
next
  case (Cons vma vmas)
  obtain err1 d1 s1 where w: "walk_vma ops vma d s = Some (err1, d1, s1)"
    and rest: "(if err1 \<noteq> 0 then Some (err1, d1, s1) else walk_vmas ops vmas err1 d1 s1) = Some (rc, d', s')"
    using Cons.prems by (auto split: Option.bind_splits)
  note v = walk_vma_within [OF w]
  have 1: "delivers (\<lambda>a. a < va_end s \<and> (\<exists>x \<in> set (vma # vmas). is_anonymous x \<and> a < vma_end x))
      (pagetype_refs s) (pagetype_refs s1)" and n: "ip_nr_walks s1 = ip_nr_walks s"
    using v by (auto elim: delivers_mono)
  show ?case
  proof (cases "err1 = 0")
    case False
    then show ?thesis using 1 n rest by simp
  next
    case True
    then have d: "delivers (\<lambda>a. a < va_end s1 \<and> (\<exists>x \<in> set vmas. is_anonymous x \<and> a < vma_end x))
        (pagetype_refs s1) (pagetype_refs s')" "ip_nr_walks s' = ip_nr_walks s1"
      using Cons.IH rest by simp_all
    then have "delivers (\<lambda>a. a < va_end s \<and> (\<exists>x \<in> set (vma # vmas). is_anonymous x \<and> a < vma_end x))
        (pagetype_refs s1) (pagetype_refs s')"
      using v by (auto elim!: delivers_mono)
    with 1 show ?thesis using delivers_trans d(2) n by auto
  qed
qed

lemma open_file_fields:
  "pagetype_refs (snd (snd (open_file ops d s))) = pagetype_refs s"
  "va_end (snd (snd (open_file ops d s))) = va_end s"
  "ip_nr_walks (snd (snd (open_file ops d s))) = ip_nr_walks s"
  by (auto simp: open_file_def Let_def split: prod.splits)

section \<open>Delivering returns\<close>

text \<open>
  When every array is in a phase that records or counts, reports to the arrays always return and
  leave them in that phase.
\<close>

definition refs_run :: "refs_array \<Rightarrow> bool" where
  "refs_run refs \<longleftrightarrow> (\<forall>i \<le> MAX_ACCESSED.
     seq_run Appending (page_refs (refs i)) \<or> seq_run Counting (page_refs (refs i)))"

lemma inc_payload_run:
  assumes "seq_run ph s" and "ph = Appending \<or> ph = Counting"
  shows "\<exists>rc t. inc_payload s a n = Some (rc, t) \<and> seq_run ph t"
  using inc_payload_phase [OF seq_run_phase_inv [OF assms(1)] assms(2), of a n] assms
    seq_run.append [of s a n] seq_run.count [of s a n] by blast

lemma deliver_returns:
  assumes "refs_run refs" and "\<forall>r \<in> set rs. fst r \<le> MAX_ACCESSED"
  shows "\<exists>refs'. deliver refs rs = Some refs' \<and> refs_run refs'"
  using assms
proof (induction rs arbitrary: refs)
  case Nil
  then show ?case by simp
next
  case (Cons r rs)
  obtain i va n where r: "r = (i, va, n)" by (cases r)
  then have i: "i \<le> MAX_ACCESSED" using Cons.prems(2) by simp
  then obtain ph where ph: "seq_run ph (page_refs (refs i))" "ph = Appending \<or> ph = Counting"
    using Cons.prems(1) unfolding refs_run_def by blast
  obtain rc t where t: "inc_payload (page_refs (refs i)) va n = Some (rc, t)" "seq_run ph t"
    using inc_payload_run [OF ph] by blast
  have "refs_run (set_page_refs refs i t)"
    unfolding refs_run_def
  proof (intro allI impI)
    fix j assume "j \<le> MAX_ACCESSED"
    then show "seq_run Appending (page_refs (set_page_refs refs i t j)) \<or>
        seq_run Counting (page_refs (set_page_refs refs i t j))"
      using t(2) ph(2) Cons.prems(1) by (cases "j = i") (auto simp: refs_run_def)
  qed
  then show ?case using Cons.IH Cons.prems(2) t(1) r by simp
qed

lemma page_reports_index: "r \<in> set (page_reports p) \<Longrightarrow> fst p \<le> 9 \<Longrightarrow> fst r \<le> MAX_ACCESSED"
proof -
  assume r: "r \<in> set (page_reports p)" and p: "fst p \<le> 9"
  obtain t va where tv: "p = (t, va)" by (cases p)
  have "t < 7 \<Longrightarrow> t = 0 \<or> t = 1 \<or> t = 2 \<or> t = 3 \<or> t = 4 \<or> t = 5 \<or> t = 6" by presburger
  then show ?thesis using r unfolding tv
    by (auto simp: page_reports_def pagetype_index_def split: if_splits)
qed

section \<open>Properties\<close>

text \<open>
  C2: The kernel's encoder and the scanner's parser agree: the pages that the page table walkers
  report (aligned, in ascending order without overlap) are written into the buffer until it is
  full, and parsing the written bytes records exactly the reports of the accepted pages below the
  end of the area, in order, however the pages were grouped into runs and addresses; only holes are
  left out. The bytes fit the reader's buffer with room for one more address, and the first page
  not accepted is where the scan resumes.
\<close>

theorem encode_parse_roundtrip:
  assumes "init_ept_idle_ctrl_buffer e0 = (0, e)" and "9 \<le> buf_size e0 - bytes_copied e0"
    and "\<forall>r \<in> set rs. report_ok r" and "add_pages e rs = (err, e')"
    and "ascending (map (reported (gpa_to_hva e0)) rs)"
    and "\<forall>i < pie_read e'. buf i = kpie e' i"
  shows "\<exists>k va'. k \<le> length rs \<and> (err = 0 \<longrightarrow> k = length rs) \<and>
           (err \<noteq> 0 \<longrightarrow> k < length rs \<and> restart_gpa e' = fst (rs ! k)) \<and>
           int (pie_read e') + 9 \<le> buf_size e0 - bytes_copied e0 \<and>
           parse_idlepages buf va lim (pie_read e') refs =
             map_option (Pair va')
               (deliver refs (stream_reports lim (map (reported (gpa_to_hva e0)) (take k rs))))"
proof -
  note ini = init_buffer_ok [OF assms(1,2)]
  obtain k qs where k: "k \<le> length rs" "err = 0 \<longrightarrow> k = length rs"
    "err \<noteq> 0 \<longrightarrow> k < length rs \<and> restart_gpa e' = fst (rs ! k)" "encodes e' qs"
    "no_holes qs = no_holes (map (reported (gpa_to_hva e0)) (take k rs))"
    "set qs \<subseteq> set (map (reported (gpa_to_hva e0)) rs)"
    "\<And>P. sorted_wrt P (map (reported (gpa_to_hva e0)) rs) \<Longrightarrow> sorted_wrt P qs"
    using add_pages_encodes [OF ini(2) assms(3,4)] ini(3) by auto
  obtain ts where ts: "tokens (written e') = Some ts" "wf_stream ts" "expand ts va = qs"
    using encodes_tokens [OF k(4)] by blast
  have "map buf [0..<pie_read e'] = written e'" using assms(6) by (simp add: written_def)
  then have tb: "tokens (map buf [0..<pie_read e']) = Some ts" using ts(1) by simp
  have asc: "ascending (expand ts va)"
    using assms(5) k(6,7) unfolding ts(3) by (auto simp: ascending_def)
  have "page_reports p = []" if "is_hole (fst p)" for p
    using that by (cases p) (auto simp: page_reports_def is_hole_def)
  then have "concat (map page_reports ps) = concat (map page_reports (no_holes ps))" for ps
    by (induction ps) (auto simp: no_holes_def)
  then have "stream_reports lim qs = stream_reports lim (map (reported (gpa_to_hva e0)) (take k rs))"
    unfolding stream_reports_def by (metis k(5))
  moreover obtain va' where "parse_idlepages buf va lim (pie_read e') refs =
      map_option (Pair va') (deliver refs (stream_reports lim (expand ts va)))"
    using parse_loop_delivers [OF tb wf_stream_runs_ok [OF ts(2)] asc] unfolding parse_idlepages_def by blast
  moreover have "int (pie_read e') + 9 \<le> buf_size e0 - bytes_copied e0"
  proof -
    have "kbuf_ok e'" "pie_read_max e' = pie_read_max e"
      using add_pages_kbuf [OF ini(1) assms(4)] add_pages_limit [OF assms(4)] by simp_all
    then show ?thesis using ini(4) by (simp add: kbuf_ok_def)
  qed
  ultimately show ?thesis using k(1-3) ts(3) by auto
qed

definition empty_refs :: refs_array where
  "empty_refs = (\<lambda>i. \<lparr>page_refs = new_seq, histogram_2d = (\<lambda>_. [])\<rparr>)"

definition scan_state :: ept_idle_ctrl where
  "scan_state = \<lparr>kpie = (\<lambda>_. 0), pie_read = 0, pie_read_max = 0, ubuf = [], buf_size = 4096,
     bytes_copied = 0, next_hva = 0, gpa_to_hva = 0, restart_gpa = 0, last_va = 0, eic_flags = 0\<rparr>"

theorem encode_parse_roundtrip_witness:
  defines "e \<equiv> snd (init_ept_idle_ctrl_buffer scan_state)"
  defines "e' \<equiv> snd (add_pages e [(0x1000, 0x2000, PTE_ACCESSED), (0x2000, 0x3000, PTE_ACCESSED)])"
  shows "\<exists>k va'. parse_idlepages (kpie e') 0 0x10000 (pie_read e') empty_refs =
     map_option (Pair va') (deliver empty_refs (stream_reports 0x10000
       (map (reported 0) (take k [(0x1000, 0x2000, PTE_ACCESSED), (0x2000, 0x3000, PTE_ACCESSED)]))))"
proof -
  let ?rs = "[(0x1000, 0x2000, PTE_ACCESSED), (0x2000, 0x3000, PTE_ACCESSED)] :: (u64 \<times> u64 \<times> page_type) list"
  have ini: "init_ept_idle_ctrl_buffer scan_state = (0, e)"
    by (simp add: e_def init_ept_idle_ctrl_buffer_def scan_state_def EPT_IDLE_KBUF_SIZE_def Let_def)
  have room: "9 \<le> buf_size scan_state - bytes_copied scan_state" and base: "gpa_to_hva scan_state = 0"
    by (simp_all add: scan_state_def)
  have add: "add_pages e ?rs = (fst (add_pages e ?rs), e')" by (simp add: e'_def)
  have ok: "\<forall>r \<in> set ?rs. report_ok r"
    by (simp add: report_ok_def pagetype_shift_def take_bit_eq_mod drop_bit_eq_div)
  have asc: "ascending (map (reported (gpa_to_hva scan_state)) ?rs)"
    by (simp add: ascending_def reported_def base pagetype_size_def PTE_SIZE_def)
  show ?thesis
    using encode_parse_roundtrip [OF ini room ok add asc, of "kpie e'" 0 "0x10000" empty_refs] base by auto
qed


definition idle_example :: idle_pages where
  "idle_example = ProcIdlePages_ctor
     \<lparr>ip_pid = 1, ip_placement = PLACEMENT_NONE, va_start = 0, va_end = 0, io_error = 0, ip_nr_walks = 0,
      pagetype_refs = empty_refs, idle_fd = 0, read_buf = (\<lambda>_. 0), read_buf_size = 0,
      min_read_size = 0, next_va = 0\<rparr>"

definition heap_vma :: proc_maps_entry where
  "heap_vma = \<lparr>vma_start = 0x1000, vma_end = 0x5000, perms = ''rw-p'', vma_read = True,
     vma_write = True, vma_exec = False, mayshare = False, vma_offset = 0, dev_major = 0,
     dev_minor = 0, ino = 0, vma_path = ''[heap]''\<rparr>"

text \<open>A file whose reads all find nothing to report.\<close>

definition hole_ops :: "unit idle_ops" where
  "hole_ops = \<lparr>op_open = (\<lambda>d p. (3, d)), op_set_pid = (\<lambda>d p. d), op_seek_set = (\<lambda>d v. (True, d)),
     op_seek_cur = (\<lambda>d. (Some 0x1000, d)), op_read = (\<lambda>d n. (Read_error ENXIO, d)), op_close = id\<rparr>"


end
