(* ===== verification/Numa.thy ===== *)
theory Numa
  imports MO_Prelude
begin

text \<open>
  The NUMA topology of \<open>Numa.h\<close> and \<open>Numa.cc\<close>: node objects, the three ways to collect them
  (legacy configuration, configuration file, sysfs), promotion and demotion targets, the CPU map and
  the memory watermark. Node objects live in a store and are named by pointers, since
  \<open>node_map_\<close> owns them while \<open>nodes_\<close>, \<open>dram_nodes_\<close> and \<open>pmem_nodes_\<close> keep plain pointers.

  \<open>libnuma\<close>, \<open>sscanf\<close> and the sysfs files are parameters.
\<close>

section \<open>Nodes\<close>

datatype numa_node_type = NUMA_NODE_DRAM | NUMA_NODE_PMEM | NUMA_NODE_END

type_synonym node_ptr = nat

record numa_node =
  nn_id :: int
  nn_type :: numa_node_type
  mem_total :: int
  mem_free :: int
  mem_watermark_ok :: bool
  promote_target :: "node_ptr option"
  demote_target :: "node_ptr option"

record numa_collection =
  nr_possible_node :: int
  nr_possible_cpu :: int
  cpu_node_map :: "int list"
  node_map :: "node_ptr option list"
  nodes :: "node_ptr list"
  dram_nodes :: "node_ptr list"
  pmem_nodes :: "node_ptr list"
  node_heap :: "node_ptr \<Rightarrow> numa_node option"
  next_node :: node_ptr

definition empty_collection :: numa_collection where
  "empty_collection = \<lparr>nr_possible_node = 0, nr_possible_cpu = 0, cpu_node_map = [], node_map = [],
     nodes = [], dram_nodes = [], pmem_nodes = [], node_heap = (\<lambda>_. None), next_node = 0\<rparr>"

definition new_numa_node :: "int \<Rightarrow> numa_node_type \<Rightarrow> numa_node" where
  "new_numa_node nid type = \<lparr>nn_id = nid, nn_type = type, mem_total = 0, mem_free = 0,
     mem_watermark_ok = False, promote_target = None, demote_target = None\<rparr>"

definition is_pmem :: "numa_node \<Rightarrow> bool" where
  "is_pmem n \<longleftrightarrow> nn_type n = NUMA_NODE_PMEM"

text \<open>\<open>collect_meminfo\<close>: \<open>numa_node_size\<close> gives the total and the free size, total \<open>-1\<close> on error.\<close>

definition collect_meminfo :: "(int \<Rightarrow> int \<times> int) \<Rightarrow> numa_node \<Rightarrow> numa_node run" where
  "collect_meminfo numa_node_size n =
     (let (total, free) = numa_node_size (nn_id n); n = n\<lparr>mem_total := total, mem_free := free\<rparr>
      in if total = - 1 then Inl Exit_called else Inr n)"

text \<open>The product and the division are on \<open>long\<close>; C division truncates towards zero.\<close>

definition c_div :: "int \<Rightarrow> int \<Rightarrow> int" where
  "c_div a b = sgn a * sgn b * (\<bar>a\<bar> div \<bar>b\<bar>)"

definition check_watermark :: "int \<Rightarrow> numa_node \<Rightarrow> numa_node" where
  "check_watermark percent n =
     n\<lparr>mem_watermark_ok := mem_free n > c_div (mem_total n * percent) 100\<rparr>"

definition mem_used :: "numa_node \<Rightarrow> u64" where
  "mem_used n = word_of_int (mem_total n - mem_free n)"

definition set_peer_node :: "node_ptr option \<Rightarrow> numa_node \<Rightarrow> numa_node" where
  "set_peer_node peer n =
     (case nn_type n of
        NUMA_NODE_DRAM \<Rightarrow> n\<lparr>demote_target := peer\<rparr>
      | NUMA_NODE_PMEM \<Rightarrow> n\<lparr>promote_target := peer\<rparr>
      | NUMA_NODE_END \<Rightarrow> n)"

definition get_peer_node :: "numa_node \<Rightarrow> node_ptr option" where
  "get_peer_node n =
     (case nn_type n of
        NUMA_NODE_DRAM \<Rightarrow> demote_target n
      | NUMA_NODE_PMEM \<Rightarrow> promote_target n
      | NUMA_NODE_END \<Rightarrow> None)"

section \<open>Access\<close>

definition get_node :: "numa_collection \<Rightarrow> int \<Rightarrow> node_ptr option run" where
  "get_node c nid =
     (if 0 \<le> nid \<and> nat nid < length (node_map c) then Inr (node_map c ! nat nid) else Inl Out_of_range)"

text \<open>Calling a method through a pointer.\<close>

definition deref :: "numa_collection \<Rightarrow> node_ptr option \<Rightarrow> numa_node run" where
  "deref c p =
     (case p of
        None \<Rightarrow> Inl Null_pointer
      | Some q \<Rightarrow> (case node_heap c q of None \<Rightarrow> Inl Freed_object | Some n \<Rightarrow> Inr n))"

definition modify_node :: "node_ptr option \<Rightarrow> (numa_node \<Rightarrow> numa_node) \<Rightarrow> numa_collection \<Rightarrow> numa_collection run" where
  "modify_node p f c =
     rbind (deref c p) (\<lambda>n. Inr (c\<lparr>node_heap := (node_heap c)(the p \<mapsto> f n)\<rparr>))"

definition is_valid_nid :: "numa_collection \<Rightarrow> int \<Rightarrow> bool" where
  "is_valid_nid c nid \<longleftrightarrow> nid \<ge> 0 \<and> nid < nr_possible_node c \<and> node_map c ! nat nid \<noteq> None"

definition node_of_cpu :: "numa_collection \<Rightarrow> int \<Rightarrow> node_ptr option run" where
  "node_of_cpu c cpu =
     (if 0 \<le> cpu \<and> nat cpu < length (cpu_node_map c) then get_node c (cpu_node_map c ! nat cpu)
      else Inl Out_of_range)"

definition get_node_lowest_cpu :: "numa_collection \<Rightarrow> int \<Rightarrow> int" where
  "get_node_lowest_cpu c node =
     (case filter (\<lambda>cpu. cpu_node_map c ! cpu = node) [0..<nat (nr_possible_cpu c)] of
        [] \<Rightarrow> - 1 | cpu # _ \<Rightarrow> int cpu)"

section \<open>Creation\<close>

text \<open>\<open>reset\<close> on the owning pointer frees the object it held.\<close>

definition reset_node :: "nat \<Rightarrow> node_ptr \<Rightarrow> numa_node \<Rightarrow> numa_collection \<Rightarrow> numa_collection" where
  "reset_node i p n c =
     (let heap = (node_heap c)(p \<mapsto> n);
          heap = (case node_map c ! i of None \<Rightarrow> heap | Some old \<Rightarrow> heap(old := None))
      in c\<lparr>node_heap := heap, node_map := (node_map c)[i := Some p], next_node := p + 1\<rparr>)"

definition create_node :: "int \<Rightarrow> numa_node_type \<Rightarrow> numa_collection \<Rightarrow> int \<times> numa_collection" where
  "create_node nid type c =
     (if type = NUMA_NODE_END then (- 2, c)
      else if nid < 0 \<or> nat nid \<ge> length (node_map c) then (- 3, c)
      else let p = next_node c;
               c = reset_node (nat nid) p (new_numa_node nid type) c;
               c = (case type of
                      NUMA_NODE_DRAM \<Rightarrow> c\<lparr>dram_nodes := dram_nodes c @ [p]\<rparr>
                    | NUMA_NODE_PMEM \<Rightarrow> c\<lparr>pmem_nodes := pmem_nodes c @ [p]\<rparr>
                    | NUMA_NODE_END \<Rightarrow> c)
           in (0, c\<lparr>nodes := nodes c @ [p]\<rparr>))"

definition set_default_target_node :: "numa_collection \<Rightarrow> numa_collection run" where
  "set_default_target_node c =
     rbind (rfold (\<lambda>p. modify_node (Some p) (\<lambda>n. n\<lparr>promote_target := Some p\<rparr>)) (dram_nodes c) c)
       (\<lambda>c. rfold (\<lambda>p. modify_node (Some p) (\<lambda>n. n\<lparr>demote_target := Some p\<rparr>)) (pmem_nodes c) c)"

definition set_target_node :: "int \<Rightarrow> int \<Rightarrow> bool \<Rightarrow> numa_collection \<Rightarrow> numa_collection run" where
  "set_target_node nid target is_bidir c =
     (if nid \<ge> nr_possible_node c \<or> target \<ge> nr_possible_node c \<or> target < 0 then Inr c
      else rbind (get_node c nid) (\<lambda>p. rbind (get_node c target) (\<lambda>q.
           rbind (modify_node p (set_peer_node q) c) (\<lambda>c.
             if is_bidir then modify_node q (set_peer_node p) c else Inr c))))"

text \<open>
  \<open>numa_node_to_cpus\<close> gives the CPUs of a node, or nothing on error. The bitmask allocation is
  taken to succeed.
\<close>

definition init_cpu_map :: "int \<Rightarrow> (int \<Rightarrow> (nat \<Rightarrow> bool) option) \<Rightarrow> numa_collection \<Rightarrow> numa_collection run" where
  "init_cpu_map num_cpus node_to_cpus c =
     (let c = c\<lparr>nr_possible_cpu := num_cpus,
                cpu_node_map := take (nat num_cpus) (cpu_node_map c)
                                @ replicate (nat num_cpus - length (cpu_node_map c)) 0\<rparr>
      in rfold (\<lambda>p c. rbind (deref c (Some p)) (\<lambda>n.
                  case node_to_cpus (nn_id n) of
                    None \<Rightarrow> Inl Exit_called
                  | Some cpus \<Rightarrow>
                      Inr (c\<lparr>cpu_node_map :=
                             map (\<lambda>cpu. if cpus cpu then nn_id n else cpu_node_map c ! cpu)
                               [0..<nat num_cpus]\<rparr>))) (nodes c) c)"

definition resize_node_map :: "int \<Rightarrow> numa_collection \<Rightarrow> numa_collection" where
  "resize_node_map n c =
     c\<lparr>node_map := take (nat n) (node_map c) @ replicate (nat n - length (node_map c)) None\<rparr>"

section \<open>Collecting\<close>

record libnuma =
  ln_max_node :: int
  ln_num_cpus :: int
  ln_parse_mask :: "string \<Rightarrow> (nat \<Rightarrow> bool) option"
  ln_node_to_cpus :: "int \<Rightarrow> (nat \<Rightarrow> bool) option"

record numa_hw_config =
  numa_dram_list :: string
  numa_pmem_list :: string
  pmem_dram_map :: string

definition hw_config_is_valid :: "numa_hw_config \<Rightarrow> bool" where
  "hw_config_is_valid o' \<longleftrightarrow> numa_dram_list o' \<noteq> [] \<or> numa_pmem_list o' \<noteq> [] \<or> pmem_dram_map o' \<noteq> []"

text \<open>
  The loop over the comma separated pairs; \<open>scan\<close> is \<open>sscanf\<close> with the format
  \<open>%d->%d\<close>, which reads a pair at the start of a string.
\<close>

function pmem_map_loop :: "(string \<Rightarrow> (int \<times> int) option) \<Rightarrow> string \<Rightarrow> numa_collection \<Rightarrow> numa_collection run" where
  "pmem_map_loop scan s c =
     (case scan s of
        None \<Rightarrow> Inl Exit_called
      | Some (from, to) \<Rightarrow>
          if from \<ge> nr_possible_node c \<or> to \<ge> nr_possible_node c then Inl Exit_called
          else rbind (get_node c from) (\<lambda>p. rbind (get_node c to) (\<lambda>q.
               rbind (modify_node p (set_peer_node q) c) (\<lambda>c.
                 case dropWhile (\<lambda>x. x \<noteq> CHR '','') s of
                   [] \<Rightarrow> Inr c
                 | _ # rest \<Rightarrow> pmem_map_loop scan rest c))))"
  by pat_completeness auto
termination
proof (relation "measure (\<lambda>(_, s, _). length s)", goal_cases)
  case (2 scan s c a x y p q d z zs)
  then have "length (dropWhile (\<lambda>x. x \<noteq> CHR '','') s) = Suc (length zs)" by simp
  then show ?case using length_dropWhile_le [of "\<lambda>x. x \<noteq> CHR '','' " s] by simp
qed simp

declare pmem_map_loop.simps [simp del]

fun create_nodes_by_mask :: "(nat \<Rightarrow> bool) \<Rightarrow> (nat \<Rightarrow> bool) \<Rightarrow> nat list \<Rightarrow> numa_collection \<Rightarrow> numa_collection" where
  "create_nodes_by_mask dram pmem [] c = c"
| "create_nodes_by_mask dram pmem (i # is) c =
     (let type = (if dram i then NUMA_NODE_DRAM else if pmem i then NUMA_NODE_PMEM else NUMA_NODE_END)
      in create_nodes_by_mask dram pmem is (snd (create_node (int i) type c)))"

definition collect_by_config ::
    "libnuma \<Rightarrow> (string \<Rightarrow> (int \<times> int) option) \<Rightarrow> numa_hw_config \<Rightarrow> numa_collection \<Rightarrow> numa_collection run" where
  "collect_by_config lib scan opt c =
     (case (ln_parse_mask lib (numa_dram_list opt), ln_parse_mask lib (numa_pmem_list opt)) of
        (Some dram, Some pmem) \<Rightarrow>
          let c = resize_node_map (nr_possible_node c) c;
              c = create_nodes_by_mask dram pmem [0..<nat (nr_possible_node c)] c
          in rbind (set_default_target_node c) (\<lambda>c.
             rbind (pmem_map_loop scan (pmem_dram_map opt) c)
               (init_cpu_map (ln_num_cpus lib) (ln_node_to_cpus lib)))
      | _ \<Rightarrow> Inl Exit_called)"

text \<open>An entry of the configuration file is a map from field names to strings.\<close>

type_synonym hw_entry = "string \<Rightarrow> string option"

definition hw_node_id :: "hw_entry \<Rightarrow> int" where
  "hw_node_id e = (case e ''id'' of None \<Rightarrow> - 1 | Some s \<Rightarrow> atoi s)"

definition hw_node_linkto :: "hw_entry \<Rightarrow> int" where
  "hw_node_linkto e =
     (case e ''demote_to'' of
        Some s \<Rightarrow> atoi s
      | None \<Rightarrow> (case e ''promote_to'' of Some s \<Rightarrow> atoi s | None \<Rightarrow> - 1))"

definition numa_hwconfig_type_map :: "(string \<times> numa_node_type) list" where
  "numa_hwconfig_type_map = [(''DRAM'', NUMA_NODE_DRAM), (''PMEM'', NUMA_NODE_PMEM)]"

definition numa_sysfs_type_map :: "(string \<times> numa_node_type) list" where
  "numa_sysfs_type_map =
     [(''ram'', NUMA_NODE_DRAM), (''dram'', NUMA_NODE_DRAM), (''pmem'', NUMA_NODE_PMEM)]"

definition get_node_type :: "(string \<times> numa_node_type) list \<Rightarrow> string \<Rightarrow> numa_node_type" where
  "get_node_type m s = (case map_of m s of None \<Rightarrow> NUMA_NODE_END | Some t \<Rightarrow> t)"

definition hw_node_type :: "hw_entry \<Rightarrow> numa_node_type" where
  "hw_node_type e =
     (case e ''type'' of None \<Rightarrow> NUMA_NODE_END | Some s \<Rightarrow> get_node_type numa_hwconfig_type_map s)"

fun create_node_objects_v2 :: "hw_entry list \<Rightarrow> numa_collection \<Rightarrow> int \<times> numa_collection" where
  "create_node_objects_v2 [] c = (0, c)"
| "create_node_objects_v2 (e # es) c =
     (if hw_node_id e < 0 then create_node_objects_v2 es c
      else if hw_node_type e = NUMA_NODE_END then create_node_objects_v2 es c
      else let (err, c) = create_node (hw_node_id e) (hw_node_type e) c
           in if err < 0 then (err, c) else create_node_objects_v2 es c)"

definition setup_node_relationship_v2 :: "hw_entry list \<Rightarrow> bool \<Rightarrow> numa_collection \<Rightarrow> numa_collection run" where
  "setup_node_relationship_v2 es is_bidir c =
     rfold (\<lambda>e c. if hw_node_id e < 0 then Inr c
                  else if hw_node_linkto e < 0 then Inr c
                  else set_target_node (hw_node_id e) (hw_node_linkto e) is_bidir c) es c"

definition collect_by_config_v2 :: "libnuma \<Rightarrow> hw_entry list \<Rightarrow> numa_collection \<Rightarrow> numa_collection run" where
  "collect_by_config_v2 lib es c =
     (let c = resize_node_map (nr_possible_node c) c; (err, c) = create_node_objects_v2 es c
      in if err < 0 then Inr c
         else rbind (set_default_target_node c) (\<lambda>c.
              rbind (setup_node_relationship_v2 es False c)
                (init_cpu_map (ln_num_cpus lib) (ln_node_to_cpus lib))))"

record node_info =
  ni_type :: string
  ni_peer :: string

text \<open>
  A sysfs field: the file cannot be opened, or is empty, or its first line (cut to 31 characters).
\<close>

datatype sysfs_field = Open_failed int | Read_failed | Line string

definition parse_field :: "sysfs_field \<Rightarrow> int \<times> string" where
  "parse_field f = (case f of Open_failed e \<Rightarrow> (- e, []) | Read_failed \<Rightarrow> (0, []) | Line s \<Rightarrow> (0, butlast s))"

text \<open>The two fields are visited in the order of a map keyed by string addresses.\<close>

definition parse_sysfs_per_node :: "(int \<Rightarrow> string \<Rightarrow> sysfs_field) \<Rightarrow> int \<Rightarrow> int \<times> node_info" where
  "parse_sysfs_per_node sysfs nid =
     (let (e1, t) = parse_field (sysfs nid ''type''); (e2, p) = parse_field (sysfs nid ''peer_node'')
      in (if e1 < 0 then e1 else if e2 < 0 then e2 else 0, \<lparr>ni_type = t, ni_peer = p\<rparr>))"

definition load_numa_info :: "(int \<Rightarrow> string \<Rightarrow> sysfs_field) \<Rightarrow> int \<Rightarrow> node_info list" where
  "load_numa_info sysfs count =
     map (\<lambda>i. let (err, info) = parse_sysfs_per_node sysfs (int i)
               in if err \<ge> 0 then info else \<lparr>ni_type = [], ni_peer = []\<rparr>) [0..<nat count]"

fun create_node_objects :: "node_info list \<Rightarrow> nat \<Rightarrow> numa_collection \<Rightarrow> int \<times> numa_collection" where
  "create_node_objects [] i c = (0, c)"
| "create_node_objects (info # infos) i c =
     (let (err, c) = create_node (int i) (get_node_type numa_sysfs_type_map (ni_type info)) c
      in if err < 0 then (err, c) else create_node_objects infos (i + 1) c)"

definition setup_node_relationship :: "node_info list \<Rightarrow> bool \<Rightarrow> numa_collection \<Rightarrow> numa_collection run" where
  "setup_node_relationship infos is_bidir c =
     rfold (\<lambda>i. set_target_node (int i) (atoi (ni_peer (infos ! i))) is_bidir) [0..<length infos] c"

definition collect_by_sysfs :: "libnuma \<Rightarrow> (int \<Rightarrow> string \<Rightarrow> sysfs_field) \<Rightarrow> numa_collection \<Rightarrow> numa_collection run" where
  "collect_by_sysfs lib sysfs c =
     (let infos = load_numa_info sysfs (nr_possible_node c);
          c = resize_node_map (nr_possible_node c) c;
          (err, c) = create_node_objects infos 0 c
      in if err < 0 then Inr c
         else rbind (set_default_target_node c) (\<lambda>c.
              rbind (setup_node_relationship infos False c)
                (init_cpu_map (ln_num_cpus lib) (ln_node_to_cpus lib))))"

definition collect ::
    "libnuma \<Rightarrow> (string \<Rightarrow> (int \<times> int) option) \<Rightarrow> (int \<Rightarrow> string \<Rightarrow> sysfs_field) \<Rightarrow>
     numa_hw_config option \<Rightarrow> hw_entry list option \<Rightarrow> numa_collection \<Rightarrow> numa_collection run" where
  "collect lib scan sysfs opt opt2 c =
     (let c = c\<lparr>nr_possible_node := ln_max_node lib + 1\<rparr>
      in case opt of
           Some o' \<Rightarrow> if hw_config_is_valid o' then collect_by_config lib scan o' c
                     else (case opt2 of
                             Some es \<Rightarrow> if es \<noteq> [] then collect_by_config_v2 lib es c else collect_by_sysfs lib sysfs c
                           | None \<Rightarrow> collect_by_sysfs lib sysfs c)
         | None \<Rightarrow> (case opt2 of
                      Some es \<Rightarrow> if es \<noteq> [] then collect_by_config_v2 lib es c else collect_by_sysfs lib sysfs c
                    | None \<Rightarrow> collect_by_sysfs lib sysfs c))"

definition collect_dram_nodes_meminfo :: "(int \<Rightarrow> int \<times> int) \<Rightarrow> numa_collection \<Rightarrow> numa_collection run" where
  "collect_dram_nodes_meminfo sz c =
     rfold (\<lambda>p c. rbind (deref c (Some p)) (\<lambda>n. rbind (collect_meminfo sz n)
        (\<lambda>n. modify_node (Some p) (\<lambda>_. n) c))) (dram_nodes c) c"

definition check_dram_nodes_watermark :: "int \<Rightarrow> numa_collection \<Rightarrow> numa_collection run" where
  "check_dram_nodes_watermark percent c =
     rfold (\<lambda>p. modify_node (Some p) (check_watermark percent)) (dram_nodes c) c"

end
