(* ===== verification/Numa_Topology.thy ===== *)
theory Numa_Topology
  imports Numa
begin

text \<open>
  Correctness of the NUMA topology: the representation invariant of a collection, which all three
  ways of collecting establish (given distinct node ids), and the contract \<open>numa_nodes\<close> that the
  scanner and the migration rely on.
\<close>

section \<open>The invariant\<close>

definition node_ok :: "numa_collection \<Rightarrow> node_ptr \<Rightarrow> numa_node \<Rightarrow> bool" where
  "node_ok c p n \<longleftrightarrow>
     nn_type n \<noteq> NUMA_NODE_END \<and> 0 \<le> nn_id n \<and> nat (nn_id n) < length (node_map c) \<and>
     node_map c ! nat (nn_id n) = Some p \<and>
     (\<forall>q. promote_target n = Some q \<or> demote_target n = Some q \<longrightarrow> q \<in> set (nodes c))"

definition has_type :: "numa_collection \<Rightarrow> numa_node_type \<Rightarrow> node_ptr \<Rightarrow> bool" where
  "has_type c t p \<longleftrightarrow> (case node_heap c p of None \<Rightarrow> False | Some n \<Rightarrow> nn_type n = t)"

definition numa_inv :: "numa_collection \<Rightarrow> bool" where
  "numa_inv c \<longleftrightarrow>
     length (node_map c) = nat (nr_possible_node c) \<and>
     (\<forall>p \<in> set (nodes c). p < next_node c \<and> (\<exists>n. node_heap c p = Some n \<and> node_ok c p n)) \<and>
     (\<forall>i < length (node_map c). \<forall>p. node_map c ! i = Some p \<longrightarrow>
        p \<in> set (nodes c) \<and> (\<exists>n. node_heap c p = Some n \<and> nn_id n = int i)) \<and>
     dram_nodes c = filter (has_type c NUMA_NODE_DRAM) (nodes c) \<and>
     pmem_nodes c = filter (has_type c NUMA_NODE_PMEM) (nodes c) \<and> distinct (nodes c)"

lemma numa_inv_deref:
  assumes "numa_inv c" and "p \<in> set (nodes c)"
  shows "\<exists>n. deref c (Some p) = Inr n \<and> node_heap c p = Some n \<and> node_ok c p n"
  using assms by (force simp: numa_inv_def deref_def)

text \<open>Changing targets and memory figures of a node keeps the invariant.\<close>

definition same_node :: "numa_collection \<Rightarrow> numa_node \<Rightarrow> numa_node \<Rightarrow> bool" where
  "same_node c n m \<longleftrightarrow>
     nn_id m = nn_id n \<and> nn_type m = nn_type n \<and>
     (\<forall>q. promote_target m = Some q \<or> demote_target m = Some q \<longrightarrow>
        promote_target n = Some q \<or> demote_target n = Some q \<or> q \<in> set (nodes c))"

lemma numa_inv_write:
  assumes "numa_inv c" and "p \<in> set (nodes c)" and "node_heap c p = Some n" and "same_node c n m"
  shows "numa_inv (c\<lparr>node_heap := (node_heap c)(p \<mapsto> m)\<rparr>)"
proof -
  let ?c = "c\<lparr>node_heap := (node_heap c)(p \<mapsto> m)\<rparr>"
  have t: "has_type ?c t q = has_type c t q" for t q
    using assms(3,4) by (auto simp: has_type_def same_node_def)
  have ok: "node_ok c p n" using assms(1-3) by (force simp: numa_inv_def)
  have okm: "node_ok ?c p m" using ok assms(4) by (auto simp: node_ok_def same_node_def)
  have oko: "node_ok ?c q k \<longleftrightarrow> node_ok c q k" for q k by (simp add: node_ok_def)
  show ?thesis using assms okm
    unfolding numa_inv_def by (auto simp: t oko same_node_def cong: filter_cong)
qed

lemma modify_node_inv:
  assumes "numa_inv c" and "p \<in> set (nodes c)" and "\<And>n. node_ok c p n \<Longrightarrow> same_node c n (f n)"
  shows "\<exists>c'. modify_node (Some p) f c = Inr c' \<and> numa_inv c' \<and> nodes c' = nodes c \<and>
           node_map c' = node_map c \<and> nr_possible_node c' = nr_possible_node c \<and>
           dram_nodes c' = dram_nodes c \<and> pmem_nodes c' = pmem_nodes c \<and>
           (\<exists>n. node_heap c p = Some n \<and> node_heap c' = (node_heap c)(p \<mapsto> f n))"
proof -
  obtain n where n: "deref c (Some p) = Inr n" "node_heap c p = Some n" "node_ok c p n"
    using numa_inv_deref [OF assms(1,2)] by blast
  then show ?thesis
    using numa_inv_write [OF assms(1,2) n(2) assms(3) [OF n(3)]] by (auto simp: modify_node_def)
qed

section \<open>Creating nodes\<close>

lemma create_node_inv:
  assumes "numa_inv c" and "0 \<le> nid \<Longrightarrow> nat nid < length (node_map c) \<Longrightarrow> node_map c ! nat nid = None"
  shows "numa_inv (snd (create_node nid type c))"
proof (cases "type = NUMA_NODE_END \<or> nid < 0 \<or> length (node_map c) \<le> nat nid")
  case True
  then show ?thesis using assms by (auto simp: create_node_def)
next
  case False
  let ?p = "next_node c" and ?i = "nat nid"
  let ?c = "snd (create_node nid type c)"
  have i: "?i < length (node_map c)" "node_map c ! ?i = None" "0 \<le> nid" using False assms(2) by auto
  have f: "node_heap ?c = (node_heap c)(?p \<mapsto> new_numa_node nid type)"
    "node_map ?c = (node_map c)[?i := Some ?p]" "nodes ?c = nodes c @ [?p]" "next_node ?c = ?p + 1"
    "nr_possible_node ?c = nr_possible_node c"
    "dram_nodes ?c = dram_nodes c @ (if type = NUMA_NODE_DRAM then [?p] else [])"
    "pmem_nodes ?c = pmem_nodes c @ (if type = NUMA_NODE_PMEM then [?p] else [])"
    using False i by (auto simp: create_node_def reset_node_def Let_def split: numa_node_type.splits)
  have fresh: "p \<noteq> ?p" if "p \<in> set (nodes c)" for p using that assms(1) by (auto simp: numa_inv_def)
  have prev: "node_ok ?c p n" if "p \<in> set (nodes c)" "node_heap c p = Some n" for p n
  proof -
    have ok: "node_ok c p n" using that assms(1) by (force simp: numa_inv_def)
    then have "nat (nn_id n) \<noteq> ?i" using i(2) by (auto simp: node_ok_def)
    then show ?thesis using ok by (auto simp: node_ok_def f)
  qed
  have new: "node_ok ?c ?p (new_numa_node nid type)"
    using False i by (auto simp: node_ok_def f new_numa_node_def)
  have ty: "has_type ?c t p = has_type c t p" if "p \<in> set (nodes c)" for t p
    using fresh [OF that] by (simp add: has_type_def f)
  have ty2: "has_type ?c t ?p \<longleftrightarrow> type = t" for t by (simp add: has_type_def f new_numa_node_def)
  have mp: "p \<in> set (nodes ?c) \<and> (\<exists>n. node_heap ?c p = Some n \<and> nn_id n = int j)"
    if "j < length (node_map ?c)" "node_map ?c ! j = Some p" for j p
  proof (cases "j = ?i")
    case True
    then show ?thesis using that i by (auto simp: f new_numa_node_def)
  next
    case False
    then have "node_map c ! j = Some p" "j < length (node_map c)" using that by (auto simp: f)
    then show ?thesis using assms(1) fresh by (auto simp: numa_inv_def f)
  qed
  have "dram_nodes ?c = filter (has_type ?c NUMA_NODE_DRAM) (nodes ?c)"
    "pmem_nodes ?c = filter (has_type ?c NUMA_NODE_PMEM) (nodes ?c)"
    using assms(1) ty ty2 by (auto simp: f numa_inv_def cong: filter_cong)
  moreover have "distinct (nodes ?c)" using assms(1) fresh by (auto simp: numa_inv_def f)
  moreover have "\<forall>p \<in> set (nodes ?c). p < next_node ?c \<and> (\<exists>n. node_heap ?c p = Some n \<and> node_ok ?c p n)"
  proof
    fix p assume "p \<in> set (nodes ?c)"
    then consider "p = ?p" | "p \<in> set (nodes c)" by (auto simp: f)
    then show "p < next_node ?c \<and> (\<exists>n. node_heap ?c p = Some n \<and> node_ok ?c p n)"
    proof cases
      case 1
      then show ?thesis using new by (simp add: f)
    next
      case 2
      then obtain n where "node_heap c p = Some n" "p < ?p" using assms(1) by (force simp: numa_inv_def)
      then show ?thesis using prev [OF 2] fresh [OF 2] by (auto simp: f)
    qed
  qed
  moreover have "length (node_map ?c) = nat (nr_possible_node ?c)" using assms(1) by (simp add: f numa_inv_def)
  ultimately show ?thesis unfolding numa_inv_def using mp by blast
qed

lemma create_node_map:
  assumes "j < length (node_map c)" and "0 \<le> nid \<Longrightarrow> nat nid \<noteq> j"
  shows "node_map (snd (create_node nid type c)) ! j = node_map c ! j"
  using assms by (auto simp: create_node_def reset_node_def Let_def split: numa_node_type.splits)

lemma create_node_length [simp]:
  "length (node_map (snd (create_node nid type c))) = length (node_map c)"
  "nr_possible_node (snd (create_node nid type c)) = nr_possible_node c"
  by (auto simp: create_node_def reset_node_def Let_def split: numa_node_type.splits)

definition unused_id :: "numa_collection \<Rightarrow> int \<Rightarrow> bool" where
  "unused_id c nid \<longleftrightarrow> (0 \<le> nid \<and> nat nid < length (node_map c) \<longrightarrow> node_map c ! nat nid = None)"

lemma create_node_unused:
  "unused_id c j \<Longrightarrow> nid \<noteq> j \<Longrightarrow> unused_id (snd (create_node nid type c)) j"
  by (auto simp: unused_id_def create_node_map)

lemma create_nodes_by_mask_inv:
  "numa_inv c \<Longrightarrow> distinct js \<Longrightarrow> \<forall>i \<in> set js. unused_id c (int i) \<Longrightarrow>
     numa_inv (create_nodes_by_mask dram pmem js c)"
proof (induction js arbitrary: c)
  case (Cons i js)
  let ?t = "if dram i then NUMA_NODE_DRAM else if pmem i then NUMA_NODE_PMEM else NUMA_NODE_END"
  have "numa_inv (snd (create_node (int i) ?t c))"
    using Cons.prems by (intro create_node_inv) (auto simp: unused_id_def)
  moreover have "\<forall>j \<in> set js. unused_id (snd (create_node (int i) ?t c)) (int j)"
    using Cons.prems by (auto intro!: create_node_unused)
  ultimately show ?case using Cons.IH Cons.prems(2) by (simp add: Let_def)
qed simp

lemma create_node_objects_inv:
  "numa_inv c \<Longrightarrow> \<forall>j \<ge> i. unused_id c (int j) \<Longrightarrow> numa_inv (snd (create_node_objects infos i c))"
proof (induction infos arbitrary: i c)
  case (Cons info infos)
  let ?t = "get_node_type numa_sysfs_type_map (ni_type info)"
  have "numa_inv (snd (create_node (int i) ?t c))"
    using Cons.prems by (intro create_node_inv) (auto simp: unused_id_def)
  moreover have "\<forall>j \<ge> i + 1. unused_id (snd (create_node (int i) ?t c)) (int j)"
    using Cons.prems by (auto intro!: create_node_unused)
  ultimately show ?case using Cons.IH by (auto split: prod.splits)
qed simp

definition creates :: "hw_entry \<Rightarrow> bool" where
  "creates e \<longleftrightarrow> 0 \<le> hw_node_id e \<and> hw_node_type e \<noteq> NUMA_NODE_END"

lemma create_node_objects_v2_inv:
  "numa_inv c \<Longrightarrow> distinct (map hw_node_id (filter creates es)) \<Longrightarrow>
     \<forall>e \<in> set (filter creates es). unused_id c (hw_node_id e) \<Longrightarrow>
     numa_inv (snd (create_node_objects_v2 es c))"
proof (induction es arbitrary: c)
  case (Cons e es)
  show ?case
  proof (cases "creates e")
    case False
    then show ?thesis using Cons by (auto simp: creates_def not_le)
  next
    case True
    let ?c = "snd (create_node (hw_node_id e) (hw_node_type e) c)"
    have "numa_inv ?c" using Cons.prems True by (intro create_node_inv) (auto simp: unused_id_def)
    moreover have "\<forall>x \<in> set (filter creates es). unused_id ?c (hw_node_id x)"
      using Cons.prems True by (auto intro!: create_node_unused)
    ultimately show ?thesis using Cons.IH Cons.prems(2) True
      by (auto simp: creates_def not_less split: prod.splits)
  qed
qed simp

section \<open>Targets and the CPU map\<close>

text \<open>\<open>evolves c c'\<close>: \<open>c'\<close> is a valid collection with the nodes of \<open>c\<close>.\<close>

definition evolves :: "numa_collection \<Rightarrow> numa_collection \<Rightarrow> bool" where
  "evolves c c' \<longleftrightarrow>
     numa_inv c' \<and> nodes c' = nodes c \<and> node_map c' = node_map c \<and>
     nr_possible_node c' = nr_possible_node c \<and> dram_nodes c' = dram_nodes c \<and>
     pmem_nodes c' = pmem_nodes c"

lemma evolves_refl: "numa_inv c \<Longrightarrow> evolves c c"
  by (simp add: evolves_def)

lemma evolves_trans: "evolves a b \<Longrightarrow> evolves b c \<Longrightarrow> evolves a c"
  by (simp add: evolves_def)

text \<open>A node that is the target of no move within its own kind of memory stays where it is.\<close>

definition self_targets :: "numa_collection \<Rightarrow> bool" where
  "self_targets c \<longleftrightarrow>
     (\<forall>p n. node_heap c p = Some n \<longrightarrow>
        (p \<in> set (dram_nodes c) \<longrightarrow> promote_target n = Some p) \<and>
        (p \<in> set (pmem_nodes c) \<longrightarrow> demote_target n = Some p))"

lemma typed_nodes:
  assumes "numa_inv c"
  shows "p \<in> set (dram_nodes c) \<Longrightarrow> p \<in> set (nodes c) \<and> has_type c NUMA_NODE_DRAM p"
    and "p \<in> set (pmem_nodes c) \<Longrightarrow> p \<in> set (nodes c) \<and> has_type c NUMA_NODE_PMEM p"
  using assms by (auto simp: numa_inv_def)

lemma modify_all:
  assumes "numa_inv c" and "set ps \<subseteq> set (nodes c)"
    and "\<And>q d n. q \<in> set ps \<Longrightarrow> nodes d = nodes c \<Longrightarrow> same_node d n (f q n)"
  shows "\<exists>c'. rfold (\<lambda>p. modify_node (Some p) (f p)) ps c = Inr c' \<and> evolves c c' \<and>
           (distinct ps \<longrightarrow> node_heap c' = (\<lambda>q. if q \<in> set ps then map_option (f q) (node_heap c q)
                                           else node_heap c q))"
  using assms
proof (induction ps arbitrary: c)
  case Nil
  then show ?case by (simp add: evolves_refl)
next
  case (Cons p ps)
  have p: "p \<in> set (nodes c)" using Cons.prems(2) by simp
  obtain c1 n where c1: "modify_node (Some p) (f p) c = Inr c1" "evolves c c1"
    "node_heap c p = Some n" "node_heap c1 = (node_heap c)(p \<mapsto> f p n)"
    using modify_node_inv [OF Cons.prems(1) p, of "f p"] Cons.prems(3) unfolding evolves_def by force
  then have "numa_inv c1" "nodes c1 = nodes c" by (simp_all add: evolves_def)
  then obtain c' where c': "rfold (\<lambda>p. modify_node (Some p) (f p)) ps c1 = Inr c'" "evolves c1 c'"
    "distinct ps \<longrightarrow> node_heap c' = (\<lambda>q. if q \<in> set ps then map_option (f q) (node_heap c1 q)
                                     else node_heap c1 q)"
    using Cons.IH [of c1] Cons.prems(2,3) by auto
  have "distinct (p # ps) \<longrightarrow> node_heap c' =
      (\<lambda>q. if q \<in> set (p # ps) then map_option (f q) (node_heap c q) else node_heap c q)"
    using c'(3) c1(3,4) by (auto simp: fun_eq_iff)
  then show ?case using c1(1,2) c'(1,2) evolves_trans by auto
qed

lemma set_default_target_node_inv:
  assumes "numa_inv c"
  shows "\<exists>c'. set_default_target_node c = Inr c' \<and> evolves c c' \<and> self_targets c'"
proof -
  have d: "set (dram_nodes c) \<subseteq> set (nodes c)" "distinct (dram_nodes c)"
    and pm: "set (pmem_nodes c) \<subseteq> set (nodes c)" "distinct (pmem_nodes c)"
    using assms by (auto simp: numa_inv_def)
  obtain c1 where c1: "rfold (\<lambda>p. modify_node (Some p) (\<lambda>n. n\<lparr>promote_target := Some p\<rparr>)) (dram_nodes c) c = Inr c1"
    "evolves c c1"
    "node_heap c1 = (\<lambda>q. if q \<in> set (dram_nodes c)
       then map_option (\<lambda>n. n\<lparr>promote_target := Some q\<rparr>) (node_heap c q) else node_heap c q)"
    using modify_all [OF assms d(1), of "\<lambda>p n. n\<lparr>promote_target := Some p\<rparr>"] d by (auto simp: same_node_def)
  have e: "numa_inv c1" "nodes c1 = nodes c" "pmem_nodes c1 = pmem_nodes c" "dram_nodes c1 = dram_nodes c"
    using c1(2) by (simp_all add: evolves_def)
  obtain c2 where c2: "rfold (\<lambda>p. modify_node (Some p) (\<lambda>n. n\<lparr>demote_target := Some p\<rparr>)) (pmem_nodes c1) c1 = Inr c2"
    "evolves c1 c2"
    "node_heap c2 = (\<lambda>q. if q \<in> set (pmem_nodes c)
       then map_option (\<lambda>n. n\<lparr>demote_target := Some q\<rparr>) (node_heap c1 q) else node_heap c1 q)"
    using modify_all [OF e(1), of "pmem_nodes c" "\<lambda>p n. n\<lparr>demote_target := Some p\<rparr>"] pm e by (auto simp: same_node_def)
  have "dram_nodes c2 = dram_nodes c" "pmem_nodes c2 = pmem_nodes c"
    using c2(2) e by (simp_all add: evolves_def)
  then have "self_targets c2" unfolding self_targets_def by (auto simp: c1(3) c2(3) split: if_splits)
  then show ?thesis using c1 c2 evolves_trans by (auto simp: set_default_target_node_def)
qed

lemma set_peer_node_keeps:
  "q = None \<or> the q \<in> set (nodes c) \<Longrightarrow> same_node c n (set_peer_node q n)"
  "nn_type n = NUMA_NODE_DRAM \<Longrightarrow> promote_target (set_peer_node q n) = promote_target n"
  "nn_type n = NUMA_NODE_PMEM \<Longrightarrow> demote_target (set_peer_node q n) = demote_target n"
  by (auto simp: same_node_def set_peer_node_def split: numa_node_type.splits)

text \<open>Setting the peer of an existing node.\<close>

lemma set_peer_inv:
  assumes "numa_inv c" and "p \<in> set (nodes c)" and "q = None \<or> the q \<in> set (nodes c)"
  shows "\<exists>c'. modify_node (Some p) (set_peer_node q) c = Inr c' \<and> evolves c c' \<and>
           (self_targets c \<longrightarrow> self_targets c') \<and>
           (\<exists>n. node_heap c' p = Some n \<and> get_peer_node n = q)"
proof -
  obtain c' n where c': "modify_node (Some p) (set_peer_node q) c = Inr c'" "evolves c c'"
    "node_heap c p = Some n" "node_heap c' = (node_heap c)(p \<mapsto> set_peer_node q n)"
    using modify_node_inv [OF assms(1,2), of "set_peer_node q"] set_peer_node_keeps(1) [OF assms(3)]
    unfolding evolves_def by blast
  have ok: "node_ok c p n" using assms(1,2) c'(3) by (force simp: numa_inv_def)
  have same: "dram_nodes c' = dram_nodes c" "pmem_nodes c' = pmem_nodes c" using c'(2) by (simp_all add: evolves_def)
  have "self_targets c'" if "self_targets c"
    using that c'(3) typed_nodes [OF assms(1), of p] unfolding self_targets_def c'(4) same
    by (auto simp: has_type_def set_peer_node_keeps(2,3) split: if_splits)
  moreover have "get_peer_node (set_peer_node q n) = q"
    using ok by (cases "nn_type n") (auto simp: get_peer_node_def set_peer_node_def node_ok_def)
  ultimately show ?thesis using c' by auto
qed

lemma get_node_valid:
  assumes "numa_inv c" and "get_node c nid = Inr p"
  shows "p = None \<or> the p \<in> set (nodes c)"
proof (cases p)
  case (Some q)
  then have "nat nid < length (node_map c)" "node_map c ! nat nid = Some q"
    using assms(2) by (auto simp: get_node_def split: if_splits)
  then have "q \<in> set (nodes c)" using assms(1) unfolding numa_inv_def by blast
  then show ?thesis using Some by simp
qed simp

definition keeps :: "numa_collection \<Rightarrow> numa_collection \<Rightarrow> bool" where
  "keeps c c' \<longleftrightarrow> evolves c c' \<and> (self_targets c \<longrightarrow> self_targets c')"

lemma keeps_trans: "keeps a b \<Longrightarrow> keeps b c \<Longrightarrow> keeps a c"
  using evolves_trans by (auto simp: keeps_def)

lemma keeps_refl: "numa_inv c \<Longrightarrow> keeps c c"
  by (simp add: keeps_def evolves_refl)

lemma keeps_inv: "keeps c c' \<Longrightarrow> numa_inv c'"
  by (simp add: keeps_def evolves_def)

lemma modify_peer_keeps:
  assumes "numa_inv c" and "q = None \<or> the q \<in> set (nodes c)" and "p = None \<or> the p \<in> set (nodes c)"
    and "modify_node p (set_peer_node q) c = Inr c'"
  shows "keeps c c'"
  using assms(3,4) set_peer_inv [OF assms(1) _ assms(2), of "the p"]
  by (cases p) (auto simp: keeps_def modify_node_def deref_def)

lemma set_target_node_keeps:
  assumes "numa_inv c" and "set_target_node a b bi c = Inr c'"
  shows "keeps c c'"
proof (cases "a \<ge> nr_possible_node c \<or> b \<ge> nr_possible_node c \<or> b < 0")
  case True
  then show ?thesis using assms keeps_refl by (simp add: set_target_node_def)
next
  case False
  then obtain p q c1 where pq: "get_node c a = Inr p" "get_node c b = Inr q"
    "modify_node p (set_peer_node q) c = Inr c1"
    "(if bi then modify_node q (set_peer_node p) c1 else Inr c1) = Inr c'"
    using assms(2) by (auto simp: set_target_node_def)
  note v = get_node_valid [OF assms(1) pq(1)] get_node_valid [OF assms(1) pq(2)]
  have k: "keeps c c1" using modify_peer_keeps [OF assms(1) v(2,1) pq(3)] .
  then have "nodes c1 = nodes c" by (simp add: keeps_def evolves_def)
  then have "bi \<Longrightarrow> keeps c1 c'" using modify_peer_keeps [OF keeps_inv [OF k], of p q c'] v pq(4) by simp
  then show ?thesis using k pq(4) keeps_trans by (cases bi) auto
qed

lemma rfold_keeps:
  assumes "rfold f xs c = Inr c'" and "numa_inv c"
    and "\<And>x c c'. numa_inv c \<Longrightarrow> f x c = Inr c' \<Longrightarrow> keeps c c'"
  shows "keeps c c'"
  using rfold_invariant [OF assms(1), of "keeps c"] assms(3) keeps_refl [OF assms(2)] keeps_inv keeps_trans
  by blast

lemma setup_node_relationship_keeps:
  "numa_inv c \<Longrightarrow> setup_node_relationship infos bi c = Inr c' \<Longrightarrow> keeps c c'"
  "numa_inv c \<Longrightarrow> setup_node_relationship_v2 es bi c = Inr c' \<Longrightarrow> keeps c c'"
  unfolding setup_node_relationship_def setup_node_relationship_v2_def
  by (auto elim!: rfold_keeps split: if_splits intro: set_target_node_keeps keeps_refl)

lemma pmem_map_loop_keeps:
  "numa_inv c \<Longrightarrow> pmem_map_loop scan str c = Inr c' \<Longrightarrow> keeps c c'"
proof (induction scan str c arbitrary: c' rule: pmem_map_loop.induct)
  case (1 scan str c)
  obtain a b where ft: "scan str = Some (a, b)" "\<not> (a \<ge> nr_possible_node c \<or> b \<ge> nr_possible_node c)"
    using "1.prems"(2) by (subst (asm) pmem_map_loop.simps) (auto split: option.splits if_splits)
  obtain p q c1 where pq: "get_node c a = Inr p" "get_node c b = Inr q"
    "modify_node p (set_peer_node q) c = Inr c1"
    and rest: "(case dropWhile (\<lambda>x. x \<noteq> CHR '','') str of [] \<Rightarrow> Inr c1 | _ # r \<Rightarrow> pmem_map_loop scan r c1) = Inr c'"
    using "1.prems"(2) ft by (subst (asm) pmem_map_loop.simps) auto
  have k: "keeps c c1"
    using modify_peer_keeps [OF "1.prems"(1) get_node_valid get_node_valid pq(3)] "1.prems"(1) pq by blast
  show ?case
  proof (cases "dropWhile (\<lambda>x. x \<noteq> CHR '','') str")
    case Nil
    then show ?thesis using k rest by (simp only: list.case sum.inject)
  next
    case (Cons x r)
    then have "keeps c1 c'"
      using "1.IH" [OF ft(1) refl ft(2) pq Cons keeps_inv [OF k]] rest by (simp only: list.case)
    with k show ?thesis by (rule keeps_trans)
  qed
qed

lemma init_cpu_map_keeps:
  assumes "numa_inv c" and "init_cpu_map n cpus c = Inr c'"
  shows "keeps c c'"
proof -
  have k: "keeps d (d\<lparr>cpu_node_map := m\<rparr>)" "keeps d (d\<lparr>nr_possible_cpu := k, cpu_node_map := m\<rparr>)"
    if "numa_inv d" for d m k
    using that by (auto simp: keeps_def evolves_def numa_inv_def node_ok_def has_type_def self_targets_def
        deref_def cong: filter_cong)
  let ?c = "c\<lparr>nr_possible_cpu := n, cpu_node_map := take (nat n) (cpu_node_map c)
                                @ replicate (nat n - length (cpu_node_map c)) 0\<rparr>"
  have "keeps ?c c'"
    using assms(2) unfolding init_cpu_map_def Let_def
    by (rule rfold_keeps) (use k assms(1) keeps_inv [OF k(2)] in \<open>auto split: option.splits\<close>)
  with k(2) [OF assms(1)] show ?thesis by (rule keeps_trans)
qed

section \<open>The contract of the topology\<close>

text \<open>
  What the scanner and the migration rely on: a valid node id names a live node with that id, of
  one of the two kinds of memory.
\<close>

locale numa_nodes =
  fixes valid :: "'c \<Rightarrow> int \<Rightarrow> bool"
    and node :: "'c \<Rightarrow> int \<Rightarrow> numa_node run"
    and ok :: "'c \<Rightarrow> bool"
  assumes valid_node:
    "ok c \<Longrightarrow> valid c nid \<Longrightarrow> \<exists>n. node c nid = Inr n \<and> nn_id n = nid \<and> nn_type n \<noteq> NUMA_NODE_END"
begin

lemma valid_never_faults: "ok c \<Longrightarrow> valid c nid \<Longrightarrow> node c nid \<noteq> Inl e"
  using valid_node by fastforce

lemma valid_location:
  assumes "ok c" and "valid c nid"
  shows "\<exists>n. node c nid = Inr n \<and> (is_pmem n \<longleftrightarrow> nn_type n \<noteq> NUMA_NODE_DRAM)"
proof -
  obtain n where "node c nid = Inr n" "nn_type n \<noteq> NUMA_NODE_END"
    using valid_node [OF assms] by blast
  then show ?thesis by (cases "nn_type n") (auto simp: is_pmem_def)
qed

lemma valid_distinct:
  "ok c \<Longrightarrow> valid c i \<Longrightarrow> valid c j \<Longrightarrow> node c i = node c j \<Longrightarrow> i = j"
  using valid_node [of c i] valid_node [of c j] by auto

end

definition node_of :: "numa_collection \<Rightarrow> int \<Rightarrow> numa_node run" where
  "node_of c nid = rbind (get_node c nid) (deref c)"

lemma numa_valid_node:
  assumes "numa_inv c" and "is_valid_nid c nid"
  shows "\<exists>n. node_of c nid = Inr n \<and> nn_id n = nid \<and> nn_type n \<noteq> NUMA_NODE_END"
proof -
  have i: "nat nid < length (node_map c)" "0 \<le> nid"
    using assms by (auto simp: numa_inv_def is_valid_nid_def)
  obtain p where p: "node_map c ! nat nid = Some p" using assms(2) by (auto simp: is_valid_nid_def)
  obtain n where n: "node_heap c p = Some n" "nn_id n = int (nat nid)" "p \<in> set (nodes c)"
    using assms(1) i(1) p unfolding numa_inv_def by blast
  moreover have "node_ok c p n" using assms(1) n by (force simp: numa_inv_def)
  ultimately show ?thesis using i p by (auto simp: node_of_def get_node_def deref_def node_ok_def)
qed

interpretation numa: numa_nodes is_valid_nid node_of numa_inv
  by unfold_locales (rule numa_valid_node)

section \<open>Properties\<close>

lemma resize_empty_inv: "numa_inv (resize_node_map n (empty_collection\<lparr>nr_possible_node := n\<rparr>))"
  by (auto simp: numa_inv_def resize_node_map_def empty_collection_def)

lemma resize_empty_unused: "unused_id (resize_node_map n (empty_collection\<lparr>nr_possible_node := n\<rparr>)) i"
  by (auto simp: unused_id_def resize_node_map_def empty_collection_def)

lemma finish_collect:
  assumes "numa_inv c"
    and "rbind (set_default_target_node c) (\<lambda>c. rbind (f c) (init_cpu_map n cpus)) = Inr c'"
    and "\<And>c c'. numa_inv c \<Longrightarrow> f c = Inr c' \<Longrightarrow> keeps c c'"
  shows "numa_inv c' \<and> self_targets c'"
proof -
  obtain c1 c2 where c1: "set_default_target_node c = Inr c1" "f c1 = Inr c2"
    "init_cpu_map n cpus c2 = Inr c'" using assms(2) by auto
  have "numa_inv c1" "self_targets c1"
    using set_default_target_node_inv [OF assms(1)] c1(1) by (auto simp: evolves_def)
  then have k: "keeps c1 c2" using assms(3) c1(2) by blast
  have "keeps c2 c'" using init_cpu_map_keeps [OF keeps_inv [OF k] c1(3)] .
  with k \<open>self_targets c1\<close> show ?thesis using keeps_inv by (auto simp: keeps_def)
qed

lemma collect_by_config_inv:
  assumes "collect_by_config lib scan o' (empty_collection\<lparr>nr_possible_node := n\<rparr>) = Inr c'"
  shows "numa_inv c'"
proof -
  let ?e = "empty_collection\<lparr>nr_possible_node := n\<rparr>"
  obtain dram pmem where "ln_parse_mask lib (numa_dram_list o') = Some dram"
    "ln_parse_mask lib (numa_pmem_list o') = Some pmem"
    using assms by (auto simp: collect_by_config_def split: option.splits)
  with assms have r: "rbind (set_default_target_node (create_nodes_by_mask dram pmem [0..<nat n] (resize_node_map n ?e)))
      (\<lambda>c. rbind (pmem_map_loop scan (pmem_dram_map o') c) (init_cpu_map (ln_num_cpus lib) (ln_node_to_cpus lib))) = Inr c'"
    by (simp add: collect_by_config_def Let_def resize_node_map_def)
  have "numa_inv (create_nodes_by_mask dram pmem [0..<nat n] (resize_node_map n ?e))"
    by (rule create_nodes_by_mask_inv) (simp_all add: resize_empty_inv resize_empty_unused)
  from finish_collect [OF this r pmem_map_loop_keeps] show ?thesis by simp
qed

lemma collect_by_sysfs_inv:
  assumes "collect_by_sysfs lib sysfs (empty_collection\<lparr>nr_possible_node := n\<rparr>) = Inr c'"
  shows "numa_inv c'"
proof -
  let ?e = "empty_collection\<lparr>nr_possible_node := n\<rparr>"
  obtain err c where c: "create_node_objects (load_numa_info sysfs n) 0 (resize_node_map n ?e) = (err, c)"
    by fastforce
  have inv: "numa_inv c"
    using create_node_objects_inv [OF resize_empty_inv, of 0 n "load_numa_info sysfs n"] resize_empty_unused c by auto
  show ?thesis
  proof (cases "err < 0")
    case True
    then show ?thesis using assms c inv by (simp add: collect_by_sysfs_def Let_def)
  next
    case False
    then have r: "rbind (set_default_target_node c)
      (\<lambda>c. rbind (setup_node_relationship (load_numa_info sysfs n) False c)
        (init_cpu_map (ln_num_cpus lib) (ln_node_to_cpus lib))) = Inr c'"
      using assms c by (simp add: collect_by_sysfs_def Let_def)
    from finish_collect [OF inv r setup_node_relationship_keeps(1)] show ?thesis by simp
  qed
qed

lemma collect_by_config_v2_inv:
  assumes "collect_by_config_v2 lib es (empty_collection\<lparr>nr_possible_node := n\<rparr>) = Inr c'"
    and "distinct (map hw_node_id (filter creates es))"
  shows "numa_inv c'"
proof -
  let ?e = "empty_collection\<lparr>nr_possible_node := n\<rparr>"
  obtain err c where c: "create_node_objects_v2 es (resize_node_map n ?e) = (err, c)" by fastforce
  have inv: "numa_inv c"
    using create_node_objects_v2_inv [OF resize_empty_inv assms(2), of n] resize_empty_unused c by auto
  show ?thesis
  proof (cases "err < 0")
    case True
    then show ?thesis using assms(1) c inv by (simp add: collect_by_config_v2_def Let_def)
  next
    case False
    then have r: "rbind (set_default_target_node c)
      (\<lambda>c. rbind (setup_node_relationship_v2 es False c)
        (init_cpu_map (ln_num_cpus lib) (ln_node_to_cpus lib))) = Inr c'"
      using assms(1) c by (simp add: collect_by_config_v2_def Let_def)
    from finish_collect [OF inv r setup_node_relationship_keeps(2)] show ?thesis by simp
  qed
qed

text \<open>
  C10: Collecting the topology establishes its invariant, by whichever of the three ways it is
  collected, provided the configuration file defines no node id twice: every pointer in the node
  lists is live and owned by the node map under the node's own id, the DRAM and PMEM lists are the
  nodes of that type, and the targets are nodes of the collection. In particular each valid node id
  then names a live node with that id, of one of the two kinds.
\<close>

theorem collect_establishes_topology:
  assumes "collect lib scan sysfs opt opt2 empty_collection = Inr c"
    and "\<forall>es. opt2 = Some es \<longrightarrow> distinct (map hw_node_id (filter creates es))"
  shows "numa_inv c \<and>
         (\<forall>nid. is_valid_nid c nid \<longrightarrow>
            (\<exists>n. node_of c nid = Inr n \<and> nn_id n = nid \<and> (is_pmem n \<longleftrightarrow> nn_type n \<noteq> NUMA_NODE_DRAM)))"
proof -
  have inv: "numa_inv c"
    using assms collect_by_config_inv collect_by_config_v2_inv collect_by_sysfs_inv
    unfolding collect_def Let_def by (auto split: option.splits if_splits)
  then show ?thesis using numa.valid_node [OF inv] numa.valid_location [OF inv] by fastforce
qed

text \<open>A machine with one DRAM and one PMEM node, described by a configuration file.\<close>

definition two_nodes :: "hw_entry list" where
  "two_nodes = [[''id'' \<mapsto> ''0'', ''type'' \<mapsto> ''DRAM'', ''demote_to'' \<mapsto> ''1''],
                [''id'' \<mapsto> ''1'', ''type'' \<mapsto> ''PMEM'', ''promote_to'' \<mapsto> ''0'']]"

definition two_node_lib :: libnuma where
  "two_node_lib = \<lparr>ln_max_node = 1, ln_num_cpus = 2, ln_parse_mask = (\<lambda>_. None),
     ln_node_to_cpus = (\<lambda>nid. Some (\<lambda>cpu. nid = 0))\<rparr>"

lemma two_nodes_created: "map hw_node_id (filter creates two_nodes) = [0, 1]"
  by code_simp

lemma two_nodes_collected:
  "\<exists>c. collect two_node_lib (\<lambda>_. None) (\<lambda>_ _. Read_failed) None (Some two_nodes) empty_collection = Inr c"
proof -
  have "isl (collect two_node_lib (\<lambda>_. None) (\<lambda>_ _. Read_failed) None (Some two_nodes) empty_collection) = False"
    by code_simp
  then show ?thesis by (metis sum.exhaust isl_def)
qed

theorem collect_establishes_topology_witness:
  "\<exists>c. collect two_node_lib (\<lambda>_. None) (\<lambda>_ _. Read_failed) None (Some two_nodes) empty_collection = Inr c \<and>
       numa_inv c"
proof -
  obtain c where c: "collect two_node_lib (\<lambda>_. None) (\<lambda>_ _. Read_failed) None (Some two_nodes) empty_collection = Inr c"
    using two_nodes_collected by blast
  from collect_establishes_topology [OF c] two_nodes_created c show ?thesis by auto
qed

text \<open>
  A configuration that defines a node id twice: the second object replaces the first in
  \<open>node_map_\<close>, which frees the first, and the pointer lists keep the freed pointer. Setting the
  default targets then follows it.
\<close>

lemma duplicate_node_dangles:
  assumes "0 \<le> nid" and "nat nid < length (node_map c)" and "node_map c ! nat nid = Some p"
    and "p \<in> set (dram_nodes c)" and "type \<noteq> NUMA_NODE_END" and "p < next_node c"
  defines "c' \<equiv> snd (create_node nid type c)"
  shows "p \<in> set (dram_nodes c')" and "deref c' (Some p) = Inl Freed_object"
  using assms by (auto simp: create_node_def reset_node_def deref_def Let_def split: numa_node_type.splits)

end
