(* ===== verification/EPT_Scan.thy ===== *)
theory EPT_Scan
  imports Idle_Pages Numa_Topology
begin

text \<open>
  The per-process scan \<open>EPTScan.h\<close> and \<open>EPTScan.cc\<close>: repeated walks, the stop criterion, filling in
  the node of every page, and counting references into histograms. The \<open>move_pages\<close> system call
  that locates pages is a parameter.
\<close>

unbundle bit_operations_syntax

section \<open>State\<close>

definition MAX_NID :: int where "MAX_NID = 31"
definition REF_LOC_UNKNOWN :: nat where "REF_LOC_UNKNOWN = 32"
definition REF_LOC_DRAM :: nat where "REF_LOC_DRAM = 33"
definition REF_LOC_PMEM :: nat where "REF_LOC_PMEM = 34"
definition REF_LOC_ALL :: nat where "REF_LOC_ALL = 35"
definition REF_LOC_MAX :: nat where "REF_LOC_MAX = 36"

lemmas ref_loc_defs = MAX_NID_def REF_LOC_UNKNOWN_def REF_LOC_DRAM_def REF_LOC_PMEM_def
  REF_LOC_ALL_def REF_LOC_MAX_def

text \<open>\<open>sys_refs_count\<close> is shared by all scans: page type, location, number of references.\<close>

type_synonym histogram = "nat \<Rightarrow> u64 list"
type_synonym sys_refs = "nat \<Rightarrow> histogram"

record ept_scan =
  es_idle :: idle_pages
  es_numa :: numa_collection

section \<open>Statistics of a walk\<close>

text \<open>Young, PMEM young, top and all bytes of the three arrays.\<close>

record walk_stats =
  ws_young :: u64
  ws_pmem_young :: u64
  ws_top :: u64
  ws_all :: u64

definition gather_walk_stats :: "idle_pages \<Rightarrow> walk_stats \<Rightarrow> walk_stats" where
  "gather_walk_stats s w =
     (if io_error s \<noteq> 0 then w
      else let seqs = map (\<lambda>i. page_refs (pagetype_refs s i)) [0..<MAX_ACCESSED + 1];
               y = sum_list (map get_young_bytes seqs);
               py = sum_list (map (\<lambda>q. young_bytes q LOC_PMEM) seqs);
               t = sum_list (map get_top_bytes seqs);
               a = sum_list (map (\<lambda>q. push_bit (pageshift q) (addr_size q)) seqs)
           in w\<lparr>ws_young := ws_young w + y, ws_pmem_young := ws_pmem_young w + py,
                ws_top := ws_top w + t, ws_all := ws_all w + a\<rparr>)"

definition no_stats :: walk_stats where
  "no_stats = \<lparr>ws_young = 0, ws_pmem_young = 0, ws_top = 0, ws_all = 0\<rparr>"

definition should_stop :: "int \<Rightarrow> idle_pages \<Rightarrow> bool" where
  "should_stop dram_percent s =
     (if dram_percent = 0 then False
      else if ip_nr_walks s \<le> 2 then False
      else let w = gather_walk_stats s no_stats
           in 2 * 100 * ws_top w < word_of_int dram_percent * ws_all w)"

section \<open>Repeated walks\<close>

definition prepare_walks :: "idle_pages \<Rightarrow> idle_pages" where
  "prepare_walks s =
     s\<lparr>ip_nr_walks := 0,
       pagetype_refs := (\<lambda>type. if type \<le> MAX_ACCESSED
         then (pagetype_refs s type)
           \<lparr>page_refs := set_pageshift (as_clear (page_refs (pagetype_refs s type))) (pagetype_shift type),
            histogram_2d := (\<lambda>_. [])\<rparr>
         else pagetype_refs s type)\<rparr>"

text \<open>
  The loop of \<open>walk_multi\<close> with the number of walks that remain; \<open>load\<close> reads the memory map anew
  for each walk. Sleeping between walks is not modelled.
\<close>

fun walk_rounds ::
    "'d idle_ops \<Rightarrow> int \<Rightarrow> ('d \<Rightarrow> proc_maps_entry list \<times> 'd) \<Rightarrow> bool \<Rightarrow> int \<Rightarrow> nat \<Rightarrow> 'd \<Rightarrow> idle_pages \<Rightarrow>
     (int \<times> 'd \<times> idle_pages) option" where
  "walk_rounds ops max_threads load auto_stop dram_percent 0 d s = Some (0, d, s)"
| "walk_rounds ops max_threads load auto_stop dram_percent (Suc k) d s =
     (let (maps, d) = load d
      in do { (err, d, s) \<leftarrow> walk ops max_threads maps d s;
              if err < 0 then Some (err, d, s)
              else if auto_stop \<and> should_stop dram_percent s then Some (0, d, s)
              else walk_rounds ops max_threads load auto_stop dram_percent k d s })"

definition max_walks :: int where "max_walks = 30"

definition walk_multi ::
    "'d idle_ops \<Rightarrow> int \<Rightarrow> ('d \<Rightarrow> proc_maps_entry list \<times> 'd) \<Rightarrow> int \<Rightarrow> int \<Rightarrow> 'd \<Rightarrow> idle_pages \<Rightarrow>
     (int \<times> 'd \<times> idle_pages) option" where
  "walk_multi ops max_threads load dram_percent nr d s =
     (let (maps, d) = load d
      in if maps = [] then Some (- ENOENT, d, s\<lparr>io_error := - ENOENT\<rparr>)
         else let (nr, auto_stop) = (if nr > 0xff then (0xff, False)
                                     else if nr = 0 then (max_walks, True) else (nr, False))
              in walk_rounds ops max_threads load auto_stop dram_percent (nat nr) d (prepare_walks s))"

section \<open>Histograms\<close>

definition reset_one_ref_count :: "int \<Rightarrow> histogram" where
  "reset_one_ref_count node_size = (\<lambda>_. replicate (nat node_size) 0)"

definition reset_sys_refs_count :: "int \<Rightarrow> sys_refs" where
  "reset_sys_refs_count nw = (\<lambda>_. reset_one_ref_count (nw + 1))"

text \<open>\<open>h[row][col] += n\<close>; the array has \<open>REF_LOC_MAX\<close> rows.\<close>

definition add_cell :: "nat \<Rightarrow> nat \<Rightarrow> u64 \<Rightarrow> histogram \<Rightarrow> histogram run" where
  "add_cell row col n h =
     (if row < REF_LOC_MAX \<and> col < length (h row)
      then Inr (h(row := (h row)[col := h row ! col + n])) else Inl Bad_index)"

definition ref_row :: "int \<Rightarrow> nat" where
  "ref_row nid = (if nid \<ge> 0 then nat nid else REF_LOC_UNKNOWN)"

text \<open>\<open>std::min(ref_count, (uint8_t)nw)\<close>\<close>

definition ref_col :: "int \<Rightarrow> u8 \<Rightarrow> nat" where
  "ref_col nw p = unat (min p (word_of_int nw))"

definition count_item :: "int \<Rightarrow> u64 \<times> u8 \<times> int \<Rightarrow> histogram run \<Rightarrow> histogram run" where
  "count_item nw x h =
     (case x of (addr, p, nid) \<Rightarrow> rbind h (add_cell (ref_row nid) (ref_col nw p) 1))"

definition add_row :: "nat \<Rightarrow> nat \<Rightarrow> nat \<Rightarrow> histogram \<Rightarrow> histogram run" where
  "add_row cols to from h =
     rfold (\<lambda>j h. if j < length (h from) then add_cell to j (h from ! j) h else Inl Bad_index) [0..<cols] h"

definition count_node :: "numa_collection \<Rightarrow> nat \<Rightarrow> nat \<Rightarrow> histogram \<Rightarrow> histogram run" where
  "count_node c cols i h =
     (if \<not> is_valid_nid c (int i) then Inr h
      else rbind (node_of c (int i)) (\<lambda>n.
           let loc = (if is_pmem n then REF_LOC_PMEM else REF_LOC_DRAM)
           in rfold (\<lambda>j h. if j < length (h i)
                then rbind (add_cell loc j (h i ! j) h) (add_cell REF_LOC_ALL j (h i ! j))
                else Inl Bad_index) [0..<cols] h))"

definition count_refs_one :: "numa_collection \<Rightarrow> int \<Rightarrow> proc_idle_refs \<Rightarrow> proc_idle_refs run option" where
  "count_refs_one c nw prc =
     (let h = reset_one_ref_count (nw + 1); cols = nat (nw + 1)
      in do { (h, s) \<leftarrow> visit_fold (count_item nw) (Inr h) (page_refs prc);
              Some (rbind h (\<lambda>h.
                    rbind (rfold (count_node c cols) [0..<nat MAX_NID + 1] h) (\<lambda>h.
                    rbind (add_row cols REF_LOC_ALL REF_LOC_UNKNOWN h) (\<lambda>h.
                      Inr \<lparr>page_refs = s, histogram_2d = h\<rparr>)))) })"

definition add_sys_row :: "int \<Rightarrow> histogram \<Rightarrow> nat \<Rightarrow> histogram \<Rightarrow> histogram run" where
  "add_sys_row nw h j src =
     rfold (\<lambda>i src. if i < length (h j) then add_cell j i (h j ! i) src else Inl Bad_index)
       [0..<nat (nw + 1)] src"

fun count_refs_types ::
    "numa_collection \<Rightarrow> int \<Rightarrow> nat list \<Rightarrow> refs_array \<Rightarrow> sys_refs \<Rightarrow> (refs_array \<times> sys_refs) run option" where
  "count_refs_types c nw [] refs sys = Some (Inr (refs, sys))"
| "count_refs_types c nw (type # types) refs sys =
     do { r \<leftarrow> count_refs_one c nw (refs type);
          case rbind r (\<lambda>prc. rbind (rfold (add_sys_row nw (histogram_2d prc)) [0..<REF_LOC_MAX] (sys type))
                                (\<lambda>src. Inr (prc, src))) of
            Inl e \<Rightarrow> Some (Inl e)
          | Inr (prc, src) \<Rightarrow> count_refs_types c nw types (refs(type := prc)) (sys(type := src)) }"

definition count_refs :: "ept_scan \<Rightarrow> sys_refs \<Rightarrow> (ept_scan \<times> sys_refs) run option" where
  "count_refs e sys =
     (if io_error (es_idle e) \<noteq> 0 then Some (Inr (e, sys))
      else do { r \<leftarrow> count_refs_types (es_numa e) (ip_nr_walks (es_idle e)) [0..<MAX_ACCESSED + 1]
                      (pagetype_refs (es_idle e)) sys;
                Some (rbind r (\<lambda>(refs, sys). Inr (e\<lparr>es_idle := (es_idle e)\<lparr>pagetype_refs := refs\<rparr>\<rparr>, sys))) })"

section \<open>Reports\<close>

text \<open>
  The numbers that \<open>save_counts\<close> prints: for each reference count, from the largest down, the
  memory in KB per page type, then the sums per type and the total.
\<close>

definition counted_types :: "nat list" where
  "counted_types = [PTE_ACCESSED, PMD_ACCESSED, PUD_PRESENT]"

definition refs_kb :: "sys_refs \<Rightarrow> nat \<Rightarrow> nat \<Rightarrow> u64" where
  "refs_kb sys type i = sys type REF_LOC_ALL ! i * drop_bit 10 (pagetype_size type)"

definition save_counts_rows :: "sys_refs \<Rightarrow> (nat \<times> u64 list) list" where
  "save_counts_rows sys =
     map (\<lambda>i. (i, map (\<lambda>type. refs_kb sys type i) counted_types))
       (rev [0..<length (sys PTE_ACCESSED REF_LOC_ALL)])"

definition save_counts_sums :: "sys_refs \<Rightarrow> u64 list \<times> u64" where
  "save_counts_sums sys =
     (let sums = map (\<lambda>k. sum_list (map (\<lambda>r. snd r ! k) (save_counts_rows sys))) [0..<3]
      in (sums, sum_list sums))"

definition get_total_memory_page_count :: "sys_refs \<Rightarrow> nat \<Rightarrow> nat \<Rightarrow> u64" where
  "get_total_memory_page_count sys type location =
     (if location \<ge> REF_LOC_MAX then 0 else sum_list (sys type location))"

section \<open>Locating the pages\<close>

text \<open>
  \<open>locator\<close> stands for \<open>MovePages::move_pages\<close> without target nodes: a return value and the node
  (or negative error) of each address.
\<close>

definition node_location :: "numa_collection \<Rightarrow> int \<Rightarrow> int run" where
  "node_location c nid =
     (if nid < 0 then Inr LOC_UNKNOW
      else rbind (get_node c nid) (\<lambda>p. case p of
             None \<Rightarrow> Inr LOC_UNKNOW
           | Some q \<Rightarrow> rbind (deref c p) (\<lambda>n. Inr (if is_pmem n then LOC_PMEM else LOC_DRAM))))"

definition clamp_nid :: "int \<Rightarrow> int run" where
  "clamp_nid nid =
     (let nid = (if nid < - 128 then - 128 else nid)
      in if nid > MAX_NID then Inl Exit_called else Inr nid)"

fun update_nodes :: "numa_collection \<Rightarrow> (u64 \<times> int) list \<Rightarrow> addr_seq \<Rightarrow> addr_seq run option" where
  "update_nodes c [] s = Some (Inr s)"
| "update_nodes c ((addr, nid) # xs) s =
     (case rbind (clamp_nid nid) (\<lambda>nid. rbind (node_location c nid) (\<lambda>loc. Inr (nid, loc))) of
        Inl e \<Rightarrow> Some (Inl e)
      | Inr (nid, loc) \<Rightarrow> do { (rc, s) \<leftarrow> update_nodeid s addr (int8_of nid) loc; update_nodes c xs s })"

definition get_memory_type_range ::
    "(u64 list \<Rightarrow> int \<times> int list) \<Rightarrow> numa_collection \<Rightarrow> u64 list \<Rightarrow> addr_seq \<Rightarrow> addr_seq run option" where
  "get_memory_type_range locator c as s =
     (if as = [] then Some (Inr s)
      else let (ret, nids) = locator as
           in if ret < 0 then Some (Inr s) else update_nodes c (zip as nids) s)"

definition memory_type_step ::
    "(u64 list \<Rightarrow> int \<times> int list) \<Rightarrow> numa_collection \<Rightarrow> u64 \<times> u8 \<times> int \<Rightarrow> u64 list run \<Rightarrow> addr_seq \<Rightarrow>
     (u64 list run \<times> addr_seq) option" where
  "memory_type_step locator c x pending s =
     (case pending of
        Inl e \<Rightarrow> Some (Inl e, s)
      | Inr addr_set \<Rightarrow>
          let addr_set = addr_set @ [fst x]
          in if length addr_set \<ge> 1024
             then do { r \<leftarrow> get_memory_type_range locator c addr_set s;
                       case r of Inl e \<Rightarrow> Some (Inl e, s) | Inr s \<Rightarrow> Some (Inr [], s) }
             else Some (Inr addr_set, s))"

definition get_memory_type_one ::
    "(u64 list \<Rightarrow> int \<times> int list) \<Rightarrow> numa_collection \<Rightarrow> addr_seq \<Rightarrow> addr_seq run option" where
  "get_memory_type_one locator c s =
     do { (pending, s) \<leftarrow> visit_all (memory_type_step locator c) (Inr []) (prepare_update s);
          case pending of
            Inl e \<Rightarrow> Some (Inl e)
          | Inr addr_set \<Rightarrow> get_memory_type_range locator c addr_set s }"

fun get_memory_type_types ::
    "(u64 list \<Rightarrow> int \<times> int list) \<Rightarrow> numa_collection \<Rightarrow> nat list \<Rightarrow> refs_array \<Rightarrow> refs_array run option" where
  "get_memory_type_types locator c [] refs = Some (Inr refs)"
| "get_memory_type_types locator c (i # is) refs =
     do { r \<leftarrow> get_memory_type_one locator c (page_refs (refs i));
          case r of
            Inl e \<Rightarrow> Some (Inl e)
          | Inr s \<Rightarrow> get_memory_type_types locator c is (set_page_refs refs i s) }"

definition get_memory_type :: "(u64 list \<Rightarrow> int \<times> int list) \<Rightarrow> ept_scan \<Rightarrow> ept_scan run option" where
  "get_memory_type locator e =
     do { r \<leftarrow> get_memory_type_types locator (es_numa e) [0..<MAX_ACCESSED + 1] (pagetype_refs (es_idle e));
          Some (rbind r (\<lambda>refs. Inr (e\<lparr>es_idle := (es_idle e)\<lparr>pagetype_refs := refs\<rparr>\<rparr>))) }"

end
