(* ===== verification/Move_Pages.thy ===== *)
theory Move_Pages
  imports EPT_Scan "HOL-Library.Multiset"
begin

text \<open>
  Moving pages between nodes: \<open>MovePages.h\<close>, \<open>MovePages.cc\<close>, the DRAM quota of a process
  (\<open>PidContext.h\<close>) and the counting maps of \<open>lib/stats.h\<close>. The system call \<open>move_pages\<close> is a
  parameter; pausing the thread to limit the bandwidth is not modelled.
\<close>

unbundle bit_operations_syntax

section \<open>Counting maps\<close>

text \<open>An \<open>unordered_map<int, unsigned long>\<close>; nothing depends on the order of its entries.\<close>

type_synonym counts = "(int \<times> u64) list"

fun add_count :: "counts \<Rightarrow> int \<Rightarrow> u64 \<Rightarrow> counts" where
  "add_count [] key n = [(key, n)]"
| "add_count ((k, v) # m) key n = (if k = key then (k, v + n) # m else (k, v) # add_count m key n)"

definition inc_count :: "counts \<Rightarrow> int \<Rightarrow> counts" where
  "inc_count m key = add_count m key 1"

text \<open>\<open>percent\<close> on \<open>unsigned long\<close>: the result is an \<open>int\<close>, the product wraps.\<close>

definition percent :: "u64 \<Rightarrow> u64 \<Rightarrow> int" where
  "percent n tot = (if n = 0 \<or> tot = 0 then 0 else sint (ucast (n * 100 div tot) :: u32))"

section \<open>The statistics of moves\<close>

record move_stats =
  to_move_kb :: u64
  skip_kb :: u64
  move_kb :: u64
  move_page_status :: counts

definition default_failed :: int where "default_failed = - 128"

definition stats_clear :: move_stats where
  "stats_clear = \<lparr>to_move_kb = 0, skip_kb = 0, move_kb = 0, move_page_status = []\<rparr>"

definition stats_add :: "move_stats \<Rightarrow> move_stats \<Rightarrow> move_stats" where
  "stats_add s t = s\<lparr>to_move_kb := to_move_kb s + to_move_kb t, skip_kb := skip_kb s + skip_kb t,
                     move_kb := move_kb s + move_kb t\<rparr>"

definition is_page_moved :: "int \<Rightarrow> int \<Rightarrow> int \<Rightarrow> bool" where
  "is_page_moved from_node to_node move_state \<longleftrightarrow>
     from_node \<ge> 0 \<and> from_node \<noteq> to_node \<and> to_node = move_state"

definition is_page_move_failed :: "int \<Rightarrow> int \<Rightarrow> int \<Rightarrow> bool" where
  "is_page_move_failed from_node to_node move_state \<longleftrightarrow>
     from_node \<ge> 0 \<and> from_node \<noteq> to_node \<and> move_state < 0"

text \<open>Three small numbers in one key; the shifts of negative numbers are arithmetic.\<close>

definition box_movestate :: "int \<Rightarrow> int \<Rightarrow> int \<Rightarrow> int" where
  "box_movestate status target_node result =
     push_bit 0 status + push_bit 8 target_node + push_bit 16 result"

definition unbox_movestate :: "int \<Rightarrow> int \<times> int \<times> int" where
  "unbox_movestate key =
     (int8_of (drop_bit 0 key AND 0xff), int8_of (drop_bit 8 key AND 0xff), int8_of (drop_bit 16 key AND 0xff))"

definition save_move_states :: "int \<Rightarrow> int \<Rightarrow> int \<Rightarrow> nat \<Rightarrow> move_stats \<Rightarrow> move_stats" where
  "save_move_states status target_node after page_shift s =
     s\<lparr>move_page_status := add_count (move_page_status s) (box_movestate status target_node after)
         (push_bit page_shift 1)\<rparr>"

definition get_moved_bytes :: "move_stats \<Rightarrow> u64" where
  "get_moved_bytes s =
     (\<Sum>(key, bytes)\<leftarrow>move_page_status s.
        case unbox_movestate key of (f, t, r) \<Rightarrow> if is_page_moved f t r then bytes else 0)"

text \<open>
  The arguments \<open>from_nid\<close> and \<open>target_nid\<close> are the arrays from the start of the batch on; the
  loop runs over the results.
\<close>

fun save_states_loop :: "nat \<Rightarrow> int list \<Rightarrow> int list \<Rightarrow> int list \<Rightarrow> u64 \<Rightarrow> u64 \<Rightarrow> move_stats \<Rightarrow>
    (u64 \<times> u64 \<times> move_stats) run" where
  "save_states_loop page_shift [] fs ts mkb skb s = Inr (mkb, skb, s)"
| "save_states_loop page_shift (r # rs) (f # fs) (t # ts) mkb skb s =
     (let (mkb, skb) = (if r = t \<and> f \<noteq> t then (mkb + 1, skb) else (mkb, skb + 1))
      in save_states_loop page_shift rs fs ts mkb skb (save_move_states f t r page_shift s))"
| "save_states_loop page_shift (r # rs) fs ts mkb skb s = Inl Bad_index"

definition save_migrate_states :: "nat \<Rightarrow> int list \<Rightarrow> int list \<Rightarrow> int list \<Rightarrow> move_stats \<Rightarrow> move_stats run" where
  "save_migrate_states page_shift from_nid target_nid migrate_result s =
     (let shift = page_shift - 10
      in rbind (save_states_loop page_shift migrate_result from_nid target_nid 0 0 s)
           (\<lambda>(mkb, skb, s).
              let mkb = push_bit shift mkb; skb = push_bit shift skb
              in Inr (s\<lparr>move_kb := move_kb s + mkb, skip_kb := skip_kb s + skb,
                        to_move_kb := to_move_kb s + (mkb + skb)\<rparr>)))"

section \<open>The mover\<close>

record mover =
  mv_page_shift :: nat
  batch_size :: u64
  status :: "int list"
  status_after_move :: "int list"
  target_nodes :: "int list"
  status_count :: counts
  mv_type :: page_type

definition vec_resize :: "nat \<Rightarrow> 'a \<Rightarrow> 'a list \<Rightarrow> 'a list" where
  "vec_resize n d xs = take n xs @ replicate (n - length xs) d"

text \<open>
  The system call: its state, the addresses, the target nodes (none to locate pages) and the
  array of results before the call give the return value and the array after it.
\<close>

type_synonym 'k move_call = "'k \<Rightarrow> u64 list \<Rightarrow> int list option \<Rightarrow> int list \<Rightarrow> int \<times> int list \<times> 'k"

definition MovePages_ctor :: "mover \<Rightarrow> mover" where
  "MovePages_ctor raw =
     raw\<lparr>mv_page_shift := PAGE_SHIFT, batch_size := - 1, status := [], status_after_move := [],
         target_nodes := [], status_count := []\<rparr>"

text \<open>\<open>move_pages(addrs, move_status, count, is_locate)\<close>; \<open>targets\<close> is the member \<open>target_nodes\<close>.\<close>

definition move_pages_status ::
    "'k move_call \<Rightarrow> int list \<Rightarrow> u64 list \<Rightarrow> bool \<Rightarrow> 'k \<Rightarrow> int list \<Rightarrow> int \<times> int list \<times> 'k" where
  "move_pages_status sys targets as is_locate k st =
     (if \<not> is_locate then sys k as (Some targets) (vec_resize (length as) default_failed st)
      else sys k as None (vec_resize (length as) 0 st))"

text \<open>\<open>move_pages(addrs, target_nid, size)\<close>.\<close>

definition move_pages_to ::
    "'k move_call \<Rightarrow> u64 list \<Rightarrow> int list \<Rightarrow> 'k \<Rightarrow> mover \<Rightarrow> int \<times> 'k \<times> mover" where
  "move_pages_to sys as target_nid k m =
     (let (ret, st, k) = sys k as (Some target_nid) (vec_resize (length as) default_failed (status_after_move m));
          m = m\<lparr>status_after_move := st\<rparr>
      in if ret > 0
         then let (_, st, k) = move_pages_status sys (target_nodes m) as True k (status_after_move m)
              in (ret, k, m\<lparr>status_after_move := st\<rparr>)
         else (ret, k, m))"

section \<open>Choosing the targets\<close>

definition get_target_node :: "numa_collection \<Rightarrow> page_type \<Rightarrow> node_ptr option \<Rightarrow> int run" where
  "get_target_node c type p =
     (case p of
        None \<Rightarrow> Inr (- 1)
      | Some _ \<Rightarrow> rbind (deref c p) (\<lambda>n.
          let is_dram_to_dram = (type \<le> MAX_ACCESSED \<and> \<not> is_pmem n);
              is_pmem_to_pmem = (\<not> (type \<le> MAX_ACCESSED) \<and> is_pmem n)
          in if is_dram_to_dram \<or> is_pmem_to_pmem then Inr (nn_id n)
             else case get_peer_node n of
                    None \<Rightarrow> Inr (- 2)
                  | Some q \<Rightarrow> rbind (deref c (Some q)) (\<lambda>peer. Inr (nn_id peer))))"

definition is_node_in_target_set :: "numa_collection \<Rightarrow> page_type \<Rightarrow> int \<Rightarrow> bool run" where
  "is_node_in_target_set c type nid =
     (if nid < 0 then Inr False
      else rbind (get_node c nid) (\<lambda>p. case p of
             None \<Rightarrow> Inr False
           | Some _ \<Rightarrow> rbind (deref c p) (\<lambda>n.
               Inr (if type \<le> MAX_ACCESSED then \<not> is_pmem n else is_pmem n))))"

fun find_last_good_from :: "int list \<Rightarrow> nat \<Rightarrow> nat \<Rightarrow> nat" where
  "find_last_good_from st end_pos i =
     (if i > end_pos then if st ! i \<ge> 0 then i else find_last_good_from st end_pos (i - 1) else end_pos)"

declare find_last_good_from.simps [simp del]

definition find_last_good :: "int list \<Rightarrow> nat \<Rightarrow> nat" where
  "find_last_good st end_pos = find_last_good_from st end_pos (length st - 1)"

definition list_swap :: "nat \<Rightarrow> nat \<Rightarrow> 'a list \<Rightarrow> 'a list" where
  "list_swap i j xs = xs[i := xs ! j, j := xs ! i]"

lemma length_list_swap [simp]: "length (list_swap i j xs) = length xs"
  by (simp add: list_swap_def)

lemma find_last_good_from_range:
  "end_pos \<le> find_last_good_from st end_pos i \<and> find_last_good_from st end_pos i \<le> max end_pos i \<and>
     (find_last_good_from st end_pos i \<noteq> end_pos \<longrightarrow> 0 \<le> st ! find_last_good_from st end_pos i) \<and>
     (\<forall>j. find_last_good_from st end_pos i < j \<and> j \<le> i \<longrightarrow> st ! j < 0)"
proof (induction st end_pos i rule: find_last_good_from.induct)
  case (1 st e i)
  show ?case
  proof (cases "i > e \<and> st ! i < 0")
    case True
    then have "find_last_good_from st e i = find_last_good_from st e (i - 1)"
      by (subst find_last_good_from.simps) simp
    moreover have "j \<le> i - 1 \<or> j = i" if "j \<le> i" for j using that by auto
    ultimately show ?thesis using 1 True by fastforce
  next
    case False
    then have "find_last_good_from st e i = (if i > e then i else e)"
      by (subst find_last_good_from.simps) auto
    then show ?thesis using False by auto
  qed
qed

lemma find_last_good_range:
  assumes "i < length st"
  shows "i \<le> find_last_good st i" "find_last_good st i < length st"
    "find_last_good st i \<noteq> i \<Longrightarrow> 0 \<le> st ! find_last_good st i"
    "find_last_good st i < j \<Longrightarrow> j < length st \<Longrightarrow> st ! j < 0"
  using find_last_good_from_range [of i st "length st - 1"] assms
  by (auto simp: find_last_good_def)

text \<open>
  The loop of \<open>calc_target_nodes\<close> gathers the pages that have a node at the front; it swaps the
  addresses of the caller along.
\<close>

function calc_targets_loop :: "numa_collection \<Rightarrow> page_type \<Rightarrow> nat \<Rightarrow> nat \<Rightarrow> u64 list \<Rightarrow> int list \<Rightarrow> int list \<Rightarrow>
    (u64 list \<times> int list \<times> int list) run" where
  "calc_targets_loop c type n i as st ts =
     (if i < n then
        if i < length st \<and> length st \<le> length as \<and> length st \<le> length ts then
          if st ! i \<ge> 0 then
            rbind (rbind (get_node c (st ! i)) (get_target_node c type))
              (\<lambda>t. calc_targets_loop c type n (i + 1) as st (ts[i := t]))
          else let good = find_last_good st i
               in if good = i then Inr (as, st, ts)
                  else calc_targets_loop c type n i (list_swap i good as) (list_swap i good st) ts
        else Inl Bad_index
      else Inr (as, st, ts))"
  by pat_completeness auto
termination
proof (relation "measure (\<lambda>(c, type, n, i, as, st, ts). 2 * (n - i) + (if st ! i < 0 then 1 else 0))", goal_cases)
  case (3 c type n i as st ts good)
  then have "0 \<le> st ! good" "good < length st" using find_last_good_range [of i st] by auto
  then have "0 \<le> list_swap i good st ! i" using 3 by (simp add: list_swap_def nth_list_update)
  then show ?case using 3 by simp
qed auto

declare calc_targets_loop.simps [simp del]

definition calc_target_nodes :: "numa_collection \<Rightarrow> u64 list \<Rightarrow> mover \<Rightarrow> (u64 list \<times> mover) run" where
  "calc_target_nodes c as m =
     rbind (calc_targets_loop c (mv_type m) (length as) 0 as (status m)
              (vec_resize (length as) 0 (target_nodes m)))
       (\<lambda>(as, st, ts). Inr (as, m\<lparr>status := st, target_nodes := ts\<rparr>))"

section \<open>Accounting\<close>

definition calc_status_count :: "mover \<Rightarrow> mover" where
  "calc_status_count m = m\<lparr>status_count := foldl inc_count (status_count m) (status m)\<rparr>"

definition add_status_count_to :: "mover \<Rightarrow> counts \<Rightarrow> counts" where
  "add_status_count_to m status_sum = foldl (\<lambda>s (k, v). add_count s k v) status_sum (status_count m)"

definition account_step :: "numa_collection \<Rightarrow> page_type \<Rightarrow> nat \<Rightarrow> int \<times> u64 \<Rightarrow> u64 \<times> u64 \<Rightarrow> (u64 \<times> u64) run" where
  "account_step c type shift kv acc =
     (case (kv, acc) of ((nid, n), (skb, mkb)) \<Rightarrow>
        if nid < 0 then Inr (skb, mkb)
        else rbind (is_node_in_target_set c type nid) (\<lambda>there.
               if there then Inr (skb + push_bit shift n, mkb)
               else if nid \<ge> 0 then Inr (skb, mkb + push_bit shift n) else Inr (skb, mkb)))"

definition account_stats_count :: "numa_collection \<Rightarrow> mover \<Rightarrow> move_stats \<Rightarrow> move_stats run" where
  "account_stats_count c m stats =
     rbind (rfold (account_step c (mv_type m) (mv_page_shift m - 10)) (status_count m) (0, 0))
       (\<lambda>(skb, mkb). Inr (stats\<lparr>to_move_kb := to_move_kb stats + (skb + mkb),
                                skip_kb := skip_kb stats + skb, move_kb := move_kb stats + mkb\<rparr>))"

definition memory_state_step :: "numa_collection \<Rightarrow> nat \<Rightarrow> int \<times> u64 \<Rightarrow> u64 \<times> u64 \<times> u64 \<Rightarrow> (u64 \<times> u64 \<times> u64) run" where
  "memory_state_step c shift kv acc =
     (case (kv, acc) of ((nid, n), (tot, dram, pmem)) \<Rightarrow>
        let kb = push_bit shift n
        in if nid < 0 then Inr acc
           else rbind (get_node c nid) (\<lambda>p. case p of
                  None \<Rightarrow> Inr acc
                | Some _ \<Rightarrow> rbind (deref c p) (\<lambda>nd. Inr (case nn_type nd of
                      NUMA_NODE_DRAM \<Rightarrow> (tot + kb, dram + kb, pmem)
                    | NUMA_NODE_PMEM \<Rightarrow> (tot + kb, dram, pmem + kb)
                    | NUMA_NODE_END \<Rightarrow> (tot + kb, dram, pmem)))))"

definition calc_memory_state :: "numa_collection option \<Rightarrow> nat \<Rightarrow> counts \<Rightarrow> (u64 \<times> u64 \<times> u64) run" where
  "calc_memory_state oc page_shift status_sum =
     (case oc of None \<Rightarrow> Inr (0, 0, 0)
      | Some c \<Rightarrow> rfold (memory_state_step c (page_shift - 10)) status_sum (0, 0, 0))"

fun calc_and_save_loop :: "nat \<Rightarrow> int list \<Rightarrow> int list \<Rightarrow> int list \<Rightarrow> int \<Rightarrow> move_stats \<Rightarrow> (int \<times> move_stats) run" where
  "calc_and_save_loop page_shift [] ts rs moved stats = Inr (moved, stats)"
| "calc_and_save_loop page_shift (f # fs) (t # ts) (r # rs) moved stats =
     calc_and_save_loop page_shift fs ts rs
       (if is_page_moved f t r then moved + push_bit page_shift 1 else moved)
       (save_move_states f t r page_shift stats)"
| "calc_and_save_loop page_shift (f # fs) ts rs moved stats = Inl Bad_index"

definition calc_and_save_state :: "mover \<Rightarrow> move_stats \<Rightarrow> (int \<times> move_stats) run" where
  "calc_and_save_state m stats =
     calc_and_save_loop (mv_page_shift m) (status m) (target_nodes m) (status_after_move m) 0 stats"

section \<open>Moving in batches under a quota\<close>

text \<open>The context of a process, when there is one, is its DRAM quota in KB.\<close>

definition is_exceed_dram_quota :: "int option \<Rightarrow> bool" where
  "is_exceed_dram_quota ctx = (case ctx of None \<Rightarrow> False | Some quota \<Rightarrow> quota \<le> 0)"

definition dec_dram_quota :: "int \<Rightarrow> int option \<Rightarrow> int option" where
  "dec_dram_quota dec_value ctx = map_option (\<lambda>quota. quota - dec_value) ctx"

text \<open>One batch: \<open>None\<close> when locating failed, else the bytes moved and the addresses reordered.\<close>

definition move_batch ::
    "'k move_call \<Rightarrow> numa_collection \<Rightarrow> u64 list \<Rightarrow> 'k \<Rightarrow> mover \<Rightarrow> move_stats \<Rightarrow>
     (int \<times> 'k \<times> mover \<times> move_stats \<times> (int \<times> u64 list) option) run" where
  "move_batch sys c as k m stats =
     (let (ret, st, k) = move_pages_status sys (target_nodes m) as True k (status m);
          m = m\<lparr>status := st\<rparr>
      in if ret \<noteq> 0 then Inr (ret, k, m, stats, None)
         else rbind (calc_target_nodes c as m) (\<lambda>(as, m).
              let m = calc_status_count (m\<lparr>status_count := []\<rparr>)
              in rbind (account_stats_count c m stats) (\<lambda>stats.
                 let (ret, st, k) = move_pages_status sys (target_nodes m) as False k (status_after_move m);
                     m = m\<lparr>status_after_move := st\<rparr>;
                     (k, m) = (if ret > 0
                        then let (_, st, k) = move_pages_status sys (target_nodes m) as True k (status_after_move m)
                             in (k, m\<lparr>status_after_move := st\<rparr>)
                        else (k, m))
                 in rbind (calc_and_save_state m stats) (\<lambda>(moved, stats).
                      Inr (ret, k, m, stats, Some (moved, as))))))"

partial_function (option) locate_move_loop ::
    "'k move_call \<Rightarrow> numa_collection \<Rightarrow> u64 \<Rightarrow> int \<Rightarrow> int option \<Rightarrow> u64 list \<Rightarrow> 'k \<Rightarrow> mover \<Rightarrow> move_stats \<Rightarrow>
     (int \<times> int option \<times> u64 list \<times> 'k \<times> mover \<times> move_stats) run option" where
  "locate_move_loop sys c i ret ctx as k m stats =
     (let nr_pages = of_nat (length as)
      in if i < nr_pages then
           let n = unat (min (batch_size m) (nr_pages - i)); b = unat i
           in if is_exceed_dram_quota ctx then Some (Inr (0, ctx, as, k, m, stats))
              else case move_batch sys c (take n (drop b as)) k m stats of
                     Inl e \<Rightarrow> Some (Inl e)
                   | Inr (ret, k, m, stats, None) \<Rightarrow> Some (Inr (ret, ctx, as, k, m, stats))
                   | Inr (ret, k, m, stats, Some (moved, batch)) \<Rightarrow>
                       locate_move_loop sys c (i + batch_size m) ret (dec_dram_quota (drop_bit 10 moved) ctx)
                         (take b as @ batch @ drop (b + n) as) k m stats
         else Some (Inr (ret, ctx, as, k, m, stats)))"

definition locate_move_pages ::
    "'k move_call \<Rightarrow> numa_collection \<Rightarrow> int option \<Rightarrow> u64 list \<Rightarrow> 'k \<Rightarrow> mover \<Rightarrow> move_stats \<Rightarrow>
     (int \<times> int option \<times> u64 list \<times> 'k \<times> mover \<times> move_stats) run option" where
  "locate_move_pages sys c ctx as k m stats = locate_move_loop sys c 0 0 ctx as k m stats"

end
