(* ===== verification/Ept_Migrate.thy ===== *)
theory Ept_Migrate
  imports Move_Pages Addr_Sequence_Protocol
begin

text \<open>
  Migrating the pages of one process: \<open>EPTMigrate.h\<close> and \<open>EPTMigrate.cc\<close>, with the memory
  statistics of \<open>ProcVmstat.cc\<close> it divides the pages by. The contents of the \<open>vmstat\<close> files, the
  system call and the result of the floating-point scaling are parameters; the report that is
  printed, the profiling script and pausing are not modelled.
\<close>

unbundle bit_operations_syntax

section \<open>Memory statistics\<close>

type_synonym vmstat_map = "string \<Rightarrow> u64 option"

text \<open>\<open>None\<close> is an empty map; \<open>numa_vmstat\<close> has one map per node.\<close>

record proc_vmstat =
  pv_proc :: "vmstat_map option"
  pv_numa :: "vmstat_map option list"

record vmstat_files =
  vf_proc :: "vmstat_map option"
  vf_node :: "nat \<Rightarrow> vmstat_map option"
  vf_max_node :: int

text \<open>A line that \<open>sscanf\<close> splits into a key and a number; other lines are skipped.\<close>

definition parse_vmstat :: "(string \<Rightarrow> (string \<times> u64) option) \<Rightarrow> string list option \<Rightarrow> vmstat_map option" where
  "parse_vmstat scan lines =
     (case lines of None \<Rightarrow> None
      | Some ls \<Rightarrow> foldl (\<lambda>m l. case scan l of None \<Rightarrow> m
                                 | Some (key, v) \<Rightarrow> Some ((case m of None \<Rightarrow> Map.empty | Some f \<Rightarrow> f)(key \<mapsto> v)))
                    None ls)"

definition load_vmstat :: "vmstat_files \<Rightarrow> proc_vmstat \<Rightarrow> bool \<times> proc_vmstat" where
  "load_vmstat fs v = (vf_proc fs = None, v\<lparr>pv_proc := vf_proc fs\<rparr>)"

definition load_numa_vmstat :: "vmstat_files \<Rightarrow> proc_vmstat \<Rightarrow> int \<times> proc_vmstat" where
  "load_numa_vmstat fs v =
     (let maps = map (vf_node fs) [0..<nat (vf_max_node fs + 1)]
      in (int (length (filter (\<lambda>m. m = None) maps)), v\<lparr>pv_numa := maps\<rparr>))"

definition map_at_key :: "vmstat_map option \<Rightarrow> string \<Rightarrow> u64 run" where
  "map_at_key m name =
     (case m of None \<Rightarrow> Inl Out_of_range
      | Some f \<Rightarrow> (case f name of None \<Rightarrow> Inl Out_of_range | Some v \<Rightarrow> Inr v))"

definition vmstat :: "vmstat_files \<Rightarrow> string \<Rightarrow> proc_vmstat \<Rightarrow> (u64 \<times> proc_vmstat) run" where
  "vmstat fs name v =
     (let v = (if pv_proc v = None then snd (load_vmstat fs v) else v)
      in rbind (map_at_key (pv_proc v) name) (\<lambda>n. Inr (n, v)))"

text \<open>As in the code, the map of the whole machine decides whether those of the nodes are loaded.\<close>

definition vmstat_node :: "vmstat_files \<Rightarrow> int \<Rightarrow> string \<Rightarrow> proc_vmstat \<Rightarrow> (u64 \<times> proc_vmstat) run" where
  "vmstat_node fs nid name v =
     (let v = (if pv_proc v = None then snd (load_numa_vmstat fs v) else v)
      in if nid < 0 \<or> nat nid \<ge> length (pv_numa v) then Inl Out_of_range
         else rbind (map_at_key (pv_numa v ! nat nid) name) (\<lambda>n. Inr (n, v)))"

definition anon_capacity :: "vmstat_files \<Rightarrow> proc_vmstat \<Rightarrow> (u64 \<times> proc_vmstat) run" where
  "anon_capacity fs v =
     rbind (vmstat fs ''nr_free_pages'' v) (\<lambda>(a, v).
     rbind (vmstat fs ''nr_inactive_anon'' v) (\<lambda>(b, v).
     rbind (vmstat fs ''nr_active_anon'' v) (\<lambda>(d, v). Inr (a + b + d, v))))"

definition anon_capacity_node :: "vmstat_files \<Rightarrow> int \<Rightarrow> proc_vmstat \<Rightarrow> (u64 \<times> proc_vmstat) run" where
  "anon_capacity_node fs nid v =
     rbind (vmstat_node fs nid ''nr_free_pages'' v) (\<lambda>(a, v).
     rbind (vmstat_node fs nid ''nr_inactive_anon'' v) (\<lambda>(b, v).
     rbind (vmstat_node fs nid ''nr_active_anon'' v) (\<lambda>(d, v). Inr (a + b + d, v))))"

definition vmstat_nodes :: "vmstat_files \<Rightarrow> int list \<Rightarrow> proc_vmstat \<Rightarrow> (u64 \<times> proc_vmstat) run" where
  "vmstat_nodes fs nids v =
     rfold (\<lambda>i (sum, v). rbind (anon_capacity_node fs i v) (\<lambda>(n, v). Inr (sum + n, v))) nids (0, v)"

section \<open>State\<close>

definition COLD_MIGRATE :: nat where "COLD_MIGRATE = 0"
definition HOT_MIGRATE :: nat where "HOT_MIGRATE = 1"
definition MAX_MIGRATE :: nat where "MAX_MIGRATE = 2"

lemmas migrate_kinds = COLD_MIGRATE_def HOT_MIGRATE_def MAX_MIGRATE_def

record migrate_stats =
  ms_move :: move_stats
  anon_kb :: u64

definition migrate_stats_clear :: migrate_stats where
  "migrate_stats_clear = \<lparr>ms_move = stats_clear, anon_kb = 0\<rparr>"

definition migrate_stats_add :: "migrate_stats \<Rightarrow> migrate_stats \<Rightarrow> migrate_stats" where
  "migrate_stats_add s t = s\<lparr>ms_move := stats_add (ms_move s) (ms_move t), anon_kb := anon_kb s + anon_kb t\<rparr>"

record migrate_parameter =
  hot_threshold :: int
  hot_threshold_max :: int
  nr_promote :: int
  promote_remain :: int
  cold_threshold :: int
  cold_threshold_min :: int
  nr_demote :: int
  demote_remain :: int
  enabled :: bool
  disable_reason :: string

definition parameter_clear :: migrate_parameter where
  "parameter_clear =
     \<lparr>hot_threshold = 0, hot_threshold_max = 0, nr_promote = 0, promote_remain = 0,
      cold_threshold = 0, cold_threshold_min = 0, nr_demote = 0, demote_remain = 0,
      enabled = False, disable_reason = ''None''\<rparr>"

definition parameter_enable :: "migrate_parameter \<Rightarrow> migrate_parameter" where
  "parameter_enable p = p\<lparr>enabled := True, disable_reason := ''None''\<rparr>"

definition parameter_disable :: "string option \<Rightarrow> migrate_parameter \<Rightarrow> migrate_parameter" where
  "parameter_disable reason p =
     (let p = p\<lparr>enabled := False\<rparr> in case reason of None \<Rightarrow> p | Some r \<Rightarrow> p\<lparr>disable_reason := r\<rparr>)"

definition pagetype_batchsize :: "page_type \<Rightarrow> nat" where
  "pagetype_batchsize type = [1024, 2, 2, 1024, 128, 1024, 128, 128, 1024, 128, 0] ! type"

record ept_migrate =
  em_scan :: ept_scan
  parameter :: "page_type \<Rightarrow> migrate_parameter"
  page_migrate_stats :: "nat \<Rightarrow> migrate_stats"
  page_migrator :: "nat \<Rightarrow> mover"
  pages_addr :: "nat \<Rightarrow> u64 list"
  migrate_stats :: migrate_stats
  migrator :: mover
  dram_quota :: "int option"

definition em_refs :: "ept_migrate \<Rightarrow> page_type \<Rightarrow> addr_seq" where
  "em_refs e type = page_refs (pagetype_refs (es_idle (em_scan e)) (pagetype_index type))"

definition set_em_refs :: "ept_migrate \<Rightarrow> page_type \<Rightarrow> addr_seq \<Rightarrow> ept_migrate" where
  "set_em_refs e type s =
     e\<lparr>em_scan := (em_scan e)\<lparr>es_idle := (es_idle (em_scan e))
        \<lparr>pagetype_refs := set_page_refs (pagetype_refs (es_idle (em_scan e))) (pagetype_index type) s\<rparr>\<rparr>\<rparr>"

definition count_migrate_stats :: "ept_migrate \<Rightarrow> migrate_stats \<Rightarrow> migrate_stats" where
  "count_migrate_stats e sys_stats = migrate_stats_add sys_stats (migrate_stats e)"

section \<open>Selecting by thresholds\<close>

text \<open>Pages on their way: the parallel vectors of addresses, nodes and target nodes.\<close>

record move_list =
  ml_addr :: "u64 list"
  ml_from :: "int list"
  ml_target :: "int list"

definition empty_moves :: move_list where
  "empty_moves = \<lparr>ml_addr = [], ml_from = [], ml_target = []\<rparr>"

definition save_migrate_parameter :: "numa_collection \<Rightarrow> u64 \<Rightarrow> int \<Rightarrow> move_list \<Rightarrow> move_list run" where
  "save_migrate_parameter c addr nid ml =
     rbind (node_of c nid) (\<lambda>n. case get_peer_node n of
         None \<Rightarrow> Inr ml
       | Some q \<Rightarrow> rbind (deref c (Some q)) (\<lambda>peer.
           Inr (ml\<lparr>ml_addr := ml_addr ml @ [addr], ml_from := ml_from ml @ [nid],
                   ml_target := ml_target ml @ [nn_id peer]\<rparr>)))"

definition promote_and_demote_step ::
    "numa_collection \<Rightarrow> u64 \<times> u8 \<times> int \<Rightarrow> (migrate_parameter \<times> move_list \<times> move_list) run \<Rightarrow>
     (migrate_parameter \<times> move_list \<times> move_list) run" where
  "promote_and_demote_step c x acc =
     (case x of (addr, refs, nid) \<Rightarrow> rbind acc (\<lambda>(p, hot, cold).
        if \<not> is_valid_nid c nid then Inr (p, hot, cold)
        else rbind (node_of c nid) (\<lambda>n.
          if is_pmem n then
            let refs_in_range = (uint refs > hot_threshold p \<and> uint refs \<le> hot_threshold_max p);
                at_limit = (uint refs = hot_threshold p);
                take_it = (at_limit \<and> promote_remain p > 0 \<or> refs_in_range);
                p = (if at_limit then p\<lparr>promote_remain := promote_remain p - 1\<rparr> else p)
            in if take_it then rbind (save_migrate_parameter c addr nid hot) (\<lambda>hot. Inr (p, hot, cold))
               else Inr (p, hot, cold)
          else
            let refs_in_range = (uint refs < cold_threshold p \<and> uint refs \<ge> cold_threshold_min p);
                at_limit = (uint refs = cold_threshold p);
                take_it = (at_limit \<and> demote_remain p > 0 \<or> refs_in_range);
                p = (if at_limit then p\<lparr>demote_remain := demote_remain p - 1\<rparr> else p)
            in if take_it then rbind (save_migrate_parameter c addr nid cold) (\<lambda>cold. Inr (p, hot, cold))
               else Inr (p, hot, cold))))"

section \<open>Moving hot and cold pages in turns\<close>

definition setup_migrator :: "page_type \<Rightarrow> mover \<Rightarrow> mover" where
  "setup_migrator type m =
     m\<lparr>mv_page_shift := pagetype_shift type, batch_size := of_nat (pagetype_batchsize type), mv_type := type\<rparr>"

text \<open>The turn of one kind of page at index \<open>i\<close>.\<close>

definition move_turn ::
    "'k move_call \<Rightarrow> page_type \<Rightarrow> nat \<Rightarrow> nat \<Rightarrow> move_list \<Rightarrow> 'k \<Rightarrow> mover \<Rightarrow> migrate_stats \<Rightarrow>
     ('k \<times> mover \<times> migrate_stats) run" where
  "move_turn sys type batch i ml k m st =
     (if i < length (ml_addr ml) then
        let n = min batch (length (ml_addr ml) - i);
            (ret, k, m) = move_pages_to sys (take n (drop i (ml_addr ml))) (take n (drop i (ml_target ml))) k m
        in rbind (save_migrate_states (pagetype_shift type) (drop i (ml_from ml)) (drop i (ml_target ml))
                    (status_after_move m) (ms_move st))
             (\<lambda>mv. Inr (k, m, st\<lparr>ms_move := mv\<rparr>))
      else Inr (k, m, st))"

type_synonym 'k movers = "'k \<times> (nat \<Rightarrow> mover) \<times> (nat \<Rightarrow> migrate_stats)"

definition move_turns ::
    "'k move_call \<Rightarrow> page_type \<Rightarrow> nat \<Rightarrow> nat \<Rightarrow> (nat \<Rightarrow> move_list) \<Rightarrow> 'k movers \<Rightarrow> 'k movers run" where
  "move_turns sys type batch i mls s =
     rfold (\<lambda>kind (k, ms, sts).
         rbind (move_turn sys type batch i (mls kind) k (ms kind) (sts kind))
           (\<lambda>(k, m, st). Inr (k, ms(kind := m), sts(kind := st))))
       [0..<MAX_MIGRATE] s"

partial_function (option) interleave_loop ::
    "'k move_call \<Rightarrow> page_type \<Rightarrow> nat \<Rightarrow> nat \<Rightarrow> nat \<Rightarrow> (nat \<Rightarrow> move_list) \<Rightarrow> 'k movers \<Rightarrow> 'k movers run option" where
  "interleave_loop sys type batch max_size i mls s =
     (if i < max_size then
        case move_turns sys type batch i mls s of
          Inl e \<Rightarrow> Some (Inl e)
        | Inr s \<Rightarrow> interleave_loop sys type batch max_size (i + batch) mls s
      else Some (Inr s))"

definition do_interleave_move_pages ::
    "'k move_call \<Rightarrow> page_type \<Rightarrow> (nat \<Rightarrow> move_list) \<Rightarrow> 'k \<Rightarrow> ept_migrate \<Rightarrow> ('k \<times> ept_migrate) run option" where
  "do_interleave_move_pages sys type mls k e =
     (if ml_addr (mls COLD_MIGRATE) = [] \<and> ml_addr (mls HOT_MIGRATE) = [] then Some (Inr (k, e))
      else let ms = (\<lambda>kind. if kind < MAX_MIGRATE then setup_migrator type (page_migrator e kind) else page_migrator e kind);
               max_size = max (length (ml_addr (mls COLD_MIGRATE))) (length (ml_addr (mls HOT_MIGRATE)))
           in do { r \<leftarrow> interleave_loop sys type (pagetype_batchsize type) max_size 0 mls (k, ms, page_migrate_stats e);
                   Some (rbind r (\<lambda>(k, ms, sts). Inr (k, e\<lparr>page_migrator := ms, page_migrate_stats := sts\<rparr>))) })"

definition move_list_back :: "move_list \<Rightarrow> move_list" where
  "move_list_back ml = ml\<lparr>ml_from := ml_target ml, ml_target := ml_from ml\<rparr>"

definition move_lists :: "move_list \<Rightarrow> move_list \<Rightarrow> nat \<Rightarrow> move_list" where
  "move_lists hot cold = (\<lambda>kind. if kind = HOT_MIGRATE then hot else cold)"

text \<open>\<open>profiling\<close>: a profiling script is set; then the pages are moved back after it has run.\<close>

definition promote_and_demote ::
    "'k move_call \<Rightarrow> bool \<Rightarrow> page_type \<Rightarrow> 'k \<Rightarrow> ept_migrate \<Rightarrow> ('k \<times> ept_migrate) run option" where
  "promote_and_demote sys profiling type k e =
     (let c = es_numa (em_scan e)
      in do { (acc, s) \<leftarrow> visit_fold (promote_and_demote_step c)
                           (Inr (parameter e type, empty_moves, empty_moves)) (em_refs e type);
              case acc of
                Inl err \<Rightarrow> Some (Inl err)
              | Inr (p, hot, cold) \<Rightarrow>
                  let e = (set_em_refs e type s)\<lparr>parameter := (parameter e)(type := p)\<rparr>
                  in do { r \<leftarrow> do_interleave_move_pages sys type (move_lists hot cold) k e;
                          case r of
                            Inl err \<Rightarrow> Some (Inl err)
                          | Inr (k, e) \<Rightarrow>
                              if profiling
                              then do_interleave_move_pages sys type
                                     (move_lists (move_list_back hot) (move_list_back cold)) k e
                              else Some (Inr (k, e)) } })"

definition update_migrate_state :: "nat \<Rightarrow> ept_migrate \<Rightarrow> ept_migrate" where
  "update_migrate_state kind e =
     (let add = (\<Sum>type\<leftarrow>[PTE_ACCESSED, PMD_ACCESSED, PUD_PRESENT].
                   push_bit (pageshift (em_refs e type) - 10) (addr_size (em_refs e type)));
          st = page_migrate_stats e kind
      in e\<lparr>page_migrate_stats := (page_migrate_stats e)(kind := st\<lparr>anon_kb := anon_kb st + add\<rparr>)\<rparr>)"

fun migrate_types ::
    "'k move_call \<Rightarrow> bool \<Rightarrow> page_type list \<Rightarrow> 'k \<Rightarrow> ept_migrate \<Rightarrow> ('k \<times> ept_migrate) run option" where
  "migrate_types sys profiling [] k e = Some (Inr (k, e))"
| "migrate_types sys profiling (type # types) k e =
     (if \<not> enabled (parameter e type) then migrate_types sys profiling types k e
      else do { r \<leftarrow> promote_and_demote sys profiling type k e;
                case r of Inl err \<Rightarrow> Some (Inl err)
                | Inr (k, e) \<Rightarrow> migrate_types sys profiling types k e })"

definition migrate :: "'k move_call \<Rightarrow> bool \<Rightarrow> 'k \<Rightarrow> ept_migrate \<Rightarrow> ('k \<times> ept_migrate) run option" where
  "migrate sys profiling k e =
     (if ip_placement (es_idle (em_scan e)) = PLACEMENT_DRAM then Some (Inr (k, e))
      else let e = foldl (\<lambda>e kind. update_migrate_state kind
                 (e\<lparr>page_migrate_stats := (page_migrate_stats e)(kind := migrate_stats_clear)\<rparr>))
               e [COLD_MIGRATE..<MAX_MIGRATE]
           in migrate_types sys profiling [PTE_ACCESSED, PMD_ACCESSED] k e)"

section \<open>Selecting by a portion of the pages\<close>

text \<open>The options a migration reads.\<close>

record migrate_option =
  mo_nr_walks :: int
  hot_min_refs :: int
  cold_max_refs :: int
  mo_dram_percent :: int

definition calc_numa_anon_capacity ::
    "vmstat_files \<Rightarrow> numa_collection option \<Rightarrow> page_type \<Rightarrow> proc_vmstat \<Rightarrow> (u64 \<times> proc_vmstat) run" where
  "calc_numa_anon_capacity fs oc type v =
     (case oc of None \<Rightarrow> Inr (0, v)
      | Some c \<Rightarrow>
          rfold (\<lambda>p (sum, v). rbind (deref c (Some p)) (\<lambda>n.
                   rbind (anon_capacity_node fs (nn_id n) v) (\<lambda>(a, v). Inr (sum + a, v))))
            (if type \<le> MAX_ACCESSED then dram_nodes c else pmem_nodes c) (0, v))"

text \<open>\<open>for (; min_refs > 1; --min_refs)\<close>, started at \<open>m\<close>; the subtraction is unsigned and read as a \<open>long\<close>.\<close>

fun hot_refs_loop :: "u64 list \<Rightarrow> nat \<Rightarrow> u64 \<Rightarrow> nat run" where
  "hot_refs_loop h m quota =
     (if m > 1 then
        if m < length h then
          let quota = quota - h ! m
          in if sint quota \<le> 0 then Inr m else hot_refs_loop h (m - 1) quota
        else Inl Bad_index
      else Inr m)"

declare hot_refs_loop.simps [simp del]

text \<open>\<open>for (; max_refs < nr_walks / 2; ++max_refs)\<close>.\<close>

function cold_refs_loop :: "u64 list \<Rightarrow> nat \<Rightarrow> nat \<Rightarrow> u64 \<Rightarrow> nat run" where
  "cold_refs_loop h lim m quota =
     (if m < lim then
        if m < length h then
          let quota = quota - h ! m
          in if sint quota \<le> 0 then Inr m else cold_refs_loop h lim (m + 1) quota
        else Inl Bad_index
      else Inr m)"
  by pat_completeness auto
termination by (relation "measure (\<lambda>(h, lim, m, quota). lim - m)") auto

declare cold_refs_loop.simps [simp del]

text \<open>
  \<open>portion\<close> is the number of pages after the floating-point scaling. The result is the portion and
  the range of reference counts.
\<close>

definition get_threshold_refs ::
    "migrate_option \<Rightarrow> (u64 \<Rightarrow> u64) \<Rightarrow> int \<Rightarrow> page_type \<Rightarrow> addr_seq \<Rightarrow> u64 list \<Rightarrow> (u64 \<times> int \<times> int) run" where
  "get_threshold_refs opt scale nw type s h =
     (if type \<le> MAX_ACCESSED \<and> mo_nr_walks opt = 0 then Inr (0, nw, nw)
      else if type \<le> MAX_ACCESSED \<and> hot_min_refs opt > 0 then Inr (0, hot_min_refs opt, nw)
      else if \<not> (type \<le> MAX_ACCESSED) \<and> cold_max_refs opt \<ge> 0 then Inr (0, 0, cold_max_refs opt)
      else let portion = scale (addr_size s); quota = portion
           in if type \<le> MAX_ACCESSED
              then if nw \<le> 1 then Inr (portion, nw, nw)
                   else rbind (hot_refs_loop h (nat nw) quota) (\<lambda>m.
                          Inr (portion, (if int m < nw then int m + 1 else int m), nw))
              else rbind (cold_refs_loop h (nat (c_div nw 2)) 0 quota) (\<lambda>m. Inr (portion, 0, int m div 2)))"

definition select_top_pages ::
    "migrate_option \<Rightarrow> (u64 \<Rightarrow> u64) \<Rightarrow> page_type \<Rightarrow> ept_migrate \<Rightarrow> (int \<times> ept_migrate) run option" where
  "select_top_pages opt scale type e =
     (let s = em_refs e type; i = pagetype_index type
      in if addr_size s = 0 then Some (Inr (1, e))
         else let mst = migrate_stats e;
                  e = e\<lparr>migrate_stats := mst\<lparr>anon_kb := anon_kb mst + push_bit (pageshift s - 10) (addr_size s)\<rparr>\<rparr>
              in case get_threshold_refs opt scale (ip_nr_walks (es_idle (em_scan e))) type s
                        (histogram_2d (pagetype_refs (es_idle (em_scan e)) i) REF_LOC_ALL) of
                   Inl err \<Rightarrow> Some (Inl err)
                 | Inr (portion, min_refs, max_refs) \<Rightarrow>
                     do { (as, s) \<leftarrow> visit_fold
                            (\<lambda>(a, p, nid) as. if min_refs \<le> uint p \<and> uint p \<le> max_refs then as @ [a] else as)
                            (pages_addr e i) s;
                          let e = set_em_refs e type s
                          in if as = [] then Some (Inr (1, e))
                             else Some (Inr (0, e\<lparr>pages_addr := (pages_addr e)(i := sort as)\<rparr>)) })"

definition do_move_pages ::
    "'k move_call \<Rightarrow> page_type \<Rightarrow> 'k \<Rightarrow> ept_migrate \<Rightarrow> (int \<times> 'k \<times> ept_migrate) run option" where
  "do_move_pages sys type k e =
     (let i = pagetype_index type; m = setup_migrator type (migrator e)
      in do { r \<leftarrow> locate_move_pages sys (es_numa (em_scan e)) (dram_quota e) (pages_addr e i) k m
                     (ms_move (migrate_stats e));
              Some (rbind r (\<lambda>(ret, quota, as, k, m, stats).
                Inr (ret, k, e\<lparr>dram_quota := quota, pages_addr := (pages_addr e)(i := as), migrator := m,
                               migrate_stats := (migrate_stats e)\<lparr>ms_move := stats\<rparr>\<rparr>))) })"

definition migrate_type ::
    "'k move_call \<Rightarrow> migrate_option \<Rightarrow> (u64 \<Rightarrow> u64) \<Rightarrow> page_type \<Rightarrow> 'k \<Rightarrow> ept_migrate \<Rightarrow>
     (int \<times> 'k \<times> ept_migrate) run option" where
  "migrate_type sys opt scale type k e =
     do { r \<leftarrow> select_top_pages opt scale type e;
          case r of Inl err \<Rightarrow> Some (Inl err)
          | Inr (ret, e) \<Rightarrow> if ret \<noteq> 0 then Some (Inr (min ret 0, k, e)) else do_move_pages sys type k e }"

section \<open>Normalising the counts\<close>

definition FLAG_NORMALIZED :: nat where "FLAG_NORMALIZED = 1"

definition normalize_step :: "int \<Rightarrow> int \<Rightarrow> u64 \<times> u8 \<times> int \<Rightarrow> unit \<Rightarrow> addr_seq \<Rightarrow> (unit \<times> addr_seq) option" where
  "normalize_step lo hi x u s =
     (case x of (addr, n, nid) \<Rightarrow>
        do { (rc, s) \<leftarrow> set_payload s addr (if lo \<le> uint n \<and> uint n \<le> hi then 1 else 0);
             Some ((), s) })"

definition normalize_addr_sequence :: "addr_seq \<Rightarrow> int \<Rightarrow> int \<Rightarrow> addr_seq option" where
  "normalize_addr_sequence s lo hi =
     (if is_user_flag_set s FLAG_NORMALIZED then Some s
      else do { (u, s) \<leftarrow> visit_all (normalize_step lo hi) () (prepare_update s);
                Some (set_user_flag s FLAG_NORMALIZED) })"

definition normalize_page_hotness :: "page_type \<Rightarrow> int \<Rightarrow> int \<Rightarrow> ept_migrate \<Rightarrow> ept_migrate option" where
  "normalize_page_hotness type lo hi e =
     (if addr_size (page_refs (pagetype_refs (es_idle (em_scan e)) type)) = 0 then Some e
      else do { s \<leftarrow> normalize_addr_sequence (page_refs (pagetype_refs (es_idle (em_scan e)) type)) lo hi;
                Some (e\<lparr>em_scan := (em_scan e)\<lparr>es_idle := (es_idle (em_scan e))
                  \<lparr>pagetype_refs := set_page_refs (pagetype_refs (es_idle (em_scan e))) type s\<rparr>\<rparr>\<rparr>) })"

end
