(* ===== verification/EPT_Scan_Correct.thy ===== *)
theory EPT_Scan_Correct
  imports EPT_Scan Addr_Sequence_Protocol
begin

text \<open>
  Correctness of the per-process scan: locating the pages annotates every recorded page once and
  nothing else, counting references conserves the pages, and repeated walks stay within the width
  of the payload and keep each sequence in the phases of the protocol.
\<close>

unbundle bit_operations_syntax

section \<open>Annotating\<close>

definition page_location :: "numa_collection \<Rightarrow> int \<Rightarrow> int" where
  "page_location c nid =
     (if nid < 0 then LOC_UNKNOW
      else case node_of c nid of Inl _ \<Rightarrow> LOC_UNKNOW
           | Inr n \<Rightarrow> if is_pmem n then LOC_PMEM else LOC_DRAM)"

definition located :: "numa_collection \<Rightarrow> (u64 \<Rightarrow> int) \<Rightarrow> entry \<Rightarrow> entry" where
  "located c nd e = store_node (max (- 128) (nd (fst e))) (page_location c (nd (fst e))) e"

text \<open>A node number that the locator may give: an error, or a node of the collection.\<close>

definition nid_ok :: "numa_collection \<Rightarrow> int \<Rightarrow> bool" where
  "nid_ok c nid \<longleftrightarrow> nid < 0 \<or> nid \<le> MAX_NID \<and> is_valid_nid c nid"

lemma fst_located [simp]: "fst (located c nd e) = fst e"
  by (cases e) (simp add: located_def store_node_def)

lemma node_location_ok:
  assumes "numa_inv c" and "nid_ok c nid"
  shows "node_location c (max (- 128) nid) = Inr (page_location c nid)"
proof (cases "nid < 0")
  case True
  then show ?thesis by (simp add: node_location_def page_location_def)
next
  case False
  then have v: "is_valid_nid c nid" using assms(2) by (simp add: nid_ok_def)
  obtain n where n: "node_of c nid = Inr n" using numa.valid_node [OF assms(1) v] by blast
  then obtain p where p: "get_node c nid = Inr p" "deref c p = Inr n" by (auto simp: node_of_def)
  then have "p \<noteq> None" by (auto simp: deref_def split: option.splits)
  then show ?thesis using p n False by (auto simp: node_location_def page_location_def max_def)
qed

lemma clamp_nid_ok: "nid_ok c nid \<Longrightarrow> clamp_nid nid = Inr (max (- 128) nid)"
  by (auto simp: nid_ok_def clamp_nid_def MAX_NID_def max_def)

text \<open>\<open>annotated\<close>: the first \<open>m\<close> entries carry their node, in the first walk of the sequence.\<close>

definition annotated :: "numa_collection \<Rightarrow> (u64 \<Rightarrow> int) \<Rightarrow> addr_seq \<Rightarrow> nat \<Rightarrow> addr_seq \<Rightarrow> bool" where
  "annotated c nd s m t \<longleftrightarrow> rewritten (located c nd) s m t \<and> in_append_period t"

lemma in_append_period_shape: "same_shape s t \<Longrightarrow> in_append_period t = in_append_period s"
  by (simp add: same_shape_def in_append_period_def)

lemma annotate_one:
  assumes "annotated c nd s m t" and "m < length (cells s)" and "numa_inv c"
    and "nid_ok c (nd (addrs s ! m))"
  defines "a \<equiv> addrs s ! m" and "v \<equiv> nd (addrs s ! m)"
  shows "\<exists>t'. update_nodeid t a (int8_of (max (- 128) v)) (page_location c v) = Some (RC_OK, t') \<and>
           same_shape t t' \<and> walk_iter t' = walk_iter t \<and> annotated c nd s (Suc m) t'"
proof -
  have r: "rewritten (located c nd) s m t" "in_append_period t" using assms(1) by (simp_all add: annotated_def)
  have "seq_inv t" using r(1) by (simp add: rewritten_def)
  from update_nodeid_found [OF this r(2)] rewritten_find_ok [OF r(1) assms(2)]
  obtain t' where t': "update_nodeid t a (int8_of (max (- 128) v)) (page_location c v) = Some (RC_OK, t')"
    "touched t a (store_node (int8_of (max (- 128) v)) (page_location c v)) t'" unfolding a_def by blast
  have v: "int8_of (max (- 128) v) = max (- 128) v"
    using assms(4) by (intro int8_of_id) (auto simp: v_def nid_ok_def MAX_NID_def)
  have "fst (contents s ! m) = a" using assms(2) by (simp add: contents_nth entry_of_def a_def)
  then have "store_node (int8_of (max (- 128) v)) (page_location c v) (contents s ! m) = located c nd (contents s ! m)"
    using v by (simp add: located_def v_def a_def)
  from rewritten_step [OF r(1) assms(2) t'(2) [unfolded a_def] this [unfolded a_def]]
  have "rewritten (located c nd) s (Suc m) t'" .
  moreover have "same_shape t t'" "walk_iter t' = walk_iter t" using t'(2) by (simp_all add: touched_def)
  ultimately show ?thesis using t'(1) r(2) in_append_period_shape [of t t'] by (auto simp: annotated_def)
qed

lemma annotate_range:
  assumes "annotated c nd s m t" and "m + n \<le> length (cells s)" and "numa_inv c"
    and "\<forall>a \<in> set (addrs s). nid_ok c (nd a)"
  shows "\<exists>t'. update_nodes c (map (\<lambda>a. (a, nd a)) (take n (drop m (addrs s)))) t = Some (Inr t') \<and>
           same_shape t t' \<and> walk_iter t' = walk_iter t \<and> annotated c nd s (m + n) t'"
  using assms(1,2)
proof (induction n arbitrary: m t)
  case 0
  then show ?case by simp
next
  case (Suc n)
  then have m: "m < length (cells s)" by simp
  then have ok: "nid_ok c (nd (addrs s ! m))" using assms(4) by simp
  obtain t1 where t1: "update_nodeid t (addrs s ! m) (int8_of (max (- 128) (nd (addrs s ! m))))
      (page_location c (nd (addrs s ! m))) = Some (RC_OK, t1)" "same_shape t t1"
    "walk_iter t1 = walk_iter t" "annotated c nd s (Suc m) t1"
    using annotate_one [OF Suc.prems(1) m assms(3) ok] by blast
  obtain t2 where t2: "update_nodes c (map (\<lambda>a. (a, nd a)) (take n (drop (Suc m) (addrs s)))) t1 = Some (Inr t2)"
    "same_shape t1 t2" "walk_iter t2 = walk_iter t1" "annotated c nd s (Suc m + n) t2"
    using Suc.IH [OF t1(4)] Suc.prems(2) by auto
  have "drop m (addrs s) = addrs s ! m # drop (Suc m) (addrs s)" using m by (simp add: Cons_nth_drop_Suc)
  then show ?case
    using t1 t2 node_location_ok [OF assms(3) ok] clamp_nid_ok [OF ok] same_shape_trans [OF t1(2) t2(2)]
    by simp
qed

definition answers :: "(u64 list \<Rightarrow> int \<times> int list) \<Rightarrow> (u64 \<Rightarrow> int) \<Rightarrow> bool" where
  "answers locator nd \<longleftrightarrow> (\<forall>as. fst (locator as) \<ge> 0 \<and> snd (locator as) = map nd as)"

lemma flush_range:
  assumes "annotated c nd s m t" and "m + n \<le> length (cells s)" and "numa_inv c"
    and "\<forall>a \<in> set (addrs s). nid_ok c (nd a)" and "answers locator nd"
  shows "\<exists>t'. get_memory_type_range locator c (take n (drop m (addrs s))) t = Some (Inr t') \<and>
           same_shape t t' \<and> walk_iter t' = walk_iter t \<and> annotated c nd s (m + n) t'"
proof (cases "take n (drop m (addrs s)) = []")
  case True
  then have "m + n = m" using assms(2) by auto
  then show ?thesis using assms(1) True by (simp add: get_memory_type_range_def)
next
  case False
  have z: "zip as (map nd as) = map (\<lambda>a. (a, nd a)) as" for as by (induction as) auto
  show ?thesis
    using annotate_range [OF assms(1-4)] assms(5) False
    by (auto simp: get_memory_type_range_def answers_def z case_prod_beta not_less [symmetric])
qed

lemma memory_type_step_inv:
  assumes "annotated c nd s m t" and "k < length (cells s)" and "m \<le> k" and "k - m < 1024"
    and "same_shape s t" and "numa_inv c" and "\<forall>a \<in> set (addrs s). nid_ok c (nd a)" and "answers locator nd"
  shows "\<exists>m' t'. memory_type_step locator c (items t ! k) (Inr (take (k - m) (drop m (addrs s)))) t =
           Some (Inr (take (Suc k - m') (drop m' (addrs s))), t') \<and> same_shape t t' \<and>
           walk_iter t' = walk_iter t \<and> annotated c nd s m' t' \<and> m' \<le> Suc k \<and> Suc k - m' < 1024"
proof -
  have a: "fst (items t ! k) = addrs s ! k"
    using assms(2) same_shape_addrs [OF assms(5)] same_shape_cells [OF assms(5)] by (simp add: items_nth)
  have app: "take (k - m) (drop m (addrs s)) @ [addrs s ! k] = take (Suc k - m) (drop m (addrs s))"
    using assms(2,3) by (simp add: Suc_diff_le take_Suc_conv_app_nth)
  show ?thesis
  proof (cases "Suc k - m \<ge> 1024")
    case True
    then have n: "length (take (Suc k - m) (drop m (addrs s))) \<ge> 1024" using assms(2) by simp
    obtain t' where t': "get_memory_type_range locator c (take (Suc k - m) (drop m (addrs s))) t = Some (Inr t')"
      "same_shape t t'" "walk_iter t' = walk_iter t" "annotated c nd s (Suc k) t'"
      using flush_range [OF assms(1) _ assms(6-8), of "Suc k - m"] assms(2,3) by auto
    show ?thesis
      by (intro exI [of _ "Suc k"] exI [of _ t'])
        (use t' n in \<open>simp add: memory_type_step_def Let_def app a del: length_take length_drop\<close>)
  next
    case False
    then have "\<not> length (take (Suc k - m) (drop m (addrs s))) \<ge> 1024" by simp
    then show ?thesis
      using assms False
      by (intro exI [of _ m] exI [of _ t])
        (simp add: memory_type_step_def Let_def app a del: length_take length_drop)
  qed
qed

text \<open>
  C11: Locating the pages of an array annotates every recorded page exactly once: when the system
  call answers each address with a node of the machine or an error, the operation returns, and
  afterwards every entry has its address and payload unchanged, the node of its own address (errors
  below -128 are cut to -128), and the location (DRAM, PMEM or unknown) of that node. Flushing
  batches of 1024 addresses while the sequence is being visited loses and repeats none.
\<close>

theorem memory_type_annotates:
  assumes "seq_inv s" and "in_append_period s" and "numa_inv c" and "answers locator nd"
    and "\<forall>a \<in> set (addrs s). nid_ok c (nd a)"
  shows "\<exists>t. get_memory_type_one locator c s = Some (Inr t) \<and>
           contents t = map (\<lambda>(a, p, _, _). (a, p, max (- 128) (nd a), page_location c (nd a))) (contents s)"
proof -
  let ?s = "prepare_update s"
  let ?I = "\<lambda>k b t. \<exists>m. m \<le> k \<and> k - m < 1024 \<and> annotated c nd ?s m t \<and>
      b = Inr (take (k - m) (drop m (addrs ?s)))"
  have shs: "addrs ?s = addrs s" "contents ?s = contents s" "cells ?s = cells s"
    using view_cong [of ?s s] by (simp_all add: prepare_update_def)
  have inv: "seq_inv ?s" using prepare_update_inv(1) [OF assms(1)] .
  have frame: "annotated c nd ?s m (t\<lparr>walk_iter := w\<rparr>) \<longleftrightarrow> annotated c nd ?s m t" for m t w
    by (simp add: annotated_def in_append_period_def)
  have "rewritten (located c nd) ?s 0 ?s"
    using rewritten_start [OF assms(1), of "located c nd"] shs by (simp add: rewritten_def)
  then have "annotated c nd ?s 0 ?s"
    using assms(2) by (simp add: annotated_def in_append_period_def prepare_update_def)
  then have start: "?I 0 (Inr []) (?s\<lparr>walk_iter := w\<rparr>)" for w
    using frame by auto
  have ok: "\<forall>a \<in> set (addrs ?s). nid_ok c (nd a)" using assms(5) shs(1) by simp
  obtain b t where bt: "visit_all (memory_type_step locator c) (Inr []) ?s = Some (b, t)"
    "?I (length (cells ?s)) b t"
  proof -
    have "\<exists>b' t'. visit_all (memory_type_step locator c) (Inr []) ?s = Some (b', t') \<and> same_shape ?s t' \<and>
        ?I (length (cells ?s)) b' t'"
    proof (rule visit_all_rule [where I = ?I, OF inv start], goal_cases)
      case (1 k b t)
      then obtain m where m: "m \<le> k" "k - m < 1024" "annotated c nd ?s m t"
        "b = Inr (take (k - m) (drop m (addrs ?s)))" by blast
      show ?case
        using memory_type_step_inv [OF m(3) 1(3) m(1,2) 1(2) assms(3) ok assms(4)] m(4) by blast
    next
      case 2
      then show ?case using frame by simp
    qed
    then show ?thesis using that by blast
  qed
  then obtain m where m: "m \<le> length (cells ?s)" "annotated c nd ?s m t"
    "b = Inr (take (length (cells ?s) - m) (drop m (addrs ?s)))" by blast
  obtain t' where t': "get_memory_type_range locator c (take (length (cells ?s) - m) (drop m (addrs ?s))) t = Some (Inr t')"
    "annotated c nd ?s (length (cells ?s)) t'"
    using flush_range [OF m(2) _ assms(3) ok assms(4), of "length (cells ?s) - m"] m(1) by auto
  have "contents t' = map (located c nd) (contents s)" using t'(2) shs rewritten_all [of "located c nd" ?s t'] by (simp add: annotated_def)
  also have "\<dots> = map (\<lambda>(a, p, _, _). (a, p, max (- 128) (nd a), page_location c (nd a))) (contents s)"
    by (auto simp: located_def store_node_def)
  finally show ?thesis using bt(1) m(3) t'(1) by (simp add: get_memory_type_one_def)
qed


section \<open>Counting\<close>

text \<open>\<open>adds h g f\<close>: \<open>g\<close> is the histogram \<open>h\<close> with \<open>f\<close> added cell by cell.\<close>

definition adds :: "histogram \<Rightarrow> histogram \<Rightarrow> (nat \<Rightarrow> nat \<Rightarrow> u64) \<Rightarrow> bool" where
  "adds h g f \<longleftrightarrow> (\<forall>r. length (g r) = length (h r)) \<and>
     (\<forall>r k. k < length (h r) \<longrightarrow> g r ! k = h r ! k + f r k)"

lemma adds_refl: "adds h h (\<lambda>_ _. 0)"
  by (simp add: adds_def)

lemma adds_trans: "adds h g f \<Longrightarrow> adds g e f' \<Longrightarrow> adds h e (\<lambda>r k. f r k + f' r k)"
  by (simp add: adds_def add.assoc)

lemma adds_cong:
  assumes "adds h g f" and "\<And>r k. k < length (h r) \<Longrightarrow> f r k = f' r k"
  shows "adds h g f'"
  using assms by (simp add: adds_def)

lemma adds_unchanged:
  assumes "adds h g f" and "\<And>k. k < length (h r) \<Longrightarrow> f r k = 0"
  shows "g r = h r"
  using assms by (auto simp: adds_def intro: nth_equalityI)

lemma add_cell_adds:
  assumes "row < REF_LOC_MAX" and "col < length (h row)"
  shows "\<exists>g. add_cell row col n h = Inr g \<and> adds h g (\<lambda>r k. if r = row \<and> k = col then n else 0)"
  using assms by (auto simp: add_cell_def adds_def nth_list_update)

lemma rfold_adds:
  assumes "Q h"
    and "\<And>x h. x \<in> set xs \<Longrightarrow> Q h \<Longrightarrow> \<exists>g. body x h = Inr g \<and> adds h g (F x) \<and> Q g"
  shows "\<exists>g. rfold body xs h = Inr g \<and> adds h g (\<lambda>r k. \<Sum>x\<leftarrow>xs. F x r k) \<and> Q g"
  using assms
proof (induction xs arbitrary: h)
  case Nil
  then show ?case using adds_refl by simp
next
  case (Cons x xs)
  obtain g where g: "body x h = Inr g" "adds h g (F x)" "Q g" using Cons.prems by force
  obtain e where "rfold body xs g = Inr e" "adds g e (\<lambda>r k. \<Sum>x\<leftarrow>xs. F x r k)" "Q e"
    using Cons.IH [OF g(3)] Cons.prems(2) by auto
  then show ?case using g adds_trans [OF g(2)] by simp
qed

text \<open>A loop over the columns whose body adds to column \<open>j\<close> only adds to the whole row.\<close>

lemma sum_single_column:
  "(\<Sum>j\<leftarrow>[0..<n]. if P \<and> k = j then v j else (0::u64)) = (if P \<and> k < n then v k else 0)"
  by (induction n) auto

text \<open>The number of items with a node in \<open>L\<close> in column \<open>k\<close>.\<close>

definition refs_counted :: "int \<Rightarrow> (u64 \<times> u8 \<times> int) list \<Rightarrow> (int \<Rightarrow> bool) \<Rightarrow> nat \<Rightarrow> u64" where
  "refs_counted nw xs L k = of_nat (length (filter (\<lambda>(a, p, nid). L nid \<and> ref_col nw p = k) xs))"

lemma refs_counted_Cons:
  "refs_counted nw ((a, p, nid) # xs) L k =
     (if L nid \<and> ref_col nw p = k then 1 else 0) + refs_counted nw xs L k"
  by (simp add: refs_counted_def)

lemma ref_col_le:
  assumes "0 \<le> nw" "nw \<le> 255"
  shows "ref_col nw p \<le> nat nw"
proof -
  have "unat (word_of_int nw :: u8) = nat nw"
    using assms by (simp add: unat_eq_nat_uint uint_word_of_int_eq take_bit_int_eq_self)
  moreover have "unat (min p (word_of_int nw :: u8)) \<le> unat (word_of_int nw :: u8)"
    by (simp add: min_def word_le_nat_alt)
  ultimately show ?thesis by (simp add: ref_col_def)
qed

lemma count_items_adds:
  assumes "0 \<le> nw" "nw \<le> 255" and "\<forall>r. length (h r) = nat nw + 1"
    and "\<forall>(a, p, nid) \<in> set xs. nid \<le> MAX_NID"
  shows "\<exists>g. fold (count_item nw) xs (Inr h) = Inr g \<and>
           adds h g (\<lambda>r k. refs_counted nw xs (\<lambda>nid. ref_row nid = r) k)"
  using assms(3,4)
proof (induction xs arbitrary: h)
  case Nil
  then show ?case using adds_refl by (simp add: refs_counted_def)
next
  case (Cons x xs)
  obtain a p nid where x: "x = (a, p, nid)" by (cases x) auto
  have row: "ref_row nid < REF_LOC_MAX" using Cons.prems(2) x by (auto simp: ref_row_def ref_loc_defs)
  have col: "ref_col nw p < length (h (ref_row nid))"
    using ref_col_le [OF assms(1,2), of p] Cons.prems(1) by (simp add: less_Suc_eq_le)
  obtain g where g: "add_cell (ref_row nid) (ref_col nw p) 1 h = Inr g"
    "adds h g (\<lambda>r k. if r = ref_row nid \<and> k = ref_col nw p then 1 else 0)"
    using add_cell_adds [of "ref_row nid" "ref_col nw p" h 1] row col by blast
  have "\<forall>r. length (g r) = nat nw + 1" using g(2) Cons.prems(1) by (simp add: adds_def)
  from Cons.IH [OF this] Cons.prems(2) x
  obtain e where e: "fold (count_item nw) xs (Inr g) = Inr e"
    "adds g e (\<lambda>r k. refs_counted nw xs (\<lambda>nid. ref_row nid = r) k)" by auto
  have "adds h e (\<lambda>r k. refs_counted nw (x # xs) (\<lambda>nid. ref_row nid = r) k)"
    by (rule adds_cong [OF adds_trans [OF g(2) e(2)]]) (auto simp: x refs_counted_Cons)
  moreover have "count_item nw x (Inr h) = Inr g" using g(1) by (simp add: x count_item_def)
  ultimately show ?case using e(1) by auto
qed

definition on_kind :: "numa_collection \<Rightarrow> bool \<Rightarrow> int \<Rightarrow> bool" where
  "on_kind c pmem nid \<longleftrightarrow> is_valid_nid c nid \<and> (\<exists>n. node_of c nid = Inr n \<and> is_pmem n = pmem)"

definition kind_row :: "numa_collection \<Rightarrow> nat \<Rightarrow> nat" where
  "kind_row c i = (if on_kind c True (int i) then REF_LOC_PMEM else REF_LOC_DRAM)"

lemma count_node_adds:
  assumes "numa_inv c" and "i \<le> nat MAX_NID" and "\<forall>r. length (h r) = cols"
  shows "\<exists>g. count_node c cols i h = Inr g \<and>
           adds h g (\<lambda>r k. if is_valid_nid c (int i) \<and> (r = kind_row c i \<or> r = REF_LOC_ALL) then h i ! k else 0)"
proof (cases "is_valid_nid c (int i)")
  case False
  then show ?thesis using adds_refl by (simp add: count_node_def)
next
  case True
  obtain n where n: "node_of c (int i) = Inr n" using numa.valid_node [OF assms(1) True] by blast
  let ?loc = "kind_row c i"
  have loc: "(if is_pmem n then REF_LOC_PMEM else REF_LOC_DRAM) = ?loc"
    using n True by (simp add: kind_row_def on_kind_def)
  have ne: "?loc \<noteq> i" "REF_LOC_ALL \<noteq> i" "?loc \<noteq> REF_LOC_ALL" "?loc < REF_LOC_MAX" "REF_LOC_ALL < REF_LOC_MAX"
    using assms(2) by (auto simp: kind_row_def ref_loc_defs)
  let ?Q = "\<lambda>g :: histogram. g i = h i \<and> (\<forall>r. length (g r) = cols)"
  let ?F = "\<lambda>j r k. if (r = ?loc \<or> r = REF_LOC_ALL) \<and> k = j then h i ! j else 0"
  have "\<exists>g. rfold (\<lambda>j h. if j < length (h i)
              then rbind (add_cell ?loc j (h i ! j) h) (add_cell REF_LOC_ALL j (h i ! j))
              else Inl Bad_index) [0..<cols] h = Inr g \<and>
          adds h g (\<lambda>r k. \<Sum>j\<leftarrow>[0..<cols]. ?F j r k) \<and> ?Q g"
  proof (rule rfold_adds [where Q = ?Q])
    fix j g assume j: "j \<in> set [0..<cols]" and Q: "?Q g"
    obtain g1 where g1: "add_cell ?loc j (h i ! j) g = Inr g1"
      "adds g g1 (\<lambda>r k. if r = ?loc \<and> k = j then h i ! j else 0)"
      using add_cell_adds [of ?loc j g "h i ! j"] ne Q j by auto
    have l1: "length (g1 r) = cols" for r using g1(2) Q by (simp add: adds_def)
    obtain g2 where g2: "add_cell REF_LOC_ALL j (h i ! j) g1 = Inr g2"
      "adds g1 g2 (\<lambda>r k. if r = REF_LOC_ALL \<and> k = j then h i ! j else 0)"
      using add_cell_adds [of REF_LOC_ALL j g1 "h i ! j"] ne l1 j by auto
    have ad: "adds g g2 (?F j)"
      by (rule adds_cong [OF adds_trans [OF g1(2) g2(2)]]) (use ne in auto)
    moreover have "g2 i = g i" by (rule adds_unchanged [OF ad]) (use ne in auto)
    moreover have "length (g2 r) = cols" for r using ad Q by (simp add: adds_def)
    ultimately show "\<exists>e. (if j < length (g i)
              then rbind (add_cell ?loc j (g i ! j) g) (add_cell REF_LOC_ALL j (g i ! j))
              else Inl Bad_index) = Inr e \<and> adds g e (?F j) \<and> ?Q e"
      using g1(1) g2(1) Q j assms(3) by auto
  qed (use assms(3) in simp)
  then obtain g where g: "count_node c cols i h = Inr g"
    "adds h g (\<lambda>r k. \<Sum>j\<leftarrow>[0..<cols]. ?F j r k)"
    using True unfolding count_node_def Let_def n rbind.simps loc by auto
  have "adds h g (\<lambda>r k. if is_valid_nid c (int i) \<and> (r = ?loc \<or> r = REF_LOC_ALL) then h i ! k else 0)"
    by (rule adds_cong [OF g(2)]) (use assms(3) True in \<open>simp add: sum_single_column\<close>)
  then show ?thesis using g(1) by blast
qed


lemma refs_counted_disjoint:
  assumes "\<And>nid. \<not> (L nid \<and> M nid)"
  shows "refs_counted nw xs L k + refs_counted nw xs M k = refs_counted nw xs (\<lambda>nid. L nid \<or> M nid) k"
  using assms by (induction xs) (auto simp: refs_counted_Cons refs_counted_def)

lemma refs_counted_cong:
  assumes "\<And>a p nid. (a, p, nid) \<in> set xs \<Longrightarrow> L nid = M nid"
  shows "refs_counted nw xs L k = refs_counted nw xs M k"
proof -
  have "filter (\<lambda>(a, p, nid). L nid \<and> ref_col nw p = k) xs = filter (\<lambda>(a, p, nid). M nid \<and> ref_col nw p = k) xs"
    by (rule filter_cong) (use assms in auto)
  then show ?thesis by (simp add: refs_counted_def)
qed

lemma sum_over_nodes:
  "(\<Sum>i\<leftarrow>[0..<n]. if V (int i) then refs_counted nw xs (\<lambda>nid. nid \<ge> 0 \<and> nat nid = i) k else 0) =
     refs_counted nw xs (\<lambda>nid. 0 \<le> nid \<and> nid < int n \<and> V nid) k"
proof (induction n)
  case 0
  have "filter (\<lambda>(a, p, nid). (0 \<le> nid \<and> nid < int 0 \<and> V nid) \<and> ref_col nw p = k) xs = []"
    by (auto simp: filter_empty_conv)
  then show ?case by (simp add: refs_counted_def del: of_nat_0)
next
  case (Suc n)
  have "refs_counted nw xs (\<lambda>nid. 0 \<le> nid \<and> nid < int n \<and> V nid) k +
      refs_counted nw xs (\<lambda>nid. V (int n) \<and> nid \<ge> 0 \<and> nat nid = n) k =
      refs_counted nw xs (\<lambda>nid. 0 \<le> nid \<and> nid < int (Suc n) \<and> V nid) k"
  proof (subst refs_counted_disjoint)
    show "refs_counted nw xs (\<lambda>nid. 0 \<le> nid \<and> nid < int n \<and> V nid \<or> V (int n) \<and> 0 \<le> nid \<and> nat nid = n) k =
        refs_counted nw xs (\<lambda>nid. 0 \<le> nid \<and> nid < int (Suc n) \<and> V nid) k"
    proof (rule refs_counted_cong)
      fix nid show "(0 \<le> nid \<and> nid < int n \<and> V nid \<or> V (int n) \<and> 0 \<le> nid \<and> nat nid = n) =
          (0 \<le> nid \<and> nid < int (Suc n) \<and> V nid)"
        by (cases "nid = int n") auto
    qed
  qed auto
  moreover have "refs_counted nw xs (\<lambda>nid. V (int n) \<and> nid \<ge> 0 \<and> nat nid = n) k =
      (if V (int n) then refs_counted nw xs (\<lambda>nid. nid \<ge> 0 \<and> nat nid = n) k else 0)"
    by (simp add: refs_counted_def)
  ultimately show ?case using Suc by simp
qed

lemma count_nodes_adds:
  assumes "numa_inv c" and "\<forall>r. length (h r) = cols"
  shows "\<exists>g. rfold (count_node c cols) [0..<nat MAX_NID + 1] h = Inr g \<and>
           adds h g (\<lambda>r k. \<Sum>i\<leftarrow>[0..<nat MAX_NID + 1].
             if is_valid_nid c (int i) \<and> (r = kind_row c i \<or> r = REF_LOC_ALL) then h i ! k else 0)"
proof -
  let ?Q = "\<lambda>g :: histogram. (\<forall>r. length (g r) = cols) \<and> (\<forall>r \<le> nat MAX_NID. g r = h r)"
  let ?F = "\<lambda>i r k. if is_valid_nid c (int i) \<and> (r = kind_row c i \<or> r = REF_LOC_ALL) then h i ! k else 0"
  have "\<exists>g. rfold (count_node c cols) [0..<nat MAX_NID + 1] h = Inr g \<and>
      adds h g (\<lambda>r k. \<Sum>i\<leftarrow>[0..<nat MAX_NID + 1]. ?F i r k) \<and> ?Q g"
  proof (rule rfold_adds [where Q = ?Q])
    fix i g assume i: "i \<in> set [0..<nat MAX_NID + 1]" and Q: "?Q g"
    from i have i': "i \<le> nat MAX_NID" by (simp only: set_upt) auto
    obtain e where e: "count_node c cols i g = Inr e"
      "adds g e (\<lambda>r k. if is_valid_nid c (int i) \<and> (r = kind_row c i \<or> r = REF_LOC_ALL) then g i ! k else 0)"
      using count_node_adds [OF assms(1) i', of g cols] Q by blast
    have gi: "g i = h i" using Q i' by blast
    have ad: "adds g e (?F i)" using e(2) unfolding gi .
    have "e r = g r" if "r \<le> nat MAX_NID" for r
      by (rule adds_unchanged [OF ad]) (use that in \<open>auto simp: kind_row_def ref_loc_defs\<close>)
    moreover have "length (e r) = cols" for r using ad Q by (simp add: adds_def)
    ultimately show "\<exists>e. count_node c cols i g = Inr e \<and> adds g e (?F i) \<and> ?Q e"
      using e(1) ad Q by auto
  qed (use assms(2) in simp)
  then show ?thesis by blast
qed

lemma add_row_adds:
  assumes "from < REF_LOC_MAX" "to < REF_LOC_MAX" "from \<noteq> to" and "\<forall>r. length (h r) = cols"
  shows "\<exists>g. add_row cols to from h = Inr g \<and>
           adds h g (\<lambda>r k. if r = to then h from ! k else 0)"
proof -
  let ?Q = "\<lambda>g :: histogram. g from = h from \<and> (\<forall>r. length (g r) = cols)"
  let ?F = "\<lambda>j r k. if r = to \<and> k = j then h from ! j else 0"
  have "\<exists>g. add_row cols to from h = Inr g \<and> adds h g (\<lambda>r k. \<Sum>j\<leftarrow>[0..<cols]. ?F j r k) \<and> ?Q g"
    unfolding add_row_def
  proof (rule rfold_adds [where Q = ?Q])
    fix j g assume j: "j \<in> set [0..<cols]" and Q: "?Q g"
    obtain e where e: "add_cell to j (h from ! j) g = Inr e" "adds g e (?F j)"
      using add_cell_adds [of to j g "h from ! j"] assms(2) Q j by auto
    have "e from = g from" by (rule adds_unchanged [OF e(2)]) (use assms(3) in auto)
    moreover have "length (e r) = cols" for r using e(2) Q by (simp add: adds_def)
    ultimately show "\<exists>e. (if j < length (g from) then add_cell to j (g from ! j) g else Inl Bad_index) = Inr e \<and>
        adds g e (?F j) \<and> ?Q e"
      using e Q j assms(4) by auto
  qed (use assms(4) in simp)
  then obtain g where g: "add_row cols to from h = Inr g" "adds h g (\<lambda>r k. \<Sum>j\<leftarrow>[0..<cols]. ?F j r k)" by blast
  have "adds h g (\<lambda>r k. if r = to then h from ! k else 0)"
    by (rule adds_cong [OF g(2)]) (use assms(4) in \<open>simp add: sum_single_column\<close>)
  then show ?thesis using g(1) by blast
qed


lemma count_refs_one_rows:
  assumes "numa_inv c" and "0 \<le> nw" "nw \<le> 255" and "seq_inv (page_refs prc)"
    and "\<forall>(a, p, nid) \<in> set (items (page_refs prc)). nid \<le> MAX_NID"
  defines "xs \<equiv> items (page_refs prc)"
  shows "\<exists>s g. count_refs_one c nw prc = Some (Inr \<lparr>page_refs = s, histogram_2d = g\<rparr>) \<and>
           seq_inv s \<and> items s = xs \<and>
           adds (\<lambda>_. replicate (nat nw + 1) 0) g (\<lambda>r k.
             refs_counted nw xs (\<lambda>nid. ref_row nid = r) k +
             (\<Sum>i\<leftarrow>[0..<nat MAX_NID + 1].
               if is_valid_nid c (int i) \<and> (r = kind_row c i \<or> r = REF_LOC_ALL)
               then refs_counted nw xs (\<lambda>nid. ref_row nid = i) k else 0) +
             (if r = REF_LOC_ALL then refs_counted nw xs (\<lambda>nid. nid < 0) k else 0))"
proof -
  let ?z = "reset_one_ref_count (nw + 1)" and ?cols = "nat nw + 1"
  have z: "?z = (\<lambda>_. replicate (nat nw + 1) 0)" using assms(2) by (simp add: reset_one_ref_count_def nat_add_distrib)
  have cols: "nat (nw + 1) = ?cols" using assms(2) by simp
  obtain s where s: "visit_fold (count_item nw) (Inr ?z) (page_refs prc) = Some (fold (count_item nw) xs (Inr ?z), s)"
    "seq_inv s" "items s = xs"
    using page_refs.visit_items [OF assms(4), of "count_item nw" "Inr ?z", folded xs_def] by blast
  obtain g1 where g1: "fold (count_item nw) xs (Inr ?z) = Inr g1"
    "adds ?z g1 (\<lambda>r k. refs_counted nw xs (\<lambda>nid. ref_row nid = r) k)"
    using count_items_adds [OF assms(2,3), of ?z xs] assms(5) by (auto simp: z xs_def)
  have l1: "length (g1 r) = ?cols" for r using g1(2) by (simp add: adds_def z)
  obtain g2 where g2: "rfold (count_node c ?cols) [0..<nat MAX_NID + 1] g1 = Inr g2"
    "adds g1 g2 (\<lambda>r k. \<Sum>i\<leftarrow>[0..<nat MAX_NID + 1].
             if is_valid_nid c (int i) \<and> (r = kind_row c i \<or> r = REF_LOC_ALL) then g1 i ! k else 0)"
    using count_nodes_adds [OF assms(1), of g1 ?cols] l1 by blast
  have l2: "length (g2 r) = ?cols" for r using g2(2) l1 by (simp add: adds_def)
  obtain g3 where g3: "add_row ?cols REF_LOC_ALL REF_LOC_UNKNOWN g2 = Inr g3"
    "adds g2 g3 (\<lambda>r k. if r = REF_LOC_ALL then g2 REF_LOC_UNKNOWN ! k else 0)"
    using add_row_adds [of REF_LOC_UNKNOWN REF_LOC_ALL g2 ?cols] l2 by (auto simp: ref_loc_defs)
  have base: "g1 i ! k = refs_counted nw xs (\<lambda>nid. ref_row nid = i) k" if "k < ?cols" for i k
    using g1(2) that by (cases k) (auto simp: adds_def z)
  have ne: "REF_LOC_UNKNOWN \<noteq> kind_row c i" "REF_LOC_UNKNOWN \<noteq> REF_LOC_ALL" for i
    by (simp_all add: kind_row_def ref_loc_defs)
  have "g2 REF_LOC_UNKNOWN = g1 REF_LOC_UNKNOWN"
    by (rule adds_unchanged [OF g2(2)]) (simp add: ne del: upt_Suc)
  then have unk: "g2 REF_LOC_UNKNOWN ! k = refs_counted nw xs (\<lambda>nid. nid < 0) k" if "k < ?cols" for k
  proof -
    have "refs_counted nw xs (\<lambda>nid. ref_row nid = REF_LOC_UNKNOWN) k = refs_counted nw xs (\<lambda>nid. nid < 0) k"
      by (rule refs_counted_cong) (use assms(5) in \<open>auto simp: ref_row_def ref_loc_defs xs_def\<close>)
    then show ?thesis using \<open>g2 REF_LOC_UNKNOWN = g1 REF_LOC_UNKNOWN\<close> base [OF that] by simp
  qed
  have "adds ?z g3 (\<lambda>r k.
             refs_counted nw xs (\<lambda>nid. ref_row nid = r) k +
             (\<Sum>i\<leftarrow>[0..<nat MAX_NID + 1].
               if is_valid_nid c (int i) \<and> (r = kind_row c i \<or> r = REF_LOC_ALL)
               then refs_counted nw xs (\<lambda>nid. ref_row nid = i) k else 0) +
             (if r = REF_LOC_ALL then refs_counted nw xs (\<lambda>nid. nid < 0) k else 0))"
    by (rule adds_cong [OF adds_trans [OF adds_trans [OF g1(2) g2(2)] g3(2)]])
      (simp add: z unk base cong: if_cong del: upt_Suc)
  moreover have "count_refs_one c nw prc = Some (Inr \<lparr>page_refs = s, histogram_2d = g3\<rparr>)"
    unfolding count_refs_one_def Let_def cols s(1) using g1(1) g2(1) g3(1) by simp
  ultimately show ?thesis using s(2,3) unfolding z by blast
qed


text \<open>The rows of the result, by node, by kind of memory, and over all nodes.\<close>

definition row_pages :: "numa_collection \<Rightarrow> nat \<Rightarrow> int \<Rightarrow> bool" where
  "row_pages c r nid \<longleftrightarrow>
     (if r \<le> nat MAX_NID then nid = int r
      else if r = REF_LOC_UNKNOWN then nid < 0
      else if r = REF_LOC_DRAM then 0 \<le> nid \<and> on_kind c False nid
      else if r = REF_LOC_PMEM then 0 \<le> nid \<and> on_kind c True nid
      else True)"

lemma kind_of_valid:
  assumes "numa_inv c" and "is_valid_nid c nid"
  shows "on_kind c True nid \<longleftrightarrow> \<not> on_kind c False nid"
  using numa.valid_node [OF assms] assms(2) by (auto simp: on_kind_def)

lemma valid_nonneg: "is_valid_nid c nid \<Longrightarrow> 0 \<le> nid"
  by (simp add: is_valid_nid_def)

lemma row_counts:
  assumes "numa_inv c" and "\<forall>(a, p, nid) \<in> set xs. nid_ok c nid" and "r < REF_LOC_MAX"
  shows "refs_counted nw xs (\<lambda>nid. ref_row nid = r) k +
         (\<Sum>i\<leftarrow>[0..<nat MAX_NID + 1].
            if is_valid_nid c (int i) \<and> (r = kind_row c i \<or> r = REF_LOC_ALL)
            then refs_counted nw xs (\<lambda>nid. ref_row nid = i) k else 0) +
         (if r = REF_LOC_ALL then refs_counted nw xs (\<lambda>nid. nid < 0) k else 0) =
         refs_counted nw xs (row_pages c r) k"
proof -
  let ?V = "\<lambda>nid. is_valid_nid c nid \<and> (r = kind_row c (nat nid) \<or> r = REF_LOC_ALL)"
  have "(\<Sum>i\<leftarrow>[0..<nat MAX_NID + 1].
            if is_valid_nid c (int i) \<and> (r = kind_row c i \<or> r = REF_LOC_ALL)
            then refs_counted nw xs (\<lambda>nid. ref_row nid = i) k else 0) =
      (\<Sum>i\<leftarrow>[0..<nat MAX_NID + 1].
            if ?V (int i) then refs_counted nw xs (\<lambda>nid. nid \<ge> 0 \<and> nat nid = i) k else 0)"
  proof (rule arg_cong [where f = sum_list], rule map_cong [OF refl])
    fix i assume "i \<in> set [0..<nat MAX_NID + 1]"
    then have "i \<le> nat MAX_NID" by (simp only: set_upt) auto
    then have "refs_counted nw xs (\<lambda>nid. ref_row nid = i) k = refs_counted nw xs (\<lambda>nid. nid \<ge> 0 \<and> nat nid = i) k"
      by (intro refs_counted_cong) (auto simp: ref_row_def ref_loc_defs)
    then show "(if is_valid_nid c (int i) \<and> (r = kind_row c i \<or> r = REF_LOC_ALL)
            then refs_counted nw xs (\<lambda>nid. ref_row nid = i) k else 0) =
          (if ?V (int i) then refs_counted nw xs (\<lambda>nid. nid \<ge> 0 \<and> nat nid = i) k else 0)" by (simp only: nat_int)
  qed
  also have "\<dots> = refs_counted nw xs (\<lambda>nid. 0 \<le> nid \<and> nid < int (nat MAX_NID + 1) \<and> ?V nid) k"
    by (rule sum_over_nodes)
  finally have sum: "(\<Sum>i\<leftarrow>[0..<nat MAX_NID + 1].
            if is_valid_nid c (int i) \<and> (r = kind_row c i \<or> r = REF_LOC_ALL)
            then refs_counted nw xs (\<lambda>nid. ref_row nid = i) k else 0) =
      refs_counted nw xs (\<lambda>nid. 0 \<le> nid \<and> nid < int (nat MAX_NID + 1) \<and> ?V nid) k" .
  have all: "(if r = REF_LOC_ALL then refs_counted nw xs (\<lambda>nid. nid < 0) k else 0) =
      refs_counted nw xs (\<lambda>nid. r = REF_LOC_ALL \<and> nid < 0) k"
    by (cases "r = REF_LOC_ALL") (simp_all add: refs_counted_def case_prod_beta)
  have ok: "nid < 0 \<or> nid \<le> MAX_NID \<and> is_valid_nid c nid \<and> (on_kind c True nid \<longleftrightarrow> \<not> on_kind c False nid)"
    if "(a, p, nid) \<in> set xs" for a p nid
    using assms(2) that kind_of_valid [OF assms(1)] by (auto simp: nid_ok_def)
  show ?thesis unfolding sum all
  proof (subst refs_counted_disjoint, goal_cases)
    case (1 nid)
    show ?case using assms(3) by (auto simp: ref_row_def kind_row_def ref_loc_defs)
  next
    case 2
    show ?case
    proof (subst refs_counted_disjoint, goal_cases)
      case (1 nid)
      show ?case by (auto simp: ref_row_def ref_loc_defs)
    next
      case 2
      show ?case
      proof (rule refs_counted_cong)
        fix a p nid assume m: "(a, p, nid) \<in> set xs"
        have "r \<le> 31 \<or> r \<in> {32, 33, 34, 35}" using assms(3) by (auto simp: ref_loc_defs)
        then show "((ref_row nid = r \<or> 0 \<le> nid \<and> nid < int (nat MAX_NID + 1) \<and> ?V nid) \<or>
            r = REF_LOC_ALL \<and> nid < 0) = row_pages c r nid"
          using ok [OF m] by (auto simp: row_pages_def ref_row_def kind_row_def ref_loc_defs valid_nonneg)
      qed
    qed
  qed
qed



text \<open>A collection with a DRAM node and a sequence with one page, for the witnesses.\<close>

definition one_node :: numa_collection where
  "one_node = snd (create_node 0 NUMA_NODE_DRAM (resize_node_map 2 (empty_collection\<lparr>nr_possible_node := 2\<rparr>)))"

lemma one_node_inv: "numa_inv one_node"
  unfolding one_node_def
  by (rule create_node_inv [OF resize_empty_inv])
    (simp add: resize_node_map_def empty_collection_def numeral_2_eq_2)

lemma one_node_valid: "is_valid_nid one_node 0" "page_location one_node 0 = LOC_DRAM"
  by code_simp+

lemma one_item_inv: "seq_inv one_item" "in_append_period one_item"
proof -
  have r: "appending (rewind (fresh_seq new_seq 12))" by (rule appending_rewind_fresh) simp_all
  have "appending one_item"
    using inc_payload_appending [OF r, of "0x1000" 8] r
    by (auto simp: inc_payload_def appending_def one_item_def)
  then show "seq_inv one_item" "in_append_period one_item" by (simp_all add: appending_def)
qed

lemma one_item_items: "items one_item = [(0x1000, 8, - 1)]" "addrs one_item = [0x1000]"
  using one_item_contents map_fst_contents [of one_item] by (simp_all add: items_def)

theorem memory_type_annotates_witness:
  "\<exists>t. get_memory_type_one (\<lambda>as. (0, map (\<lambda>_. 0) as)) one_node one_item = Some (Inr t) \<and>
       contents t = [(0x1000, 8, 0, LOC_DRAM)]"
  using memory_type_annotates [OF one_item_inv one_node_inv, of "\<lambda>as. (0, map (\<lambda>_. 0) as)" "\<lambda>_. 0"]
    one_node_valid one_item_contents
  by (simp add: answers_def nid_ok_def MAX_NID_def)



section \<open>Repeated walks\<close>

text \<open>\<open>refs_ready n\<close>: the arrays after \<open>n\<close> walks.\<close>

definition refs_ready :: "int \<Rightarrow> refs_array \<Rightarrow> bool" where
  "refs_ready n refs \<longleftrightarrow> (\<forall>i \<le> MAX_ACCESSED.
     nr_walks (page_refs (refs i)) = n \<and>
     ((\<exists>s shift. n = 0 \<and> shift \<le> 30 \<and> buf_oom s = [] \<and> vec_oom s = [] \<and> page_refs (refs i) = fresh_seq s shift) \<or>
      n = 1 \<and> seq_run Appending (page_refs (refs i)) \<or>
      2 \<le> n \<and> seq_run Counting (page_refs (refs i))))"

lemma inc_payload_nr_walks:
  assumes "inc_payload s a n = Some (rc, t)"
  shows "nr_walks t = nr_walks s"
proof (cases "in_append_period s")
  case True
  then have "t = snd (append_addr s a n)" using assms by (simp add: inc_payload_def prod_eq_iff)
  then show ?thesis
    by (auto simp: append_addr_def create_cluster_def get_free_buffer_def allocate_buf_def
        save_into_cluster_def rc_negative_def Let_def split: prod.splits sum.splits)
next
  case False
  then have "update_addr s a n True = Some (rc, t)" using assms by (simp add: inc_payload_def)
  then show ?thesis
    by (auto simp: update_addr_def do_walk_update_payload_def update_addr_location_count_def Let_def
        split: Option.bind_splits if_splits)
qed

lemma deliver_ready:
  assumes "deliver refs rs = Some refs'" and "refs_ready n refs" and "1 \<le> n"
  shows "refs_ready n refs'"
  using assms(1,2)
proof (induction rs arbitrary: refs)
  case Nil
  then show ?case by simp
next
  case (Cons r rs)
  obtain i va k where r: "r = (i, va, k)" by (cases r)
  obtain rc t where t: "inc_payload (page_refs (refs i)) va k = Some (rc, t)"
    "deliver (set_page_refs refs i t) rs = Some refs'"
    using Cons.prems(1) r by (auto split: Option.bind_splits)
  have "refs_ready n (set_page_refs refs i t)"
    unfolding refs_ready_def
  proof (intro allI impI)
    fix j assume j: "j \<le> MAX_ACCESSED"
    note jr = Cons.prems(2) [unfolded refs_ready_def, rule_format, OF j]
    show "nr_walks (page_refs (set_page_refs refs i t j)) = n \<and>
       ((\<exists>s shift. n = 0 \<and> shift \<le> 30 \<and> buf_oom s = [] \<and> vec_oom s = [] \<and>
           page_refs (set_page_refs refs i t j) = fresh_seq s shift) \<or>
        n = 1 \<and> seq_run Appending (page_refs (set_page_refs refs i t j)) \<or>
        2 \<le> n \<and> seq_run Counting (page_refs (set_page_refs refs i t j)))"
    proof (cases "j = i")
      case True
      then have "n = 1 \<and> seq_run Appending (page_refs (refs i)) \<or> 2 \<le> n \<and> seq_run Counting (page_refs (refs i))"
        using jr assms(3) by auto
      then have "n = 1 \<and> seq_run Appending t \<or> 2 \<le> n \<and> seq_run Counting t"
        using seq_run.append [OF _ t(1)] seq_run.count [OF _ t(1)] by auto
      then show ?thesis using True jr inc_payload_nr_walks [OF t(1)] by auto
    qed (use jr in simp)
  qed
  then show ?case using Cons.IH [OF t(2)] by simp
qed

lemma rewind_ready:
  assumes "refs_ready n refs"
  shows "refs_ready (n + 1) (rewind_refs refs)"
  unfolding refs_ready_def
proof (intro allI impI)
  fix i assume i: "i \<le> MAX_ACCESSED"
  note r = assms [unfolded refs_ready_def, rule_format, OF i]
  have e: "page_refs (rewind_refs refs i) = rewind (page_refs (refs i))"
    using i by (simp add: rewind_refs_def)
  have n: "nr_walks (rewind (page_refs (refs i))) = n + 1" using r by (simp add: rewind_fields)
  have "n = 0 \<and> seq_run Appending (rewind (page_refs (refs i))) \<or> 1 \<le> n \<and> seq_run Counting (rewind (page_refs (refs i)))"
    using r seq_run.start seq_run.next_walk by auto
  then show "nr_walks (page_refs (rewind_refs refs i)) = n + 1 \<and>
     ((\<exists>s shift. n + 1 = 0 \<and> shift \<le> 30 \<and> buf_oom s = [] \<and> vec_oom s = [] \<and>
         page_refs (rewind_refs refs i) = fresh_seq s shift) \<or>
      n + 1 = 1 \<and> seq_run Appending (page_refs (rewind_refs refs i)) \<or>
      2 \<le> n + 1 \<and> seq_run Counting (page_refs (rewind_refs refs i)))"
    using e n by auto
qed

lemma walk_ready:
  assumes "walk ops max_threads maps d s = Some (rc, d', s')" and "refs_ready (ip_nr_walks s) (pagetype_refs s)"
    and "0 \<le> ip_nr_walks s"
  shows "refs_ready (ip_nr_walks s') (pagetype_refs s') \<and>
         ip_nr_walks s \<le> ip_nr_walks s' \<and> ip_nr_walks s' \<le> ip_nr_walks s + 1"
proof (cases "ip_placement s = PLACEMENT_DRAM \<or> maps = []")
  case True
  then show ?thesis using assms by (auto simp: walk_def split: if_splits)
next
  case False
  obtain fd d1 s1 where o: "open_file ops d s = (fd, d1, s1)" by (cases "open_file ops d s")
  then have s1: "pagetype_refs s1 = pagetype_refs s" "ip_nr_walks s1 = ip_nr_walks s"
    using open_file_fields [of ops d s] by simp_all
  show ?thesis
  proof (cases "fd < 0")
    case True
    then show ?thesis using assms False o s1 by (auto simp: walk_def)
  next
    case fd: False
    define s2 where "s2 = s1\<lparr>ip_nr_walks := ip_nr_walks s1 + 1, read_buf_size := READ_BUF_SIZE,
      min_read_size := (if max_threads \<le> 1 then PAGE_SIZE else EPT_IDLE_BUF_MIN),
      pagetype_refs := rewind_refs (pagetype_refs s1), next_va := 0\<rparr>"
    obtain d2 where "walk_vmas ops maps (- 1) d1 s2 = Some (rc, d2, s')"
      using assms False o fd unfolding walk_def s2_def by (auto simp: Let_def split: Option.bind_splits)
    note w = walk_vmas_within [OF this]
    then obtain rs where "deliver (pagetype_refs s2) rs = Some (pagetype_refs s')" by (auto simp: delivers_def)
    from deliver_ready [OF this] rewind_ready [OF assms(2)] assms(3) w
    show ?thesis by (simp add: s2_def s1)
  qed
qed

lemma walk_rounds_ready:
  assumes "walk_rounds ops max_threads load auto_stop dram_percent k d s = Some (rc, d', s')"
    and "refs_ready (ip_nr_walks s) (pagetype_refs s)" and "0 \<le> ip_nr_walks s"
  shows "refs_ready (ip_nr_walks s') (pagetype_refs s') \<and> 0 \<le> ip_nr_walks s' \<and>
         ip_nr_walks s' \<le> ip_nr_walks s + int k"
  using assms
proof (induction k arbitrary: d s)
  case 0
  then show ?case by simp
next
  case (Suc k)
  obtain maps d0 where l: "load d = (maps, d0)" by (cases "load d")
  obtain err d1 s1 where w: "walk ops max_threads maps d0 s = Some (err, d1, s1)"
    and rest: "(if err < 0 then Some (err, d1, s1)
        else if auto_stop \<and> should_stop dram_percent s1 then Some (0, d1, s1)
        else walk_rounds ops max_threads load auto_stop dram_percent k d1 s1) = Some (rc, d', s')"
    using Suc.prems(1) l by (auto split: Option.bind_splits)
  note r = walk_ready [OF w Suc.prems(2,3)]
  show ?case
  proof (cases "err < 0 \<or> auto_stop \<and> should_stop dram_percent s1")
    case True
    then show ?thesis using rest r Suc.prems(3) by (auto split: if_splits)
  next
    case False
    then have "walk_rounds ops max_threads load auto_stop dram_percent k d1 s1 = Some (rc, d', s')"
      using rest by auto
    from Suc.IH [OF this] r Suc.prems(3) show ?thesis by simp
  qed
qed

lemma prepare_walks_ready:
  assumes "\<forall>i \<le> MAX_ACCESSED. buf_oom (page_refs (pagetype_refs s i)) = [] \<and> vec_oom (page_refs (pagetype_refs s i)) = []"
  shows "refs_ready 0 (pagetype_refs (prepare_walks s))"
  unfolding refs_ready_def
proof (intro allI impI)
  fix i assume i: "i \<le> MAX_ACCESSED"
  have e: "page_refs (pagetype_refs (prepare_walks s) i) = fresh_seq (page_refs (pagetype_refs s i)) (pagetype_shift i)"
    using i by (simp add: prepare_walks_def fresh_seq_def)
  have "pagetype_shift i \<le> 30" using i by (auto simp: pagetype_shift_def numeral_2_eq_2 le_Suc_eq)
  then show "nr_walks (page_refs (pagetype_refs (prepare_walks s) i)) = 0 \<and>
     ((\<exists>t shift. (0::int) = 0 \<and> shift \<le> 30 \<and> buf_oom t = [] \<and> vec_oom t = [] \<and>
         page_refs (pagetype_refs (prepare_walks s) i) = fresh_seq t shift) \<or>
      (0::int) = 1 \<and> seq_run Appending (page_refs (pagetype_refs (prepare_walks s) i)) \<or>
      (2::int) \<le> 0 \<and> seq_run Counting (page_refs (pagetype_refs (prepare_walks s) i)))"
    using assms i fresh_seq_inv(4) unfolding e by blast
qed

text \<open>
  C13: Repeated walks stay in step: however the kernel's file behaves and wherever the walks stop, the
  number of walks done is at most the number asked for, at most 255 (so the counts fit the width of
  the payload's column), and at most 30 when the scan stops by itself; every array has seen exactly
  that many walks, and it is cleared, in its appending phase or in its counting phase according to
  whether that number is 0, 1 or more, so that the properties of the address sequence apply.
\<close>

theorem walk_multi_in_step:
  assumes "walk_multi ops max_threads load dram_percent nr d s = Some (rc, d', s')"
    and "fst (load d) \<noteq> []"
    and "\<forall>i \<le> MAX_ACCESSED. buf_oom (page_refs (pagetype_refs s i)) = [] \<and> vec_oom (page_refs (pagetype_refs s i)) = []"
  shows "refs_ready (ip_nr_walks s') (pagetype_refs s') \<and> 0 \<le> ip_nr_walks s' \<and>
         ip_nr_walks s' \<le> (if nr = 0 then 30 else max 0 (min nr 255))"
proof -
  let ?p = "prepare_walks s"
  obtain k auto_stop where w: "walk_rounds ops max_threads load auto_stop dram_percent k (snd (load d)) ?p = Some (rc, d', s')"
    and k: "int k = (if nr = 0 then 30 else max 0 (min nr 255))"
    using assms(1,2) by (auto simp: walk_multi_def max_walks_def case_prod_beta Let_def split: if_splits)
  have "ip_nr_walks ?p = 0" by (simp add: prepare_walks_def)
  with walk_rounds_ready [OF w] prepare_walks_ready [OF assms(3)] k show ?thesis by simp
qed

theorem walk_multi_in_step_witness:
  "\<exists>rc s'. walk_multi hole_ops 1 (\<lambda>d. ([heap_vma], d)) 0 1 () idle_example = Some (rc, (), s') \<and>
     refs_ready (ip_nr_walks s') (pagetype_refs s') \<and> ip_nr_walks s' \<le> 1"
proof -
  have "walk_multi hole_ops 1 (\<lambda>d. ([heap_vma], d)) 0 1 () idle_example \<noteq> None"
    by (simp add: walk_multi_def prepare_walks_def walk_def hole_ops_def idle_example_def heap_vma_def
        ProcIdlePages_ctor_def open_file_def walk_vma_def is_anonymous_def TASK_SIZE_MAX_def PAGE_SIZE_def
        walk_loop.simps Let_def)
  then obtain rc s' where w: "walk_multi hole_ops 1 (\<lambda>d. ([heap_vma], d)) 0 1 () idle_example = Some (rc, (), s')"
    by auto
  have "\<forall>i \<le> MAX_ACCESSED. buf_oom (page_refs (pagetype_refs idle_example i)) = [] \<and>
      vec_oom (page_refs (pagetype_refs idle_example i)) = []"
    by (simp add: idle_example_def ProcIdlePages_ctor_def empty_refs_def)
  from walk_multi_in_step [OF w _ this] w show ?thesis by simp
qed

end
