(* ===== verification/Move_Pages_Correct.thy ===== *)
theory Move_Pages_Correct
  imports Move_Pages EPT_Scan_Correct
begin

text \<open>
  Correctness of moving pages: the packed state of a move can be unpacked and the bytes moved are
  counted once; choosing targets only permutes the pages and puts those with a node in front; the
  batch loop returns, keeps the pages, and overdraws the DRAM quota by less than one batch.
\<close>

unbundle bit_operations_syntax

section \<open>Counting\<close>

lemma int8_of_mod:
  fixes r :: int
  assumes "- 128 \<le> r" "r < 128"
  shows "int8_of (r mod 256) = r"
proof -
  have "int8_of (r mod 256) = int8_of r"
    by (simp add: int8_of_def signed_take_bit_eq_iff_take_bit_eq take_bit_eq_mod)
  then show ?thesis using int8_of_id [OF assms] by simp
qed

lemma and_255_int: "(x :: int) AND 255 = x mod 256"
proof -
  have "(255 :: int) = mask 8" by (simp add: mask_eq_exp_minus_1)
  then show ?thesis by (simp only: flip: take_bit_eq_mask) (simp add: take_bit_eq_mod)
qed

lemma unbox_box:
  assumes "0 \<le> f" "f < 128" "0 \<le> t" "t < 128" "- 128 \<le> r" "r < 128"
  shows "unbox_movestate (box_movestate f t r) = (f, t, r)"
proof -
  let ?k = "box_movestate f t r"
  have k: "?k = f + 256 * (t + 256 * r)" by (simp add: box_movestate_def push_bit_eq_mult)
  have "(f + 256 * x) mod 256 = f" for x using assms by simp
  then have "?k mod 256 = f" by (simp only: k)
  moreover have d: "?k div 256 = t + 256 * r" using assms by (simp add: k)
  then have "?k div 256 mod 256 = t" using assms by simp
  moreover have "?k div 65536 = ?k div 256 div 256" by (simp add: zdiv_zmult2_eq flip: div_mult2_eq)
  then have "?k div 65536 = r" using d assms by simp
  ultimately show ?thesis
    using assms int8_of_mod [of r] int8_of_mod [of f] int8_of_mod [of t]
    by (simp add: unbox_movestate_def and_255_int drop_bit_eq_div)
qed

lemma sum_add_count:
  "(\<Sum>(k, v)\<leftarrow>add_count m key n. if P k then v else 0) =
     (\<Sum>(k, v)\<leftarrow>m. if P k then v else 0) + (if P key then n else 0)"
  by (induction m key n rule: add_count.induct) (auto simp: algebra_simps)

definition key_moved :: "int \<Rightarrow> bool" where
  "key_moved key = (case unbox_movestate key of (f, t, r) \<Rightarrow> is_page_moved f t r)"

lemma get_moved_bytes_alt:
  "get_moved_bytes s = (\<Sum>(k, v)\<leftarrow>move_page_status s. if key_moved k then v else 0)"
  by (auto simp: get_moved_bytes_def key_moved_def split: prod.splits intro!: arg_cong [where f = sum_list])

definition state_ok :: "int \<times> int \<times> int \<Rightarrow> bool" where
  "state_ok x = (case x of (f, t, r) \<Rightarrow> 0 \<le> f \<and> f < 128 \<and> 0 \<le> t \<and> t < 128 \<and> - 128 \<le> r \<and> r < 128)"

lemma moved_bytes_save:
  assumes "state_ok (f, t, r)"
  shows "get_moved_bytes (save_move_states f t r sh s) =
           get_moved_bytes s + (if is_page_moved f t r then push_bit sh 1 else 0)"
  using unbox_box [of f t r] assms
  by (simp add: get_moved_bytes_alt save_move_states_def sum_add_count state_ok_def)
    (simp add: key_moved_def)

lemma save_states_loop_counts:
  assumes "length fs = length rs" and "length ts = length rs" and "\<forall>x \<in> set (zip fs (zip ts rs)). state_ok x"
  shows "\<exists>s'. save_states_loop sh rs fs ts mkb skb s =
             Inr (mkb + of_nat (length (filter (\<lambda>(f, t, r). is_page_moved f t r) (zip fs (zip ts rs)))),
                  skb + of_nat (length (filter (\<lambda>(f, t, r). \<not> is_page_moved f t r) (zip fs (zip ts rs)))), s') \<and>
           to_move_kb s' = to_move_kb s \<and> skip_kb s' = skip_kb s \<and> move_kb s' = move_kb s \<and>
           get_moved_bytes s' = get_moved_bytes s +
             of_nat (length (filter (\<lambda>(f, t, r). is_page_moved f t r) (zip fs (zip ts rs)))) * push_bit sh 1"
  using assms
proof (induction sh rs fs ts mkb skb s rule: save_states_loop.induct)
  case (2 sh r rs f fs t ts mkb skb s)
  have ok: "state_ok (f, t, r)" using "2.prems" by simp
  then have p: "is_page_moved f t r \<longleftrightarrow> r = t \<and> f \<noteq> t" by (auto simp: state_ok_def is_page_moved_def)
  let ?m = "if r = t \<and> f \<noteq> t then mkb + 1 else mkb" and ?k = "if r = t \<and> f \<noteq> t then skb else skb + 1"
  have len: "length fs = length rs" "length ts = length rs" "\<forall>x \<in> set (zip fs (zip ts rs)). state_ok x"
    using "2.prems" by auto
  have f3: "to_move_kb (save_move_states f t r sh s) = to_move_kb s"
    "skip_kb (save_move_states f t r sh s) = skip_kb s" "move_kb (save_move_states f t r sh s) = move_kb s"
    by (simp_all add: save_move_states_def)
  have e: "save_states_loop sh (r # rs) (f # fs) (t # ts) mkb skb s =
      save_states_loop sh rs fs ts ?m ?k (save_move_states f t r sh s)" by simp
  show ?case
    using "2.IH" [of "(?m, ?k)" ?m ?k] len unfolding e
    by (auto simp: p f3 moved_bytes_save [OF ok] algebra_simps)
qed auto

section \<open>Targets\<close>

lemma get_node_live:
  assumes "numa_inv c" and "is_valid_nid c nid"
  shows "\<exists>q n. get_node c nid = Inr (Some q) \<and> deref c (Some q) = Inr n \<and> node_ok c q n \<and> nn_id n = nid"
proof -
  obtain n where n: "node_of c nid = Inr n" "nn_id n = nid" using numa.valid_node [OF assms] by blast
  then obtain p where p: "get_node c nid = Inr p" "deref c p = Inr n" by (auto simp: node_of_def)
  then obtain q where q: "p = Some q" by (auto simp: deref_def split: option.splits)
  then have "node_map c ! nat nid = Some q" using p(1) by (auto simp: get_node_def split: if_splits)
  moreover have "nat nid < length (node_map c)" using assms by (auto simp: numa_inv_def is_valid_nid_def)
  ultimately have "q \<in> set (nodes c)" using assms(1) unfolding numa_inv_def by blast
  then show ?thesis using numa_inv_deref [OF assms(1), of q] p q n by auto
qed

text \<open>The target the design asks for: hot pages go to DRAM, cold pages to PMEM.\<close>

definition target_spec :: "numa_collection \<Rightarrow> page_type \<Rightarrow> int \<Rightarrow> int \<Rightarrow> bool" where
  "target_spec c type nid t \<longleftrightarrow>
     (\<exists>n. node_of c nid = Inr n \<and>
        (if (type \<le> MAX_ACCESSED) \<noteq> is_pmem n then t = nid
         else case get_peer_node n of None \<Rightarrow> t = - 2
              | Some q \<Rightarrow> \<exists>peer. node_heap c q = Some peer \<and> t = nn_id peer))"

lemma get_target_node_spec:
  assumes "numa_inv c" and "is_valid_nid c nid"
  shows "\<exists>t. rbind (get_node c nid) (get_target_node c type) = Inr t \<and> target_spec c type nid t"
proof -
  obtain q n where q: "get_node c nid = Inr (Some q)" "deref c (Some q) = Inr n" "node_ok c q n" "nn_id n = nid"
    using get_node_live [OF assms] by blast
  have nd: "node_of c nid = Inr n" using q by (simp add: node_of_def)
  show ?thesis
  proof (cases "get_peer_node n")
    case None
    then show ?thesis using q nd by (auto simp: get_target_node_def target_spec_def Let_def)
  next
    case (Some p)
    then have "p \<in> set (nodes c)" using q(3) by (auto simp: node_ok_def get_peer_node_def split: numa_node_type.splits)
    then obtain m where "deref c (Some p) = Inr m" "node_heap c p = Some m" using numa_inv_deref [OF assms(1)] by blast
    then show ?thesis using q nd Some by (auto simp: get_target_node_def target_spec_def Let_def)
  qed
qed

lemma mset_zip_swap:
  fixes xs :: "'x list" and ys :: "'y list"
  assumes "i < length xs" "j < length xs" "length ys = length xs"
  shows "mset (zip (list_swap i j xs) (list_swap i j ys)) = mset (zip xs ys)"
proof -
  have "zip (list_swap i j xs) (list_swap i j ys) = list_swap i j (zip xs ys)"
    using assms by (intro nth_equalityI) (auto simp: list_swap_def nth_list_update)
  moreover have "mset (list_swap i j zs) = mset zs" if "i < length zs" "j < length zs" for zs :: "('x \<times> 'y) list"
    using mset_swap [OF that(2,1)] by (simp add: list_swap_def)
  ultimately show ?thesis using assms by simp
qed

definition gathered :: "numa_collection \<Rightarrow> page_type \<Rightarrow> int list \<Rightarrow> int list \<Rightarrow> nat \<Rightarrow> bool" where
  "gathered c type st ts k \<longleftrightarrow> (\<forall>i < k. 0 \<le> st ! i \<and> target_spec c type (st ! i) (ts ! i))"

lemma calc_targets_loop_gathers:
  assumes "numa_inv c" and "\<forall>x \<in> set st. 0 \<le> x \<longrightarrow> is_valid_nid c x"
    and "length st = n" "length as = n" "length ts = n" and "i \<le> n" and "gathered c type st ts i"
  shows "\<exists>as' st' ts' k. calc_targets_loop c type n i as st ts = Inr (as', st', ts') \<and>
           mset (zip as' st') = mset (zip as st) \<and> length as' = n \<and> length st' = n \<and> length ts' = n \<and>
           k \<le> n \<and> gathered c type st' ts' k \<and> (\<forall>j. k \<le> j \<and> j < n \<longrightarrow> st' ! j < 0)"
  using assms
proof (induction c type n i as st ts rule: calc_targets_loop.induct)
  case (1 c type n i as st ts)
  show ?case
  proof (cases "i < n")
    case False
    then have "i = n" using 1 by simp
    then show ?thesis using 1 False
      by (subst calc_targets_loop.simps) (auto intro!: exI [of _ n])
  next
    case True
    then have len: "i < length st \<and> length st \<le> length as \<and> length st \<le> length ts" using 1 by simp
    show ?thesis
    proof (cases "st ! i \<ge> 0")
      case nonneg: True
      have v: "is_valid_nid c (st ! i)" using nonneg "1.prems"(2) len by simp
      then obtain t where t: "rbind (get_node c (st ! i)) (get_target_node c type) = Inr t" "target_spec c type (st ! i) t"
        using get_target_node_spec [OF "1.prems"(1) v, of type] by blast
      have "gathered c type st (ts[i := t]) (i + 1)"
        using "1.prems" t(2) nonneg True by (auto simp: gathered_def nth_list_update less_Suc_eq)
      moreover have "calc_targets_loop c type n i as st ts = calc_targets_loop c type n (i + 1) as st (ts[i := t])"
        by (subst calc_targets_loop.simps) (simp only: True len nonneg t(1) if_True rbind.simps simp_thms)
      ultimately show ?thesis using "1.IH"(1) [OF True len nonneg t(1)] "1.prems" True by simp
    next
      case False
      define good where "good = find_last_good st i"
      note g = find_last_good_range [OF conjunct1 [OF len], folded good_def]
      show ?thesis
      proof (cases "good = i")
        case same: True
        have "st ! j < 0" if "i \<le> j" "j < n" for j
          using that g(4) [of j] same False "1.prems" by (cases "j = i") auto
        then show ?thesis using "1.prems" True len False same
          by (subst calc_targets_loop.simps) (auto simp: good_def Let_def intro!: exI [of _ i])
      next
        case ne: False
        have gi: "i < good" using g(1) ne by simp
        let ?st = "list_swap i good st" and ?as = "list_swap i good as"
        have "set ?st = set st" using g(2) len by (simp add: list_swap_def)
        moreover have "gathered c type ?st ts i"
          using "1.prems"(7) gi by (auto simp: gathered_def list_swap_def)
        moreover have "mset (zip ?as ?st) = mset (zip as st)"
          using mset_zip_swap [of i as good st] g(2) "1.prems" True by simp
        ultimately show ?thesis using "1.IH"(2) [OF True len False good_def ne] "1.prems" True len False ne
          by (subst calc_targets_loop.simps) (simp add: good_def Let_def)
      qed
    qed
  qed
qed


lemma calc_target_nodes_ok:
  assumes "numa_inv c" and "\<forall>x \<in> set (status m). 0 \<le> x \<longrightarrow> is_valid_nid c x"
    and "length (status m) = length as"
  shows "\<exists>as' st ts k. calc_target_nodes c as m = Inr (as', m\<lparr>status := st, target_nodes := ts\<rparr>) \<and>
           mset (zip as' st) = mset (zip as (status m)) \<and> length as' = length as \<and>
           length st = length as \<and> length ts = length as \<and> k \<le> length as \<and>
           gathered c (mv_type m) st ts k \<and> (\<forall>j. k \<le> j \<and> j < length as \<longrightarrow> st ! j < 0)"
proof -
  have l: "length (vec_resize (length as) 0 (target_nodes m)) = length as" by (simp add: vec_resize_def)
  have g: "gathered c (mv_type m) (status m) (vec_resize (length as) 0 (target_nodes m)) 0"
    by (simp add: gathered_def)
  from calc_targets_loop_gathers [OF assms(1,2,3) refl l le0 g] obtain as' st ts k where r: "calc_targets_loop c (mv_type m) (length as) 0 as (status m)
      (vec_resize (length as) 0 (target_nodes m)) = Inr (as', st, ts)"
    "mset (zip as' st) = mset (zip as (status m))" "length as' = length as" "length st = length as"
    "length ts = length as" "k \<le> length as" "gathered c (mv_type m) st ts k"
    "\<forall>j. k \<le> j \<and> j < length as \<longrightarrow> st ! j < 0"
    by blast
  show ?thesis
    by (intro exI [of _ as'] exI [of _ st] exI [of _ ts] exI [of _ k])
      (use r in \<open>simp add: calc_target_nodes_def\<close>)
qed

section \<open>One batch\<close>

text \<open>What the code relies on the system call for: it fills the array it is given.\<close>

definition call_ok :: "'k move_call \<Rightarrow> numa_collection \<Rightarrow> bool" where
  "call_ok sys c \<longleftrightarrow> (\<forall>k as ts st. length st = length as \<longrightarrow>
     length (fst (snd (sys k as ts st))) = length as \<and>
     (ts = None \<and> fst (sys k as ts st) = 0 \<longrightarrow>
        (\<forall>x \<in> set (fst (snd (sys k as ts st))). 0 \<le> x \<longrightarrow> is_valid_nid c x)))"

lemma length_vec_resize [simp]: "length (vec_resize n d xs) = n"
  by (simp add: vec_resize_def)

lemma call_length:
  assumes "call_ok sys c" and "move_pages_status sys ts as loc k st = (ret, st', k')"
  shows "length st' = length as"
  using assms unfolding call_ok_def move_pages_status_def
  by (metis fst_conv length_vec_resize snd_conv)

lemma call_located:
  assumes "call_ok sys c" and "move_pages_status sys ts as True k st = (0, st', k')"
  shows "\<forall>x \<in> set st'. 0 \<le> x \<longrightarrow> is_valid_nid c x"
  using assms unfolding call_ok_def move_pages_status_def
  by (metis fst_conv length_vec_resize snd_conv)

text \<open>The counts cover the pages of the batch only.\<close>

lemma keys_add_count: "fst ` set (add_count m k n) = insert k (fst ` set m)"
  by (induction m k n rule: add_count.induct) auto

lemma keys_status_count: "fst ` set (foldl inc_count m xs) = fst ` set m \<union> set xs"
  by (induction xs arbitrary: m) (auto simp: inc_count_def keys_add_count)

lemma is_node_in_target_set_ok:
  assumes "numa_inv c" and "0 \<le> nid \<longrightarrow> is_valid_nid c nid"
  shows "\<exists>b. is_node_in_target_set c type nid = Inr b"
proof (cases "nid < 0")
  case False
  then obtain q n where "get_node c nid = Inr (Some q)" "deref c (Some q) = Inr n"
    using get_node_live [OF assms(1)] assms(2) by fastforce
  then show ?thesis using False by (simp add: is_node_in_target_set_def)
qed (auto simp: is_node_in_target_set_def)

lemma account_ok:
  assumes "numa_inv c" and "\<forall>x \<in> fst ` set (status_count m). 0 \<le> x \<longrightarrow> is_valid_nid c x"
  shows "\<exists>skb mkb. account_stats_count c m stats =
           Inr (stats\<lparr>to_move_kb := to_move_kb stats + (skb + mkb), skip_kb := skip_kb stats + skb,
                      move_kb := move_kb stats + mkb\<rparr>)"
proof -
  have "\<exists>t. rfold (account_step c (mv_type m) (mv_page_shift m - 10)) (status_count m) (0, 0) = Inr t \<and> True"
  proof (rule rfold_total)
    fix x s assume "x \<in> set (status_count m)"
    then have "0 \<le> fst x \<longrightarrow> is_valid_nid c (fst x)" using assms(2) by auto
    then obtain b where "is_node_in_target_set c (mv_type m) (fst x) = Inr b"
      using is_node_in_target_set_ok [OF assms(1)] by blast
    then show "\<exists>t. account_step c (mv_type m) (mv_page_shift m - 10) x s = Inr t \<and> True"
      by (cases x; cases s; cases b) (simp_all add: account_step_def)
  qed simp
  then show ?thesis by (auto simp: account_stats_count_def)
qed

lemma calc_and_save_ok:
  assumes "length ts = length fs" and "length rs = length fs"
  shows "\<exists>n stats'. calc_and_save_loop sh fs ts rs moved stats = Inr (moved + int n * push_bit sh 1, stats') \<and>
           n \<le> length fs \<and> to_move_kb stats' = to_move_kb stats \<and> skip_kb stats' = skip_kb stats \<and>
           move_kb stats' = move_kb stats"
  using assms
proof (induction sh fs ts rs moved stats rule: calc_and_save_loop.induct)
  case (2 sh f fs t ts r rs moved stats)
  obtain n stats' where n: "calc_and_save_loop sh fs ts rs
       (if is_page_moved f t r then moved + push_bit sh 1 else moved)
       (save_move_states f t r sh stats) =
     Inr ((if is_page_moved f t r then moved + push_bit sh 1 else moved) + int n * push_bit sh 1, stats')"
    "n \<le> length fs" "to_move_kb stats' = to_move_kb stats" "skip_kb stats' = skip_kb stats"
    "move_kb stats' = move_kb stats"
    using 2 by (auto simp: save_move_states_def)
  show ?case
    by (rule exI [of _ "n + (if is_page_moved f t r then 1 else 0)"], rule exI [of _ stats'])
      (use n in \<open>auto simp: algebra_simps\<close>)
qed auto

definition balanced :: "move_stats \<Rightarrow> bool" where
  "balanced s \<longleftrightarrow> to_move_kb s = skip_kb s + move_kb s"

lemma calc_status_count_fields [simp]:
  "status_after_move (calc_status_count m) = status_after_move m"
  "target_nodes (calc_status_count m) = target_nodes m" "status (calc_status_count m) = status m"
  "mv_page_shift (calc_status_count m) = mv_page_shift m" "batch_size (calc_status_count m) = batch_size m"
  by (simp_all add: calc_status_count_def)

lemma move_batch_ok:
  assumes "numa_inv c" and "call_ok sys c" and "balanced stats"
  shows "\<exists>ret k' m' stats' res. move_batch sys c as k m stats = Inr (ret, k', m', stats', res) \<and>
           mv_page_shift m' = mv_page_shift m \<and> batch_size m' = batch_size m \<and> balanced stats' \<and>
           (case res of None \<Rightarrow> ret \<noteq> 0
            | Some (moved, as') \<Rightarrow> mset as' = mset as \<and>
                (\<exists>n \<le> length as. moved = int n * push_bit (mv_page_shift m) 1))"
proof -
  obtain ret st k1 where l: "move_pages_status sys (target_nodes m) as True k (status m) = (ret, st, k1)"
    by (cases "move_pages_status sys (target_nodes m) as True k (status m)") auto
  show ?thesis
  proof (cases "ret = 0")
    case False
    then show ?thesis using l assms(3) by (simp add: move_batch_def)
  next
    case True
    have lst: "length st = length as" using call_length [OF assms(2) l] .
    have val: "\<forall>x \<in> set st. 0 \<le> x \<longrightarrow> is_valid_nid c x" using call_located [OF assms(2)] l True by blast
    let ?m1 = "m\<lparr>status := st\<rparr>"
    obtain as' st' ts j where t: "calc_target_nodes c as ?m1 = Inr (as', ?m1\<lparr>status := st', target_nodes := ts\<rparr>)"
      "mset (zip as' st') = mset (zip as st)" "length as' = length as" "length st' = length as" "length ts = length as"
      using calc_target_nodes_ok [OF assms(1), of ?m1 as] val lst by auto
    let ?m2 = "calc_status_count (?m1\<lparr>status := st', target_nodes := ts, status_count := []\<rparr>)"
    have "set st' = set st"
    proof -
      have "mset (map snd (zip as' st')) = mset (map snd (zip as st))"
        using t(2) by (metis mset_map)
      then have "mset st' = mset st" using t(3,4) lst by simp
      then show ?thesis by (metis set_mset_mset)
    qed
    then have "\<forall>x \<in> fst ` set (status_count ?m2). 0 \<le> x \<longrightarrow> is_valid_nid c x"
      using val by (simp add: calc_status_count_def keys_status_count)
    from account_ok [OF assms(1) this, of stats] obtain stats2 where
      s2: "account_stats_count c ?m2 stats = Inr stats2" "balanced stats2"
      using assms(3) by (auto simp: balanced_def)
    obtain ret2 st2 k2 where mv: "move_pages_status sys ts as' False k1 (status_after_move m) = (ret2, st2, k2)"
      by (cases "move_pages_status sys ts as' False k1 (status_after_move m)") auto
    obtain ret3 st3 k3 where re: "move_pages_status sys ts as' True k2 st2 = (ret3, st3, k3)"
      by (cases "move_pages_status sys ts as' True k2 st2") auto
    define fin where "fin = (if ret2 > 0 then (k3, st3) else (k2, st2))"
    have lfin: "length (snd fin) = length as"
      using call_length [OF assms(2) mv] call_length [OF assms(2) re] t(3) by (simp add: fin_def)
    let ?m3 = "?m2\<lparr>status_after_move := snd fin\<rparr>"
    obtain n stats3 where cs: "calc_and_save_state ?m3 stats2 = Inr (int n * push_bit (mv_page_shift m) 1, stats3)"
      "n \<le> length as" "balanced stats3"
      using calc_and_save_ok [of ts st' "snd fin" "mv_page_shift m" 0 stats2] t(4,5) lfin s2(2)
      by (auto simp: calc_and_save_state_def calc_status_count_def balanced_def)
    have "move_batch sys c as k m stats =
        Inr (ret2, fst fin, ?m3, stats3, Some (int n * push_bit (mv_page_shift m) 1, as'))"
      using l True t(1) s2(1) cs(1) mv re unfolding fin_def
      by (cases "ret2 > 0") (simp_all add: move_batch_def Let_def)
    moreover have "mset as' = mset as"
    proof -
      have "mset (map fst (zip as' st')) = mset (map fst (zip as st))" using t(2) by (metis mset_map)
      then show ?thesis using t(3,4) lst by simp
    qed
    ultimately show ?thesis using cs(2,3) by (auto simp: calc_status_count_def)
  qed
qed


section \<open>The loop over the batches\<close>

definition quota_ok :: "int \<Rightarrow> int option \<Rightarrow> int option \<Rightarrow> bool" where
  "quota_ok b ctx ctx' \<longleftrightarrow>
     (case ctx of None \<Rightarrow> ctx' = None
      | Some q \<Rightarrow> \<exists>q'. ctx' = Some q' \<and> q' \<le> q \<and> (if q \<le> 0 then q' = q else - b < q'))"

lemma moved_kb:
  assumes "10 \<le> sh"
  shows "drop_bit 10 (int n * push_bit sh 1) = int n * 2 ^ (sh - 10)"
proof -
  have "(2::int) ^ sh = 2 ^ (sh - 10) * 2 ^ 10" using assms by (metis le_add_diff_inverse2 power_add)
  then show ?thesis by (simp add: drop_bit_eq_div)
qed

lemma quota_step:
  assumes "quota_ok b (dec_dram_quota d ctx) ctx'" and "0 \<le> d" "d \<le> b" and "\<not> is_exceed_dram_quota ctx"
  shows "quota_ok b ctx ctx'"
  using assms by (cases ctx) (auto simp: quota_ok_def dec_dram_quota_def is_exceed_dram_quota_def split: if_splits)

lemma batch_permutes:
  assumes "mset xs = mset (take n (drop b as))"
  shows "mset (take b as @ xs @ drop (b + n) as) = mset as"
proof -
  have "take b as @ take n (drop b as) @ drop (b + n) as = as"
    by (metis append_take_drop_id drop_drop add.commute)
  then show ?thesis using assms by (metis mset_append)
qed

lemma locate_move_loop_ok:
  assumes "numa_inv c" and "call_ok sys c" and "length as < 2 ^ 63" and "batch_size m \<noteq> 0"
    and "10 \<le> mv_page_shift m" and "i = 0 \<or> batch_size m \<le> i" and "balanced stats"
  shows "\<exists>ret' ctx' as' k' m' stats'.
           locate_move_loop sys c i ret ctx as k m stats = Some (Inr (ret', ctx', as', k', m', stats')) \<and>
           mset as' = mset as \<and> balanced stats' \<and>
           quota_ok (int (unat (batch_size m)) * 2 ^ (mv_page_shift m - 10)) ctx ctx'"
  using assms(3-)
proof (induction "length as - unat i" arbitrary: i ret ctx as k m stats rule: less_induct)
  case less
  let ?nr = "of_nat (length as) :: u64"
  let ?B = "int (unat (batch_size m)) * 2 ^ (mv_page_shift m - 10)"
  have nr: "unat ?nr = length as" using less.prems(1) by (simp add: unsigned_of_nat take_bit_nat_eq_self)
  have B: "0 \<le> ?B" by simp
  have same: "quota_ok ?B ctx ctx"
  proof (cases ctx)
    case (Some q)
    have "- ?B < q" if "0 < q" using B that by linarith
    then show ?thesis using Some by (simp add: quota_ok_def del: of_nat_mult)
  qed (simp add: quota_ok_def)
  consider (finished) "\<not> i < ?nr" | (exceeded) "i < ?nr" "is_exceed_dram_quota ctx"
    | (batch) "i < ?nr" "\<not> is_exceed_dram_quota ctx" by blast
  then show ?case
  proof cases
    case finished
    then show ?thesis using same less.prems(5) by (subst locate_move_loop.simps) (simp add: Let_def)
  next
    case exceeded
    then show ?thesis using same less.prems(5) by (subst locate_move_loop.simps) (simp add: Let_def)
  next
    case batch
    let ?n = "unat (min (batch_size m) (?nr - i))" and ?b = "unat i"
    let ?xs = "take ?n (drop ?b as)"
    obtain ret1 k1 m1 stats1 res where mb: "move_batch sys c ?xs k m stats = Inr (ret1, k1, m1, stats1, res)"
      "mv_page_shift m1 = mv_page_shift m" "batch_size m1 = batch_size m" "balanced stats1"
      "case res of None \<Rightarrow> ret1 \<noteq> 0
       | Some (moved, as') \<Rightarrow> mset as' = mset ?xs \<and> (\<exists>n \<le> length ?xs. moved = int n * push_bit (mv_page_shift m) 1)"
      using move_batch_ok [OF assms(1,2) less.prems(5), of ?xs k m] by blast
    show ?thesis
    proof (cases res)
      case None
      then show ?thesis using batch mb same by (subst locate_move_loop.simps) (simp add: Let_def)
    next
      case (Some r)
      obtain moved xs' where r: "r = (moved, xs')" by (cases r)
      obtain n where n: "mset xs' = mset ?xs" "n \<le> length ?xs" "moved = int n * push_bit (mv_page_shift m) 1"
        using mb(5) Some r by auto
      let ?as = "take ?b as @ xs' @ drop (?b + ?n) as" and ?i = "i + batch_size m"
      have ms: "mset ?as = mset as" using batch_permutes [OF n(1)] .
      have len: "length ?as = length as" using ms by (metis size_mset)
      have ile: "unat i < length as" using batch(1) nr by (simp add: word_less_nat_alt)
      have "unat i + unat (batch_size m) < 2 ^ 64"
      proof (cases "i = 0")
        case True
        then show ?thesis using unsigned_less [of "batch_size m", where ?'a = nat] by simp
      next
        case False
        then have "unat (batch_size m) \<le> unat i" using less.prems(4) by (simp add: word_le_nat_alt)
        then show ?thesis using ile less.prems(1) by simp
      qed
      then have ui: "unat ?i = unat i + unat (batch_size m)" by (simp add: unat_plus_simple word_le_nat_alt unat_word_ariths)
      have pos: "0 < unat (batch_size m)" using less.prems(2) by (simp add: unat_gt_0)
      have dec: "length ?as - unat ?i < length as - unat i" using len ui pos ile by simp
      have "batch_size m1 \<le> ?i" using mb(3) ui by (simp add: word_le_nat_alt)
      then have "\<exists>ret' ctx' as' k' m' stats'.
           locate_move_loop sys c ?i ret1 (dec_dram_quota (drop_bit 10 moved) ctx) ?as k1 m1 stats1 =
             Some (Inr (ret', ctx', as', k', m', stats')) \<and>
           mset as' = mset ?as \<and> balanced stats' \<and>
           quota_ok ?B (dec_dram_quota (drop_bit 10 moved) ctx) ctx'"
        using less.hyps [OF dec, of m1 stats1] less.prems(1-3) len mb by simp
      moreover have "locate_move_loop sys c i ret ctx as k m stats =
          locate_move_loop sys c ?i ret1 (dec_dram_quota (drop_bit 10 moved) ctx) ?as k1 m1 stats1"
        using batch mb(1,3) Some r by (subst locate_move_loop.simps) (simp add: Let_def)
      moreover have "0 \<le> drop_bit 10 moved" "drop_bit 10 moved \<le> ?B"
      proof -
        have "n \<le> unat (batch_size m)" using n(2) by (auto simp: min_def word_le_nat_alt split: if_splits)
        then have "int n \<le> int (unat (batch_size m))" by (simp only: of_nat_le_iff)
        then show "0 \<le> drop_bit 10 moved" "drop_bit 10 moved \<le> ?B"
          unfolding n(3) moved_kb [OF less.prems(3)] by simp_all
      qed
      ultimately show ?thesis using quota_step [OF _ _ _ batch(2)] ms by metis
    qed
  qed
qed


section \<open>Properties\<close>

text \<open>
  C14: Choosing the targets of a batch: on a valid topology and located pages, the loop ends without
  a fault; the pages are permuted together with their nodes, so none is lost or paired with the
  node of another; the pages that have a node stand in front and each gets the target the design
  asks for (its own node when it already is where its kind of page belongs, else the node's peer, or
  -2 when there is none); all pages that could not be located stand behind them.
\<close>

theorem calc_target_nodes_partitions:
  assumes "numa_inv c" and "\<forall>x \<in> set (status m). 0 \<le> x \<longrightarrow> is_valid_nid c x"
    and "length (status m) = length as"
  shows "\<exists>as' m' k. calc_target_nodes c as m = Inr (as', m') \<and>
           mset (zip as' (status m')) = mset (zip as (status m)) \<and>
           length as' = length as \<and> length (status m') = length as \<and> length (target_nodes m') = length as \<and>
           k \<le> length as \<and>
           (\<forall>i < k. 0 \<le> status m' ! i \<and> target_spec c (mv_type m) (status m' ! i) (target_nodes m' ! i)) \<and>
           (\<forall>i. k \<le> i \<and> i < length as \<longrightarrow> status m' ! i < 0)"
proof -
  obtain as' st ts k where r: "calc_target_nodes c as m = Inr (as', m\<lparr>status := st, target_nodes := ts\<rparr>)"
    "mset (zip as' st) = mset (zip as (status m))" "length as' = length as" "length st = length as"
    "length ts = length as" "k \<le> length as" "gathered c (mv_type m) st ts k"
    "\<forall>j. k \<le> j \<and> j < length as \<longrightarrow> st ! j < 0"
    using calc_target_nodes_ok [OF assms] by blast
  show ?thesis
    by (intro exI [of _ as'] exI [of _ "m\<lparr>status := st, target_nodes := ts\<rparr>"] exI [of _ k])
      (use r in \<open>simp add: gathered_def\<close>)
qed

definition example_mover :: mover where
  "example_mover = \<lparr>mv_page_shift = 12, batch_size = 2, status = [- 14, 0], status_after_move = [],
     target_nodes = [], status_count = [], mv_type = PTE_ACCESSED\<rparr>"

theorem calc_target_nodes_partitions_witness:
  "\<exists>as' m'. calc_target_nodes one_node [0x1000, 0x2000] example_mover = Inr (as', m') \<and>
     mset (zip as' (status m')) = {#(0x1000, - 14), (0x2000, 0)#}"
proof -
  have "\<forall>x \<in> set (status example_mover). 0 \<le> x \<longrightarrow> is_valid_nid one_node x"
    using one_node_valid by (simp add: example_mover_def)
  from calc_target_nodes_partitions [OF one_node_inv this, of "[0x1000, 0x2000]"]
  show ?thesis by (auto simp: example_mover_def)
qed

text \<open>
  C15: The statistics of a finished migration: for pages on nodes below 128 and results in the range
  of \<open>int8_t\<close>, saving the results never runs past the arrays; a page is counted as moved exactly if
  it was to leave its node and its result is the target, every other page as skipped, both in KB,
  and together they are the pages to move; the bytes reported as moved, which pass through the
  packed keys, grow by the size of exactly the moved pages.
\<close>

theorem save_migrate_states_counts:
  assumes "length fs = length rs" and "length ts = length rs"
    and "\<forall>(f, t, r) \<in> set (zip fs (zip ts rs)). 0 \<le> f \<and> f < 128 \<and> 0 \<le> t \<and> t < 128 \<and> - 128 \<le> r \<and> r < 128"
  defines "n \<equiv> length (filter (\<lambda>(f, t, r). f \<noteq> t \<and> r = t) (zip fs (zip ts rs)))"
  shows "\<exists>s'. save_migrate_states sh fs ts rs s = Inr s' \<and>
           move_kb s' = move_kb s + push_bit (sh - 10) (of_nat n) \<and>
           skip_kb s' = skip_kb s + push_bit (sh - 10) (of_nat (length rs - n)) \<and>
           to_move_kb s' = to_move_kb s + push_bit (sh - 10) (of_nat (length rs)) \<and>
           get_moved_bytes s' = get_moved_bytes s + push_bit sh (of_nat n)"
proof -
  let ?z = "zip fs (zip ts rs)"
  have ok: "\<forall>x \<in> set ?z. state_ok x" using assms(3) by (auto simp: state_ok_def)
  have "filter (\<lambda>(f, t, r). is_page_moved f t r) ?z = filter (\<lambda>(f, t, r). f \<noteq> t \<and> r = t) ?z"
    by (rule filter_cong) (use ok in \<open>auto simp: state_ok_def is_page_moved_def\<close>)
  then have n: "length (filter (\<lambda>(f, t, r). is_page_moved f t r) ?z) = n" by (simp add: n_def)
  have z: "length ?z = length rs" using assms(1,2) by simp
  have "length (filter (\<lambda>(f, t, r). is_page_moved f t r) ?z) +
      length (filter (\<lambda>(f, t, r). \<not> is_page_moved f t r) ?z) = length ?z"
    using sum_length_filter_compl [of "\<lambda>(f, t, r). is_page_moved f t r" ?z] by (simp only: case_prod_unfold)
  then have nn: "n + length (filter (\<lambda>(f, t, r). \<not> is_page_moved f t r) ?z) = length rs"
    unfolding n z .
  then have sk: "length (filter (\<lambda>(f, t, r). \<not> is_page_moved f t r) ?z) = length rs - n"
    and le: "n \<le> length rs" by simp_all
  obtain s' where s': "save_states_loop sh rs fs ts 0 0 s = Inr (of_nat n, of_nat (length rs - n), s')"
    "to_move_kb s' = to_move_kb s" "skip_kb s' = skip_kb s" "move_kb s' = move_kb s"
    "get_moved_bytes s' = get_moved_bytes s + of_nat n * push_bit sh 1"
    using save_states_loop_counts [OF assms(1,2) ok, of sh 0 0 s] unfolding n sk by auto
  have g: "get_moved_bytes (s'\<lparr>move_kb := a, skip_kb := b, to_move_kb := d\<rparr>) = get_moved_bytes s'" for a b d
    by (simp add: get_moved_bytes_def)
  have "push_bit k (of_nat n :: u64) + push_bit k (of_nat (length rs - n)) = push_bit k (of_nat (length rs))" for k
    using le by (simp add: push_bit_eq_mult of_nat_diff algebra_simps)
  then show ?thesis
    using s' g by (simp add: save_migrate_states_def Let_def push_bit_eq_mult algebra_simps)
qed

theorem save_migrate_states_counts_witness:
  "\<exists>s'. save_migrate_states 12 [1, 1, 0] [0, 0, 1] [0, - 16, 1] stats_clear = Inr s' \<and>
     move_kb s' = 8 \<and> skip_kb s' = 4 \<and> to_move_kb s' = 12 \<and> get_moved_bytes s' = 8192"
  using save_migrate_states_counts [of "[1, 1, 0]" "[0, - 16, 1]" "[0, 0, 1]" 12 stats_clear]
  by (simp add: stats_clear_def get_moved_bytes_def push_bit_eq_mult)


text \<open>A system call that finds every page on node 0 and leaves it there.\<close>

definition stay_call :: "unit move_call" where
  "stay_call k as ts st = (0, map (\<lambda>_. 0) st, ())"


section \<open>What the code gets wrong\<close>

text \<open>
  A node that is not known (\<open>-1\<close> or \<open>-2\<close>) borrows from the next byte of the key: the state of a
  page without a target is reported with another result, and when that page's result is 0 it is
  counted as moved.
\<close>

lemma negative_target_not_unboxed:
  "unbox_movestate (box_movestate 1 (- 1) 0) = (1, - 1, - 1)"
  "is_page_moved 1 (- 1) (- 1)" "\<not> is_page_moved 1 (- 1) 0"
  by (simp_all add: is_page_moved_def) code_simp

text \<open>
  \<open>resize\<close> fills in \<open>default_failed\<close> only where the vector grows. When the call for a batch of the
  size of the batch before fails and leaves the array alone, the results of the batch before are
  taken for its results.
\<close>

lemma failed_call_keeps_results:
  assumes "length (status_after_move m) = length as"
    and "sys k as (Some ts) (status_after_move m) = (- 1, status_after_move m, k')"
  shows "move_pages_to sys as ts k m = (- 1, k', m)"
proof -
  have "vec_resize (length as) default_failed (status_after_move m) = status_after_move m"
    using assms(1) by (simp add: vec_resize_def)
  then show ?thesis using assms(2) by (simp add: move_pages_to_def)
qed

end
