(* ===== verification/Ept_Migrate_Correct.thy ===== *)
theory Ept_Migrate_Correct
  imports Ept_Migrate Move_Pages_Correct "HOL-Library.Sublist"
begin

text \<open>
  Correctness of the migration of one process: which pages are selected, that every selected page is
  handed to the system call exactly once with its own target, what normalising leaves behind, and
  that a hot threshold chosen from a portion stays below it.
\<close>

unbundle bit_operations_syntax

section \<open>Selection\<close>

text \<open>Every node has a live peer to migrate to.\<close>

definition peer_id :: "numa_collection \<Rightarrow> int \<Rightarrow> int" where
  "peer_id c nid = (case rbind (node_of c nid) (\<lambda>n. deref c (get_peer_node n)) of Inl _ \<Rightarrow> - 1 | Inr m \<Rightarrow> nn_id m)"

definition has_peers :: "numa_collection \<Rightarrow> bool" where
  "has_peers c \<longleftrightarrow> (\<forall>nid n. is_valid_nid c nid \<longrightarrow> node_of c nid = Inr n \<longrightarrow> get_peer_node n \<noteq> None)"

lemma save_migrate_parameter_ok:
  assumes "numa_inv c" and "has_peers c" and "is_valid_nid c nid"
  shows "save_migrate_parameter c a nid ml =
           Inr (ml\<lparr>ml_addr := ml_addr ml @ [a], ml_from := ml_from ml @ [nid],
                   ml_target := ml_target ml @ [peer_id c nid]\<rparr>)"
proof -
  obtain q n where q: "get_node c nid = Inr (Some q)" "deref c (Some q) = Inr n" "node_ok c q n"
    using get_node_live [OF assms(1,3)] by blast
  then have nd: "node_of c nid = Inr n" by (simp add: node_of_def)
  then obtain p where p: "get_peer_node n = Some p" using assms(2,3) by (auto simp: has_peers_def)
  then have "p \<in> set (nodes c)" using q(3) by (auto simp: node_ok_def get_peer_node_def split: numa_node_type.splits)
  then obtain m where "deref c (Some p) = Inr m" using numa_inv_deref [OF assms(1)] by blast
  then show ?thesis using nd p by (simp add: save_migrate_parameter_def peer_id_def)
qed

type_synonym item = "u64 \<times> u8 \<times> int"

definition refs_of :: "item \<Rightarrow> int" where
  "refs_of x = uint (fst (snd x))"

definition nid_of :: "item \<Rightarrow> int" where
  "nid_of x = snd (snd x)"

text \<open>\<open>moves_of c xs\<close>: the parallel vectors for the pages \<open>xs\<close>.\<close>

definition moves_of :: "numa_collection \<Rightarrow> item list \<Rightarrow> move_list" where
  "moves_of c xs = \<lparr>ml_addr = map fst xs, ml_from = map nid_of xs, ml_target = map (peer_id c \<circ> nid_of) xs\<rparr>"

text \<open>
  \<open>selection at within n xs ys\<close>: \<open>ys\<close> are the pages of \<open>xs\<close> strictly within the range and the
  first \<open>n\<close> of those at the threshold, in their order.
\<close>

definition selection :: "(item \<Rightarrow> bool) \<Rightarrow> (item \<Rightarrow> bool) \<Rightarrow> nat \<Rightarrow> item list \<Rightarrow> item list \<Rightarrow> bool" where
  "selection at within n xs ys \<longleftrightarrow>
     subseq ys xs \<and> filter at ys = take n (filter at xs) \<and>
     filter (\<lambda>x. \<not> at x) ys = filter within xs"

lemma selection_Nil: "selection at within n [] []"
  by (simp add: selection_def)

lemma selection_snoc:
  assumes "selection at within n xs ys" and "\<not> (at x \<and> within x)"
  shows "selection at within n (xs @ [x])
           (if at x \<and> length (filter at xs) < n \<or> within x then ys @ [x] else ys)"
  using assms by (auto simp: selection_def list_emb_append2 intro: list_emb_append_mono)

definition hot_at :: "numa_collection \<Rightarrow> migrate_parameter \<Rightarrow> item \<Rightarrow> bool" where
  "hot_at c p x \<longleftrightarrow> on_kind c True (nid_of x) \<and> refs_of x = hot_threshold p"

definition hot_within :: "numa_collection \<Rightarrow> migrate_parameter \<Rightarrow> item \<Rightarrow> bool" where
  "hot_within c p x \<longleftrightarrow> on_kind c True (nid_of x) \<and> hot_threshold p < refs_of x \<and> refs_of x \<le> hot_threshold_max p"

definition cold_at :: "numa_collection \<Rightarrow> migrate_parameter \<Rightarrow> item \<Rightarrow> bool" where
  "cold_at c p x \<longleftrightarrow> on_kind c False (nid_of x) \<and> refs_of x = cold_threshold p"

definition cold_within :: "numa_collection \<Rightarrow> migrate_parameter \<Rightarrow> item \<Rightarrow> bool" where
  "cold_within c p x \<longleftrightarrow> on_kind c False (nid_of x) \<and> cold_threshold_min p \<le> refs_of x \<and> refs_of x < cold_threshold p"

definition selected :: "numa_collection \<Rightarrow> migrate_parameter \<Rightarrow> item list \<Rightarrow> migrate_parameter \<times> move_list \<times> move_list \<Rightarrow> bool" where
  "selected c p xs r \<longleftrightarrow>
     (\<exists>hot cold.
        selection (hot_at c p) (hot_within c p) (nat (promote_remain p)) xs hot \<and>
        selection (cold_at c p) (cold_within c p) (nat (demote_remain p)) xs cold \<and>
        r = (p\<lparr>promote_remain := promote_remain p - int (length (filter (hot_at c p) xs)),
               demote_remain := demote_remain p - int (length (filter (cold_at c p) xs))\<rparr>,
             moves_of c hot, moves_of c cold))"

lemma on_kind_node:
  assumes "numa_inv c" and "is_valid_nid c nid"
  obtains n where "node_of c nid = Inr n" "on_kind c True nid \<longleftrightarrow> is_pmem n" "on_kind c False nid \<longleftrightarrow> \<not> is_pmem n"
  using numa.valid_node [OF assms] assms(2) by (auto simp: on_kind_def)

lemma on_kind_valid: "on_kind c k nid \<Longrightarrow> is_valid_nid c nid"
  by (simp add: on_kind_def)

lemma promote_and_demote_step_selected:
  assumes "numa_inv c" and "has_peers c" and "selected c p xs r"
  shows "\<exists>r'. promote_and_demote_step c x (Inr r) = Inr r' \<and> selected c p (xs @ [x]) r'"
proof -
  obtain a q nid where x: "x = (a, q, nid)" by (cases x) auto
  have f: "fst x = a" "refs_of x = uint q" "nid_of x = nid" by (simp_all add: x refs_of_def nid_of_def)
  obtain hot cold where s: "selection (hot_at c p) (hot_within c p) (nat (promote_remain p)) xs hot"
    "selection (cold_at c p) (cold_within c p) (nat (demote_remain p)) xs cold"
    and r: "r = (p\<lparr>promote_remain := promote_remain p - int (length (filter (hot_at c p) xs)),
               demote_remain := demote_remain p - int (length (filter (cold_at c p) xs))\<rparr>,
             moves_of c hot, moves_of c cold)"
    using assms(3) by (auto simp: selected_def)
  have ex: "\<not> (hot_at c p x \<and> hot_within c p x)" "\<not> (cold_at c p x \<and> cold_within c p x)"
    by (auto simp: hot_at_def hot_within_def cold_at_def cold_within_def)
  note s' = selection_snoc [OF s(1) ex(1)] selection_snoc [OF s(2) ex(2)]
  let ?hot = "if hot_at c p x \<and> length (filter (hot_at c p) xs) < nat (promote_remain p) \<or> hot_within c p x
              then hot @ [x] else hot"
  let ?cold = "if cold_at c p x \<and> length (filter (cold_at c p) xs) < nat (demote_remain p) \<or> cold_within c p x
              then cold @ [x] else cold"
  let ?r = "(p\<lparr>promote_remain := promote_remain p - int (length (filter (hot_at c p) (xs @ [x]))),
               demote_remain := demote_remain p - int (length (filter (cold_at c p) (xs @ [x])))\<rparr>,
             moves_of c ?hot, moves_of c ?cold)"
  have "promote_and_demote_step c x (Inr r) = Inr ?r"
  proof (cases "is_valid_nid c nid")
    case False
    then have "\<not> on_kind c k nid" for k using on_kind_valid by blast
    then show ?thesis using False
      by (simp add: promote_and_demote_step_def x r hot_at_def hot_within_def cold_at_def cold_within_def
          refs_of_def nid_of_def)
  next
    case True
    obtain n where n: "node_of c nid = Inr n" "on_kind c True nid \<longleftrightarrow> is_pmem n" "on_kind c False nid \<longleftrightarrow> \<not> is_pmem n"
      using on_kind_node [OF assms(1) True] .
    have sv: "save_migrate_parameter c a nid (moves_of c ys) = Inr (moves_of c (ys @ [(a, q, nid)]))" for ys
      using save_migrate_parameter_ok [OF assms(1,2) True] by (simp add: moves_of_def nid_of_def)
    have at: "hot_at c p x \<longleftrightarrow> is_pmem n \<and> uint q = hot_threshold p"
      "hot_within c p x \<longleftrightarrow> is_pmem n \<and> hot_threshold p < uint q \<and> uint q \<le> hot_threshold_max p"
      "cold_at c p x \<longleftrightarrow> \<not> is_pmem n \<and> uint q = cold_threshold p"
      "cold_within c p x \<longleftrightarrow> \<not> is_pmem n \<and> cold_threshold_min p \<le> uint q \<and> uint q < cold_threshold p"
      using n f by (auto simp: hot_at_def hot_within_def cold_at_def cold_within_def)
    have lt: "k < nat m \<longleftrightarrow> 0 < m - int k" for k m by auto
    show ?thesis using True n(1)
      by (cases "is_pmem n")
        (simp_all add: promote_and_demote_step_def x r Let_def sv at [unfolded x] lt
          f [unfolded x] split del: if_split, auto simp: x sv)
  qed
  moreover have "selected c p (xs @ [x]) ?r" unfolding selected_def using s' by blast
  ultimately show ?thesis by blast
qed


lemma promote_and_demote_selected:
  assumes "numa_inv c" and "has_peers c"
  shows "\<exists>r. fold (promote_and_demote_step c) xs (Inr (p, empty_moves, empty_moves)) = Inr r \<and> selected c p xs r"
proof (induction xs rule: rev_induct)
  case Nil
  show ?case by (auto simp: selected_def empty_moves_def moves_of_def intro!: exI [of _ "[]"] selection_Nil)
next
  case (snoc x xs)
  then obtain r where "fold (promote_and_demote_step c) xs (Inr (p, empty_moves, empty_moves)) = Inr r"
    "selected c p xs r" by blast
  then show ?case using promote_and_demote_step_selected [OF assms, of p xs r x] by auto
qed

section \<open>Saving the results of a batch\<close>

lemma save_states_loop_total:
  assumes "length rs \<le> length fs" and "length rs \<le> length ts"
  shows "\<exists>a b s'. save_states_loop sh rs fs ts mkb skb s = Inr (mkb + a, skb + b, s') \<and>
           a + b = of_nat (length rs) \<and> to_move_kb s' = to_move_kb s \<and> skip_kb s' = skip_kb s \<and>
           move_kb s' = move_kb s"
  using assms
proof (induction sh rs fs ts mkb skb s rule: save_states_loop.induct)
  case (1 sh fs ts mkb skb s)
  show ?case by (intro exI [of _ 0]) simp
next
  case (2 sh r rs f fs t ts mkb skb s)
  let ?mv = "r = t \<and> f \<noteq> t"
  have e: "save_states_loop sh (r # rs) (f # fs) (t # ts) mkb skb s =
      save_states_loop sh rs fs ts (if ?mv then mkb + 1 else mkb) (if ?mv then skb else skb + 1)
        (save_move_states f t r sh s)" by simp
  have len: "length rs \<le> length fs" "length rs \<le> length ts" using "2.prems" by simp_all
  have pair: "(if ?mv then mkb + 1 else mkb, if ?mv then skb else skb + 1) =
      (if ?mv then (mkb + 1, skb) else (mkb, skb + 1))" by simp
  have f: "to_move_kb (save_move_states f t r sh s) = to_move_kb s"
    "skip_kb (save_move_states f t r sh s) = skip_kb s" "move_kb (save_move_states f t r sh s) = move_kb s"
    by (simp_all add: save_move_states_def)
  from "2.IH" [OF refl pair len, unfolded f] obtain a b s' where
    "save_states_loop sh rs fs ts (if ?mv then mkb + 1 else mkb) (if ?mv then skb else skb + 1)
        (save_move_states f t r sh s) =
      Inr ((if ?mv then mkb + 1 else mkb) + a, (if ?mv then skb else skb + 1) + b, s')"
    "a + b = of_nat (length rs)" "to_move_kb s' = to_move_kb s" "skip_kb s' = skip_kb s" "move_kb s' = move_kb s"
    by blast
  then show ?case unfolding e
    by (intro exI [of _ "if ?mv then 1 + a else a"] exI [of _ "if ?mv then b else 1 + b"] exI [of _ s'])
      (auto simp: algebra_simps)
qed auto

lemma save_migrate_states_total:
  assumes "length rs \<le> length fs" and "length rs \<le> length ts"
  shows "\<exists>s'. save_migrate_states sh fs ts rs s = Inr s' \<and>
           to_move_kb s' = to_move_kb s + push_bit (sh - 10) (of_nat (length rs))"
proof -
  obtain a b s' where r: "save_states_loop sh rs fs ts 0 0 s = Inr (0 + a, 0 + b, s')"
    "a + b = of_nat (length rs)" "to_move_kb s' = to_move_kb s"
    using save_states_loop_total [OF assms, of sh 0 0 s] by blast
  have "push_bit (sh - 10) a + push_bit (sh - 10) b = push_bit (sh - 10) (of_nat (length rs))"
    by (simp add: push_bit_eq_mult flip: r(2)) (simp add: distrib_right)
  then show ?thesis using r by (simp add: save_migrate_states_def Let_def)
qed


section \<open>Interleaving\<close>

text \<open>A system call that also keeps a log of the moves it was asked for.\<close>

definition logging :: "'k move_call \<Rightarrow> ('k \<times> (u64 list \<times> int list) list) move_call" where
  "logging sys kl as ts st =
     (let (ret, st', k) = sys (fst kl) as ts st
      in (ret, st', (k, case ts of None \<Rightarrow> snd kl | Some t \<Rightarrow> snd kl @ [(as, t)])))"

definition fills :: "'k move_call \<Rightarrow> bool" where
  "fills sys \<longleftrightarrow> (\<forall>k as ts st. length st = length as \<longrightarrow> length (fst (snd (sys k as ts st))) = length as)"

lemma move_pages_to_logged:
  assumes "fills sys"
  shows "\<exists>ret k' m'. move_pages_to (logging sys) as ts (k, log) m = (ret, (k', log @ [(as, ts)]), m') \<and>
           length (status_after_move m') = length as"
proof -
  obtain ret st k1 where a: "sys k as (Some ts) (vec_resize (length as) default_failed (status_after_move m)) = (ret, st, k1)"
    by (metis prod_cases3)
  obtain ret2 st2 k2 where b: "sys k1 as None (vec_resize (length as) 0 st) = (ret2, st2, k2)"
    by (metis prod_cases3)
  have "length st = length as"
    using assms a unfolding fills_def by (metis fst_conv length_vec_resize snd_conv)
  moreover have "length st2 = length as"
    using assms b unfolding fills_def by (metis fst_conv length_vec_resize snd_conv)
  ultimately show ?thesis
    using a b by (cases "ret > 0") (simp_all add: move_pages_to_def move_pages_status_def logging_def Let_def)
qed

definition parallel :: "move_list \<Rightarrow> bool" where
  "parallel ml \<longleftrightarrow> length (ml_from ml) = length (ml_addr ml) \<and> length (ml_target ml) = length (ml_addr ml)"

definition batch_at :: "nat \<Rightarrow> nat \<Rightarrow> move_list \<Rightarrow> (u64 list \<times> int list) list" where
  "batch_at batch i ml =
     (if i < length (ml_addr ml) then [(take batch (drop i (ml_addr ml)), take batch (drop i (ml_target ml)))] else [])"

definition pages_to_move :: "move_list \<Rightarrow> nat \<Rightarrow> (u64 \<times> int) multiset" where
  "pages_to_move ml i = mset (take i (zip (ml_addr ml) (ml_target ml)))"

definition logged_pages :: "(u64 list \<times> int list) list \<Rightarrow> (u64 \<times> int) multiset" where
  "logged_pages l = mset (concat (map (\<lambda>(as, ts). zip as ts) l))"

lemma logged_pages_append [simp]: "logged_pages (l @ l') = logged_pages l + logged_pages l'"
  by (simp add: logged_pages_def)

lemma logged_batch:
  assumes "parallel ml"
  shows "pages_to_move ml (i + batch) = pages_to_move ml i + logged_pages (batch_at batch i ml)"
  using assms
  by (simp add: pages_to_move_def logged_pages_def batch_at_def parallel_def take_add drop_zip take_zip)

lemma move_turn_logged:
  assumes "fills sys" and "parallel ml"
  shows "\<exists>k' m' st'. move_turn (logging sys) type batch i ml (k, log) m st =
             Inr ((k', log @ batch_at batch i ml), m', st') \<and>
           to_move_kb (ms_move st') = to_move_kb (ms_move st) +
             push_bit (pagetype_shift type - 10) (of_nat (min batch (length (ml_addr ml) - i))) \<and>
           anon_kb st' = anon_kb st"
proof (cases "i < length (ml_addr ml)")
  case False
  then show ?thesis by (simp add: move_turn_def batch_at_def)
next
  case True
  let ?n = "min batch (length (ml_addr ml) - i)"
  have tk: "take ?n (drop i (ml_addr ml)) = take batch (drop i (ml_addr ml))"
    "take ?n (drop i (ml_target ml)) = take batch (drop i (ml_target ml))"
    using assms(2) by (auto simp: parallel_def min_def)
  obtain ret k' m' where mv: "move_pages_to (logging sys) (take batch (drop i (ml_addr ml)))
      (take batch (drop i (ml_target ml))) (k, log) m =
      (ret, (k', log @ [(take batch (drop i (ml_addr ml)), take batch (drop i (ml_target ml)))]), m')"
    "length (status_after_move m') = length (take batch (drop i (ml_addr ml)))"
    using move_pages_to_logged [OF assms(1)] by blast
  have len: "length (status_after_move m') = ?n" using mv(2) by simp
  then have "length (status_after_move m') \<le> length (drop i (ml_from ml))"
    "length (status_after_move m') \<le> length (drop i (ml_target ml))"
    using assms(2) by (auto simp: parallel_def)
  from save_migrate_states_total [OF this, of "pagetype_shift type" "ms_move st"]
  obtain s' where "save_migrate_states (pagetype_shift type) (drop i (ml_from ml)) (drop i (ml_target ml))
      (status_after_move m') (ms_move st) = Inr s'"
    "to_move_kb s' = to_move_kb (ms_move st) + push_bit (pagetype_shift type - 10) (of_nat ?n)"
    using len by auto
  then show ?thesis using True mv(1)
    by (simp add: move_turn_def Let_def tk batch_at_def)
qed

text \<open>The state at index \<open>i\<close> of the interleaving loop, relative to its start.\<close>

definition interleaved ::
    "page_type \<Rightarrow> nat \<Rightarrow> (nat \<Rightarrow> move_list) \<Rightarrow> (u64 list \<times> int list) list \<Rightarrow> (nat \<Rightarrow> migrate_stats) \<Rightarrow> nat \<Rightarrow>
     (('k \<times> (u64 list \<times> int list) list) movers) \<Rightarrow> bool" where
  "interleaved type batch mls log0 sts0 i s \<longleftrightarrow>
     (case s of ((k, log), ms, sts) \<Rightarrow>
        (\<exists>l. log = log0 @ l \<and> (\<forall>(as, ts) \<in> set l. length as = length ts \<and> length as \<le> batch) \<and>
             logged_pages l = pages_to_move (mls COLD_MIGRATE) i + pages_to_move (mls HOT_MIGRATE) i) \<and>
        (\<forall>kind < MAX_MIGRATE. to_move_kb (ms_move (sts kind)) = to_move_kb (ms_move (sts0 kind)) +
           push_bit (pagetype_shift type - 10) (of_nat (min i (length (ml_addr (mls kind)))))) \<and>
        (\<forall>kind. anon_kb (sts kind) = anon_kb (sts0 kind)))"

lemma batch_at_sizes:
  "parallel ml \<Longrightarrow> (as, ts) \<in> set (batch_at batch i ml) \<Longrightarrow> length as = length ts \<and> length as \<le> batch"
  by (auto simp: batch_at_def parallel_def split: if_splits)

lemma kb_add:
  "push_bit k (of_nat (min i n)) + push_bit k (of_nat (min b (n - i))) = (push_bit k (of_nat (min (i + b) n)) :: u64)"
proof -
  have "min (i + b) n = min i n + min b (n - i)" by auto
  then show ?thesis by (simp add: push_bit_eq_mult distrib_right)
qed

lemma move_turns_logged:
  assumes "fills sys" and "parallel (mls COLD_MIGRATE)" and "parallel (mls HOT_MIGRATE)"
    and "interleaved type batch mls log0 sts0 i s"
  shows "\<exists>s'. move_turns (logging sys) type batch i mls s = Inr s' \<and>
           interleaved type batch mls log0 sts0 (i + batch) s'"
proof -
  obtain k log ms sts where s: "s = ((k, log), ms, sts)" by (metis prod_cases3 prod.exhaust)
  obtain l where l: "log = log0 @ l" "\<forall>(as, ts) \<in> set l. length as = length ts \<and> length as \<le> batch"
    "logged_pages l = pages_to_move (mls 0) i + pages_to_move (mls 1) i"
    using assms(4) unfolding s interleaved_def migrate_kinds by auto
  have kb: "to_move_kb (ms_move (sts kind)) = to_move_kb (ms_move (sts0 kind)) +
           push_bit (pagetype_shift type - 10) (of_nat (min i (length (ml_addr (mls kind)))))" if "kind < 2" for kind
    using assms(4) that unfolding s interleaved_def migrate_kinds by auto
  have an: "anon_kb (sts kind) = anon_kb (sts0 kind)" for kind
    using assms(4) unfolding s interleaved_def by auto
  have par: "parallel (mls 0)" "parallel (mls 1)" using assms(2,3) by (simp_all add: migrate_kinds)
  obtain k1 m1 st1 where t1: "move_turn (logging sys) type batch i (mls 0) (k, log) (ms 0) (sts 0) =
      Inr ((k1, log @ batch_at batch i (mls 0)), m1, st1)"
    "to_move_kb (ms_move st1) = to_move_kb (ms_move (sts 0)) +
      push_bit (pagetype_shift type - 10) (of_nat (min batch (length (ml_addr (mls 0)) - i)))"
    "anon_kb st1 = anon_kb (sts 0)"
    using move_turn_logged [OF assms(1) par(1)] by blast
  obtain k2 m2 st2 where t2: "move_turn (logging sys) type batch i (mls 1)
      (k1, log @ batch_at batch i (mls 0)) (ms 1) (sts 1) =
      Inr ((k2, (log @ batch_at batch i (mls 0)) @ batch_at batch i (mls 1)), m2, st2)"
    "to_move_kb (ms_move st2) = to_move_kb (ms_move (sts 1)) +
      push_bit (pagetype_shift type - 10) (of_nat (min batch (length (ml_addr (mls 1)) - i)))"
    "anon_kb st2 = anon_kb (sts 1)"
    using move_turn_logged [OF assms(1) par(2)] by blast
  let ?s' = "((k2, (log @ batch_at batch i (mls 0)) @ batch_at batch i (mls 1)),
      ms(0 := m1, 1 := m2), sts(0 := st1, 1 := st2))"
  have "[0..<MAX_MIGRATE] = [0, 1]" by (simp add: migrate_kinds upt_rec)
  then have "move_turns (logging sys) type batch i mls s = Inr ?s'"
    using t1(1) t2(1) by (simp add: move_turns_def s)
  moreover have "interleaved type batch mls log0 sts0 (i + batch) ?s'"
    unfolding interleaved_def migrate_kinds
  proof (simp only: prod.case, intro conjI allI impI, goal_cases)
    case 1
    show ?case
      by (intro exI [of _ "l @ batch_at batch i (mls 0) @ batch_at batch i (mls 1)"])
        (use l par in \<open>auto simp: logged_batch dest: batch_at_sizes\<close>)
  next
    case (2 kind)
    then have "kind = 0 \<or> kind = 1" by auto
    then show ?case using t1(2) t2(2) kb [of 0] kb [of 1] by (auto simp: add.assoc kb_add)
  next
    case (3 kind)
    then show ?case using an t1(3) t2(3) by simp
  qed
  ultimately show ?thesis by blast
qed

lemma interleave_loop_logged:
  assumes "fills sys" and "parallel (mls COLD_MIGRATE)" and "parallel (mls HOT_MIGRATE)" and "0 < batch"
    and "interleaved type batch mls log0 sts0 i s"
  shows "\<exists>s' j. interleave_loop (logging sys) type batch max_size i mls s = Some (Inr s') \<and>
           max_size \<le> j \<and> interleaved type batch mls log0 sts0 j s'"
  using assms(5)
proof (induction "max_size - i" arbitrary: i s rule: less_induct)
  case less
  show ?case
  proof (cases "i < max_size")
    case False
    then have "interleave_loop (logging sys) type batch max_size i mls s = Some (Inr s)"
      by (subst interleave_loop.simps) simp
    then show ?thesis using False less.prems by (intro exI [of _ s] exI [of _ i]) simp
  next
    case True
    obtain s1 where s1: "move_turns (logging sys) type batch i mls s = Inr s1"
      "interleaved type batch mls log0 sts0 (i + batch) s1"
      using move_turns_logged [OF assms(1-3) less.prems] by blast
    have "max_size - (i + batch) < max_size - i" using True assms(4) by simp
    from less.hyps [OF this s1(2)] show ?thesis using True s1(1) by (subst interleave_loop.simps) simp
  qed
qed


section \<open>Thresholds from a portion\<close>

definition refs_sum :: "u64 list \<Rightarrow> nat \<Rightarrow> nat \<Rightarrow> nat" where
  "refs_sum h a b = (\<Sum>k\<leftarrow>[a..<b]. unat (h ! k))"

lemma refs_sum_split: "a \<le> b \<Longrightarrow> refs_sum h a (Suc b) = refs_sum h a b + unat (h ! b)"
  by (simp add: refs_sum_def)

lemma sint_diff:
  fixes a b :: u64
  assumes "unat a < 2 ^ 63" "unat b < 2 ^ 63"
  shows "sint (a - b) = int (unat a) - int (unat b)"
proof -
  have "- (2 ^ 63) \<le> int x - int y \<and> int x - int y < 2 ^ 63" if "x < 2 ^ 63" "y < 2 ^ 63" for x y :: nat
  proof -
    have "int x < 2 ^ 63 \<and> int y < 2 ^ 63"
      using that by (metis of_nat_less_iff of_nat_numeral of_nat_power)
    then show ?thesis by linarith
  qed
  from this [OF assms] have "signed_take_bit 63 (int (unat a) - int (unat b)) = int (unat a) - int (unat b)"
    by (intro signed_take_bit_int_eq_self) simp_all
  moreover have "a - b = word_of_int (int (unat a) - int (unat b))" by simp
  ultimately show ?thesis by (simp only: sint_sbintrunc') simp
qed

lemma hot_refs_loop_portion:
  assumes "1 \<le> m" and "m < length h" and "unat quota < 2 ^ 63" and "\<forall>x \<in> set h. unat x < 2 ^ 63"
  shows "\<exists>m'. hot_refs_loop h m quota = Inr m' \<and> 1 \<le> m' \<and> m' \<le> m \<and>
           (m' < m \<longrightarrow> refs_sum h (Suc m') (Suc m) < unat quota)"
  using assms
proof (induction h m quota rule: hot_refs_loop.induct)
  case (1 h m quota)
  show ?case
  proof (cases "m > 1")
    case False
    then show ?thesis using 1 by (subst hot_refs_loop.simps) auto
  next
    case True
    have x: "unat (h ! m) < 2 ^ 63" using "1.prems"(2,4) by simp
    note d = sint_diff [OF "1.prems"(3) x]
    show ?thesis
    proof (cases "sint (quota - h ! m) \<le> 0")
      case stop: True
      then show ?thesis using True "1.prems" by (subst hot_refs_loop.simps) (auto simp: Let_def)
    next
      case False
      then have lt: "unat (h ! m) < unat quota" using d by linarith
      then have u: "unat (quota - h ! m) = unat quota - unat (h ! m)"
        by (simp add: unat_sub word_le_nat_alt)
      obtain m' where m': "hot_refs_loop h (m - 1) (quota - h ! m) = Inr m'" "1 \<le> m'" "m' \<le> m - 1"
        "m' < m - 1 \<longrightarrow> refs_sum h (Suc m') m < unat quota - unat (h ! m)"
      proof -
        have "1 \<le> m - 1" "m - 1 < length h" "unat (quota - h ! m) < 2 ^ 63" "Suc (m - 1) = m"
          using True "1.prems"(2,3) u by simp_all
        with "1.IH" [OF True "1.prems"(2) refl False _ _ _ "1.prems"(4)] u that show ?thesis by metis
      qed
      have "refs_sum h (Suc m') (Suc m) < unat quota"
      proof (cases "m' < m - 1")
        case True
        then show ?thesis using m'(4) lt refs_sum_split [of "Suc m'" m h] by simp
      next
        case False
        then have "Suc m' = m" using m'(3) \<open>m > 1\<close> by simp
        then show ?thesis using lt refs_sum_split [of m m h] by (simp add: refs_sum_def)
      qed
      then show ?thesis using m' True False "1.prems"(2)
        by (subst hot_refs_loop.simps) (simp add: Let_def)
    qed
  qed
qed

lemma cold_refs_loop_portion:
  assumes "m \<le> lim" and "lim \<le> length h" and "unat quota < 2 ^ 63" and "\<forall>x \<in> set h. unat x < 2 ^ 63"
  shows "\<exists>m'. cold_refs_loop h lim m quota = Inr m' \<and> m \<le> m' \<and> m' \<le> lim \<and>
           (m < m' \<longrightarrow> refs_sum h m m' < unat quota)"
  using assms
proof (induction h lim m quota rule: cold_refs_loop.induct)
  case (1 h lim m quota)
  show ?case
  proof (cases "m < lim")
    case False
    then show ?thesis using 1 by (subst cold_refs_loop.simps) auto
  next
    case True
    then have l: "m < length h" using "1.prems" by simp
    have x: "unat (h ! m) < 2 ^ 63" using l "1.prems"(4) by simp
    note d = sint_diff [OF "1.prems"(3) x]
    show ?thesis
    proof (cases "sint (quota - h ! m) \<le> 0")
      case stop: True
      then show ?thesis using True l "1.prems" by (subst cold_refs_loop.simps) (auto simp: Let_def)
    next
      case False
      then have lt: "unat (h ! m) < unat quota" using d by linarith
      then have u: "unat (quota - h ! m) = unat quota - unat (h ! m)"
        by (simp add: unat_sub word_le_nat_alt)
      obtain m' where m': "cold_refs_loop h lim (m + 1) (quota - h ! m) = Inr m'" "m + 1 \<le> m'" "m' \<le> lim"
        "m + 1 < m' \<longrightarrow> refs_sum h (m + 1) m' < unat quota - unat (h ! m)"
      proof -
        have "m + 1 \<le> lim" "unat (quota - h ! m) < 2 ^ 63" using True "1.prems"(3) u by simp_all
        with "1.IH" [OF True l refl False _ "1.prems"(2) _ "1.prems"(4)] u that show ?thesis by metis
      qed
      have "refs_sum h m m' = unat (h ! m) + refs_sum h (m + 1) m'"
        using m'(2) by (simp add: refs_sum_def upt_conv_Cons)
      then have "refs_sum h m m' < unat quota"
        using m'(2,4) lt by (cases "m + 1 < m'") (auto simp: refs_sum_def)
      then show ?thesis using m' True l False
        by (subst cold_refs_loop.simps) (auto simp: Let_def)
    qed
  qed
qed

section \<open>Normalising\<close>

definition normalized :: "int \<Rightarrow> int \<Rightarrow> entry \<Rightarrow> entry" where
  "normalized lo hi e = (case e of (a, p, nid, loc) \<Rightarrow> (a, if lo \<le> uint p \<and> uint p \<le> hi then 1 else 0, nid, loc))"

lemma normalize_step_rewrites:
  assumes "rewritten (normalized lo hi) s k t" and "same_shape s t" and "k < length (cells s)"
    and "\<not> in_append_period s"
  shows "\<exists>t'. normalize_step lo hi (items t ! k) () t = Some ((), t') \<and> same_shape t t' \<and>
           walk_iter t' = walk_iter t \<and> rewritten (normalized lo hi) s (Suc k) t'"
proof -
  obtain a p nid loc where e: "contents s ! k = (a, p, nid, loc)" by (metis prod_cases4)
  have lt: "length (cells t) = length (cells s)" using same_shape_cells [OF assms(2)] by simp
  have "contents t ! k = contents s ! k" using assms(1,3) by (simp add: rewritten_def nth_append)
  then have it: "items t ! k = (a, p, nid)" using e assms(3) lt by (simp add: items_def)
  have a: "addrs s ! k = a" using e assms(3) by (simp add: contents_nth entry_of_def)
  let ?v = "if lo \<le> uint p \<and> uint p \<le> hi then 1 else 0 :: int"
  have "seq_inv t" using assms(1) by (simp add: rewritten_def)
  from update_addr_found [OF this, of a False ?v] rewritten_find_ok [OF assms(1,3)] a
  obtain t' where t': "update_addr t a ?v False = Some (RC_OK, t')" "touched t a (store_payload (word_of_int ?v)) t'"
    by auto
  have "store_payload (word_of_int ?v) (contents s ! k) = normalized lo hi (contents s ! k)"
    by (simp add: e store_payload_def normalized_def)
  from rewritten_step [OF assms(1,3) t'(2) [folded a] this] have "rewritten (normalized lo hi) s (Suc k) t'" .
  moreover have "\<not> in_append_period t" using assms(2,4) in_append_period_shape [of s t] by simp
  ultimately show ?thesis using t' it by (auto simp: normalize_step_def set_payload_def touched_def)
qed


lemma normalize_addr_sequence_ok:
  assumes "seq_inv s" and "\<not> in_append_period s" and "\<not> is_user_flag_set s FLAG_NORMALIZED"
  shows "\<exists>t. normalize_addr_sequence s lo hi = Some t \<and>
           contents t = map (normalized lo hi) (contents s) \<and> is_user_flag_set t FLAG_NORMALIZED"
proof -
  let ?s = "prepare_update s"
  have shs: "contents ?s = contents s" "cells ?s = cells s" "addrs ?s = addrs s"
    using view_cong [of ?s s] by (simp_all add: prepare_update_def)
  have inv: "seq_inv ?s" using prepare_update_inv(1) [OF assms(1)] .
  have r0: "rewritten (normalized lo hi) ?s 0 ?s"
    using rewritten_start [OF assms(1), of "normalized lo hi"] shs by (simp add: rewritten_def)
  have np: "\<not> in_append_period ?s" using assms(2) by (simp add: in_append_period_def prepare_update_def)
  let ?I = "\<lambda>k (b :: unit) t. rewritten (normalized lo hi) ?s k t"
  have "\<exists>b' t'. visit_all (normalize_step lo hi) () ?s = Some (b', t') \<and> same_shape ?s t' \<and>
      ?I (length (cells ?s)) b' t'"
  proof (rule visit_all_rule [where I = ?I, OF inv])
    fix k b t assume "?I k b t" "same_shape ?s t" "k < length (cells ?s)"
    from normalize_step_rewrites [OF this np]
    show "\<exists>b' t'. normalize_step lo hi (items t ! k) b t = Some (b', t') \<and> same_shape t t' \<and>
        walk_iter t' = walk_iter t \<and> ?I (Suc k) b' t'" by auto
  qed (use r0 in simp_all)
  then obtain t where t: "visit_all (normalize_step lo hi) () ?s = Some ((), t)"
    "rewritten (normalized lo hi) ?s (length (cells ?s)) t" by auto
  let ?t = "set_user_flag t FLAG_NORMALIZED"
  have "contents ?t = contents t" using view_cong [of ?t t] by (simp add: set_user_flag_def)
  moreover have "is_user_flag_set ?t FLAG_NORMALIZED"
  proof -
    have "(x OR y) AND y = y" for x y :: u64 by (rule bit_eqI) (auto simp: bit_simps)
    then show ?thesis by (simp add: is_user_flag_set_def set_user_flag_def FLAG_NORMALIZED_def push_bit_eq_mult)
  qed
  ultimately show ?thesis
    using t rewritten_all [OF t(2)] shs assms(3) by (simp add: normalize_addr_sequence_def)
qed


section \<open>Properties\<close>

text \<open>
  C17: What a scan's thresholds select: on a valid topology in which every node has a peer, visiting
  the recorded pages of one type never faults; the hot list is the PMEM pages whose count lies
  strictly above the hot threshold up to its maximum, and of those exactly at the threshold the
  first \<open>promote_remain\<close> in address order; the cold list is the same for DRAM pages below the cold
  threshold; both keep the order of the pages, and the parallel vectors pair every page with its
  own node and that node's peer.
\<close>

theorem promote_and_demote_selects:
  assumes "numa_inv c" and "has_peers c" and "seq_inv s"
  defines "xs \<equiv> items s"
  shows "\<exists>p' hot cold t.
           visit_fold (promote_and_demote_step c) (Inr (p, empty_moves, empty_moves)) s =
             Some (Inr (p', moves_of c hot, moves_of c cold), t) \<and>
           subseq hot xs \<and> filter (hot_at c p) hot = take (nat (promote_remain p)) (filter (hot_at c p) xs) \<and>
           filter (\<lambda>x. \<not> hot_at c p x) hot = filter (hot_within c p) xs \<and>
           subseq cold xs \<and> filter (cold_at c p) cold = take (nat (demote_remain p)) (filter (cold_at c p) xs) \<and>
           filter (\<lambda>x. \<not> cold_at c p x) cold = filter (cold_within c p) xs"
proof -
  obtain r where r: "fold (promote_and_demote_step c) xs (Inr (p, empty_moves, empty_moves)) = Inr r" "selected c p xs r"
    using promote_and_demote_selected [OF assms(1,2)] by blast
  obtain t where "visit_fold (promote_and_demote_step c) (Inr (p, empty_moves, empty_moves)) s = Some (Inr r, t)"
    using page_refs.visit_items [OF assms(3), of "promote_and_demote_step c" "Inr (p, empty_moves, empty_moves)"] r(1)
    by (auto simp: xs_def)
  then show ?thesis using r(2) unfolding selected_def selection_def by blast
qed

text \<open>The two-node machine, where every node has a peer.\<close>

definition pair_nodes :: numa_collection where
  "pair_nodes = (case collect two_node_lib (\<lambda>_. None) (\<lambda>_ _. Read_failed) None (Some two_nodes) empty_collection of
     Inl _ \<Rightarrow> empty_collection | Inr c \<Rightarrow> c)"

lemma pair_nodes_inv: "numa_inv pair_nodes"
proof -
  obtain c where c: "collect two_node_lib (\<lambda>_. None) (\<lambda>_ _. Read_failed) None (Some two_nodes) empty_collection = Inr c"
    using two_nodes_collected by blast
  then have "collect_by_config_v2 two_node_lib two_nodes (empty_collection\<lparr>nr_possible_node := 2\<rparr>) = Inr c"
    by (simp add: collect_def two_nodes_def two_node_lib_def)
  from collect_by_config_v2_inv [OF this] two_nodes_created c show ?thesis by (simp add: pair_nodes_def)
qed

lemma pair_nodes_values:
  "nr_possible_node pair_nodes = 2"
  "(case node_of pair_nodes 0 of Inl _ \<Rightarrow> False | Inr n \<Rightarrow> \<not> is_pmem n \<and> get_peer_node n \<noteq> None)"
  "(case node_of pair_nodes 1 of Inl _ \<Rightarrow> False | Inr n \<Rightarrow> is_pmem n \<and> get_peer_node n \<noteq> None)"
  by code_simp+

lemma pair_nodes_peers: "has_peers pair_nodes"
  unfolding has_peers_def
proof (intro allI impI)
  fix nid n assume "is_valid_nid pair_nodes nid" "node_of pair_nodes nid = Inr n"
  moreover from this have "nid = 0 \<or> nid = 1" using pair_nodes_values(1) by (auto simp: is_valid_nid_def)
  ultimately show "get_peer_node n \<noteq> None" using pair_nodes_values(2,3) by auto
qed

theorem promote_and_demote_selects_witness:
  "\<exists>p' hot cold t.
     visit_fold (promote_and_demote_step pair_nodes) (Inr (parameter_clear, empty_moves, empty_moves)) one_item =
       Some (Inr (p', moves_of pair_nodes hot, moves_of pair_nodes cold), t) \<and> subseq hot [(0x1000, 8, - 1)]"
  using promote_and_demote_selects [OF pair_nodes_inv pair_nodes_peers one_item_inv(1), of parameter_clear]
  unfolding one_item_items by blast

text \<open>Once the turns have passed the longer list, everything was asked for.\<close>

lemma interleaved_complete:
  assumes "interleaved type n mls [] sts j ((k, l), ms, sts')"
    and "length (ml_addr (mls COLD_MIGRATE)) \<le> j" and "length (ml_addr (mls HOT_MIGRATE)) \<le> j"
  shows "\<forall>(as, ts) \<in> set l. length as = length ts \<and> length as \<le> n"
    and "mset (concat (map (\<lambda>(as, ts). zip as ts) l)) =
      mset (zip (ml_addr (mls COLD_MIGRATE)) (ml_target (mls COLD_MIGRATE))) +
      mset (zip (ml_addr (mls HOT_MIGRATE)) (ml_target (mls HOT_MIGRATE)))"
    and "kind < MAX_MIGRATE \<Longrightarrow> to_move_kb (ms_move (sts' kind)) = to_move_kb (ms_move (sts kind)) +
      push_bit (pagetype_shift type - 10) (of_nat (length (ml_addr (mls kind))))"
proof -
  have all: "pages_to_move (mls kind) j = mset (zip (ml_addr (mls kind)) (ml_target (mls kind)))"
    "min j (length (ml_addr (mls kind))) = length (ml_addr (mls kind))" if "kind < MAX_MIGRATE" for kind
    using assms(2,3) that by (auto simp: migrate_kinds less_2_cases_iff pages_to_move_def)
  have L: "\<forall>(as, ts) \<in> set l. length as = length ts \<and> length as \<le> n"
    "logged_pages l = pages_to_move (mls COLD_MIGRATE) j + pages_to_move (mls HOT_MIGRATE) j"
    and K: "\<forall>kind < MAX_MIGRATE. to_move_kb (ms_move (sts' kind)) = to_move_kb (ms_move (sts kind)) +
       push_bit (pagetype_shift type - 10) (of_nat (min j (length (ml_addr (mls kind)))))"
    using assms(1) by (simp_all add: interleaved_def)
  have "COLD_MIGRATE < MAX_MIGRATE" "HOT_MIGRATE < MAX_MIGRATE" by (simp_all add: migrate_kinds)
  note all0 = all(1) [OF this(1)] all(1) [OF this(2)]
  show "\<forall>(as, ts) \<in> set l. length as = length ts \<and> length as \<le> n" by (rule L(1))
  show "mset (concat (map (\<lambda>(as, ts). zip as ts) l)) =
      mset (zip (ml_addr (mls COLD_MIGRATE)) (ml_target (mls COLD_MIGRATE))) +
      mset (zip (ml_addr (mls HOT_MIGRATE)) (ml_target (mls HOT_MIGRATE)))"
    using L(2) unfolding all0 logged_pages_def .
  assume kind: "kind < MAX_MIGRATE"
  show "to_move_kb (ms_move (sts' kind)) = to_move_kb (ms_move (sts kind)) +
      push_bit (pagetype_shift type - 10) (of_nat (length (ml_addr (mls kind))))"
    using K [rule_format, OF kind] all(2) [OF kind] by (simp only:)
qed

text \<open>
  C18: Moving in turns: for every system call that fills the array it is given, and parallel hot and
  cold lists, the interleaving loop returns without an index fault; the moves asked of the system
  call are in batches of at most the batch size of the page type, and together they are every page
  of both lists with its own target, each exactly as often as it is in the lists; and the pages to
  move in the statistics of each kind grow by the size of that list, even where a call fails.
\<close>

theorem interleaved_moves_every_page:
  assumes "fills sys" and "parallel (mls COLD_MIGRATE)" and "parallel (mls HOT_MIGRATE)"
    and "0 < pagetype_batchsize type"
  shows "\<exists>k' l e'. do_interleave_move_pages (logging sys) type mls (k, []) e = Some (Inr ((k', l), e')) \<and>
           (\<forall>(as, ts) \<in> set l. length as = length ts \<and> length as \<le> pagetype_batchsize type) \<and>
           mset (concat (map (\<lambda>(as, ts). zip as ts) l)) =
             mset (zip (ml_addr (mls COLD_MIGRATE)) (ml_target (mls COLD_MIGRATE))) +
             mset (zip (ml_addr (mls HOT_MIGRATE)) (ml_target (mls HOT_MIGRATE))) \<and>
           (\<forall>kind < MAX_MIGRATE. to_move_kb (ms_move (page_migrate_stats e' kind)) =
              to_move_kb (ms_move (page_migrate_stats e kind)) +
              push_bit (pagetype_shift type - 10) (of_nat (length (ml_addr (mls kind)))))"
proof (cases "ml_addr (mls COLD_MIGRATE) = [] \<and> ml_addr (mls HOT_MIGRATE) = []")
  case True
  then have "\<forall>kind < MAX_MIGRATE. ml_addr (mls kind) = []"
    by (auto simp: migrate_kinds less_2_cases_iff)
  then show ?thesis using True
    by (intro exI [of _ k] exI [of _ "[]"] exI [of _ e]) (simp add: do_interleave_move_pages_def)
next
  case False
  let ?n = "max (length (ml_addr (mls COLD_MIGRATE))) (length (ml_addr (mls HOT_MIGRATE)))"
  let ?ms = "\<lambda>kind. if kind < MAX_MIGRATE then setup_migrator type (page_migrator e kind) else page_migrator e kind"
  have "interleaved type (pagetype_batchsize type) mls [] (page_migrate_stats e) 0 ((k, []), ?ms, page_migrate_stats e)"
    by (simp add: interleaved_def pages_to_move_def logged_pages_def)
  from interleave_loop_logged [OF assms this, of ?n] obtain s' j where
    s': "interleave_loop (logging sys) type (pagetype_batchsize type) ?n 0 mls ((k, []), ?ms, page_migrate_stats e) =
      Some (Inr s')" "?n \<le> j" "interleaved type (pagetype_batchsize type) mls [] (page_migrate_stats e) j s'"
    by blast
  obtain k' l ms' sts' where "s' = ((k', l), ms', sts')" by (metis prod_cases3 prod.exhaust)
  with s' have
    s: "interleave_loop (logging sys) type (pagetype_batchsize type) ?n 0 mls ((k, []), ?ms, page_migrate_stats e) =
      Some (Inr ((k', l), ms', sts'))" and j: "?n \<le> j"
    and I: "interleaved type (pagetype_batchsize type) mls [] (page_migrate_stats e) j ((k', l), ms', sts')"
    by simp_all
  have "length (ml_addr (mls COLD_MIGRATE)) \<le> j" "length (ml_addr (mls HOT_MIGRATE)) \<le> j" using j by simp_all
  note complete = interleaved_complete [OF I this]
  have "do_interleave_move_pages (logging sys) type mls (k, []) e =
      Some (Inr ((k', l), e\<lparr>page_migrator := ms', page_migrate_stats := sts'\<rparr>))"
    unfolding do_interleave_move_pages_def Let_def using False s by (simp only: if_False) simp
  then show ?thesis using complete
    by (intro exI [of _ k'] exI [of _ l] exI [of _ "e\<lparr>page_migrator := ms', page_migrate_stats := sts'\<rparr>"]) simp
qed

definition one_page :: move_list where
  "one_page = \<lparr>ml_addr = [0x1000], ml_from = [1], ml_target = [0]\<rparr>"

definition idle_migrate :: ept_migrate where
  "idle_migrate =
     \<lparr>em_scan = \<lparr>es_idle = idle_example, es_numa = pair_nodes\<rparr>, parameter = (\<lambda>_. parameter_clear),
      page_migrate_stats = (\<lambda>_. migrate_stats_clear), page_migrator = (\<lambda>_. example_mover),
      pages_addr = (\<lambda>_. []), migrate_stats = migrate_stats_clear, migrator = example_mover, dram_quota = None\<rparr>"

theorem interleaved_moves_every_page_witness:
  "\<exists>l e'. do_interleave_move_pages (logging stay_call) PTE_ACCESSED (\<lambda>_. one_page) ((), []) idle_migrate = Some (Inr (((), l), e')) \<and>
     mset (concat (map (\<lambda>(as, ts). zip as ts) l)) = {#(0x1000, 0), (0x1000, 0)#}"
proof -
  have "fills stay_call" by (simp add: fills_def stay_call_def)
  moreover have "parallel one_page" by (simp add: parallel_def one_page_def)
  moreover have "0 < pagetype_batchsize PTE_ACCESSED" by (simp add: pagetype_batchsize_def)
  ultimately show ?thesis
    using interleaved_moves_every_page [of stay_call "\<lambda>_. one_page" PTE_ACCESSED "()" idle_migrate]
    by (auto simp: one_page_def)
qed

text \<open>
  A threshold for hot pages that is chosen from a portion stays within the portion: when the
  options leave the choice to the histogram, and the counts of the histogram and the portion are
  below 2^63, the choice does not run past the histogram; the upper bound is the number of walks,
  the lower one is between 1 and it, and unless it is the number of walks itself, the pages counted
  in that range are fewer than the portion.
\<close>

theorem hot_threshold_within_portion:
  assumes "type \<le> MAX_ACCESSED" and "mo_nr_walks opt \<noteq> 0" and "hot_min_refs opt \<le> 0" and "1 \<le> nw"
    and "length h = nat nw + 1" and "unat (scale (addr_size s)) < 2 ^ 63" and "\<forall>x \<in> set h. unat x < 2 ^ 63"
  shows "\<exists>lo. get_threshold_refs opt scale nw type s h = Inr (scale (addr_size s), lo, nw) \<and>
           1 \<le> lo \<and> lo \<le> nw \<and>
           (lo < nw \<longrightarrow> (\<Sum>k\<leftarrow>[nat lo..<nat nw + 1]. unat (h ! k)) < unat (scale (addr_size s)))"
proof (cases "nw \<le> 1")
  case True
  then show ?thesis using assms by (simp add: get_threshold_refs_def Let_def)
next
  case False
  obtain m where m: "hot_refs_loop h (nat nw) (scale (addr_size s)) = Inr m" "1 \<le> m" "m \<le> nat nw"
    "m < nat nw \<longrightarrow> refs_sum h (Suc m) (Suc (nat nw)) < unat (scale (addr_size s))"
  proof -
    have "1 \<le> nat nw" "nat nw < length h" using assms(4,5) by simp_all
    from hot_refs_loop_portion [OF this assms(6,7)] that show ?thesis by blast
  qed
  let ?lo = "if int m < nw then int m + 1 else int m"
  have "get_threshold_refs opt scale nw type s h = Inr (scale (addr_size s), ?lo, nw)"
    using assms(1-3) False m(1) by (simp add: get_threshold_refs_def Let_def)
  moreover have "1 \<le> ?lo" "?lo \<le> nw" using m False by auto
  moreover have "(\<Sum>k\<leftarrow>[nat ?lo..<nat nw + 1]. unat (h ! k)) < unat (scale (addr_size s))" if "?lo < nw"
  proof -
    have "int m < nw" using that m(3) by (auto split: if_splits)
    then show ?thesis using m(4) by (simp add: refs_sum_def nat_add_distrib del: upt_Suc)
  qed
  ultimately show ?thesis by blast
qed

theorem hot_threshold_within_portion_witness:
  "\<exists>lo. get_threshold_refs \<lparr>mo_nr_walks = 4, hot_min_refs = 0, cold_max_refs = - 1, mo_dram_percent = 50\<rparr>
     (\<lambda>_. 10) 4 PTE_ACCESSED new_seq [90, 5, 4, 3, 2] = Inr (10, lo, 4) \<and> 1 \<le> lo \<and> lo \<le> 4"
  using hot_threshold_within_portion [of PTE_ACCESSED
      "\<lparr>mo_nr_walks = 4, hot_min_refs = 0, cold_max_refs = - 1, mo_dram_percent = 50\<rparr>" 4 "[90, 5, 4, 3, 2]" "\<lambda>_. 10" new_seq]
  by auto

text \<open>
  Normalising the counts of a sequence that has finished its first walk and has not been
  normalised returns, and then every page has the count 1 if its count was within the range and 0
  otherwise, with its node and location unchanged; the sequence is marked as normalised.
\<close>

theorem normalize_makes_binary:
  assumes "seq_run Counting s" and "\<not> is_user_flag_set s FLAG_NORMALIZED"
  shows "\<exists>t. normalize_addr_sequence s lo hi = Some t \<and> is_user_flag_set t FLAG_NORMALIZED \<and>
           contents t = map (\<lambda>(a, p, nid, loc). (a, if lo \<le> uint p \<and> uint p \<le> hi then 1 else 0, nid, loc)) (contents s)"
proof -
  have "seq_inv s" "\<not> in_append_period s"
    using seq_run_phase_inv [OF assms(1)] by (auto simp: phase_inv_def in_append_period_def)
  from normalize_addr_sequence_ok [OF this assms(2), of lo hi] show ?thesis
    unfolding normalized_def by auto
qed


theorem normalize_makes_binary_witness:
  "\<exists>t. normalize_addr_sequence (rewind (rewind (fresh_seq new_seq 12))) 2 5 = Some t \<and> is_user_flag_set t FLAG_NORMALIZED"
proof -
  have "user_flags (rewind (rewind (fresh_seq new_seq 12))) = 0"
    by (simp add: rewind_def clear_location_count_def fresh_seq_def as_clear_def free_all_buf_def set_pageshift_def
        new_seq_def AddrSequence_ctor_def Let_def)
  then have "\<not> is_user_flag_set (rewind (rewind (fresh_seq new_seq 12))) FLAG_NORMALIZED"
    by (simp add: is_user_flag_set_def)
  from normalize_makes_binary [OF seq_run.next_walk [OF new_seq_run [of 12]] this, of 2 5] show ?thesis by auto
qed

section \<open>What the code gets wrong\<close>

text \<open>
  The maps of the nodes are only loaded while that of the machine is empty: once the capacity of the
  machine has been asked for, asking for that of a node throws. \<open>get_threshold_refs\<close> divides the
  one by the other, in an order the language leaves open.
\<close>

lemma node_vmstat_after_machine:
  assumes "vmstat fs name v = Inr (n, v')" and "pv_numa v = []"
  shows "vmstat_node fs nid name' v' = Inl Out_of_range"
proof -
  have "pv_proc v' \<noteq> None" "pv_numa v' = []"
    using assms by (auto simp: vmstat_def load_vmstat_def map_at_key_def Let_def split: option.splits if_splits)
  then show ?thesis by (auto simp: vmstat_node_def)
qed

text \<open>Clearing a sequence keeps its flags, so a sequence that is used again is not normalised again.\<close>

lemma clear_keeps_normalized:
  "is_user_flag_set (as_clear s) FLAG_NORMALIZED = is_user_flag_set s FLAG_NORMALIZED"
  "is_user_flag_set s FLAG_NORMALIZED \<Longrightarrow> normalize_addr_sequence s lo hi = Some s"
  by (simp_all add: is_user_flag_set_def as_clear_def normalize_addr_sequence_def free_all_buf_def
      clear_location_count_def Let_def)

end
