(* ===== verification/Cmsk.thy ===== *)
theory Cmsk
  imports MO_Prelude "HOL-Library.Multiset"
begin

text \<open>
  The counters of the PMU based tool, \<open>pmu-refs/cmsk.h\<close> and \<open>pmu-refs/cmsk.cc\<close>: a count-min sketch
  that decides which sampled pages are worth remembering, and a chained hash table that counts
  those. Bit fields keep their width (\<open>pid:24\<close>, \<open>next:24\<close>, \<open>count:16\<close>), and an index that leaves a
  vector is the fault \<open>Bad_index\<close>. Printing is not modelled; \<open>std::sort\<close> is a parameter, since its
  order of equal elements is unspecified.
\<close>

unbundle bit_operations_syntax

section \<open>Data\<close>

type_synonym cms_count_t = u16

definition CMS_COUNT_MAX :: cms_count_t where "CMS_COUNT_MAX = 65535"

datatype cmsk_aging = CMSK_AGING_CLEAR | CMSK_AGING_HALF

record cms =
  width_order :: nat
  width_mask :: u32
  depth :: nat
  cms_total :: u32
  matrix :: "cms_count_t list list"

definition ACHASH_SIZE_ORDER_MAX :: nat where "ACHASH_SIZE_ORDER_MAX = 23"

record achash_item =
  it_addr :: u64
  it_pid :: "24 word"
  it_next :: "24 word"
  it_count :: u16

record achash =
  hash_mode :: bool
  threshold :: u32
  size_order :: nat
  ah_size :: u32
  ah_mask :: u32
  ah_len :: u32
  samples :: u32
  buckets :: "u32 list"
  ah_items :: "achash_item list"
  hist :: "u32 list"
  hist_max :: int

record cmsk =
  aging_method :: cmsk_aging
  cmsk_interval :: u32
  cmsk_no :: u32
  sketch :: cms
  table :: achash
  nr_hot_page :: u32

definition hasha :: "u64 list" where
  "hasha =
     [0x303d3429, 0x39b02a15, 0x22984495, 0x330d690f,
      0x37f09895, 0x2c4967f1, 0x3eacfedd, 0x24753fa3,
      0x2684579f, 0x361962b5, 0x2e714de9, 0x29ae22e9,
      0x117433d5, 0x143e3891, 0x21deb47f, 0x28df71e1,
      0x2f633edf, 0x12addc0d, 0x1b9d2fc1, 0x12fded03,
      0x2d9758a7, 0x2a34b455, 0x3172715b, 0x148b815b,
      0x28c9b9fb, 0x17a31d75, 0x15fe7b69, 0x26987d49,
      0x25e2440f, 0x1b4ab775, 0x2992a0d7, 0x2903b75f]"

definition hashb :: "u64 list" where
  "hashb =
     [0x382a9bb5, 0x14ea0b57, 0x3d09e275, 0x2fe39ce7,
      0x3d359391, 0x17638f3f, 0x3725344f, 0x3baee8dd,
      0x3e4c6b57, 0x39f57e4b, 0x119725c1, 0x154d3bf9,
      0x3cf63121, 0x221fe771, 0x34255333, 0x3a9dff77,
      0x2e607ae3, 0x359b44f5, 0x379f3a65, 0x366f4147,
      0x2d10d9e9, 0x37ff0489, 0x3a4d42dd, 0x313f83a1,
      0x26642525, 0x244ef881, 0x1d663f5d, 0x1ada7899,
      0x1f896d3d, 0x23d43f21, 0x3e128f1f, 0x3d329827]"

definition hashp :: "u64 list" where
  "hashp =
     [0x329449f1, 0x342b5385, 0x13e7b215, 0x1094d12d,
      0x1a8fad3b, 0x2b66f2f5, 0x2b24b01d, 0x29fde021,
      0x28a9b9fd, 0x21e3bb4d, 0x2ed4524f, 0x215b1017,
      0x33ae4a5d, 0x17c569c9, 0x2e32fa01, 0x1e913343,
      0x1c41f0dd, 0x2271c37f, 0x2e534adb, 0x22eaf111,
      0x1b3b265d, 0x18c8c5a3, 0x21880fd5, 0x14d3b879,
      0x39e4f58f, 0x1b2e22c5, 0x31bb8bdd, 0x32e9cacb,
      0x25d22a8b, 0x11eff19b, 0x32f5b809, 0x10144961]"

text \<open>\<open>std::vector::resize\<close>: elements that are there already are kept.\<close>

definition resize :: "nat \<Rightarrow> 'a \<Rightarrow> 'a list \<Rightarrow> 'a list" where
  "resize n d xs = take n xs @ replicate (n - length xs) d"

section \<open>The count-min sketch\<close>

definition cms_width :: "cms \<Rightarrow> u32" where
  "cms_width c = push_bit (width_order c) 1"

definition cms_init :: "cms \<Rightarrow> cms" where
  "cms_init c =
     c\<lparr>width_mask := cms_width c - 1, cms_total := 0,
       matrix := map (resize (unat (cms_width c)) 0) (resize (depth c) [] (matrix c))\<rparr>"

definition cms_clear :: "cms \<Rightarrow> cms" where
  "cms_clear c =
     c\<lparr>matrix := map (map (\<lambda>_. 0)) (take (depth c) (matrix c)) @ drop (depth c) (matrix c), cms_total := 0\<rparr>"

definition cms_age :: "cms \<Rightarrow> cms" where
  "cms_age c =
     c\<lparr>matrix := map (\<lambda>row. map (drop_bit 1) (take (unat (cms_width c)) row) @ drop (unat (cms_width c)) row)
                   (take (depth c) (matrix c)) @ drop (depth c) (matrix c),
       cms_total := drop_bit 1 (cms_total c)\<rparr>"

text \<open>The arithmetic is that of \<open>unsigned long long\<close>, the result is cut to \<open>unsigned int\<close>.\<close>

definition hash :: "u64 \<Rightarrow> u64 \<Rightarrow> int \<Rightarrow> u32 run" where
  "hash item1 item2 i =
     (if 0 \<le> i \<and> nat i < length hasha
      then Inr (ucast ((item1 * hasha ! nat i + item2 * hashb ! nat i) div hashp ! nat i))
      else Inl Bad_index)"

text \<open>The code shifts by \<open>width_order - 1\<close>, so \<open>width_order\<close> must not be 0.\<close>

definition cms_error :: "cms \<Rightarrow> u32" where
  "cms_error c = drop_bit (width_order c - 1) (cms_total c)"

definition cms_update_row ::
    "u64 \<Rightarrow> u64 \<Rightarrow> nat \<Rightarrow> cms \<times> cms_count_t \<times> u32 \<Rightarrow> (cms \<times> cms_count_t \<times> u32) run" where
  "cms_update_row item1 item2 i s =
     (case s of (c, cmin, h) \<Rightarrow>
        rbind (hash item1 item2 (int i)) (\<lambda>x.
          let h = x AND width_mask c
          in if i < length (matrix c) \<and> unat h < length (matrix c ! i) then
               let val = matrix c ! i ! unat h + 1
               in Inr (c\<lparr>matrix := (matrix c)[i := (matrix c ! i)[unat h := val]]\<rparr>,
                       (if val < cmin then val else cmin), h)
             else Inl Bad_index))"

text \<open>The smallest counter of the item, and the hash of the last row.\<close>

definition cms_update :: "u64 \<Rightarrow> u64 \<Rightarrow> cms \<Rightarrow> (u32 \<times> u32 \<times> cms) run" where
  "cms_update item1 item2 c =
     rbind (rfold (cms_update_row item1 item2) [0..<depth c] (c, CMS_COUNT_MAX, 0))
       (\<lambda>(c, cmin, h). Inr (ucast cmin, h, c\<lparr>cms_total := cms_total c + 1\<rparr>))"

section \<open>The hash table\<close>

definition null_item :: achash_item where
  "null_item = \<lparr>it_addr = 0, it_pid = 0, it_next = 0, it_count = 0\<rparr>"

text \<open>A negative size makes \<open>resize\<close> throw, which ends the program.\<close>

definition achash_init :: "achash \<Rightarrow> (int \<times> achash) run" where
  "achash_init a =
     (if size_order a > ACHASH_SIZE_ORDER_MAX then Inr (- 1, a)
      else if hist_max a < 0 then Inl Exit_called
      else let n = push_bit (size_order a) 1
           in Inr (0, a\<lparr>ah_size := n, ah_mask := n - 1, ah_len := 0, samples := 0,
                        ah_items := resize (unat n) null_item (ah_items a),
                        buckets := resize (unat n) 0 (buckets a),
                        hist := resize (nat (hist_max a)) 0 (hist a)\<rparr>))"

definition achash_clear :: "achash \<Rightarrow> achash" where
  "achash_clear a =
     a\<lparr>ah_len := 0, samples := 0, buckets := map (\<lambda>_. 0) (buckets a), hist := map (\<lambda>_. 0) (hist a)\<rparr>"

text \<open>\<open>int index = count\<close>\<close>

definition hist_index :: "achash \<Rightarrow> u32 \<Rightarrow> int" where
  "hist_index a n = (let index = sint n in if index \<ge> hist_max a then hist_max a - 1 else index)"

definition hist_add :: "u32 \<Rightarrow> achash \<Rightarrow> u32 \<Rightarrow> achash run" where
  "hist_add d a n =
     (let index = hist_index a n
      in if 0 \<le> index \<and> nat index < length (hist a)
         then Inr (a\<lparr>hist := (hist a)[nat index := hist a ! nat index + d]\<rparr>) else Inl Bad_index)"

definition hist_inc :: "achash \<Rightarrow> u32 \<Rightarrow> achash run" where
  "hist_inc = hist_add 1"

definition hist_dec :: "achash \<Rightarrow> u32 \<Rightarrow> achash run" where
  "hist_dec = hist_add (- 1)"

definition achash_new_item :: "achash \<Rightarrow> u64 \<Rightarrow> u32 \<Rightarrow> (u32 \<times> achash) run" where
  "achash_new_item a addr pid =
     (if unat (ah_len a) < length (ah_items a) then
        let item = \<lparr>it_addr = addr, it_pid = ucast pid, it_next = 0,
                    it_count = (if hash_mode a then 1 else ucast (threshold a))\<rparr>;
            a = a\<lparr>ah_items := (ah_items a)[unat (ah_len a) := item]\<rparr>
        in rbind (if hash_mode a then hist_inc (a\<lparr>samples := samples a + 1\<rparr>) 1
                  else Inr (a\<lparr>samples := samples a + threshold a\<rparr>))
             (\<lambda>a. Inr (ah_len a + 1, a\<lparr>ah_len := ah_len a + 1\<rparr>))
      else Inl Bad_index)"

text \<open>
  The walk along a chain of item numbers (an item's number is its index plus one). A chain with a
  cycle would never end.
\<close>

definition achash_hit :: "achash \<Rightarrow> nat \<Rightarrow> achash run" where
  "achash_hit a i =
     (let item = ah_items a ! i; n = it_count item + 1;
          a = a\<lparr>ah_items := (ah_items a)[i := item\<lparr>it_count := n\<rparr>], samples := samples a + 1\<rparr>
      in rbind (hist_inc a (ucast n)) (\<lambda>a. hist_dec a (ucast n - 1)))"

partial_function (option) achash_chain :: "u64 \<Rightarrow> u32 \<Rightarrow> u32 \<Rightarrow> achash \<Rightarrow> (bool \<times> achash) run option" where
  "achash_chain addr pid num a =
     (let i = unat (num - 1)
      in if i < length (ah_items a) then
           let item = ah_items a ! i
           in if it_addr item = addr \<and> ucast (it_pid item) = pid
              then Some (rbind (achash_hit a i) (\<lambda>a. Inr (False, a)))
              else if it_next item = 0
              then Some (rbind (achash_new_item a addr pid) (\<lambda>(k, a).
                     Inr (ah_len a \<ge> ah_size a,
                          a\<lparr>ah_items := (ah_items a)[i := (ah_items a ! i)\<lparr>it_next := ucast k\<rparr>]\<rparr>)))
              else achash_chain addr pid (ucast (it_next item)) a
         else Some (Inl Bad_index))"

definition achash_update :: "achash \<Rightarrow> u64 \<Rightarrow> u32 \<Rightarrow> u32 \<Rightarrow> (bool \<times> achash) run option" where
  "achash_update a addr pid h =
     (let b = unat (h AND ah_mask a)
      in if b < length (buckets a) then
           if buckets a ! b = 0
           then Some (rbind (achash_new_item a addr pid) (\<lambda>(k, a).
                  Inr (ah_len a \<ge> ah_size a, a\<lparr>buckets := (buckets a)[b := k]\<rparr>)))
           else achash_chain addr pid (buckets a ! b) a
         else Some (Inl Bad_index))"

definition achash_age :: "achash \<Rightarrow> achash" where
  "achash_age a = achash_clear a"

text \<open>\<open>achash_cmp\<close> orders by descending counts; the whole vector is sorted, not only the items in use.\<close>

definition achash_cmp :: "achash_item \<Rightarrow> achash_item \<Rightarrow> bool" where
  "achash_cmp x y = (it_count x > it_count y)"

definition achash_sort :: "(achash_item list \<Rightarrow> achash_item list) \<Rightarrow> achash \<Rightarrow> achash" where
  "achash_sort srt a = a\<lparr>ah_items := srt (ah_items a)\<rparr>"

partial_function (option) bsearch_loop ::
    "achash_item list \<Rightarrow> cms_count_t \<Rightarrow> u32 \<Rightarrow> u32 \<Rightarrow> u32 run option" where
  "bsearch_loop xs n lo hi =
     (if lo = hi then Some (Inr lo)
      else let mid = (lo + hi) div 2
           in if unat mid < length xs then
                if it_count (xs ! unat mid) \<le> n then bsearch_loop xs n lo mid
                else bsearch_loop xs n (mid + 1) hi
              else Some (Inl Bad_index))"

definition achash_bsearch :: "achash \<Rightarrow> u32 \<Rightarrow> cms_count_t \<Rightarrow> u32 run option" where
  "achash_bsearch a hi n = bsearch_loop (ah_items a) n 0 hi"

section \<open>The combination\<close>

definition cmsk_init :: "cmsk \<Rightarrow> (int \<times> cmsk) run" where
  "cmsk_init k =
     rbind (achash_init (table k)) (\<lambda>(ret, a).
       Inr (ret, k\<lparr>nr_hot_page := 0, cmsk_no := cmsk_interval k, sketch := cms_init (sketch k), table := a\<rparr>))"

definition cmsk_clear :: "cmsk \<Rightarrow> cmsk" where
  "cmsk_clear k =
     k\<lparr>sketch := (if hash_mode (table k) then (sketch k)\<lparr>cms_total := 0\<rparr> else cms_clear (sketch k)),
       table := achash_clear (table k)\<rparr>"

definition cmsk_update :: "cmsk \<Rightarrow> u64 \<Rightarrow> u64 \<Rightarrow> (bool \<times> cmsk) run option" where
  "cmsk_update k item1 item2 =
     (if hash_mode (table k) then
        (case hash item1 item2 (int (depth (sketch k)) - 1) of
           Inl e \<Rightarrow> Some (Inl e)
         | Inr h \<Rightarrow>
             do { r \<leftarrow> achash_update (table k) item1 (ucast item2) h;
                  Some (rbind r (\<lambda>(full, a).
                    Inr (full, k\<lparr>sketch := (sketch k)\<lparr>cms_total := cms_total (sketch k) + 1\<rparr>, table := a\<rparr>))) })
      else
        (case cms_update item1 item2 (sketch k) of
           Inl e \<Rightarrow> Some (Inl e)
         | Inr (n, h, c) \<Rightarrow>
             let k = k\<lparr>sketch := c\<rparr>
             in if n \<ge> threshold (table k) + cms_error c
                then do { r \<leftarrow> achash_update (table k) item1 (ucast item2) h;
                          Some (rbind r (\<lambda>(full, a). Inr (full, k\<lparr>table := a\<rparr>))) }
                else Some (Inr (False, k))))"

definition cmsk_age :: "cmsk \<Rightarrow> cmsk" where
  "cmsk_age k =
     (if aging_method k = CMSK_AGING_HALF
      then k\<lparr>sketch := cms_age (sketch k), table := achash_age (table k)\<rparr> else cmsk_clear k)"

definition samples_of :: "achash_item list \<Rightarrow> u32" where
  "samples_of xs = (\<Sum>x\<leftarrow>xs. ucast (it_count x))"

definition cmsk_sort :: "(achash_item list \<Rightarrow> achash_item list) \<Rightarrow> cmsk \<Rightarrow> cmsk run option" where
  "cmsk_sort srt k =
     (let n = ah_len (table k)
      in if n = 0 then Some (Inr (k\<lparr>nr_hot_page := 0\<rparr>))
         else let a = achash_sort srt (table k);
                  thr = (if hash_mode a then threshold a else threshold a + cms_error (sketch k))
              in if unat (n - 1) \<ge> length (ah_items a) then Some (Inl Bad_index)
                 else if ucast (it_count (ah_items a ! unat (n - 1))) < thr
                 then do { r \<leftarrow> achash_bsearch a (n - 1) (ucast (thr - 1));
                           Some (rbind r (\<lambda>m.
                             let cut = drop (unat m) (take (unat n) (ah_items a))
                             in Inr (k\<lparr>table := a\<lparr>ah_len := m, samples := samples a - samples_of cut\<rparr>,
                                       nr_hot_page := m\<rparr>))) }
                 else Some (Inr (k\<lparr>table := a, nr_hot_page := ah_len a\<rparr>)))"

definition cmsk_hot_pages :: "cmsk \<Rightarrow> u32 \<Rightarrow> achash_item list" where
  "cmsk_hot_pages k n = take (unat (min n (ah_len (table k)))) (ah_items (table k))"

end
