(* ===== verification/Cmsk_Table.thy ===== *)
theory Cmsk_Table
  imports Cmsk
begin

text \<open>
  The hash table of \<open>pmu-refs/cmsk.cc\<close> as a map from pages to counts: the invariant of its chains,
  and the refinement of the map by \<open>achash_update\<close>.
\<close>

unbundle bit_operations_syntax

section \<open>The table as a map\<close>

type_synonym page_key = "u64 \<times> u32"

definition key_of :: "achash_item \<Rightarrow> page_key" where
  "key_of x = (it_addr x, ucast (it_pid x))"

definition entries :: "achash \<Rightarrow> achash_item list" where
  "entries a = take (unat (ah_len a)) (ah_items a)"

definition table_map :: "achash \<Rightarrow> page_key \<rightharpoonup> u16" where
  "table_map a = map_of (map (\<lambda>x. (key_of x, it_count x)) (entries a))"

text \<open>\<open>ps\<close> are the indices of the items of the chain that starts at item number \<open>num\<close>.\<close>

fun linked :: "achash_item list \<Rightarrow> nat \<Rightarrow> nat list \<Rightarrow> bool" where
  "linked xs num [] \<longleftrightarrow> num = 0"
| "linked xs num (p # ps) \<longleftrightarrow> num = Suc p \<and> linked xs (unat (it_next (xs ! p))) ps"

definition bucket_at :: "(page_key \<Rightarrow> u32) \<Rightarrow> achash \<Rightarrow> page_key \<Rightarrow> nat" where
  "bucket_at hf a key = unat (hf key AND ah_mask a)"

definition chain_ix :: "(page_key \<Rightarrow> u32) \<Rightarrow> achash \<Rightarrow> nat \<Rightarrow> nat list" where
  "chain_ix hf a b = filter (\<lambda>i. bucket_at hf a (key_of (ah_items a ! i)) = b) [0..<unat (ah_len a)]"

definition table_shape :: "achash \<Rightarrow> bool" where
  "table_shape a \<longleftrightarrow> size_order a \<le> ACHASH_SIZE_ORDER_MAX \<and> ah_size a = push_bit (size_order a) 1 \<and>
     ah_mask a = ah_size a - 1 \<and> length (ah_items a) = unat (ah_size a) \<and>
     length (buckets a) = unat (ah_size a) \<and> 0 < hist_max a \<and> length (hist a) = nat (hist_max a) \<and>
     ah_len a \<le> ah_size a"

definition table_inv :: "(page_key \<Rightarrow> u32) \<Rightarrow> achash \<Rightarrow> bool" where
  "table_inv hf a \<longleftrightarrow> table_shape a \<and> distinct (map key_of (entries a)) \<and>
     (\<forall>b < length (buckets a). linked (ah_items a) (unat (buckets a ! b)) (chain_ix hf a b))"

lemma size_pow:
  assumes "table_shape a"
  shows "unat (ah_size a) = 2 ^ size_order a" "unat (ah_size a) \<le> 8388608"
proof -
  have k: "size_order a \<le> 23" using assms by (simp add: table_shape_def ACHASH_SIZE_ORDER_MAX_def)
  then have "(2::nat) ^ size_order a \<le> 2 ^ 23" by (intro power_increasing) auto
  moreover from this have "unat (of_nat (2 ^ size_order a) :: u32) = 2 ^ size_order a"
    by (intro unat_of_nat_small) simp
  moreover have "ah_size a = of_nat (2 ^ size_order a)"
    using assms by (simp add: table_shape_def push_bit_eq_mult)
  ultimately show "unat (ah_size a) = 2 ^ size_order a" "unat (ah_size a) \<le> 8388608" by auto
qed

lemma bucket_less:
  assumes "table_shape a"
  shows "bucket_at hf a key < length (buckets a)"
proof -
  have "ah_mask a = 2 ^ size_order a - 1" using assms by (simp add: table_shape_def push_bit_eq_mult)
  then have "hf key AND ah_mask a = take_bit (size_order a) (hf key)"
    by (simp add: and_pow2_minus1_eq_take_bit)
  then show ?thesis using size_pow [OF assms] assms
    by (simp add: bucket_at_def table_shape_def unsigned_take_bit_eq take_bit_nat_less_exp)
qed

lemma linked_cong: "(\<And>p. p \<in> set ps \<Longrightarrow> it_next (xs ! p) = it_next (ys ! p)) \<Longrightarrow> linked xs num ps = linked ys num ps"
  by (induction ps arbitrary: num) auto

lemma linked_snoc:
  assumes "linked xs num ps" and "ps \<noteq> []" and "distinct ps"
    and "\<And>p. p \<in> set (butlast ps) \<Longrightarrow> it_next (ys ! p) = it_next (xs ! p)"
    and "unat (it_next (ys ! last ps)) = Suc l" and "it_next (ys ! l) = 0"
  shows "linked ys num (ps @ [l])"
  using assms
proof (induction ps arbitrary: num)
  case (Cons p ps)
  show ?case
  proof (cases "ps = []")
    case True
    then show ?thesis using Cons.prems by simp
  next
    case False
    then have "linked ys (unat (it_next (xs ! p))) (ps @ [l])"
      using Cons.prems by (intro Cons.IH) auto
    then show ?thesis using Cons.prems False by auto
  qed
qed simp

lemma unat_minus_1: "unat (w :: u32) = Suc p \<Longrightarrow> unat (w - 1) = p"
  using unat_minus_one [of w] by (cases "w = 0") auto

lemma unat_next: "unat (ucast (n :: 24 word) :: u32) = unat n"
proof -
  have "unat n < 2 ^ 24" using unsigned_less [of n, where ?'a = nat] by simp
  then show ?thesis by (simp add: unsigned_ucast_eq take_bit_nat_eq_self)
qed

text \<open>Walking a linked chain.\<close>

lemma achash_chain_linked:
  assumes "linked (ah_items a) (unat num) ps" and "ps \<noteq> []" and "\<forall>p \<in> set ps. p < length (ah_items a)"
  shows "achash_chain addr pid num a =
    (case find (\<lambda>p. key_of (ah_items a ! p) = (addr, pid)) ps of
       Some p \<Rightarrow> Some (rbind (achash_hit a p) (\<lambda>a. Inr (False, a)))
     | None \<Rightarrow> Some (rbind (achash_new_item a addr pid) (\<lambda>(k, a).
         Inr (ah_len a \<ge> ah_size a, a\<lparr>ah_items := (ah_items a)[last ps := (ah_items a ! last ps)\<lparr>it_next := ucast k\<rparr>]\<rparr>))))"
  using assms
proof (induction ps arbitrary: num)
  case (Cons p ps)
  have i: "unat (num - 1) = p" using Cons.prems by (intro unat_minus_1) simp
  have p: "p < length (ah_items a)" using Cons.prems by simp
  show ?case
  proof (cases "key_of (ah_items a ! p) = (addr, pid)")
    case True
    then show ?thesis using i p by (subst achash_chain.simps) (simp add: key_of_def Let_def)
  next
    case False
    show ?thesis
    proof (cases "ps = []")
      case True
      then have "it_next (ah_items a ! p) = 0" using Cons.prems by (simp add: unsigned_eq_0_iff)
      then show ?thesis using i p False True by (subst achash_chain.simps) (auto simp: key_of_def Let_def)
    next
      case nonempty: False
      then have "unat (it_next (ah_items a ! p)) \<noteq> 0" using Cons.prems by (cases ps) auto
      then have "it_next (ah_items a ! p) \<noteq> 0" by auto
      then have "achash_chain addr pid num a = achash_chain addr pid (ucast (it_next (ah_items a ! p))) a"
        using i p False by (subst achash_chain.simps) (auto simp: key_of_def Let_def)
      moreover have "linked (ah_items a) (unat (ucast (it_next (ah_items a ! p)) :: u32)) ps"
        using Cons.prems by (simp add: unat_next)
      moreover have "last (p # ps) = last ps" using nonempty by simp
      moreover have "find (\<lambda>p. key_of (ah_items a ! p) = (addr, pid)) (p # ps) =
          find (\<lambda>p. key_of (ah_items a ! p) = (addr, pid)) ps" using False by simp
      ultimately show ?thesis using Cons.IH [OF _ nonempty] Cons.prems(3) by (simp only:) simp
    qed
  qed
qed simp

section \<open>The operations of the table\<close>

lemma unat_add_one: "unat (w :: u32) + 1 < 2 ^ 32 \<Longrightarrow> unat (w + 1) = Suc (unat w)"
  by (simp add: unat_word_ariths)

lemma hist_add_ok:
  assumes "0 < hist_max a" and "length (hist a) = nat (hist_max a)" and "unat n < 2 ^ 31"
  shows "\<exists>hs. hist_add d a n = Inr (a\<lparr>hist := hs\<rparr>) \<and> length hs = length (hist a)"
proof -
  have "uint n < 2 ^ 31" using assms(3) by (simp flip: of_nat_less_iff [where 'a = int])
  then have "signed_take_bit 31 (uint n) = uint n" by (intro signed_take_bit_int_eq_self) (auto intro: order_trans [of _ 0])
  then have "0 \<le> sint n" by (simp add: sint_uint)
  then have "0 \<le> hist_index a n" "nat (hist_index a n) < length (hist a)"
    using assms by (auto simp: hist_index_def Let_def)
  then show ?thesis by (auto simp: hist_add_def Let_def intro!: exI)
qed

lemma achash_new_item_ok:
  assumes "table_shape a" and "unat (ah_len a) < unat (ah_size a)"
  shows "\<exists>hs. achash_new_item a addr pid =
           Inr (ah_len a + 1, a\<lparr>ah_items := (ah_items a)[unat (ah_len a) := \<lparr>it_addr = addr, it_pid = ucast pid,
                    it_next = 0, it_count = (if hash_mode a then 1 else ucast (threshold a))\<rparr>],
                  samples := samples a + (if hash_mode a then 1 else threshold a), hist := hs,
                  ah_len := ah_len a + 1\<rparr>) \<and> length hs = length (hist a)"
proof -
  define b where "b = a\<lparr>ah_items := (ah_items a)[unat (ah_len a) := \<lparr>it_addr = addr, it_pid = ucast pid,
                    it_next = 0, it_count = (if hash_mode a then 1 else ucast (threshold a))\<rparr>],
                  samples := samples a + 1\<rparr>"
  have "0 < hist_max b" "length (hist b) = nat (hist_max b)" using assms(1) by (auto simp: b_def table_shape_def)
  from hist_add_ok [OF this, of 1 1]
  obtain hs where hs: "hist_inc b 1 = Inr (b\<lparr>hist := hs\<rparr>)" "length hs = length (hist a)"
    by (auto simp: hist_inc_def b_def)
  have len: "unat (ah_len a) < length (ah_items a)" using assms by (simp add: table_shape_def)
  show ?thesis
  proof (cases "hash_mode a")
    case True
    then show ?thesis using len hs by (auto simp: achash_new_item_def Let_def b_def)
  next
    case False
    then show ?thesis using len by (auto simp: achash_new_item_def Let_def intro!: exI [of _ "hist a"])
  qed
qed

lemma entries_nth: "i < unat (ah_len a) \<Longrightarrow> entries a ! i = ah_items a ! i"
  by (simp add: entries_def)

lemma length_entries: "table_shape a \<Longrightarrow> length (entries a) = unat (ah_len a)"
proof -
  assume "table_shape a"
  then have "unat (ah_len a) \<le> length (ah_items a)" unfolding table_shape_def word_le_nat_alt by metis
  then show ?thesis by (simp add: entries_def)
qed

lemma table_map_None: "table_map a key = None \<longleftrightarrow> key \<notin> key_of ` set (entries a)"
  by (simp add: table_map_def map_of_eq_None_iff image_comp comp_def)

lemma table_map_nth:
  assumes "table_inv hf a" and "i < unat (ah_len a)"
  shows "table_map a (key_of (ah_items a ! i)) = Some (it_count (ah_items a ! i))"
proof -
  have "i < length (entries a)" using assms by (simp add: table_inv_def length_entries)
  then have "(key_of (ah_items a ! i), it_count (ah_items a ! i)) \<in> set (map (\<lambda>x. (key_of x, it_count x)) (entries a))"
    using nth_mem [of i "entries a"] entries_nth [OF assms(2)] by auto
  moreover have "distinct (map fst (map (\<lambda>x. (key_of x, it_count x)) (entries a)))"
    using assms(1) by (simp add: table_inv_def comp_def)
  ultimately show ?thesis unfolding table_map_def by (simp only: map_of_is_SomeI)
qed

text \<open>A page that is not in the table is appended to the vector and to the chain of its bucket.\<close>

lemma table_add:
  assumes inv: "table_inv hf a" and room: "unat (ah_len a) < unat (ah_size a)"
    and new: "table_map a key = None"
    and xs: "length xs = length (ah_items a)"
      "\<And>i. i < unat (ah_len a) \<Longrightarrow> key_of (xs ! i) = key_of (ah_items a ! i) \<and> it_count (xs ! i) = it_count (ah_items a ! i)"
      "key_of (xs ! unat (ah_len a)) = key" "it_count (xs ! unat (ah_len a)) = v"
    and bs: "length bs = length (buckets a)"
      "\<And>b. b < length bs \<Longrightarrow> linked xs (unat (bs ! b))
         (chain_ix hf a b @ (if b = bucket_at hf a key then [unat (ah_len a)] else []))"
    and hs: "length hs = length (hist a)" and w: "w = samples a + d"
  defines "a' \<equiv> a\<lparr>ah_items := xs, buckets := bs, samples := w, hist := hs, ah_len := ah_len a + 1\<rparr>"
  shows "table_inv hf a'" and "table_map a' = (table_map a)(key \<mapsto> v)"
proof -
  let ?n = "unat (ah_len a)"
  have shape: "table_shape a" using inv by (simp add: table_inv_def)
  have len: "unat (ah_len a + 1) = Suc ?n"
    using room size_pow(2) [OF shape] by (intro unat_add_one) simp
  have ents: "take ?n xs = map (\<lambda>i. xs ! i) [0..<?n]"
    using xs(1) shape room by (intro nth_equalityI) (auto simp: table_shape_def)
  have nl: "?n < length xs" using xs(1) shape room by (simp add: table_shape_def)
  have e': "entries a' = take ?n xs @ [xs ! ?n]"
    using nl by (simp add: entries_def a'_def len take_Suc_conv_app_nth)
  have same: "map (\<lambda>x. (key_of x, it_count x)) (take ?n xs) = map (\<lambda>x. (key_of x, it_count x)) (entries a)"
    using xs(1,2) nl by (intro nth_equalityI) (auto simp: entries_def)
  have keys: "map key_of (take ?n xs) = map key_of (entries a)"
    using arg_cong [OF same, of "map fst"] by (simp add: comp_def)
  have "table_map a' = map_of (map (\<lambda>x. (key_of x, it_count x)) (entries a) @ [(key, v)])"
    using xs(3,4) same by (simp add: table_map_def e')
  also have "\<dots> = (table_map a)(key \<mapsto> v)"
    using new by (simp add: map_of_append flip: table_map_def) (auto simp: map_add_def fun_eq_iff split: option.split)
  finally show "table_map a' = (table_map a)(key \<mapsto> v)" .
  have shape': "table_shape a'"
    using shape room xs(1) bs(1) hs len by (simp add: table_shape_def a'_def word_le_nat_alt)
  have mask: "bucket_at hf a' k = bucket_at hf a k" for k by (simp add: bucket_at_def a'_def)
  have chain: "chain_ix hf a' b = chain_ix hf a b @ (if b = bucket_at hf a key then [?n] else [])" for b
  proof -
    have "filter (\<lambda>i. bucket_at hf a (key_of (xs ! i)) = b) [0..<?n] = chain_ix hf a b"
      unfolding chain_ix_def using xs(2) by (intro filter_cong) auto
    moreover have "chain_ix hf a' b = filter (\<lambda>i. bucket_at hf a (key_of (xs ! i)) = b) [0..<Suc ?n]"
      by (simp only: chain_ix_def mask) (simp add: a'_def len)
    ultimately show ?thesis by (simp add: xs(3))
  qed
  have "distinct (map key_of (entries a'))"
    using inv new xs(3) by (simp add: e' keys table_inv_def table_map_None)
  moreover have "\<forall>b < length bs. linked xs (unat (bs ! b)) (chain_ix hf a' b)"
    using bs(2) unfolding chain by blast
  moreover have "ah_items a' = xs" "buckets a' = bs" by (simp_all add: a'_def)
  ultimately show "table_inv hf a'" using shape' unfolding table_inv_def by metis
qed

lemma map_of_update_nth:
  assumes "distinct (map f xs)" and "i < length xs" and "f y = f (xs ! i)"
  shows "map_of (map (\<lambda>x. (f x, g x)) (xs[i := y])) = (map_of (map (\<lambda>x. (f x, g x)) xs))(f y \<mapsto> g y)"
  using assms
proof (induction xs arbitrary: i)
  case (Cons x xs)
  show ?case
  proof (cases i)
    case (Suc j)
    then have "f x \<noteq> f y" using Cons.prems nth_mem [of j xs] by auto
    then show ?thesis using Suc Cons.IH [of j] Cons.prems by (auto simp: fun_eq_iff)
  qed (use Cons.prems in auto)
qed simp

text \<open>A page of the table is counted once more; its count must not wrap around.\<close>

lemma achash_hit_ok:
  assumes inv: "table_inv hf a" and i: "i < unat (ah_len a)" and n: "it_count (ah_items a ! i) = n" "n \<noteq> 65535"
  shows "\<exists>a'. achash_hit a i = Inr a' \<and> table_inv hf a' \<and>
           table_map a' = (table_map a)(key_of (ah_items a ! i) \<mapsto> n + 1) \<and>
           samples a' = samples a + 1 \<and> ah_len a' = ah_len a \<and> ah_size a' = ah_size a \<and>
           hash_mode a' = hash_mode a \<and> threshold a' = threshold a \<and> ah_mask a' = ah_mask a"
proof -
  let ?y = "(ah_items a ! i)\<lparr>it_count := n + 1\<rparr>"
  define b where "b = a\<lparr>ah_items := (ah_items a)[i := ?y], samples := samples a + 1\<rparr>"
  have shape: "table_shape a" using inv by (simp add: table_inv_def)
  have hb: "0 < hist_max b" "length (hist b) = nat (hist_max b)" using shape by (auto simp: b_def table_shape_def)
  have un: "unat (ucast (n + 1) :: u32) = Suc (unat n)" "unat (ucast (n + 1) - 1 :: u32) = unat n"
  proof -
    have "unat n < 2 ^ 16" using unsigned_less [of n, where ?'a = nat] by simp
    moreover have "unat n \<noteq> 65535" using n(2) by (auto simp: word_unat_eq_iff)
    ultimately have "unat (n + 1) = Suc (unat n)" "Suc (unat n) < 2 ^ 16" by (simp_all add: unat_word_ariths)
    then show *: "unat (ucast (n + 1) :: u32) = Suc (unat n)" by (simp add: unsigned_ucast_eq take_bit_nat_eq_self)
    show "unat (ucast (n + 1) - 1 :: u32) = unat n" using unat_minus_1 [OF *] .
  qed
  have "Suc (unat n) < 2 ^ 31" using unsigned_less [of n, where ?'a = nat] by simp
  then have small: "unat (ucast (n + 1) :: u32) < 2 ^ 31" "unat (ucast (n + 1) - 1 :: u32) < 2 ^ 31" by (simp_all only: un)
  from hist_add_ok [OF hb small(1), of 1] obtain h1 where h1:
      "hist_inc b (ucast (n + 1)) = Inr (b\<lparr>hist := h1\<rparr>)" "length h1 = length (hist a)"
    by (auto simp: hist_inc_def b_def)
  have "0 < hist_max (b\<lparr>hist := h1\<rparr>)" "length (hist (b\<lparr>hist := h1\<rparr>)) = nat (hist_max (b\<lparr>hist := h1\<rparr>))"
    using hb h1(2) by (simp_all add: b_def)
  from hist_add_ok [OF this small(2), of "- 1"] obtain h2 where h2:
      "hist_dec (b\<lparr>hist := h1\<rparr>) (ucast (n + 1) - 1) = Inr (b\<lparr>hist := h2\<rparr>)" "length h2 = length (hist a)"
    using h1(2) by (auto simp: hist_dec_def)
  let ?a = "b\<lparr>hist := h2\<rparr>"
  have hit: "achash_hit a i = Inr ?a"
    using h1 h2 n by (simp add: achash_hit_def Let_def flip: b_def)
  have il: "i < length (entries a)" using i length_entries [OF shape] by simp
  have ents: "entries ?a = (entries a)[i := ?y]" using i by (simp add: entries_def b_def take_update_swap)
  have ei: "entries a ! i = ah_items a ! i" by (rule entries_nth [OF i])
  have d: "distinct (map key_of (entries a))" using inv by (simp add: table_inv_def)
  have ky: "key_of ?y = key_of (ah_items a ! i)" by (simp add: key_of_def)
  have "table_map ?a = (table_map a)(key_of (ah_items a ! i) \<mapsto> n + 1)"
    using map_of_update_nth [OF d il, of ?y it_count] ei ky by (simp add: table_map_def ents)
  moreover have "table_inv hf ?a"
  proof -
    have "table_shape ?a" using shape h2(2) by (auto simp: table_shape_def b_def)
    moreover have "map key_of ((entries a)[i := ?y]) = map key_of (entries a)"
      using il ei ky by (simp add: map_update list_update_same_conv)
    moreover have "key_of (ah_items ?a ! j) = key_of (ah_items a ! j)"
      "it_next (ah_items ?a ! j) = it_next (ah_items a ! j)" for j
      using il by (auto simp: b_def nth_list_update key_of_def entries_def)
    moreover from this(1) have "chain_ix hf ?a c = chain_ix hf a c" for c
      by (simp add: chain_ix_def bucket_at_def) (simp add: b_def)
    moreover have "buckets ?a = buckets a" by (simp add: b_def)
    ultimately show ?thesis using inv d linked_cong [of _ "ah_items ?a" "ah_items a"]
      by (simp add: table_inv_def ents)
  qed
  ultimately show ?thesis using hit by (simp add: b_def)
qed

lemma chain_ix_mem: "i \<in> set (chain_ix hf a b) \<longleftrightarrow> i < unat (ah_len a) \<and> bucket_at hf a (key_of (ah_items a ! i)) = b"
  by (auto simp: chain_ix_def)

lemma find_in_chain:
  assumes "table_inv hf a"
  shows "find (\<lambda>p. key_of (ah_items a ! p) = key) (chain_ix hf a (bucket_at hf a key)) = None \<longleftrightarrow>
           table_map a key = None"
    and "find (\<lambda>p. key_of (ah_items a ! p) = key) (chain_ix hf a (bucket_at hf a key)) = Some p \<Longrightarrow>
           p < unat (ah_len a) \<and> key_of (ah_items a ! p) = key"
proof -
  have "entries a = map (\<lambda>i. ah_items a ! i) [0..<unat (ah_len a)]"
    using assms length_entries [of a] entries_nth [of _ a]
    by (intro nth_equalityI) (auto simp: table_inv_def)
  then have "key \<in> key_of ` set (entries a) \<longleftrightarrow> (\<exists>p < unat (ah_len a). key_of (ah_items a ! p) = key)"
    by (auto simp: image_iff)
  then show "find (\<lambda>p. key_of (ah_items a ! p) = key) (chain_ix hf a (bucket_at hf a key)) = None \<longleftrightarrow>
           table_map a key = None"
    by (simp add: find_None_iff table_map_None chain_ix_mem) blast
next
  assume "find (\<lambda>p. key_of (ah_items a ! p) = key) (chain_ix hf a (bucket_at hf a key)) = Some p"
  then have "p \<in> set (chain_ix hf a (bucket_at hf a key))" "key_of (ah_items a ! p) = key"
    by (auto simp: find_Some_iff)
  then show "p < unat (ah_len a) \<and> key_of (ah_items a ! p) = key" by (simp add: chain_ix_mem)
qed

text \<open>The value a count has after one more sample.\<close>

definition counted :: "achash \<Rightarrow> u16 option \<Rightarrow> u16" where
  "counted a old = (case old of None \<Rightarrow> if hash_mode a then 1 else ucast (threshold a) | Some n \<Rightarrow> n + 1)"

definition counted_samples :: "achash \<Rightarrow> u16 option \<Rightarrow> u32" where
  "counted_samples a old = (if old = None \<and> \<not> hash_mode a then threshold a else 1)"

definition same_config :: "achash \<Rightarrow> achash \<Rightarrow> bool" where
  "same_config a a' \<longleftrightarrow> ah_size a' = ah_size a \<and> hash_mode a' = hash_mode a \<and> threshold a' = threshold a \<and>
     ah_mask a' = ah_mask a"

lemma key_of_new: "pid < 2 ^ 24 \<Longrightarrow> (ucast (ucast (pid :: u32) :: 24 word) :: u32) = pid"
proof -
  assume "pid < 2 ^ 24"
  then have "unat pid < 2 ^ 24" by (simp add: word_less_nat_alt)
  then show ?thesis by (simp add: word_unat_eq_iff unsigned_ucast_eq unsigned_take_bit_eq take_bit_nat_eq_self)
qed

lemma achash_new_linked:
  assumes inv: "table_inv hf a" and room: "unat (ah_len a) < unat (ah_size a)" and pid: "pid < 2 ^ 24"
    and new: "table_map a (addr, pid) = None" and h: "h = hf (addr, pid)"
  shows "\<exists>a'. achash_update a addr pid h = Some (Inr (ah_len a + 1 \<ge> ah_size a, a')) \<and> table_inv hf a' \<and>
           table_map a' = (table_map a)((addr, pid) \<mapsto> counted a None) \<and>
           samples a' = samples a + counted_samples a None \<and> ah_len a' = ah_len a + 1 \<and> same_config a a'"
proof -
  let ?n = "unat (ah_len a)" and ?b = "bucket_at hf a (addr, pid)"
  let ?x = "\<lparr>it_addr = addr, it_pid = ucast pid, it_next = 0,
             it_count = (if hash_mode a then 1 else ucast (threshold a)) :: u16\<rparr>"
  let ?ps = "chain_ix hf a ?b"
  have shape: "table_shape a" using inv by (simp add: table_inv_def)
  have b: "unat (h AND ah_mask a) = ?b" "?b < length (buckets a)"
    using h bucket_less [OF shape, of hf "(addr, pid)"] by (simp_all add: bucket_at_def)
  have link: "linked (ah_items a) (unat (buckets a ! c)) (chain_ix hf a c)" if "c < length (buckets a)" for c
    using inv that by (simp add: table_inv_def)
  have nl: "?n < length (ah_items a)" using shape room by (simp add: table_shape_def)
  have small: "?n < 8388608" using room size_pow(2) [OF shape] by simp
  have n1: "unat (ah_len a + 1) = Suc ?n" using small by (intro unat_add_one) simp
  from achash_new_item_ok [OF shape room, of addr pid] obtain hs where new_item:
      "achash_new_item a addr pid = Inr (ah_len a + 1, a\<lparr>ah_items := (ah_items a)[?n := ?x],
         samples := samples a + (if hash_mode a then 1 else threshold a), hist := hs, ah_len := ah_len a + 1\<rparr>)"
      "length hs = length (hist a)" by blast
  have keyx: "key_of ?x = (addr, pid)" using key_of_new [OF pid] by (simp add: key_of_def)
  have samp: "samples a + (if hash_mode a then 1 else threshold a) = samples a + counted_samples a None"
    by (simp add: counted_samples_def)
  show ?thesis
  proof (cases "buckets a ! ?b = 0")
    case True
    then have "?ps = []" using link [OF b(2)] by (cases ?ps) auto
    define bs where "bs = (buckets a)[?b := ah_len a + 1]"
    have upd: "achash_update a addr pid h = Some (Inr (ah_size a \<le> ah_len a + 1,
        a\<lparr>ah_items := (ah_items a)[?n := ?x], buckets := bs,
          samples := samples a + counted_samples a None, hist := hs, ah_len := ah_len a + 1\<rparr>))"
      using b True new_item samp by (simp add: achash_update_def Let_def bs_def)
    have "linked ((ah_items a)[?n := ?x]) (unat (bs ! c)) (chain_ix hf a c @ (if c = ?b then [?n] else []))"
      if "c < length bs" for c
    proof (cases "c = ?b")
      case True
      then show ?thesis using \<open>?ps = []\<close> b nl n1 by (simp add: bs_def)
    next
      case False
      then have "bs ! c = buckets a ! c" by (simp add: bs_def)
      moreover have "linked ((ah_items a)[?n := ?x]) (unat (buckets a ! c)) (chain_ix hf a c)"
        using link [of c] that linked_cong [of "chain_ix hf a c" "(ah_items a)[?n := ?x]" "ah_items a"]
        by (auto simp: bs_def chain_ix_mem)
      ultimately show ?thesis using False by simp
    qed
    from table_add [OF inv room new _ _ _ _ _ this new_item(2) refl, of "counted a None"] keyx nl
    show ?thesis by (auto simp: upd bs_def counted_def same_config_def nth_list_update)
  next
    case False
    then have ne: "?ps \<noteq> []" using link [OF b(2)] by (auto simp: unsigned_eq_0_iff)
    let ?q = "last ?ps"
    have q: "?q < ?n" using last_in_set [OF ne] by (simp add: chain_ix_mem)
    have bound: "\<forall>p \<in> set ?ps. p < length (ah_items a)" using nl by (auto simp: chain_ix_mem)
    have "find (\<lambda>p. key_of (ah_items a ! p) = (addr, pid)) ?ps = None"
      using find_in_chain(1) [OF inv, of "(addr, pid)"] new by simp
    with achash_chain_linked [OF link [OF b(2)] ne bound, of addr pid] new_item
    have chain: "achash_chain addr pid (buckets a ! ?b) a = Some (Inr (ah_size a \<le> ah_len a + 1,
        a\<lparr>ah_items := (ah_items a)[?n := ?x, ?q := (ah_items a ! ?q)\<lparr>it_next := ucast (ah_len a + 1)\<rparr>],
          samples := samples a + counted_samples a None, hist := hs, ah_len := ah_len a + 1\<rparr>))"
      using q by (simp add: samp)
    define xs where "xs = (ah_items a)[?n := ?x, ?q := (ah_items a ! ?q)\<lparr>it_next := ucast (ah_len a + 1)\<rparr>]"
    have upd: "achash_update a addr pid h = Some (Inr (ah_size a \<le> ah_len a + 1,
        a\<lparr>ah_items := xs, buckets := buckets a,
          samples := samples a + counted_samples a None, hist := hs, ah_len := ah_len a + 1\<rparr>))"
      using b False chain by (simp add: achash_update_def Let_def xs_def)
    have nx: "it_next (xs ! ?n) = 0" "unat (it_next (xs ! ?q)) = Suc ?n"
      "\<And>i. i < ?n \<Longrightarrow> i \<noteq> ?q \<Longrightarrow> xs ! i = ah_items a ! i"
      using q nl small n1 by (auto simp: xs_def unsigned_ucast_eq take_bit_nat_eq_self)
    have "linked xs (unat (buckets a ! c)) (chain_ix hf a c @ (if c = ?b then [?n] else []))"
      if c: "c < length (buckets a)" for c
    proof (cases "c = ?b")
      case True
      have "distinct ?ps" by (simp add: chain_ix_def)
      then have "p \<noteq> ?q" if "p \<in> set (butlast ?ps)" for p
        using that ne by (metis append_butlast_last_id disjoint_iff distinct_append last_in_set list.set_intros(1))
      then have "it_next (xs ! p) = it_next (ah_items a ! p)" if "p \<in> set (butlast ?ps)" for p
        using that nx(3) [of p] in_set_butlastD [OF that] by (simp add: chain_ix_mem)
      then have "linked xs (unat (buckets a ! ?b)) (?ps @ [?n])"
        using nx(1,2) \<open>distinct ?ps\<close> by (intro linked_snoc [OF link [OF b(2)] ne]) auto
      then show ?thesis using True by simp
    next
      case other: False
      then have "?q \<notin> set (chain_ix hf a c)" using last_in_set [OF ne] by (auto simp: chain_ix_mem)
      then have "it_next (xs ! p) = it_next (ah_items a ! p)" if "p \<in> set (chain_ix hf a c)" for p
      proof -
        have "p \<noteq> ?q" using that \<open>?q \<notin> set (chain_ix hf a c)\<close> by blast
        then show ?thesis using that nx(3) [of p] by (simp add: chain_ix_mem)
      qed
      then show ?thesis using link [OF c] other linked_cong [of "chain_ix hf a c" xs "ah_items a"] by auto
    qed
    from table_add [OF inv room new _ _ _ _ refl this new_item(2) refl, of "counted a None"] keyx nl q
    show ?thesis by (auto simp: upd xs_def counted_def same_config_def nth_list_update key_of_def)
  qed
qed

text \<open>
  Counting a sample refines counting in a map: on a table whose chains are well formed, with the
  hash of the page, a count that does not wrap and room for a new page, \<open>achash_update\<close> returns
  (every chain ends) without an index fault, the chains stay well formed, the map of pages to counts
  changes at this page only (a new page starts at 1, or at the threshold below a sketch), the number
  of samples grows by as much, and the table reports that it is full exactly when the page was new
  and took the last place.
\<close>

theorem achash_update_refines:
  assumes "table_inv hf a" and "pid < 2 ^ 24" and "h = hf (addr, pid)"
    and "table_map a (addr, pid) = None \<Longrightarrow> ah_len a < ah_size a"
    and "table_map a (addr, pid) \<noteq> Some 65535"
  shows "\<exists>a' full. achash_update a addr pid h = Some (Inr (full, a')) \<and> table_inv hf a' \<and> same_config a a' \<and>
           table_map a' = (table_map a)((addr, pid) \<mapsto> counted a (table_map a (addr, pid))) \<and>
           samples a' = samples a + counted_samples a (table_map a (addr, pid)) \<and>
           (full \<longleftrightarrow> table_map a (addr, pid) = None \<and> ah_len a' = ah_size a)"
proof (cases "table_map a (addr, pid)")
  case None
  have shape: "table_shape a" using assms(1) by (simp add: table_inv_def)
  have room: "unat (ah_len a) < unat (ah_size a)" using assms(4) None by (simp add: word_less_nat_alt)
  then have "unat (ah_len a + 1) = Suc (unat (ah_len a))" using size_pow(2) [OF shape] by (intro unat_add_one) simp
  then have "ah_size a \<le> ah_len a + 1 \<longleftrightarrow> ah_len a + 1 = ah_size a"
    using room by (auto simp: word_le_nat_alt word_unat_eq_iff)
  then show ?thesis using achash_new_linked [OF assms(1) room assms(2) None assms(3)] None by auto
next
  case (Some n)
  let ?b = "bucket_at hf a (addr, pid)"
  have shape: "table_shape a" using assms(1) by (simp add: table_inv_def)
  obtain p where p: "find (\<lambda>p. key_of (ah_items a ! p) = (addr, pid)) (chain_ix hf a ?b) = Some p"
    using find_in_chain(1) [OF assms(1), of "(addr, pid)"] Some by fastforce
  from find_in_chain(2) [OF assms(1) p] have pl: "p < unat (ah_len a)" "key_of (ah_items a ! p) = (addr, pid)" by auto
  have b: "?b < length (buckets a)" by (rule bucket_less [OF shape])
  have link: "linked (ah_items a) (unat (buckets a ! ?b)) (chain_ix hf a ?b)" using assms(1) b by (simp add: table_inv_def)
  have ne: "chain_ix hf a ?b \<noteq> []" using p by auto
  then have "buckets a ! ?b \<noteq> 0" using link by (cases "chain_ix hf a ?b") auto
  moreover have "\<forall>p \<in> set (chain_ix hf a ?b). p < length (ah_items a)"
    using shape by (auto simp: chain_ix_mem table_shape_def word_le_nat_alt)
  ultimately have upd: "achash_update a addr pid h = Some (rbind (achash_hit a p) (\<lambda>a. Inr (False, a)))"
    using b assms(3) achash_chain_linked [OF link ne] p by (simp add: achash_update_def Let_def bucket_at_def)
  have "it_count (ah_items a ! p) = n" using table_map_nth [OF assms(1) pl(1)] pl(2) Some by simp
  moreover have "n \<noteq> 65535" using assms(5) Some by simp
  ultimately show ?thesis using achash_hit_ok [OF assms(1) pl(1)] pl(2) Some upd
    by (fastforce simp: counted_def counted_samples_def same_config_def)
qed

lemma achash_clear_inv:
  assumes "table_shape a"
  shows "table_inv hf (achash_clear a)" and "table_map (achash_clear a) = Map.empty"
  using assms by (auto simp: table_inv_def table_shape_def achash_clear_def entries_def chain_ix_def table_map_def)

text \<open>A table of two places, initialised from empty vectors.\<close>

definition small_table :: achash where
  "small_table = \<lparr>hash_mode = True, threshold = 4, size_order = 1, ah_size = 2, ah_mask = 1, ah_len = 0, samples = 0,
     buckets = [0, 0], ah_items = [null_item, null_item], hist = [0, 0, 0], hist_max = 3\<rparr>"

lemma small_table_shape: "table_shape small_table"
  by (simp add: table_shape_def small_table_def ACHASH_SIZE_ORDER_MAX_def)

lemma small_table_empty: "table_inv hf small_table" "table_map small_table = Map.empty"
proof -
  have "achash_clear small_table = small_table" by (simp add: small_table_def achash_clear_def)
  then show "table_inv hf small_table" "table_map small_table = Map.empty"
    using achash_clear_inv(1) [OF small_table_shape, of hf] achash_clear_inv(2) [OF small_table_shape] by simp_all
qed

theorem achash_update_refines_witness:
  "\<exists>a' full. achash_update small_table 7 5 3 = Some (Inr (full, a')) \<and> table_inv (\<lambda>_. 3) a' \<and>
     same_config small_table a' \<and> table_map a' = [(7, 5) \<mapsto> 1] \<and> samples a' = 1 \<and> (full \<longleftrightarrow> ah_len a' = 2)"
proof -
  have "ah_len small_table < ah_size small_table" by (simp add: small_table_def)
  then show ?thesis
    using achash_update_refines [OF small_table_empty(1), where pid = 5 and h = 3 and addr = 7 and hf = "\<lambda>_. 3"] small_table_empty(2)
    by (simp add: counted_def counted_samples_def) (simp add: small_table_def)
qed

end
