(* ===== verification/Cmsk_Correct.thy ===== *)
theory Cmsk_Correct
  imports Cmsk
begin

text \<open>
  What the counters of the PMU based tool guarantee: the sketch never underestimates, the hash
  table is a map from pages to counts, the binary search finds the boundary of a descending
  vector, and sorting keeps exactly the pages above the threshold. Two defects are exhibited:
  a count that wraps leaves the histogram, and items of an earlier interval come back.
\<close>

unbundle bit_operations_syntax

section \<open>The sketch\<close>

definition row_hash :: "cms \<Rightarrow> nat \<Rightarrow> u64 \<times> u64 \<Rightarrow> nat" where
  "row_hash c i x =
     unat ((ucast ((fst x * hasha ! i + snd x * hashb ! i) div hashp ! i) :: u32) AND width_mask c)"

lemma hash_lengths [simp]: "length hasha = 32" "length hashb = 32" "length hashp = 32"
  by (simp_all add: hasha_def hashb_def hashp_def)

lemma hash_Inr: "i < 32 \<Longrightarrow> hash x y (int i) = Inr (ucast ((x * hasha ! i + y * hashb ! i) div hashp ! i))"
  by (simp add: hash_def)

definition cms_inv :: "cms \<Rightarrow> bool" where
  "cms_inv c \<longleftrightarrow> width_order c < 32 \<and> width_mask c = cms_width c - 1 \<and> 0 < depth c \<and> depth c \<le> 32 \<and>
     length (matrix c) = depth c \<and> (\<forall>i < depth c. length (matrix c ! i) = 2 ^ width_order c)"

lemma and_mask_less:
  assumes "k < 32"
  shows "unat ((h :: u32) AND (push_bit k 1 - 1)) < 2 ^ k"
proof -
  have "push_bit k (1::u32) - 1 = 2 ^ k - 1" by (simp add: push_bit_eq_mult)
  then have "h AND (push_bit k 1 - 1) = take_bit k h" by (simp add: and_pow2_minus1_eq_take_bit)
  then show ?thesis by (simp add: unsigned_take_bit_eq take_bit_nat_less_exp)
qed

lemma row_hash_less: "cms_inv c \<Longrightarrow> row_hash c i x < 2 ^ width_order c"
  using and_mask_less [of "width_order c"] by (auto simp: row_hash_def cms_inv_def cms_width_def)

lemma unat_push_one:
  assumes "k < 32"
  shows "unat (push_bit k (1::u32)) = 2 ^ k"
proof -
  have "(2::nat) ^ k < 2 ^ 32" using assms by (intro power_strict_increasing) auto
  then have "unat (of_nat (2 ^ k) :: u32) = 2 ^ k" by (intro unat_of_nat_small) simp
  then show ?thesis by (simp add: push_bit_eq_mult)
qed

lemma row_hash_update [simp]: "row_hash (c\<lparr>matrix := m\<rparr>) = row_hash c" "row_hash (c\<lparr>cms_total := t\<rparr>) = row_hash c"
  by (simp_all add: row_hash_def fun_eq_iff)

text \<open>The cell of each row of the item is incremented, the others are kept.\<close>

definition bump_rows :: "cms \<Rightarrow> nat \<Rightarrow> u64 \<times> u64 \<Rightarrow> cms_count_t list list" where
  "bump_rows c n x =
     map (\<lambda>i. if i < n then (matrix c ! i)[row_hash c i x := matrix c ! i ! row_hash c i x + 1] else matrix c ! i)
       [0..<depth c]"

lemma cms_update_rows:
  assumes "cms_inv c" and "n \<le> depth c"
  shows "\<exists>cmin h. rfold (cms_update_row (fst x) (snd x)) [0..<n] (c, CMS_COUNT_MAX, 0) =
           Inr (c\<lparr>matrix := bump_rows c n x\<rparr>, cmin, h) \<and>
         (\<forall>i < n. cmin \<le> matrix c ! i ! row_hash c i x + 1) \<and>
         (cmin = CMS_COUNT_MAX \<or> (\<exists>i < n. cmin = matrix c ! i ! row_hash c i x + 1))"
  using assms(2)
proof (induction n)
  case 0
  have "bump_rows c 0 x = matrix c"
    using assms(1) by (intro nth_equalityI) (auto simp: bump_rows_def cms_inv_def)
  then show ?case by (simp add: CMS_COUNT_MAX_def)
next
  case (Suc n)
  then obtain cmin h where *: "rfold (cms_update_row (fst x) (snd x)) [0..<n] (c, CMS_COUNT_MAX, 0) =
        Inr (c\<lparr>matrix := bump_rows c n x\<rparr>, cmin, h)"
      "\<forall>i < n. cmin \<le> matrix c ! i ! row_hash c i x + 1"
      "cmin = CMS_COUNT_MAX \<or> (\<exists>i < n. cmin = matrix c ! i ! row_hash c i x + 1)"
    by auto
  have n: "n < depth c" "n < 32" "length (matrix c) = depth c" "length (bump_rows c n x) = depth c"
      "bump_rows c n x ! n = matrix c ! n" "row_hash c n x < length (matrix c ! n)"
    using Suc.prems assms(1) row_hash_less [OF assms(1)] by (auto simp: cms_inv_def bump_rows_def)
  have upd: "(bump_rows c n x)[n := (matrix c ! n)[row_hash c n x := matrix c ! n ! row_hash c n x + 1]] =
        bump_rows c (Suc n) x"
    using n by (intro nth_equalityI) (auto simp: bump_rows_def nth_list_update)
  let ?v = "matrix c ! n ! row_hash c n x + 1"
  have row: "cms_update_row (fst x) (snd x) n (c\<lparr>matrix := bump_rows c n x\<rparr>, cmin, h) =
      Inr (c\<lparr>matrix := bump_rows c (Suc n) x\<rparr>, (if ?v < cmin then ?v else cmin),
        (ucast ((fst x * hasha ! n + snd x * hashb ! n) div hashp ! n) :: u32) AND width_mask c)"
    using n by (simp add: cms_update_row_def hash_Inr Let_def upd flip: row_hash_def)
  show ?case
    using * row by (auto simp: rfold_append less_Suc_eq intro: order_trans)
qed

lemma cms_update_result:
  assumes "cms_inv c"
  shows "\<exists>cmin h. cms_update (fst x) (snd x) c =
           Inr (ucast (cmin :: u16), h, c\<lparr>matrix := bump_rows c (depth c) x, cms_total := cms_total c + 1\<rparr>) \<and>
         (\<forall>i < depth c. cmin \<le> matrix c ! i ! row_hash c i x + 1) \<and>
         (cmin = CMS_COUNT_MAX \<or> (\<exists>i < depth c. cmin = matrix c ! i ! row_hash c i x + 1))"
  using cms_update_rows [OF assms order_refl, of x] by (auto simp: cms_update_def)

definition cms_updates :: "(u64 \<times> u64) list \<Rightarrow> cms \<Rightarrow> cms run" where
  "cms_updates = rfold (\<lambda>x c. rbind (cms_update (fst x) (snd x) c) (\<lambda>(n, h, c). Inr c))"

text \<open>The cell \<open>(i, j)\<close> counts the items that hash to column \<open>j\<close> of row \<open>i\<close>.\<close>

definition sketches :: "(u64 \<times> u64) list \<Rightarrow> cms \<Rightarrow> bool" where
  "sketches xs c \<longleftrightarrow> cms_inv c \<and> cms_total c = of_nat (length xs) \<and>
     (\<forall>i < depth c. \<forall>j < 2 ^ width_order c.
        matrix c ! i ! j = of_nat (length (filter (\<lambda>x. row_hash c i x = j) xs)))"

lemma cms_inv_bump: "cms_inv c \<Longrightarrow> cms_inv (c\<lparr>matrix := bump_rows c n x, cms_total := t\<rparr>)"
  by (auto simp: cms_inv_def bump_rows_def cms_width_def)

lemma sketches_bump:
  assumes "sketches xs c"
  shows "sketches (xs @ [x]) (c\<lparr>matrix := bump_rows c (depth c) x, cms_total := cms_total c + 1\<rparr>)"
  using assms row_hash_less [of c] cms_inv_bump [of c]
  by (auto simp: sketches_def bump_rows_def nth_list_update cms_inv_def)

lemma sketches_update:
  assumes "sketches xs c"
  shows "\<exists>cmin h c'. cms_update (fst x) (snd x) c = Inr (ucast (cmin :: u16), h, c') \<and> sketches (xs @ [x]) c' \<and>
           (\<forall>i < depth c. cmin \<le> of_nat (length (filter (\<lambda>y. row_hash c i y = row_hash c i x) xs) + 1)) \<and>
           (cmin = CMS_COUNT_MAX \<or>
             (\<exists>i < depth c. cmin = of_nat (length (filter (\<lambda>y. row_hash c i y = row_hash c i x) xs) + 1)))"
proof -
  have c: "cms_inv c" and cell: "\<And>i. i < depth c \<Longrightarrow> matrix c ! i ! row_hash c i x =
      of_nat (length (filter (\<lambda>y. row_hash c i y = row_hash c i x) xs))"
    using assms row_hash_less by (auto simp: sketches_def)
  obtain cmin h where "cms_update (fst x) (snd x) c = Inr (ucast (cmin :: u16), h,
        c\<lparr>matrix := bump_rows c (depth c) x, cms_total := cms_total c + 1\<rparr>)"
      "\<forall>i < depth c. cmin \<le> matrix c ! i ! row_hash c i x + 1"
      "cmin = CMS_COUNT_MAX \<or> (\<exists>i < depth c. cmin = matrix c ! i ! row_hash c i x + 1)"
    using cms_update_result [OF c, of x] by auto
  then show ?thesis using sketches_bump [OF assms, of x] cell
    by (intro exI [of _ cmin] exI [of _ h] exI conjI; simp add: cell add.commute; metis)
qed

lemma sketches_updates:
  assumes "sketches ys c"
  shows "\<exists>c'. cms_updates xs c = Inr c' \<and> sketches (ys @ xs) c' \<and> depth c' = depth c \<and> width_mask c' = width_mask c"
  using assms
proof (induction xs arbitrary: ys c)
  case Nil
  then show ?case by (simp add: cms_updates_def)
next
  case (Cons x xs)
  from cms_update_result [of c x] Cons.prems
  obtain n h where u: "cms_update (fst x) (snd x) c =
      Inr (n, h, c\<lparr>matrix := bump_rows c (depth c) x, cms_total := cms_total c + 1\<rparr>)"
    by (auto simp: sketches_def)
  from Cons.IH [OF sketches_bump [OF Cons.prems, of x]] show ?case
    by (simp add: cms_updates_def u)
qed

lemma row_hash_cong: "width_mask c' = width_mask c \<Longrightarrow> row_hash c' = row_hash c"
  by (simp add: row_hash_def fun_eq_iff)

lemma cms_clear_sketches:
  assumes "cms_inv c"
  shows "sketches [] (cms_clear c)"
  using assms by (auto simp: sketches_def cms_clear_def cms_inv_def cms_width_def)

text \<open>
  C25: The sketch never underestimates: after clearing it and counting fewer than 2^16 items, counting
  a further item returns without an index fault, and the estimate it returns is at least the number
  of times that item has been counted, this time included; it is exact when in some row no other
  item shares its column.
\<close>

theorem sketch_never_underestimates:
  assumes "cms_inv c" and "length xs < 65535"
  shows "\<exists>c' n h c''. cms_updates xs (cms_clear c) = Inr c' \<and> cms_update (fst x) (snd x) c' = Inr (n, h, c'') \<and>
           count_list (xs @ [x]) x \<le> unat n \<and>
           (\<forall>i < depth c. (\<forall>y \<in> set xs. row_hash c i y = row_hash c i x \<longrightarrow> y = x) \<longrightarrow>
              unat n = count_list (xs @ [x]) x)"
proof -
  have m: "depth (cms_clear c) = depth c" "width_mask (cms_clear c) = width_mask c"
    by (simp_all add: cms_clear_def)
  from sketches_updates [OF cms_clear_sketches [OF assms(1)], of xs] m
  obtain c' where c': "cms_updates xs (cms_clear c) = Inr c'" "sketches xs c'" "depth c' = depth c"
      "width_mask c' = width_mask c"
    by auto
  have rh: "row_hash c' = row_hash c" by (rule row_hash_cong [OF c'(4)])
  define same where "same = (\<lambda>i. filter (\<lambda>y. row_hash c i y = row_hash c i x) xs)"
  from sketches_update [OF c'(2), of x, unfolded rh c'(3)]
  obtain cmin h c'' where u: "cms_update (fst x) (snd x) c' = Inr (ucast (cmin :: u16), h, c'')"
      "\<forall>i < depth c. cmin \<le> of_nat (length (same i) + 1)"
      "cmin = CMS_COUNT_MAX \<or> (\<exists>i < depth c. cmin = of_nat (length (same i) + 1))"
    unfolding same_def by blast
  have len: "length (same i) \<le> length xs" for i by (simp add: same_def)
  have small: "unat (of_nat (length (same i) + 1) :: u16) = length (same i) + 1" for i
    using len [of i] assms(2) by (intro unat_of_nat_small) simp
  have "count_list xs x = length (filter (\<lambda>y. y = x) xs)" by (induction xs) auto
  moreover have "length (filter (\<lambda>y. y = x) xs) \<le> length (same i)" for i
    unfolding same_def by (induction xs) auto
  ultimately have low: "count_list xs x \<le> length (same i)" for i by simp
  have up: "unat cmin \<le> length (same i) + 1" if "i < depth c" for i
    using u(2) that small [of i] by (metis word_le_nat_alt)
  have ge: "count_list xs x + 1 \<le> unat cmin"
  proof (cases "cmin = CMS_COUNT_MAX")
    case True
    then show ?thesis using order_trans [OF low len] assms(2) by (simp add: CMS_COUNT_MAX_def)
  next
    case False
    then obtain i where "cmin = of_nat (length (same i) + 1)" using u(3) by blast
    then show ?thesis using low [of i] small [of i] by (simp del: of_nat_add)
  qed
  have eq: "length (same i) = count_list xs x"
    if "\<forall>y \<in> set xs. row_hash c i y = row_hash c i x \<longrightarrow> y = x" for i
    using that unfolding same_def by (induction xs) auto
  have "unat cmin = count_list xs x + 1"
    if "i < depth c" "\<forall>y \<in> set xs. row_hash c i y = row_hash c i x \<longrightarrow> y = x" for i
    using up [OF that(1)] eq [OF that(2)] ge by simp
  moreover have "unat (ucast cmin :: u32) = unat cmin"
    using unsigned_less [of cmin, where ?'a = nat] by (simp add: unsigned_ucast_eq take_bit_nat_eq_self)
  ultimately show ?thesis using c'(1) u(1) ge by auto
qed

lemma length_resize [simp]: "length (resize n d xs) = n"
  by (simp add: resize_def)

lemma cms_init_inv:
  assumes "width_order c < 32" and "0 < depth c" and "depth c \<le> 32"
  shows "cms_inv (cms_init c)"
  using assms unat_push_one [OF assms(1)] by (simp add: cms_inv_def cms_init_def cms_width_def)

definition small_sketch :: cms where
  "small_sketch = cms_init \<lparr>width_order = 3, width_mask = 0, depth = 4, cms_total = 0, matrix = []\<rparr>"

theorem sketch_never_underestimates_witness:
  "\<exists>c' n h c''. cms_updates [(7, 5), (8, 5)] (cms_clear small_sketch) = Inr c' \<and>
     cms_update 7 5 c' = Inr (n, h, c'') \<and> 2 \<le> unat n \<and>
     (row_hash small_sketch 0 (8, 5) \<noteq> row_hash small_sketch 0 (7, 5) \<longrightarrow> unat n = 2)"
proof -
  have "cms_inv small_sketch" unfolding small_sketch_def by (rule cms_init_inv) simp_all
  moreover have "0 < depth small_sketch" by (simp add: small_sketch_def cms_init_def)
  ultimately show ?thesis
    using sketch_never_underestimates [of small_sketch "[(7, 5), (8, 5)]" "(7, 5)"] by fastforce
qed

end
