(* ===== verification/Cmsk_Counting.thy ===== *)
theory Cmsk_Counting
  imports Cmsk_Table Cmsk_Correct
begin

text \<open>
  Counting many samples: the contract of a counter (a locale, proved once for lists of samples and
  interpreted on the hash mode of \<open>pmu-refs/cmsk.cc\<close>), the binary search, and the selection of hot
  pages at the end of an interval.
\<close>

unbundle bit_operations_syntax

section \<open>The contract of a counter\<close>

locale counter =
  fixes count1 :: "'k \<Rightarrow> 's \<Rightarrow> 's option"
    and inv :: "'s \<Rightarrow> bool"
    and view :: "'s \<Rightarrow> 'k \<Rightarrow> nat"
    and valid :: "'k \<Rightarrow> bool"
    and room :: nat
    and lim :: nat
  assumes count1_ok: "inv s \<Longrightarrow> valid k \<Longrightarrow> view s k < lim \<Longrightarrow>
      (view s k = 0 \<Longrightarrow> finite {x. view s x \<noteq> 0} \<Longrightarrow> card {x. view s x \<noteq> 0} < room) \<Longrightarrow>
      finite {x. view s x \<noteq> 0} \<Longrightarrow>
      \<exists>s'. count1 k s = Some s' \<and> inv s' \<and> view s' = (view s)(k := view s k + 1)"
begin

fun count_all :: "'k list \<Rightarrow> 's \<Rightarrow> 's option" where
  "count_all [] s = Some s"
| "count_all (k # ks) s = Option.bind (count1 k s) (count_all ks)"

lemma view_support: "view s = count_list ys \<Longrightarrow> {x. view s x \<noteq> 0} = set ys"
  by (auto simp: count_list_0_iff)

lemma count_all_from:
  assumes "inv s" and "view s = count_list ys"
    and "\<forall>k \<in> set xs. valid k" and "card (set (ys @ xs)) \<le> room" and "\<forall>k. count_list (ys @ xs) k \<le> lim"
  shows "\<exists>s'. count_all xs s = Some s' \<and> inv s' \<and> view s' = count_list (ys @ xs)"
  using assms
proof (induction xs arbitrary: s ys)
  case (Cons k xs)
  have "count_list (ys @ k # xs) k \<le> lim" using Cons.prems(5) by blast
  then have lim: "view s k < lim" by (simp add: Cons.prems(2))
  have room: "card {x. view s x \<noteq> 0} < room" if "view s k = 0"
  proof -
    have "k \<notin> set ys" using that by (simp add: Cons.prems(2) count_list_0_iff)
    then have "set ys \<subset> set (ys @ k # xs)" by auto
    then have "card (set ys) < card (set (ys @ k # xs))" by (intro psubset_card_mono) auto
    then show ?thesis using Cons.prems(4) view_support [OF Cons.prems(2)] by simp
  qed
  obtain s' where s': "count1 k s = Some s'" "inv s'" "view s' = (view s)(k := view s k + 1)"
    using count1_ok [OF Cons.prems(1) _ lim] room Cons.prems(3) view_support [OF Cons.prems(2)] by auto
  have "view s' = count_list (ys @ [k])" using s'(3) Cons.prems(2) by (auto simp: fun_eq_iff)
  from Cons.IH [OF s'(2) this] Cons.prems(3-5) show ?case by (simp add: s'(1))
qed simp

theorem count_all_counts:
  assumes "inv s" and "view s = (\<lambda>_. 0)"
    and "\<forall>k \<in> set xs. valid k" and "card (set xs) \<le> room" and "\<forall>k. count_list xs k \<le> lim"
  shows "\<exists>s'. count_all xs s = Some s' \<and> inv s' \<and> view s' = count_list xs"
  using count_all_from [of s "[]" xs] assms by (simp add: fun_eq_iff)

end

section \<open>The hash mode is such a counter\<close>

text \<open>One sample; \<open>None\<close> stands for a fault or a loop that does not end.\<close>

definition cmsk_step :: "page_key \<Rightarrow> cmsk \<Rightarrow> cmsk option" where
  "cmsk_step key k =
     (case cmsk_update k (fst key) (ucast (snd key)) of Some (Inr (full, k)) \<Rightarrow> Some k | _ \<Rightarrow> None)"

definition cmsk_view :: "cmsk \<Rightarrow> page_key \<Rightarrow> nat" where
  "cmsk_view k key = (case table_map (table k) key of None \<Rightarrow> 0 | Some n \<Rightarrow> unat n)"

definition table_hash :: "nat \<Rightarrow> page_key \<Rightarrow> u32" where
  "table_hash d key =
     ucast ((fst key * hasha ! (d - 1) + ucast (snd key) * hashb ! (d - 1)) div hashp ! (d - 1))"

definition counting_inv :: "nat \<Rightarrow> nat \<Rightarrow> cmsk \<Rightarrow> bool" where
  "counting_inv d n k \<longleftrightarrow> hash_mode (table k) \<and> depth (sketch k) = d \<and> 0 < d \<and> d \<le> 32 \<and>
     table_inv (table_hash d) (table k) \<and> 0 \<notin> ran (table_map (table k)) \<and> unat (ah_size (table k)) = n"

lemma view_zero: "counting_inv d n k \<Longrightarrow> cmsk_view k key = 0 \<longleftrightarrow> table_map (table k) key = None"
  using ranI [of "table_map (table k)" key]
  by (cases "table_map (table k) key") (auto simp: cmsk_view_def counting_inv_def unsigned_eq_0_iff)

lemma card_view:
  assumes "counting_inv d n k"
  shows "card {key. cmsk_view k key \<noteq> 0} = unat (ah_len (table k))"
proof -
  have "{key. cmsk_view k key \<noteq> 0} = set (map key_of (entries (table k)))"
    using view_zero [OF assms] by (auto simp: table_map_None)
  moreover have "distinct (map key_of (entries (table k)))" "length (entries (table k)) = unat (ah_len (table k))"
    using assms length_entries by (auto simp: counting_inv_def table_inv_def)
  ultimately show ?thesis by (metis distinct_card length_map)
qed

lemma hash_table_hash:
  "0 < d \<Longrightarrow> d \<le> 32 \<Longrightarrow> hash (fst key) (ucast (snd key)) (int d - 1) = Inr (table_hash d key)"
  using hash_Inr [of "d - 1" "fst key" "ucast (snd key)"] by (simp add: table_hash_def of_nat_diff)

lemma cmsk_step_counts:
  assumes inv: "counting_inv d n k" and pid: "snd key < 2 ^ 24" and lim: "cmsk_view k key < 65535"
    and room: "cmsk_view k key = 0 \<Longrightarrow> card {x. cmsk_view k x \<noteq> 0} < n"
  shows "\<exists>k'. cmsk_step key k = Some k' \<and> counting_inv d n k' \<and> cmsk_view k' = (cmsk_view k)(key := cmsk_view k key + 1)"
proof -
  note i = inv [unfolded counting_inv_def]
  let ?m = "table_map (table k)"
  have tinv: "table_inv (table_hash d) (table k)" using i by blast
  have id: "ucast (ucast (snd key) :: u64) = snd key"
    using unsigned_less [of "snd key", where ?'a = nat]
    by (simp add: word_unat_eq_iff unsigned_ucast_eq unsigned_take_bit_eq take_bit_nat_eq_self)
  have free: "ah_len (table k) < ah_size (table k)" if "?m (fst key, snd key) = None"
    using room that view_zero [OF inv, of key] card_view [OF inv] i by (simp add: word_less_nat_alt)
  have nowrap: "?m (fst key, snd key) \<noteq> Some 65535" using lim by (auto simp: cmsk_view_def)
  from achash_update_refines [OF tinv pid _ free nowrap, of "table_hash d key"]
  obtain a' full where upd: "achash_update (table k) (fst key) (snd key) (table_hash d key) = Some (Inr (full, a'))"
      and a': "table_inv (table_hash d) a'" "same_config (table k) a'"
        "table_map a' = ?m(key \<mapsto> counted (table k) (?m key))" by auto
  define k' where "k' = k\<lparr>sketch := (sketch k)\<lparr>cms_total := cms_total (sketch k) + 1\<rparr>, table := a'\<rparr>"
  have step: "cmsk_step key k = Some k'"
    using i upd hash_table_hash [of d key] by (simp add: cmsk_step_def cmsk_update_def id k'_def)
  have val: "unat (counted (table k) (?m key)) = cmsk_view k key + 1"
  proof (cases "?m key")
    case None
    then show ?thesis using i by (simp add: counted_def cmsk_view_def)
  next
    case (Some v)
    then have "unat v < 65535" using lim by (simp add: cmsk_view_def)
    then show ?thesis using Some by (simp add: counted_def cmsk_view_def unat_word_ariths)
  qed
  then have "counted (table k) (?m key) \<noteq> 0" by auto
  then have "0 \<notin> ran (table_map a')" using i a'(3) by (auto simp: ran_def)
  then have "counting_inv d n k'" using i a' by (simp add: counting_inv_def k'_def same_config_def)
  moreover have "cmsk_view k' = (cmsk_view k)(key := cmsk_view k key + 1)"
    using a'(3) val by (auto simp: cmsk_view_def k'_def fun_eq_iff)
  ultimately show ?thesis using step by blast
qed

interpretation hash_mode: counter cmsk_step "counting_inv d n" cmsk_view "\<lambda>key. snd key < 2 ^ 24" n 65535 for d n
  by unfold_locales (rule cmsk_step_counts)

definition cmsk_counts :: "page_key list \<Rightarrow> cmsk \<Rightarrow> cmsk option" where
  "cmsk_counts xs k = counter.count_all cmsk_step xs k"

text \<open>
  C24: In hash mode the table is the exact histogram of the samples of an interval: starting from a
  cleared table with room for every sampled page, no page sampled more than 65535 times and process
  ids below 2^24, counting the samples one by one returns without a fault, and then the count of
  every page is the number of its samples.
\<close>

theorem hash_mode_exact:
  assumes "hash_mode (table k)" and "table_shape (table k)" and "0 < depth (sketch k)" "depth (sketch k) \<le> 32"
    and "\<forall>key \<in> set xs. snd key < 2 ^ 24" and "card (set xs) \<le> unat (ah_size (table k))"
    and "\<forall>key. count_list xs key \<le> 65535"
  shows "\<exists>k'. cmsk_counts xs (cmsk_clear k) = Some k' \<and> (\<forall>key. cmsk_view k' key = count_list xs key)"
proof -
  let ?k = "cmsk_clear k"
  have t: "table ?k = achash_clear (table k)" "depth (sketch ?k) = depth (sketch k)"
    using assms(1) by (simp_all add: cmsk_clear_def)
  have "counting_inv (depth (sketch k)) (unat (ah_size (table k))) ?k"
    using assms(1,3,4) achash_clear_inv [OF assms(2)] by (simp add: counting_inv_def t) (simp add: achash_clear_def)
  moreover have "cmsk_view ?k = (\<lambda>_. 0)"
    using achash_clear_inv(2) [OF assms(2)] by (simp add: cmsk_view_def t fun_eq_iff)
  ultimately show ?thesis
    using hash_mode.count_all_counts [of "depth (sketch k)" "unat (ah_size (table k))" ?k xs] assms(5-7)
    by (auto simp: cmsk_counts_def)
qed

definition small_cmsk :: cmsk where
  "small_cmsk = \<lparr>aging_method = CMSK_AGING_CLEAR, cmsk_interval = 1, cmsk_no = 0,
     sketch = \<lparr>width_order = 1, width_mask = 1, depth = 4, cms_total = 0, matrix = []\<rparr>, table = small_table,
     nr_hot_page = 0\<rparr>"

theorem hash_mode_exact_witness:
  "\<exists>k'. cmsk_counts [(7, 5), (8, 5), (7, 5)] (cmsk_clear small_cmsk) = Some k' \<and>
     (\<forall>key. cmsk_view k' key = count_list [(7, 5), (8, 5), (7, 5)] key)"
proof -
  have "hash_mode (table small_cmsk)" "0 < depth (sketch small_cmsk)" "depth (sketch small_cmsk) \<le> 32"
    "unat (ah_size (table small_cmsk)) = 2" by (simp_all add: small_cmsk_def small_table_def)
  moreover have "table_shape (table small_cmsk)" using small_table_shape by (simp add: small_cmsk_def)
  moreover have "count_list [(7::u64, 5::u32), (8, 5), (7, 5)] key \<le> 65535" for key
    using count_le_length [of "[(7::u64, 5::u32), (8, 5), (7, 5)]" key] by simp
  moreover have "card (set [(7::u64, 5::u32), (8, 5), (7, 5)]) \<le> 2" by (simp add: card_insert_if)
  moreover have "\<forall>key \<in> set [(7::u64, 5::u32), (8, 5), (7, 5)]. snd key < 2 ^ 24" by simp
  ultimately show ?thesis
    by (intro hash_mode_exact [of small_cmsk "[(7, 5), (8, 5), (7, 5)]"]) (simp_all only: simp_thms)
qed

end
