(* ===== verification/Cmsk_Select.thy ===== *)
theory Cmsk_Select
  imports Cmsk_Counting
begin

text \<open>
  The end of an interval in \<open>pmu-refs/cmsk.cc\<close>: the binary search on the sorted items, the selection
  of the hot pages, and two defects of the table.
\<close>

unbundle bit_operations_syntax

section \<open>The binary search\<close>

definition descending :: "achash_item list \<Rightarrow> bool" where
  "descending = sorted_wrt (\<lambda>x y. it_count y \<le> it_count x)"

lemma descending_nth:
  "descending xs \<Longrightarrow> i \<le> j \<Longrightarrow> j < length xs \<Longrightarrow> it_count (xs ! j) \<le> it_count (xs ! i)"
  by (cases "i = j") (auto simp: descending_def sorted_wrt_iff_nth_less)

lemma unat_mid:
  assumes "unat (lo :: u32) < unat hi" and "unat hi < 2 ^ 31"
  shows "unat ((lo + hi) div 2) = (unat lo + unat hi) div 2" and "unat ((lo + hi) div 2 + 1) = (unat lo + unat hi) div 2 + 1"
proof -
  have "unat (lo + hi) = unat lo + unat hi" using assms by (simp add: unat_word_ariths)
  then show m: "unat ((lo + hi) div 2) = (unat lo + unat hi) div 2" by (simp add: unat_div)
  show "unat ((lo + hi) div 2 + 1) = (unat lo + unat hi) div 2 + 1"
    using unat_add_one [of "(lo + hi) div 2"] m assms by simp
qed

text \<open>
  The binary search returns: on items in descending order of their counts, for a range within
  the vector, it ends without an index fault (the midpoint does not overflow below 2^31), and the
  result splits the range: every count before it is above \<open>n\<close>, every other one at most \<open>n\<close>.
\<close>

theorem bsearch_splits:
  assumes "descending xs" and "unat lo \<le> unat hi" and "unat hi \<le> length xs" and "unat hi < 2 ^ 31"
  shows "\<exists>m. bsearch_loop xs n lo hi = Some (Inr m) \<and> unat lo \<le> unat m \<and> unat m \<le> unat hi \<and>
           (\<forall>i. unat lo \<le> i \<and> i < unat m \<longrightarrow> n < it_count (xs ! i)) \<and>
           (\<forall>i. unat m \<le> i \<and> i < unat hi \<longrightarrow> it_count (xs ! i) \<le> n)"
  using assms(2-4)
proof (induction "unat hi - unat lo" arbitrary: lo hi rule: less_induct)
  case less
  show ?case
  proof (cases "lo = hi")
    case True
    then show ?thesis by (subst bsearch_loop.simps) auto
  next
    case False
    then have lt: "unat lo < unat hi" using less.prems(1) by (auto simp: word_unat_eq_iff)
    let ?mid = "(lo + hi) div 2"
    note mid = unat_mid [OF lt less.prems(3)]
    have mb: "unat lo \<le> unat ?mid" "unat ?mid < unat hi" using lt unfolding mid(1) by arith+
    have less1: "unat ?mid - unat lo < unat hi - unat lo" and less2: "unat hi - unat (?mid + 1) < unat hi - unat lo"
      using mb mid lt by linarith+
    have bound: "unat ?mid < length xs" using mb(2) less.prems(2) by simp
    show ?thesis
    proof (cases "it_count (xs ! unat ?mid) \<le> n")
      case True
      have "it_count (xs ! i) \<le> n" if "unat ?mid \<le> i" "i < unat hi" for i
        using descending_nth [OF assms(1) that(1)] that(2) less.prems True by (auto intro: order_trans)
      moreover obtain m where "bsearch_loop xs n lo ?mid = Some (Inr m)" "unat lo \<le> unat m" "unat m \<le> unat ?mid"
          "\<forall>i. unat lo \<le> i \<and> i < unat m \<longrightarrow> n < it_count (xs ! i)"
          "\<forall>i. unat m \<le> i \<and> i < unat ?mid \<longrightarrow> it_count (xs ! i) \<le> n"
        using less.hyps [OF less1] less.prems mb by auto
      ultimately show ?thesis using False True bound mb
        by (intro exI [of _ m]) (subst bsearch_loop.simps, simp add: Let_def, metis not_le)
    next
      case high: False
      have "n < it_count (xs ! i)" if "i \<le> unat ?mid" for i
        using descending_nth [OF assms(1) that bound] high by simp
      moreover obtain m where "bsearch_loop xs n (?mid + 1) hi = Some (Inr m)" "unat ?mid + 1 \<le> unat m" "unat m \<le> unat hi"
          "\<forall>i. unat ?mid + 1 \<le> i \<and> i < unat m \<longrightarrow> n < it_count (xs ! i)"
          "\<forall>i. unat m \<le> i \<and> i < unat hi \<longrightarrow> it_count (xs ! i) \<le> n"
        using less.hyps [OF less2] less.prems mb mid(2) unfolding mid(1) [symmetric] by auto
      ultimately show ?thesis using False high bound mb
        by (intro exI [of _ m]) (subst bsearch_loop.simps, simp add: Let_def, metis Suc_eq_plus1 not_less_eq_eq)
    qed
  qed
qed

lemma bsearch_splits_witness:
  "\<exists>m. bsearch_loop [null_item\<lparr>it_count := 9\<rparr>, null_item\<lparr>it_count := 4\<rparr>, null_item] 3 0 3 = Some (Inr m) \<and>
     unat (0 :: u32) \<le> unat m \<and> unat m \<le> unat (3 :: u32) \<and>
     (\<forall>i. unat (0 :: u32) \<le> i \<and> i < unat m \<longrightarrow>
        3 < it_count ([null_item\<lparr>it_count := 9\<rparr>, null_item\<lparr>it_count := 4\<rparr>, null_item] ! i)) \<and>
     (\<forall>i. unat m \<le> i \<and> i < unat (3 :: u32) \<longrightarrow>
        it_count ([null_item\<lparr>it_count := 9\<rparr>, null_item\<lparr>it_count := 4\<rparr>, null_item] ! i) \<le> 3)"
  by (rule bsearch_splits) (simp_all add: descending_def null_item_def)

section \<open>Selecting the hot pages\<close>

definition sorts :: "(achash_item list \<Rightarrow> achash_item list) \<Rightarrow> bool" where
  "sorts srt \<longleftrightarrow> (\<forall>xs. mset (srt xs) = mset xs \<and> descending (srt xs))"

lemma descending_split:
  "descending xs \<Longrightarrow> xs = filter (\<lambda>x. c \<le> it_count x) xs @ filter (\<lambda>x. \<not> c \<le> it_count x) xs"
proof (induction xs)
  case (Cons x xs)
  show ?case
  proof (cases "c \<le> it_count x")
    case True
    then show ?thesis using Cons by (simp add: descending_def)
  next
    case False
    then have "\<forall>y \<in> set (x # xs). \<not> c \<le> it_count y"
      using Cons.prems by (auto simp: descending_def)
    then have "filter (\<lambda>x. c \<le> it_count x) (x # xs) = []" "filter (\<lambda>x. \<not> c \<le> it_count x) (x # xs) = x # xs"
      by (simp_all add: filter_empty_conv)
    then show ?thesis by simp
  qed
qed simp

text \<open>When the items out of use have smaller counts, sorting the whole vector sorts the items in use.\<close>

lemma sort_entries:
  assumes "mset ys = mset xs" and "descending ys" and "n \<le> length xs" and "0 < n"
    and "\<forall>x \<in> set (drop n xs). \<forall>y \<in> set (take n xs). it_count x < it_count y"
  shows "mset (take n ys) = mset (take n xs)"
proof -
  define c where "c = Min (it_count ` set (take n xs))"
  have ne: "take n xs \<noteq> []" using assms(3,4) by auto
  then have "c \<in> it_count ` set (take n xs)" unfolding c_def by (intro Min_in) auto
  then have stale: "\<forall>x \<in> set (drop n xs). \<not> c \<le> it_count x" using assms(5) by (metis imageE leD)
  have live: "\<forall>y \<in> set (take n xs). c \<le> it_count y" unfolding c_def by auto
  have "filter (\<lambda>x. c \<le> it_count x) (take n xs @ drop n xs) = take n xs"
    unfolding filter_append using stale live by (simp add: filter_empty_conv filter_id_conv)
  then have flt: "filter_mset (\<lambda>x. c \<le> it_count x) (mset xs) = mset (take n xs)"
    by (metis append_take_drop_id mset_filter)
  have "mset (filter (\<lambda>x. c \<le> it_count x) ys) = mset (take n xs)" using flt assms(1) by (simp add: mset_filter)
  moreover from this have "length (filter (\<lambda>x. c \<le> it_count x) ys) = n"
    using assms(3) by (metis length_take min.absorb2 size_mset)
  then have "take n ys = filter (\<lambda>x. c \<le> it_count x) ys"
    by (subst descending_split [OF assms(2), of c]) simp
  ultimately show ?thesis by simp
qed

definition hot_threshold_of :: "cmsk \<Rightarrow> u32" where
  "hot_threshold_of k =
     (if hash_mode (table k) then threshold (table k) else threshold (table k) + cms_error (sketch k))"

lemma samples_of_append: "samples_of (xs @ ys) = samples_of xs + samples_of ys"
  by (simp add: samples_of_def)

lemma samples_of_mset: "mset xs = mset ys \<Longrightarrow> samples_of xs = samples_of ys"
  unfolding samples_of_def by (metis mset_map sum_mset_sum_list)

lemma unat_count32: "unat (ucast (n :: u16) :: u32) = unat n"
  using unsigned_less [of n, where ?'a = nat] by (simp add: unsigned_ucast_eq take_bit_nat_eq_self)

lemma cut_threshold:
  assumes "0 < thr" and "thr \<le> 65536"
  shows "n \<le> (ucast ((thr :: u32) - 1) :: u16) \<longleftrightarrow> (ucast n :: u32) < thr"
proof -
  have t: "unat (thr - 1) = unat thr - 1" using assms(1) unat_minus_one [of thr] by auto
  have "unat thr \<le> 65536" "0 < unat thr" using assms by (simp_all add: word_le_nat_alt word_less_nat_alt)
  moreover have "unat n < 65536" using unsigned_less [of n, where ?'a = nat] by simp
  moreover from calculation have "unat (ucast (thr - 1) :: u16) = unat thr - 1"
    by (simp add: unsigned_ucast_eq take_bit_nat_eq_self t)
  moreover note unat_count32 [of n]
  ultimately show ?thesis by (simp add: word_le_nat_alt word_less_nat_alt) linarith
qed

lemma filter_take:
  assumes "m \<le> length xs" and "\<forall>i < m. P (xs ! i)" and "\<forall>i. m \<le> i \<and> i < length xs \<longrightarrow> \<not> P (xs ! i)"
  shows "filter P xs = take m xs"
proof -
  have "\<forall>x \<in> set (take m xs). P x" using assms(1,2) by (auto simp: in_set_conv_nth)
  moreover have "\<forall>x \<in> set (drop m xs). \<not> P x" using assms(3) by (auto simp: in_set_conv_nth)
  ultimately show ?thesis
    using filter_append [of P "take m xs" "drop m xs"] by (simp add: filter_empty_conv)
qed

text \<open>The items above the threshold come first: those before the result of the search, or all of them.\<close>

lemma cut_prefix:
  assumes "0 < thr" and "thr \<le> 65536" and "0 < n" and "n \<le> length ys" and "m \<le> n - 1"
    and "\<forall>i < m. (ucast ((thr :: u32) - 1) :: u16) < it_count (ys ! i)"
    and "\<forall>i. m \<le> i \<and> i < n - 1 \<longrightarrow> it_count (ys ! i) \<le> ucast (thr - 1)"
    and "ucast (it_count (ys ! (n - 1))) < thr"
  shows "filter (\<lambda>x. thr \<le> ucast (it_count x)) (take n ys) = take m ys"
proof -
  have "\<not> thr \<le> ucast (it_count (ys ! i))" if "m \<le> i" "i < n" for i
    using that assms(7,8) cut_threshold [OF assms(1,2)] by (cases "i = n - 1") (auto simp: not_le)
  moreover have "thr \<le> ucast (it_count (ys ! i))" if "i < m" for i
    using that assms(6) cut_threshold [OF assms(1,2)] by (metis leD leI)
  ultimately have "filter (\<lambda>x. thr \<le> ucast (it_count x)) (take n ys) = take m (take n ys)"
    using assms(3-5) by (intro filter_take) auto
  then show ?thesis using assms(5) by (simp add: min_def)
qed

lemma nothing_cut:
  assumes "descending ys" and "0 < n" and "n \<le> length ys" and "\<not> ucast (it_count (ys ! (n - 1))) < (thr :: u32)"
  shows "filter (\<lambda>x. thr \<le> ucast (it_count x)) (take n ys) = take n ys"
proof -
  have "thr \<le> ucast (it_count (ys ! i))" if "i < n" for i
  proof -
    have "it_count (ys ! (n - 1)) \<le> it_count (ys ! i)" using descending_nth [OF assms(1), of i "n - 1"] that assms(2,3) by simp
    then have "(ucast (it_count (ys ! (n - 1))) :: u32) \<le> ucast (it_count (ys ! i))"
      by (simp only: word_le_nat_alt unat_count32)
    then show ?thesis using assms(4) by (auto simp: not_less)
  qed
  then have "\<forall>x \<in> set (take n ys). thr \<le> ucast (it_count x)" by (auto simp: in_set_conv_nth)
  then show ?thesis by (simp add: filter_id_conv)
qed

lemma mset_of_filter: "mset xs = mset ys \<Longrightarrow> filter P xs = zs \<Longrightarrow> mset zs = filter_mset P (mset ys)"
  by (metis mset_filter)

text \<open>
  C26: Selecting the hot pages at the end of an interval: for every sorting function that permutes
  into descending order, a threshold between 1 and 65536, and items out of use that have smaller
  counts than those in use, the selection returns without an index fault; the table then holds, in
  descending order, exactly the items whose count reaches the threshold, their number is reported,
  and the sample counter is the sum of their counts if it was the sum of the counts before.
\<close>

theorem cmsk_sort_selects:
  assumes "sorts srt" and "table_shape (table k)" and "0 < hot_threshold_of k" "hot_threshold_of k \<le> 65536"
    and "\<forall>x \<in> set (drop (unat (ah_len (table k))) (ah_items (table k))). \<forall>y \<in> set (entries (table k)).
           it_count x < it_count y"
  shows "\<exists>k'. cmsk_sort srt k = Some (Inr k') \<and> descending (entries (table k')) \<and>
           mset (entries (table k')) =
             filter_mset (\<lambda>x. hot_threshold_of k \<le> ucast (it_count x)) (mset (entries (table k))) \<and>
           nr_hot_page k' = ah_len (table k') \<and>
           (samples (table k) = samples_of (entries (table k)) \<longrightarrow>
              samples (table k') = samples_of (entries (table k')))"
proof (cases "ah_len (table k) = 0")
  case True
  then show ?thesis by (simp add: cmsk_sort_def entries_def samples_of_def descending_def)
next
  case False
  let ?a = "table k" and ?n = "unat (ah_len (table k))" and ?thr = "hot_threshold_of k"
  define ys where "ys = srt (ah_items ?a)"
  define a where "a = achash_sort srt ?a"
  have n: "0 < ?n" "?n \<le> length (ah_items ?a)" "?n \<le> 8388608"
    using False assms(2) size_pow(2) [OF assms(2)] by (auto simp: table_shape_def word_le_nat_alt unat_gt_0)
  have ys: "mset ys = mset (ah_items ?a)" "descending ys" using assms(1) by (simp_all add: sorts_def ys_def)
  then have len: "length ys = length (ah_items ?a)" by (metis size_mset)
  have take: "mset (take ?n ys) = mset (entries ?a)"
    using sort_entries [OF ys n(2,1)] assms(5) by (simp add: entries_def)
  have n1: "unat (ah_len ?a - 1) = ?n - 1" using False by (intro unat_minus_one) auto
  have a: "ah_items a = ys" "ah_len a = ah_len ?a" "hash_mode a = hash_mode ?a" "threshold a = threshold ?a"
    "samples a = samples ?a" by (simp_all add: a_def achash_sort_def ys_def)
  have thr: "(if hash_mode ?a then threshold ?a else threshold ?a + cms_error (sketch k)) = ?thr"
    by (simp add: hot_threshold_of_def)
  have nl: "\<not> length ys \<le> ?n - 1" using n len by simp
  have desc: "descending (take m ys)" for m using ys(2) by (simp add: descending_def sorted_wrt_take)
  show ?thesis
  proof (cases "ucast (it_count (ys ! (?n - 1))) < ?thr")
    case True
    have "unat (ah_len ?a - 1) \<le> length ys" "unat (ah_len ?a - 1) < 2 ^ 31" using n len n1 by simp_all
    from bsearch_splits [OF ys(2) _ this, of 0 "ucast (?thr - 1)"] n1
    obtain m where m: "achash_bsearch a (ah_len ?a - 1) (ucast (?thr - 1)) = Some (Inr m)"
        "unat m \<le> ?n - 1" "\<forall>i < unat m. (ucast (?thr - 1) :: u16) < it_count (ys ! i)"
        "\<forall>i. unat m \<le> i \<and> i < ?n - 1 \<longrightarrow> it_count (ys ! i) \<le> ucast (?thr - 1)"
      by (auto simp: achash_bsearch_def a)
    define cut where "cut = drop (unat m) (take ?n ys)"
    define k' where "k' = k\<lparr>table := a\<lparr>ah_len := m, samples := samples a - samples_of cut\<rparr>, nr_hot_page := m\<rparr>"
    have run: "cmsk_sort srt k = Some (Inr k')"
      unfolding cmsk_sort_def Let_def a_def [symmetric] a thr
      using False nl n1 True m(1) by (simp add: k'_def cut_def a)
    have split: "take ?n ys = take (unat m) ys @ cut"
      using m(2) unfolding cut_def by (metis append_take_drop_id diff_le_self le_trans min.absorb1 take_take)
    have "filter (\<lambda>x. ?thr \<le> ucast (it_count x)) (take ?n ys) = take (unat m) ys"
      by (rule cut_prefix [OF assms(3,4) n(1) _ m(2-4) True]) (simp add: n(2) len)
    from mset_of_filter [OF take this]
    have "mset (take (unat m) ys) = filter_mset (\<lambda>x. ?thr \<le> ucast (it_count x)) (mset (entries ?a))" .
    moreover have "entries (a\<lparr>ah_len := m, samples := w\<rparr>) = take (unat m) ys" for w by (simp add: entries_def a)
    moreover have "samples_of (entries ?a) = samples_of (take (unat m) ys) + samples_of cut"
      using samples_of_mset [OF take] by (simp add: split samples_of_append)
    ultimately show ?thesis using run desc by (intro exI [of _ k']) (simp add: k'_def a)
  next
    case notcut: False
    define k' where "k' = k\<lparr>table := a, nr_hot_page := ah_len a\<rparr>"
    have run: "cmsk_sort srt k = Some (Inr k')"
      unfolding cmsk_sort_def Let_def a_def [symmetric] a thr
      using False nl n1 notcut by (simp add: k'_def a)
    have ent: "entries (table k') = take ?n ys" by (simp add: k'_def entries_def a)
    have "filter (\<lambda>x. ?thr \<le> ucast (it_count x)) (take ?n ys) = take ?n ys"
      by (rule nothing_cut [OF ys(2) n(1) _ notcut]) (simp add: n(2) len)
    from mset_of_filter [OF take this]
    have "filter_mset (\<lambda>x. ?thr \<le> ucast (it_count x)) (mset (take ?n ys)) = mset (take ?n ys)" by (simp add: take)
    then show ?thesis using run desc ent take samples_of_mset [OF take] by (simp add: k'_def a)
  qed
qed

definition by_count :: "achash_item list \<Rightarrow> achash_item list" where
  "by_count xs = rev (sort_key it_count xs)"

lemma by_count_sorts: "sorts by_count"
proof -
  have "sorted_wrt (\<lambda>x y. it_count x \<le> it_count y) (sort_key it_count xs)" for xs
    using sorted_sort_key [of it_count xs] by (simp add: sorted_map)
  then show ?thesis by (auto simp: sorts_def by_count_def descending_def sorted_wrt_rev)
qed

definition sample_item :: "u64 \<Rightarrow> u16 \<Rightarrow> achash_item" where
  "sample_item addr n = \<lparr>it_addr = addr, it_pid = 5, it_next = 0, it_count = n\<rparr>"

definition full_table :: achash where
  "full_table = small_table\<lparr>ah_items := [sample_item 7 3, sample_item 8 9], ah_len := 2, samples := 12\<rparr>"

theorem cmsk_sort_selects_witness:
  "\<exists>k'. cmsk_sort by_count (small_cmsk\<lparr>table := full_table\<rparr>) = Some (Inr k') \<and> descending (entries (table k')) \<and>
     mset (entries (table k')) = {# sample_item 8 9 #} \<and> nr_hot_page k' = ah_len (table k') \<and>
     samples (table k') = samples_of (entries (table k'))"
proof -
  let ?k = "small_cmsk\<lparr>table := full_table\<rparr>"
  have thr: "hot_threshold_of ?k = 4" and t: "table ?k = full_table"
    by (simp_all add: hot_threshold_of_def full_table_def small_table_def)
  have e: "entries full_table = [sample_item 7 3, sample_item 8 9]" by (simp add: entries_def full_table_def)
  have sh: "table_shape (table ?k)"
    by (simp add: table_shape_def full_table_def small_table_def ACHASH_SIZE_ORDER_MAX_def)
  have s: "samples full_table = samples_of (entries full_table)"
    by (simp add: e samples_of_def sample_item_def) (simp add: full_table_def)
  have "drop (unat (ah_len (table ?k))) (ah_items (table ?k)) = []" by (simp add: full_table_def)
  then have stale: "\<forall>x \<in> set (drop (unat (ah_len (table ?k))) (ah_items (table ?k))).
      \<forall>y \<in> set (entries (table ?k)). it_count x < it_count y" by simp
  have thr_ok: "0 < hot_threshold_of ?k" "hot_threshold_of ?k \<le> 65536" by (simp_all add: thr)
  from cmsk_sort_selects [OF by_count_sorts sh thr_ok stale] show ?thesis
    unfolding thr t using s by (auto simp: e sample_item_def)
qed

section \<open>Two defects\<close>

text \<open>
  Clearing the table keeps the items of the interval before, and the whole vector is sorted: a page
  that was hot then (count 9) is reported in place of the only page of this interval.
\<close>

lemma stale_items_return:
  assumes "sorts srt"
  shows "\<exists>k'. cmsk_sort srt (small_cmsk\<lparr>table := full_table\<lparr>ah_len := 1, threshold := 1\<rparr>\<rparr>) = Some (Inr k') \<and>
           entries (table k') = [sample_item 8 9]"
proof -
  let ?xs = "[sample_item 7 3, sample_item 8 9]"
  have m: "mset (srt ?xs) = mset ?xs" and d: "descending (srt ?xs)" using assms unfolding sorts_def by blast+
  have "length (srt ?xs) = 2" using m by (metis length_Cons list.size(3) numeral_2_eq_2 size_mset)
  then obtain x y where xy: "srt ?xs = [x, y]" by (auto simp: numeral_2_eq_2 length_Suc_conv)
  have "srt ?xs = [sample_item 8 9, sample_item 7 3]"
    using m d unfolding xy by (auto simp: descending_def add_eq_conv_ex sample_item_def)
  then have "cmsk_sort srt (small_cmsk\<lparr>table := full_table\<lparr>ah_len := 1, threshold := 1\<rparr>\<rparr>) =
      Some (Inr (small_cmsk\<lparr>table := full_table\<lparr>ah_len := 1, threshold := 1,
        ah_items := [sample_item 8 9, sample_item 7 3]\<rparr>, nr_hot_page := 1\<rparr>))"
    by (simp add: cmsk_sort_def achash_sort_def full_table_def small_table_def) (simp add: sample_item_def)
  then show ?thesis by (simp add: entries_def)
qed

text \<open>A count is 16 bits wide; when it wraps around, the histogram is decremented at index -1.\<close>

lemma count_wrap_leaves_histogram:
  assumes "table_shape a" and "it_count (ah_items a ! i) = 65535"
  shows "achash_hit a i = Inl Bad_index"
proof -
  define b where "b = a\<lparr>ah_items := (ah_items a)[i := (ah_items a ! i)\<lparr>it_count := 65536\<rparr>], samples := samples a + 1\<rparr>"
  have "0 < hist_max b" "length (hist b) = nat (hist_max b)" using assms(1) by (auto simp: b_def table_shape_def)
  from hist_add_ok [OF this, of 0 1] obtain h where "hist_inc b 0 = Inr (b\<lparr>hist := h\<rparr>)" by (auto simp: hist_inc_def)
  moreover have "hist_dec (b\<lparr>hist := h\<rparr>) (- 1) = Inl Bad_index"
    using \<open>0 < hist_max b\<close> by (simp add: hist_dec_def hist_add_def hist_index_def Let_def)
  ultimately show ?thesis using assms(2) by (simp add: achash_hit_def Let_def flip: b_def)
qed

end
