(* ===== verification/Global_Scan.thy ===== *)
theory Global_Scan
  imports Ept_Migrate
begin

text \<open>
  The global scan \<open>GlobalScan.h\<close> and \<open>GlobalScan.cc\<close>: one period walks the page tables of all
  processes, sums their statistics, divides the memory to be moved among the processes and page
  types, and moves it. The results of floating-point expressions are parameters (\<open>float_ops\<close>), as
  are the walk and the migration of one process; time, sleeping and printing are not modelled.
  \<open>Sysfs.cc\<close>, which it reads huge page counts from, is here too.
\<close>

unbundle bit_operations_syntax

section \<open>Huge page counts\<close>

type_synonym hugetlb_map = "string \<Rightarrow> int option"

record sysfs =
  sf_node :: "hugetlb_map list"
  sf_global :: "hugetlb_map option"

record hugetlb_files =
  hf_max_node :: int
  hf_node :: "nat \<Rightarrow> (string \<Rightarrow> int) option"
  hf_global :: "string \<Rightarrow> int"

definition node_hugetlb_keys :: "string list" where
  "node_hugetlb_keys = [''nr_hugepages'', ''free_hugepages'', ''surplus_hugepages'']"

definition global_hugetlb_keys :: "string list" where
  "global_hugetlb_keys = node_hugetlb_keys @ [''nr_overcommit_hugepages'', ''resv_hugepages'']"

definition read_hugetlb :: "string list \<Rightarrow> (string \<Rightarrow> int) \<Rightarrow> hugetlb_map \<Rightarrow> hugetlb_map" where
  "read_hugetlb keys read_int m = foldl (\<lambda>m name. m(name \<mapsto> read_int name)) m keys"

text \<open>The loop of the code stops before the last node.\<close>

definition load_hugetlb :: "hugetlb_files \<Rightarrow> sysfs \<Rightarrow> sysfs" where
  "load_hugetlb fs s =
     (let n = nat (hf_max_node fs + 1);
          maps = take n (sf_node s) @ replicate (n - length (sf_node s)) Map.empty;
          maps = map (\<lambda>i. if int i < hf_max_node fs
                         then (case hf_node fs i of None \<Rightarrow> maps ! i
                               | Some read \<Rightarrow> read_hugetlb node_hugetlb_keys read (maps ! i))
                         else maps ! i) [0..<n];
          g = (case sf_global s of None \<Rightarrow> Map.empty | Some m \<Rightarrow> m)
      in \<lparr>sf_node = maps, sf_global = Some (read_hugetlb global_hugetlb_keys (hf_global fs) g)\<rparr>)"

definition hugetlb :: "hugetlb_files \<Rightarrow> int \<Rightarrow> string \<Rightarrow> sysfs \<Rightarrow> (int \<times> sysfs) run" where
  "hugetlb fs nid name s =
     (let s = (if sf_node s = [] then load_hugetlb fs s else s)
      in if nid < 0 \<or> nat nid \<ge> length (sf_node s) then Inl Out_of_range
         else case (sf_node s ! nat nid) name of None \<Rightarrow> Inl Out_of_range | Some v \<Rightarrow> Inr (v, s))"

section \<open>State\<close>

record threshold =
  th_value :: int
  th_value_max :: int

record global_option =
  go_dram_percent :: int
  one_period_migration_size :: int
  anti_thrash_threshold :: int
  go_exit_on_stabilized :: int
  go_exit_on_exceeded :: bool
  go_hugetlb :: bool
  go_thp :: bool
  go_progressive_profile :: bool
  go_split_rss_size :: bool

record global_scan =
  idle_ranges :: "ept_migrate list"
  idle_ranges_last :: "ept_migrate list"
  nr_walks_done :: int
  nr_acceptable_scans :: int
  gs_stats :: walk_stats
  dram_free_anon_bytes :: u64
  dram_hot_target :: u64
  nround :: u32
  sys_refs_count :: sys_refs
  sys_migrate_stats :: migrate_stats
  global_hot_threshold :: "page_type \<Rightarrow> threshold"
  global_hot_threshold_last :: "page_type \<Rightarrow> threshold"
  total_pmem_kb :: "page_type \<Rightarrow> int"
  total_dram_kb :: "page_type \<Rightarrow> int"
  total_mem_kb :: "page_type \<Rightarrow> int"
  global_total_pmem_kb :: int
  global_total_dram_kb :: int
  global_total_mem_kb :: int
  global_dram_ratio :: int
  gs_vmstat :: proc_vmstat
  gs_sysfs :: sysfs
  gs_numa :: numa_collection

text \<open>
  Floating-point expressions whose result is converted to \<open>long\<close> or compared: \<open>n / 100.0\<close>,
  \<open>100.0 * dram / mem\<close>, \<open>mem * (percent / 100.0)\<close>, and with \<open>ratio = (float)demote / promote\<close> the
  comparison \<open>ratio > 1.0\<close>, \<open>kb * ratio\<close> and \<open>kb / ratio\<close>.
\<close>

record float_ops =
  fo_div100 :: "int \<Rightarrow> int"
  fo_dram_ratio :: "int \<Rightarrow> int \<Rightarrow> int"
  fo_percent_of :: "int \<Rightarrow> int \<Rightarrow> int"
  fo_ratio_gt_1 :: "int \<Rightarrow> int \<Rightarrow> bool"
  fo_mul_ratio :: "int \<Rightarrow> int \<Rightarrow> int \<Rightarrow> int"
  fo_div_ratio :: "int \<Rightarrow> int \<Rightarrow> int \<Rightarrow> int"

definition scan_types :: "page_type list" where
  "scan_types = [PTE_ACCESSED, PMD_ACCESSED]"

section \<open>Jobs\<close>

datatype job_intent = JOB_WALK | JOB_MIGRATE | JOB_QUIT

type_synonym 'k range_op = "ept_migrate \<Rightarrow> 'k \<Rightarrow> ('k \<times> ept_migrate) run option"

text \<open>The first result is 1 when the worker is to quit.\<close>

definition consumer_job ::
    "'k range_op \<Rightarrow> 'k range_op \<Rightarrow> job_intent \<Rightarrow> ept_migrate \<Rightarrow> 'k \<Rightarrow> (int \<times> 'k \<times> ept_migrate) run option" where
  "consumer_job walk_op migrate_op intent m k =
     (case intent of
        JOB_WALK \<Rightarrow> do { r \<leftarrow> walk_op m k; Some (rbind r (\<lambda>(k, m). Inr (0, k, m))) }
      | JOB_MIGRATE \<Rightarrow> do { r \<leftarrow> migrate_op m k; Some (rbind r (\<lambda>(k, m). Inr (0, k, m))) }
      | JOB_QUIT \<Rightarrow> Some (Inr (1, k, m)))"

text \<open>Without worker threads the jobs of one kind run in the order of the ranges.\<close>

fun run_jobs ::
    "'k range_op \<Rightarrow> 'k range_op \<Rightarrow> job_intent \<Rightarrow> ept_migrate list \<Rightarrow> 'k \<Rightarrow> ('k \<times> ept_migrate list) run option" where
  "run_jobs walk_op migrate_op intent [] k = Some (Inr (k, []))"
| "run_jobs walk_op migrate_op intent (m # ms) k =
     do { r \<leftarrow> consumer_job walk_op migrate_op intent m k;
          case r of
            Inl e \<Rightarrow> Some (Inl e)
          | Inr (ret, k, m) \<Rightarrow>
              do { r \<leftarrow> run_jobs walk_op migrate_op intent ms k;
                   Some (rbind r (\<lambda>(k, ms). Inr (k, m # ms))) } }"

section \<open>Walking\<close>

definition prepare_walk_multi :: "global_scan \<Rightarrow> global_scan" where
  "prepare_walk_multi g =
     g\<lparr>nr_walks_done := 0,
       idle_ranges := map (\<lambda>e. e\<lparr>em_scan := (em_scan e)\<lparr>es_idle := prepare_walks (es_idle (em_scan e))\<rparr>\<rparr>) (idle_ranges g)\<rparr>"

definition accept_hot_bytes :: "global_scan \<Rightarrow> u64" where
  "accept_hot_bytes g = dram_hot_target g * 12 div 8"

definition target_hot_bytes :: "global_scan \<Rightarrow> u64" where
  "target_hot_bytes g = dram_hot_target g"

definition should_stop_walk :: "global_scan \<Rightarrow> bool \<times> global_scan" where
  "should_stop_walk g =
     (if nr_walks_done g \<le> 2 then (False, g)
      else if ws_top (gs_stats g) < target_hot_bytes g then (True, g)
      else if ws_top (gs_stats g) < accept_hot_bytes g then
        let n = nr_acceptable_scans g + 1 in (n \<ge> 3, g\<lparr>nr_acceptable_scans := n\<rparr>)
      else (False, g\<lparr>nr_acceptable_scans := 0\<rparr>))"

definition HUGE_PAGE_SHIFT :: nat where "HUGE_PAGE_SHIFT = 21"

text \<open>The memory of one DRAM node; \<open>pages_4k\<close> keeps its value from node to node.\<close>

definition node_anon_bytes ::
    "global_option \<Rightarrow> vmstat_files \<Rightarrow> hugetlb_files \<Rightarrow> bool \<Rightarrow> int \<Rightarrow> u64 \<times> u64 \<times> proc_vmstat \<times> sysfs \<Rightarrow>
     (u64 \<times> u64 \<times> proc_vmstat \<times> sysfs) run" where
  "node_anon_bytes opt vf hf with_free nid s =
     (case s of (acc, pages_4k, v, sf) \<Rightarrow>
        if go_hugetlb opt then
          rbind (hugetlb hf nid ''nr_hugepages'' sf) (\<lambda>(n, sf).
          rbind (if with_free then Inr (0, sf) else hugetlb hf nid ''free_hugepages'' sf) (\<lambda>(f, sf).
            Inr (acc + push_bit HUGE_PAGE_SHIFT (word_of_int n - word_of_int f), pages_4k, v, sf)))
        else if go_thp opt then
          rbind (vmstat_node vf nid ''nr_anon_transparent_hugepages'' v) (\<lambda>(n, v).
          rbind (if with_free then vmstat_node vf nid ''nr_free_pages'' v else Inr (pages_4k, v)) (\<lambda>(p4, v).
            Inr (acc + push_bit HUGE_PAGE_SHIFT n + push_bit PAGE_SHIFT p4, p4, v, sf)))
        else
          rbind (vmstat_node vf nid ''nr_active_anon'' v) (\<lambda>(a, v).
          rbind (vmstat_node vf nid ''nr_inactive_anon'' v) (\<lambda>(i, v).
          rbind (if with_free then vmstat_node vf nid ''nr_free_pages'' v else Inr (0, v)) (\<lambda>(f, v).
            Inr (acc + push_bit PAGE_SHIFT (a + i + f), pages_4k, v, sf)))))"

definition get_dram_anon_bytes ::
    "global_option \<Rightarrow> vmstat_files \<Rightarrow> hugetlb_files \<Rightarrow> bool \<Rightarrow> global_scan \<Rightarrow> (u64 \<times> global_scan) run" where
  "get_dram_anon_bytes opt vf hf with_free g =
     (let sf = (if go_hugetlb opt then load_hugetlb hf (gs_sysfs g) else gs_sysfs g)
      in rbind (rfold (\<lambda>p s. rbind (deref (gs_numa g) (Some p)) (\<lambda>n. node_anon_bytes opt vf hf with_free (nn_id n) s))
                 (dram_nodes (gs_numa g)) (0, 0, gs_vmstat g, sf))
           (\<lambda>(acc, p4, v, sf). Inr (acc, g\<lparr>gs_vmstat := v, gs_sysfs := sf\<rparr>)))"

definition get_dram_free_and_anon_bytes ::
    "global_option \<Rightarrow> vmstat_files \<Rightarrow> hugetlb_files \<Rightarrow> global_scan \<Rightarrow> (u64 \<times> global_scan) run" where
  "get_dram_free_and_anon_bytes opt vf hf g =
     rbind (get_dram_anon_bytes opt vf hf True g) (\<lambda>(b, g). Inr (push_bit PAGE_SHIFT b, g))"

definition update_dram_free_anon_bytes ::
    "global_option \<Rightarrow> vmstat_files \<Rightarrow> hugetlb_files \<Rightarrow> global_scan \<Rightarrow> global_scan run" where
  "update_dram_free_anon_bytes opt vf hf g =
     (let g = g\<lparr>gs_vmstat := \<lparr>pv_proc = None, pv_numa = []\<rparr>\<rparr>
      in rbind (if go_dram_percent opt \<noteq> 0
                then Inr (word_of_int (go_dram_percent opt) * ws_all (gs_stats g) div 100, g)
                else get_dram_free_and_anon_bytes opt vf hf g)
           (\<lambda>(b, g). let target = b div 2;
                         target = (if go_exit_on_exceeded opt then target + target * ucast (nround g) div 16 else target)
                     in Inr (g\<lparr>dram_free_anon_bytes := b, dram_hot_target := target\<rparr>)))"

text \<open>
  The statistics of one finished walk; \<open>locator\<close> finds the nodes of the pages of a process (its id).
\<close>

fun gather_ranges ::
    "(int \<Rightarrow> u64 list \<Rightarrow> int \<times> int list) \<Rightarrow> bool \<Rightarrow> ept_migrate list \<Rightarrow> walk_stats \<Rightarrow> (ept_migrate list \<times> walk_stats) run option" where
  "gather_ranges locator first [] w = Some (Inr ([], w))"
| "gather_ranges locator first (m # ms) w =
     do { r \<leftarrow> (if first then get_memory_type (locator (ip_pid (es_idle (em_scan m)))) (em_scan m)
               else Some (Inr (em_scan m)));
          case r of
            Inl e \<Rightarrow> Some (Inl e)
          | Inr sc \<Rightarrow>
              do { r \<leftarrow> gather_ranges locator first ms (gather_walk_stats (es_idle sc) w);
                   Some (rbind r (\<lambda>(ms, w). Inr (m\<lparr>em_scan := sc\<rparr> # ms, w))) } }"

definition walk_once ::
    "'k range_op \<Rightarrow> 'k range_op \<Rightarrow> (int \<Rightarrow> u64 list \<Rightarrow> int \<times> int list) \<Rightarrow> global_option \<Rightarrow> vmstat_files \<Rightarrow>
     hugetlb_files \<Rightarrow> int \<Rightarrow> 'k \<Rightarrow> global_scan \<Rightarrow> ('k \<times> global_scan) run option" where
  "walk_once walk_op migrate_op locator opt vf hf scans k g =
     do { r \<leftarrow> run_jobs walk_op migrate_op JOB_WALK (idle_ranges g) k;
          case r of
            Inl e \<Rightarrow> Some (Inl e)
          | Inr (k, ms) \<Rightarrow>
              do { r \<leftarrow> gather_ranges locator (scans = 1) ms no_stats;
                   Some (rbind r (\<lambda>(ms, w).
                     rbind (update_dram_free_anon_bytes opt vf hf (g\<lparr>idle_ranges := ms, gs_stats := w\<rparr>))
                       (\<lambda>g. Inr (k, g)))) } }"

section \<open>Counting\<close>

fun count_refs_ranges :: "ept_migrate list \<Rightarrow> sys_refs \<Rightarrow> (ept_migrate list \<times> sys_refs) run option" where
  "count_refs_ranges [] sys = Some (Inr ([], sys))"
| "count_refs_ranges (m # ms) sys =
     do { r \<leftarrow> count_refs (em_scan m) sys;
          case r of
            Inl e \<Rightarrow> Some (Inl e)
          | Inr (sc, sys) \<Rightarrow>
              do { r \<leftarrow> count_refs_ranges ms sys;
                   Some (rbind r (\<lambda>(ms, sys). Inr (m\<lparr>em_scan := sc\<rparr> # ms, sys))) } }"

definition gs_count_refs :: "global_scan \<Rightarrow> global_scan run option" where
  "gs_count_refs g =
     do { r \<leftarrow> count_refs_ranges (idle_ranges g) (reset_sys_refs_count (nr_walks_done g));
          Some (rbind r (\<lambda>(ms, sys). Inr (g\<lparr>idle_ranges := ms, sys_refs_count := sys\<rparr>))) }"

definition gs_count_migrate_stats :: "global_scan \<Rightarrow> global_scan" where
  "gs_count_migrate_stats g =
     g\<lparr>sys_migrate_stats := foldl (\<lambda>st m. count_migrate_stats m st) migrate_stats_clear (idle_ranges g)\<rparr>"

definition calc_migrated_bytes :: "global_scan \<Rightarrow> u64" where
  "calc_migrated_bytes g =
     (\<Sum>m\<leftarrow>idle_ranges g. \<Sum>i\<leftarrow>[COLD_MIGRATE..<MAX_MIGRATE]. get_moved_bytes (ms_move (page_migrate_stats m i)))"

text \<open>An \<open>unsigned long\<close> number of pages in KB, read as a \<open>long\<close>.\<close>

definition pages_kb :: "page_type \<Rightarrow> u64 \<Rightarrow> int" where
  "pages_kb type n = sint (push_bit (pagetype_shift type - 10) n)"

definition memory_size_step :: "page_type \<Rightarrow> global_scan \<Rightarrow> global_scan" where
  "memory_size_step type g =
     (let pmem = pages_kb type (get_total_memory_page_count (sys_refs_count g) type REF_LOC_PMEM);
          dram = pages_kb type (get_total_memory_page_count (sys_refs_count g) type REF_LOC_DRAM)
      in g\<lparr>total_pmem_kb := (total_pmem_kb g)(type := pmem),
           total_dram_kb := (total_dram_kb g)(type := dram),
           total_mem_kb := (total_mem_kb g)(type := pmem + dram),
           global_total_pmem_kb := global_total_pmem_kb g + pmem,
           global_total_dram_kb := global_total_dram_kb g + dram\<rparr>)"

definition calc_memory_size :: "float_ops \<Rightarrow> global_scan \<Rightarrow> global_scan" where
  "calc_memory_size fo g =
     (let g = g\<lparr>global_total_pmem_kb := 0, global_total_dram_kb := 0, global_total_mem_kb := 0\<rparr>;
          g = fold memory_size_step scan_types g;
          mem = global_total_pmem_kb g + global_total_dram_kb g
      in g\<lparr>global_total_mem_kb := mem, global_dram_ratio := fo_dram_ratio fo (global_total_dram_kb g) mem\<rparr>)"

section \<open>The state of the machine\<close>

definition in_adjust_ratio_stage :: "global_option \<Rightarrow> global_scan \<Rightarrow> bool" where
  "in_adjust_ratio_stage opt g = (go_dram_percent opt \<noteq> 0 \<and> global_dram_ratio g - go_dram_percent opt \<noteq> 0)"

definition in_unbalanced_stage :: "global_option \<Rightarrow> global_scan \<Rightarrow> bool" where
  "in_unbalanced_stage opt g =
     (if go_dram_percent opt = 0 then False
      else let max_delta = max (c_div (global_total_mem_kb g) 100) 102400;
               target = c_div (global_total_mem_kb g * go_dram_percent opt) 100
           in \<bar>global_total_dram_kb g - target\<bar> > max_delta)"

definition should_target_aep_young :: "global_option \<Rightarrow> global_scan \<Rightarrow> bool" where
  "should_target_aep_young opt g =
     (if go_progressive_profile opt then False
      else if global_total_mem_kb g \<le> 0 then False
      else if 100 - global_dram_ratio g < c_div (100 - go_dram_percent opt) 2 then False
      else in_unbalanced_stage opt g)"

definition exit_on_stabilized :: "global_option \<Rightarrow> global_scan \<Rightarrow> bool" where
  "exit_on_stabilized opt g =
     (go_exit_on_stabilized opt \<noteq> 0 \<and>
      \<not> move_kb (ms_move (sys_migrate_stats g)) * 100 >
        to_move_kb (ms_move (sys_migrate_stats g)) * word_of_int (go_exit_on_stabilized opt))"

definition exit_on_exceeded ::
    "global_option \<Rightarrow> vmstat_files \<Rightarrow> hugetlb_files \<Rightarrow> global_scan \<Rightarrow> (bool \<times> global_scan) run" where
  "exit_on_exceeded opt vf hf g =
     (if \<not> go_exit_on_exceeded opt then Inr (False, g)
      else rbind (get_dram_anon_bytes opt vf hf False g) (\<lambda>(b, g). Inr (\<not> b < dram_free_anon_bytes g, g)))"

section \<open>The threshold of the hot set\<close>

text \<open>
  \<open>for (; threshold >= 0; --threshold)\<close>; the second argument is the number of counts left, one more
  than \<open>threshold\<close>. The subtraction mixes \<open>long\<close> and \<open>unsigned long\<close>.
\<close>

fun global_threshold_loop :: "u64 list \<Rightarrow> nat \<Rightarrow> int \<Rightarrow> int run" where
  "global_threshold_loop h 0 page_count = Inr (- 1)"
| "global_threshold_loop h (Suc t) page_count =
     (if t < length h then
        let page_count = sint (word_of_int page_count - h ! t)
        in if page_count < 0 then Inr (int t) else global_threshold_loop h t page_count
      else Inl Bad_index)"

definition global_threshold_of :: "float_ops \<Rightarrow> global_option \<Rightarrow> global_scan \<Rightarrow> page_type \<Rightarrow> threshold run" where
  "global_threshold_of fo opt g i =
     (if total_mem_kb g i = 0 then Inr \<lparr>th_value = - 1, th_value_max = - 1\<rparr>
      else let kb = (if go_dram_percent opt \<noteq> 0 then fo_div100 fo (go_dram_percent opt * total_mem_kb g i)
                     else total_dram_kb g i);
               page_count = kb div 2 ^ (pagetype_shift i - 10)
           in rbind (global_threshold_loop (sys_refs_count g i REF_LOC_ALL) (nat (nr_walks_done g + 1)) page_count)
                (\<lambda>t. Inr \<lparr>th_value = min (nr_walks_done g) (t + 1), th_value_max = nr_walks_done g\<rparr>))"

definition calc_global_threshold :: "float_ops \<Rightarrow> global_option \<Rightarrow> global_scan \<Rightarrow> global_scan run" where
  "calc_global_threshold fo opt g =
     rfold (\<lambda>i g. rbind (global_threshold_of fo opt g i)
              (\<lambda>th. Inr (g\<lparr>global_hot_threshold := (global_hot_threshold g)(i := th)\<rparr>)))
       [0..<MAX_ACCESSED + 1] g"

section \<open>How much to migrate\<close>

definition init_migration_parameter :: "int \<Rightarrow> page_type \<Rightarrow> ept_migrate \<Rightarrow> ept_migrate" where
  "init_migration_parameter nw type e =
     e\<lparr>parameter := (parameter e)(type := parameter_disable (Some ''No HOT/COLD pages'')
         (parameter_clear\<lparr>hot_threshold := nw + 1, hot_threshold_max := nw + 1,
                          cold_threshold := - 1, cold_threshold_min := - 1\<rparr>))\<rparr>"

definition type_refs :: "ept_migrate \<Rightarrow> page_type \<Rightarrow> nat \<Rightarrow> u64 list" where
  "type_refs e type = histogram_2d (pagetype_refs (es_idle (em_scan e)) (pagetype_index type))"

definition cell_at :: "u64 list \<Rightarrow> int \<Rightarrow> u64 run" where
  "cell_at h i = (if 0 \<le> i \<and> nat i < length h then Inr (h ! nat i) else Inl Bad_index)"

text \<open>
  The memory that is available for promotion and demotion, at most \<open>promote_kb\<close> and \<open>demote_kb\<close>;
  the state is \<open>promote_kb\<close>, \<open>demote_kb\<close>, \<open>avail_hot_page_kb\<close> and \<open>avail_cold_page_kb\<close>.
\<close>

type_synonym avail = "int \<times> int \<times> int \<times> int"

definition avail_step :: "global_scan \<Rightarrow> bool \<Rightarrow> int \<Rightarrow> page_type \<Rightarrow> avail \<Rightarrow> avail run" where
  "avail_step g too_many_aep i type s =
     (case s of (promote, demote, hot, cold) \<Rightarrow>
        let nw = nr_walks_done g; sys = sys_refs_count g type; h = nw - i
        in rbind
          (if \<not> too_many_aep then
             if h \<ge> nw then rbind (cell_at (sys REF_LOC_PMEM) h) (\<lambda>n. Inr (promote, hot + min (pages_kb type n) promote))
             else Inr (promote, hot)
           else if h \<le> 0 \<or> promote \<le> 0 then Inr (promote, hot)
           else rbind (cell_at (sys REF_LOC_PMEM) h) (\<lambda>n. let kb = min (pages_kb type n) promote in Inr (promote - kb, hot + kb)))
          (\<lambda>(promote, hot).
            if i \<ge> nw \<or> demote \<le> 0 then Inr (promote, demote, hot, cold)
            else rbind (cell_at (sys REF_LOC_DRAM) i) (\<lambda>n.
                   let kb = min (pages_kb type n) demote in Inr (promote, demote - kb, hot, cold + kb))))"

definition migrate_limit :: "global_option \<Rightarrow> global_scan \<Rightarrow> bool \<times> int" where
  "migrate_limit opt g =
     (let target_aep = c_div (global_total_mem_kb g * (100 - go_dram_percent opt)) 100;
          gap = global_total_pmem_kb g - target_aep;
          too_many_aep = (in_unbalanced_stage opt g \<and> gap > 0)
      in (too_many_aep, if too_many_aep then max (one_period_migration_size opt) (c_div gap 8)
                        else one_period_migration_size opt))"

definition migrate_shares :: "float_ops \<Rightarrow> global_option \<Rightarrow> global_scan \<Rightarrow> int \<Rightarrow> int \<times> int" where
  "migrate_shares fo opt g limit =
     (if go_dram_percent opt \<noteq> 0 then
        let adjust = c_div limit 8;
            delta = fo_percent_of fo (global_total_mem_kb g) (go_dram_percent opt) - global_total_dram_kb g;
            delta = (if delta < 0 then max delta (0 - limit + adjust) else min delta (limit - adjust))
        in (c_div (limit + delta) 2, c_div (limit - delta) 2)
      else (c_div limit 2, c_div limit 2))"

definition adjust_limits ::
    "float_ops \<Rightarrow> bool \<Rightarrow> int \<Rightarrow> int \<Rightarrow> int \<Rightarrow> int \<Rightarrow> int \<times> int" where
  "adjust_limits fo unbalanced promote demote hot cold =
     (let more_cold = fo_ratio_gt_1 fo demote promote
      in if cold \<noteq> 0 \<and> hot \<noteq> 0 then
           let page_kb = fo_mul_ratio fo hot demote promote; d = min cold page_kb
           in (if more_cold \<and> page_kb > cold then fo_div_ratio fo d demote promote else hot, d)
         else if cold = 0 \<and> hot \<noteq> 0 then (if unbalanced then if more_cold then 0 else hot else 0, 0)
         else if cold \<noteq> 0 \<and> hot = 0 then (0, if unbalanced then if more_cold then cold else 0 else 0)
         else (0, 0))"

definition calc_migrate_count :: "float_ops \<Rightarrow> global_option \<Rightarrow> global_scan \<Rightarrow> (int \<times> int) run" where
  "calc_migrate_count fo opt g =
     (let (too_many_aep, limit) = migrate_limit opt g; (promote, demote) = migrate_shares fo opt g limit
      in rbind (rfold (\<lambda>i s. rfold (avail_step g too_many_aep (int i)) scan_types s)
                 [0..<nat (nr_walks_done g + 1)] (promote, demote, 0, 0))
           (\<lambda>(_, _, hot, cold). Inr (adjust_limits fo (in_unbalanced_stage opt g) promote demote hot cold)))"

section \<open>The parameters of every range\<close>

definition anti_thrashing :: "int \<Rightarrow> int \<Rightarrow> int \<Rightarrow> page_type \<Rightarrow> ept_migrate \<Rightarrow> ept_migrate run" where
  "anti_thrashing nw opt_threshold anti_threshold type e =
     (let p = parameter e type; hot = hot_threshold p; cold = cold_threshold p
      in if cold < 0 \<or> hot > nw then Inr e
         else if hot - cold \<ge> opt_threshold then Inr e
         else rbind
           (if hot = nw then
              let c = max (hot - anti_threshold) 0
              in rbind (cell_at (type_refs e type REF_LOC_DRAM) c)
                   (\<lambda>n. Inr (p\<lparr>cold_threshold := c, demote_remain := min (sint n) (nr_demote p)\<rparr>))
            else
              let h = min (cold + anti_threshold) nw
              in rbind (cell_at (type_refs e type REF_LOC_PMEM) h)
                   (\<lambda>n. Inr (p\<lparr>hot_threshold := h, promote_remain := min (sint n) (nr_promote p)\<rparr>)))
           (\<lambda>p. Inr (e\<lparr>parameter := (parameter e)(type :=
              if hot - cold < opt_threshold then parameter_disable (Some ''fail to anti-thrashing'') p else p)\<rparr>)))"

text \<open>One range and page type at distance \<open>i\<close>, with the memory promoted and demoted so far.\<close>

definition select_hot ::
    "int \<Rightarrow> int \<Rightarrow> int \<Rightarrow> page_type \<Rightarrow> int \<times> ept_migrate \<Rightarrow> (int \<times> ept_migrate) run" where
  "select_hot nw promote_limit i type s =
     (case s of (promoted, e) \<Rightarrow>
        let h = nw - i
        in if promoted \<ge> promote_limit \<or> h \<le> 0 then Inr (promoted, e)
           else rbind (cell_at (type_refs e type REF_LOC_PMEM) h) (\<lambda>n.
             if n = 0 then Inr (promoted, e)
             else let kb = min (pages_kb type n) (promote_limit - promoted);
                      pages = kb div 2 ^ (pagetype_shift type - 10);
                      p = parameter e type
                  in Inr (promoted + kb, e\<lparr>parameter := (parameter e)(type := parameter_enable
                       (p\<lparr>nr_promote := nr_promote p + pages, promote_remain := pages,
                          hot_threshold := h, hot_threshold_max := nw\<rparr>))\<rparr>)))"

definition select_cold ::
    "global_option \<Rightarrow> bool \<Rightarrow> int \<Rightarrow> int \<Rightarrow> int \<Rightarrow> page_type \<Rightarrow> int \<times> ept_migrate \<Rightarrow> (int \<times> ept_migrate) run" where
  "select_cold opt adjusting nw demote_limit i type s =
     (case s of (demoted, e) \<Rightarrow>
        if demoted \<ge> demote_limit \<or> i \<ge> nw then Inr (demoted, e)
        else rbind (cell_at (type_refs e type REF_LOC_DRAM) i) (\<lambda>n.
          if n = 0 then Inr (demoted, e)
          else if \<not> enabled (parameter e type) \<and> nr_demote (parameter e type) \<noteq> 0 then Inr (demoted, e)
          else let kb = min (pages_kb type n) (demote_limit - demoted);
                   pages = kb div 2 ^ (pagetype_shift type - 10);
                   p = parameter e type;
                   e = e\<lparr>parameter := (parameter e)(type := parameter_enable
                         (p\<lparr>nr_demote := nr_demote p + pages, demote_remain := pages,
                            cold_threshold := i, cold_threshold_min := 0\<rparr>))\<rparr>
               in rbind (if adjusting then Inr e
                         else anti_thrashing nw (anti_thrash_threshold opt) (anti_thrash_threshold opt) type e)
                    (\<lambda>e. Inr (demoted + kb, e))))"

definition select_type ::
    "global_option \<Rightarrow> bool \<Rightarrow> int \<Rightarrow> int \<times> int \<Rightarrow> int \<Rightarrow> page_type \<Rightarrow> int \<times> int \<times> ept_migrate \<Rightarrow>
     (int \<times> int \<times> ept_migrate) run" where
  "select_type opt adjusting nw limits i type s =
     (case s of (promoted, demoted, e) \<Rightarrow>
        rbind (select_hot nw (fst limits) i type (promoted, e)) (\<lambda>(promoted, e).
        rbind (select_cold opt adjusting nw (snd limits) i type (demoted, e)) (\<lambda>(demoted, e).
          Inr (promoted, demoted, e))))"

fun select_ranges ::
    "global_option \<Rightarrow> bool \<Rightarrow> int \<Rightarrow> int \<times> int \<Rightarrow> int \<Rightarrow> int \<Rightarrow> int \<Rightarrow> ept_migrate list \<Rightarrow>
     (int \<times> int \<times> ept_migrate list) run" where
  "select_ranges opt adjusting nw limits i promoted demoted [] = Inr (promoted, demoted, [])"
| "select_ranges opt adjusting nw limits i promoted demoted (m # ms) =
     rbind (rfold (select_type opt adjusting nw limits i) scan_types (promoted, demoted, m)) (\<lambda>(promoted, demoted, m).
     rbind (select_ranges opt adjusting nw limits i promoted demoted ms) (\<lambda>(promoted, demoted, ms).
       Inr (promoted, demoted, m # ms)))"

definition calc_migrate_parameter :: "float_ops \<Rightarrow> global_option \<Rightarrow> global_scan \<Rightarrow> global_scan run" where
  "calc_migrate_parameter fo opt g =
     rbind (calc_migrate_count fo opt g) (\<lambda>limits.
       let nw = nr_walks_done g;
           ms = map (\<lambda>m. fold (init_migration_parameter nw) scan_types m) (idle_ranges g)
       in rbind (rfold (\<lambda>i (promoted, demoted, ms).
                   select_ranges opt (in_adjust_ratio_stage opt g) nw limits (int i) promoted demoted ms)
                 [0..<nat (nw + 1)] (0, 0, ms))
            (\<lambda>(_, _, ms). Inr (g\<lparr>idle_ranges := ms\<rparr>)))"

section \<open>The end of a period\<close>

definition calc_progressive_profile_parameter ::
    "nat \<Rightarrow> int \<Rightarrow> global_scan \<Rightarrow> global_scan run" where
  "calc_progressive_profile_parameter from_type refs g =
     (let nw = nr_walks_done g;
          set_range = (\<lambda>type e.
            let e = init_migration_parameter nw type e
            in if total_mem_kb g type = 0
               then Inr (e\<lparr>parameter := (parameter e)(type := parameter_disable (Some ''No HOT or COLD pages'') (parameter e type))\<rparr>)
               else rbind (if from_type < REF_LOC_MAX then cell_at (type_refs e type from_type) refs else Inl Bad_index) (\<lambda>n.
                 let p = parameter e type;
                     p = (if from_type = REF_LOC_DRAM then parameter_enable
                            (p\<lparr>nr_demote := sint n, demote_remain := sint n,
                               cold_threshold := refs, cold_threshold_min := refs\<rparr>)
                          else if from_type = REF_LOC_PMEM then parameter_enable
                            (p\<lparr>nr_promote := sint n, promote_remain := sint n,
                               hot_threshold := refs, hot_threshold_max := refs\<rparr>)
                          else parameter_disable (Some ''wrong from_type'') p)
                 in Inr (e\<lparr>parameter := (parameter e)(type := p)\<rparr>)))
      in rbind (rfold (\<lambda>type ms. rfold (\<lambda>m done_ms. rbind (set_range type m) (\<lambda>m. Inr (done_ms @ [m]))) ms [])
                  scan_types (idle_ranges g))
           (\<lambda>ms. Inr (g\<lparr>idle_ranges := ms\<rparr>)))"

definition converged :: "int \<Rightarrow> int \<Rightarrow> migrate_parameter \<Rightarrow> bool" where
  "converged nw anti_threshold p =
     (let valid_count = (if hot_threshold p \<le> nw then 1 else 0) + (if cold_threshold p \<ge> 0 then 1 else (0 :: nat))
      in if valid_count > 1
         then (if enabled p then hot_threshold p - cold_threshold p \<le> anti_threshold else True) else True)"

definition exit_on_converged :: "global_option \<Rightarrow> global_scan \<Rightarrow> bool" where
  "exit_on_converged opt g =
     (let ps = concat (map (\<lambda>m. map (parameter m) scan_types) (idle_ranges g));
          converged_count = length (filter (converged (nr_walks_done g) (anti_thrash_threshold opt)) ps)
      in if in_adjust_ratio_stage opt g then False
         else \<not> converged_count < length scan_types * length (idle_ranges g))"

definition is_all_migration_done :: "int list \<Rightarrow> bool" where
  "is_all_migration_done dram_quotas = (\<not> (\<exists>q \<in> set dram_quotas. q > 0))"

definition save_context_last :: "global_scan \<Rightarrow> global_scan" where
  "save_context_last g =
     g\<lparr>idle_ranges_last := idle_ranges g,
       global_hot_threshold_last := (\<lambda>i. if i < MAX_ACCESSED + 1 then global_hot_threshold g i
                                        else global_hot_threshold_last g i)\<rparr>"

section \<open>Hotness drifting\<close>

text \<open>
  The merge of the normalised pages of two periods; the result is the number of stable and of
  unstable pages. The two arrays are different objects.
\<close>

partial_function (option) drift_loop ::
    "as_rc + u64 \<times> u8 \<times> int \<Rightarrow> as_rc + u64 \<times> u8 \<times> int \<Rightarrow> addr_seq \<Rightarrow> addr_seq \<Rightarrow> int \<Rightarrow> int \<Rightarrow>
     (int \<times> int \<times> addr_seq \<times> addr_seq) option" where
  "drift_loop rc0 rc1 s0 s1 sn un =
     (case (rc0, rc1) of
        (Inr (a0, h0, _), Inr (a1, h1, _)) \<Rightarrow>
          if a0 < a1 then
            let (rc0, s0) = get_next s0
            in drift_loop rc0 rc1 s0 s1 sn (if h0 = 1 then un + 1 else un)
          else if a0 > a1 then
            let (rc1, s1) = get_next s1
            in drift_loop rc0 rc1 s0 s1 sn (if h1 = 1 then un + 1 else un)
          else
            let final_hotness = int8_of (uint h0 + uint h1);
                (rc0, s0) = get_next s0;
                (rc1, s1) = get_next s1
            in drift_loop rc0 rc1 s0 s1
                 (if final_hotness = 2 then sn + 1 else sn)
                 (if final_hotness = 1 then un + 1 else un)
      | _ \<Rightarrow> Some (sn, un, s0, s1))"

definition drift_counts :: "addr_seq \<Rightarrow> addr_seq \<Rightarrow> (int \<times> int \<times> addr_seq \<times> addr_seq) option" where
  "drift_counts s0 s1 =
     (if as_empty s0 \<and> as_empty s1 then Some (0, 0, s0, s1)
      else let (rc0, s0) = get_first s0; (rc1, s1) = get_first s1 in drift_loop rc0 rc1 s0 s1 0 0)"

text \<open>Per page type the stable and half the unstable pages, as they are reported.\<close>

fun drift_types ::
    "page_type list \<Rightarrow> ept_migrate \<Rightarrow> ept_migrate \<Rightarrow> ((int \<times> int) list \<times> ept_migrate \<times> ept_migrate) option" where
  "drift_types [] l c = Some ([], l, c)"
| "drift_types (type # types) l c =
     do { (sn, un, s0, s1) \<leftarrow> drift_counts (em_refs l type) (em_refs c type);
          (rs, l, c) \<leftarrow> drift_types types (set_em_refs l type s0) (set_em_refs c type s1);
          Some ((sn, c_div un 2) # rs, l, c) }"

definition calc_page_hotness_drifting ::
    "ept_migrate \<Rightarrow> ept_migrate \<Rightarrow> ((int \<times> int) list \<times> ept_migrate \<times> ept_migrate) option" where
  "calc_page_hotness_drifting l c = drift_types scan_types l c"

fun normalize_pair :: "global_scan \<Rightarrow> page_type list \<Rightarrow> ept_migrate \<Rightarrow> ept_migrate \<Rightarrow> (ept_migrate \<times> ept_migrate) option" where
  "normalize_pair g [] l c = Some (l, c)"
| "normalize_pair g (type # types) l c =
     (if total_mem_kb g type = 0 then normalize_pair g types l c
      else do { l \<leftarrow> normalize_page_hotness type (th_value (global_hot_threshold_last g type))
                       (th_value_max (global_hot_threshold_last g type)) l;
                c \<leftarrow> normalize_page_hotness type (th_value (global_hot_threshold g type))
                       (th_value_max (global_hot_threshold g type)) c;
                normalize_pair g types l c })"

definition range_pid :: "ept_migrate \<Rightarrow> int" where
  "range_pid e = ip_pid (es_idle (em_scan e))"

fun drift_ranges :: "nat \<Rightarrow> global_scan \<Rightarrow> ((int \<times> (int \<times> int) list) list \<times> global_scan) option" where
  "drift_ranges 0 g = Some ([], g)"
| "drift_ranges (Suc k) g =
     (let i = length (idle_ranges_last g) - Suc k;
          l = idle_ranges_last g ! i;
          j = length (takeWhile (\<lambda>m. range_pid m \<noteq> range_pid l) (idle_ranges g))
      in if j = length (idle_ranges g) then drift_ranges k g
         else do { (l', c') \<leftarrow> normalize_pair g scan_types l (idle_ranges g ! j);
                   (r, l', c') \<leftarrow> calc_page_hotness_drifting l' c';
                   (rs, g) \<leftarrow> drift_ranges k (g\<lparr>idle_ranges_last := (idle_ranges_last g)[i := l'],
                                             idle_ranges := (idle_ranges g)[j := c']\<rparr>);
                   Some ((range_pid l, r) # rs, g) })"

definition calc_hotness_drifting ::
    "global_option \<Rightarrow> global_scan \<Rightarrow> ((int \<times> (int \<times> int) list) list \<times> global_scan) option" where
  "calc_hotness_drifting opt g =
     (if idle_ranges_last g = [] then Some ([], g)
      else if go_split_rss_size opt then Some ([], g)
      else drift_ranges (length (idle_ranges_last g)) g)"

section \<open>One period\<close>

fun walk_scans ::
    "'k range_op \<Rightarrow> 'k range_op \<Rightarrow> (int \<Rightarrow> u64 list \<Rightarrow> int \<times> int list) \<Rightarrow> global_option \<Rightarrow> vmstat_files \<Rightarrow>
     hugetlb_files \<Rightarrow> nat \<Rightarrow> int \<Rightarrow> 'k \<Rightarrow> global_scan \<Rightarrow> ('k \<times> global_scan) run option" where
  "walk_scans walk_op migrate_op locator opt vf hf 0 scans k g = Some (Inr (k, g))"
| "walk_scans walk_op migrate_op locator opt vf hf (Suc n) scans k g =
     do { r \<leftarrow> walk_once walk_op migrate_op locator opt vf hf (scans + 1) k g;
          case r of
            Inl e \<Rightarrow> Some (Inl e)
          | Inr (k, g) \<Rightarrow> walk_scans walk_op migrate_op locator opt vf hf n (scans + 1) k g }"

definition gs_walk_multi ::
    "'k range_op \<Rightarrow> 'k range_op \<Rightarrow> (int \<Rightarrow> u64 list \<Rightarrow> int \<times> int list) \<Rightarrow> global_option \<Rightarrow> vmstat_files \<Rightarrow>
     hugetlb_files \<Rightarrow> int \<Rightarrow> 'k \<Rightarrow> global_scan \<Rightarrow> ('k \<times> global_scan) run option" where
  "gs_walk_multi walk_op migrate_op locator opt vf hf nr_scans k g =
     do { r \<leftarrow> walk_scans walk_op migrate_op locator opt vf hf (nat nr_scans) 0 k (g\<lparr>nr_acceptable_scans := 0\<rparr>);
          Some (rbind r (\<lambda>(k, g). Inr (k, g\<lparr>nr_walks_done := nr_walks_done g + max 0 nr_scans\<rparr>))) }"

definition gs_migrate ::
    "'k range_op \<Rightarrow> 'k range_op \<Rightarrow> 'k \<Rightarrow> global_scan \<Rightarrow> ('k \<times> global_scan) run option" where
  "gs_migrate walk_op migrate_op k g =
     do { r \<leftarrow> run_jobs walk_op migrate_op JOB_MIGRATE (idle_ranges g) k;
          Some (rbind r (\<lambda>(k, ms). Inr (k, g\<lparr>idle_ranges := ms\<rparr>))) }"

text \<open>What \<open>main_loop\<close> does with the walks of a period when no progressive profile is asked for.\<close>

definition finish_period ::
    "'k range_op \<Rightarrow> 'k range_op \<Rightarrow> float_ops \<Rightarrow> global_option \<Rightarrow> 'k \<Rightarrow> global_scan \<Rightarrow> ('k \<times> global_scan) run option" where
  "finish_period walk_op migrate_op fo opt k g =
     do { r \<leftarrow> gs_count_refs g;
          case rbind r (\<lambda>g. rbind (calc_migrate_parameter fo opt (calc_memory_size fo g)) (calc_global_threshold fo opt)) of
            Inl e \<Rightarrow> Some (Inl e)
          | Inr g \<Rightarrow>
              do { r \<leftarrow> gs_migrate walk_op migrate_op k g;
                   case r of
                     Inl e \<Rightarrow> Some (Inl e)
                   | Inr (k, g) \<Rightarrow>
                       do { (report, g) \<leftarrow> calc_hotness_drifting opt (gs_count_migrate_stats g);
                            Some (Inr (k, save_context_last g)) } } }"

fun progressive_rounds ::
    "'k range_op \<Rightarrow> 'k range_op \<Rightarrow> int list \<Rightarrow> 'k \<Rightarrow> global_scan \<Rightarrow> ('k \<times> global_scan) run option" where
  "progressive_rounds walk_op migrate_op [] k g = Some (Inr (k, g))"
| "progressive_rounds walk_op migrate_op (i # is) k g =
     (case calc_progressive_profile_parameter REF_LOC_DRAM i g of
        Inl e \<Rightarrow> Some (Inl e)
      | Inr g \<Rightarrow>
          do { r \<leftarrow> gs_migrate walk_op migrate_op k g;
               case r of
                 Inl e \<Rightarrow> Some (Inl e)
               | Inr (k, g) \<Rightarrow> progressive_rounds walk_op migrate_op is k g })"

definition progressive_profile ::
    "'k range_op \<Rightarrow> 'k range_op \<Rightarrow> 'k \<Rightarrow> global_scan \<Rightarrow> ('k \<times> global_scan) run option" where
  "progressive_profile walk_op migrate_op k g =
     progressive_rounds walk_op migrate_op [0..nr_walks_done g - 1] k g"

end
