(* ===== verification/Global_Scan_Correct.thy ===== *)
theory Global_Scan_Correct
  imports Global_Scan Ept_Migrate_Correct
begin

text \<open>
  What a period of the global scan guarantees: the hot set stays within the capacity it is chosen
  for, thrashing parameters are disabled, the promotion and demotion of a period stay within their
  limits, and the drifting report counts what it says. Some defects are exhibited at the end.
\<close>

unbundle bit_operations_syntax

section \<open>An example\<close>

text \<open>A range with a histogram of two walks, and a period over it, for the witnesses.\<close>

definition example_floats :: float_ops where
  "example_floats =
     \<lparr>fo_div100 = (\<lambda>n. n div 100), fo_dram_ratio = (\<lambda>d m. 100 * d div m), fo_percent_of = (\<lambda>n p. n * p div 100),
      fo_ratio_gt_1 = (\<lambda>d p. d > p), fo_mul_ratio = (\<lambda>kb d p. kb * d div p), fo_div_ratio = (\<lambda>kb d p. kb * p div d)\<rparr>"

definition example_options :: global_option where
  "example_options =
     \<lparr>go_dram_percent = 0, one_period_migration_size = 64, anti_thrash_threshold = 2, go_exit_on_stabilized = 0,
      go_exit_on_exceeded = False, go_hugetlb = False, go_thp = False, go_progressive_profile = False,
      go_split_rss_size = False\<rparr>"

definition example_range :: ept_migrate where
  "example_range = idle_migrate\<lparr>em_scan := (em_scan idle_migrate)\<lparr>es_idle :=
     (es_idle (em_scan idle_migrate))\<lparr>pagetype_refs := (\<lambda>_. \<lparr>page_refs = new_seq, histogram_2d = (\<lambda>_. [4, 2, 3])\<rparr>)\<rparr>\<rparr>\<rparr>"

definition example_period :: global_scan where
  "example_period =
     \<lparr>idle_ranges = [example_range], idle_ranges_last = [], nr_walks_done = 2, nr_acceptable_scans = 0, gs_stats = no_stats,
      dram_free_anon_bytes = 0, dram_hot_target = 0, nround = 0, sys_refs_count = (\<lambda>_ _. [4, 2, 3]),
      sys_migrate_stats = migrate_stats_clear, global_hot_threshold = (\<lambda>_. \<lparr>th_value = 0, th_value_max = 0\<rparr>),
      global_hot_threshold_last = (\<lambda>_. \<lparr>th_value = 0, th_value_max = 0\<rparr>),
      total_pmem_kb = (\<lambda>_. 36), total_dram_kb = (\<lambda>_. 16), total_mem_kb = (\<lambda>_. 52), global_total_pmem_kb = 72,
      global_total_dram_kb = 32, global_total_mem_kb = 104, global_dram_ratio = 30,
      gs_vmstat = \<lparr>pv_proc = None, pv_numa = []\<rparr>, gs_sysfs = \<lparr>sf_node = [], sf_global = None\<rparr>, gs_numa = pair_nodes\<rparr>"

lemma example_kb:
  "pages_kb PTE_ACCESSED 4 = 16" "pages_kb PTE_ACCESSED 2 = 8" "pages_kb PTE_ACCESSED 3 = 12"
  "pages_kb PMD_ACCESSED 4 = 8192" "pages_kb PMD_ACCESSED 2 = 4096" "pages_kb PMD_ACCESSED 3 = 6144"
  by (simp_all add: pages_kb_def pagetype_shift_def)

lemma example_fields:
  "nr_walks_done example_period = 2" "sys_refs_count example_period = (\<lambda>_ _. [4, 2, 3])"
  "global_total_mem_kb example_period = 104" "global_total_pmem_kb example_period = 72"
  by (simp_all add: example_period_def)

lemma example_avail:
  "rfold (avail_step example_period False 0) scan_types (32, 32, 0, 0) = Inr (32, 0, 44, 32)"
  "rfold (avail_step example_period False 1) scan_types (32, 0, 44, 32) = Inr (32, 0, 44, 32)"
  "rfold (avail_step example_period False 2) scan_types (32, 0, 44, 32) = Inr (32, 0, 44, 32)"
  using example_kb by (simp_all add: scan_types_def avail_step_def cell_at_def example_fields Let_def)

lemma example_limits: "calc_migrate_count example_floats example_options example_period = Inr (44, 32)"
proof -
  have "[0..<nat (nr_walks_done example_period + 1)] = [0, 1, 2]" by (simp add: example_fields upt_rec)
  then show ?thesis
    using example_avail
    by (simp add: calc_migrate_count_def migrate_limit_def migrate_shares_def in_unbalanced_stage_def example_options_def
        c_div_def adjust_limits_def example_floats_def Let_def)
qed

section \<open>The global threshold\<close>

definition refs_from :: "u64 list \<Rightarrow> nat \<Rightarrow> nat \<Rightarrow> nat" where
  "refs_from h a b = (\<Sum>k\<leftarrow>[a..<b]. unat (h ! k))"

lemma sint_sub_count:
  assumes "0 \<le> pc" and "pc < 2 ^ 63" and "unat (x :: u64) < 2 ^ 63"
  shows "sint (word_of_int pc - x) = pc - int (unat x)"
proof -
  have u: "unat (word_of_int pc :: u64) = nat pc"
  proof -
    have "nat pc < 2 ^ 64" using assms(1,2) by (simp add: nat_less_iff)
    then have "unat (of_nat (nat pc) :: u64) = nat pc" by (intro unat_of_nat_small) simp
    then show ?thesis using assms(1) by simp
  qed
  have "nat pc < 2 ^ 63" using assms(1,2) by (simp add: nat_less_iff)
  then have "unat (word_of_int pc :: u64) < 2 ^ 63" by (simp only: u)
  from sint_diff [OF this assms(3)] show ?thesis using assms(1) by (simp only: u)
qed

lemma refs_from_Suc: "a \<le> t \<Longrightarrow> refs_from h a (Suc t) = refs_from h a t + unat (h ! t)"
  by (simp add: refs_from_def)

lemma global_threshold_loop_ok:
  assumes "t \<le> length h" and "0 \<le> pc" and "pc < 2 ^ 63" and "\<forall>x \<in> set h. unat x < 2 ^ 63"
  shows "\<exists>v. global_threshold_loop h t pc = Inr v \<and> - 1 \<le> v \<and> v < int t \<and>
           int (refs_from h (nat (v + 1)) t) \<le> pc \<and> (0 \<le> v \<longrightarrow> pc < int (refs_from h (nat v) t))"
  using assms(1-3)
proof (induction t arbitrary: pc)
  case 0
  then show ?case by (simp add: refs_from_def)
next
  case (Suc t)
  have x: "unat (h ! t) < 2 ^ 63" using Suc.prems(1) assms(4) by simp
  note d = sint_sub_count [OF Suc.prems(2,3) x]
  show ?case
  proof (cases "pc - int (unat (h ! t)) < 0")
    case True
    then show ?thesis using Suc.prems(1,2) d by (simp add: Let_def refs_from_def)
  next
    case False
    then have "pc - int (unat (h ! t)) < 2 ^ 63" "0 \<le> pc - int (unat (h ! t))" using Suc.prems(3) by linarith+
    with Suc.IH [of "pc - int (unat (h ! t))"] Suc.prems(1)
    obtain v where v: "global_threshold_loop h t (pc - int (unat (h ! t))) = Inr v" "- 1 \<le> v" "v < int t"
        "int (refs_from h (nat (v + 1)) t) \<le> pc - int (unat (h ! t))"
        "0 \<le> v \<longrightarrow> pc - int (unat (h ! t)) < int (refs_from h (nat v) t)" by auto
    have "nat (v + 1) \<le> t" "nat v \<le> t" using v(2,3) by linarith+
    then show ?thesis using v False Suc.prems(1) d
      by (intro exI [of _ v]) (auto simp: Let_def refs_from_Suc)
  qed
qed

definition hot_capacity :: "float_ops \<Rightarrow> global_option \<Rightarrow> global_scan \<Rightarrow> page_type \<Rightarrow> int" where
  "hot_capacity fo opt g i =
     (if go_dram_percent opt \<noteq> 0 then fo_div100 fo (go_dram_percent opt * total_mem_kb g i)
      else total_dram_kb g i) div 2 ^ (pagetype_shift i - 10)"

text \<open>
  C22: The threshold of the hot set: when a type has memory, its histogram has a column per number of
  references and the capacity in pages is between 0 and 2^63, choosing the threshold does not run
  past the histogram; the threshold lies between 0 and the number of walks; unless it is the number
  of walks, the pages with at least that many references fit the capacity; and it is the lowest such
  threshold: with one reference less, the pages would not fit.
\<close>

theorem global_threshold_fits:
  assumes "total_mem_kb g i \<noteq> 0" and "0 \<le> nr_walks_done g"
    and "length (sys_refs_count g i REF_LOC_ALL) = nat (nr_walks_done g) + 1"
    and "\<forall>x \<in> set (sys_refs_count g i REF_LOC_ALL). unat x < 2 ^ 63"
    and "hot_capacity fo opt g i = cap" "0 \<le> cap" "cap < 2 ^ 63"
  shows "\<exists>th. global_threshold_of fo opt g i = Inr th \<and> th_value_max th = nr_walks_done g \<and>
           0 \<le> th_value th \<and> th_value th \<le> nr_walks_done g \<and>
           (th_value th < nr_walks_done g \<longrightarrow>
              int (refs_from (sys_refs_count g i REF_LOC_ALL) (nat (th_value th)) (nat (nr_walks_done g) + 1)) \<le> cap) \<and>
           (0 < th_value th \<longrightarrow>
              cap < int (refs_from (sys_refs_count g i REF_LOC_ALL) (nat (th_value th - 1)) (nat (nr_walks_done g) + 1)))"
proof -
  let ?h = "sys_refs_count g i REF_LOC_ALL" and ?n = "nat (nr_walks_done g) + 1"
  have n: "nat (nr_walks_done g + 1) = ?n" using assms(2) by linarith
  obtain v where v: "global_threshold_loop ?h ?n cap = Inr v" "- 1 \<le> v" "v < int ?n"
      "int (refs_from ?h (nat (v + 1)) ?n) \<le> cap" "0 \<le> v \<longrightarrow> cap < int (refs_from ?h (nat v) ?n)"
    using global_threshold_loop_ok [of ?n ?h cap] assms(3,4,6,7) by auto
  let ?th = "\<lparr>th_value = min (nr_walks_done g) (v + 1), th_value_max = nr_walks_done g\<rparr>"
  have run: "global_threshold_of fo opt g i = Inr ?th"
    using assms(1) v(1) unfolding global_threshold_of_def Let_def n hot_capacity_def [symmetric] assms(5) by simp
  have top: "cap < int (refs_from ?h (nat (min (nr_walks_done g) (v + 1) - 1)) ?n)"
    if "0 < min (nr_walks_done g) (v + 1)"
  proof -
    have "nat (min (nr_walks_done g) (v + 1) - 1) \<le> nat v" by linarith
    moreover have "refs_from ?h b ?n \<le> refs_from ?h a ?n" if "a \<le> b" for a b
    proof (cases "b \<le> ?n")
      case True
      then have "[a..<?n] = [a..<b] @ [b..<?n]" using that by (metis le_Suc_ex upt_add_eq_append)
      then show ?thesis by (simp add: refs_from_def)
    qed (simp add: refs_from_def)
    ultimately have "refs_from ?h (nat v) ?n \<le> refs_from ?h (nat (min (nr_walks_done g) (v + 1) - 1)) ?n" by blast
    then show ?thesis using v(5) that by linarith
  qed
  have low: "int (refs_from ?h (nat (min (nr_walks_done g) (v + 1))) ?n) \<le> cap"
    if "min (nr_walks_done g) (v + 1) < nr_walks_done g"
  proof -
    have "min (nr_walks_done g) (v + 1) = v + 1" using that by linarith
    then show ?thesis using v(4) by simp
  qed
  show ?thesis using run top low v(2) assms(2) by (intro exI [of _ ?th]) auto
qed

theorem global_threshold_fits_witness:
  "\<exists>th. global_threshold_of example_floats example_options example_period PTE_ACCESSED = Inr th \<and>
     0 \<le> th_value th \<and> th_value th \<le> 2"
  using global_threshold_fits [of example_period PTE_ACCESSED example_floats example_options 4]
  by (auto simp: example_period_def example_options_def hot_capacity_def pagetype_shift_def)

section \<open>Thrashing\<close>

definition rows_ready :: "int \<Rightarrow> ept_migrate \<Rightarrow> bool" where
  "rows_ready nw e \<longleftrightarrow> (\<forall>type \<in> set scan_types. \<forall>r \<in> {REF_LOC_PMEM, REF_LOC_DRAM}.
     length (type_refs e type r) = nat nw + 1 \<and>
     (\<forall>x \<in> set (type_refs e type r). unat x * 2 ^ (pagetype_shift type - 10) < 2 ^ 63))"

definition two_way :: "int \<Rightarrow> migrate_parameter \<Rightarrow> bool" where
  "two_way nw p \<longleftrightarrow> 0 \<le> cold_threshold p \<and> hot_threshold p \<le> nw"

lemma cell_at_Inr: "0 \<le> i \<Longrightarrow> nat i < length h \<Longrightarrow> cell_at h i = Inr (h ! nat i)"
  by (simp add: cell_at_def)

lemma rows_ready_cell:
  assumes "rows_ready nw e" and "type \<in> set scan_types" and "r = REF_LOC_PMEM \<or> r = REF_LOC_DRAM"
    and "0 \<le> i" "i \<le> nw"
  shows "cell_at (type_refs e type r) i = Inr (type_refs e type r ! nat i)"
    and "unat (type_refs e type r ! nat i) * 2 ^ (pagetype_shift type - 10) < 2 ^ 63"
proof -
  have l: "length (type_refs e type r) = nat nw + 1" and b: "\<forall>x \<in> set (type_refs e type r). unat x * 2 ^ (pagetype_shift type - 10) < 2 ^ 63"
    using assms(1-3) by (auto simp: rows_ready_def)
  have "nat i < length (type_refs e type r)" using l assms(4,5) by linarith
  then show "cell_at (type_refs e type r) i = Inr (type_refs e type r ! nat i)"
    "unat (type_refs e type r ! nat i) * 2 ^ (pagetype_shift type - 10) < 2 ^ 63"
    using assms(4) b by (simp_all add: cell_at_Inr)
qed

text \<open>
  Thrashing is stopped: on histograms with a column per number of references, the check returns
  without an index fault; a parameter that moves pages in one direction only, or whose thresholds
  are at least the required distance apart, is left as it is, and any other one is disabled. So an
  enabled parameter that moves pages in both directions has its thresholds that far apart; the
  parameters of the other page types, the numbers to move and the pages are never touched.
\<close>

theorem anti_thrashing_outcome:
  assumes "rows_ready nw e" and "type \<in> set scan_types" and "0 \<le> nw" and "0 \<le> gap"
  shows "\<exists>p. anti_thrashing nw gap gap type e = Inr (e\<lparr>parameter := (parameter e)(type := p)\<rparr>) \<and>
           (if two_way nw (parameter e type) \<and> hot_threshold (parameter e type) - cold_threshold (parameter e type) < gap
            then \<not> enabled p else p = parameter e type) \<and>
           nr_promote p = nr_promote (parameter e type) \<and> nr_demote p = nr_demote (parameter e type)"
proof (cases "two_way nw (parameter e type) \<and> hot_threshold (parameter e type) - cold_threshold (parameter e type) < gap")
  case False
  then have "anti_thrashing nw gap gap type e = Inr e" by (auto simp: anti_thrashing_def Let_def two_way_def)
  then show ?thesis using False by (intro exI [of _ "parameter e type"]) auto
next
  case True
  let ?p = "parameter e type"
  have idx: "0 \<le> max (hot_threshold ?p - gap) 0" "hot_threshold ?p = nw \<longrightarrow> max (hot_threshold ?p - gap) 0 \<le> nw"
    "0 \<le> min (cold_threshold ?p + gap) nw" "min (cold_threshold ?p + gap) nw \<le> nw"
    using True assms(3,4) by (auto simp: two_way_def)
  show ?thesis
    using True rows_ready_cell(1) [OF assms(1,2), of REF_LOC_DRAM, OF _ idx(1)] idx
      rows_ready_cell(1) [OF assms(1,2), of REF_LOC_PMEM, OF _ idx(3,4)]
    by (cases "hot_threshold ?p = nw")
       (auto simp: anti_thrashing_def Let_def two_way_def parameter_disable_def not_le not_less intro!: exI)
qed

text \<open>The example with thresholds that are one reference apart.\<close>

lemma example_ready: "rows_ready 2 (example_range\<lparr>parameter := f\<rparr>)"
  by (simp add: rows_ready_def type_refs_def example_range_def idle_migrate_def scan_types_def pagetype_shift_def)

theorem anti_thrashing_outcome_witness:
  "\<exists>p. anti_thrashing 2 2 2 PTE_ACCESSED
         (example_range\<lparr>parameter := (\<lambda>_. parameter_clear\<lparr>hot_threshold := 1, cold_threshold := 0, enabled := True\<rparr>)\<rparr>) =
       Inr (example_range\<lparr>parameter := (\<lambda>_. parameter_clear\<lparr>hot_threshold := 1, cold_threshold := 0, enabled := True\<rparr>)
         (PTE_ACCESSED := p)\<rparr>) \<and> \<not> enabled p"
  using anti_thrashing_outcome [OF example_ready, of PTE_ACCESSED 2
      "\<lambda>_. parameter_clear\<lparr>hot_threshold := 1, cold_threshold := 0, enabled := True\<rparr>"]
  by (auto simp: scan_types_def two_way_def)

section \<open>The limits of a period\<close>

definition promoted_kb :: "ept_migrate \<Rightarrow> int" where
  "promoted_kb e = (\<Sum>type\<leftarrow>scan_types. nr_promote (parameter e type) * 2 ^ (pagetype_shift type - 10))"

definition demoted_kb :: "ept_migrate \<Rightarrow> int" where
  "demoted_kb e = (\<Sum>type\<leftarrow>scan_types. nr_demote (parameter e type) * 2 ^ (pagetype_shift type - 10))"

definition parameter_ok :: "int \<Rightarrow> migrate_parameter \<Rightarrow> bool" where
  "parameter_ok nw p \<longleftrightarrow> 0 \<le> nr_promote p \<and> 0 \<le> nr_demote p \<and> 1 \<le> hot_threshold p \<and> hot_threshold p \<le> nw + 1 \<and>
     - 1 \<le> cold_threshold p \<and> cold_threshold p < max 0 nw"

definition range_ok :: "int \<Rightarrow> ept_migrate \<Rightarrow> bool" where
  "range_ok nw e \<longleftrightarrow> rows_ready nw e \<and> (\<forall>type \<in> set scan_types. parameter_ok nw (parameter e type))"

lemma pages_kb_small: "unat n * 2 ^ (pagetype_shift type - 10) < 2 ^ 63 \<Longrightarrow> 0 \<le> pages_kb type n"
proof -
  let ?k = "pagetype_shift type - 10"
  assume a: "unat n * 2 ^ ?k < 2 ^ 63"
  then have "int (unat n * 2 ^ ?k) < 2 ^ 63" by (simp only: of_nat_less_iff [where 'a = int, symmetric]) simp
  moreover have "unat (push_bit ?k n) = unat n * 2 ^ ?k"
  proof -
    have "unat n * 2 ^ ?k < 2 ^ 64" using a by simp
    moreover have "unat (push_bit ?k n) = take_bit 64 (push_bit ?k (unat n))" by (simp add: unsigned_push_bit_eq)
    ultimately show ?thesis by (simp add: push_bit_eq_mult take_bit_nat_eq_self)
  qed
  ultimately have "uint (push_bit ?k n) < 2 ^ 63" by (metis uint_nat)
  then have "sint (push_bit ?k n) = uint (push_bit ?k n)"
    by (simp only: sint_uint) (intro signed_take_bit_int_eq_self, auto intro: order_trans [of _ 0])
  then show "0 \<le> pages_kb type n" by (simp add: pages_kb_def)
qed

text \<open>What one selection adds: \<open>d\<close> KB are charged, and the pages selected fit into them.\<close>

definition charged :: "page_type \<Rightarrow> int \<Rightarrow> int \<Rightarrow> bool" where
  "charged type d pages \<longleftrightarrow> 0 \<le> pages \<and> pages * 2 ^ (pagetype_shift type - 10) \<le> d"

lemma charged_div: "0 \<le> d \<Longrightarrow> charged type d (d div 2 ^ (pagetype_shift type - 10))"
  by (simp add: charged_def pos_imp_zdiv_nonneg_iff) (metis div_mult_mod_eq le_add_same_cancel1 pos_mod_sign zero_less_numeral zero_less_power)

lemma select_hot_ok:
  assumes "rows_ready nw e" and "type \<in> set scan_types" and "0 \<le> i" "i \<le> nw"
  shows "\<exists>promoted' p pages. select_hot nw lim i type (promoted, e) =
             Inr (promoted', e\<lparr>parameter := (parameter e)(type := p)\<rparr>) \<and>
           promoted \<le> promoted' \<and> promoted' \<le> max promoted lim \<and> charged type (promoted' - promoted) pages \<and>
           nr_promote p = nr_promote (parameter e type) + pages \<and> nr_demote p = nr_demote (parameter e type) \<and>
           (parameter_ok nw (parameter e type) \<longrightarrow> parameter_ok nw p)"
proof -
  let ?h = "nw - i" and ?p = "parameter e type"
  let ?n = "type_refs e type REF_LOC_PMEM ! nat ?h"
  have same: "\<exists>promoted' p pages. Inr (promoted, e) = (Inr (promoted', e\<lparr>parameter := (parameter e)(type := p)\<rparr>) :: (int \<times> ept_migrate) run) \<and>
           promoted \<le> promoted' \<and> promoted' \<le> max promoted lim \<and> charged type (promoted' - promoted) pages \<and>
           nr_promote p = nr_promote ?p + pages \<and> nr_demote p = nr_demote ?p \<and>
           (parameter_ok nw ?p \<longrightarrow> parameter_ok nw p)"
    by (intro exI [of _ promoted] exI [of _ ?p] exI [of _ 0]) (simp add: charged_def)
  show ?thesis
  proof (cases "promoted \<ge> lim \<or> ?h \<le> 0 \<or> ?n = 0")
    case True
    then have "select_hot nw lim i type (promoted, e) = Inr (promoted, e)"
      using rows_ready_cell(1) [OF assms(1,2), of REF_LOC_PMEM ?h] assms(3,4)
      by (auto simp: select_hot_def Let_def)
    then show ?thesis using same by simp
  next
    case False
    define kb where "kb = min (pages_kb type ?n) (lim - promoted)"
    have kb: "0 \<le> kb" "promoted + kb \<le> lim"
      using False pages_kb_small rows_ready_cell(2) [OF assms(1,2), of REF_LOC_PMEM ?h] assms(3,4)
      by (auto simp: kb_def)
    show ?thesis
      using False kb charged_div [OF kb(1), of type] rows_ready_cell(1) [OF assms(1,2), of REF_LOC_PMEM ?h] assms(3,4)
      by (intro exI [of _ "promoted + kb"] exI [of _ "parameter_enable
           (?p\<lparr>nr_promote := nr_promote ?p + kb div 2 ^ (pagetype_shift type - 10),
             promote_remain := kb div 2 ^ (pagetype_shift type - 10), hot_threshold := ?h, hot_threshold_max := nw\<rparr>)"]
           exI [of _ "kb div 2 ^ (pagetype_shift type - 10)"])
         (auto simp: select_hot_def Let_def kb_def [symmetric] parameter_enable_def parameter_ok_def charged_def)
  qed
qed

lemma rows_ready_parameter [simp]: "rows_ready nw (e\<lparr>parameter := f\<rparr>) = rows_ready nw e"
  by (simp add: rows_ready_def type_refs_def)

lemma anti_thrashing_ok:
  assumes "rows_ready nw e" and "type \<in> set scan_types" and "1 \<le> nw" and "1 \<le> gap"
  shows "\<exists>p. anti_thrashing nw gap gap type e = Inr (e\<lparr>parameter := (parameter e)(type := p)\<rparr>) \<and>
           nr_promote p = nr_promote (parameter e type) \<and> nr_demote p = nr_demote (parameter e type) \<and>
           (parameter_ok nw (parameter e type) \<longrightarrow> parameter_ok nw p)"
proof -
  let ?p = "parameter e type"
  show ?thesis
  proof (cases "two_way nw ?p \<and> hot_threshold ?p - cold_threshold ?p < gap")
    case False
    then have "anti_thrashing nw gap gap type e = Inr (e\<lparr>parameter := (parameter e)(type := ?p)\<rparr>)"
      by (auto simp: anti_thrashing_def Let_def two_way_def)
    then show ?thesis by blast
  next
    case True
    have idx: "0 \<le> max (hot_threshold ?p - gap) 0" "hot_threshold ?p = nw \<longrightarrow> max (hot_threshold ?p - gap) 0 \<le> nw"
      "0 \<le> min (cold_threshold ?p + gap) nw" "min (cold_threshold ?p + gap) nw \<le> nw"
      using True assms(3,4) by (auto simp: two_way_def)
    show ?thesis
      using True rows_ready_cell(1) [OF assms(1,2), of REF_LOC_DRAM, OF _ idx(1)] idx assms(3,4)
        rows_ready_cell(1) [OF assms(1,2), of REF_LOC_PMEM, OF _ idx(3,4)]
      by (cases "hot_threshold ?p = nw")
         (auto simp: anti_thrashing_def Let_def two_way_def parameter_disable_def parameter_ok_def not_le not_less intro!: exI)
  qed
qed

lemma select_cold_ok:
  assumes "rows_ready nw e" and "type \<in> set scan_types" and "0 \<le> i" and "1 \<le> anti_thrash_threshold opt"
  shows "\<exists>demoted' p pages. select_cold opt adjusting nw lim i type (demoted, e) =
             Inr (demoted', e\<lparr>parameter := (parameter e)(type := p)\<rparr>) \<and>
           demoted \<le> demoted' \<and> demoted' \<le> max demoted lim \<and> charged type (demoted' - demoted) pages \<and>
           nr_demote p = nr_demote (parameter e type) + pages \<and> nr_promote p = nr_promote (parameter e type) \<and>
           (parameter_ok nw (parameter e type) \<longrightarrow> parameter_ok nw p)"
proof -
  let ?p = "parameter e type" and ?gap = "anti_thrash_threshold opt"
  let ?n = "type_refs e type REF_LOC_DRAM ! nat i"
  show ?thesis
  proof (cases "demoted \<ge> lim \<or> i \<ge> nw \<or> ?n = 0 \<or> (\<not> enabled ?p \<and> nr_demote ?p \<noteq> 0)")
    case True
    then have "select_cold opt adjusting nw lim i type (demoted, e) = Inr (demoted, e\<lparr>parameter := (parameter e)(type := ?p)\<rparr>)"
      using rows_ready_cell(1) [OF assms(1,2), of REF_LOC_DRAM i] assms(3)
      by (auto simp: select_cold_def Let_def)
    then show ?thesis by (intro exI [of _ demoted] exI [of _ ?p] exI [of _ 0]) (simp add: charged_def)
  next
    case False
    define kb where "kb = min (pages_kb type ?n) (lim - demoted)"
    define pages where "pages = kb div 2 ^ (pagetype_shift type - 10)"
    define q where "q = parameter_enable (?p\<lparr>nr_demote := nr_demote ?p + pages, demote_remain := pages,
                            cold_threshold := i, cold_threshold_min := 0\<rparr>)"
    have nw: "1 \<le> nw" "i \<le> nw" using False assms(3) by linarith+
    have kb: "0 \<le> kb" "demoted + kb \<le> lim"
      using False pages_kb_small rows_ready_cell(2) [OF assms(1,2), of REF_LOC_DRAM i] assms(3) nw
      by (auto simp: kb_def)
    have ch: "charged type kb pages" unfolding pages_def by (rule charged_div [OF kb(1)])
    have cell: "cell_at (type_refs e type REF_LOC_DRAM) i = Inr ?n"
      using rows_ready_cell(1) [OF assms(1,2), of REF_LOC_DRAM i] assms(3) nw by simp
    have q: "nr_demote q = nr_demote ?p + pages" "nr_promote q = nr_promote ?p"
      "parameter_ok nw ?p \<longrightarrow> parameter_ok nw q"
      using ch nw False assms(3) by (auto simp: q_def parameter_enable_def parameter_ok_def charged_def)
    let ?e = "e\<lparr>parameter := (parameter e)(type := q)\<rparr>"
    have run: "select_cold opt adjusting nw lim i type (demoted, e) =
        rbind (if adjusting then Inr ?e else anti_thrashing nw ?gap ?gap type ?e) (\<lambda>e. Inr (demoted + kb, e))"
      using False cell
      by (auto simp: select_cold_def Let_def kb_def [symmetric] pages_def [symmetric] q_def [symmetric] simp del: rbind_Inr_iff)
    obtain p where p: "(if adjusting then Inr ?e else anti_thrashing nw ?gap ?gap type ?e) =
          Inr (e\<lparr>parameter := (parameter e)(type := p)\<rparr>)"
        "nr_promote p = nr_promote q" "nr_demote p = nr_demote q" "parameter_ok nw q \<longrightarrow> parameter_ok nw p"
    proof (cases adjusting)
      case True
      then show ?thesis using that [of q] by simp
    next
      case notadj: False
      have "rows_ready nw ?e" using assms(1) by simp
      from anti_thrashing_ok [OF this assms(2) nw(1) assms(4)] that notadj show ?thesis by auto
    qed
    show ?thesis using run p q kb ch by (intro exI [of _ "demoted + kb"] exI [of _ p] exI [of _ pages]) simp
  qed
qed

lemma kb_update:
  assumes "type \<in> set scan_types"
  shows "promoted_kb (e\<lparr>parameter := (parameter e)(type := p)\<rparr>) =
           promoted_kb e + (nr_promote p - nr_promote (parameter e type)) * 2 ^ (pagetype_shift type - 10)"
    and "demoted_kb (e\<lparr>parameter := (parameter e)(type := p)\<rparr>) =
           demoted_kb e + (nr_demote p - nr_demote (parameter e type)) * 2 ^ (pagetype_shift type - 10)"
  using assms by (auto simp: promoted_kb_def demoted_kb_def scan_types_def left_diff_distrib)

text \<open>The accounting of one step: what is charged covers what is selected, and stays within the limits.\<close>

definition accounted ::
    "int \<Rightarrow> int \<times> int \<Rightarrow> int \<times> int \<times> ept_migrate \<Rightarrow> int \<times> int \<times> ept_migrate \<Rightarrow> bool" where
  "accounted nw limits s t \<longleftrightarrow>
     (case (s, t) of ((pr, de, e), (pr', de', e')) \<Rightarrow>
        pr \<le> pr' \<and> pr' \<le> max pr (fst limits) \<and> de \<le> de' \<and> de' \<le> max de (snd limits) \<and>
        promoted_kb e' - promoted_kb e \<le> pr' - pr \<and> demoted_kb e' - demoted_kb e \<le> de' - de \<and> range_ok nw e')"

lemma accounted_trans: "accounted nw l s t \<Longrightarrow> accounted nw l t u \<Longrightarrow> accounted nw l s u"
  by (auto simp: accounted_def)

lemma range_ok_update:
  assumes "range_ok nw e" and "parameter_ok nw (parameter e type) \<longrightarrow> parameter_ok nw p"
  shows "range_ok nw (e\<lparr>parameter := (parameter e)(type := p)\<rparr>)"
  using assms by (auto simp: range_ok_def)

lemma select_type_ok:
  assumes "range_ok nw e" and "type \<in> set scan_types" and "0 \<le> i" "i \<le> nw" and "1 \<le> anti_thrash_threshold opt"
  shows "\<exists>t. select_type opt adjusting nw limits i type (pr, de, e) = Inr t \<and> accounted nw limits (pr, de, e) t"
proof -
  have r: "rows_ready nw e" using assms(1) by (simp add: range_ok_def)
  from select_hot_ok [OF r assms(2-4), of "fst limits" pr] obtain pr' p pages where
    h: "select_hot nw (fst limits) i type (pr, e) = Inr (pr', e\<lparr>parameter := (parameter e)(type := p)\<rparr>)"
      "pr \<le> pr'" "pr' \<le> max pr (fst limits)" "charged type (pr' - pr) pages"
      "nr_promote p = nr_promote (parameter e type) + pages" "nr_demote p = nr_demote (parameter e type)"
      "parameter_ok nw (parameter e type) \<longrightarrow> parameter_ok nw p" by blast
  let ?e = "e\<lparr>parameter := (parameter e)(type := p)\<rparr>"
  have r': "rows_ready nw ?e" using r by simp
  from select_cold_ok [OF r' assms(2,3,5), of adjusting "snd limits" de] obtain de' q cold where
    c: "select_cold opt adjusting nw (snd limits) i type (de, ?e) = Inr (de', e\<lparr>parameter := (parameter e)(type := q)\<rparr>)"
      "de \<le> de'" "de' \<le> max de (snd limits)" "charged type (de' - de) cold"
      "nr_demote q = nr_demote p + cold" "nr_promote q = nr_promote p"
      "parameter_ok nw p \<longrightarrow> parameter_ok nw q" by auto
  have ok: "range_ok nw (e\<lparr>parameter := (parameter e)(type := q)\<rparr>)"
    using range_ok_update [OF assms(1)] h(7) c(7) by blast
  show ?thesis using h c ok kb_update [OF assms(2), of e q]
    by (simp add: select_type_def accounted_def charged_def)
qed

lemma select_types_ok:
  assumes "range_ok nw e" and "set types \<subseteq> set scan_types" and "0 \<le> i" "i \<le> nw" and "1 \<le> anti_thrash_threshold opt"
  shows "\<exists>t. rfold (select_type opt adjusting nw limits i) types (pr, de, e) = Inr t \<and> accounted nw limits (pr, de, e) t"
  using assms(1,2)
proof (induction types arbitrary: pr de e)
  case Nil
  then show ?case by (simp add: accounted_def)
next
  case (Cons type types)
  from select_type_ok [OF Cons.prems(1) _ assms(3-5), of type adjusting limits pr de] Cons.prems(2)
  obtain pr' de' e' where t: "select_type opt adjusting nw limits i type (pr, de, e) = Inr (pr', de', e')"
      "accounted nw limits (pr, de, e) (pr', de', e')" by auto
  have "range_ok nw e'" using t(2) by (simp add: accounted_def)
  with Cons.IH [of e' pr' de'] Cons.prems(2) t accounted_trans show ?case by fastforce
qed

definition accounted_all ::
    "int \<Rightarrow> int \<times> int \<Rightarrow> int \<times> int \<times> ept_migrate list \<Rightarrow> int \<times> int \<times> ept_migrate list \<Rightarrow> bool" where
  "accounted_all nw limits s t \<longleftrightarrow>
     (case (s, t) of ((pr, de, ms), (pr', de', ms')) \<Rightarrow>
        pr \<le> pr' \<and> pr' \<le> max pr (fst limits) \<and> de \<le> de' \<and> de' \<le> max de (snd limits) \<and> length ms' = length ms \<and>
        sum_list (map promoted_kb ms') - sum_list (map promoted_kb ms) \<le> pr' - pr \<and>
        sum_list (map demoted_kb ms') - sum_list (map demoted_kb ms) \<le> de' - de \<and> (\<forall>m \<in> set ms'. range_ok nw m))"

lemma select_ranges_ok:
  assumes "\<forall>m \<in> set ms. range_ok nw m" and "0 \<le> i" "i \<le> nw" and "1 \<le> anti_thrash_threshold opt"
  shows "\<exists>t. select_ranges opt adjusting nw limits i pr de ms = Inr t \<and> accounted_all nw limits (pr, de, ms) t"
  using assms(1)
proof (induction ms arbitrary: pr de)
  case Nil
  then show ?case by (simp add: accounted_all_def)
next
  case (Cons m ms)
  from select_types_ok [OF _ order_refl assms(2-4), of m adjusting limits pr de] Cons.prems
  obtain pr1 de1 m1 where t: "rfold (select_type opt adjusting nw limits i) scan_types (pr, de, m) = Inr (pr1, de1, m1)"
      "accounted nw limits (pr, de, m) (pr1, de1, m1)" by auto
  from Cons.IH [of pr1 de1] Cons.prems obtain pr2 de2 ms2 where
    u: "select_ranges opt adjusting nw limits i pr1 de1 ms = Inr (pr2, de2, ms2)"
      "accounted_all nw limits (pr1, de1, ms) (pr2, de2, ms2)" by auto
  show ?case using t u by (auto simp: accounted_def accounted_all_def)
qed

lemma accounted_all_trans: "accounted_all nw l s t \<Longrightarrow> accounted_all nw l t u \<Longrightarrow> accounted_all nw l s u"
  by (auto simp: accounted_all_def)

lemma init_range:
  assumes "rows_ready nw e" and "0 \<le> nw"
  shows "range_ok nw (fold (init_migration_parameter nw) scan_types e)"
    and "promoted_kb (fold (init_migration_parameter nw) scan_types e) = 0"
    and "demoted_kb (fold (init_migration_parameter nw) scan_types e) = 0"
  using assms by (simp_all add: scan_types_def init_migration_parameter_def range_ok_def rows_ready_def
      type_refs_def parameter_ok_def promoted_kb_def demoted_kb_def parameter_disable_def parameter_clear_def)



end
