(* ===== verification/Drift_Correct.thy ===== *)
theory Drift_Correct
  imports Global_Scan Ept_Migrate_Correct
begin

text \<open>
  The drifting report of \<open>GlobalScan.cc\<close>: the merge of the normalised pages of two periods against a
  reference on sets of addresses.
\<close>

unbundle bit_operations_syntax

section \<open>The reference\<close>

type_synonym page_item = "u64 \<times> u8 \<times> int"

definition hot_set :: "page_item list \<Rightarrow> u64 set" where
  "hot_set xs = {a. \<exists>nid. (a, 1, nid) \<in> set xs}"

definition stable_pages :: "page_item list \<Rightarrow> page_item list \<Rightarrow> u64 set" where
  "stable_pages xs ys = hot_set xs \<inter> hot_set ys"

text \<open>Hot in one period only, and not behind the last page of the other.\<close>

definition unstable_pages :: "page_item list \<Rightarrow> page_item list \<Rightarrow> u64 set" where
  "unstable_pages xs ys =
     {a \<in> hot_set xs - hot_set ys. \<exists>y \<in> set ys. a \<le> fst y} \<union> {a \<in> hot_set ys - hot_set xs. \<exists>x \<in> set xs. a \<le> fst x}"

fun drift_merge :: "page_item list \<Rightarrow> page_item list \<Rightarrow> nat \<times> nat" where
  "drift_merge ((a, h, n) # xs) ((b, k, m) # ys) =
     (if a < b then (let (s, u) = drift_merge xs ((b, k, m) # ys) in (s, if h = 1 then Suc u else u))
      else if b < a then (let (s, u) = drift_merge ((a, h, n) # xs) ys in (s, if k = 1 then Suc u else u))
      else (let (s, u) = drift_merge xs ys
            in (if h = 1 \<and> k = 1 then Suc s else s, if (h = 1) \<noteq> (k = 1) then Suc u else u)))"
| "drift_merge _ _ = (0, 0)"

definition addr_ascending :: "page_item list \<Rightarrow> bool" where
  "addr_ascending xs = sorted_wrt (<) (map fst xs)"

lemma finite_hot [simp]: "finite (hot_set xs)"
  by (rule finite_subset [of _ "fst ` set xs"]) (force simp: hot_set_def)+

lemma finite_unstable [simp]: "finite (unstable_pages xs ys)" "finite (stable_pages xs ys)"
  by (simp_all add: unstable_pages_def stable_pages_def)

lemma hot_set_Cons: "hot_set ((a, h, n) # xs) = (if h = 1 then insert a (hot_set xs) else hot_set xs)"
  by (auto simp: hot_set_def)

lemma hot_set_addr: "a \<in> hot_set xs \<Longrightarrow> \<exists>x \<in> set xs. a = fst x"
  by (force simp: hot_set_def)

lemma addr_ascending_Cons: "addr_ascending ((a, h, n) # xs) \<longleftrightarrow> (\<forall>x \<in> set xs. a < fst x) \<and> addr_ascending xs"
  by (auto simp: addr_ascending_def)

lemma unstable_sym: "unstable_pages xs ys = unstable_pages ys xs"
  by (auto simp: unstable_pages_def)

lemma unstable_less:
  assumes "addr_ascending ((a, h, n) # xs)" and "addr_ascending ((b, k, m) # ys)" and "a < b"
  shows "unstable_pages ((a, h, n) # xs) ((b, k, m) # ys) =
           (if h = 1 then insert a (unstable_pages xs ((b, k, m) # ys)) else unstable_pages xs ((b, k, m) # ys))"
    and "a \<notin> unstable_pages xs ((b, k, m) # ys)"
    and "stable_pages ((a, h, n) # xs) ((b, k, m) # ys) = stable_pages xs ((b, k, m) # ys)"
proof -
  let ?ys = "(b, k, m) # ys"
  have hy: "\<forall>c \<in> hot_set ?ys. a < c"
    using assms(2,3) by (fastforce dest!: hot_set_addr simp: addr_ascending_Cons)
  have hx: "\<forall>c \<in> hot_set xs. a < c" using assms(1) by (auto dest!: hot_set_addr simp: addr_ascending_Cons)
  have "{c \<in> hot_set ?ys - hot_set ((a, h, n) # xs). \<exists>x \<in> set ((a, h, n) # xs). c \<le> fst x} =
      {c \<in> hot_set ?ys - hot_set xs. \<exists>x \<in> set xs. c \<le> fst x}"
    using hy by (auto simp: hot_set_Cons split: if_splits)
  moreover have "{c \<in> hot_set ((a, h, n) # xs) - hot_set ?ys. \<exists>y \<in> set ?ys. c \<le> fst y} =
      (if h = 1 then insert a {c \<in> hot_set xs - hot_set ?ys. \<exists>y \<in> set ?ys. c \<le> fst y}
       else {c \<in> hot_set xs - hot_set ?ys. \<exists>y \<in> set ?ys. c \<le> fst y})"
    using hy assms(3) by (auto simp: hot_set_Cons [of a])
  ultimately show "unstable_pages ((a, h, n) # xs) ?ys =
      (if h = 1 then insert a (unstable_pages xs ?ys) else unstable_pages xs ?ys)"
    by (simp add: unstable_pages_def)
  show "a \<notin> unstable_pages xs ?ys" using hx hy by (auto simp: unstable_pages_def)
  show "stable_pages ((a, h, n) # xs) ?ys = stable_pages xs ?ys"
    using hy by (auto simp: stable_pages_def hot_set_Cons [of a])
qed

lemma unstable_equal:
  assumes "addr_ascending ((a, h, n) # xs)" and "addr_ascending ((a, k, m) # ys)"
  shows "unstable_pages ((a, h, n) # xs) ((a, k, m) # ys) =
           (if (h = 1) \<noteq> (k = 1) then insert a (unstable_pages xs ys) else unstable_pages xs ys)"
    and "stable_pages ((a, h, n) # xs) ((a, k, m) # ys) =
           (if h = 1 \<and> k = 1 then insert a (stable_pages xs ys) else stable_pages xs ys)"
    and "a \<notin> unstable_pages xs ys" and "a \<notin> stable_pages xs ys"
proof -
  have hx: "\<forall>c \<in> hot_set xs. a < c" and hy: "\<forall>c \<in> hot_set ys. a < c"
    using assms by (fastforce dest!: hot_set_addr simp: addr_ascending_Cons)+
  have drop: "{c \<in> hot_set xs - (if q then insert a (hot_set ys) else hot_set ys). \<exists>y \<in> set ((a, k, m) # ys). c \<le> fst y} =
      {c \<in> hot_set xs - hot_set ys. \<exists>y \<in> set ys. c \<le> fst y}" for q
    using hx by auto
  have drop': "{c \<in> hot_set ys - (if q then insert a (hot_set xs) else hot_set xs). \<exists>x \<in> set ((a, h, n) # xs). c \<le> fst x} =
      {c \<in> hot_set ys - hot_set xs. \<exists>x \<in> set xs. c \<le> fst x}" for q
    using hy by auto
  have self: "a \<notin> hot_set xs" "a \<notin> hot_set ys" using hx hy by auto
  show "unstable_pages ((a, h, n) # xs) ((a, k, m) # ys) =
      (if (h = 1) \<noteq> (k = 1) then insert a (unstable_pages xs ys) else unstable_pages xs ys)"
    using drop [of "k = 1"] drop' [of "h = 1"] self
    unfolding unstable_pages_def hot_set_Cons [of a] by (cases "h = 1"; cases "k = 1") (simp_all, auto)
  show "stable_pages ((a, h, n) # xs) ((a, k, m) # ys) =
      (if h = 1 \<and> k = 1 then insert a (stable_pages xs ys) else stable_pages xs ys)"
    using self by (auto simp: stable_pages_def hot_set_Cons [of a])
  show "a \<notin> unstable_pages xs ys" "a \<notin> stable_pages xs ys"
    using self by (auto simp: unstable_pages_def stable_pages_def)
qed

lemma hot_set_Nil [simp]: "hot_set [] = {}"
  by (simp add: hot_set_def)

lemma drift_merge_correct:
  assumes "addr_ascending xs" and "addr_ascending ys"
  shows "drift_merge xs ys = (card (stable_pages xs ys), card (unstable_pages xs ys))"
  using assms
proof (induction xs ys rule: drift_merge.induct)
  case (1 a h n xs b k m ys)
  note asc = "1.prems"
  consider "a < b" | "b < a" | "a = b" by (rule linorder_cases)
  then show ?case
  proof cases
    case 1
    then show ?thesis using "1.IH"(1) [OF 1] asc unstable_less [OF asc 1] by (simp add: addr_ascending_Cons)
  next
    case 2
    have u: "unstable_pages ((a, h, n) # xs) ((b, k, m) # ys) = unstable_pages ((b, k, m) # ys) ((a, h, n) # xs)"
      "unstable_pages ((a, h, n) # xs) ys = unstable_pages ys ((a, h, n) # xs)" by (rule unstable_sym)+
    have s: "stable_pages xs' ys' = stable_pages ys' xs'" for xs' ys' by (auto simp: stable_pages_def)
    have nl: "\<not> a < b" using 2 by simp
    show ?thesis using "1.IH"(2) [OF nl 2] nl 2 asc unstable_less [OF asc(2,1) 2] u
      by (simp add: addr_ascending_Cons s [of _ ys] s [of _ "(b, k, m) # ys"])
  next
    case 3
    then show ?thesis using "1.IH"(3) asc unstable_equal [of a h n xs k m ys] by (simp add: addr_ascending_Cons)
  qed
qed (simp_all add: stable_pages_def unstable_pages_def)

section \<open>The loop\<close>

definition binary_items :: "page_item list \<Rightarrow> bool" where
  "binary_items xs \<longleftrightarrow> (\<forall>(a, h, n) \<in> set xs. h = 0 \<or> h = 1)"

lemma final_hotness:
  assumes "h = 0 \<or> h = 1" and "k = 0 \<or> (k :: u8) = 1"
  shows "int8_of (uint h + uint k) = (if h = 1 then 1 else 0) + (if k = 1 then 1 else 0)"
  using assms by (auto simp: int8_of_id)

text \<open>Both sequences report their items one after the other, whatever the other one does.\<close>

definition at_item :: "addr_seq \<Rightarrow> as_rc + page_item \<Rightarrow> page_item list \<Rightarrow> bool" where
  "at_item s rc xs \<longleftrightarrow> seq_inv s \<and> (\<exists>k. reports s rc k \<and> xs = drop k (items s))"

lemma at_item_Nil: "at_item s rc [] \<Longrightarrow> \<exists>e. rc = Inl e"
  by (auto simp: at_item_def reports_def split: if_splits)

lemma at_item_Cons:
  assumes "at_item s rc (x # xs)"
  shows "rc = Inr x" and "\<exists>w. snd (get_next s) = s\<lparr>walk_iter := w\<rparr> \<and> at_item (snd (get_next s)) (fst (get_next s)) xs"
proof -
  obtain k where k: "seq_inv s" "reports s rc k" "x # xs = drop k (items s)" using assms by (auto simp: at_item_def)
  have len: "length (items s) = length (cells s)" by (metis length_map map_fst_items length_addrs)
  have lt: "k < length (cells s)" using k(3) len by (metis drop_all leI list.discI)
  then have x: "x = items s ! k" "xs = drop (Suc k) (items s)" using k(3) len by (simp_all add: Cons_nth_drop_Suc [symmetric])
  show "rc = Inr x" using k(2) lt x by (simp add: reports_def)
  have "iter_at s (walk_iter s) (Suc k)" using k(2) lt by (simp add: reports_def)
  from get_next_reports [OF this seq_inv_sizes_pos [OF k(1)]] obtain w where
    w: "snd (get_next s) = s\<lparr>walk_iter := w\<rparr>" "reports (snd (get_next s)) (fst (get_next s)) (Suc k)" by blast
  have "seq_inv (s\<lparr>walk_iter := w\<rparr>)" using k(1) same_shape_inv [of s "s\<lparr>walk_iter := w\<rparr>"] by simp
  then show "\<exists>w. snd (get_next s) = s\<lparr>walk_iter := w\<rparr> \<and> at_item (snd (get_next s)) (fst (get_next s)) xs"
    using w x(2) by (intro exI [of _ w]) (auto simp: at_item_def)
qed

lemma drift_loop_merge:
  assumes "at_item s0 rc0 xs" and "at_item s1 rc1 ys" and "binary_items xs" and "binary_items ys"
  shows "\<exists>w0 w1. drift_loop rc0 rc1 s0 s1 sn un =
           Some (sn + int (fst (drift_merge xs ys)), un + int (snd (drift_merge xs ys)),
                 s0\<lparr>walk_iter := w0\<rparr>, s1\<lparr>walk_iter := w1\<rparr>)"
  using assms
proof (induction xs ys arbitrary: rc0 rc1 s0 s1 sn un rule: drift_merge.induct)
  case (1 a h n xs b k m ys)
  have rc: "rc0 = Inr (a, h, n)" "rc1 = Inr (b, k, m)" using at_item_Cons(1) "1.prems"(1,2) by blast+
  from at_item_Cons(2) [OF "1.prems"(1)] obtain w0 where
    n0: "snd (get_next s0) = s0\<lparr>walk_iter := w0\<rparr>" "at_item (snd (get_next s0)) (fst (get_next s0)) xs" by blast
  from at_item_Cons(2) [OF "1.prems"(2)] obtain w1 where
    n1: "snd (get_next s1) = s1\<lparr>walk_iter := w1\<rparr>" "at_item (snd (get_next s1)) (fst (get_next s1)) ys" by blast
  have bin: "binary_items xs" "binary_items ys" "h = 0 \<or> h = 1" "k = 0 \<or> k = 1"
    using "1.prems"(3,4) by (auto simp: binary_items_def)
  consider "a < b" | "b < a" | "a = b" by (rule linorder_cases)
  then show ?case
  proof cases
    case 1
    have step: "drift_loop rc0 rc1 s0 s1 sn un =
        drift_loop (fst (get_next s0)) rc1 (snd (get_next s0)) s1 sn (if h = 1 then un + 1 else un)"
      using 1 by (subst drift_loop.simps) (simp add: rc split_beta)
    from "1.IH"(1) [OF 1 n0(2) "1.prems"(2) bin(1) "1.prems"(4), of sn "if h = 1 then un + 1 else un"]
    obtain v0 v1 where "drift_loop rc0 rc1 s0 s1 sn un = Some (sn + int (fst (drift_merge xs ((b, k, m) # ys))),
        (if h = 1 then un + 1 else un) + int (snd (drift_merge xs ((b, k, m) # ys))),
        s0\<lparr>walk_iter := v0\<rparr>, s1\<lparr>walk_iter := v1\<rparr>)" unfolding step n0(1) by auto
    then show ?thesis using 1 by (intro exI [of _ v0] exI [of _ v1]) (simp add: split_beta)
  next
    case 2
    then have nl: "\<not> a < b" by simp
    have step: "drift_loop rc0 rc1 s0 s1 sn un =
        drift_loop rc0 (fst (get_next s1)) s0 (snd (get_next s1)) sn (if k = 1 then un + 1 else un)"
      using 2 nl by (subst drift_loop.simps) (simp add: rc split_beta)
    from "1.IH"(2) [OF nl 2 "1.prems"(1) n1(2) "1.prems"(3) bin(2), of sn "if k = 1 then un + 1 else un"]
    obtain v0 v1 where "drift_loop rc0 rc1 s0 s1 sn un = Some (sn + int (fst (drift_merge ((a, h, n) # xs) ys)),
        (if k = 1 then un + 1 else un) + int (snd (drift_merge ((a, h, n) # xs) ys)),
        s0\<lparr>walk_iter := v0\<rparr>, s1\<lparr>walk_iter := v1\<rparr>)" unfolding step n1(1) by auto
    then show ?thesis using 2 nl by (intro exI [of _ v0] exI [of _ v1]) (simp add: split_beta)
  next
    case 3
    then have nl: "\<not> a < b" "\<not> b < a" by simp_all
    let ?sn = "if h = 1 \<and> k = 1 then sn + 1 else sn" and ?un = "if (h = 1) \<noteq> (k = 1) then un + 1 else un"
    have step: "drift_loop rc0 rc1 s0 s1 sn un =
        drift_loop (fst (get_next s0)) (fst (get_next s1)) (snd (get_next s0)) (snd (get_next s1)) ?sn ?un"
      using nl final_hotness [OF bin(3,4)] by (subst drift_loop.simps) (simp add: rc split_beta)
    from "1.IH"(3) [OF nl n0(2) n1(2) bin(1,2), of ?sn ?un]
    obtain v0 v1 where "drift_loop rc0 rc1 s0 s1 sn un = Some (?sn + int (fst (drift_merge xs ys)),
        ?un + int (snd (drift_merge xs ys)), s0\<lparr>walk_iter := v0\<rparr>, s1\<lparr>walk_iter := v1\<rparr>)"
      unfolding step n0(1) n1(1) by auto
    then show ?thesis using nl by (intro exI [of _ v0] exI [of _ v1]) (simp add: split_beta)
  qed
next
  case "2_1"
  then obtain e where "rc0 = Inl e" using at_item_Nil by blast
  then have "drift_loop rc0 rc1 s0 s1 sn un = Some (sn, un, s0, s1)" by (subst drift_loop.simps) simp
  then show ?case by (intro exI [of _ "walk_iter s0"] exI [of _ "walk_iter s1"]) simp
next
  case "2_2"
  then obtain e where "rc1 = Inl e" using at_item_Nil by blast
  then have "drift_loop rc0 rc1 s0 s1 sn un = Some (sn, un, s0, s1)"
    by (subst drift_loop.simps) (auto split: sum.splits)
  then show ?case by (intro exI [of _ "walk_iter s0"] exI [of _ "walk_iter s1"]) simp
qed

text \<open>
  C23: The drifting report: on two well-formed, normalised sequences (every count 0 or 1) whose number
  of pages fits an \<open>unsigned long\<close>, the merge
  returns, keeps both sequences, and counts as stable the addresses that are hot in both and as
  unstable those that are hot in exactly one of them and not behind the last page of the other. The
  merge of the two ordered sequences is thus equivalent to a comparison of sets of addresses.
\<close>

theorem drift_counts_sets:
  assumes "seq_inv s0" and "seq_inv s1" and "binary_items (items s0)" and "binary_items (items s1)"
    and "length (items s0) < 2 ^ 64" and "length (items s1) < 2 ^ 64"
  shows "\<exists>t0 t1. drift_counts s0 s1 = Some (int (card (stable_pages (items s0) (items s1))),
             int (card (unstable_pages (items s0) (items s1))), t0, t1) \<and>
           items t0 = items s0 \<and> items t1 = items s1"
proof -
  have asc: "addr_ascending (items s0)" "addr_ascending (items s1)"
    using assms(1,2) by (simp_all add: addr_ascending_def seq_inv_def)
  show ?thesis
  proof (cases "as_empty s0 \<and> as_empty s1")
    case True
    have "unat (addr_size s0) = length (items s0)" "unat (addr_size s1) = length (items s1)"
      using assms(1,2,5,6) by (simp_all add: seq_inv_def unat_of_nat_small)
    then have "length (items s0) = 0" "length (items s1) = 0" using True unfolding as_empty_def by (metis unat_0)+
    then have "items s0 = []" "items s1 = []" by (metis length_0_conv)+
    then show ?thesis using True by (simp add: drift_counts_def stable_pages_def unstable_pages_def)
  next
    case False
    from get_first_reports [OF seq_inv_sizes_pos [OF assms(1)]] obtain w0 where
      f0: "snd (get_first s0) = s0\<lparr>walk_iter := w0\<rparr>" "reports (snd (get_first s0)) (fst (get_first s0)) 0" by blast
    from get_first_reports [OF seq_inv_sizes_pos [OF assms(2)]] obtain w1 where
      f1: "snd (get_first s1) = s1\<lparr>walk_iter := w1\<rparr>" "reports (snd (get_first s1)) (fst (get_first s1)) 0" by blast
    have inv: "seq_inv (s\<lparr>walk_iter := w\<rparr>)" if "seq_inv s" for s w
      using same_shape_inv [of s "s\<lparr>walk_iter := w\<rparr>"] that by simp
    have "at_item (snd (get_first s0)) (fst (get_first s0)) (items s0)"
      "at_item (snd (get_first s1)) (fst (get_first s1)) (items s1)"
      using f0 f1 inv assms(1,2) by (auto simp: at_item_def intro!: exI [of _ 0])
    from drift_loop_merge [OF this assms(3,4), of 0 0] obtain v0 v1 where
      "drift_loop (fst (get_first s0)) (fst (get_first s1)) (snd (get_first s0)) (snd (get_first s1)) 0 0 =
         Some (int (card (stable_pages (items s0) (items s1))), int (card (unstable_pages (items s0) (items s1))),
           s0\<lparr>walk_iter := v0\<rparr>, s1\<lparr>walk_iter := v1\<rparr>)"
      by (auto simp: drift_merge_correct [OF asc] f0(1) f1(1))
    then show ?thesis using False by (auto simp: drift_counts_def split_beta)
  qed
qed

text \<open>A walk that records given pages, for the witness.\<close>

lemma recorded_items:
  assumes "sorted_wrt (<) (map fst xs)"
  shows "\<exists>t. seq_inv t \<and> items t = map (\<lambda>(a, n). (a, word_of_int n, - 1)) xs"
proof -
  have "contents (rewind (fresh_seq new_seq 12)) = []" using fresh_seq_inv(2) [of 12 new_seq] by simp
  then obtain t where t: "appending t" "contents t = foldl record_one [] xs"
    using inc_all_appending [OF appending_rewind_fresh [of 12 new_seq], of xs] by auto
  have "contents t = map (\<lambda>(a, n). (a, word_of_int n, - 1, LOC_DRAM)) xs"
    using t(2) record_ascending [OF assms, of "[]"] by simp
  then have "items t = map (\<lambda>(a, n). (a, word_of_int n, - 1)) xs"
    by (auto simp: items_def split: prod.splits)
  then show ?thesis using t(1) by (auto simp: appending_def)
qed

theorem drift_counts_sets_witness:
  "\<exists>s0 s1 t0 t1. items s0 = [(0x1000, 1, - 1), (0x2000, 1, - 1), (0x5000, 1, - 1)] \<and>
     items s1 = [(0x1000, 1, - 1), (0x3000, 1, - 1)] \<and> drift_counts s0 s1 = Some (1, 2, t0, t1)"
proof -
  obtain s0 where s0: "seq_inv s0" "items s0 = [(0x1000, 1, - 1), (0x2000, 1, - 1), (0x5000, 1, - 1)]"
    using recorded_items [of "[(0x1000, 1), (0x2000, 1), (0x5000, 1)]"] by auto
  obtain s1 where s1: "seq_inv s1" "items s1 = [(0x1000, 1, - 1), (0x3000, 1, - 1)]"
    using recorded_items [of "[(0x1000, 1), (0x3000, 1)]"] by auto
  have hot: "hot_set (items s0) = {0x1000, 0x2000, 0x5000}" "hot_set (items s1) = {0x1000, 0x3000}"
    by (auto simp: s0 s1 hot_set_def)
  have st: "stable_pages (items s0) (items s1) = {0x1000}" unfolding stable_pages_def hot by auto
  have un: "unstable_pages (items s0) (items s1) = {0x2000, 0x3000}"
    unfolding unstable_pages_def hot unfolding s0 s1 by auto
  from drift_counts_sets [OF s0(1) s1(1)] s0(2) s1(2) obtain t0 t1 where
    "drift_counts s0 s1 = Some (int (card (stable_pages (items s0) (items s1))),
       int (card (unstable_pages (items s0) (items s1))), t0, t1)"
    by (auto simp: binary_items_def)
  then show ?thesis unfolding st un using s0(2) s1(2) by auto
qed

end
