(* ===== verification/Kernel_Walk.thy ===== *)
theory Kernel_Walk
  imports Page_Stream
begin

text \<open>
  The kernel side of a scan: the page table walks of \<open>kernel_module/ept_idle.c\<close> (the tables of a
  virtual machine and those of a process) and the generic walk they are driven by,
  \<open>kernel_module/ept_idle_native_pagewalk.c\<close>, up to the read operation of the file. What the module
  asks of the kernel about an entry (present, large, none, bad) is a parameter (\<open>kernel_ops\<close>); locks
  and interrupt flags have no effect here, and entries do not change while they are walked.
\<close>

unbundle bit_operations_syntax

section \<open>Page tables\<close>

text \<open>
  The entries of each level by page number of that level: the kernel's \<open>pte_offset\<close> of an address,
  and the pointer increments of the loops, are the index of the address.
\<close>

record page_tables =
  pgd_of :: "u64 \<Rightarrow> u64"
  p4d_of :: "u64 \<Rightarrow> u64"
  pud_of :: "u64 \<Rightarrow> u64"
  pmd_of :: "u64 \<Rightarrow> u64"
  pte_of :: "u64 \<Rightarrow> u64"

definition PTE_SHIFT :: nat where "PTE_SHIFT = 12"
definition PMD_SHIFT :: nat where "PMD_SHIFT = 21"
definition PUD_SHIFT :: nat where "PUD_SHIFT = 30"
definition P4D_SHIFT :: nat where "P4D_SHIFT = 39"
definition PGD_SHIFT :: nat where "PGD_SHIFT = 48"

lemmas level_shifts [simp] = PTE_SHIFT_def PMD_SHIFT_def PUD_SHIFT_def P4D_SHIFT_def PGD_SHIFT_def

definition get_pte :: "page_tables \<Rightarrow> u64 \<Rightarrow> u64" where "get_pte pt a = pte_of pt (drop_bit PTE_SHIFT a)"
definition get_pmd :: "page_tables \<Rightarrow> u64 \<Rightarrow> u64" where "get_pmd pt a = pmd_of pt (drop_bit PMD_SHIFT a)"
definition get_pud :: "page_tables \<Rightarrow> u64 \<Rightarrow> u64" where "get_pud pt a = pud_of pt (drop_bit PUD_SHIFT a)"
definition get_p4d :: "page_tables \<Rightarrow> u64 \<Rightarrow> u64" where "get_p4d pt a = p4d_of pt (drop_bit P4D_SHIFT a)"
definition get_pgd :: "page_tables \<Rightarrow> u64 \<Rightarrow> u64" where "get_pgd pt a = pgd_of pt (drop_bit PGD_SHIFT a)"

definition set_pte :: "u64 \<Rightarrow> u64 \<Rightarrow> page_tables \<Rightarrow> page_tables" where
  "set_pte a v pt = pt\<lparr>pte_of := (pte_of pt)(drop_bit PTE_SHIFT a := v)\<rparr>"
definition set_pmd :: "u64 \<Rightarrow> u64 \<Rightarrow> page_tables \<Rightarrow> page_tables" where
  "set_pmd a v pt = pt\<lparr>pmd_of := (pmd_of pt)(drop_bit PMD_SHIFT a := v)\<rparr>"
definition set_p4d :: "u64 \<Rightarrow> u64 \<Rightarrow> page_tables \<Rightarrow> page_tables" where
  "set_p4d a v pt = pt\<lparr>p4d_of := (p4d_of pt)(drop_bit P4D_SHIFT a := v)\<rparr>"
definition set_pgd :: "u64 \<Rightarrow> u64 \<Rightarrow> page_tables \<Rightarrow> page_tables" where
  "set_pgd a v pt = pt\<lparr>pgd_of := (pgd_of pt)(drop_bit PGD_SHIFT a := v)\<rparr>"

text \<open>
  The kernel's predicates on the entries; \<open>k_pgd_none_or_clear_bad\<close> also gives the entry it leaves.
\<close>

record kernel_ops =
  k_invalid_spte :: "u64 \<Rightarrow> bool"
  k_pte_present :: "u64 \<Rightarrow> bool"
  k_pmd_present :: "u64 \<Rightarrow> bool"
  k_pmd_large :: "u64 \<Rightarrow> bool"
  k_pmd_none :: "u64 \<Rightarrow> bool"
  k_pud_present :: "u64 \<Rightarrow> bool"
  k_pud_large :: "u64 \<Rightarrow> bool"
  k_pud_none :: "u64 \<Rightarrow> bool"
  k_pud_trans :: "u64 \<Rightarrow> bool"
  k_p4d_present :: "u64 \<Rightarrow> bool"
  k_p4d_none :: "u64 \<Rightarrow> bool"
  k_p4d_bad :: "u64 \<Rightarrow> bool"
  k_pgd_present :: "u64 \<Rightarrow> bool"
  k_pgd_none_or_clear_bad :: "u64 \<Rightarrow> bool \<times> u64"
  k_task_size :: u64

definition PAGE_BIT_EPT_ACCESSED :: nat where "PAGE_BIT_EPT_ACCESSED = 8"
definition PAGE_BIT_EPT_DIRTY :: nat where "PAGE_BIT_EPT_DIRTY = 9"
definition PAGE_BIT_ACCESSED :: nat where "PAGE_BIT_ACCESSED = 5"

definition SCAN_HUGE_PAGE :: u32 where "SCAN_HUGE_PAGE = 0x800"
definition SCAN_SKIM_IDLE :: u32 where "SCAN_SKIM_IDLE = 0x20000"
definition SCAN_DIRTY_PAGE :: u32 where "SCAN_DIRTY_PAGE = 0x40000"

definition ept_present :: "u64 \<Rightarrow> bool" where
  "ept_present v \<longleftrightarrow> v AND 7 \<noteq> 0"

definition test_and_clear_bit :: "nat \<Rightarrow> u64 \<Rightarrow> bool \<times> u64" where
  "test_and_clear_bit k v = (bit v k, unset_bit k v)"

text \<open>The end of the entry of a level, or of the range.\<close>

definition addr_end :: "nat \<Rightarrow> u64 \<Rightarrow> u64 \<Rightarrow> u64" where
  "addr_end k addr endv =
     (let boundary = (addr + push_bit k 1) AND NOT (push_bit k 1 - 1)
      in if boundary - 1 < endv - 1 then boundary else endv)"

text \<open>The loop of all levels: \<open>do ... while (addr = next, addr != end)\<close>, left when \<open>err\<close> is not 0.\<close>

type_synonym 's range_body = "u64 \<Rightarrow> u64 \<Rightarrow> 's \<Rightarrow> (int \<times> 's) option"

partial_function (option) range_loop ::
    "(u64 \<Rightarrow> u64 \<Rightarrow> u64) \<Rightarrow> 's range_body \<Rightarrow> u64 \<Rightarrow> u64 \<Rightarrow> 's \<Rightarrow> (int \<times> 's) option" where
  "range_loop next_of body addr endv s =
     do { (err, s) \<leftarrow> body addr (next_of addr endv) s;
          if err \<noteq> 0 then Some (err, s)
          else if next_of addr endv \<noteq> endv then range_loop next_of body (next_of addr endv) endv s
          else Some (0, s) }"

type_synonym scan = "ept_idle_ctrl \<times> page_tables"

section \<open>The tables of a virtual machine\<close>

definition ept_pte_type :: "kernel_ops \<Rightarrow> u32 \<Rightarrow> u64 \<Rightarrow> page_type \<times> u64" where
  "ept_pte_type K flags v =
     (if k_invalid_spte K v then (PTE_IDLE, v)
      else if \<not> ept_present v then (PTE_HOLE, v)
      else let (accessed, v) = test_and_clear_bit PAGE_BIT_EPT_ACCESSED v
           in if \<not> accessed then (PTE_IDLE, v)
              else if flags AND SCAN_DIRTY_PAGE \<noteq> 0
              then let (dirty, v) = test_and_clear_bit PAGE_BIT_EPT_DIRTY v
                   in (if dirty then PTE_DIRTY else PTE_ACCESSED, v)
              else (PTE_ACCESSED, v))"

definition ept_pte_range :: "kernel_ops \<Rightarrow> u64 \<Rightarrow> u64 \<Rightarrow> scan \<Rightarrow> (int \<times> scan) option" where
  "ept_pte_range K = range_loop (\<lambda>addr _. addr + PTE_SIZE) (\<lambda>addr nxt (e, pt).
     let (type, v) = ept_pte_type K (eic_flags e) (get_pte pt addr);
         (err, e) = eic_add_page e addr nxt type
     in Some (err, e, set_pte addr v pt))"

text \<open>\<open>IDLE_PAGE_TYPE_MAX\<close> asks for a walk of the 4K entries below.\<close>

definition pte_page_type :: "u32 \<Rightarrow> page_type" where
  "pte_page_type flags = (if flags AND SCAN_HUGE_PAGE \<noteq> 0 then PMD_IDLE_PTES else IDLE_PAGE_TYPE_MAX)"

definition ept_pmd_type :: "kernel_ops \<Rightarrow> u32 \<Rightarrow> u64 \<Rightarrow> page_type \<times> u64" where
  "ept_pmd_type K flags v =
     (if k_invalid_spte K v then (PMD_IDLE, v)
      else if \<not> ept_present v then (PMD_HOLE, v)
      else let (accessed, v) = test_and_clear_bit PAGE_BIT_EPT_ACCESSED v
           in if \<not> accessed
              then (if k_pmd_large K v then PMD_IDLE
                    else if flags AND SCAN_SKIM_IDLE \<noteq> 0 then PMD_IDLE_PTES
                    else pte_page_type flags, v)
              else if k_pmd_large K v
              then if flags AND SCAN_DIRTY_PAGE \<noteq> 0
                   then let (dirty, v) = test_and_clear_bit PAGE_BIT_EPT_DIRTY v
                        in (if dirty then PMD_DIRTY else PMD_ACCESSED, v)
                   else (PMD_ACCESSED, v)
              else (pte_page_type flags, v))"

definition ept_pmd_range :: "kernel_ops \<Rightarrow> u64 \<Rightarrow> u64 \<Rightarrow> scan \<Rightarrow> (int \<times> scan) option" where
  "ept_pmd_range K = range_loop (addr_end PMD_SHIFT) (\<lambda>addr nxt (e, pt).
     let (type, v) = ept_pmd_type K (eic_flags e) (get_pmd pt addr); pt = set_pmd addr v pt
     in if type \<noteq> IDLE_PAGE_TYPE_MAX then let (err, e) = eic_add_page e addr nxt type in Some (err, e, pt)
        else ept_pte_range K addr nxt (e, pt))"

definition ept_pud_range :: "kernel_ops \<Rightarrow> u64 \<Rightarrow> u64 \<Rightarrow> scan \<Rightarrow> (int \<times> scan) option" where
  "ept_pud_range K = range_loop (addr_end PUD_SHIFT) (\<lambda>addr nxt (e, pt).
     if \<not> ept_present (get_pud pt addr) then Some (0, e\<lparr>restart_gpa := nxt\<rparr>, pt)
     else if k_pud_large K (get_pud pt addr)
     then let (err, e) = eic_add_page e addr nxt PUD_PRESENT in Some (err, e, pt)
     else ept_pmd_range K addr nxt (e, pt))"

definition ept_p4d_range :: "kernel_ops \<Rightarrow> u64 \<Rightarrow> u64 \<Rightarrow> scan \<Rightarrow> (int \<times> scan) option" where
  "ept_p4d_range K = range_loop (addr_end P4D_SHIFT) (\<lambda>addr nxt (e, pt).
     if \<not> ept_present (get_p4d pt addr) then Some (0, e\<lparr>restart_gpa := nxt\<rparr>, pt)
     else ept_pud_range K addr nxt (e, pt))"

record memslot =
  userspace_addr :: u64
  npages :: u64
  base_gfn :: u64

record kvm_state =
  kvm_vcpu :: bool
  kvm_root_valid :: bool
  kvm_ad_disabled :: bool
  kvm_root_level :: int
  kvm_l5 :: bool
  kvm_slots :: "memslot list"
  kvm_tables :: page_tables

definition KERN_EINVAL :: int where "KERN_EINVAL = 22"
definition ENOMEM :: int where "ENOMEM = 12"
definition EBUSY :: int where "EBUSY = 16"

text \<open>\<open>BUG_ON\<close> does not return.\<close>

definition ept_page_range :: "kernel_ops \<Rightarrow> kvm_state \<Rightarrow> u64 \<Rightarrow> u64 \<Rightarrow> scan \<Rightarrow> (int \<times> scan) option" where
  "ept_page_range K kvm addr endv s =
     (if addr \<ge> endv then None
      else if \<not> kvm_vcpu kvm then Some (- KERN_EINVAL, s)
      else if \<not> kvm_root_valid kvm then Some (- KERN_EINVAL, s)
      else range_loop (addr_end PGD_SHIFT) (\<lambda>addr nxt (e, pt).
             if \<not> ept_present (get_pgd pt addr) then Some (0, e\<lparr>restart_gpa := nxt\<rparr>, pt)
             else ept_p4d_range K addr nxt (e, pt)) addr endv s)"

definition INVALID_PAGE :: u64 where "INVALID_PAGE = - 1"

fun find_slot :: "memslot list \<Rightarrow> u64 \<Rightarrow> u64 \<Rightarrow> u64 \<times> u64" where
  "find_slot [] hva addr_range = (INVALID_PAGE, addr_range)"
| "find_slot (m # ms) hva addr_range =
     (let hva_end = userspace_addr m + push_bit 12 (npages m)
      in if hva \<ge> userspace_addr m \<and> hva < hva_end
         then (push_bit 12 (base_gfn m + drop_bit 12 (hva - userspace_addr m)), hva_end - hva)
         else find_slot ms hva (if userspace_addr m > hva then min addr_range (userspace_addr m - hva) else addr_range))"

definition ept_idle_find_gpa :: "kvm_state \<Rightarrow> u64 \<Rightarrow> u64 \<times> u64" where
  "ept_idle_find_gpa kvm hva = find_slot (kvm_slots kvm) hva (- 1)"

definition ept_idle_supports_cpu :: "kvm_state \<Rightarrow> int" where
  "ept_idle_supports_cpu kvm =
     (if \<not> kvm_vcpu kvm then - KERN_EINVAL
      else if kvm_ad_disabled kvm then - KERN_EINVAL
      else if kvm_root_level kvm \<noteq> 4 + (if kvm_l5 kvm then 1 else 0) then - KERN_EINVAL
      else 0)"

text \<open>
  \<open>faults n\<close>: copying to the user's buffer fails when \<open>n\<close> bytes have been copied.
\<close>

definition hva_step :: "kernel_ops \<Rightarrow> kvm_state \<Rightarrow> u64 \<Rightarrow> u64 \<Rightarrow> scan \<Rightarrow> (u64 \<times> scan) option" where
  "hva_step K kvm start endv s =
     (case s of (e, pt) \<Rightarrow>
      let (gpa_addr, addr_range) = ept_idle_find_gpa kvm start
      in if gpa_addr = INVALID_PAGE
         then if addr_range = - 1 then Some (endv, e\<lparr>gpa_to_hva := 0, restart_gpa := k_task_size K\<rparr>, pt)
              else Some (start + addr_range, e\<lparr>gpa_to_hva := 0, restart_gpa := start + addr_range\<rparr>, pt)
         else do { (_, e, pt) \<leftarrow> ept_page_range K kvm gpa_addr (gpa_addr + addr_range)
                                 (e\<lparr>gpa_to_hva := start - gpa_addr\<rparr>, pt);
                   Some (gpa_to_hva e + gpa_addr + addr_range, e, pt) })"

partial_function (option) hva_loop ::
    "kernel_ops \<Rightarrow> kvm_state \<Rightarrow> (int \<Rightarrow> bool) \<Rightarrow> u64 \<Rightarrow> u64 \<Rightarrow> scan \<Rightarrow> (int \<times> scan) option" where
  "hva_loop K kvm faults start endv s =
     (if \<not> start < endv then Some (0, s)
      else do { (va_end, e, pt) \<leftarrow> hva_step K kvm start endv s;
                let start = restart_gpa e + gpa_to_hva e;
                    (ret, e) = ept_idle_copy_user e (faults (bytes_copied e)) start va_end
                in if ret \<noteq> 0 then Some (ret, e, pt) else hva_loop K kvm faults start endv (e, pt) })"

definition ept_idle_walk_hva_range ::
    "kernel_ops \<Rightarrow> kvm_state \<Rightarrow> (int \<Rightarrow> bool) \<Rightarrow> u64 \<Rightarrow> u64 \<Rightarrow> scan \<Rightarrow> (int \<times> scan) option" where
  "ept_idle_walk_hva_range K kvm faults start endv s =
     (case s of (e, pt) \<Rightarrow>
        let ret = ept_idle_supports_cpu kvm
        in if ret \<noteq> 0 then Some (ret, e, pt)
           else let (ret, e) = init_ept_idle_ctrl_buffer e
                in if ret \<noteq> 0 then Some (ret, e, pt)
                   else do { (ret, e, pt) \<leftarrow> hva_loop K kvm faults start endv (e, pt);
                             Some (if bytes_copied e \<noteq> 0 then 0 else ret, e, pt) })"

section \<open>The generic walk\<close>

record vma =
  vm_start :: u64
  vm_end :: u64
  vm_file :: bool
  vm_flags :: u64
  vm_hugetlb :: bool
  vm_hshift :: nat

datatype huge_entry = Huge_pud | Huge_pmd

text \<open>
  The callbacks that a user of the walk may set; the state is that of the user and the tables. A
  \<open>pte_entry\<close> only asks for the lower levels, because large entries are not split.
\<close>

record 'a mm_walk =
  w_pmd_entry :: "('a \<times> page_tables) range_body option"
  w_pud_entry :: "('a \<times> page_tables) range_body option"
  w_pte_entry :: bool
  w_pte_hole :: "('a \<times> page_tables) range_body option"
  w_hugetlb_entry :: "(huge_entry \<Rightarrow> u64 \<Rightarrow> ('a \<times> page_tables) range_body) option"
  w_test_walk :: "(vma \<Rightarrow> u64 \<Rightarrow> u64 \<Rightarrow> int) option"

definition walk_hole :: "'a mm_walk \<Rightarrow> ('a \<times> page_tables) range_body" where
  "walk_hole w addr nxt s = (case w_pte_hole w of None \<Rightarrow> Some (0, s) | Some f \<Rightarrow> f addr nxt s)"

definition walk_pmd_range :: "kernel_ops \<Rightarrow> 'a mm_walk \<Rightarrow> vma option \<Rightarrow> ('a \<times> page_tables) range_body" where
  "walk_pmd_range K w vm = range_loop (addr_end PMD_SHIFT) (\<lambda>addr nxt s.
     if k_pmd_none K (get_pmd (snd s) addr) \<or> vm = None then walk_hole w addr nxt s
     else case w_pmd_entry w of None \<Rightarrow> Some (0, s) | Some f \<Rightarrow> f addr nxt s)"

definition walk_pud_range :: "kernel_ops \<Rightarrow> 'a mm_walk \<Rightarrow> vma option \<Rightarrow> ('a \<times> page_tables) range_body" where
  "walk_pud_range K w vm = range_loop (addr_end PUD_SHIFT) (\<lambda>addr nxt s.
     if k_pud_none K (get_pud (snd s) addr) \<or> vm = None then walk_hole w addr nxt s
     else case (w_pud_entry w, k_pud_trans K (get_pud (snd s) addr)) of
            (Some f, True) \<Rightarrow> f addr nxt s
          | _ \<Rightarrow> if w_pmd_entry w \<noteq> None \<or> w_pte_entry w then walk_pmd_range K w vm addr nxt s else Some (0, s))"

definition ept_idle_p4d_none_or_clear_bad :: "kernel_ops \<Rightarrow> u64 \<Rightarrow> page_tables \<Rightarrow> bool \<times> page_tables" where
  "ept_idle_p4d_none_or_clear_bad K addr pt =
     (if k_p4d_none K (get_p4d pt addr) then (True, pt)
      else if k_p4d_bad K (get_p4d pt addr) then (True, set_p4d addr 0 pt)
      else (False, pt))"

definition walk_p4d_range :: "kernel_ops \<Rightarrow> 'a mm_walk \<Rightarrow> vma option \<Rightarrow> ('a \<times> page_tables) range_body" where
  "walk_p4d_range K w vm = range_loop (addr_end P4D_SHIFT) (\<lambda>addr nxt (x, pt).
     let (none, pt) = ept_idle_p4d_none_or_clear_bad K addr pt
     in if none then walk_hole w addr nxt (x, pt)
        else if w_pmd_entry w \<noteq> None \<or> w_pte_entry w then walk_pud_range K w vm addr nxt (x, pt)
        else Some (0, x, pt))"

definition walk_pgd_range :: "kernel_ops \<Rightarrow> 'a mm_walk \<Rightarrow> vma option \<Rightarrow> ('a \<times> page_tables) range_body" where
  "walk_pgd_range K w vm = range_loop (addr_end PGD_SHIFT) (\<lambda>addr nxt (x, pt).
     let (none, v) = k_pgd_none_or_clear_bad K (get_pgd pt addr); pt = set_pgd addr v pt
     in if none then walk_hole w addr nxt (x, pt)
        else if w_pmd_entry w \<noteq> None \<or> w_pte_entry w then walk_p4d_range K w vm addr nxt (x, pt)
        else Some (0, x, pt))"

definition hugetlb_entry_end :: "nat \<Rightarrow> u64 \<Rightarrow> u64 \<Rightarrow> u64" where
  "hugetlb_entry_end shift addr endv =
     (let boundary = (addr AND NOT (push_bit shift 1 - 1)) + push_bit shift 1
      in if boundary < endv then boundary else endv)"

definition pmd_huge :: "kernel_ops \<Rightarrow> u64 \<Rightarrow> bool" where
  "pmd_huge K v \<longleftrightarrow> \<not> k_pmd_none K v \<and> v AND (1 OR 0x80) \<noteq> 1"

definition pud_huge :: "u64 \<Rightarrow> bool" where
  "pud_huge v \<longleftrightarrow> v AND 0x80 \<noteq> 0"

definition ept_idle_huge_pte_offset :: "kernel_ops \<Rightarrow> page_tables \<Rightarrow> u64 \<Rightarrow> u64 \<Rightarrow> huge_entry option" where
  "ept_idle_huge_pte_offset K pt addr sz =
     (let pud = get_pud pt addr; pmd = get_pmd pt addr
      in if \<not> k_pgd_present K (get_pgd pt addr) then None
         else if \<not> k_p4d_present K (get_p4d pt addr) then None
         else if sz \<noteq> PUD_SIZE \<and> k_pud_none K pud then None
         else if pud_huge pud \<or> \<not> k_pud_present K pud then Some Huge_pud
         else if sz \<noteq> PMD_SIZE \<and> k_pmd_none K pmd then None
         else if pmd_huge K pmd \<or> \<not> k_pmd_present K pmd then Some Huge_pmd
         else None)"

definition walk_hugetlb_range ::
    "kernel_ops \<Rightarrow> 'a mm_walk \<Rightarrow> (huge_entry \<Rightarrow> u64 \<Rightarrow> ('a \<times> page_tables) range_body) \<Rightarrow> vma \<Rightarrow> ('a \<times> page_tables) range_body" where
  "walk_hugetlb_range K w entry v =
     (let sz = push_bit (vm_hshift v) 1; hmask = NOT (sz - 1)
      in range_loop (hugetlb_entry_end (vm_hshift v)) (\<lambda>addr nxt s.
           case ept_idle_huge_pte_offset K (snd s) (addr AND hmask) sz of
             Some p \<Rightarrow> entry p hmask addr nxt s
           | None \<Rightarrow> walk_hole w addr nxt s))"

definition VM_PFNMAP :: u64 where "VM_PFNMAP = 0x400"
definition VM_WRITE :: u64 where "VM_WRITE = 2"
definition VM_MAYSHARE :: u64 where "VM_MAYSHARE = 0x80"

definition walk_page_test :: "'a mm_walk \<Rightarrow> vma \<Rightarrow> ('a \<times> page_tables) range_body" where
  "walk_page_test w v start endv s =
     (case w_test_walk w of
        Some f \<Rightarrow> Some (f v start endv, s)
      | None \<Rightarrow>
          if vm_flags v AND VM_PFNMAP \<noteq> 0 then
            case w_pte_hole w of None \<Rightarrow> Some (1, s)
            | Some f \<Rightarrow> do { (err, s) \<leftarrow> f start endv s; Some (if err \<noteq> 0 then err else 1, s) }
          else Some (0, s))"

definition walk_one_range :: "kernel_ops \<Rightarrow> 'a mm_walk \<Rightarrow> vma option \<Rightarrow> ('a \<times> page_tables) range_body" where
  "walk_one_range K w vm start endv s =
     (case vm of
        Some v \<Rightarrow> if vm_hugetlb v
                  then (case w_hugetlb_entry w of Some f \<Rightarrow> walk_hugetlb_range K w f v start endv s | None \<Rightarrow> Some (0, s))
                  else walk_pgd_range K w vm start endv s
      | None \<Rightarrow> walk_pgd_range K w vm start endv s)"

definition find_vma :: "vma list \<Rightarrow> u64 \<Rightarrow> vma list" where
  "find_vma vmas addr = dropWhile (\<lambda>v. vm_end v \<le> addr) vmas"

text \<open>The areas from the current one on; the areas of a process are in ascending order.\<close>

partial_function (option) walk_areas ::
    "kernel_ops \<Rightarrow> 'a mm_walk \<Rightarrow> vma list \<Rightarrow> u64 \<Rightarrow> u64 \<Rightarrow> 'a \<times> page_tables \<Rightarrow> (int \<times> 'a \<times> page_tables) option" where
  "walk_areas K w vmas start endv s =
     (let (vm, nxt, rest) =
            (case vmas of [] \<Rightarrow> (None, endv, [])
             | v # vs \<Rightarrow> if start < vm_start v then (None, min endv (vm_start v), vmas)
                         else (Some v, min endv (vm_end v), vs))
      in do { (test, s) \<leftarrow> (case vm of None \<Rightarrow> Some (0, s) | Some v \<Rightarrow> walk_page_test w v start nxt s);
              if test < 0 then Some (test, s)
              else do { (err, s) \<leftarrow> (if test > 0 then Some (0, s)
                                    else if vm \<noteq> None \<or> w_pte_hole w \<noteq> None then walk_one_range K w vm start nxt s
                                    else Some (0, s));
                        if err \<noteq> 0 then Some (err, s)
                        else if nxt < endv then walk_areas K w rest nxt endv s
                        else Some (0, s) } })"

definition ept_idle_walk_page_range ::
    "kernel_ops \<Rightarrow> 'a mm_walk \<Rightarrow> vma list option \<Rightarrow> u64 \<Rightarrow> u64 \<Rightarrow> 'a \<times> page_tables \<Rightarrow> (int \<times> 'a \<times> page_tables) option" where
  "ept_idle_walk_page_range K w mm start endv s =
     (if start \<ge> endv then Some (- KERN_EINVAL, s)
      else case mm of None \<Rightarrow> Some (- KERN_EINVAL, s)
           | Some vmas \<Rightarrow> walk_areas K w (find_vma vmas start) start endv s)"

section \<open>The tables of a process\<close>

definition mm_idle_pte_type :: "kernel_ops \<Rightarrow> u64 \<Rightarrow> page_type \<times> u64" where
  "mm_idle_pte_type K v =
     (if \<not> k_pte_present K v then (PTE_HOLE, v)
      else let (accessed, v) = test_and_clear_bit PAGE_BIT_ACCESSED v
           in (if accessed then PTE_ACCESSED else PTE_IDLE, v))"

definition mm_idle_pte_range :: "kernel_ops \<Rightarrow> u64 \<Rightarrow> u64 \<Rightarrow> scan \<Rightarrow> (int \<times> scan) option" where
  "mm_idle_pte_range K = range_loop (\<lambda>addr _. addr + PTE_SIZE) (\<lambda>addr nxt (e, pt).
     let (type, v) = mm_idle_pte_type K (get_pte pt addr);
         (err, e) = eic_add_page e addr nxt type
     in Some (err, e, set_pte addr v pt))"

definition PMD_MASK :: u64 where "PMD_MASK = NOT (PMD_SIZE - 1)"
definition PUD_MASK :: u64 where "PUD_MASK = NOT (PUD_SIZE - 1)"

definition mm_idle_pmd_type :: "kernel_ops \<Rightarrow> u32 \<Rightarrow> u64 \<Rightarrow> page_type \<times> u64" where
  "mm_idle_pmd_type K flags v =
     (if \<not> k_pmd_present K v then (PMD_HOLE, v)
      else if \<not> k_pmd_large K v then (pte_page_type flags, v)
      else let (accessed, v) = test_and_clear_bit PAGE_BIT_ACCESSED v
           in (if accessed then PMD_ACCESSED else PMD_IDLE, v))"

definition mm_idle_pmd_entry :: "kernel_ops \<Rightarrow> u64 \<Rightarrow> u64 \<Rightarrow> scan \<Rightarrow> (int \<times> scan) option" where
  "mm_idle_pmd_entry K addr nxt s =
     (case s of (e, pt) \<Rightarrow>
        if addr AND PMD_MASK = last_va e AND PMD_MASK then Some (0, e, pt)
        else let e = e\<lparr>last_va := addr\<rparr>;
                 (type, v) = mm_idle_pmd_type K (eic_flags e) (get_pmd pt addr);
                 pt = set_pmd addr v pt
             in if type \<noteq> IDLE_PAGE_TYPE_MAX
                then let (err, e) = eic_add_page e addr nxt type in Some (err, e, pt)
                else mm_idle_pte_range K addr nxt (e, pt))"

definition mm_idle_pud_entry :: "u64 \<Rightarrow> u64 \<Rightarrow> scan \<Rightarrow> (int \<times> scan) option" where
  "mm_idle_pud_entry addr nxt s =
     (case s of (e, pt) \<Rightarrow>
        if addr AND PUD_MASK \<noteq> last_va e AND PUD_MASK
        then let (_, e) = eic_add_page e addr nxt PUD_PRESENT in Some (1, e\<lparr>last_va := addr\<rparr>, pt)
        else Some (1, e, pt))"

definition mm_idle_test_walk :: "vma \<Rightarrow> u64 \<Rightarrow> u64 \<Rightarrow> int" where
  "mm_idle_test_walk v start endv =
     (if vm_file v then if vm_flags v AND (VM_WRITE OR VM_MAYSHARE) = VM_WRITE then 0 else 1
      else 0)"

definition mm_idle_walk :: "kernel_ops \<Rightarrow> ept_idle_ctrl mm_walk" where
  "mm_idle_walk K = \<lparr>w_pmd_entry = Some (mm_idle_pmd_entry K), w_pud_entry = Some mm_idle_pud_entry,
     w_pte_entry = False, w_pte_hole = None, w_hugetlb_entry = None, w_test_walk = Some mm_idle_test_walk\<rparr>"

definition mm_step :: "kernel_ops \<Rightarrow> vma list \<Rightarrow> u64 \<Rightarrow> u64 \<Rightarrow> scan \<Rightarrow> scan option" where
  "mm_step K vmas start endv s =
     (case find_vma vmas start of
        [] \<Rightarrow> Some ((fst s)\<lparr>restart_gpa := k_task_size K\<rparr>, snd s)
      | v # _ \<Rightarrow>
          if endv > vm_start v
          then do { (_, s) \<leftarrow> ept_idle_walk_page_range K (mm_idle_walk K) (Some vmas) start endv s; Some s }
          else Some ((fst s)\<lparr>restart_gpa := vm_start v\<rparr>, snd s))"

partial_function (option) mm_loop ::
    "kernel_ops \<Rightarrow> vma list \<Rightarrow> (int \<Rightarrow> bool) \<Rightarrow> u64 \<Rightarrow> u64 \<Rightarrow> scan \<Rightarrow> (int \<times> scan) option" where
  "mm_loop K vmas faults start endv s =
     (if \<not> start < endv then Some (0, s)
      else do { (e, pt) \<leftarrow> mm_step K vmas start endv s;
                let start = restart_gpa e;
                    (ret, e) = ept_idle_copy_user e (faults (bytes_copied e)) start endv
                in if ret \<noteq> 0 then Some (ret, e, pt) else mm_loop K vmas faults start endv (e, pt) })"

definition mm_idle_walk_range ::
    "kernel_ops \<Rightarrow> vma list \<Rightarrow> (int \<Rightarrow> bool) \<Rightarrow> u64 \<Rightarrow> u64 \<Rightarrow> scan \<Rightarrow> (int \<times> scan) option" where
  "mm_idle_walk_range K vmas faults start endv s =
     (case s of (e, pt) \<Rightarrow>
        let (ret, e) = init_ept_idle_ctrl_buffer e
        in if ret \<noteq> 0 then Some (ret, e, pt)
           else do { (ret, e, pt) \<leftarrow> mm_loop K vmas faults start endv (e, pt);
                     Some (if bytes_copied e \<noteq> 0 then 0 else ret, e, pt) })"

section \<open>The file\<close>

text \<open>
  The open file: the control structure that \<open>private_data\<close> points to (\<open>None\<close> for a null pointer), the
  address space and the virtual machine that the ioctl stored in it, and the position.
\<close>

record mm_state =
  mm_vmas :: "vma list"
  mm_tables :: page_tables

record idle_file =
  f_eic :: "ept_idle_ctrl option"
  f_mm :: "mm_state option"
  f_kvm :: "kvm_state option"
  f_pos :: u64
  f_flags :: u32

definition KERNEL_BUF_MIN :: u64 where "KERNEL_BUF_MIN = 8 * 2 + 3"

text \<open>What both read operations check, with the result of a refusal; a count is cut to an \<open>int\<close>.\<close>

definition read_check :: "u64 \<Rightarrow> u64 \<Rightarrow> int option" where
  "read_check pos count =
     (if pos + push_bit (3 + 12) count \<le> pos then Some 0
      else if pos AND (push_bit 12 1 - 1) \<noteq> 0 then Some (- KERN_EINVAL)
      else if count < KERNEL_BUF_MIN then Some (- KERN_EINVAL)
      else None)"

definition finish_read :: "int \<Rightarrow> ept_idle_ctrl \<Rightarrow> idle_file \<Rightarrow> int \<times> idle_file" where
  "finish_read ret e f =
     (if ret \<noteq> 0 then (ret, f\<lparr>f_eic := Some e\<rparr>)
      else (bytes_copied e, f\<lparr>f_eic := Some e, f_pos := next_hva e\<rparr>))"

definition mm_idle_read ::
    "kernel_ops \<Rightarrow> (int \<Rightarrow> bool) \<Rightarrow> u64 \<Rightarrow> ept_idle_ctrl \<Rightarrow> mm_state \<Rightarrow> idle_file \<Rightarrow> (int \<times> idle_file) option" where
  "mm_idle_read K faults count e mm f =
     (case read_check (f_pos f) count of
        Some ret \<Rightarrow> Some (ret, f)
      | None \<Rightarrow>
          do { (ret, e, pt) \<leftarrow> mm_idle_walk_range K (mm_vmas mm) faults (f_pos f) (f_pos f + push_bit (3 + 12) count)
                                 (setup_ept_idle_ctrl e (sint (ucast count :: u32)) (f_flags f), mm_tables mm);
               Some (finish_read ret e (f\<lparr>f_mm := Some (mm\<lparr>mm_tables := pt\<rparr>)\<rparr>)) })"

definition ept_idle_read :: "kernel_ops \<Rightarrow> (int \<Rightarrow> bool) \<Rightarrow> u64 \<Rightarrow> idle_file \<Rightarrow> (int \<times> idle_file) option" where
  "ept_idle_read K faults count f =
     (case f_eic f of None \<Rightarrow> Some (- ENOMEM, f)
      | Some e \<Rightarrow>
        if f_pos f \<ge> k_task_size K then Some (0, f)
        else case f_mm f of None \<Rightarrow> Some (- KERN_EINVAL, f)
        | Some mm \<Rightarrow>
          (case f_kvm f of None \<Rightarrow> mm_idle_read K faults count e mm f
           | Some kvm \<Rightarrow>
             (case read_check (f_pos f) count of
                Some ret \<Rightarrow> Some (ret, f)
              | None \<Rightarrow>
                  do { (ret, e, pt) \<leftarrow> ept_idle_walk_hva_range K kvm faults (f_pos f) (f_pos f + push_bit (3 + 12) count)
                                         (setup_ept_idle_ctrl e (sint (ucast count :: u32)) (f_flags f), kvm_tables kvm);
                       Some (finish_read ret e (f\<lparr>f_kvm := Some (kvm\<lparr>kvm_tables := pt\<rparr>)\<rparr>)) })))"

definition zero_eic :: ept_idle_ctrl where
  "zero_eic = \<lparr>kpie = (\<lambda>_. 0), pie_read = 0, pie_read_max = 0, ubuf = [], buf_size = 0, bytes_copied = 0,
     next_hva = 0, gpa_to_hva = 0, restart_gpa = 0, last_va = 0, eic_flags = 0\<rparr>"

definition ept_idle_open :: "bool \<Rightarrow> bool \<Rightarrow> idle_file \<Rightarrow> int \<times> idle_file" where
  "ept_idle_open got_module allocated f =
     (if \<not> got_module then (- EBUSY, f\<lparr>f_eic := None\<rparr>)
      else if \<not> allocated then (- ENOMEM, f\<lparr>f_eic := None\<rparr>)
      else (0, f\<lparr>f_eic := Some zero_eic, f_mm := None, f_kvm := None\<rparr>))"

definition ept_idle_lseek :: "u64 \<Rightarrow> int \<Rightarrow> idle_file \<Rightarrow> int \<times> idle_file" where
  "ept_idle_lseek offset orig f =
     (if orig = 0 then let f = f\<lparr>f_pos := offset\<rparr> in (sint (f_pos f), f)
      else if orig = 1 then let f = f\<lparr>f_pos := f_pos f + offset\<rparr> in (sint (f_pos f), f)
      else (- KERN_EINVAL, f))"

text \<open>\<open>lookup\<close> finds the address space and the virtual machine of a process, or an error.\<close>

definition ept_idle_ioctl ::
    "(int \<Rightarrow> int + mm_state \<times> kvm_state option) \<Rightarrow> bool \<Rightarrow> u64 \<Rightarrow> idle_file \<Rightarrow> int \<times> idle_file" where
  "ept_idle_ioctl lookup is_set_pid arg f =
     (if f_eic f = None then (- ENOMEM, f)
      else if is_set_pid then
        (case lookup (sint (ucast arg :: u32)) of
           Inl err \<Rightarrow> (err, f)
         | Inr (mm, kvm) \<Rightarrow> (0, f\<lparr>f_mm := Some mm, f_kvm := kvm\<rparr>))
      else (- KERN_EINVAL, f))"

end
