(* ===== verification/Kernel_Walk_Correct.thy ===== *)
theory Kernel_Walk_Correct
  imports Kernel_Walk
begin

text \<open>
  What the page table walks of the kernel module guarantee: the lowest level reports every page of
  its range exactly once, with the type its entry has, and clears the accessed bits of the pages it
  looked at; a read of a process's pages always returns and writes no more than it was asked for.
  Some defects are exhibited at the end.
\<close>

unbundle bit_operations_syntax

section \<open>Addresses\<close>

definition page_aligned :: "u64 \<Rightarrow> bool" where
  "page_aligned a \<longleftrightarrow> take_bit 12 a = 0"

lemma PTE_SIZE_eq: "PTE_SIZE = 4096"
  by (simp add: PTE_SIZE_def)

lemma page_aligned_dvd: "page_aligned a \<longleftrightarrow> 4096 dvd unat a"
proof -
  have "unat (take_bit 12 a) = unat a mod 4096" 
    by (simp only: unsigned_take_bit_eq) (simp add: take_bit_eq_mod)
  then show ?thesis by (metis page_aligned_def dvd_eq_mod_eq_0 unat_0 unat_eq_zero)
qed

lemma unat_add_pages:
  assumes "unat a + i * 4096 < 2 ^ 64"
  shows "unat (a + of_nat i * PTE_SIZE) = unat a + i * 4096"
proof -
  have "of_nat i * PTE_SIZE = of_nat (i * 4096)" by (simp add: PTE_SIZE_eq)
  moreover have "unat (of_nat (i * 4096) :: u64) = i * 4096" using assms by (intro unat_of_nat_small) simp
  ultimately show ?thesis using assms by (simp add: unat_word_ariths)
qed

definition page_no :: "u64 \<Rightarrow> nat" where
  "page_no a = unat a div 4096"

lemma take_bit_unat [simp]: "take_bit 64 (unat (x :: u64)) = unat x"
  using unsigned_less [of x, where ?'a = nat] by (simp add: take_bit_nat_eq_self)

lemma page_no_eq: "drop_bit 12 a = drop_bit 12 b \<longleftrightarrow> page_no a = page_no b"
proof -
  have d: "unat (drop_bit 12 (c :: u64)) = unat c div 4096" for c
    by (simp only: unsigned_drop_bit_eq) (simp add: drop_bit_eq_div)
  show ?thesis unfolding page_no_def d [symmetric] by (simp only: word_unat_eq_iff)
qed

lemma page_no_add:
  assumes "unat a + i * 4096 < 2 ^ 64"
  shows "page_no (a + of_nat i * PTE_SIZE) = page_no a + i"
  unfolding page_no_def unat_add_pages [OF assms] by simp

lemma unat_pred: "0 < unat w \<Longrightarrow> unat (w - 1 :: u64) = unat w - 1"
  by (rule unat_minus_one) auto

lemma addr_end_bounds:
  assumes "a < endv" and "12 \<le> k" "k < 64" and "page_aligned a" and "page_aligned endv"
  shows "a < addr_end k a endv" and "addr_end k a endv \<le> endv" and "page_aligned (addr_end k a endv)"
proof -
  let ?b = "(a + push_bit k 1) AND NOT (push_bit k 1 - 1)"
  have k: "unat (push_bit k (1 :: u64)) = 2 ^ k"
  proof -
    have "(2 :: nat) ^ k < 2 ^ LENGTH(64)" using assms(3) by (intro power_strict_increasing) simp_all
    from unat_of_nat_small [OF this] show ?thesis by (simp add: push_bit_eq_mult)
  qed
  have b: "unat ?b = unat (a + push_bit k 1) div 2 ^ k * 2 ^ k" unfolding and_not_mask unat_push_drop by simp
  have e: "0 < unat endv" using assms(1) by (simp add: word_less_nat_alt)
  then have e1: "unat (endv - 1) = unat endv - 1" by (rule unat_pred)
  have al: "page_aligned ?b"
  proof -
    have "(2 :: nat) ^ 12 dvd 2 ^ k" using assms(2) by (rule le_imp_power_dvd)
    then have "(4096 :: nat) dvd 2 ^ k" by simp
    then show ?thesis unfolding page_aligned_dvd b by (rule dvd_mult)
  qed
  have "a < addr_end k a endv \<and> addr_end k a endv \<le> endv \<and> page_aligned (addr_end k a endv)"
  proof (cases "unat a + 2 ^ k < 2 ^ 64")
    case True
    then have "unat (a + push_bit k 1) = unat a + 2 ^ k" using k by (simp add: unat_word_ariths)
    then have "unat ?b = (unat a div 2 ^ k + 1) * 2 ^ k" unfolding b by (simp add: div_add_self2)
    moreover have "unat a < (unat a div 2 ^ k + 1) * 2 ^ k"
      using dividend_less_div_times [of "2 ^ k" "unat a"] by (simp add: mult.commute)
    ultimately have gt: "unat a < unat ?b" by simp
    then have "unat (?b - 1) = unat ?b - 1" by (intro unat_pred) linarith
    then have "?b - 1 < endv - 1 \<longleftrightarrow> ?b < endv" using e1 e gt unfolding word_less_nat_alt by linarith
    then show ?thesis using gt al assms(1,5) by (auto simp: addr_end_def Let_def word_less_nat_alt word_le_nat_alt)
  next
    case False
    have lt: "unat a < 2 ^ 64" using unsigned_less [of a, where ?'a = nat] by simp
    have "(2 :: nat) ^ k < 2 ^ 64" using assms(3) by (intro power_strict_increasing) simp_all
    then have "unat (a + push_bit k 1) = unat a + 2 ^ k - 2 ^ 64"
      using False lt k by (simp add: unat_word_ariths mod_if)
    then have "unat (a + push_bit k 1) < 2 ^ k" using lt False by linarith
    then have "?b = 0" using b by (simp add: word_unat_eq_iff)
    then have "addr_end k a endv = endv" unfolding addr_end_def Let_def by (simp add: not_less word_order.extremum)
    then show ?thesis using assms(1,5) by simp
  qed
  then show "a < addr_end k a endv" "addr_end k a endv \<le> endv" "page_aligned (addr_end k a endv)" by blast+
qed

section \<open>The loop of a level\<close>

lemma range_loop_step:
  assumes "body a (nx a endv) s = Some (err, t)"
  shows "range_loop nx body a endv s =
           (if err \<noteq> 0 then Some (err, t)
            else if nx a endv \<noteq> endv then range_loop nx body (nx a endv) endv t else Some (0, t))"
  by (subst range_loop.simps) (simp add: assms)

section \<open>Exact reports of the lowest level\<close>

type_synonym classifier = "u32 \<Rightarrow> u64 \<Rightarrow> page_type \<times> u64"

definition pte_body :: "classifier \<Rightarrow> scan range_body" where
  "pte_body cls = (\<lambda>addr nxt (e, pt).
     let (type, v) = cls (eic_flags e) (get_pte pt addr); (err, e) = eic_add_page e addr nxt type
     in Some (err, e, set_pte addr v pt))"

lemma pte_ranges:
  "ept_pte_range K = range_loop (\<lambda>addr _. addr + PTE_SIZE) (pte_body (ept_pte_type K))"
  "mm_idle_pte_range K = range_loop (\<lambda>addr _. addr + PTE_SIZE) (pte_body (\<lambda>_. mm_idle_pte_type K))"
  by (simp_all add: ept_pte_range_def mm_idle_pte_range_def pte_body_def)

definition pte_reports :: "classifier \<Rightarrow> u32 \<Rightarrow> page_tables \<Rightarrow> u64 \<Rightarrow> nat \<Rightarrow> (u64 \<times> u64 \<times> page_type) list" where
  "pte_reports cls flags pt a n =
     map (\<lambda>i. let b = a + of_nat i * PTE_SIZE in (b, b + PTE_SIZE, fst (cls flags (get_pte pt b)))) [0..<n]"

text \<open>The entries after \<open>m\<close> pages from \<open>a\<close> on have been looked at.\<close>

definition looked_at :: "classifier \<Rightarrow> u32 \<Rightarrow> u64 \<Rightarrow> nat \<Rightarrow> page_tables \<Rightarrow> page_tables \<Rightarrow> bool" where
  "looked_at cls flags a m pt pt' \<longleftrightarrow>
     (\<forall>b. get_pte pt' b =
        (if page_no b \<in> {page_no a..<page_no a + m}
         then snd (cls flags (get_pte pt b)) else get_pte pt b))"

lemma get_set_pte: "get_pte (set_pte a v pt) b = (if page_no a = page_no b then v else get_pte pt b)"
  unfolding page_no_eq [symmetric] by (simp add: get_pte_def set_pte_def)

lemma get_pte_cong: "page_no a = page_no b \<Longrightarrow> get_pte pt a = get_pte pt b"
  unfolding page_no_eq [symmetric] by (simp only: get_pte_def PTE_SHIFT_def)

lemma eic_add_page_flags: "eic_add_page e addr nxt t = (err, e') \<Longrightarrow> eic_flags e' = eic_flags e"
  by (auto simp: eic_add_page_def eic_report_addr_def Let_def split: if_splits)

lemma eic_add_page_error:
  "eic_add_page e addr nxt t = (err, e') \<Longrightarrow> err \<noteq> 0 \<Longrightarrow> err = EPT_IDLE_KBUF_FULL \<and> restart_gpa e' = addr"
  by (auto simp: eic_add_page_def eic_report_addr_def Let_def split: if_splits)

lemma pte_reports_Suc:
  "pte_reports cls flags pt a (Suc n) =
     (a, a + PTE_SIZE, fst (cls flags (get_pte pt a))) # pte_reports cls flags pt (a + PTE_SIZE) n"
  unfolding pte_reports_def upt_conv_Cons [OF zero_less_Suc] map_Suc_upt [symmetric]
  by (simp add: Let_def comp_def algebra_simps del: upt_Suc)

lemma pte_reports_set:
  assumes "\<forall>i < n. page_no (a + of_nat i * PTE_SIZE) \<noteq> page_no c"
  shows "pte_reports cls flags (set_pte c v pt) a n = pte_reports cls flags pt a n"
  using assms by (auto simp: pte_reports_def get_set_pte Let_def)

lemma pte_loop_exact:
  assumes "page_aligned a" and "0 < n" and "unat a + n * 4096 < 2 ^ 64"
  shows "\<exists>m err e' pt'.
           range_loop (\<lambda>addr _. addr + PTE_SIZE) (pte_body cls) a (a + of_nat n * PTE_SIZE) (e, pt) = Some (err, e', pt') \<and>
           add_pages e (pte_reports cls (eic_flags e) pt a n) = (err, e') \<and> 0 < m \<and> m \<le> n \<and>
           (if err = 0 then m = n else restart_gpa e' = a + of_nat (m - 1) * PTE_SIZE) \<and>
           looked_at cls (eic_flags e) a m pt pt'"
  using assms
proof (induction n arbitrary: a e pt)
  case 0
  then show ?case by simp
next
  case (Suc n)
  let ?v = "snd (cls (eic_flags e) (get_pte pt a))" and ?t = "fst (cls (eic_flags e) (get_pte pt a))"
  let ?pt = "set_pte a ?v pt" and ?b = "a + PTE_SIZE"
  define endv where "endv = a + of_nat (Suc n) * PTE_SIZE"
  obtain err1 e1 where add: "eic_add_page e a ?b ?t = (err1, e1)" by fastforce
  have body: "pte_body cls a ?b (e, pt) = Some (err1, e1, ?pt)"
    by (simp add: pte_body_def add split_beta)
  have end_eq: "?b + of_nat n * PTE_SIZE = endv" by (simp add: endv_def algebra_simps)
  have one: "looked_at cls (eic_flags e) a 1 pt ?pt"
    unfolding looked_at_def
  proof
    fix b
    show "get_pte ?pt b = (if page_no b \<in> {page_no a..<page_no a + 1} then snd (cls (eic_flags e) (get_pte pt b))
        else get_pte pt b)"
      using get_pte_cong [of b a pt] by (cases "page_no b = page_no a") (auto simp: get_set_pte)
  qed
  have step: "range_loop (\<lambda>addr _. addr + PTE_SIZE) (pte_body cls) a endv (e, pt) =
      (if err1 \<noteq> 0 then Some (err1, e1, ?pt)
       else if ?b \<noteq> endv then range_loop (\<lambda>addr _. addr + PTE_SIZE) (pte_body cls) ?b endv (e1, ?pt)
       else Some (0, e1, ?pt))"
    by (rule range_loop_step [of "pte_body cls" a "\<lambda>addr _. addr + PTE_SIZE" endv "(e, pt)" err1 "(e1, ?pt)", OF body])
  have "\<exists>m err e' pt'.
           range_loop (\<lambda>addr _. addr + PTE_SIZE) (pte_body cls) a endv (e, pt) = Some (err, e', pt') \<and>
           add_pages e (pte_reports cls (eic_flags e) pt a (Suc n)) = (err, e') \<and> 0 < m \<and> m \<le> Suc n \<and>
           (if err = 0 then m = Suc n else restart_gpa e' = a + of_nat (m - 1) * PTE_SIZE) \<and>
           looked_at cls (eic_flags e) a m pt pt'"
  proof (cases "err1 = 0")
    case False
    then show ?thesis using step add one eic_add_page_error [OF add False]
      by (intro exI [of _ "1 :: nat"] exI [of _ err1] exI [of _ e1] exI [of _ ?pt]) (simp add: pte_reports_Suc)
  next
    case ok: True
    show ?thesis
    proof (cases n)
      case 0
      then have "?b = endv" using end_eq by simp
      then show ?thesis using step ok add one 0
        by (intro exI [of _ "1 :: nat"] exI [of _ "0 :: int"] exI [of _ e1] exI [of _ ?pt]) (simp add: pte_reports_def Let_def)
    next
      case (Suc k)
      have ub: "unat ?b = unat a + 4096" using unat_add_pages [of a 1] Suc.prems(3) by simp
      have al: "page_aligned ?b" using Suc.prems(1) by (simp add: page_aligned_dvd ub)
      have "unat endv = unat a + (n + 1) * 4096"
        unfolding endv_def using unat_add_pages [of a "Suc n"] Suc.prems(3) by simp
      then have ne: "?b \<noteq> endv" using ub Suc by auto
      have lim: "unat ?b + n * 4096 < 2 ^ 64" using Suc.prems(3) ub by simp
      have pb: "page_no ?b = page_no a + 1" using page_no_add [of a 1] Suc.prems(3) by simp
      from Suc.IH [OF al _ lim, of e1 ?pt] Suc obtain m err e' pt' where r:
        "range_loop (\<lambda>addr _. addr + PTE_SIZE) (pte_body cls) ?b (?b + of_nat n * PTE_SIZE) (e1, ?pt) = Some (err, e', pt')"
        "add_pages e1 (pte_reports cls (eic_flags e1) ?pt ?b n) = (err, e')" "0 < m" "m \<le> n"
        "if err = 0 then m = n else restart_gpa e' = ?b + of_nat (m - 1) * PTE_SIZE"
        "looked_at cls (eic_flags e1) ?b m ?pt pt'" by blast
      have fl: "eic_flags e1 = eic_flags e" using eic_add_page_flags [OF add] .
      have "page_no (?b + of_nat i * PTE_SIZE) \<noteq> page_no a" if "i < n" for i
        using page_no_add [of ?b i] lim that pb by simp
      then have rep: "pte_reports cls (eic_flags e) ?pt ?b n = pte_reports cls (eic_flags e) pt ?b n"
        by (intro pte_reports_set) blast
      have la: "looked_at cls (eic_flags e) a (Suc m) pt pt'"
        unfolding looked_at_def
      proof
        fix b
        have "get_pte pt' b = (if page_no b \<in> {page_no a + 1..<page_no a + 1 + m}
            then snd (cls (eic_flags e) (get_pte ?pt b)) else get_pte ?pt b)"
          using r(6) unfolding looked_at_def fl pb by simp
        moreover have "get_pte ?pt b = (if page_no b = page_no a
            then snd (cls (eic_flags e) (get_pte pt b)) else get_pte pt b)"
          using get_pte_cong [of b a pt] by (cases "page_no b = page_no a") (auto simp: get_set_pte)
        ultimately show "get_pte pt' b = (if page_no b \<in> {page_no a..<page_no a + Suc m}
            then snd (cls (eic_flags e) (get_pte pt b)) else get_pte pt b)" by auto
      qed
      have "?b + of_nat (m - 1) * PTE_SIZE = a + of_nat m * PTE_SIZE"
        using r(3) by (cases m) (simp_all add: algebra_simps)
      then show ?thesis using step ok ne r rep fl la add unfolding end_eq
        by (intro exI [of _ "Suc m"] exI [of _ err] exI [of _ e'] exI [of _ pt']) (simp add: pte_reports_Suc)
    qed
  qed
  then show ?case by (simp only: endv_def)
qed


text \<open>Present entries are accessed, for the witnesses.\<close>

definition plain_ops :: kernel_ops where
  "plain_ops = \<lparr>k_invalid_spte = (\<lambda>_. False), k_pte_present = (\<lambda>v. bit v 0), k_pmd_present = (\<lambda>v. bit v 0),
     k_pmd_large = (\<lambda>v. bit v 7), k_pmd_none = (\<lambda>v. v = 0), k_pud_present = (\<lambda>v. bit v 0),
     k_pud_large = (\<lambda>v. bit v 7), k_pud_none = (\<lambda>v. v = 0), k_pud_trans = (\<lambda>v. bit v 7),
     k_p4d_present = (\<lambda>v. bit v 0), k_p4d_none = (\<lambda>v. v = 0), k_p4d_bad = (\<lambda>v. \<not> bit v 0),
     k_pgd_present = (\<lambda>v. bit v 0), k_pgd_none_or_clear_bad = (\<lambda>v. (v = 0, v)), k_task_size = 0x7ffffffff000\<rparr>"

definition accessed_tables :: page_tables where
  "accessed_tables = \<lparr>pgd_of = (\<lambda>_. 7), p4d_of = (\<lambda>_. 7), pud_of = (\<lambda>_. 7), pmd_of = (\<lambda>_. 7), pte_of = (\<lambda>_. 0x107)\<rparr>"


section \<open>The walk returns\<close>

lemma range_loop_returns:
  assumes "a < endv" and "page_aligned a" and "Q s"
    and nx: "\<And>a. a < endv \<Longrightarrow> page_aligned a \<Longrightarrow> a < nx a endv \<and> nx a endv \<le> endv \<and> page_aligned (nx a endv)"
    and body: "\<And>a n s. a < n \<Longrightarrow> n \<le> endv \<Longrightarrow> page_aligned a \<Longrightarrow> page_aligned n \<Longrightarrow> Q s \<Longrightarrow>
                 \<exists>err t. body a n s = Some (err, t) \<and> Q t"
  shows "\<exists>err t. range_loop nx body a endv s = Some (err, t) \<and> Q t"
  using assms(1-3)
proof (induction "unat endv - unat a" arbitrary: a s rule: less_induct)
  case less
  have n: "a < nx a endv" "nx a endv \<le> endv" "page_aligned (nx a endv)" using nx less.prems(1,2) by blast+
  from body [OF n(1,2) less.prems(2) n(3) less.prems(3)] obtain err t where
    b: "body a (nx a endv) s = Some (err, t)" "Q t" by blast
  have step: "range_loop nx body a endv s =
      (if err \<noteq> 0 then Some (err, t)
       else if nx a endv \<noteq> endv then range_loop nx body (nx a endv) endv t else Some (0, t))"
    by (rule range_loop_step [of body a nx endv s err t, OF b(1)])
  show ?case
  proof (cases "err = 0 \<and> nx a endv \<noteq> endv")
    case True
    then have lt: "nx a endv < endv" using n(2) by (simp add: order_less_le)
    have "unat endv - unat (nx a endv) < unat endv - unat a"
      using n(1) less.prems(1) by (simp add: word_less_nat_alt diff_less_mono2)
    from less.hyps [OF this lt n(3) b(2)] True show ?thesis unfolding step by simp
  qed (use step b(2) in auto)
qed

lemma next_page_bounds:
  assumes "a < endv" and "page_aligned a" and "page_aligned endv"
  shows "a < a + PTE_SIZE \<and> a + PTE_SIZE \<le> endv \<and> page_aligned (a + PTE_SIZE)"
proof -
  obtain q r where q: "unat a = 4096 * q" and r: "unat endv = 4096 * r"
    using assms(2,3) unfolding page_aligned_dvd by (elim dvdE) blast
  have "q < r" using assms(1) unfolding word_less_nat_alt q r by simp
  then have le: "unat a + 4096 \<le> unat endv" unfolding q r by simp
  have "unat a + 1 * 4096 < 2 ^ 64"
  proof -
    have "unat endv < 2 ^ 64" using unsigned_less [of endv, where ?'a = nat] by simp
    moreover have "unat endv = 4096 * r" by (rule r)
    ultimately show ?thesis using le by linarith
  qed
  then have "unat (a + PTE_SIZE) = unat a + 4096" using unat_add_pages [of a 1] by simp
  then show ?thesis using le q by (simp add: word_less_nat_alt word_le_nat_alt page_aligned_dvd)
qed

text \<open>
  A user of the generic walk whose callbacks return on ranges of whole pages and keep a predicate of
  the user's state; the areas are sorted ranges of whole pages.
\<close>

definition areas_ok :: "vma list \<Rightarrow> bool" where
  "areas_ok vmas \<longleftrightarrow>
     (\<forall>v \<in> set vmas. vm_start v < vm_end v \<and> page_aligned (vm_start v) \<and> page_aligned (vm_end v)) \<and>
     sorted_wrt (\<lambda>v w. vm_end v \<le> vm_start w) vmas"

definition callback_ok :: "('a \<Rightarrow> bool) \<Rightarrow> ('a \<times> page_tables) range_body \<Rightarrow> bool" where
  "callback_ok Q f \<longleftrightarrow>
     (\<forall>a n x pt. a < n \<longrightarrow> page_aligned a \<longrightarrow> page_aligned n \<longrightarrow> Q x \<longrightarrow>
        (\<exists>err y pt'. f a n (x, pt) = Some (err, y, pt') \<and> Q y))"

lemma callback_okD:
  "callback_ok Q f \<Longrightarrow> a < n \<Longrightarrow> page_aligned a \<Longrightarrow> page_aligned n \<Longrightarrow> Q (fst s) \<Longrightarrow>
     \<exists>err t. f a n s = Some (err, t) \<and> Q (fst t)"
  by (cases s) (fastforce simp: callback_ok_def)

lemma callback_okI:
  "(\<And>a n s. a < n \<Longrightarrow> page_aligned a \<Longrightarrow> page_aligned n \<Longrightarrow> Q (fst s) \<Longrightarrow>
      \<exists>err t. f a n s = Some (err, t) \<and> Q (fst t)) \<Longrightarrow> callback_ok Q f"
  unfolding callback_ok_def by (metis fst_conv prod.collapse)

lemma range_loop_ok:
  assumes "callback_ok Q body"
    and "\<And>a e. a < e \<Longrightarrow> page_aligned a \<Longrightarrow> page_aligned e \<Longrightarrow> a < nx a e \<and> nx a e \<le> e \<and> page_aligned (nx a e)"
  shows "callback_ok Q (range_loop nx body)"
proof (rule callback_okI)
  fix a n s assume p: "a < n" "page_aligned a" "page_aligned n" "Q (fst (s :: 'a \<times> page_tables))"
  show "\<exists>err t. range_loop nx body a n s = Some (err, t) \<and> Q (fst t)"
    by (rule range_loop_returns [where Q = "\<lambda>s. Q (fst s)", OF p(1,2,4)])
      (use assms p callback_okD in \<open>blast+\<close>)
qed

lemma level_ok: "callback_ok Q body \<Longrightarrow> 12 \<le> k \<Longrightarrow> k < 64 \<Longrightarrow> callback_ok Q (range_loop (addr_end k) body)"
  by (rule range_loop_ok) (use addr_end_bounds in auto)

locale walk_client =
  fixes K :: kernel_ops and w :: "'a mm_walk" and Q :: "'a \<Rightarrow> bool"
  assumes pmd_entry_ok: "w_pmd_entry w = Some f \<Longrightarrow> callback_ok Q f"
    and pud_entry_ok: "w_pud_entry w = Some f \<Longrightarrow> callback_ok Q f"
    and pte_hole_ok: "w_pte_hole w = Some f \<Longrightarrow> callback_ok Q f"
    and no_hugetlb_entry: "w_hugetlb_entry w = None"
begin

lemma walk_hole_ok: "callback_ok Q (walk_hole w)"
proof (cases "w_pte_hole w")
  case None
  then show ?thesis by (intro callback_okI) (simp add: walk_hole_def)
next
  case (Some f)
  then have "walk_hole w = f" by (intro ext) (simp add: walk_hole_def)
  then show ?thesis using pte_hole_ok [OF Some] by simp
qed

lemma walk_pmd_range_ok: "callback_ok Q (walk_pmd_range K w vm)"
  unfolding walk_pmd_range_def
proof (rule level_ok)
  show "callback_ok Q (\<lambda>addr nxt s.
      if k_pmd_none K (get_pmd (snd s) addr) \<or> vm = None then walk_hole w addr nxt s
      else case w_pmd_entry w of None \<Rightarrow> Some (0, s) | Some f \<Rightarrow> f addr nxt s)"
    by (intro callback_okI)
      (use callback_okD [OF walk_hole_ok] callback_okD [OF pmd_entry_ok] in \<open>auto split: option.splits\<close>)
qed simp_all

lemma walk_pud_range_ok: "callback_ok Q (walk_pud_range K w vm)"
  unfolding walk_pud_range_def
proof (rule level_ok)
  show "callback_ok Q (\<lambda>addr nxt s.
      if k_pud_none K (get_pud (snd s) addr) \<or> vm = None then walk_hole w addr nxt s
      else case (w_pud_entry w, k_pud_trans K (get_pud (snd s) addr)) of
             (Some f, True) \<Rightarrow> f addr nxt s
           | _ \<Rightarrow> if w_pmd_entry w \<noteq> None \<or> w_pte_entry w then walk_pmd_range K w vm addr nxt s else Some (0, s))"
    by (intro callback_okI)
      (use callback_okD [OF walk_hole_ok] callback_okD [OF pud_entry_ok] callback_okD [OF walk_pmd_range_ok] in
        \<open>auto split: option.splits bool.splits\<close>)
qed simp_all

lemma walk_p4d_range_ok: "callback_ok Q (walk_p4d_range K w vm)"
  unfolding walk_p4d_range_def
proof (rule level_ok)
  show "callback_ok Q (\<lambda>addr nxt (x, pt).
      let (none, pt) = ept_idle_p4d_none_or_clear_bad K addr pt
      in if none then walk_hole w addr nxt (x, pt)
         else if w_pmd_entry w \<noteq> None \<or> w_pte_entry w then walk_pud_range K w vm addr nxt (x, pt)
         else Some (0, x, pt))"
    by (intro callback_okI)
      (use callback_okD [OF walk_hole_ok] callback_okD [OF walk_pud_range_ok] in
        \<open>simp add: split_beta Let_def\<close>)
qed simp_all

lemma walk_pgd_range_ok: "callback_ok Q (walk_pgd_range K w vm)"
  unfolding walk_pgd_range_def
proof (rule level_ok)
  show "callback_ok Q (\<lambda>addr nxt (x, pt).
      let (none, v) = k_pgd_none_or_clear_bad K (get_pgd pt addr); pt = set_pgd addr v pt
      in if none then walk_hole w addr nxt (x, pt)
         else if w_pmd_entry w \<noteq> None \<or> w_pte_entry w then walk_p4d_range K w vm addr nxt (x, pt)
         else Some (0, x, pt))"
    by (intro callback_okI)
      (use callback_okD [OF walk_hole_ok] callback_okD [OF walk_p4d_range_ok] in
        \<open>simp add: split_beta Let_def\<close>)
qed simp_all

lemma walk_one_range_ok: "callback_ok Q (walk_one_range K w vm)"
proof (rule callback_okI)
  fix a n s assume p: "a < n" "page_aligned a" "page_aligned n" "Q (fst (s :: 'a \<times> page_tables))"
  note walk = callback_okD [OF walk_pgd_range_ok p]
  show "\<exists>err t. walk_one_range K w vm a n s = Some (err, t) \<and> Q (fst t)"
  proof (cases vm)
    case None
    then show ?thesis using walk by (simp only: walk_one_range_def option.case)
  next
    case (Some v)
    show ?thesis
    proof (cases "vm_hugetlb v")
      case True
      then show ?thesis using p(4) by (simp add: walk_one_range_def Some no_hugetlb_entry)
    next
      case False
      then show ?thesis using walk by (simp only: walk_one_range_def Some option.case if_False)
    qed
  qed
qed

lemma walk_page_test_ok: "callback_ok Q (walk_page_test w v)"
proof (rule callback_okI)
  fix a n s assume p: "a < n" "page_aligned a" "page_aligned n" "Q (fst (s :: 'a \<times> page_tables))"
  have hole: "\<exists>err t. f a n s = Some (err, t) \<and> Q (fst t)" if "w_pte_hole w = Some f" for f
    using callback_okD [OF pte_hole_ok [OF that] p] .
  show "\<exists>err t. walk_page_test w v a n s = Some (err, t) \<and> Q (fst t)"
  proof (cases "w_test_walk w = None \<and> vm_flags v AND VM_PFNMAP \<noteq> 0 \<and> w_pte_hole w \<noteq> None")
    case True
    then obtain f where f: "w_pte_hole w = Some f" by blast
    obtain err t where "f a n s = Some (err, t)" "Q (fst t)" using hole [OF f] by blast
    then show ?thesis using True f by (simp add: walk_page_test_def)
  qed (use p(4) in \<open>auto simp: walk_page_test_def simp del: split_paired_Ex split: option.split\<close>)
qed

lemma walk_areas_ok:
  assumes "start < endv" and "page_aligned start" and "page_aligned endv" and "areas_ok vmas"
    and "\<forall>v \<in> set vmas. start < vm_end v" and "Q (fst s)"
  shows "\<exists>err t. walk_areas K w vmas start endv s = Some (err, t) \<and> Q (fst t)"
  using assms
proof (induction "unat endv - unat start" arbitrary: start vmas s rule: less_induct)
  case less
  define cur where "cur =
     (case vmas of [] \<Rightarrow> (None, endv, [])
      | v # vs \<Rightarrow> if start < vm_start v then (None, min endv (vm_start v), vmas)
                  else (Some v, min endv (vm_end v), vs))"
  obtain vm nxt rest where cur': "cur = (vm, nxt, rest)" by (cases cur)
  have n: "start < nxt" "nxt \<le> endv" "page_aligned nxt"
    using cur' less.prems by (auto simp: cur_def areas_ok_def min_def split: list.splits if_splits)
  have ao: "areas_ok rest"
    using cur' less.prems(4) by (auto simp: cur_def areas_ok_def split: list.splits if_splits)
  have rest: "\<forall>v \<in> set rest. nxt < vm_end v" if "nxt < endv"
    using cur' less.prems(4) that
    by (force simp: cur_def areas_ok_def min_def split: list.splits if_splits)
  obtain test s1 where t: "(case vm of None \<Rightarrow> Some (0, s) | Some v \<Rightarrow> walk_page_test w v start nxt s) = Some (test, s1)"
      "Q (fst s1)"
    using callback_okD [OF walk_page_test_ok n(1) less.prems(2) n(3) less.prems(6)] less.prems(6)
    by (cases vm) fastforce+
  obtain err s2 where b: "(if test > 0 then Some (0, s1)
        else if vm \<noteq> None \<or> w_pte_hole w \<noteq> None then walk_one_range K w vm start nxt s1 else Some (0, s1)) = Some (err, s2)"
      "Q (fst s2)"
    using callback_okD [OF walk_one_range_ok n(1) less.prems(2) n(3) t(2), of vm] t(2)
    by (cases "test > 0"; cases "vm \<noteq> None \<or> w_pte_hole w \<noteq> None") auto
  have step: "walk_areas K w vmas start endv s =
      (if test < 0 then Some (test, s1)
       else if err \<noteq> 0 then Some (err, s2)
       else if nxt < endv then walk_areas K w rest nxt endv s2 else Some (0, s2))"
    by (subst walk_areas.simps) (simp only: cur_def [symmetric] cur' Let_def prod.case t(1) b(1) Option.bind.simps split: if_split)
  show ?case
  proof (cases "\<not> test < 0 \<and> err = 0 \<and> nxt < endv")
    case True
    have "unat endv - unat nxt < unat endv - unat start"
      using n(1) less.prems(1) by (simp add: word_less_nat_alt diff_less_mono2)
    from less.hyps [OF this _ n(3) less.prems(3) ao rest b(2)] True show ?thesis unfolding step by simp
  qed (use step t(2) b(2) in \<open>auto simp del: split_paired_Ex\<close>)
qed

theorem walk_page_range_ok:
  assumes "start < endv" and "page_aligned start" and "page_aligned endv" and "areas_ok vmas" and "Q (fst s)"
  shows "\<exists>err t. ept_idle_walk_page_range K w (Some vmas) start endv s = Some (err, t) \<and> Q (fst t)"
proof -
  have "areas_ok (find_vma vmas start)"
  proof -
    have "\<exists>pre. vmas = pre @ find_vma vmas start" by (metis find_vma_def takeWhile_dropWhile_id)
    then obtain pre where "vmas = pre @ find_vma vmas start" by blast
    then show ?thesis using assms(4) unfolding areas_ok_def by (metis UnCI set_append sorted_wrt_append)
  qed
  moreover have "\<forall>v \<in> set (find_vma vmas start). start < vm_end v"
    using assms(4) unfolding areas_ok_def find_vma_def
  proof (induction vmas)
    case (Cons v vs)
    show ?case
    proof (cases "vm_end v \<le> start")
      case False
      then have "start < vm_end v" by simp
      moreover have "vm_end v < vm_end x" if "x \<in> set vs" for x
        using Cons.prems that by fastforce
      ultimately show ?thesis using False by fastforce
    qed (use Cons in auto)
  qed simp
  ultimately have "\<exists>err t. walk_areas K w (find_vma vmas start) start endv s = Some (err, t) \<and> Q (fst t)"
    using walk_areas_ok [OF assms(1-3) _ _ assms(5), of "find_vma vmas start"] by blast
  moreover have "\<not> start \<ge> endv" using assms(1) by simp
  ultimately show ?thesis by (simp only: ept_idle_walk_page_range_def if_False option.case)
qed

end

section \<open>A chunk of the scan of a process\<close>

text \<open>The walk writes to the kernel's buffer only, within its limit, and resumes at a page.\<close>

definition in_chunk :: "ept_idle_ctrl \<Rightarrow> ept_idle_ctrl \<Rightarrow> bool" where
  "in_chunk e0 e \<longleftrightarrow> kbuf_ok e \<and> page_aligned (restart_gpa e) \<and> pie_read_max e = pie_read_max e0 \<and>
     ubuf e = ubuf e0 \<and> buf_size e = buf_size e0 \<and> bytes_copied e = bytes_copied e0"

lemma page_aligned_succ:
  assumes "unat (z :: u64) mod 4096 = 4095"
  shows "page_aligned (z + 1)"
proof -
  have z: "(unat z + 1) mod 4096 = 0" using assms by (simp add: mod_Suc)
  have d: "(4096 :: nat) dvd 2 ^ 64" by simp
  have "(unat z + 1) mod 2 ^ 64 mod 4096 = 0" unfolding mod_mod_cancel [OF d] by (rule z)
  moreover have "unat (z + 1) = (unat z + 1) mod 2 ^ 64" by (simp only: unat_word_ariths) simp
  ultimately show ?thesis unfolding page_aligned_dvd dvd_eq_mod_eq_0 by (simp only:)
qed

lemma round_up_page_aligned:
  assumes "12 \<le> k"
  shows "page_aligned (round_up x (2 ^ k))"
proof -
  let ?y = "(x - 1) OR mask k"
  have y: "take_bit 12 ?y = mask 12" by (rule bit_word_eqI) (use assms in \<open>auto simp: bit_simps\<close>)
  have "unat ?y mod 4096 = unat (take_bit 12 ?y)"
    by (simp only: unsigned_take_bit_eq) (simp add: take_bit_eq_mod)
  also have "\<dots> = 4095" unfolding y by (simp add: mask_eq_exp_minus_1)
  finally have "page_aligned (?y + 1)" by (rule page_aligned_succ)
  then show ?thesis by (simp add: round_up_def mask_eq_exp_minus_1)
qed

lemma eic_add_page_chunk:
  assumes "in_chunk e0 e" and "page_aligned addr" and "t \<le> 9" and "eic_add_page e addr nxt t = (err, e')"
  shows "in_chunk e0 e'"
proof -
  have k: "kbuf_ok e'" using eic_add_page_kbuf [OF _ assms(4)] assms(1) by (simp add: in_chunk_def)
  have "12 \<le> pagetype_shift t" using page_type_cases [OF assms(3)] by (auto simp: pagetype_shift_def)
  then have "page_aligned (round_up nxt (pagetype_size t))"
    using round_up_page_aligned pagetype_size_shift(1) [OF assms(3)] by simp
  then have "page_aligned (restart_gpa e')"
    using assms(1,2,4) by (auto simp: in_chunk_def eic_add_page_def eic_report_addr_def Let_def split: if_splits)
  then show ?thesis using assms(1,4) k
    by (auto simp: in_chunk_def eic_add_page_def eic_report_addr_def Let_def split: if_splits)
qed

lemma pte_range_ok:
  assumes "\<And>flags v. fst (cls flags v) \<le> 9"
  shows "callback_ok (in_chunk e0) (range_loop (\<lambda>addr _. addr + PTE_SIZE) (pte_body cls))"
proof (rule range_loop_ok)
  show "callback_ok (in_chunk e0) (pte_body cls)"
    unfolding callback_ok_def
  proof (intro allI impI)
    fix a n e pt assume a: "page_aligned a" and e: "in_chunk e0 e"
    obtain t v where tv: "cls (eic_flags e) (get_pte pt a) = (t, v)" by fastforce
    obtain err e1 where add: "eic_add_page e a n t = (err, e1)" by fastforce
    have "t \<le> 9" using assms [of "eic_flags e" "get_pte pt a"] tv by simp
    from eic_add_page_chunk [OF e a this add] tv add
    show "\<exists>err y pt'. pte_body cls a n (e, pt) = Some (err, y, pt') \<and> in_chunk e0 y"
      by (simp add: pte_body_def)
  qed
qed (use next_page_bounds in blast)

lemma mm_types: "fst (mm_idle_pte_type K v) \<le> 9" "fst (mm_idle_pmd_type K flags v) \<noteq> 11 \<Longrightarrow> fst (mm_idle_pmd_type K flags v) \<le> 9"
  by (auto simp: mm_idle_pte_type_def mm_idle_pmd_type_def test_and_clear_bit_def pte_page_type_def)

lemma in_chunk_last_va [simp]: "in_chunk e0 (e\<lparr>last_va := v\<rparr>) = in_chunk e0 e"
  by (simp add: in_chunk_def kbuf_ok_def)

lemma mm_idle_pmd_entry_ok: "callback_ok (in_chunk e0) (mm_idle_pmd_entry K)"
  unfolding callback_ok_def
proof (intro allI impI)
  fix a n e pt assume p: "a < n" "page_aligned a" "page_aligned n" and e: "in_chunk e0 e"
  let ?e = "e\<lparr>last_va := a\<rparr>"
  have e': "in_chunk e0 ?e" using e by simp
  obtain t v where tv: "mm_idle_pmd_type K (eic_flags ?e) (get_pmd pt a) = (t, v)" by fastforce
  show "\<exists>err y pt'. mm_idle_pmd_entry K a n (e, pt) = Some (err, y, pt') \<and> in_chunk e0 y"
  proof (cases "a AND PMD_MASK = last_va e AND PMD_MASK")
    case True
    then show ?thesis using e by (simp add: mm_idle_pmd_entry_def)
  next
    case False
    show ?thesis
    proof (cases "t = 11")
      case True
      have "callback_ok (in_chunk e0) (mm_idle_pte_range K)"
        unfolding pte_ranges by (rule pte_range_ok) (rule mm_types)
      then obtain err y pt' where "mm_idle_pte_range K a n (?e, set_pmd a v pt) = Some (err, y, pt')" "in_chunk e0 y"
        using p e' unfolding callback_ok_def by blast
      then show ?thesis using False True tv by (simp add: mm_idle_pmd_entry_def)
    next
      case nt: False
      obtain err e1 where add: "eic_add_page ?e a n t = (err, e1)" by fastforce
      have "t \<le> 9" using mm_types(2) [of K "eic_flags ?e" "get_pmd pt a"] tv nt by simp
      from eic_add_page_chunk [OF e' p(2) this add] show ?thesis using False nt tv add
        by (simp add: mm_idle_pmd_entry_def)
    qed
  qed
qed

lemma mm_idle_pud_entry_ok: "callback_ok (in_chunk e0) mm_idle_pud_entry"
  unfolding callback_ok_def
proof (intro allI impI)
  fix a n e pt assume a: "page_aligned a" and e: "in_chunk e0 e"
  obtain err e1 where add: "eic_add_page e a n PUD_PRESENT = (err, e1)" by fastforce
  have "in_chunk e0 e1" using eic_add_page_chunk [OF e a _ add] by simp
  then show "\<exists>err y pt'. mm_idle_pud_entry a n (e, pt) = Some (err, y, pt') \<and> in_chunk e0 y"
    using e add by (simp add: mm_idle_pud_entry_def)
qed

interpretation mm_scan: walk_client K "mm_idle_walk K" "in_chunk e0" for K e0
  by unfold_locales (use mm_idle_pmd_entry_ok mm_idle_pud_entry_ok in \<open>auto simp: mm_idle_walk_def\<close>)

lemma mm_step_ok:
  assumes "in_chunk e e" and "start < endv" and "page_aligned start" and "page_aligned endv"
    and "areas_ok vmas" and "page_aligned (k_task_size K)"
  shows "\<exists>e' pt'. mm_step K vmas start endv (e, pt) = Some (e', pt') \<and> in_chunk e e'"
proof (cases "find_vma vmas start")
  case Nil
  then show ?thesis using assms(1,6) by (simp add: mm_step_def in_chunk_def kbuf_ok_def)
next
  case (Cons v vs)
  have "v \<in> set vmas" using Cons unfolding find_vma_def by (metis list.set_intros(1) set_dropWhileD)
  then have v: "page_aligned (vm_start v)" using assms(5) by (simp add: areas_ok_def)
  show ?thesis
  proof (cases "endv > vm_start v")
    case True
    obtain err t where "ept_idle_walk_page_range K (mm_idle_walk K) (Some vmas) start endv (e, pt) = Some (err, t)"
        "in_chunk e (fst t)"
      using mm_scan.walk_page_range_ok [OF assms(2-5), of e "(e, pt)" K] assms(1)
      by (auto simp del: split_paired_Ex)
    then show ?thesis using Cons True by (cases t) (simp add: mm_step_def)
  next
    case False
    then show ?thesis using Cons v assms(1) by (simp add: mm_step_def in_chunk_def kbuf_ok_def)
  qed
qed

section \<open>A read of the pages of a process\<close>

definition copied_ok :: "ept_idle_ctrl \<Rightarrow> bool" where
  "copied_ok e \<longleftrightarrow> int (length (ubuf e)) = bytes_copied e \<and> bytes_copied e \<le> buf_size e"

definition has_room :: "ept_idle_ctrl \<Rightarrow> bool" where
  "has_room e \<longleftrightarrow> copied_ok e \<and> in_chunk e e \<and> pie_read_max e + 9 \<le> buf_size e - bytes_copied e"

lemma init_room:
  assumes "init_ept_idle_ctrl_buffer e = (ret, e')" and "copied_ok e" and "page_aligned (restart_gpa e)"
  shows "copied_ok e'" and "buf_size e' = buf_size e" and "bytes_copied e' = bytes_copied e"
    and "ret = 0 \<Longrightarrow> 9 \<le> buf_size e - bytes_copied e \<Longrightarrow> has_room e'"
proof -
  show "copied_ok e'" "buf_size e' = buf_size e" "bytes_copied e' = bytes_copied e"
    using assms by (auto simp: init_ept_idle_ctrl_buffer_def Let_def copied_ok_def split: if_splits)
  assume r: "ret = 0" and n: "9 \<le> buf_size e - bytes_copied e"
  then have i: "init_ept_idle_ctrl_buffer e = (0, e')" using assms(1) by simp
  have f: "ubuf e' = ubuf e" "restart_gpa e' = restart_gpa e" "buf_size e' = buf_size e" "bytes_copied e' = bytes_copied e"
    using i by (auto simp: init_ept_idle_ctrl_buffer_def Let_def split: if_splits)
  show "has_room e'" using init_buffer_ok [OF i n] assms(2,3) f
    by (simp add: has_room_def in_chunk_def copied_ok_def)
qed

lemma copy_user_ok:
  assumes "has_room e0" and "in_chunk e0 e" and "ept_idle_copy_user e fault start endv = (ret, e')"
  shows "copied_ok e'" and "buf_size e' = buf_size e0"
    and "ret = 0 \<Longrightarrow> start < endv \<Longrightarrow> has_room e' \<and> bytes_copied e0 < bytes_copied e'"
proof -
  let ?lc = "pie_read e = 0"
  let ?start = "if ?lc \<and> start < endv then endv else start"
  define e1 where "e1 = (if ?start \<ge> endv \<and> ?start > next_hva e
                         then eic_report_addr (e\<lparr>next_hva := ?start\<rparr>) ?start else e)"
  define e2 where "e2 = e1\<lparr>ubuf := ubuf e1 @ map (kpie e1) [0..<pie_read e1],
                          bytes_copied := bytes_copied e1 + int (pie_read e1)\<rparr>"
  have e1: "ubuf e1 = ubuf e" "buf_size e1 = buf_size e" "bytes_copied e1 = bytes_copied e"
    "restart_gpa e1 = restart_gpa e" "pie_read e1 \<le> pie_read e + 9"
    by (auto simp: e1_def eic_report_addr_def Let_def)
  have lim: "int (pie_read e) \<le> pie_read_max e0" "pie_read_max e0 + 9 \<le> buf_size e0 - bytes_copied e0"
    and same: "ubuf e = ubuf e0" "buf_size e = buf_size e0" "bytes_copied e = bytes_copied e0"
      "page_aligned (restart_gpa e)" "copied_ok e0"
    using assms(1,2) by (auto simp: has_room_def in_chunk_def kbuf_ok_def)
  have c1: "copied_ok e1" using same e1 by (simp add: copied_ok_def)
  have c2: "copied_ok e2" using same e1 lim by (simp add: copied_ok_def e2_def)
  have run: "ept_idle_copy_user e fault start endv =
      (if pie_read e1 = 0 then (1, e1) else if fault then (- 14, e1)
       else if bytes_copied e2 \<ge> buf_size e2 then (EPT_IDLE_BUF_FULL, e2)
       else if ?lc then (1, e2) else init_ept_idle_ctrl_buffer e2)"
    unfolding ept_idle_copy_user_def Let_def e1_def [symmetric] e2_def [symmetric] by (rule refl)
  have al2: "page_aligned (restart_gpa e2)" using same(4) e1(4) by (simp add: e2_def)
  have init: "init_ept_idle_ctrl_buffer e2 = (ret, e')" if "\<not> (pie_read e1 = 0 \<or> fault \<or> bytes_copied e2 \<ge> buf_size e2 \<or> ?lc)"
    using assms(3) run that by simp
  have fin: "e' = e1 \<or> e' = e2 \<or> init_ept_idle_ctrl_buffer e2 = (ret, e')"
    using assms(3) unfolding run by (auto split: if_splits)
  show "copied_ok e'" using fin c1 c2 init_room(1) [OF _ c2 al2] by blast
  show "buf_size e' = buf_size e0"
    using fin init_room(2) [OF _ c2 al2] e1(2) same(2) by (auto simp: e2_def)
  assume r: "ret = 0" and lt: "start < endv"
  have nz: "\<not> (pie_read e1 = 0 \<or> fault \<or> bytes_copied e2 \<ge> buf_size e2 \<or> ?lc)"
    using assms(3) r unfolding run by (auto simp: EPT_IDLE_BUF_FULL_def split: if_splits)
  then have "e1 = e" using lt by (auto simp: e1_def)
  then have "9 \<le> buf_size e2 - bytes_copied e2" using lim same by (simp add: e2_def)
  from init_room(4) [OF init [OF nz] c2 al2 r this] have "has_room e'" .
  moreover have "bytes_copied e0 < bytes_copied e'"
    using init_room(3) [OF init [OF nz] c2 al2] same(3) e1(3) nz by (simp add: e2_def)
  ultimately show "has_room e' \<and> bytes_copied e0 < bytes_copied e'" by blast
qed

lemma mm_loop_ok:
  assumes "has_room e" and "page_aligned start" and "page_aligned endv" and "areas_ok vmas"
    and "page_aligned (k_task_size K)"
  shows "\<exists>ret e' pt'. mm_loop K vmas faults start endv (e, pt) = Some (ret, e', pt') \<and> copied_ok e' \<and>
           buf_size e' = buf_size e"
  using assms(1,2)
proof (induction "nat (buf_size e - bytes_copied e)" arbitrary: e start pt rule: less_induct)
  case less
  note room = less.prems(1)
  show ?case
  proof (cases "start < endv")
    case False
    then show ?thesis using room by (subst mm_loop.simps) (simp add: has_room_def)
  next
    case True
    have ch: "in_chunk e e" using room by (simp add: has_room_def)
    obtain e1 pt1 where s: "mm_step K vmas start endv (e, pt) = Some (e1, pt1)" "in_chunk e e1"
      using mm_step_ok [OF ch True less.prems(2) assms(3-5)] by blast
    obtain ret e2 where c: "ept_idle_copy_user e1 (faults (bytes_copied e1)) (restart_gpa e1) endv = (ret, e2)"
      by fastforce
    note ok = copy_user_ok [OF room s(2) c]
    have step: "mm_loop K vmas faults start endv (e, pt) =
        (if ret \<noteq> 0 then Some (ret, e2, pt1) else mm_loop K vmas faults (restart_gpa e1) endv (e2, pt1))"
      using True by (subst mm_loop.simps) (simp add: s(1) c)
    show ?thesis
    proof (cases "ret = 0")
      case False
      then show ?thesis using step ok(1,2) by simp
    next
      case r: True
      show ?thesis
      proof (cases "restart_gpa e1 < endv")
        case False
        then have "mm_loop K vmas faults (restart_gpa e1) endv (e2, pt1) = Some (0, e2, pt1)"
          by (subst mm_loop.simps) simp
        then show ?thesis using step r ok(1,2) by simp
      next
        case lt: True
        have room2: "has_room e2" and more: "bytes_copied e < bytes_copied e2" using ok(3) [OF r lt] by simp_all
        have "bytes_copied e2 \<le> buf_size e2" using room2 by (simp add: has_room_def copied_ok_def)
        then have "nat (buf_size e2 - bytes_copied e2) < nat (buf_size e - bytes_copied e)"
          using more ok(2) by linarith
        moreover have "page_aligned (restart_gpa e1)" using s(2) by (simp add: in_chunk_def)
        ultimately show ?thesis using less.hyps [OF _ room2, of "restart_gpa e1" pt1] step r ok(2) by simp
      qed
    qed
  qed
qed

lemma mm_idle_walk_range_ok:
  assumes "copied_ok e" and "bytes_copied e = 0" and "9 \<le> buf_size e" and "page_aligned (restart_gpa e)"
    and "page_aligned start" and "page_aligned endv" and "areas_ok vmas" and "page_aligned (k_task_size K)"
  shows "\<exists>ret e' pt'. mm_idle_walk_range K vmas faults start endv (e, pt) = Some (ret, e', pt') \<and> copied_ok e' \<and>
           buf_size e' = buf_size e \<and> (bytes_copied e' \<noteq> 0 \<longrightarrow> ret = 0)"
proof -
  obtain r1 e1 where i: "init_ept_idle_ctrl_buffer e = (r1, e1)" by fastforce
  note ini = init_room [OF i assms(1,4)]
  show ?thesis
  proof (cases "r1 = 0")
    case False
    then show ?thesis using i ini(1-3) assms(2) by (simp add: mm_idle_walk_range_def)
  next
    case True
    have room: "has_room e1" using ini(4) True assms(2,3) by simp
    from mm_loop_ok [OF room assms(5-8), of faults pt] obtain ret e' pt' where
      "mm_loop K vmas faults start endv (e1, pt) = Some (ret, e', pt')" "copied_ok e'" "buf_size e' = buf_size e1" by blast
    then show ?thesis using i True ini(2) by (simp add: mm_idle_walk_range_def)
  qed
qed

lemma page_aligned_add: "page_aligned a \<Longrightarrow> page_aligned b \<Longrightarrow> page_aligned (a + b)"
proof -
  assume "page_aligned a" "page_aligned b"
  then have "4096 dvd unat a + unat b" by (simp add: page_aligned_dvd)
  moreover have d: "(4096 :: nat) dvd 2 ^ 64" by simp
  ultimately have "4096 dvd (unat a + unat b) mod 2 ^ 64" by (rule dvd_mod)
  moreover have "unat (a + b) = (unat a + unat b) mod 2 ^ 64" by (simp only: unat_word_ariths) simp
  ultimately show ?thesis unfolding page_aligned_dvd by (simp only:)
qed

lemma page_aligned_push: "12 \<le> k \<Longrightarrow> page_aligned (push_bit k a)"
  unfolding page_aligned_def by (intro bit_word_eqI) (auto simp: bit_simps)

lemma read_check_None:
  assumes "read_check pos count = None"
  shows "pos < pos + push_bit 15 count" and "page_aligned pos" and "19 \<le> unat count"
  using assms
  by (auto simp: read_check_def page_aligned_def KERNEL_BUF_MIN_def word_le_nat_alt word_less_nat_alt not_le not_less
      take_bit_eq_mask mask_eq_exp_minus_1 split: if_splits)

lemma sint_count: "unat (count :: u64) < 2 ^ 31 \<Longrightarrow> sint (ucast count :: u32) = int (unat count)"
proof -
  assume c: "unat count < 2 ^ 31"
  then have "unat (ucast count :: u32) = unat count" by (simp add: unsigned_ucast_eq take_bit_nat_eq_self)
  then have u: "uint (ucast count :: u32) = int (unat count)" by (simp only: uint_nat)
  have "int (unat count) < int (2 ^ 31)" using c by (simp only: of_nat_less_iff)
  then have "int (unat count) < 2 ^ 31" by simp
  then show ?thesis by (simp only: sint_uint u) 
    (simp add: signed_take_bit_int_eq_self_iff order_trans [OF _ uint_ge_0])
qed

text \<open>
  C21: A read of the pages of a process returns, whatever its page tables hold, when its areas are
  sorted ranges of whole pages, and wherever copying to the user fails; for a count below 2^31 it
  never copies more bytes than it was asked for; when it copied some, their number is the result,
  and the position is where the scan goes on.
\<close>

theorem mm_idle_read_returns:
  assumes "areas_ok (mm_vmas mm)" and "page_aligned (k_task_size K)" and "unat count < 2 ^ 31"
  shows "\<exists>ret f'. mm_idle_read K faults count e mm f = Some (ret, f') \<and>
           (f' = f \<and> ret \<le> 0 \<or>
            (\<exists>e'. f_eic f' = Some e' \<and> length (ubuf e') \<le> unat count \<and>
                  (ubuf e' \<noteq> [] \<longrightarrow> ret = int (length (ubuf e')) \<and> f_pos f' = next_hva e')))"
proof (cases "read_check (f_pos f) count")
  case (Some ret)
  then have "ret \<le> 0" by (auto simp: read_check_def KERN_EINVAL_def split: if_splits)
  then show ?thesis using Some by (simp add: mm_idle_read_def)
next
  case None
  note rc = read_check_None [OF None]
  let ?e = "setup_ept_idle_ctrl e (sint (ucast count :: u32)) (f_flags f)"
  let ?stop = "f_pos f + push_bit (3 + 12) count"
  have e: "copied_ok ?e" "bytes_copied ?e = 0" "buf_size ?e = int (unat count)" "page_aligned (restart_gpa ?e)"
    using sint_count [OF assms(3)] by (simp_all add: setup_ept_idle_ctrl_def copied_ok_def page_aligned_dvd)
  have "page_aligned ?stop" by (intro page_aligned_add rc(2) page_aligned_push) simp
  moreover have "9 \<le> buf_size ?e" using e(3) rc(3) by linarith
  ultimately obtain ret e' pt' where r:
    "mm_idle_walk_range K (mm_vmas mm) faults (f_pos f) ?stop (?e, mm_tables mm) = Some (ret, e', pt')"
    "copied_ok e'" "buf_size e' = buf_size ?e" "bytes_copied e' \<noteq> 0 \<longrightarrow> ret = 0"
    using mm_idle_walk_range_ok [OF e(1,2) _ e(4) rc(2) _ assms(1,2), of ?stop faults "mm_tables mm"] by blast
  have "int (length (ubuf e')) = bytes_copied e'" "length (ubuf e') \<le> unat count"
  proof -
    show c: "int (length (ubuf e')) = bytes_copied e'" using r(2) by (simp add: copied_ok_def)
    have "bytes_copied e' \<le> int (unat count)" using r(2,3) e(3) unfolding copied_ok_def by linarith
    then show "length (ubuf e') \<le> unat count" unfolding c [symmetric] by (simp only: of_nat_le_iff)
  qed
  then show ?thesis using None r(1,4)
    by (cases "ret = 0") (auto simp: mm_idle_read_def finish_read_def)
qed

theorem mm_idle_read_returns_witness:
  "\<exists>ret f'. mm_idle_read plain_ops (\<lambda>_. False) 4096 zero_eic
       \<lparr>mm_vmas = [\<lparr>vm_start = 0x1000, vm_end = 0x5000, vm_file = False, vm_flags = 0, vm_hugetlb = False, vm_hshift = 21\<rparr>],
        mm_tables = accessed_tables\<rparr>
       \<lparr>f_eic = Some zero_eic, f_mm = None, f_kvm = None, f_pos = 0x1000, f_flags = 0\<rparr> = Some (ret, f')"
proof -
  let ?mm = "\<lparr>mm_vmas = [\<lparr>vm_start = 0x1000, vm_end = 0x5000, vm_file = False, vm_flags = 0, vm_hugetlb = False, vm_hshift = 21\<rparr>],
        mm_tables = accessed_tables\<rparr>"
  have "areas_ok (mm_vmas ?mm)" by (simp add: areas_ok_def page_aligned_dvd)
  moreover have "page_aligned (k_task_size plain_ops)" by (simp add: plain_ops_def page_aligned_dvd)
  moreover have "unat (4096 :: u64) < 2 ^ 31" by simp
  ultimately show ?thesis using mm_idle_read_returns [of ?mm plain_ops 4096] by blast
qed

section \<open>What the code gets wrong\<close>

text \<open>
  The accessed bit of the page that no longer fits the buffer is cleared before the page is refused:
  the scan resumes at that page and finds it idle.
\<close>

lemma second_look_is_idle: "fst (ept_pte_type K flags (snd (ept_pte_type K flags' v))) \<in> {PTE_IDLE, PTE_HOLE}"
  by (auto simp: ept_pte_type_def test_and_clear_bit_def bit_unset_bit_iff PAGE_BIT_EPT_ACCESSED_def
      PAGE_BIT_EPT_DIRTY_def Let_def)

lemma full_buffer_loses_access:
  assumes "page_aligned a" and "0 < n" and "unat a + n * 4096 < 2 ^ 64"
    and "ept_pte_range K a (a + of_nat n * PTE_SIZE) (e, pt) = Some (err, e', pt')" and "err \<noteq> 0"
  shows "fst (ept_pte_type K flags (get_pte pt' (restart_gpa e'))) \<in> {PTE_IDLE, PTE_HOLE}"
proof -
  obtain m where m: "0 < m" "m \<le> n" "restart_gpa e' = a + of_nat (m - 1) * PTE_SIZE"
      "looked_at (ept_pte_type K) (eic_flags e) a m pt pt'"
    using pte_loop_exact [OF assms(1-3), of "ept_pte_type K" e pt] assms(4,5) by (auto simp: pte_ranges)
  have "page_no (restart_gpa e') = page_no a + (m - 1)"
    using page_no_add [of a "m - 1"] m(1-3) assms(3) by simp
  then have "get_pte pt' (restart_gpa e') = snd (ept_pte_type K (eic_flags e) (get_pte pt (restart_gpa e')))"
    using m(1,4) unfolding looked_at_def by (cases m) simp_all
  then show ?thesis using second_look_is_idle by metis
qed

text \<open>
  The rest of a 2M range in which the buffer became full is skipped: the second visit of an entry is
  taken for a duplicate, and nothing of it is reported. An area that begins in the 2M range in which
  the area before it ended is skipped in the same way.
\<close>

lemma range_loop_keeps:
  assumes "range_loop nx body a endv s = Some y" and "\<And>a n s err t. body a n s = Some (err, t) \<Longrightarrow> R (fst t) = R (fst s)"
  shows "R (fst (snd y)) = R (fst s)"
proof (rule range_loop.raw_induct [OF _ assms(1),
    where P = "\<lambda>nx body a endv s y. (\<forall>a n s err t. body a n s = Some (err, t) \<longrightarrow> R (fst t) = R (fst s)) \<longrightarrow>
                 R (fst (snd y)) = R (fst s)", THEN mp], goal_cases)
  case (1 f nx body a endv s y)
  show ?case
  proof
    assume b: "\<forall>a n s err t. body a n s = Some (err, t) \<longrightarrow> R (fst t) = R (fst s)"
    obtain err t where bt: "body a (nx a endv) s = Some (err, t)"
      and r: "(if err \<noteq> 0 then Some (err, t) else if nx a endv \<noteq> endv then f nx body (nx a endv) endv t else Some (0, t)) = Some y"
      using 1(2) by (auto split: Option.bind_splits)
    have t: "R (fst t) = R (fst s)" using b bt by blast
    show "R (fst (snd y)) = R (fst s)"
    proof (cases "err = 0 \<and> nx a endv \<noteq> endv")
      case True
      then have "f nx body (nx a endv) endv t = Some y" using r by simp
      from 1(1) [OF this] b t show ?thesis by simp
    qed (use r t in \<open>auto split: if_splits\<close>)
  qed
qed (use assms(2) in blast)

lemma eic_add_page_last_va: "eic_add_page e addr nxt t = (err, e') \<Longrightarrow> last_va e' = last_va e"
  by (auto simp: eic_add_page_def eic_report_addr_def Let_def split: if_splits)

lemma resumed_pmd_is_skipped:
  assumes "mm_idle_pmd_entry K a n (e, pt) = Some (err, e', pt')" and "a AND PMD_MASK = b AND PMD_MASK"
  shows "mm_idle_pmd_entry K b m (e', pt') = Some (0, e', pt')"
proof -
  have pte: "last_va (fst (snd y)) = last_va (fst s)" if "mm_idle_pte_range K a n s = Some y" for s y
  proof (rule range_loop_keeps [where R = last_va])
    show "range_loop (\<lambda>addr _. addr + PTE_SIZE) (pte_body (\<lambda>_. mm_idle_pte_type K)) a n s = Some y"
      using that by (simp add: pte_ranges)
    show "last_va (fst t) = last_va (fst s)" if "pte_body (\<lambda>_. mm_idle_pte_type K) a n s = Some (err, t)" for a n s err t
      using that eic_add_page_last_va by (cases s) (auto simp: pte_body_def split: prod.splits)
  qed
  have "last_va e' AND PMD_MASK = a AND PMD_MASK"
    using assms(1) eic_add_page_last_va pte
    by (fastforce simp: mm_idle_pmd_entry_def Let_def split: if_splits prod.splits)
  then show ?thesis using assms(2) by (simp add: mm_idle_pmd_entry_def)
qed

text \<open>The smallest count that is accepted is too small for the buffer: the read returns 1 and copies nothing.\<close>

lemma smallest_read_returns_one:
  assumes "read_check (f_pos f) 19 = None"
  shows "\<exists>f'. mm_idle_read K faults 19 e mm f = Some (1, f') \<and> map_option ubuf (f_eic f') = Some []"
  using assms
  by (simp add: mm_idle_read_def mm_idle_walk_range_def setup_ept_idle_ctrl_def init_ept_idle_ctrl_buffer_def
      EPT_IDLE_KBUF_SIZE_def EPT_IDLE_KBUF_FULL_def finish_read_def Let_def)

end
