(* ===== verification/Worker_Pool.thy ===== *)
theory Worker_Pool
  imports Global_Scan "HOL-Library.Multiset"
begin

text \<open>
  The worker threads of the global scan: \<open>Queue.h\<close>, and from \<open>GlobalScan.cc\<close> \<open>create_threads\<close>,
  \<open>stop_threads\<close>, \<open>consumer_job\<close> and \<open>consumer_loop\<close>, with the pushing and collecting of jobs in
  \<open>walk_once\<close> and \<open>migrate\<close>. The queue operations are atomic (they hold the mutex) and a thread that
  waits for an item takes no step; the steps of the threads interleave in any order. A job works on
  its own range only; what ranges of one process share (its quota) is not modelled here.
\<close>

section \<open>The queue\<close>

definition queue_push :: "'t \<Rightarrow> 't list \<Rightarrow> 't list" where
  "queue_push item q = q @ [item]"

text \<open>\<open>None\<close>: the thread waits.\<close>

definition queue_pop :: "'t list \<Rightarrow> ('t \<times> 't list) option" where
  "queue_pop q = (case q of [] \<Rightarrow> None | item # q \<Rightarrow> Some (item, q))"

lemma queue_pop_Some: "queue_pop q = Some (item, q') \<longleftrightarrow> q = item # q'"
  by (auto simp: queue_pop_def split: list.split)

section \<open>The threads\<close>

text \<open>A job names its range by its position in \<open>idle_ranges\<close>.\<close>

type_synonym job = "job_intent \<times> nat"

datatype worker = Ready | Busy job | Finished

text \<open>
  \<open>todo\<close>: the jobs the main thread has still to push; \<open>awaited\<close>: the number it has still to collect.
\<close>

record 'r pool =
  work_queue :: "job list"
  done_queue :: "job list"
  worker_threads :: "worker list"
  todo :: "job list"
  awaited :: nat
  collected :: "job list"
  pool_ranges :: "'r list"

definition run_job :: "('r \<Rightarrow> 'r) \<Rightarrow> ('r \<Rightarrow> 'r) \<Rightarrow> job \<Rightarrow> 'r list \<Rightarrow> 'r list" where
  "run_job walk_op migrate_op job rs =
     (case fst job of
        JOB_WALK \<Rightarrow> rs[snd job := walk_op (rs ! snd job)]
      | JOB_MIGRATE \<Rightarrow> rs[snd job := migrate_op (rs ! snd job)]
      | JOB_QUIT \<Rightarrow> rs)"

definition create_threads :: "nat \<Rightarrow> job list \<Rightarrow> 'r list \<Rightarrow> 'r pool" where
  "create_threads max_threads jobs rs =
     \<lparr>work_queue = [], done_queue = [], worker_threads = replicate max_threads Ready, todo = jobs, awaited = 0,
      collected = [], pool_ranges = rs\<rparr>"

definition period_jobs :: "job_intent \<Rightarrow> 'r list \<Rightarrow> job list" where
  "period_jobs intent rs = map (Pair intent) [0..<length rs]"

definition stop_jobs :: "'r pool \<Rightarrow> job list" where
  "stop_jobs p = replicate (length (worker_threads p)) (JOB_QUIT, 0)"

inductive pool_step :: "('r \<Rightarrow> 'r) \<Rightarrow> ('r \<Rightarrow> 'r) \<Rightarrow> 'r pool \<Rightarrow> 'r pool \<Rightarrow> bool" for walk_op migrate_op where
  push: "todo p = job # jobs \<Longrightarrow>
    pool_step walk_op migrate_op p
      (p\<lparr>work_queue := queue_push job (work_queue p), todo := jobs,
         awaited := (if fst job = JOB_QUIT then awaited p else awaited p + 1)\<rparr>)"
| take_job: "i < length (worker_threads p) \<Longrightarrow> worker_threads p ! i = Ready \<Longrightarrow> queue_pop (work_queue p) = Some (job, q) \<Longrightarrow>
    pool_step walk_op migrate_op p
      (p\<lparr>work_queue := q, worker_threads := (worker_threads p)[i := (if fst job = JOB_QUIT then Finished else Busy job)]\<rparr>)"
| finish_job: "i < length (worker_threads p) \<Longrightarrow> worker_threads p ! i = Busy job \<Longrightarrow>
    pool_step walk_op migrate_op p
      (p\<lparr>worker_threads := (worker_threads p)[i := Ready], done_queue := queue_push job (done_queue p),
         pool_ranges := run_job walk_op migrate_op job (pool_ranges p)\<rparr>)"
| collect: "todo p = [] \<Longrightarrow> awaited p = Suc n \<Longrightarrow> queue_pop (done_queue p) = Some (job, q) \<Longrightarrow>
    pool_step walk_op migrate_op p (p\<lparr>done_queue := q, awaited := n, collected := collected p @ [job]\<rparr>)"

inductive_cases pool_stepE: "pool_step walk_op migrate_op p p'"

text \<open>The main thread goes on.\<close>

definition period_over :: "'r pool \<Rightarrow> bool" where
  "period_over p \<longleftrightarrow> todo p = [] \<and> awaited p = 0"

section \<open>Every job is done once\<close>

fun busy_job :: "worker \<Rightarrow> job multiset" where
  "busy_job (Busy job) = {#job#}"
| "busy_job _ = {#}"

definition busy_jobs :: "worker list \<Rightarrow> job multiset" where
  "busy_jobs ws = sum_list (map busy_job ws)"

definition executed :: "'r pool \<Rightarrow> job multiset" where
  "executed p = mset (done_queue p) + mset (collected p)"

lemma busy_jobs_update:
  assumes "i < length ws"
  shows "busy_jobs (ws[i := w]) + busy_job (ws ! i) = busy_jobs ws + busy_job w"
proof -
  have "ws = take i ws @ ws ! i # drop (Suc i) ws" using assms by (simp add: id_take_nth_drop)
  then have "busy_jobs ws = busy_jobs (take i ws) + busy_job (ws ! i) + busy_jobs (drop (Suc i) ws)"
    by (metis busy_jobs_def list.simps(9) map_append sum_list.Cons sum_list_append union_assoc)
  moreover have "busy_jobs (ws[i := w]) = busy_jobs (take i ws) + busy_job w + busy_jobs (drop (Suc i) ws)"
    using assms by (simp add: upd_conv_take_nth_drop busy_jobs_def)
  ultimately show ?thesis by simp
qed

lemma busy_jobs_replicate: "busy_jobs (replicate n Ready) = {#}"
  by (induction n) (simp_all add: busy_jobs_def)

lemma busy_jobs_to_Ready:
  "i < length ws \<Longrightarrow> ws ! i = Busy job \<Longrightarrow> busy_jobs ws = add_mset job (busy_jobs (ws[i := Ready]))"
  using busy_jobs_update [of i ws Ready] by simp

lemma busy_jobs_from_Ready:
  "i < length ws \<Longrightarrow> ws ! i = Ready \<Longrightarrow> busy_jobs (ws[i := w]) = busy_jobs ws + busy_job w"
  using busy_jobs_update [of i ws w] by simp

definition job_op :: "('r \<Rightarrow> 'r) \<Rightarrow> ('r \<Rightarrow> 'r) \<Rightarrow> job_intent \<Rightarrow> 'r \<Rightarrow> 'r" where
  "job_op walk_op migrate_op intent r =
     (case intent of JOB_WALK \<Rightarrow> walk_op r | JOB_MIGRATE \<Rightarrow> migrate_op r | JOB_QUIT \<Rightarrow> r)"

text \<open>
  The invariant of a period: no job is lost or doubled, the number awaited is that of the jobs on
  their way, no worker quits, and exactly the ranges of executed jobs have changed.
\<close>

definition period_inv ::
    "('r \<Rightarrow> 'r) \<Rightarrow> ('r \<Rightarrow> 'r) \<Rightarrow> job_intent \<Rightarrow> 'r list \<Rightarrow> nat \<Rightarrow> 'r pool \<Rightarrow> bool" where
  "period_inv walk_op migrate_op intent rs threads p \<longleftrightarrow>
     mset (todo p) + mset (work_queue p) + busy_jobs (worker_threads p) + executed p = mset (period_jobs intent rs) \<and>
     awaited p = length (work_queue p) + size (busy_jobs (worker_threads p)) + length (done_queue p) \<and>
     length (worker_threads p) = threads \<and> Finished \<notin> set (worker_threads p) \<and>
     length (pool_ranges p) = length rs \<and>
     (\<forall>i < length rs. pool_ranges p ! i =
        (if (intent, i) \<in># executed p then job_op walk_op migrate_op intent (rs ! i) else rs ! i))"

lemma period_jobs_count:
  "count (mset (period_jobs intent rs)) job = (if fst job = intent \<and> snd job < length rs then 1 else 0)"
proof -
  have "distinct (period_jobs intent rs)" by (simp add: period_jobs_def distinct_map inj_on_def)
  then show ?thesis
    by (cases job) (auto simp: distinct_count_atmost_1 period_jobs_def)
qed

lemma period_jobs_mem: "job \<in># mset (period_jobs intent rs) \<Longrightarrow> \<exists>i < length rs. job = (intent, i)"
  by (auto simp: period_jobs_def)

lemma run_job_op:
  "i < length rs \<Longrightarrow> run_job walk_op migrate_op (intent, i) rs = rs[i := job_op walk_op migrate_op intent (rs ! i)]"
  by (cases intent) (simp_all add: run_job_def job_op_def)

lemma period_step:
  assumes "period_inv walk_op migrate_op intent rs threads p" and "intent \<noteq> JOB_QUIT"
    and "pool_step walk_op migrate_op p p'"
  shows "period_inv walk_op migrate_op intent rs threads p'"
  using assms(3)
proof cases
  case (push job jobs)
  have "job \<in># mset (period_jobs intent rs)" using assms(1) push(2) unfolding period_inv_def
    by (metis in_multiset_in_set list.set_intros(1) union_iff)
  then have "fst job = intent" using period_jobs_mem by fastforce
  then show ?thesis using assms push by (auto simp: period_inv_def queue_push_def executed_def)
next
  case (take_job i job q)
  have wq: "work_queue p = job # q" using take_job(4) by (simp add: queue_pop_Some)
  then have "job \<in># mset (period_jobs intent rs)" using assms(1) unfolding period_inv_def
    by (metis in_multiset_in_set list.set_intros(1) union_iff)
  then have j: "fst job \<noteq> JOB_QUIT" using period_jobs_mem assms(2) by fastforce
  have "Finished \<notin> set ((worker_threads p)[i := Busy job])"
    using assms(1) set_update_subset_insert [of "worker_threads p" i "Busy job"] by (auto simp: period_inv_def)
  then show ?thesis using assms(1) take_job wq j
    by (simp add: period_inv_def busy_jobs_from_Ready executed_def)
next
  case (finish_job i job)
  note bj = busy_jobs_to_Ready [OF finish_job(2,3)]
  have cons: "mset (todo p) + mset (work_queue p) + busy_jobs (worker_threads p) + executed p = mset (period_jobs intent rs)"
    using assms(1) by (simp add: period_inv_def)
  then have "job \<in># mset (period_jobs intent rs)" using bj by (metis union_iff union_single_eq_member)
  then obtain k where k: "k < length rs" "job = (intent, k)" using period_jobs_mem by blast
  have "count (executed p) job = 0"
  proof -
    have "count (mset (todo p) + mset (work_queue p) + busy_jobs (worker_threads p) + executed p) job \<le> 1"
      unfolding cons period_jobs_count by simp
    then show ?thesis unfolding bj by simp
  qed
  then have fresh: "(intent, k) \<notin># executed p" using k(2) by (simp add: count_eq_zero_iff)
  have len: "length (pool_ranges p) = length rs" and rg: "\<forall>i < length rs. pool_ranges p ! i =
        (if (intent, i) \<in># executed p then job_op walk_op migrate_op intent (rs ! i) else rs ! i)"
    using assms(1) by (simp_all add: period_inv_def)
  have ex: "executed p' = add_mset job (executed p)" using finish_job(1) by (simp add: executed_def queue_push_def)
  have rp: "pool_ranges p' = (pool_ranges p)[k := job_op walk_op migrate_op intent (pool_ranges p ! k)]"
    using finish_job(1) k len by (simp add: run_job_op)
  have "\<forall>i < length rs. pool_ranges p' ! i =
        (if (intent, i) \<in># executed p' then job_op walk_op migrate_op intent (rs ! i) else rs ! i)"
    using rg fresh len k by (auto simp: ex rp nth_list_update)
  moreover have "Finished \<notin> set ((worker_threads p)[i := Ready])"
    using assms(1) set_update_subset_insert [of "worker_threads p" i Ready] by (auto simp: period_inv_def)
  ultimately show ?thesis using assms(1) finish_job(1) bj ex rp
    by (simp add: period_inv_def queue_push_def)
next
  case (collect n job q)
  then show ?thesis using assms(1) by (auto simp: period_inv_def queue_pop_Some executed_def)
qed

lemma period_start:
  "period_inv walk_op migrate_op intent rs threads (create_threads threads (period_jobs intent rs) rs)"
  by (auto simp: period_inv_def create_threads_def executed_def busy_jobs_replicate)

text \<open>Every step brings the period nearer to its end.\<close>

definition period_work :: "'r pool \<Rightarrow> nat" where
  "period_work p = 4 * length (todo p) + 3 * length (work_queue p) + 2 * size (busy_jobs (worker_threads p)) + length (done_queue p)"

lemma period_work_step:
  assumes "pool_step walk_op migrate_op p p'"
  shows "period_work p' < period_work p"
  using assms
proof cases
  case (take_job i job q)
  have "size (busy_job (if fst job = JOB_QUIT then Finished else Busy job)) \<le> 1" by simp
  then show ?thesis using take_job
    by (simp add: period_work_def queue_pop_Some busy_jobs_from_Ready split: if_splits)
next
  case (finish_job i job)
  then show ?thesis using busy_jobs_to_Ready [OF finish_job(2,3)] by (simp add: period_work_def queue_push_def)
qed (auto simp: period_work_def queue_push_def queue_pop_Some)

lemma not_over_steps:
  assumes "period_inv walk_op migrate_op intent rs threads p" and "0 < threads" and "\<not> period_over p"
  shows "\<exists>p'. pool_step walk_op migrate_op p p'"
proof (cases "todo p")
  case (Cons job jobs)
  then show ?thesis using pool_step.push by blast
next
  case Nil
  then obtain n where n: "awaited p = Suc n" using assms(3) by (cases "awaited p") (auto simp: period_over_def)
  show ?thesis
  proof (cases "done_queue p")
    case (Cons job q)
    then show ?thesis using pool_step.collect [OF Nil n, of job q] by (metis queue_pop_Some)
  next
    case nd: Nil
    show ?thesis
    proof (cases "\<exists>i job. i < length (worker_threads p) \<and> worker_threads p ! i = Busy job")
      case True
      then show ?thesis using pool_step.finish_job by blast
    next
      case False
      have ready: "worker_threads p ! i = Ready" if "i < length (worker_threads p)" for i
        using False that assms(1) by (cases "worker_threads p ! i") (auto simp: period_inv_def in_set_conv_nth)
      have "worker_threads p = replicate (length (worker_threads p)) Ready"
        using ready by (intro nth_equalityI) auto
      then have "busy_jobs (worker_threads p) = {#}" by (metis busy_jobs_replicate)
      then have "awaited p = length (work_queue p)" using assms(1) nd by (simp add: period_inv_def)
      then obtain job q where q: "work_queue p = job # q" using n by (cases "work_queue p") auto
      have "0 < length (worker_threads p)" using assms(1,2) by (simp add: period_inv_def)
      from pool_step.take_job [OF this ready [OF this], of job q] q show ?thesis by (metis queue_pop_Some)
    qed
  qed
qed

lemma period_run:
  assumes "(pool_step walk_op migrate_op ^^ n) (create_threads threads (period_jobs intent rs) rs) p" and "intent \<noteq> JOB_QUIT"
  shows "period_inv walk_op migrate_op intent rs threads p \<and> period_work p + n \<le> 4 * length rs"
  using assms(1)
proof (induction n arbitrary: p)
  case 0
  then show ?case using period_start
    by (auto simp: period_work_def create_threads_def period_jobs_def busy_jobs_replicate)
next
  case (Suc n)
  then obtain q where q: "(pool_step walk_op migrate_op ^^ n) (create_threads threads (period_jobs intent rs) rs) q"
      "pool_step walk_op migrate_op q p" by auto
  note IH = Suc.IH [OF q(1)]
  have "period_inv walk_op migrate_op intent rs threads p" using period_step [OF _ assms(2) q(2)] IH by blast
  moreover have "period_work p + Suc n \<le> 4 * length rs" using IH period_work_step [OF q(2)] by linarith
  ultimately show ?case by blast
qed

text \<open>
  C34: Walking or migrating with worker threads ends, and does what the loop without threads does:
  with at least one worker, whatever the order in which the threads take their steps, a period over
  \<open>n\<close> ranges takes at most \<open>4 * n\<close> of them; while it is not over some thread can take one (there is no
  deadlock); and when it is over the main thread has collected every job exactly once, every range
  has been treated exactly once, the queues are empty and every worker waits for the next period.
\<close>

theorem period_with_threads:
  assumes "0 < threads" and "intent \<noteq> JOB_QUIT"
    and "(pool_step walk_op migrate_op ^^ n) (create_threads threads (period_jobs intent rs) rs) p"
  shows "n \<le> 4 * length rs \<and> (\<not> period_over p \<longrightarrow> (\<exists>p'. pool_step walk_op migrate_op p p')) \<and>
         (period_over p \<longrightarrow> mset (collected p) = mset (period_jobs intent rs) \<and>
           pool_ranges p = map (job_op walk_op migrate_op intent) rs \<and>
           work_queue p = [] \<and> done_queue p = [] \<and> worker_threads p = replicate threads Ready)"
proof (intro conjI impI)
  note inv = period_run [OF assms(3,2)]
  show "n \<le> 4 * length rs" using inv by simp
  show "\<exists>p'. pool_step walk_op migrate_op p p'" if "\<not> period_over p"
    using not_over_steps inv assms(1) that by blast
next
  note inv = period_run [OF assms(3,2)]
  assume over: "period_over p"
  then have z: "work_queue p = []" "busy_jobs (worker_threads p) = {#}" "done_queue p = []" "todo p = []"
    using inv by (auto simp: period_inv_def period_over_def)
  then have ex: "executed p = mset (period_jobs intent rs)" using inv by (auto simp: period_inv_def)
  then have c: "mset (collected p) = mset (period_jobs intent rs)" using z by (simp add: executed_def)
  have "worker_threads p ! i = Ready" if "i < threads" for i
  proof (cases "worker_threads p ! i")
    case (Busy job)
    then show ?thesis using busy_jobs_to_Ready [of i "worker_threads p" job] that inv z(2) by (simp add: period_inv_def)
  next
    case Finished
    then show ?thesis using that inv by (auto simp: period_inv_def in_set_conv_nth)
  qed
  then have w: "worker_threads p = replicate threads Ready"
    using inv by (intro nth_equalityI) (auto simp: period_inv_def)
  have "(intent, i) \<in># executed p" if "i < length rs" for i unfolding ex using that by (auto simp: period_jobs_def)
  then have "pool_ranges p = map (job_op walk_op migrate_op intent) rs"
    using inv by (intro nth_equalityI) (auto simp: period_inv_def)
  then show "mset (collected p) = mset (period_jobs intent rs)"
    "pool_ranges p = map (job_op walk_op migrate_op intent) rs"
    "work_queue p = []" "done_queue p = []" "worker_threads p = replicate threads Ready"
    using c z w by blast+
qed

theorem period_with_threads_witness:
  "\<exists>p' :: nat pool. pool_step (\<lambda>r. r + 1) (\<lambda>r. 2 * r) (create_threads 2 (period_jobs JOB_MIGRATE [10, 20 :: nat]) [10, 20]) p'"
proof -
  let ?p = "create_threads 2 (period_jobs JOB_MIGRATE [10, 20 :: nat]) [10, 20]"
  have "(pool_step (\<lambda>r. r + 1 :: nat) (\<lambda>r. 2 * r) ^^ 0) ?p ?p" by simp
  from period_with_threads [OF _ _ this] show ?thesis
    by (simp add: period_over_def create_threads_def period_jobs_def)
qed

section \<open>The threads stop\<close>

definition stop_inv :: "'r pool \<Rightarrow> bool" where
  "stop_inv p \<longleftrightarrow> (\<forall>job \<in> set (todo p) \<union> set (work_queue p). fst job = JOB_QUIT) \<and> awaited p = 0 \<and>
     (\<forall>w \<in> set (worker_threads p). w = Ready \<or> w = Finished) \<and>
     count_list (worker_threads p) Ready = length (todo p) + length (work_queue p)"

lemma count_list_update:
  assumes "i < length xs" and "xs ! i = a" and "b \<noteq> a"
  shows "count_list xs a = Suc (count_list (xs[i := b]) a)"
proof -
  have xs: "xs = take i xs @ a # drop (Suc i) xs" using assms by (metis id_take_nth_drop)
  have "count_list xs a = count_list (take i xs @ a # drop (Suc i) xs) a" using xs by simp
  also have "\<dots> = Suc (count_list (take i xs @ b # drop (Suc i) xs) a)" using assms(3) by simp
  finally show ?thesis using assms(1) by (simp only: upd_conv_take_nth_drop)
qed

text \<open>After a period, one job to quit per worker is enough: every worker gets one, and the joins return.\<close>

lemma stop_step:
  assumes "stop_inv p" and "pool_step walk_op migrate_op p p'"
  shows "stop_inv p'"
  using assms(2)
proof cases
  case (push job jobs)
  then show ?thesis using assms(1) by (auto simp: stop_inv_def queue_push_def)
next
  case (take_job i job q)
  then have q: "work_queue p = job # q" by (simp add: queue_pop_Some)
  then have "fst job = JOB_QUIT" using assms(1) by (simp add: stop_inv_def)
  then show ?thesis using assms(1) take_job q count_list_update [OF take_job(2,3), of Finished]
      set_update_subset_insert [of "worker_threads p" i Finished]
    by (auto simp: stop_inv_def)
next
  case (finish_job i job)
  then show ?thesis using assms(1) by (metis nth_mem stop_inv_def worker.distinct(1,5))
next
  case (collect n job q)
  then show ?thesis using assms(1) by (simp add: stop_inv_def)
qed

lemma stop_progress:
  assumes "stop_inv p" and "\<not> (\<forall>w \<in> set (worker_threads p). w = Finished)"
  shows "\<exists>p'. pool_step walk_op migrate_op p p'"
proof (cases "todo p")
  case (Cons job jobs)
  then show ?thesis using pool_step.push by blast
next
  case Nil
  from assms(2) obtain w where "w \<in> set (worker_threads p)" "w \<noteq> Finished" by blast
  moreover from this have "w = Ready" using assms(1) by (auto simp: stop_inv_def)
  ultimately obtain i where i: "i < length (worker_threads p)" "worker_threads p ! i = Ready"
    by (metis in_set_conv_nth)
  then have "0 < count_list (worker_threads p) Ready" by (metis count_list_update worker.distinct(3) zero_less_Suc)
  then obtain job q where "work_queue p = job # q" using assms(1) Nil by (cases "work_queue p") (auto simp: stop_inv_def)
  with pool_step.take_job [OF i, of job q] show ?thesis by (metis queue_pop_Some)
qed

lemma stop_starts:
  assumes "work_queue p = []" and "worker_threads p = replicate n Ready" and "awaited p = 0"
  shows "stop_inv (p\<lparr>todo := stop_jobs p\<rparr>)"
proof -
  have "count_list (replicate n Ready) Ready = n" by (induction n) simp_all
  then show ?thesis using assms by (auto simp: stop_inv_def stop_jobs_def)
qed

end
