(* ===== verification/Pmu.thy ===== *)
theory Pmu
  imports Numa Page_Stream
begin

text \<open>
  The PMU driver of the sampling tool: \<open>pmu-refs/pmu.h\<close> and \<open>pmu-refs/pmu.cc\<close>, the events of each CPU
  (PMEM samples, DRAM counters), the memory controller counters of each node, and the state that
  ties them together: sampling for an interval, adjusting the sample period, distributing the DRAM
  counts over the nodes.

  The perf interface of the kernel and of \<open>jevents\<close>, the clock and \<open>select\<close> are the parameter
  \<open>perf_ops\<close> over a kernel state \<open>'k\<close>. \<open>sys_err\<close> throws an exception that nothing catches and
  \<open>exit\<close> ends the program: both are the fault \<open>Exit_called\<close>. Printing is not modelled.
\<close>

unbundle bit_operations_syntax

section \<open>The perf interface\<close>

datatype perf_type = PERF_RECORD_SAMPLE | PERF_RECORD_THROTTLE | PERF_RECORD_LOST | PERF_RECORD_OTHER

text \<open>A record as the 64-byte buffer holds it: words that it does not fill are what was there before.\<close>

record perf_record =
  rec_type :: perf_type
  rec_size :: nat
  payload :: "nat \<Rightarrow> u64"

datatype sample_type = PERF_SAMPLE_ADDR_TID | PERF_SAMPLE_READ

record perf_attr =
  event_name :: string
  sample_period :: u64
  exclude_kernel :: bool
  event_disabled :: bool
  precise_ip :: nat
  event_sample :: "sample_type option"

record 'k perf_ops =
  resolve_event :: "string \<Rightarrow> perf_attr option"
  perf_fd_open_other :: "perf_attr \<Rightarrow> int \<Rightarrow> int \<Rightarrow> int \<Rightarrow> 'k \<Rightarrow> int option \<times> 'k"
  perf_fd_close :: "int \<Rightarrow> 'k \<Rightarrow> 'k"
  perf_enable :: "int \<Rightarrow> 'k \<Rightarrow> bool \<times> 'k"
  perf_disable :: "int \<Rightarrow> 'k \<Rightarrow> bool \<times> 'k"
  ioc_period :: "int \<Rightarrow> u64 \<Rightarrow> 'k \<Rightarrow> bool \<times> 'k"
  ring_records :: "int \<Rightarrow> 'k \<Rightarrow> perf_record option list"
  perf_iter_continue :: "int \<Rightarrow> nat \<Rightarrow> 'k \<Rightarrow> 'k"
  read_counter :: "int \<Rightarrow> 'k \<Rightarrow> u64 option \<times> 'k"
  rdclock :: "'k \<Rightarrow> u64 \<times> 'k"
  select_fds :: "int \<Rightarrow> int set \<Rightarrow> u64 \<Rightarrow> 'k \<Rightarrow> (int \<times> int set) \<times> 'k"

definition BUF_SIZE_SHIFT :: int where "BUF_SIZE_SHIFT = 8"
definition PET_LOCAL :: nat where "PET_LOCAL = 0"
definition PET_REMOTE :: nat where "PET_REMOTE = 1"
definition PET_NUMBER :: nat where "PET_NUMBER = 2"
definition NS_PER_SEC :: u64 where "NS_PER_SEC = 1000000000"
definition NS_PER_MSEC :: u64 where "NS_PER_MSEC = 1000000"

text \<open>The part of \<open>hmd_config\<close> that the driver reads.\<close>

record pmu_config =
  pmem_pmu_events :: "string option list"
  dram_pmu_events :: "string option list"
  imc_dram_read :: string
  imc_dram_write :: string
  target_pid :: int
  sample_period_min :: int
  expected_samples :: int
  granularity_order :: nat
  imc_counting :: bool

section \<open>File descriptors\<close>

text \<open>A \<open>perf_fd\<close> is its file descriptor, \<open>-1\<close> when closed.\<close>

definition pmu_open_events ::
    "'k perf_ops \<Rightarrow> int \<Rightarrow> perf_attr option list \<Rightarrow> int \<Rightarrow> int list \<times> 'k \<Rightarrow> (int list \<times> 'k) run" where
  "pmu_open_events P target attrs cpuid =
     rfold (\<lambda>i (fds, k).
       case attrs ! i of
         None \<Rightarrow> Inr (fds, k)
       | Some attr \<Rightarrow>
           if i \<ge> length fds then Inl Bad_index
           else (case perf_fd_open_other P attr BUF_SIZE_SHIFT target cpuid k of
                   (None, k) \<Rightarrow> Inl Exit_called
                 | (Some fd, k) \<Rightarrow> Inr (fds[i := fd], k))) [0..<length attrs]"

definition pmu_close_events :: "'k perf_ops \<Rightarrow> int list \<times> 'k \<Rightarrow> (int list \<times> 'k) run" where
  "pmu_close_events P s =
     rfold (\<lambda>i (fds, k).
       if fds ! i > - 1
       then let (ok, k) = perf_disable P (fds ! i) k
            in if ok then Inr (fds[i := - 1], perf_fd_close P (fds ! i) k) else Inl Exit_called
       else Inr (fds, k)) [0..<length (fst s)] s"

definition pmu_enable_events :: "'k perf_ops \<Rightarrow> int list \<Rightarrow> 'k \<Rightarrow> 'k run" where
  "pmu_enable_events P =
     rfold (\<lambda>fd k. if fd > - 1 then (let (ok, k) = perf_enable P fd k in if ok then Inr k else Inl Exit_called)
                   else Inr k)"

definition pmu_disable_events :: "'k perf_ops \<Rightarrow> int list \<Rightarrow> 'k \<Rightarrow> 'k run" where
  "pmu_disable_events P =
     rfold (\<lambda>fd k. if fd > - 1 then (let (ok, k) = perf_disable P fd k in if ok then Inr k else Inl Exit_called)
                   else Inr k)"

section \<open>A CPU\<close>

record sample_stats =
  st_samples :: int
  st_others :: int
  st_throttled :: int
  st_skipped :: int
  st_lost :: int
  nr_sample_cpu_max :: u32

definition zero_stats :: sample_stats where
  "zero_stats = \<lparr>st_samples = 0, st_others = 0, st_throttled = 0, st_skipped = 0, st_lost = 0, nr_sample_cpu_max = 0\<rparr>"

record pmu_cpu =
  cpuid :: int
  pmem_fds :: "int list"
  dram_fds :: "int list"
  dram_counts :: "u64 list"
  nr_sample :: u32

definition PmuCpu_ctor :: "int \<Rightarrow> pmu_cpu" where
  "PmuCpu_ctor cpu =
     \<lparr>cpuid = cpu, pmem_fds = replicate PET_NUMBER (- 1), dram_fds = replicate PET_NUMBER (- 1),
      dram_counts = replicate PET_NUMBER 0, nr_sample = 0\<rparr>"

definition PmuCpu_dtor :: "'k perf_ops \<Rightarrow> pmu_cpu \<Rightarrow> 'k \<Rightarrow> 'k run" where
  "PmuCpu_dtor P c k =
     rbind (pmu_close_events P (pmem_fds c, k)) (\<lambda>(_, k).
     rbind (pmu_close_events P (dram_fds c, k)) (\<lambda>(_, k). Inr k))"

definition setup_attr :: "'k perf_ops \<Rightarrow> (perf_attr \<Rightarrow> perf_attr) \<Rightarrow> string option \<Rightarrow> perf_attr option run" where
  "setup_attr P f event =
     (case event of
        None \<Rightarrow> Inr None
      | Some e \<Rightarrow> (case resolve_event P e of None \<Rightarrow> Inl Exit_called | Some attr \<Rightarrow> Inr (Some (f attr))))"

definition setup_attrs ::
    "'k perf_ops \<Rightarrow> (perf_attr \<Rightarrow> perf_attr) \<Rightarrow> string option list \<Rightarrow> perf_attr option list run" where
  "setup_attrs P f events =
     rfold (\<lambda>event attrs. rbind (setup_attr P f event) (\<lambda>a. Inr (attrs @ [a]))) (take PET_NUMBER events) []"

definition setup_pmem_attrs :: "'k perf_ops \<Rightarrow> pmu_config \<Rightarrow> int \<Rightarrow> perf_attr option list run" where
  "setup_pmem_attrs P cfg period =
     setup_attrs P (\<lambda>attr. attr\<lparr>sample_period := word_of_int period, exclude_kernel := True, event_disabled := True,
                       precise_ip := 1, event_sample := Some PERF_SAMPLE_ADDR_TID\<rparr>) (pmem_pmu_events cfg)"

definition setup_dram_attrs :: "'k perf_ops \<Rightarrow> pmu_config \<Rightarrow> perf_attr option list run" where
  "setup_dram_attrs P cfg =
     setup_attrs P (\<lambda>attr. attr\<lparr>exclude_kernel := True, event_disabled := True,
                       event_sample := Some PERF_SAMPLE_READ\<rparr>) (dram_pmu_events cfg)"

definition cpu_open_pmem_events ::
    "'k perf_ops \<Rightarrow> pmu_config \<Rightarrow> perf_attr option list \<Rightarrow> pmu_cpu \<times> 'k \<Rightarrow> (pmu_cpu \<times> 'k) run" where
  "cpu_open_pmem_events P cfg attrs s =
     rbind (pmu_open_events P (target_pid cfg) attrs (cpuid (fst s)) (pmem_fds (fst s), snd s))
       (\<lambda>(fds, k). Inr ((fst s)\<lparr>pmem_fds := fds\<rparr>, k))"

definition cpu_close_pmem_events :: "'k perf_ops \<Rightarrow> pmu_cpu \<times> 'k \<Rightarrow> (pmu_cpu \<times> 'k) run" where
  "cpu_close_pmem_events P s =
     rbind (pmu_close_events P (pmem_fds (fst s), snd s)) (\<lambda>(fds, k). Inr ((fst s)\<lparr>pmem_fds := fds\<rparr>, k))"

definition cpu_open_dram_events ::
    "'k perf_ops \<Rightarrow> pmu_config \<Rightarrow> perf_attr option list \<Rightarrow> pmu_cpu \<times> 'k \<Rightarrow> (pmu_cpu \<times> 'k) run" where
  "cpu_open_dram_events P cfg attrs s =
     rbind (pmu_open_events P (target_pid cfg) attrs (cpuid (fst s)) (dram_fds (fst s), snd s))
       (\<lambda>(fds, k). Inr ((fst s)\<lparr>dram_fds := fds\<rparr>, k))"

definition cpu_close_dram_events :: "'k perf_ops \<Rightarrow> pmu_cpu \<times> 'k \<Rightarrow> (pmu_cpu \<times> 'k) run" where
  "cpu_close_dram_events P s =
     rbind (pmu_close_events P (dram_fds (fst s), snd s)) (\<lambda>(fds, k). Inr ((fst s)\<lparr>dram_fds := fds\<rparr>, k))"

definition cpu_setup_pmem_sample_period :: "'k perf_ops \<Rightarrow> int \<Rightarrow> pmu_cpu \<Rightarrow> 'k \<Rightarrow> 'k run" where
  "cpu_setup_pmem_sample_period P period c =
     rfold (\<lambda>fd k. if fd > - 1
                   then (let (ok, k) = ioc_period P fd (word_of_int period) k in if ok then Inr k else Inl Exit_called)
                   else Inr k) (pmem_fds c)"

definition setup_pmem_fd_set :: "pmu_cpu \<Rightarrow> int set \<times> int \<Rightarrow> int set \<times> int" where
  "setup_pmem_fd_set c s =
     fold (\<lambda>fd (fds, max_fd). if fd > - 1 then (insert fd fds, max max_fd fd) else (fds, max_fd)) (pmem_fds c) s"

section \<open>Samples\<close>

text \<open>
  The processor of samples, a virtual method: address, pid, tid, CPU; it says whether it is full.
\<close>

type_synonym 'p processor = "u64 \<Rightarrow> int \<Rightarrow> int \<Rightarrow> int \<Rightarrow> 'p \<Rightarrow> (bool \<times> 'p) trun"

record 'p sampling =
  sm_stats :: sample_stats
  sm_nr_sample :: u32
  sm_proc :: 'p

definition to_int :: "u64 \<Rightarrow> int" where
  "to_int w = sint (ucast w :: u32)"

text \<open>The result: full, the number of records consumed, and the state.\<close>

fun sample_loop ::
    "'p processor \<Rightarrow> int \<Rightarrow> perf_record option list \<Rightarrow> nat \<Rightarrow> 'p sampling \<Rightarrow> (bool \<times> nat \<times> 'p sampling) trun" where
  "sample_loop proc cpu [] n s = Some (Inr (False, n, s))"
| "sample_loop proc cpu (None # rs) n s =
     sample_loop proc cpu rs (n + 1) (s\<lparr>sm_stats := (sm_stats s)\<lparr>st_skipped := st_skipped (sm_stats s) + 1\<rparr>\<rparr>)"
| "sample_loop proc cpu (Some hdr # rs) n s =
     (let st = sm_stats s
      in case rec_type hdr of
           PERF_RECORD_THROTTLE \<Rightarrow>
             sample_loop proc cpu rs (n + 1) (s\<lparr>sm_stats := st\<lparr>st_throttled := st_throttled st + 1\<rparr>\<rparr>)
         | PERF_RECORD_LOST \<Rightarrow>
             sample_loop proc cpu rs (n + 1)
               (s\<lparr>sm_stats := st\<lparr>st_lost := sint (word_of_int (st_lost st) + payload hdr 1)\<rparr>\<rparr>)
         | PERF_RECORD_OTHER \<Rightarrow>
             sample_loop proc cpu rs (n + 1) (s\<lparr>sm_stats := st\<lparr>st_others := st_others st + 1\<rparr>\<rparr>)
         | PERF_RECORD_SAMPLE \<Rightarrow>
             let s = s\<lparr>sm_stats := st\<lparr>st_samples := st_samples st + 1\<rparr>, sm_nr_sample := sm_nr_sample s + 1\<rparr>
             in if rec_size hdr \<noteq> 24 then sample_loop proc cpu rs (n + 1) s
                else
                  let pid = payload hdr 0; val = payload hdr 1
                  in if sint val \<le> 0 then sample_loop proc cpu rs (n + 1) s
                     else
                       let tid = to_int (drop_bit 32 pid); pid = pid AND 0xffffffff
                       in if pid = 0 then sample_loop proc cpu rs (n + 1) s
                          else tbind (proc val (to_int pid) tid cpu (sm_proc s)) (\<lambda>(full, p).
                                 if full then Some (Inr (True, n + 1, s\<lparr>sm_proc := p\<rparr>))
                                 else sample_loop proc cpu rs (n + 1) (s\<lparr>sm_proc := p\<rparr>)))"

definition read_pmem_samples_fd ::
    "'k perf_ops \<Rightarrow> 'p processor \<Rightarrow> int \<Rightarrow> int \<Rightarrow> 'p sampling \<times> 'k \<Rightarrow> (bool \<times> 'p sampling \<times> 'k) trun" where
  "read_pmem_samples_fd P proc cpu fd s =
     tbind (sample_loop proc cpu (ring_records P fd (snd s)) 0 (fst s)) (\<lambda>(full, n, t).
       Some (Inr (full, t, perf_iter_continue P fd n (snd s))))"

text \<open>All events of a CPU, or those in a set of ready ones, which are enabled again.\<close>

fun read_fds ::
    "'k perf_ops \<Rightarrow> 'p processor \<Rightarrow> int \<Rightarrow> int set option \<Rightarrow> int list \<Rightarrow> 'p sampling \<times> 'k \<Rightarrow> (bool \<times> 'p sampling \<times> 'k) trun"
where
  "read_fds P proc cpu ready [] s = Some (Inr (False, s))"
| "read_fds P proc cpu ready (fd # fds) s =
     (if fd > - 1 \<and> (case ready of None \<Rightarrow> True | Some ids \<Rightarrow> fd \<in> ids)
      then tbind (read_pmem_samples_fd P proc cpu fd s) (\<lambda>(full, t, k).
             if full then Some (Inr (True, t, k))
             else read_fds P proc cpu ready fds (t, if ready = None then k else snd (perf_enable P fd k)))
      else read_fds P proc cpu ready fds s)"

definition cpu_read_pmem_samples ::
    "'k perf_ops \<Rightarrow> 'p processor \<Rightarrow> int set option \<Rightarrow> pmu_cpu \<Rightarrow> sample_stats \<times> 'p \<times> 'k \<Rightarrow>
     (bool \<times> pmu_cpu \<times> sample_stats \<times> 'p \<times> 'k) trun" where
  "cpu_read_pmem_samples P proc ready c s =
     (case s of (st, p, k) \<Rightarrow>
        tbind (read_fds P proc (cpuid c) ready (pmem_fds c)
                 (\<lparr>sm_stats = st, sm_nr_sample = nr_sample c, sm_proc = p\<rparr>, k))
          (\<lambda>(full, t, k). Some (Inr (full, c\<lparr>nr_sample := sm_nr_sample t\<rparr>, sm_stats t, sm_proc t, k))))"

section \<open>Counters\<close>

text \<open>The local and the remote count since the last reading.\<close>

definition cpu_read_dram_count :: "'k perf_ops \<Rightarrow> pmu_cpu \<times> 'k \<Rightarrow> (u64 \<times> u64 \<times> pmu_cpu \<times> 'k) run" where
  "cpu_read_dram_count P s =
     rfold (\<lambda>i (local, remote, c, k).
       if dram_fds c ! i > - 1 then
         (case read_counter P (dram_fds c ! i) k of
            (None, k) \<Rightarrow> Inl Exit_called
          | (Some val, k) \<Rightarrow>
              if i \<ge> length (dram_counts c) then Inl Bad_index
              else
                let diff = val - dram_counts c ! i; c = c\<lparr>dram_counts := (dram_counts c)[i := val]\<rparr>
                in Inr (if i = PET_LOCAL then (diff, remote, c, k) else (local, diff, c, k)))
       else Inr (local, remote, c, k)) [0..<length (dram_fds (fst s))] (0, 0, s)"

record pmu_node =
  pn_id :: int
  dram_count :: u64
  dram_count_avg :: u64
  imc_read_fds :: "int list"
  imc_write_fds :: "int list"
  imc_read_prev :: "u64 list"
  imc_write_prev :: "u64 list"
  read_KBps :: u64
  write_KBps :: u64

definition PmuNode_ctor :: "int \<Rightarrow> pmu_node" where
  "PmuNode_ctor n =
     \<lparr>pn_id = n, dram_count = 0, dram_count_avg = 0, imc_read_fds = [], imc_write_fds = [],
      imc_read_prev = [], imc_write_prev = [], read_KBps = 0, write_KBps = 0\<rparr>"

definition reset_dram_count :: "pmu_node \<Rightarrow> pmu_node" where
  "reset_dram_count n = n\<lparr>dram_count := 0, dram_count_avg := 0\<rparr>"

definition add_dram_count :: "u64 \<Rightarrow> pmu_node \<Rightarrow> pmu_node" where
  "add_dram_count val n = n\<lparr>dram_count := dram_count n + val\<rparr>"

fun dec_string :: "nat \<Rightarrow> string" where
  "dec_string n = (if n < 10 then [char_of (48 + n)] else dec_string (n div 10) @ [char_of (48 + n mod 10)])"

text \<open>\<open>snprintf\<close> into 128 bytes.\<close>

definition resolve_imc_event :: "'k perf_ops \<Rightarrow> nat \<Rightarrow> string \<Rightarrow> perf_attr option" where
  "resolve_imc_event P imc base =
     (case resolve_event P (take 127 (''uncore_imc_'' @ dec_string imc @ ''/'' @ base @ ''/'')) of
        Some attr \<Rightarrow> Some attr
      | None \<Rightarrow> if imc = 0 then resolve_event P (take 127 (''uncore_imc/'' @ base @ ''/'')) else None)"

definition enable_imc_events :: "'k perf_ops \<Rightarrow> pmu_node \<Rightarrow> 'k \<Rightarrow> 'k run" where
  "enable_imc_events P n k =
     rbind (pmu_enable_events P (imc_read_fds n) k) (pmu_enable_events P (imc_write_fds n))"

text \<open>One memory controller; \<open>None\<close> when there is no further one.\<close>

definition open_imc_step ::
    "'k perf_ops \<Rightarrow> pmu_config \<Rightarrow> int \<Rightarrow> nat \<Rightarrow> pmu_node \<times> 'k \<Rightarrow> (pmu_node \<times> 'k) run option" where
  "open_imc_step P cfg cpu i s =
     (case (resolve_imc_event P i (imc_dram_read cfg), resolve_imc_event P i (imc_dram_write cfg)) of
        (Some r, Some w) \<Rightarrow>
          Some (case perf_fd_open_other P (r\<lparr>event_disabled := True\<rparr>) BUF_SIZE_SHIFT (- 1) cpu (snd s) of
              (None, k) \<Rightarrow> Inl Exit_called
            | (Some fd, k) \<Rightarrow>
                let n = (fst s)\<lparr>imc_read_fds := imc_read_fds (fst s) @ [fd]\<rparr>
                in (case perf_fd_open_other P (w\<lparr>event_disabled := True\<rparr>) BUF_SIZE_SHIFT (- 1) cpu k of
                      (None, k) \<Rightarrow> Inl Exit_called
                    | (Some fd, k) \<Rightarrow> Inr (n\<lparr>imc_write_fds := imc_write_fds n @ [fd]\<rparr>, k)))
      | _ \<Rightarrow> None)"

partial_function (option) open_imc_loop ::
    "'k perf_ops \<Rightarrow> pmu_config \<Rightarrow> int \<Rightarrow> nat \<Rightarrow> pmu_node \<times> 'k \<Rightarrow> (pmu_node \<times> 'k) trun" where
  "open_imc_loop P cfg cpu i s =
     (case open_imc_step P cfg cpu i s of
        None \<Rightarrow> Some (Inr s)
      | Some r \<Rightarrow> (case r of Inl e \<Rightarrow> Some (Inl e) | Inr t \<Rightarrow> open_imc_loop P cfg cpu (i + 1) t))"

definition node_open_imc_events :: "'k perf_ops \<Rightarrow> pmu_config \<Rightarrow> int \<Rightarrow> pmu_node \<times> 'k \<Rightarrow> (pmu_node \<times> 'k) trun" where
  "node_open_imc_events P cfg cpu s =
     tbind (open_imc_loop P cfg cpu 0 s) (\<lambda>(n, k).
       let n = n\<lparr>imc_read_prev := take (length (imc_read_fds n)) (imc_read_prev n)
                                 @ replicate (length (imc_read_fds n) - length (imc_read_prev n)) 0,
                imc_write_prev := take (length (imc_write_fds n)) (imc_write_prev n)
                                 @ replicate (length (imc_write_fds n) - length (imc_write_prev n)) 0\<rparr>
       in Some (rbind (enable_imc_events P n k) (\<lambda>k. Inr (n, k))))"

definition node_close_imc_events :: "'k perf_ops \<Rightarrow> pmu_node \<times> 'k \<Rightarrow> (pmu_node \<times> 'k) run" where
  "node_close_imc_events P s =
     rbind (pmu_close_events P (imc_read_fds (fst s), snd s)) (\<lambda>(rs, k).
     rbind (pmu_close_events P (imc_write_fds (fst s), k)) (\<lambda>(ws, k).
       Inr ((fst s)\<lparr>imc_read_fds := rs, imc_write_fds := ws\<rparr>, k)))"

definition imc_read_one ::
    "'k perf_ops \<Rightarrow> int \<Rightarrow> nat \<Rightarrow> u64 list \<times> u64 \<times> 'k \<Rightarrow> (u64 list \<times> u64 \<times> 'k) run" where
  "imc_read_one P fd i s =
     (case s of (prev, kbps, k) \<Rightarrow>
        (case read_counter P fd k of
           (None, k) \<Rightarrow> Inl Exit_called
         | (Some val, k) \<Rightarrow>
             if i \<ge> length prev then Inl Bad_index else Inr (prev[i := val], kbps + (val - prev ! i), k)))"

definition node_read_imc_count :: "'k perf_ops \<Rightarrow> u64 \<Rightarrow> pmu_node \<times> 'k \<Rightarrow> (pmu_node \<times> 'k) run" where
  "node_read_imc_count P ns s =
     rbind (rfold (\<lambda>i (n, k).
              rbind (imc_read_one P (imc_read_fds n ! i) i (imc_read_prev n, read_KBps n, k)) (\<lambda>(prev, kbps, k).
              let n = n\<lparr>imc_read_prev := prev, read_KBps := kbps\<rparr>
              in if i \<ge> length (imc_write_fds n) then Inl Bad_index
                 else rbind (imc_read_one P (imc_write_fds n ! i) i (imc_write_prev n, write_KBps n, k))
                        (\<lambda>(prev, kbps, k). Inr (n\<lparr>imc_write_prev := prev, write_KBps := kbps\<rparr>, k))))
              [0..<length (imc_read_fds (fst s))] ((fst s)\<lparr>read_KBps := 0, write_KBps := 0\<rparr>, snd s))
       (\<lambda>(n, k). if ns = 0 then Inl Div_by_zero
                 else Inr (n\<lparr>read_KBps := read_KBps n * (NS_PER_SEC div 16) div ns,
                            write_KBps := write_KBps n * (NS_PER_SEC div 16) div ns\<rparr>, k))"

definition node_calc_dram_count_avg :: "pmu_config \<Rightarrow> numa_collection \<Rightarrow> pmu_node \<Rightarrow> pmu_node run" where
  "node_calc_dram_count_avg cfg c n =
     rbind (get_node c (pn_id n)) (\<lambda>p. rbind (deref c p) (\<lambda>node.
       let used = drop_bit (granularity_order cfg) (mem_used node)
       in Inr (if used \<noteq> 0 then n\<lparr>dram_count_avg := dram_count n div used\<rparr> else n)))"

section \<open>The state\<close>

text \<open>
  \<open>pmu_nodes\<close> is \<open>nodes_\<close>, whose pointers into \<open>node_map_\<close> are given by the node numbers.
\<close>

record pmu_state =
  cpus :: "pmu_cpu list"
  pmu_nodes :: "int list"
  pmu_node_map :: "pmu_node option list"
  pmem_sample_period :: int
  pmem_sample_period_next :: int
  pmem_max_fd :: int
  pmem_expected_samples_margin :: int
  pmem_samples_unit_begin :: int
  pmu_stats :: sample_stats
  imc_timestamp :: u64
  pmem_open_fds :: "int set"

definition pmu_get_node :: "pmu_state \<Rightarrow> int \<Rightarrow> pmu_node run" where
  "pmu_get_node s n =
     (if 0 \<le> n \<and> nat n < length (pmu_node_map s)
      then (case pmu_node_map s ! nat n of None \<Rightarrow> Inl Null_pointer | Some p \<Rightarrow> Inr p) else Inl Out_of_range)"

definition pmu_modify_node :: "int \<Rightarrow> (pmu_node \<Rightarrow> pmu_node) \<Rightarrow> pmu_state \<Rightarrow> pmu_state run" where
  "pmu_modify_node n f s =
     rbind (pmu_get_node s n) (\<lambda>p. Inr (s\<lparr>pmu_node_map := (pmu_node_map s)[nat n := Some (f p)]\<rparr>))"

text \<open>Running a step over all CPUs, and over all nodes.\<close>

fun each_cpu :: "(pmu_cpu \<times> 'k \<Rightarrow> (pmu_cpu \<times> 'k) run) \<Rightarrow> pmu_cpu list \<Rightarrow> 'k \<Rightarrow> (pmu_cpu list \<times> 'k) run" where
  "each_cpu f [] k = Inr ([], k)"
| "each_cpu f (c # cs) k = rbind (f (c, k)) (\<lambda>(c, k). rbind (each_cpu f cs k) (\<lambda>(cs, k). Inr (c # cs, k)))"

definition with_cpus :: "(pmu_cpu \<times> 'k \<Rightarrow> (pmu_cpu \<times> 'k) run) \<Rightarrow> pmu_state \<times> 'k \<Rightarrow> (pmu_state \<times> 'k) run" where
  "with_cpus f s = rbind (each_cpu f (cpus (fst s)) (snd s)) (\<lambda>(cs, k). Inr ((fst s)\<lparr>cpus := cs\<rparr>, k))"

definition with_node :: "(pmu_node \<times> 'k \<Rightarrow> (pmu_node \<times> 'k) run) \<Rightarrow> int \<Rightarrow> pmu_state \<times> 'k \<Rightarrow> (pmu_state \<times> 'k) run" where
  "with_node f n s =
     rbind (pmu_get_node (fst s) n) (\<lambda>p. rbind (f (p, snd s)) (\<lambda>(p, k).
       Inr ((fst s)\<lparr>pmu_node_map := (pmu_node_map (fst s))[nat n := Some p]\<rparr>, k)))"

definition open_pmem_events :: "'k perf_ops \<Rightarrow> pmu_config \<Rightarrow> pmu_state \<times> 'k \<Rightarrow> (pmu_state \<times> 'k) run" where
  "open_pmem_events P cfg s =
     (let st = (fst s)\<lparr>pmem_sample_period := sample_period_min cfg, pmem_open_fds := {}\<rparr>
      in rbind (setup_pmem_attrs P cfg (pmem_sample_period st)) (\<lambda>attrs.
         rbind (with_cpus (cpu_open_pmem_events P cfg attrs) (st, snd s)) (\<lambda>(st, k).
           let (fds, max_fd) = fold setup_pmem_fd_set (cpus st) ({}, pmem_max_fd st)
           in Inr (st\<lparr>pmem_open_fds := fds, pmem_max_fd := max_fd\<rparr>, k))))"

definition close_pmem_events :: "'k perf_ops \<Rightarrow> pmu_state \<times> 'k \<Rightarrow> (pmu_state \<times> 'k) run" where
  "close_pmem_events P = with_cpus (cpu_close_pmem_events P)"

definition each_fds :: "(pmu_cpu \<Rightarrow> 'k \<Rightarrow> 'k run) \<Rightarrow> pmu_state \<times> 'k \<Rightarrow> (pmu_state \<times> 'k) run" where
  "each_fds f s = rbind (rfold f (cpus (fst s)) (snd s)) (\<lambda>k. Inr (fst s, k))"

definition enable_pmem_events :: "'k perf_ops \<Rightarrow> pmu_state \<times> 'k \<Rightarrow> (pmu_state \<times> 'k) run" where
  "enable_pmem_events P = each_fds (\<lambda>c. pmu_enable_events P (pmem_fds c))"

definition open_dram_events :: "'k perf_ops \<Rightarrow> pmu_config \<Rightarrow> pmu_state \<times> 'k \<Rightarrow> (pmu_state \<times> 'k) run" where
  "open_dram_events P cfg s =
     rbind (setup_dram_attrs P cfg) (\<lambda>attrs. with_cpus (cpu_open_dram_events P cfg attrs) s)"

definition close_dram_events :: "'k perf_ops \<Rightarrow> pmu_state \<times> 'k \<Rightarrow> (pmu_state \<times> 'k) run" where
  "close_dram_events P = with_cpus (cpu_close_dram_events P)"

definition enable_dram_events :: "'k perf_ops \<Rightarrow> pmu_state \<times> 'k \<Rightarrow> (pmu_state \<times> 'k) run" where
  "enable_dram_events P = each_fds (\<lambda>c. pmu_enable_events P (dram_fds c))"

definition disable_dram_events :: "'k perf_ops \<Rightarrow> pmu_state \<times> 'k \<Rightarrow> (pmu_state \<times> 'k) run" where
  "disable_dram_events P = each_fds (\<lambda>c. pmu_disable_events P (dram_fds c))"

definition open_imc_events ::
    "'k perf_ops \<Rightarrow> pmu_config \<Rightarrow> numa_collection \<Rightarrow> pmu_state \<times> 'k \<Rightarrow> (pmu_state \<times> 'k) trun" where
  "open_imc_events P cfg c s =
     (if \<not> imc_counting cfg then Some (Inr s)
      else
        let (ts, k) = rdclock P (snd s)
        in tfold (\<lambda>n (st, k).
             let cpu = get_node_lowest_cpu c n
             in if cpu > - 1 then
                  (case pmu_get_node st n of
                     Inl e \<Rightarrow> Some (Inl e)
                   | Inr p \<Rightarrow>
                       tbind (node_open_imc_events P cfg cpu (p, k)) (\<lambda>(p, k).
                         Some (rbind (enable_imc_events P p k) (\<lambda>k.
                           Inr (st\<lparr>pmu_node_map := (pmu_node_map st)[nat n := Some p]\<rparr>, k)))))
                else Some (Inr (st, k)))
             (pmu_nodes (fst s)) ((fst s)\<lparr>imc_timestamp := ts\<rparr>, k))"

definition close_imc_events :: "'k perf_ops \<Rightarrow> pmu_config \<Rightarrow> pmu_state \<times> 'k \<Rightarrow> (pmu_state \<times> 'k) run" where
  "close_imc_events P cfg s =
     (if \<not> imc_counting cfg then Inr s else rfold (with_node (node_close_imc_events P)) (pmu_nodes (fst s)) s)"

definition begin_interval :: "pmu_state \<Rightarrow> pmu_state run" where
  "begin_interval s =
     rbind (rfold (\<lambda>n. pmu_modify_node n reset_dram_count) (pmu_nodes s) (s\<lparr>pmu_stats := zero_stats\<rparr>)) (\<lambda>s.
       Inr (s\<lparr>cpus := map (\<lambda>c. c\<lparr>nr_sample := 0\<rparr>) (cpus s)\<rparr>))"

definition setup_pmem_sample_period :: "'k perf_ops \<Rightarrow> int \<Rightarrow> pmu_state \<times> 'k \<Rightarrow> (pmu_state \<times> 'k) run" where
  "setup_pmem_sample_period P period s =
     rbind (each_fds (cpu_setup_pmem_sample_period P period) s) (\<lambda>(st, k).
       Inr (st\<lparr>pmem_sample_period := period\<rparr>, k))"

definition adjust_sample_period_commit :: "'k perf_ops \<Rightarrow> pmu_state \<times> 'k \<Rightarrow> (pmu_state \<times> 'k) run" where
  "adjust_sample_period_commit P s =
     (if pmem_sample_period_next (fst s) = 0 then Inr s
      else rbind (setup_pmem_sample_period P (pmem_sample_period_next (fst s)) s) (\<lambda>(st, k).
             Inr (st\<lparr>pmem_sample_period_next := 0\<rparr>, k)))"

definition pmem_samples_enough :: "pmu_config \<Rightarrow> pmu_state \<Rightarrow> bool" where
  "pmem_samples_enough cfg s \<longleftrightarrow>
     st_samples (pmu_stats s) \<ge> expected_samples cfg - pmem_expected_samples_margin s"

definition begin_interval_unit :: "pmu_state \<Rightarrow> pmu_state" where
  "begin_interval_unit s = s\<lparr>pmem_samples_unit_begin := st_samples (pmu_stats s)\<rparr>"

definition update_stats :: "pmu_state \<Rightarrow> pmu_state" where
  "update_stats s =
     s\<lparr>pmu_stats := (pmu_stats s)\<lparr>nr_sample_cpu_max :=
        fold (\<lambda>c m. if nr_sample c > m then nr_sample c else m) (cpus s) 0\<rparr>\<rparr>"

section \<open>Sampling for an interval\<close>

type_synonym ('p, 'k) sampler = "pmu_cpu list \<times> sample_stats \<times> 'p \<times> 'k"

text \<open>The CPUs in turn, until one of them reports that the processor is full.\<close>

fun read_cpus ::
    "'k perf_ops \<Rightarrow> 'p processor \<Rightarrow> int set option \<Rightarrow> ('p, 'k) sampler \<Rightarrow> (bool \<times> ('p, 'k) sampler) trun" where
  "read_cpus P proc ready ([], s) = Some (Inr (False, [], s))"
| "read_cpus P proc ready (c # cs, s) =
     tbind (cpu_read_pmem_samples P proc ready c s) (\<lambda>(full, c, s).
       if full then Some (Inr (True, c # cs, s))
       else tbind (read_cpus P proc ready (cs, s)) (\<lambda>(full, cs, s). Some (Inr (full, c # cs, s))))"

datatype round_end = Time_over | Select_failed | Sampler_full | Next_round

definition sample_round ::
    "'k perf_ops \<Rightarrow> 'p processor \<Rightarrow> int set \<Rightarrow> int \<Rightarrow> u64 \<Rightarrow> ('p, 'k) sampler \<Rightarrow> (round_end \<times> ('p, 'k) sampler) trun" where
  "sample_round P proc open_fds max_fd end_ns s =
     (case s of (cs, st, p, k) \<Rightarrow>
        let (ts, k) = rdclock P k
        in if \<not> ts < end_ns then Some (Inr (Time_over, cs, st, p, k))
           else
             let tv_usec = (if end_ns > ts then (end_ns - ts) div 1000 else 0);
                 ((n, ready), k) = select_fds P max_fd open_fds tv_usec k
             in if n < 0 then Some (Inr (Select_failed, cs, st, p, k))
                else tbind (read_cpus P proc (Some ready) (cs, st, p, k)) (\<lambda>(full, s).
                       Some (Inr (if full then Sampler_full else Next_round, s))))"

partial_function (option) sample_rounds ::
    "'k perf_ops \<Rightarrow> 'p processor \<Rightarrow> int set \<Rightarrow> int \<Rightarrow> u64 \<Rightarrow> ('p, 'k) sampler \<Rightarrow> (bool \<times> ('p, 'k) sampler) trun" where
  "sample_rounds P proc open_fds max_fd end_ns s =
     (case sample_round P proc open_fds max_fd end_ns s of
        None \<Rightarrow> None
      | Some r \<Rightarrow>
          (case r of
             Inl e \<Rightarrow> Some (Inl e)
           | Inr (d, t) \<Rightarrow>
               (case d of
                  Next_round \<Rightarrow> sample_rounds P proc open_fds max_fd end_ns t
                | Sampler_full \<Rightarrow> Some (Inr (True, t))
                | Time_over \<Rightarrow> Some (Inr (False, t))
                | Select_failed \<Rightarrow> Some (Inr (False, t)))))"

text \<open>After the interval every CPU stops sampling and delivers what is left in its buffers.\<close>

fun drain_cpus :: "'k perf_ops \<Rightarrow> 'p processor \<Rightarrow> bool \<Rightarrow> ('p, 'k) sampler \<Rightarrow> (bool \<times> ('p, 'k) sampler) trun" where
  "drain_cpus P proc full ([], s) = Some (Inr (full, [], s))"
| "drain_cpus P proc full (c # cs, st, p, k) =
     (case pmu_disable_events P (pmem_fds c) k of
        Inl e \<Rightarrow> Some (Inl e)
      | Inr k \<Rightarrow>
          tbind (if full then Some (Inr (full, c, st, p, k)) else cpu_read_pmem_samples P proc None c (st, p, k))
            (\<lambda>(full, c, s). tbind (drain_cpus P proc full (cs, s)) (\<lambda>(full, cs, s). Some (Inr (full, c # cs, s)))))"

definition read_pmem_samples ::
    "'k perf_ops \<Rightarrow> 'p processor \<Rightarrow> int \<Rightarrow> pmu_state \<times> 'p \<times> 'k \<Rightarrow> (bool \<times> pmu_state \<times> 'p \<times> 'k) trun" where
  "read_pmem_samples P proc interval_ms s =
     (case s of (st, p, k) \<Rightarrow>
        let (ts, k) = rdclock P k; end_ns = ts + word_of_int interval_ms * NS_PER_MSEC
        in tbind (sample_rounds P proc (pmem_open_fds st) (pmem_max_fd st) end_ns (cpus st, pmu_stats st, p, k))
             (\<lambda>(full, t). tbind (drain_cpus P proc full t) (\<lambda>(full, cs, stats, p, k).
                Some (Inr (full, update_stats (st\<lparr>cpus := cs, pmu_stats := stats\<rparr>), p, k)))))"

section \<open>Reading the counters\<close>

definition share_remote :: "numa_collection \<Rightarrow> int \<Rightarrow> u64 \<Rightarrow> node_ptr \<Rightarrow> pmu_state \<Rightarrow> pmu_state run" where
  "share_remote c n remote q s =
     rbind (deref c (Some q)) (\<lambda>onode.
       if nn_id onode = n then Inr s
       else rbind (pmu_get_node s (nn_id onode)) (\<lambda>_.
              if length (dram_nodes c) > 1
              then pmu_modify_node (nn_id onode) (add_dram_count (remote div of_nat (length (dram_nodes c) - 1))) s
              else Inr s))"

definition distribute_count :: "numa_collection \<Rightarrow> int \<Rightarrow> u64 \<Rightarrow> u64 \<Rightarrow> pmu_state \<Rightarrow> pmu_state run" where
  "distribute_count c cpu local remote s =
     rbind (node_of_cpu c cpu) (\<lambda>p. rbind (deref c p) (\<lambda>node.
     rbind (pmu_modify_node (nn_id node) (add_dram_count local) s)
       (rfold (share_remote c (nn_id node) remote) (dram_nodes c))))"

fun read_counts ::
    "'k perf_ops \<Rightarrow> numa_collection \<Rightarrow> pmu_cpu list \<Rightarrow> pmu_state \<times> 'k \<Rightarrow> (pmu_cpu list \<times> pmu_state \<times> 'k) run" where
  "read_counts P c [] s = Inr ([], s)"
| "read_counts P c (cpu # cs) s =
     rbind (cpu_read_dram_count P (cpu, snd s)) (\<lambda>(local, remote, cpu, k).
     rbind (distribute_count c (cpuid cpu) local remote (fst s)) (\<lambda>st.
     rbind (read_counts P c cs (st, k)) (\<lambda>(cs, s). Inr (cpu # cs, s))))"

definition read_dram_count :: "'k perf_ops \<Rightarrow> numa_collection \<Rightarrow> pmu_state \<times> 'k \<Rightarrow> (pmu_state \<times> 'k) run" where
  "read_dram_count P c s =
     rbind (read_counts P c (cpus (fst s)) s) (\<lambda>(cs, st, k). Inr (st\<lparr>cpus := cs\<rparr>, k))"

definition read_imc_count :: "'k perf_ops \<Rightarrow> pmu_config \<Rightarrow> pmu_state \<times> 'k \<Rightarrow> (pmu_state \<times> 'k) run" where
  "read_imc_count P cfg s =
     (if \<not> imc_counting cfg then Inr s
      else
        let (curr, k) = rdclock P (snd s); diff = curr - imc_timestamp (fst s)
        in rfold (with_node (node_read_imc_count P diff)) (pmu_nodes (fst s)) ((fst s)\<lparr>imc_timestamp := curr\<rparr>, k))"

definition cpus_init :: "nat \<Rightarrow> (nat \<Rightarrow> bool) \<Rightarrow> pmu_state \<Rightarrow> pmu_state" where
  "cpus_init num_cpus cpumask s =
     s\<lparr>cpus := cpus s @ map (\<lambda>i. PmuCpu_ctor (int i)) (filter cpumask [0..<num_cpus])\<rparr>"

definition nodes_init :: "numa_collection \<Rightarrow> pmu_state \<Rightarrow> pmu_state run" where
  "nodes_init c s =
     (let m = take (nat (nr_possible_node c)) (pmu_node_map s)
              @ replicate (nat (nr_possible_node c) - length (pmu_node_map s)) None
      in rfold (\<lambda>q s. rbind (deref c (Some q)) (\<lambda>node.
           let n = nn_id node
           in if 0 \<le> n \<and> nat n < length (pmu_node_map s)
              then Inr (s\<lparr>pmu_node_map := (pmu_node_map s)[nat n := Some (PmuNode_ctor n)],
                          pmu_nodes := pmu_nodes s @ [n]\<rparr>)
              else Inl Bad_index)) (nodes c) (s\<lparr>pmu_node_map := m\<rparr>))"

text \<open>The quotient is a \<open>long\<close> that is stored into an \<open>int\<close>.\<close>

definition adjust_sample_period_prepare :: "pmu_config \<Rightarrow> pmu_state \<Rightarrow> (bool \<times> pmu_state) run" where
  "adjust_sample_period_prepare cfg s =
     (let old_period = pmem_sample_period s; margin = pmem_expected_samples_margin s;
          n = st_samples (pmu_stats s) - pmem_samples_unit_begin s
      in if n > expected_samples cfg + margin \<or>
            (n < expected_samples cfg - margin \<and> old_period > sample_period_min cfg)
         then
           if expected_samples cfg = 0 then Inl Div_by_zero
           else
             let new_period = sint (word_of_int (c_div (n * old_period) (expected_samples cfg)) :: 32 word);
                 new_period = (if new_period < sample_period_min cfg then sample_period_min cfg else new_period)
             in Inr (True, s\<lparr>pmem_sample_period_next := new_period\<rparr>)
         else Inr (False, s))"

definition calc_dram_count_avg :: "pmu_config \<Rightarrow> numa_collection \<Rightarrow> pmu_state \<Rightarrow> pmu_state run" where
  "calc_dram_count_avg cfg c s =
     rfold (\<lambda>n s. rbind (pmu_get_node s n) (\<lambda>p. rbind (node_calc_dram_count_avg cfg c p) (\<lambda>p.
       Inr (s\<lparr>pmu_node_map := (pmu_node_map s)[nat n := Some p]\<rparr>)))) (pmu_nodes s) s"

definition pmu_init :: "nat \<Rightarrow> (nat \<Rightarrow> bool) \<Rightarrow> numa_collection \<Rightarrow> pmu_state \<Rightarrow> pmu_state run" where
  "pmu_init num_cpus cpumask c s =
     nodes_init c (cpus_init num_cpus cpumask (s\<lparr>pmu_stats := zero_stats\<rparr>))"

end
