(* ===== verification/Address_Filter.thy ===== *)
theory Address_Filter
  imports MO_Prelude
begin

text \<open>
  \<open>AddressRangeFilter.cc\<close>: the address ranges whose pages are not to be moved. The \<open>std::map\<close> from
  (pid, start) to size is the list of its entries in ascending order, an iterator is the key it
  points to or \<open>None\<close> for \<open>end()\<close>. The code decrements \<open>begin()\<close> and reads through \<open>end()\<close>, which C++
  leaves undefined: what the library makes of it is the parameter \<open>map_lib\<close>.
\<close>

section \<open>The ordered map\<close>

type_synonym range_key = "u64 \<times> u64"
type_synonym range_entry = "range_key \<times> u64"
type_synonym rmap = "range_entry list"
type_synonym rmap_iter = "range_key option"

record map_lib =
  dec_begin :: "rmap \<Rightarrow> rmap_iter"
  end_entry :: range_entry

definition key_less :: "range_key \<Rightarrow> range_key \<Rightarrow> bool" where
  "key_less k l = (if fst k = fst l then snd k < snd l else fst k < fst l)"

definition begin_iter :: "rmap \<Rightarrow> rmap_iter" where
  "begin_iter f = (case f of [] \<Rightarrow> None | e # _ \<Rightarrow> Some (fst e))"

definition upper_bound :: "range_key \<Rightarrow> rmap \<Rightarrow> rmap_iter" where
  "upper_bound k f = begin_iter (dropWhile (\<lambda>e. \<not> key_less k (fst e)) f)"

definition prev_iter :: "map_lib \<Rightarrow> rmap \<Rightarrow> rmap_iter \<Rightarrow> rmap_iter" where
  "prev_iter L f it =
     (case takeWhile (\<lambda>e. case it of None \<Rightarrow> True | Some k \<Rightarrow> key_less (fst e) k) f of
        [] \<Rightarrow> dec_begin L f
      | es \<Rightarrow> Some (fst (last es)))"

definition read_iter :: "map_lib \<Rightarrow> rmap \<Rightarrow> rmap_iter \<Rightarrow> range_entry" where
  "read_iter L f it =
     (case it of None \<Rightarrow> end_entry L
      | Some k \<Rightarrow> (case map_of f k of None \<Rightarrow> end_entry L | Some sz \<Rightarrow> (k, sz)))"

section \<open>Operations\<close>

text \<open>The range found, the one below it and the one above it.\<close>

definition search_range :: "map_lib \<Rightarrow> int \<Rightarrow> u64 \<Rightarrow> rmap \<Rightarrow> rmap_iter \<times> rmap_iter \<times> rmap_iter" where
  "search_range L pid addr f =
     (if f = [] then (None, None, None)
      else
        let upper = upper_bound (word_of_int pid, addr) f;
            it = prev_iter L f upper
        in if it = upper then (None, None, upper)
           else
             let (k, sz) = read_iter L f it
             in if fst k \<noteq> word_of_int pid then (None, None, upper)
                else if addr < snd k + sz then
                  let lower = prev_iter L f it
                  in (it, if lower = it then None else lower, upper)
                else (None, it, upper))"

definition search_address :: "map_lib \<Rightarrow> int \<Rightarrow> u64 \<Rightarrow> rmap \<Rightarrow> bool" where
  "search_address L pid addr f \<longleftrightarrow> fst (search_range L pid addr f) \<noteq> None"

definition insert_new_range :: "int \<Rightarrow> u64 \<Rightarrow> u64 \<Rightarrow> rmap \<Rightarrow> rmap" where
  "insert_new_range pid start sz f =
     (let k = (word_of_int pid, start)
      in if k \<in> fst ` set f then f
         else takeWhile (\<lambda>e. key_less (fst e) k) f @ (k, sz) # dropWhile (\<lambda>e. key_less (fst e) k) f)"

definition is_inside :: "int \<Rightarrow> u64 \<Rightarrow> u64 \<Rightarrow> range_entry \<Rightarrow> bool" where
  "is_inside pid new_start new_end e \<longleftrightarrow>
     fst (fst e) = word_of_int pid \<and> new_start \<le> snd (fst e) \<and> new_end \<ge> snd (fst e) + snd e"

text \<open>The loop, and the entry it stops at, which is erased after it.\<close>

fun remove_loop :: "int \<Rightarrow> u64 \<Rightarrow> u64 \<Rightarrow> rmap_iter \<Rightarrow> rmap \<Rightarrow> rmap" where
  "remove_loop pid new_start new_end rm_end [] = []"
| "remove_loop pid new_start new_end rm_end (e # es) =
     (if Some (fst e) = rm_end then es
      else if is_inside pid new_start new_end e then remove_loop pid new_start new_end rm_end es
      else e # remove_loop pid new_start new_end rm_end es)"

definition remove_ranges :: "rmap_iter \<Rightarrow> rmap_iter \<Rightarrow> int \<Rightarrow> u64 \<Rightarrow> u64 \<Rightarrow> rmap \<Rightarrow> rmap" where
  "remove_ranges rm_start rm_end pid new_start new_end f =
     (case (if rm_start = None then begin_iter f else rm_start) of
        None \<Rightarrow> f
      | Some k \<Rightarrow>
          takeWhile (\<lambda>e. key_less (fst e) k) f @
          remove_loop pid new_start new_end rm_end (dropWhile (\<lambda>e. key_less (fst e) k) f))"

text \<open>The first range that the new one touches from above, and where the new one begins.\<close>

definition lower_end :: "map_lib \<Rightarrow> int \<Rightarrow> u64 \<Rightarrow> rmap \<Rightarrow> rmap_iter \<times> u64" where
  "lower_end L pid start f =
     (let (rm_start, lower, _) = search_range L pid start f
      in if rm_start \<noteq> None then (rm_start, snd (fst (read_iter L f rm_start)))
         else case lower of
           None \<Rightarrow> (None, start)
         | Some k \<Rightarrow>
             if word_of_int pid = fst k \<and> snd k + snd (read_iter L f lower) = start then (lower, snd k)
             else (upper_bound k f, start))"

text \<open>The last range that it touches, and where it ends.\<close>

definition upper_end :: "map_lib \<Rightarrow> int \<Rightarrow> u64 \<Rightarrow> u64 \<Rightarrow> rmap \<Rightarrow> rmap_iter \<times> u64" where
  "upper_end L pid start sz f =
     (let (rm_end, _, upper) = search_range L pid (start + sz - 1) f
      in if rm_end \<noteq> None then
           (rm_end, snd (fst (read_iter L f rm_end)) + snd (read_iter L f rm_end))
         else case upper of
           None \<Rightarrow> (None, start + sz)
         | Some k \<Rightarrow>
             if word_of_int pid = fst k \<and> start + sz = snd k then (upper, snd k + snd (read_iter L f upper))
             else (None, start + sz))"

definition insert_range :: "map_lib \<Rightarrow> int \<Rightarrow> u64 \<Rightarrow> u64 \<Rightarrow> rmap \<Rightarrow> rmap" where
  "insert_range L pid start sz f =
     (let (rm_start, new_start) = lower_end L pid start f;
          (rm_end, new_end) = upper_end L pid start sz f
      in insert_new_range pid new_start (new_end - new_start)
           (remove_ranges rm_start rm_end pid new_start new_end f))"

definition filter_clear :: "rmap \<Rightarrow> rmap" where
  "filter_clear f = []"

section \<open>What the filter covers\<close>

definition entry_pid :: "range_entry \<Rightarrow> u64" where "entry_pid e = fst (fst e)"
definition entry_lo :: "range_entry \<Rightarrow> nat" where "entry_lo e = unat (snd (fst e))"
definition entry_hi :: "range_entry \<Rightarrow> nat" where "entry_hi e = unat (snd (fst e)) + unat (snd e)"

definition covers :: "range_entry \<Rightarrow> u64 \<Rightarrow> nat \<Rightarrow> bool" where
  "covers e p a \<longleftrightarrow> entry_pid e = p \<and> entry_lo e \<le> a \<and> a < entry_hi e"

definition covered :: "rmap \<Rightarrow> u64 \<Rightarrow> nat \<Rightarrow> bool" where
  "covered f p a \<longleftrightarrow> (\<exists>e \<in> set f. covers e p a)"

text \<open>Ascending, not empty, ending below \<open>2^64\<close>, and apart: ranges that touch are one range.\<close>

definition apart :: "range_entry \<Rightarrow> range_entry \<Rightarrow> bool" where
  "apart e e' \<longleftrightarrow> (if entry_pid e = entry_pid e' then entry_hi e < entry_lo e' else entry_pid e < entry_pid e')"

definition wf_filter :: "rmap \<Rightarrow> bool" where
  "wf_filter f \<longleftrightarrow> sorted_wrt apart f \<and> (\<forall>e \<in> set f. entry_lo e < entry_hi e \<and> entry_hi e < 2 ^ 64)"

definition map_lib_ok :: "map_lib \<Rightarrow> bool" where
  "map_lib_ok L \<longleftrightarrow> (\<forall>f. dec_begin L f = begin_iter f \<or> dec_begin L f = None)"

lemmas entry_defs = entry_pid_def entry_lo_def entry_hi_def

lemma key_less_iff:
  "key_less (fst e) (fst e') \<longleftrightarrow>
     (if entry_pid e = entry_pid e' then entry_lo e < entry_lo e' else entry_pid e < entry_pid e')"
  by (simp add: key_less_def entry_defs word_less_nat_alt)

lemma key_less_trans: "key_less k l \<Longrightarrow> key_less l m \<Longrightarrow> key_less k m"
  by (auto simp: key_less_def split: if_splits)

lemma key_less_irrefl [simp]: "\<not> key_less k k"
  by (simp add: key_less_def)

lemma key_less_linear: "\<not> key_less k l \<Longrightarrow> k \<noteq> l \<Longrightarrow> key_less l k"
  by (cases k; cases l) (auto simp: key_less_def split: if_splits)

lemma key_le_less_trans: "\<not> key_less k l \<Longrightarrow> key_less k m \<Longrightarrow> key_less l m"
  by (auto simp: key_less_def split: if_splits)

lemma apart_key: "apart e e' \<Longrightarrow> entry_lo e < entry_hi e \<Longrightarrow> key_less (fst e) (fst e')"
  by (auto simp: apart_def key_less_iff split: if_splits)

lemma wf_keys:
  assumes "wf_filter f"
  shows "sorted_wrt (\<lambda>e e'. key_less (fst e) (fst e')) f"
proof -
  have "sorted_wrt apart f" "\<forall>e \<in> set f. entry_lo e < entry_hi e" using assms by (auto simp: wf_filter_def)
  then show ?thesis by (induction f) (auto intro: apart_key)
qed

lemma wf_distinct: "wf_filter f \<Longrightarrow> distinct (map fst f)"
  using wf_keys [of f] by (induction f) (auto simp: wf_filter_def)

lemma wf_same_key: "wf_filter f \<Longrightarrow> e \<in> set f \<Longrightarrow> e' \<in> set f \<Longrightarrow> fst e = fst e' \<Longrightarrow> e = e'"
  using wf_distinct [of f] by (simp add: distinct_map inj_on_def)

lemma read_iter_mem: "wf_filter f \<Longrightarrow> e \<in> set f \<Longrightarrow> read_iter L f (Some (fst e)) = e"
proof -
  assume "wf_filter f" "e \<in> set f"
  then have "map_of f (fst e) = Some (snd e)" using wf_distinct [of f] by simp
  then show "read_iter L f (Some (fst e)) = e" by (simp add: read_iter_def)
qed

lemma wf_pair:
  assumes "wf_filter f" and "e \<in> set f" and "e' \<in> set f" and "key_less (fst e) (fst e')"
  shows "apart e e'"
proof -
  obtain i j where ij: "i < length f" "f ! i = e" "j < length f" "f ! j = e'"
    using assms(2,3) by (auto simp: in_set_conv_nth)
  have s: "sorted_wrt apart f" "sorted_wrt (\<lambda>e e'. key_less (fst e) (fst e')) f"
    using assms(1) wf_keys by (auto simp: wf_filter_def)
  have "i < j"
  proof (rule ccontr)
    assume "\<not> i < j"
    then have "j = i \<or> j < i" by arith
    then have "e' = e \<or> key_less (fst e') (fst e)" using s(2) ij by (auto simp: sorted_wrt_iff_nth_less)
    then show False using assms(4) key_less_trans [of "fst e" "fst e'" "fst e"] by auto
  qed
  then show ?thesis using s(1) ij by (auto simp: sorted_wrt_iff_nth_less)
qed

section \<open>Searching\<close>

definition upto_key :: "range_key \<Rightarrow> rmap \<Rightarrow> rmap" where
  "upto_key k f = takeWhile (\<lambda>e. \<not> key_less k (fst e)) f"

definition beyond :: "range_key \<Rightarrow> rmap \<Rightarrow> rmap" where
  "beyond k f = dropWhile (\<lambda>e. \<not> key_less k (fst e)) f"

lemma upto_beyond: "upto_key k f @ beyond k f = f"
  by (simp add: upto_key_def beyond_def)

lemma upto_le: "e \<in> set (upto_key k f) \<Longrightarrow> \<not> key_less k (fst e)"
  by (auto simp: upto_key_def dest: set_takeWhileD)

lemma beyond_greater:
  assumes "wf_filter f" and "e \<in> set (beyond k f)"
  shows "key_less k (fst e)"
proof -
  have "sorted_wrt (\<lambda>e e'. key_less (fst e) (fst e')) f" using assms(1) by (rule wf_keys)
  then show ?thesis using assms(2) unfolding beyond_def
    by (induction f) (auto split: if_splits intro: key_less_trans)
qed

lemma beyond_keys: "wf_filter f \<Longrightarrow> sorted_wrt (\<lambda>e e'. key_less (fst e) (fst e')) (beyond k f)"
  using wf_keys [of f] sorted_wrt_append [of _ "upto_key k f" "beyond k f"] by (simp add: upto_beyond)

lemma mem_upto_iff: "wf_filter f \<Longrightarrow> e \<in> set (upto_key k f) \<longleftrightarrow> e \<in> set f \<and> \<not> key_less k (fst e)"
  by (metis Un_iff beyond_greater set_append upto_beyond upto_le)

lemma upper_bound_beyond: "upper_bound k f = begin_iter (beyond k f)"
  by (simp add: upper_bound_def beyond_def)

lemma prev_of_upper:
  assumes "wf_filter f"
  shows "prev_iter L f (upper_bound k f) =
    (case upto_key k f of [] \<Rightarrow> dec_begin L f | es \<Rightarrow> Some (fst (last es)))"
proof -
  let ?P = "\<lambda>e. case upper_bound k f of None \<Rightarrow> True | Some l \<Rightarrow> key_less (fst e) l"
  have "takeWhile ?P (upto_key k f @ beyond k f) = upto_key k f"
  proof (cases "beyond k f")
    case Nil
    then show ?thesis by (simp add: upper_bound_beyond begin_iter_def)
  next
    case (Cons b bs)
    then have u: "upper_bound k f = Some (fst b)" by (simp add: upper_bound_beyond begin_iter_def)
    have "key_less k (fst b)" using beyond_greater [OF assms, of b k] Cons by simp
    then have "key_less (fst e) (fst b)" if "e \<in> set (upto_key k f)" for e
      by (rule key_le_less_trans [OF upto_le [OF that]])
    then have "\<forall>e \<in> set (upto_key k f). ?P e" by (simp add: u)
    moreover have "\<not> ?P b" by (simp add: u)
    ultimately show ?thesis by (simp add: Cons takeWhile_append2)
  qed
  then show ?thesis by (simp add: prev_iter_def upto_beyond)
qed

lemma last_upto_greatest:
  assumes "wf_filter f" and "e \<in> set (upto_key k f)"
  shows "e = last (upto_key k f) \<or> apart e (last (upto_key k f))"
proof -
  have s: "sorted_wrt apart (upto_key k f)" using assms(1) upto_beyond [of k f]
    by (metis sorted_wrt_append wf_filter_def)
  obtain i where i: "i < length (upto_key k f)" "upto_key k f ! i = e" using assms(2) by (auto simp: in_set_conv_nth)
  then have l: "last (upto_key k f) = upto_key k f ! (length (upto_key k f) - 1)"
    by (intro last_conv_nth) auto
  show ?thesis
  proof (cases "i = length (upto_key k f) - 1")
    case True
    then show ?thesis using l i by simp
  next
    case False
    then have "i < length (upto_key k f) - 1" using i by simp
    then show ?thesis using s l i by (auto simp: sorted_wrt_iff_nth_less)
  qed
qed

text \<open>The outcome of a search, for the range just below the address.\<close>

lemma search_none_below:
  assumes "wf_filter f" and "map_lib_ok L" and "upto_key (word_of_int pid, addr) f = []"
  shows "\<exists>lower. search_range L pid addr f = (None, lower, upper_bound (word_of_int pid, addr) f) \<and>
    (f \<noteq> [] \<longrightarrow> lower = None \<or> lower = Some (fst (last f)))"
proof (cases "f = []")
  case True
  then show ?thesis by (simp add: search_range_def upper_bound_def begin_iter_def)
next
  case False
  let ?u = "upper_bound (word_of_int pid, addr) f"
  have b: "beyond (word_of_int pid, addr) f = f" using upto_beyond [of "(word_of_int pid, addr)" f] assms(3) by simp
  then have u: "?u = begin_iter f" by (simp add: upper_bound_beyond)
  have p: "prev_iter L f (begin_iter f) = dec_begin L f"
    using prev_of_upper [OF assms(1), of L "(word_of_int pid, addr)"] assms(3) by (simp add: u)
  have l: "prev_iter L f None = Some (fst (last f))" using False by (cases f) (simp_all add: prev_iter_def takeWhile_eq_all_conv [THEN iffD2])
  have "dec_begin L f = begin_iter f \<or> dec_begin L f = None" using assms(2) by (simp add: map_lib_ok_def)
  then show ?thesis
  proof
    assume d: "dec_begin L f = begin_iter f"
    show ?thesis using False unfolding search_range_def Let_def u p d by simp
  next
    assume d: "dec_begin L f = None"
    have "begin_iter f \<noteq> None" using False by (simp add: begin_iter_def split: list.split)
    then show ?thesis using False unfolding search_range_def Let_def u p d l
      by (auto split: prod.split)
  qed
qed

lemma search_below:
  assumes "wf_filter f" and "upto_key (word_of_int pid, addr) f \<noteq> []"
  defines "e \<equiv> last (upto_key (word_of_int pid, addr) f)"
  shows "\<exists>lower. search_range L pid addr f =
    (if entry_pid e \<noteq> word_of_int pid then (None, None, upper_bound (word_of_int pid, addr) f)
     else if unat addr < entry_hi e then (Some (fst e), lower, upper_bound (word_of_int pid, addr) f)
     else (None, Some (fst e), upper_bound (word_of_int pid, addr) f))"
proof -
  let ?k = "(word_of_int pid, addr)"
  have mem: "e \<in> set (upto_key ?k f)" using assms(2) by (simp add: e_def)
  then have ef: "e \<in> set f" using mem_upto_iff [OF assms(1)] by blast
  have p: "prev_iter L f (upper_bound ?k f) = Some (fst e)"
    using prev_of_upper [OF assms(1)] assms(2) by (simp add: e_def split: list.split)
  have "Some (fst e) \<noteq> upper_bound ?k f"
  proof (cases "beyond ?k f")
    case (Cons b bs)
    then have "key_less ?k (fst b)" using beyond_greater [OF assms(1), of b ?k] by simp
    then show ?thesis using upto_le [OF mem] Cons by (auto simp: upper_bound_beyond begin_iter_def)
  qed (simp add: upper_bound_beyond begin_iter_def)
  moreover have "f \<noteq> []" using ef by auto
  moreover have "entry_hi e < 2 ^ 64" using assms(1) ef by (simp add: wf_filter_def)
  then have "addr < snd (fst e) + snd e \<longleftrightarrow> unat addr < entry_hi e"
    by (simp add: word_less_nat_alt entry_hi_def unat_word_ariths)
  ultimately show ?thesis
    using read_iter_mem [OF assms(1) ef, of L]
    unfolding search_range_def Let_def p by (auto simp: entry_pid_def split: prod.split)
qed

definition touches :: "range_entry \<Rightarrow> int \<Rightarrow> nat \<Rightarrow> bool" where
  "touches e pid a \<longleftrightarrow> entry_pid e = word_of_int pid \<and> entry_lo e \<le> a \<and> a \<le> entry_hi e"

lemma touches_unique:
  assumes "wf_filter f" and "e \<in> set f" and "e' \<in> set f" and "touches e pid a" and "touches e' pid a"
  shows "e = e'"
proof (cases "fst e = fst e'")
  case True
  then show ?thesis using wf_same_key [OF assms(1-3)] by simp
next
  case False
  then have "key_less (fst e) (fst e') \<or> key_less (fst e') (fst e)" using key_less_linear by blast
  then have "apart e e' \<or> apart e' e" using wf_pair assms(1-3) by blast
  then show ?thesis using assms(4,5) by (auto simp: apart_def touches_def split: if_splits)
qed

text \<open>A range of the process that begins at or below an address is the last one, or ends below it.\<close>

lemma upto_key_touch:
  assumes "wf_filter f" and "e \<in> set f" and "entry_pid e = word_of_int pid" and "entry_lo e \<le> unat addr"
  defines "l \<equiv> last (upto_key (word_of_int pid, addr) f)"
  shows "upto_key (word_of_int pid, addr) f \<noteq> []" and "l \<in> set f" and "\<not> key_less (word_of_int pid, addr) (fst l)"
    and "e = l \<or> entry_pid l = word_of_int pid \<and> entry_hi e < entry_lo l \<and> entry_lo l \<le> unat addr"
proof -
  let ?k = "(word_of_int pid, addr)"
  have "\<not> key_less ?k (fst e)" using assms(3,4) by (simp add: key_less_def entry_defs word_less_nat_alt not_less)
  then have m: "e \<in> set (upto_key ?k f)" using mem_upto_iff [OF assms(1)] assms(2) by blast
  then show ne: "upto_key ?k f \<noteq> []" by auto
  then have "l \<in> set (upto_key ?k f)" by (simp add: l_def)
  then show lf: "l \<in> set f" and lk: "\<not> key_less ?k (fst l)" using mem_upto_iff [OF assms(1)] by blast+
  have "e = l \<or> apart e l" using last_upto_greatest [OF assms(1) m] by (simp add: l_def)
  then show "e = l \<or> entry_pid l = word_of_int pid \<and> entry_hi e < entry_lo l \<and> entry_lo l \<le> unat addr"
    using lk assms(3) by (auto simp: apart_def key_less_def entry_defs word_less_nat_alt split: if_splits)
qed

lemma search_found:
  assumes "wf_filter f" and "map_lib_ok L" and "search_range L pid addr f = (Some k, lower, upper)"
  shows "\<exists>e \<in> set f. fst e = k \<and> covers e (word_of_int pid) (unat addr)"
proof (cases "upto_key (word_of_int pid, addr) f = []")
  case True
  then show ?thesis using search_none_below [OF assms(1,2) True] assms(3) by auto
next
  case False
  let ?e = "last (upto_key (word_of_int pid, addr) f)"
  have "?e \<in> set (upto_key (word_of_int pid, addr) f)" using False by simp
  then have m: "?e \<in> set f" "\<not> key_less (word_of_int pid, addr) (fst ?e)" using mem_upto_iff [OF assms(1)] by blast+
  have "k = fst ?e" "entry_pid ?e = word_of_int pid" "unat addr < entry_hi ?e"
    using search_below [OF assms(1) False, of L] assms(3) by (auto split: if_splits)
  then show ?thesis using m
    by (intro bexI [of _ ?e]) (auto simp: covers_def key_less_def entry_defs word_less_nat_alt)
qed

lemma search_not_found:
  assumes "wf_filter f" and "map_lib_ok L" and "search_range L pid addr f = (None, lower, upper)"
    and "e \<in> set f"
  shows "\<not> covers e (word_of_int pid) (unat addr)"
proof
  assume c: "covers e (word_of_int pid) (unat addr)"
  note t = upto_key_touch [OF assms(1,4), of pid addr]
  have "entry_hi e \<le> entry_lo e \<or> unat addr < entry_hi e" using c by (simp add: covers_def)
  then show False
    using t c search_below [OF assms(1) t(1), of L] assms(3)
    by (auto simp: covers_def split: if_splits)
qed

lemma search_address_iff:
  assumes "wf_filter f" and "map_lib_ok L"
  shows "search_address L pid addr f \<longleftrightarrow> covered f (word_of_int pid) (unat addr)"
proof -
  obtain it lower upper where r: "search_range L pid addr f = (it, lower, upper)" by (cases "search_range L pid addr f")
  show ?thesis
  proof (cases it)
    case None
    then show ?thesis using search_not_found [OF assms] r by (auto simp: search_address_def covered_def)
  next
    case (Some k)
    have "search_address L pid addr f" using r Some by (simp add: search_address_def)
    moreover have "covered f (word_of_int pid) (unat addr)"
      using search_found [OF assms r [unfolded Some]] by (auto simp: covered_def)
    ultimately show ?thesis by simp
  qed
qed

section \<open>Inserting\<close>

lemma last_greatest:
  assumes "wf_filter f" and "e \<in> set f"
  shows "\<not> key_less (fst (last f)) (fst e)"
proof -
  obtain ys y where f: "f = ys @ [y]" using assms(2) by (cases f rule: rev_cases) auto
  then have "\<forall>x \<in> set ys. key_less (fst x) (fst y)"
    using wf_keys [OF assms(1)] by (simp add: sorted_wrt_append)
  then show ?thesis using assms(2) f key_less_trans [of "fst y" "fst e" "fst y"] by auto
qed

lemma upper_bound_next:
  assumes "wf_filter f" and "upper_bound k f = Some l"
  shows "\<exists>e \<in> set f. fst e = l \<and> key_less k l"
    and "e \<in> set f \<Longrightarrow> key_less k (fst e) \<Longrightarrow> fst e = l \<or> key_less l (fst e)"
proof -
  obtain b bs where b: "beyond k f = b # bs" using assms(2)
    by (cases "beyond k f") (auto simp: upper_bound_beyond begin_iter_def)
  then have l: "l = fst b" using assms(2) by (simp add: upper_bound_beyond begin_iter_def)
  have "b \<in> set (beyond k f)" using b by simp
  then show "\<exists>e \<in> set f. fst e = l \<and> key_less k l"
    using beyond_greater [OF assms(1)] upto_beyond [of k f] l by (metis Un_iff set_append)
  assume "e \<in> set f" "key_less k (fst e)"
  then have "e \<in> set (beyond k f)"
    using mem_upto_iff [OF assms(1), of e k] upto_beyond [of k f] by (metis Un_iff set_append)
  then show "fst e = l \<or> key_less l (fst e)" using b l beyond_keys [OF assms(1), of k] by auto
qed

lemma upper_bound_none:
  "wf_filter f \<Longrightarrow> upper_bound k f = None \<Longrightarrow> e \<in> set f \<Longrightarrow> \<not> key_less k (fst e)"
  using upto_beyond [of k f] upto_le [of e k f]
  by (cases "beyond k f") (auto simp: upper_bound_beyond begin_iter_def)

text \<open>What the search for the lower end has to deliver.\<close>

definition lower_right :: "rmap \<Rightarrow> int \<Rightarrow> u64 \<Rightarrow> rmap_iter \<Rightarrow> u64 \<Rightarrow> bool" where
  "lower_right f pid start rm_start new_start \<longleftrightarrow>
     (if \<exists>e \<in> set f. touches e pid (unat start)
      then \<exists>e \<in> set f. touches e pid (unat start) \<and> new_start = snd (fst e)
      else new_start = start) \<and>
     (\<forall>k. rm_start = Some k \<longrightarrow>
       (\<forall>e \<in> set f. entry_pid e = word_of_int pid \<and> key_less (fst e) k \<longrightarrow> entry_lo e < unat new_start))"

lemma lower_right_touched:
  assumes "e \<in> set f" and "touches e pid (unat start)"
  shows "lower_right f pid start (Some (fst e)) (snd (fst e))"
proof -
  have "entry_lo e' < unat (snd (fst e))" if "entry_pid e' = word_of_int pid" "key_less (fst e') (fst e)" for e'
    using that assms(2) by (auto simp: key_less_iff touches_def entry_lo_def)
  then show ?thesis using assms by (auto simp: lower_right_def)
qed

lemma lower_end_found:
  assumes "wf_filter f" and "map_lib_ok L" and "lower_end L pid start f = (rm_start, new_start)"
    and "search_range L pid start f = (Some k, lower, upper)"
  shows "lower_right f pid start rm_start new_start"
proof -
  obtain e where e: "e \<in> set f" "fst e = k" "covers e (word_of_int pid) (unat start)"
    using search_found [OF assms(1,2,4)] by blast
  have "rm_start = Some (fst e)" "new_start = snd (fst e)"
    using assms(3,4) read_iter_mem [OF assms(1) e(1), of L, unfolded e(2)] by (auto simp: lower_end_def e(2))
  moreover have "touches e pid (unat start)" using e(3) by (simp add: touches_def covers_def)
  ultimately show ?thesis using lower_right_touched [OF e(1)] by simp
qed

lemma entry_end: "wf_filter f \<Longrightarrow> e \<in> set f \<Longrightarrow> unat (snd (fst e) + snd e) = entry_hi e"
  unfolding wf_filter_def entry_hi_def by (drule conjunct2, drule (1) bspec) (simp add: unat_word_ariths)

lemma lower_end_none_below:
  assumes "wf_filter f" and "map_lib_ok L" and "lower_end L pid start f = (rm_start, new_start)"
    and "search_range L pid start f = (None, lower, upper)" and "upto_key (word_of_int pid, start) f = []"
  shows "lower_right f pid start rm_start new_start"
proof -
  have nt: "\<not> touches e pid (unat start)" if "e \<in> set f" for e
    using upto_key_touch(1) [OF assms(1) that] assms(5) by (auto simp: touches_def)
  show ?thesis
  proof (cases "f = [] \<or> lower = None")
    case True
    then have "lower = None" using assms(4) by (auto simp: search_range_def)
    then show ?thesis using assms(3,4) nt by (auto simp: lower_end_def lower_right_def)
  next
    case False
    then have f: "f \<noteq> []" "lower = Some (fst (last f))"
      using search_none_below [OF assms(1,2,5)] assms(4) by auto
    obtain l where l: "l = last f" "l \<in> set f" using f(1) by simp
    have "key_less (word_of_int pid, start) (fst l)"
      using assms(5) mem_upto_iff [OF assms(1)] l(2) by (metis empty_iff empty_set)
    then have "unat start \<le> entry_lo l" if "entry_pid l = word_of_int pid"
      using that by (auto simp: key_less_def entry_defs word_less_nat_alt)
    moreover have "entry_lo l < entry_hi l" using assms(1) l(2) by (simp add: wf_filter_def)
    ultimately have "\<not> (word_of_int pid = fst (fst l) \<and> snd (fst l) + snd l = start)"
      using entry_end [OF assms(1) l(2)] by (auto simp: entry_pid_def)
    then have n: "new_start = start" "rm_start = upper_bound (fst l) f"
      using assms(3,4) f(2) read_iter_mem [OF assms(1) l(2), of L]
      by (auto simp: lower_end_def l(1) split: if_splits)
    have "upper_bound (fst l) f = None"
      using upper_bound_next(1) [OF assms(1), of "fst l"] last_greatest [OF assms(1)] l(1)
      by (cases "upper_bound (fst l) f") (auto dest: key_less_trans)
    then show ?thesis using n nt by (auto simp: lower_right_def)
  qed
qed

lemma lower_end_below:
  assumes "wf_filter f" and "map_lib_ok L" and "lower_end L pid start f = (rm_start, new_start)"
    and "search_range L pid start f = (None, lower, upper)" and "upto_key (word_of_int pid, start) f \<noteq> []"
  shows "lower_right f pid start rm_start new_start"
proof -
  obtain l where l: "l = last (upto_key (word_of_int pid, start) f)" by simp
  then have "l \<in> set (upto_key (word_of_int pid, start) f)" using assms(5) by simp
  then have m: "l \<in> set f" "\<not> key_less (word_of_int pid, start) (fst l)" using mem_upto_iff [OF assms(1)] by blast+
  note rd = read_iter_mem [OF assms(1) m(1), of L]
  have only: "e = l" if "e \<in> set f" "touches e pid (unat start)" for e
    using upto_key_touch(4) [OF assms(1) that(1), of pid start] that(2) l by (auto simp: touches_def)
  show ?thesis
  proof (cases "entry_pid l = word_of_int pid")
    case False
    then have "lower = None" using search_below [OF assms(1,5), of L] assms(4) l by auto
    moreover have "\<not> touches e pid (unat start)" if "e \<in> set f" for e
      using only [OF that] False by (auto simp: touches_def)
    ultimately show ?thesis using assms(3,4) by (auto simp: lower_end_def lower_right_def)
  next
    case same: True
    have low: "lower = Some (fst l)" "entry_hi l \<le> unat start"
      using search_below [OF assms(1,5), of L] assms(4) same l by (auto split: if_splits)
    have fl: "fst (fst l) = word_of_int pid" using same by (simp add: entry_pid_def)
    show ?thesis
    proof (cases "entry_hi l = unat start")
      case True
      then have "snd (fst l) + snd l = start" using entry_end [OF assms(1) m(1)] by (simp add: word_unat_eq_iff)
      then have "rm_start = Some (fst l)" "new_start = snd (fst l)"
        using assms(3,4) low fl rd by (auto simp: lower_end_def)
      moreover have "entry_lo l < entry_hi l" using assms(1) m(1) by (simp add: wf_filter_def)
      then have "touches l pid (unat start)" using True same by (simp add: touches_def)
      ultimately show ?thesis using lower_right_touched [OF m(1)] by simp
    next
      case False
      then have "snd (fst l) + snd l \<noteq> start" using entry_end [OF assms(1) m(1)] by auto
      then have n: "new_start = start" "rm_start = upper_bound (fst l) f"
        using assms(3,4) low rd by (auto simp: lower_end_def)
      have "entry_lo e < unat start"
        if e: "e \<in> set f" "entry_pid e = word_of_int pid" and k: "rm_start = Some k" "key_less (fst e) k" for e k
      proof -
        have "\<not> key_less (fst l) (fst e)"
          using upper_bound_next(2) [OF assms(1) _ e(1), of "fst l" k] k n(2)
          by (metis key_less_irrefl key_less_trans)
        then have "entry_lo e \<le> entry_lo l" using same e(2) by (auto simp: key_less_iff)
        also have "\<dots> < entry_hi l" using assms(1) m(1) by (simp add: wf_filter_def)
        finally show ?thesis using low(2) by simp
      qed
      moreover have "\<not> touches e pid (unat start)" if "e \<in> set f" for e
        using only [OF that] low(2) False by (auto simp: touches_def)
      ultimately show ?thesis using n(1) by (auto simp: lower_right_def)
    qed
  qed
qed

lemma lower_end_right:
  assumes "wf_filter f" and "map_lib_ok L" and "lower_end L pid start f = (rm_start, new_start)"
  shows "lower_right f pid start rm_start new_start"
proof -
  obtain it lower upper where r: "search_range L pid start f = (it, lower, upper)" by (cases "search_range L pid start f")
  show ?thesis
    using lower_end_found [OF assms] lower_end_none_below [OF assms] lower_end_below [OF assms] r
    by (cases it) blast+
qed

lemma search_upper:
  assumes "wf_filter f" and "map_lib_ok L" and "search_range L pid addr f = (it, lower, upper)"
  shows "upper = upper_bound (word_of_int pid, addr) f"
  using search_none_below [OF assms(1,2), of pid addr] search_below [OF assms(1), of pid addr L] assms(3)
  by (cases "upto_key (word_of_int pid, addr) f = []") (fastforce split: if_splits)+

lemma upper_end_spec:
  assumes "wf_filter f" and "map_lib_ok L" and "upper_end L pid start sz f = (rm_end, new_end)"
    and "sz \<noteq> 0" and "unat start + unat sz < 2 ^ 64"
  shows "case rm_end of
      None \<Rightarrow> unat new_end = unat start + unat sz \<and> (\<forall>e \<in> set f. \<not> touches e pid (unat start + unat sz))
    | Some k \<Rightarrow> \<exists>e \<in> set f. fst e = k \<and> touches e pid (unat start + unat sz) \<and> unat new_end = entry_hi e"
proof -
  let ?a = "start + sz - 1"
  have T: "unat (start + sz) = unat start + unat sz" using assms(5) by (simp add: unat_word_ariths)
  have "0 < unat sz" using assms(4) by (simp add: unat_gt_0)
  then have "start + sz \<noteq> 0" using T by (metis add_is_0 less_numeral_extra(3) unat_0)
  then have "unat ?a = unat (start + sz) - 1" by (simp add: unat_minus_one)
  then have a: "Suc (unat ?a) = unat start + unat sz" using T \<open>0 < unat sz\<close> by simp
  obtain it lower upper where r: "search_range L pid ?a f = (it, lower, upper)" by (cases "search_range L pid ?a f")
  note u = entry_end [OF assms(1)]
  show ?thesis
  proof (cases it)
    case (Some k)
    then obtain e where e: "e \<in> set f" "fst e = k" "covers e (word_of_int pid) (unat ?a)"
      using search_found [OF assms(1,2)] r by blast
    then have "rm_end = Some k" "new_end = snd (fst e) + snd e"
      using assms(3) r Some read_iter_mem [OF assms(1) e(1), of L, unfolded e(2)] by (auto simp: upper_end_def e(2))
    moreover have "touches e pid (unat start + unat sz)" using e(3) a by (auto simp: touches_def covers_def)
    ultimately show ?thesis using e(1,2) u [OF e(1)] by auto
  next
    case None
    note nc = search_not_found [OF assms(1,2) r [unfolded None]]
    note up = search_upper [OF assms(1,2) r]
    have begins: "entry_lo e = unat start + unat sz"
      if "e \<in> set f" "touches e pid (unat start + unat sz)" for e
      using nc [OF that(1)] that(2) a by (auto simp: touches_def covers_def)
    show ?thesis
    proof (cases "\<exists>k. upper = Some k \<and> word_of_int pid = fst k \<and> start + sz = snd k")
      case True
      then obtain k where k: "upper = Some k" "word_of_int pid = fst k" "start + sz = snd k" by blast
      then obtain e where e: "e \<in> set f" "fst e = k" using upper_bound_next(1) [OF assms(1)] up by metis
      have "rm_end = Some k" "new_end = snd (fst e) + snd e"
        using assms(3) r None k read_iter_mem [OF assms(1) e(1), of L, unfolded e(2)] by (auto simp: upper_end_def e(2))
      moreover have "touches e pid (unat start + unat sz)"
        using k e(2) T by (auto simp: touches_def entry_defs)
      ultimately show ?thesis using e u [OF e(1)] by auto
    next
      case False
      then have n: "rm_end = None" "new_end = start + sz"
        using assms(3) r None by (auto simp: upper_end_def split: option.splits if_splits)
      have "\<not> touches e pid (unat start + unat sz)" if e: "e \<in> set f" for e
      proof
        assume t: "touches e pid (unat start + unat sz)"
        note lo = begins [OF e t]
        have pe: "fst (fst e) = word_of_int pid" using t by (simp add: touches_def entry_pid_def)
        have se: "snd (fst e) = start + sz" using lo T by (simp add: entry_lo_def word_unat_eq_iff)
        have kl: "key_less (word_of_int pid, ?a) (fst e)" using pe lo a
          by (simp add: key_less_def word_less_nat_alt entry_lo_def)
        have "upper \<noteq> None" using upper_bound_none [OF assms(1) _ e] kl up by metis
        then obtain l where l: "upper = Some l" by blast
        then obtain e' where e': "e' \<in> set f" "fst e' = l" "key_less (word_of_int pid, ?a) l"
          using upper_bound_next(1) [OF assms(1)] up by metis
        have "fst e = l \<or> key_less l (fst e)" using upper_bound_next(2) [OF assms(1) _ e kl] l up by simp
        moreover have "fst e \<noteq> l" using False l pe se by auto
        ultimately have kl2: "key_less l (fst e)" by simp
        then have "fst l = word_of_int pid" using e'(3) pe by (auto simp: key_less_def split: if_splits)
        then have "unat ?a < entry_lo e'" "entry_lo e' < entry_lo e"
          using e' kl2 pe by (auto simp: key_less_def entry_defs word_less_nat_alt)
        then show False using lo a by simp
      qed
      then show ?thesis using n T by simp
    qed
  qed
qed

lemma remove_loop_filter:
  assumes "sorted_wrt (\<lambda>e e'. key_less (fst e) (fst e')) es"
    and "\<And>e e'. e \<in> set es \<Longrightarrow> Some (fst e) = rm_end \<Longrightarrow> is_inside pid ns ne e \<and>
      (e' \<in> set es \<longrightarrow> key_less (fst e) (fst e') \<longrightarrow> \<not> is_inside pid ns ne e')"
  shows "remove_loop pid ns ne rm_end es = filter (\<lambda>e. \<not> is_inside pid ns ne e) es"
  using assms
proof (induction es)
  case (Cons e es)
  show ?case
  proof (cases "Some (fst e) = rm_end")
    case True
    have "\<not> is_inside pid ns ne e'" if "e' \<in> set es" for e'
      using Cons.prems(2) [of e e'] Cons.prems(1) True that by auto
    then show ?thesis using True Cons.prems(2) [of e] by (auto simp: filter_id_conv)
  next
    case False
    have "remove_loop pid ns ne rm_end es = filter (\<lambda>e. \<not> is_inside pid ns ne e) es"
    proof (rule Cons.IH)
      show "sorted_wrt (\<lambda>e e'. key_less (fst e) (fst e')) es" using Cons.prems(1) by simp
      fix x y
      assume "x \<in> set es" "Some (fst x) = rm_end"
      then show "is_inside pid ns ne x \<and> (y \<in> set es \<longrightarrow> key_less (fst x) (fst y) \<longrightarrow> \<not> is_inside pid ns ne y)"
        using Cons.prems(2) [of x y] by simp
    qed
    then show ?thesis using False by simp
  qed
qed simp

lemma remove_ranges_filter:
  assumes "wf_filter f"
    and "\<And>k e. rm_start = Some k \<Longrightarrow> e \<in> set f \<Longrightarrow> key_less (fst e) k \<Longrightarrow> \<not> is_inside pid ns ne e"
    and "\<And>e e'. e \<in> set f \<Longrightarrow> Some (fst e) = rm_end \<Longrightarrow> is_inside pid ns ne e \<and>
      (e' \<in> set f \<longrightarrow> key_less (fst e) (fst e') \<longrightarrow> \<not> is_inside pid ns ne e')"
  shows "remove_ranges rm_start rm_end pid ns ne f = filter (\<lambda>e. \<not> is_inside pid ns ne e) f"
proof -
  have keys: "sorted_wrt (\<lambda>e e'. key_less (fst e) (fst e')) f" by (rule wf_keys [OF assms(1)])
  show ?thesis
  proof (cases "if rm_start = None then begin_iter f else rm_start")
    case None
    then have "rm_start = None" "f = []" by (auto simp: begin_iter_def split: if_splits list.splits)
    then show ?thesis by (simp add: remove_ranges_def begin_iter_def)
  next
    case (Some k)
    let ?P = "\<lambda>e. key_less (fst e) k"
    have "\<not> is_inside pid ns ne e" if e: "e \<in> set (takeWhile ?P f)" for e
    proof (cases rm_start)
      case None
      then obtain e0 es where f: "f = e0 # es" "k = fst e0" using Some
        by (cases f) (auto simp: begin_iter_def)
      then show ?thesis using e by simp
    next
      case (Some k')
      then show ?thesis using assms(2) [of k e] e set_takeWhileD [OF e]
          \<open>(if rm_start = None then begin_iter f else rm_start) = Some k\<close> by simp
    qed
    then have "filter (\<lambda>e. \<not> is_inside pid ns ne e) (takeWhile ?P f) = takeWhile ?P f"
      by (simp add: filter_id_conv)
    moreover have "sorted_wrt (\<lambda>e e'. key_less (fst e) (fst e')) (takeWhile ?P f @ dropWhile ?P f)"
      using keys by simp
    then have "sorted_wrt (\<lambda>e e'. key_less (fst e) (fst e')) (dropWhile ?P f)"
      by (simp only: sorted_wrt_append)
    then have "remove_loop pid ns ne rm_end (dropWhile ?P f) = filter (\<lambda>e. \<not> is_inside pid ns ne e) (dropWhile ?P f)"
    proof (rule remove_loop_filter)
      fix e e'
      assume e: "e \<in> set (dropWhile ?P f)" "Some (fst e) = rm_end"
      show "is_inside pid ns ne e \<and>
          (e' \<in> set (dropWhile ?P f) \<longrightarrow> key_less (fst e) (fst e') \<longrightarrow> \<not> is_inside pid ns ne e')"
        using assms(3) [OF set_dropWhileD [OF e(1)] e(2), of e'] set_dropWhileD [of e' ?P f] by blast
    qed
    ultimately have "remove_ranges rm_start rm_end pid ns ne f =
        filter (\<lambda>e. \<not> is_inside pid ns ne e) (takeWhile ?P f @ dropWhile ?P f)"
      unfolding remove_ranges_def Some by (simp only: option.case filter_append)
    then show ?thesis by simp
  qed
qed

lemma sorted_insert_entry:
  assumes "sorted_wrt apart f" and "\<And>e. e \<in> set f \<Longrightarrow> entry_lo e < entry_hi e"
    and "\<And>e. e \<in> set f \<Longrightarrow> if key_less (fst e) (fst n) then apart e n else apart n e"
  shows "sorted_wrt apart (takeWhile (\<lambda>e. key_less (fst e) (fst n)) f @ n # dropWhile (\<lambda>e. key_less (fst e) (fst n)) f)"
  using assms
proof (induction f)
  case (Cons e f)
  let ?P = "\<lambda>e. key_less (fst e) (fst n)"
  have ef: "\<forall>x \<in> set f. apart e x" "entry_lo e < entry_hi e" using Cons.prems(1,2) by simp_all
  show ?case
  proof (cases "?P e")
    case True
    have "sorted_wrt apart (takeWhile ?P f @ n # dropWhile ?P f)"
      by (rule Cons.IH) (use Cons.prems in auto)
    moreover have "apart e n" using Cons.prems(3) [of e] True by simp
    moreover have "\<forall>x \<in> set (takeWhile ?P f @ dropWhile ?P f). apart e x" using ef(1) by simp
    ultimately show ?thesis using True by (auto simp del: takeWhile_dropWhile_id)
  next
    case False
    have "\<not> ?P x" if "x \<in> set f" for x
      using apart_key [of e x] ef that False key_less_trans by blast
    then have "\<forall>x \<in> set (e # f). apart n x" using Cons.prems(3) False by fastforce
    then show ?thesis using False Cons.prems(1) by simp
  qed
qed simp

lemma touch_or_below:
  assumes "lower_right f pid start rm_start new_start"
  shows "unat new_start \<le> unat start"
    and "unat new_start \<le> a \<Longrightarrow> a < unat start \<Longrightarrow> \<exists>e \<in> set f. covers e (word_of_int pid) a"
  using assms by (fastforce simp: lower_right_def touches_def covers_def entry_lo_def split: if_splits)+

text \<open>A range that is kept stays clear of the new one.\<close>

lemma kept_clear:
  assumes "wf_filter f" and "lower_right f pid start rm_start ns"
    and "case rm_end of
        None \<Rightarrow> unat ne = t \<and> (\<forall>e \<in> set f. \<not> touches e pid t)
      | Some k \<Rightarrow> \<exists>e \<in> set f. fst e = k \<and> touches e pid t \<and> unat ne = entry_hi e"
    and "unat start < t" and "e \<in> set f" and "entry_pid e = word_of_int pid" and "\<not> is_inside pid ns ne e"
  shows "entry_hi e < unat ns \<or> unat ne < entry_lo e"
proof (rule ccontr)
  assume "\<not> ?thesis"
  then have near: "unat ns \<le> entry_hi e" "entry_lo e \<le> unat ne" by simp_all
  have "entry_lo e < unat ns \<or> unat ne < entry_hi e"
    using assms(6,7) entry_end [OF assms(1,5)] by (auto simp: is_inside_def entry_pid_def entry_lo_def word_le_nat_alt)
  then show False
  proof
    assume l: "entry_lo e < unat ns"
    have "\<exists>e0 \<in> set f. touches e0 pid (unat start) \<and> ns = snd (fst e0)"
      using assms(2,5,6) l near(1) by (auto simp: lower_right_def touches_def split: if_splits)
    then obtain e0 where e0: "e0 \<in> set f" "touches e0 pid (unat start)" "entry_lo e0 = unat ns"
      by (auto simp: entry_lo_def)
    have "entry_lo e0 < entry_hi e0" using assms(1) e0(1) by (simp add: wf_filter_def)
    then have "touches e pid (unat ns)" "touches e0 pid (unat ns)"
      using assms(6) l near(1) e0(2,3) by (simp_all add: touches_def)
    then have "e = e0" by (rule touches_unique [OF assms(1,5) e0(1)])
    then show False using l e0(3) by simp
  next
    assume h: "unat ne < entry_hi e"
    show False
    proof (cases rm_end)
      case None
      then show False using assms(3,5,6) near(2) h by (auto simp: touches_def)
    next
      case (Some k)
      then obtain e1 where e1: "e1 \<in> set f" "touches e1 pid t" "unat ne = entry_hi e1" using assms(3) by auto
      have "touches e pid (unat ne)" "touches e1 pid (unat ne)"
        using assms(6) h near(2) e1 by (auto simp: touches_def)
      then have "e = e1" by (rule touches_unique [OF assms(1,5) e1(1)])
      then show False using h e1(3) by simp
    qed
  qed
qed

text \<open>Inserting a range, with its ends: what is inside goes, the new range comes.\<close>

lemma insert_range_entries:
  assumes "wf_filter f" and "map_lib_ok L" and "sz \<noteq> 0" and "unat start + unat sz < 2 ^ 64"
  obtains ns ne kept n where
    "insert_range L pid start sz f = takeWhile (\<lambda>e. key_less (fst e) (fst n)) kept @ n # dropWhile (\<lambda>e. key_less (fst e) (fst n)) kept"
    "kept = filter (\<lambda>e. \<not> is_inside pid ns ne e) f"
    "n = ((word_of_int pid, ns), ne - ns)" "entry_lo n = unat ns" "entry_hi n = unat ne"
    "unat ns \<le> unat start" "unat start + unat sz \<le> unat ne"
    "\<And>e. e \<in> set kept \<Longrightarrow> entry_pid e = word_of_int pid \<Longrightarrow> entry_hi e < unat ns \<or> unat ne < entry_lo e"
    "\<And>a. unat ns \<le> a \<Longrightarrow> a < unat ne \<Longrightarrow> a < unat start \<or> unat start + unat sz \<le> a \<Longrightarrow> covered f (word_of_int pid) a"
proof -
  obtain rs ns where lo: "lower_end L pid start f = (rs, ns)" by fastforce
  obtain re ne where up: "upper_end L pid start sz f = (re, ne)" by fastforce
  let ?t = "unat start + unat sz"
  note lr = lower_end_right [OF assms(1,2) lo]
  note ur = upper_end_spec [OF assms(1,2) up assms(3,4)]
  have t: "unat start < ?t" using assms(3) by (simp add: unat_gt_0)
  have ns: "unat ns \<le> unat start" using touch_or_below(1) [OF lr] .
  have ne: "?t \<le> unat ne" using ur by (auto simp: touches_def split: option.splits)
  have sep: "entry_hi e < unat ns \<or> unat ne < entry_lo e"
    if "e \<in> set f" "entry_pid e = word_of_int pid" "\<not> is_inside pid ns ne e" for e
    by (rule kept_clear [OF assms(1) lr ur t that])
  have inside: "is_inside pid ns ne e \<longleftrightarrow> entry_pid e = word_of_int pid \<and> unat ns \<le> entry_lo e \<and> entry_hi e \<le> unat ne"
    if "e \<in> set f" for e
    using entry_end [OF assms(1) that] by (simp add: is_inside_def entry_pid_def entry_lo_def word_le_nat_alt)
  have rm: "remove_ranges rs re pid ns ne f = filter (\<lambda>e. \<not> is_inside pid ns ne e) f"
  proof (rule remove_ranges_filter [OF assms(1)])
    fix k e
    assume "rs = Some k" "e \<in> set f" "key_less (fst e) k"
    then show "\<not> is_inside pid ns ne e" using lr inside by (fastforce simp: lower_right_def)
  next
    fix e e'
    assume e: "e \<in> set f" "Some (fst e) = re"
    then obtain e1 where e1: "e1 \<in> set f" "fst e1 = fst e" "touches e1 pid ?t" "unat ne = entry_hi e1"
      using ur by (auto split: option.splits)
    have eq: "e1 = e" using wf_same_key [OF assms(1) e1(1) e(1) e1(2)] .
    have "entry_lo e < entry_hi e" using assms(1) e(1) by (simp add: wf_filter_def)
    then have i: "is_inside pid ns ne e" using sep [OF e(1)] e1 eq ns t by (auto simp: touches_def)
    have "\<not> is_inside pid ns ne e'" if "e' \<in> set f" "key_less (fst e) (fst e')"
    proof
      assume i': "is_inside pid ns ne e'"
      have "apart e e'" using wf_pair [OF assms(1) e(1) that] .
      moreover have "entry_lo e' < entry_hi e'" using assms(1) that(1) by (simp add: wf_filter_def)
      ultimately show False using i i' inside [OF e(1)] inside [OF that(1)] e1(4) eq by (auto simp: apart_def)
    qed
    with i show "is_inside pid ns ne e \<and> (e' \<in> set f \<longrightarrow> key_less (fst e) (fst e') \<longrightarrow> \<not> is_inside pid ns ne e')" by blast
  qed
  let ?n = "((word_of_int pid, ns), ne - ns)" and ?kept = "filter (\<lambda>e. \<not> is_inside pid ns ne e) f"
  have n: "entry_lo ?n = unat ns" "entry_hi ?n = unat ne"
    using ns ne t by (simp_all add: entry_lo_def entry_hi_def unat_sub word_le_nat_alt)
  have "(word_of_int pid, ns) \<notin> fst ` set ?kept"
  proof
    assume "(word_of_int pid, ns) \<in> fst ` set ?kept"
    then obtain e where e: "e \<in> set f" "\<not> is_inside pid ns ne e" "fst e = (word_of_int pid, ns)" by auto
    have "entry_lo e < entry_hi e" using assms(1) e(1) by (simp add: wf_filter_def)
    then show False using sep [OF e(1) _ e(2)] e(3) ns ne t by (simp add: entry_pid_def entry_lo_def)
  qed
  then have ins: "insert_range L pid start sz f =
      takeWhile (\<lambda>e. key_less (fst e) (fst ?n)) ?kept @ ?n # dropWhile (\<lambda>e. key_less (fst e) (fst ?n)) ?kept"
    by (simp add: insert_range_def lo up rm insert_new_range_def Let_def)
  have cov: "covered f (word_of_int pid) a" if "unat ns \<le> a" "a < unat ne" "a < unat start \<or> ?t \<le> a" for a
    using that(3)
  proof
    assume "a < unat start"
    then show ?thesis using touch_or_below(2) [OF lr that(1)] by (auto simp: covered_def)
  next
    assume "?t \<le> a"
    then show ?thesis using ur that(2) by (auto simp: covered_def covers_def touches_def split: option.splits)
  qed
  show thesis using that [OF ins refl refl n ns ne] sep cov by simp
qed

lemma filter_insert_set:
  "set (takeWhile P kept @ n # dropWhile P kept) = insert n (set kept)"
  by (metis Un_insert_right list.simps(15) set_append takeWhile_dropWhile_id)

lemma insert_range_wf:
  assumes "wf_filter f" and "map_lib_ok L" and "sz \<noteq> 0" and "unat start + unat sz < 2 ^ 64"
  shows "wf_filter (insert_range L pid start sz f)"
proof -
  obtain ns ne kept n where
    ins: "insert_range L pid start sz f = takeWhile (\<lambda>e. key_less (fst e) (fst n)) kept @ n # dropWhile (\<lambda>e. key_less (fst e) (fst n)) kept"
    and kept: "kept = filter (\<lambda>e. \<not> is_inside pid ns ne e) f"
    and n: "n = ((word_of_int pid, ns), ne - ns)" "entry_lo n = unat ns" "entry_hi n = unat ne"
    and ends: "unat ns \<le> unat start" "unat start + unat sz \<le> unat ne"
    and sep: "\<And>e. e \<in> set kept \<Longrightarrow> entry_pid e = word_of_int pid \<Longrightarrow> entry_hi e < unat ns \<or> unat ne < entry_lo e"
    and old: "\<And>a. unat ns \<le> a \<Longrightarrow> a < unat ne \<Longrightarrow> a < unat start \<or> unat start + unat sz \<le> a \<Longrightarrow> covered f (word_of_int pid) a"
    by (rule insert_range_entries [OF assms, of pid]) simp
  have t: "unat start < unat start + unat sz" using assms(3) by (simp add: unat_gt_0)
  have pn: "entry_pid n = word_of_int pid" by (simp add: n(1) entry_pid_def)
  have members: "set (insert_range L pid start sz f) = insert n (set kept)" by (simp only: ins filter_insert_set)
  have wfk: "sorted_wrt apart kept" "\<And>e. e \<in> set kept \<Longrightarrow> entry_lo e < entry_hi e \<and> entry_hi e < 2 ^ 64"
    using assms(1) by (simp_all add: kept wf_filter_def sorted_wrt_filter)
  have "if key_less (fst e) (fst n) then apart e n else apart n e" if "e \<in> set kept" for e
  proof (cases "entry_pid e = word_of_int pid")
    case True
    then show ?thesis using sep [OF that True] wfk(2) [OF that] ends t pn n(2,3)
      by (auto simp: key_less_iff apart_def)
  next
    case False
    then show ?thesis using pn by (auto simp: key_less_iff apart_def)
  qed
  then have "sorted_wrt apart (insert_range L pid start sz f)"
    unfolding ins by (intro sorted_insert_entry wfk(1)) (simp_all add: wfk(2))
  moreover have "entry_lo n < entry_hi n \<and> entry_hi n < 2 ^ 64" using n ends t unsigned_less [of ne] by simp
  ultimately show ?thesis using wfk(2) members by (simp add: wf_filter_def)
qed

lemma insert_range_covers:
  assumes "wf_filter f" and "map_lib_ok L" and "sz \<noteq> 0" and "unat start + unat sz < 2 ^ 64"
  shows "covered (insert_range L pid start sz f) p a \<longleftrightarrow>
    covered f p a \<or> p = word_of_int pid \<and> unat start \<le> a \<and> a < unat start + unat sz"
proof -
  obtain ns ne kept n where
    ins: "insert_range L pid start sz f = takeWhile (\<lambda>e. key_less (fst e) (fst n)) kept @ n # dropWhile (\<lambda>e. key_less (fst e) (fst n)) kept"
    and kept: "kept = filter (\<lambda>e. \<not> is_inside pid ns ne e) f"
    and n: "n = ((word_of_int pid, ns), ne - ns)" "entry_lo n = unat ns" "entry_hi n = unat ne"
    and ends: "unat ns \<le> unat start" "unat start + unat sz \<le> unat ne"
    and sep: "\<And>e. e \<in> set kept \<Longrightarrow> entry_pid e = word_of_int pid \<Longrightarrow> entry_hi e < unat ns \<or> unat ne < entry_lo e"
    and old: "\<And>a. unat ns \<le> a \<Longrightarrow> a < unat ne \<Longrightarrow> a < unat start \<or> unat start + unat sz \<le> a \<Longrightarrow> covered f (word_of_int pid) a"
    by (rule insert_range_entries [OF assms, of pid]) simp
  have t: "unat start < unat start + unat sz" using assms(3) by (simp add: unat_gt_0)
  have pn: "entry_pid n = word_of_int pid" by (simp add: n(1) entry_pid_def)
  have members: "set (insert_range L pid start sz f) = insert n (set kept)" by (simp only: ins filter_insert_set)
  show ?thesis
  proof
    assume "covered (insert_range L pid start sz f) p a"
    then consider "covers n p a" | e where "e \<in> set kept" "covers e p a" unfolding covered_def members by blast
    then show "covered f p a \<or> p = word_of_int pid \<and> unat start \<le> a \<and> a < unat start + unat sz"
    proof cases
      case 1
      then show ?thesis using old [of a] pn n(2,3)
        by (cases "a < unat start \<or> unat start + unat sz \<le> a") (auto simp: covers_def not_less)
    next
      case 2
      then show ?thesis by (auto simp: covered_def kept)
    qed
  next
    assume a: "covered f p a \<or> p = word_of_int pid \<and> unat start \<le> a \<and> a < unat start + unat sz"
    show "covered (insert_range L pid start sz f) p a"
    proof (cases "covers n p a")
      case True
      then show ?thesis unfolding covered_def members by blast
    next
      case False
      then obtain e where e: "e \<in> set f" "covers e p a"
        using a pn n(2,3) ends by (auto simp: covered_def covers_def)
      have "\<not> is_inside pid ns ne e"
        using False e(2) pn n(2,3) entry_end [OF assms(1) e(1)]
        by (auto simp: covers_def is_inside_def entry_pid_def entry_lo_def word_le_nat_alt)
      then have "e \<in> set kept" using e(1) by (simp add: kept)
      then show ?thesis unfolding covered_def members using e(2) by blast
    qed
  qed
qed

text \<open>A sequence of insertions, and the program that tests the filter, \<open>pmu-refs/tests/filter-test.cc\<close>.\<close>

definition insert_ranges :: "map_lib \<Rightarrow> (int \<times> u64 \<times> u64) list \<Rightarrow> rmap \<Rightarrow> rmap" where
  "insert_ranges L = fold (\<lambda>(pid, start, sz). insert_range L pid start sz)"

definition proper_range :: "int \<times> u64 \<times> u64 \<Rightarrow> bool" where
  "proper_range r \<longleftrightarrow> (case r of (pid, start, sz) \<Rightarrow> sz \<noteq> 0 \<and> unat start + unat sz < 2 ^ 64)"

definition in_range :: "u64 \<Rightarrow> nat \<Rightarrow> int \<times> u64 \<times> u64 \<Rightarrow> bool" where
  "in_range p a r \<longleftrightarrow> (case r of (pid, start, sz) \<Rightarrow> p = word_of_int pid \<and> unat start \<le> a \<and> a < unat start + unat sz)"

lemma insert_ranges_covers:
  assumes "wf_filter f" and "map_lib_ok L" and "\<forall>r \<in> set rs. proper_range r"
  shows "wf_filter (insert_ranges L rs f) \<and>
    (covered (insert_ranges L rs f) p a \<longleftrightarrow> covered f p a \<or> (\<exists>r \<in> set rs. in_range p a r))"
  using assms(1,3)
proof (induction rs arbitrary: f)
  case (Cons r rs)
  obtain pid start sz where r: "r = (pid, start, sz)" by (cases r)
  have ok: "sz \<noteq> 0" "unat start + unat sz < 2 ^ 64" using Cons.prems(2) by (simp_all add: r proper_range_def)
  show ?case
    using Cons.IH [OF insert_range_wf [OF Cons.prems(1) assms(2) ok, of pid]] Cons.prems(2)
      insert_range_covers [OF Cons.prems(1) assms(2) ok, of pid p a]
    by (auto simp: insert_ranges_def r in_range_def)
qed (simp add: insert_ranges_def)

definition filter_test :: "map_lib \<Rightarrow> bool \<times> bool \<times> bool" where
  "filter_test L =
     (let f = insert_ranges L [(1, 1000, 1000), (1, 2000, 1000), (1, 0, 1000), (2, 1000, 1000), (2, 3000, 1000),
                               (2, 1000, 2000), (3, 4000, 1000), (3, 3000, 1000), (1, 2000, 1999)] (filter_clear [])
      in (\<not> search_address L 1 3999 f, search_address L 1 3998 f, search_address L 3 3091 f))"

theorem filter_test_passes: "map_lib_ok L \<Longrightarrow> filter_test L = (True, True, True)"
  using insert_ranges_covers [of "[]" L "[(1, 1000, 1000), (1, 2000, 1000), (1, 0, 1000), (2, 1000, 1000), (2, 3000, 1000),
      (2, 1000, 2000), (3, 4000, 1000), (3, 3000, 1000), (1, 2000, 1999)]"]
  by (simp add: filter_test_def filter_clear_def wf_filter_def proper_range_def in_range_def search_address_iff covered_def)

section \<open>Properties\<close>

text \<open>
  C35: The address filter implements a set of addresses: after any sequence of insertions of ranges (not
  empty, ending below \<open>2^64\<close>) into a filter in canonical form, ascending ranges that neither overlap nor touch, the
  filter is in canonical form and searching an address finds it exactly if it was covered before or
  lies in one of the ranges. This holds although the code decrements \<open>begin()\<close> and
  reads through \<open>end()\<close>, provided that the decrement gives \<open>begin()\<close> or \<open>end()\<close>, whatever is read there.
\<close>

theorem insert_range_refines:
  assumes "wf_filter f" and "map_lib_ok L" and "\<forall>r \<in> set rs. proper_range r"
  shows "wf_filter (insert_ranges L rs f) \<and>
    (\<forall>q addr. search_address L q addr (insert_ranges L rs f) \<longleftrightarrow>
       covered f (word_of_int q) (unat addr) \<or> (\<exists>r \<in> set rs. in_range (word_of_int q) (unat addr) r))"
  using insert_ranges_covers [OF assms] search_address_iff [OF _ assms(2)] by simp

definition no_map_lib :: map_lib where
  "no_map_lib = \<lparr>dec_begin = \<lambda>f. None, end_entry = ((7, 9), 9)\<rparr>"

theorem insert_range_refines_witness:
  "search_address no_map_lib 1 5 (insert_ranges no_map_lib [(1, 2, 1), (1, 4, 4)] [((1, 8), 8)]) \<and>
   \<not> search_address no_map_lib 1 3 (insert_ranges no_map_lib [(1, 2, 1), (1, 4, 4)] [((1, 8), 8)])"
proof -
  have "wf_filter [((1, 8), 8)]" by (simp add: wf_filter_def entry_lo_def entry_hi_def)
  moreover have "map_lib_ok no_map_lib" by (simp add: map_lib_ok_def no_map_lib_def)
  moreover have "\<forall>r \<in> set [(1, 2, 1), (1, 4, 4)]. proper_range r" by (simp add: proper_range_def)
  ultimately have "search_address no_map_lib q addr (insert_ranges no_map_lib [(1, 2, 1), (1, 4, 4)] [((1, 8), 8)]) \<longleftrightarrow>
      covered [((1, 8), 8)] (word_of_int q) (unat addr) \<or>
      (\<exists>r \<in> set [(1, 2, 1), (1, 4, 4)]. in_range (word_of_int q) (unat addr) r)" for q addr
    using insert_range_refines [of "[((1, 8), 8)]" no_map_lib "[(1, 2, 1), (1, 4, 4)]"] by blast
  then show ?thesis by (simp add: in_range_def covered_def covers_def entry_lo_def entry_hi_def entry_pid_def)
qed

text \<open>The decrement of \<open>begin()\<close> happens: whenever no range begins at or below the address.\<close>

lemma search_below_first:
  "wf_filter f \<Longrightarrow> upto_key k f = [] \<Longrightarrow> prev_iter L f (upper_bound k f) = dec_begin L f"
  by (simp add: prev_of_upper)

end
