(* ===== verification/Hmd.thy ===== *)
theory Hmd
  imports Pmu Cmsk Address_Filter Idle_Pages
begin

text \<open>
  The sampling optimizer: \<open>pmu-refs/migration.h\<close> and \<open>pmu-refs/migration.cc\<close> (moving a batch of hot pages
  of a process), \<open>pmu-refs/hmd-config.h\<close>, \<open>pmu-refs/hmd-config.cc\<close> (the configuration) and
  \<open>pmu-refs/hmd.cc\<close> (options, the address filter, building the batches, the main loop).

  The system call \<open>move_pages\<close> is a parameter over the kernel state, \<open>getopt_long\<close> delivers the list of
  options, signals and the clock are asked of the kernel state. Printing is not modelled.
\<close>

unbundle bit_operations_syntax

section \<open>Configuration\<close>

record addr_range =
  ar_pid :: int
  ar_start :: u64
  ar_size :: u64

record hmd_config = pmu_config +
  expected_samples_margin_percent :: int
  unit_interval_ms :: int
  interval_max :: int
  cmsk_cms_width_order :: int
  cmsk_achash_size_order :: int
  cmsk_achash_threshold :: int
  cfg_aging_method :: cmsk_aging
  cfg_hash_mode :: bool
  hw_numa :: numa_hw_config
  dram_watermark_percent :: int
  move_pages_max :: int
  dram_count_multiple :: int
  show_only :: bool
  verbose :: bool
  cpu_list :: "(nat \<Rightarrow> bool) option"
  runtime :: int
  cmsk_achash_hist_max :: int
  arfilter_reset_intervals :: int
  arfilter :: "addr_range list"

definition default_config :: hmd_config where
  "default_config =
     \<lparr>pmem_pmu_events = [Some ''mem_trans_retired.load_latency_gt_16'', None],
      dram_pmu_events = [Some ''mem_trans_retired.load_latency_gt_16'', None],
      imc_dram_read = ''cas_count_read'', imc_dram_write = ''cas_count_write'',
      target_pid = - 1, sample_period_min = 1000, expected_samples = 20000, granularity_order = PAGE_SHIFT,
      imc_counting = False, expected_samples_margin_percent = 20, unit_interval_ms = 1000, interval_max = 10,
      cmsk_cms_width_order = 13, cmsk_achash_size_order = 14, cmsk_achash_threshold = 8,
      cfg_aging_method = CMSK_AGING_CLEAR, cfg_hash_mode = False,
      hw_numa = \<lparr>numa_dram_list = ''0'', numa_pmem_list = ''1'', pmem_dram_map = ''1->0''\<rparr>,
      dram_watermark_percent = 10, move_pages_max = 1024, dram_count_multiple = 10, show_only = False,
      verbose = False, cpu_list = None, runtime = 0, cmsk_achash_hist_max = 256,
      arfilter_reset_intervals = 0, arfilter = []\<rparr>"

section \<open>Moving a batch\<close>

record migration_state =
  mg_pid :: int
  mg_len :: nat
  mg_hot_pages :: "u64 list"
  mg_sample_counts :: "int list"
  mg_target_nodes :: "int list"
  mg_migrate_status :: "int list"
  nr_moved_page :: u32

text \<open>
  The system call: pid, addresses, target nodes (none to locate pages); the result with \<open>errno\<close> and
  the status of each page.
\<close>

type_synonym 'k move_call = "int \<Rightarrow> u64 list \<Rightarrow> int list option \<Rightarrow> 'k \<Rightarrow> (int \<times> int \<times> int list) \<times> 'k"

definition ESRCH :: int where "ESRCH = 3"
definition MOVE_EINVAL :: int where "MOVE_EINVAL = 22"

definition overwrite :: "'a list \<Rightarrow> 'a list \<Rightarrow> 'a list" where
  "overwrite new old = take (length old) new @ drop (length new) old"

definition sys_move_pages ::
    "'k move_call \<Rightarrow> int \<Rightarrow> nat \<Rightarrow> u64 list \<Rightarrow> int list option \<Rightarrow> int list \<Rightarrow> 'k \<Rightarrow> (int \<times> int list \<times> 'k) run" where
  "sys_move_pages sys pid n as targets st k =
     (let ((ret, errno, new), k) = sys pid (take n as) (map_option (take n) targets) k;
          st = overwrite (take n new) st
      in if ret < 0 then
           if errno \<noteq> ESRCH \<and> errno \<noteq> MOVE_EINVAL then Inl Exit_called else Inr (ret, st, k)
         else Inr (0, st, k))"

definition mg_init :: "hmd_config \<Rightarrow> migration_state \<Rightarrow> migration_state" where
  "mg_init cfg m =
     (let n = nat (move_pages_max cfg)
      in m\<lparr>mg_hot_pages := resize n 0 (mg_hot_pages m), mg_sample_counts := resize n 0 (mg_sample_counts m),
           mg_target_nodes := resize n 0 (mg_target_nodes m), mg_migrate_status := resize n 0 (mg_migrate_status m)\<rparr>)"

definition get_current_nodes :: "'k move_call \<Rightarrow> migration_state \<times> 'k \<Rightarrow> (int \<times> migration_state \<times> 'k) run" where
  "get_current_nodes sys s =
     (case s of (m, k) \<Rightarrow>
        rbind (sys_move_pages sys (mg_pid m) (mg_len m) (mg_hot_pages m) None (mg_migrate_status m) k) (\<lambda>(ret, st, k).
          Inr (ret, m\<lparr>mg_migrate_status := st\<rparr>, k)))"

text \<open>Keeping the pages on PMEM nodes, with the targets of these nodes, at the front of the buffers.\<close>

definition target_step :: "numa_collection \<Rightarrow> nat \<Rightarrow> nat \<times> migration_state \<Rightarrow> (nat \<times> migration_state) run" where
  "target_step c i s =
     (case s of (j, m) \<Rightarrow>
        let nid = mg_migrate_status m ! i
        in if \<not> is_valid_nid c nid then Inr (j, m)
           else rbind (get_node c nid) (\<lambda>p. rbind (deref c p) (\<lambda>node.
             if \<not> is_pmem node then Inr (j, m)
             else rbind (deref c (promote_target node)) (\<lambda>target.
               Inr (j + 1, m\<lparr>mg_hot_pages := (mg_hot_pages m)[j := mg_hot_pages m ! i],
                             mg_sample_counts := (mg_sample_counts m)[j := mg_sample_counts m ! i],
                             mg_target_nodes := (mg_target_nodes m)[j := nn_id target]\<rparr>)))))"

definition get_target_nodes :: "numa_collection \<Rightarrow> migration_state \<Rightarrow> migration_state run" where
  "get_target_nodes c m =
     rbind (rfold (target_step c) [0..<mg_len m] (0, m)) (\<lambda>(j, m). Inr (m\<lparr>mg_len := j\<rparr>))"

definition is_page_hot_in_target_dram_node :: "hmd_config \<Rightarrow> pmu_state \<Rightarrow> int \<Rightarrow> int \<Rightarrow> bool run" where
  "is_page_hot_in_target_dram_node cfg pmu sample_count target_node =
     rbind (pmu_get_node pmu target_node) (\<lambda>node.
       Inr (word_of_int sample_count * word_of_int (pmem_sample_period pmu)
              \<ge> dram_count_avg node * word_of_int (dram_count_multiple cfg)))"

definition filter_step ::
    "hmd_config \<Rightarrow> pmu_state \<Rightarrow> nat \<Rightarrow> nat \<times> migration_state \<Rightarrow> (nat \<times> migration_state) run" where
  "filter_step cfg pmu i s =
     (case s of (j, m) \<Rightarrow>
        let node = mg_target_nodes m ! i; count = mg_sample_counts m ! i
        in rbind (is_page_hot_in_target_dram_node cfg pmu count node) (\<lambda>hot.
             if \<not> hot then Inr (j, m)
             else
               let m = m\<lparr>mg_sample_counts := (mg_sample_counts m)[j := count]\<rparr>;
                   m = m\<lparr>mg_hot_pages := (mg_hot_pages m)[j := mg_hot_pages m ! i]\<rparr>
               in Inr (j + 1, m\<lparr>mg_target_nodes := (mg_target_nodes m)[j := mg_target_nodes m ! i]\<rparr>)))"

definition mg_filter :: "hmd_config \<Rightarrow> pmu_state \<Rightarrow> migration_state \<Rightarrow> migration_state run" where
  "mg_filter cfg pmu m =
     rbind (rfold (filter_step cfg pmu) [0..<mg_len m] (0, m)) (\<lambda>(j, m). Inr (m\<lparr>mg_len := j\<rparr>))"

text \<open>What a batch needs of the rest of the program.\<close>

record 'k move_env =
  me_sys :: "'k move_call"
  me_cfg :: hmd_config
  me_pmu :: pmu_state
  me_numa :: numa_collection
  me_lib :: map_lib

definition moved_step :: "'k move_env \<Rightarrow> migration_state \<Rightarrow> nat \<Rightarrow> nat \<times> rmap \<Rightarrow> nat \<times> rmap" where
  "moved_step E m i s =
     (case s of (moved, f) \<Rightarrow>
        if mg_migrate_status m ! i = mg_target_nodes m ! i then (moved + 1, f)
        else (moved, insert_range (me_lib E) (mg_pid m) (mg_hot_pages m ! i) PAGE_SIZE f))"

definition mg_do_move ::
    "'k move_env \<Rightarrow> migration_state \<times> rmap \<times> 'k \<Rightarrow> (nat \<times> migration_state \<times> rmap \<times> 'k) run" where
  "mg_do_move E s =
     (case s of (m, f, k) \<Rightarrow>
        if mg_pid m = 0 \<or> mg_len m = 0 then Inr (0, m, f, k)
        else rbind (get_current_nodes (me_sys E) (m, k)) (\<lambda>(ret, m, k).
          if ret < 0 then Inr (0, m, f, k)
          else rbind (get_target_nodes (me_numa E) m) (\<lambda>m. rbind (mg_filter (me_cfg E) (me_pmu E) m) (\<lambda>m.
            if mg_len m = 0 then Inr (0, m, f, k)
            else rbind (sys_move_pages (me_sys E) (mg_pid m) (mg_len m) (mg_hot_pages m) (Some (mg_target_nodes m))
                          (mg_migrate_status m) k) (\<lambda>(ret, st, k).
              let m = m\<lparr>mg_migrate_status := st\<rparr>
              in if ret < 0 then Inr (0, m, f, k)
                 else let (moved, f) = fold (moved_step E m) [0..<mg_len m] (0, f) in Inr (moved, m, f, k))))))"

text \<open>\<open>std::copy\<close> writes past the end of a buffer that is too short.\<close>

definition mg_move_pages ::
    "'k move_env \<Rightarrow> int \<Rightarrow> u64 list \<Rightarrow> int list \<Rightarrow> migration_state \<times> rmap \<times> 'k \<Rightarrow>
     (nat \<times> migration_state \<times> rmap \<times> 'k) run" where
  "mg_move_pages E pid hot counts s =
     (case s of (m, f, k) \<Rightarrow>
        if length hot > length (mg_hot_pages m) \<or> length counts > length (mg_sample_counts m) then Inl Bad_index
        else rbind (mg_do_move E
                     (m\<lparr>mg_pid := pid, mg_len := length hot, mg_hot_pages := overwrite hot (mg_hot_pages m),
                        mg_sample_counts := overwrite counts (mg_sample_counts m)\<rparr>, f, k)) (\<lambda>(moved, m, f, k).
          Inr (moved, m\<lparr>nr_moved_page := nr_moved_page m + of_nat moved\<rparr>, f, k)))"

definition mg_begin_interval :: "migration_state \<Rightarrow> migration_state" where
  "mg_begin_interval m = m\<lparr>nr_moved_page := 0\<rparr>"

section \<open>Building the batches\<close>

definition PAGE_MASK :: u64 where "PAGE_MASK = NOT (PAGE_SIZE - 1)"

definition npg_shift :: "hmd_config \<Rightarrow> nat" where
  "npg_shift cfg = (if granularity_order cfg > PAGE_SHIFT then granularity_order cfg - PAGE_SHIFT else 0)"

definition item_base :: "hmd_config \<Rightarrow> achash_item \<Rightarrow> u64" where
  "item_base cfg item = push_bit (granularity_order cfg) (it_addr item) AND PAGE_MASK"

text \<open>The pages of an item that the address filter lets pass.\<close>

definition item_pages :: "hmd_config \<Rightarrow> map_lib \<Rightarrow> rmap \<Rightarrow> achash_item \<Rightarrow> u64 list" where
  "item_pages cfg L f item =
     filter (\<lambda>addr. \<not> search_address L (uint (it_pid item)) addr f)
       (map (\<lambda>j. item_base cfg item + of_nat j * PAGE_SIZE) [0..<2 ^ npg_shift cfg])"

record 'k batching =
  bt_pid :: int
  bt_pages :: "u64 list"
  bt_counts :: "int list"
  bt_moved :: nat
  bt_state :: "migration_state \<times> rmap \<times> 'k"

definition flush_batch :: "'k move_env \<Rightarrow> 'k batching \<Rightarrow> 'k batching run" where
  "flush_batch E b =
     rbind (mg_move_pages E (bt_pid b) (bt_pages b) (bt_counts b) (bt_state b)) (\<lambda>(moved, s).
       Inr (b\<lparr>bt_pages := [], bt_counts := [], bt_moved := bt_moved b + moved, bt_state := s\<rparr>))"

definition batch_step :: "'k move_env \<Rightarrow> achash_item \<Rightarrow> 'k batching \<Rightarrow> 'k batching run" where
  "batch_step E item b =
     rbind (if uint (it_pid item) \<noteq> bt_pid b
            then rbind (if bt_pid b \<noteq> 0 then flush_batch E b else Inr b) (\<lambda>b. Inr (b\<lparr>bt_pid := uint (it_pid item)\<rparr>))
            else Inr b) (\<lambda>b.
       let pages = item_pages (me_cfg E) (me_lib E) (fst (snd (bt_state b))) item
       in Inr (b\<lparr>bt_counts := bt_counts b @ map (\<lambda>_. uint (it_count item)) pages, bt_pages := bt_pages b @ pages\<rparr>))"

definition hmd_migrate_pages ::
    "'k move_env \<Rightarrow> cmsk \<Rightarrow> migration_state \<times> rmap \<times> 'k \<Rightarrow> (nat \<times> migration_state \<times> rmap \<times> 'k) run" where
  "hmd_migrate_pages E cm s =
     (let n = word_of_int (drop_bit (npg_shift (me_cfg E)) (move_pages_max (me_cfg E))); items = cmsk_hot_pages cm n
      in if items = [] then Inr (0, s)
         else rbind (rfold (batch_step E) items
                       \<lparr>bt_pid = 0, bt_pages = [], bt_counts = [], bt_moved = 0, bt_state = s\<rparr>) (\<lambda>b.
              rbind (flush_batch E b) (\<lambda>b. Inr (bt_moved b, bt_state b))))"

section \<open>Options\<close>

text \<open>\<open>strtol\<close> to base 10: value, rest and whether the value was out of range.\<close>

definition LONG_MAX :: int where "LONG_MAX = 2 ^ 63 - 1"
definition LONG_MIN :: int where "LONG_MIN = - (2 ^ 63)"
definition ERANGE :: int where "ERANGE = 34"

definition is_space :: "char \<Rightarrow> bool" where
  "is_space c \<longleftrightarrow> c = CHR '' '' \<or> (9 \<le> (of_char c :: nat) \<and> (of_char c :: nat) \<le> 13)"

definition is_digit :: "char \<Rightarrow> bool" where
  "is_digit c \<longleftrightarrow> 48 \<le> (of_char c :: nat) \<and> (of_char c :: nat) \<le> 57"

definition digits_value :: "string \<Rightarrow> int" where
  "digits_value ds = fold (\<lambda>d v. 10 * v + (int (of_char d) - 48)) ds 0"

definition strtol :: "string \<Rightarrow> int \<times> string \<times> bool" where
  "strtol str =
     (let t = dropWhile is_space str;
          neg = (t \<noteq> [] \<and> hd t = CHR ''-'');
          u = (if t \<noteq> [] \<and> (hd t = CHR ''-'' \<or> hd t = CHR ''+'') then tl t else t);
          ds = takeWhile is_digit u; rest = dropWhile is_digit u;
          v = (if neg then - digits_value ds else digits_value ds)
      in if ds = [] then (0, str, False)
         else if v > LONG_MAX then (LONG_MAX, rest, True)
         else if v < LONG_MIN then (LONG_MIN, rest, True)
         else (v, rest, False))"

text \<open>\<open>errno\<close> is what earlier calls left there, unless this call sets it.\<close>

definition parse_long_option :: "int \<Rightarrow> string \<Rightarrow> int run" where
  "parse_long_option errno str =
     (let (val, rest, overflow) = strtol str; errno = (if overflow then ERANGE else errno)
      in if errno = ERANGE \<and> (val = LONG_MAX \<or> val = LONG_MIN) \<or> (errno \<noteq> 0 \<and> val = 0) then Inl Exit_called
         else if rest = str then Inl Exit_called
         else if rest \<noteq> [] then Inl Exit_called
         else Inr val)"

definition long_to_int :: "int \<Rightarrow> int" where
  "long_to_int v = sint (word_of_int v :: 32 word)"

definition aging_method_names :: "string list" where
  "aging_method_names = [''clear'', ''half'']"

fun parse_name_option :: "string \<Rightarrow> string list \<Rightarrow> nat \<Rightarrow> nat run" where
  "parse_name_option name [] i = Inl Exit_called"
| "parse_name_option name (n # ns) i = (if n = name then Inr i else parse_name_option name ns (i + 1))"

text \<open>The text is \<open>PID/START:SIZE\<close>.\<close>

definition parse_filter_addr_range :: "string \<Rightarrow> addr_range run" where
  "parse_filter_addr_range str =
     (let p = dropWhile (\<lambda>c. c \<noteq> CHR ''/'') str; (pid, rest, _) = strtol str
      in if p = [] \<or> rest = [] \<or> hd rest \<noteq> CHR ''/'' then Inl Exit_called
         else
           let p = tl p
           in if p = [] then Inl Exit_called
              else
                let p2 = dropWhile (\<lambda>c. c \<noteq> CHR '':'') p; (start, rest, _) = strtol p
                in if p2 = [] \<or> p2 = p \<or> rest = [] \<or> hd rest \<noteq> CHR '':'' then Inl Exit_called
                   else
                     let p = tl p2
                     in if p = [] then Inl Exit_called
                        else
                          let (sz, rest, _) = strtol p
                          in if rest \<noteq> [] then Inl Exit_called
                             else if word_of_int start \<noteq> (- 1 :: u64) \<and> word_of_int sz \<noteq> (0 :: u64)
                             then Inr \<lparr>ar_pid = long_to_int pid, ar_start = word_of_int start, ar_size = word_of_int sz\<rparr>
                             else Inl Exit_called)"

datatype hmd_option =
  Opt_pmem_local | Opt_pmem_remote | OPT_DRAM_LOCAL_EVENT | OPT_DRAM_REMOTE_EVENT | OPT_IMC_DRAM_READ_EVENT
| OPT_IMC_DRAM_WRITE_EVENT | OPT_SAMPLE_PERIOD_MIN | Opt_cpu_list | Opt_pid | Opt_granularity | OPT_UNIT_INTERVAL
| OPT_INTERVAL_MAX | OPT_EXPECTED_SAMPLES | OPT_EXPECTED_SAMPLES_MARGIN_PERCENT | Opt_cms_width | OPT_HASH_SIZE_ORDER
| Opt_hash_threshold | Opt_aging | OPT_HASH_MODE | Opt_move_pages_max | OPT_DRAM_COUNT_MULTIPLE | OPT_DRAM_LIST
| OPT_PMEM_LIST | OPT_PMEM_DRAM_MAP | OPT_FILTER_ADDR_RANGE | OPT_FILTER_RESET_INTERVALS | OPT_IMC_COUNTING
| OPT_SHOW_ONLY | Opt_verbose | OPT_RUNTIME | OPT_HIST_MAX | Opt_help

definition set_long :: "int \<Rightarrow> string \<Rightarrow> (int \<Rightarrow> hmd_config \<Rightarrow> hmd_config) \<Rightarrow> hmd_config \<times> rmap \<Rightarrow> (hmd_config \<times> rmap) run" where
  "set_long errno arg upd s = rbind (parse_long_option errno arg) (\<lambda>v. Inr (upd (long_to_int v) (fst s), snd s))"

definition parse_one_option ::
    "(string \<Rightarrow> (nat \<Rightarrow> bool) option) \<Rightarrow> map_lib \<Rightarrow> int \<Rightarrow> hmd_option \<times> string \<Rightarrow> hmd_config \<times> rmap \<Rightarrow>
     (hmd_config \<times> rmap) run" where
  "parse_one_option parse_cpus L errno o' s =
     (case o' of (opt, arg) \<Rightarrow>
        case opt of
          Opt_pmem_local \<Rightarrow> Inr ((fst s)\<lparr>pmem_pmu_events := (pmem_pmu_events (fst s))[PET_LOCAL := Some arg]\<rparr>, snd s)
        | Opt_pmem_remote \<Rightarrow> Inr ((fst s)\<lparr>pmem_pmu_events := (pmem_pmu_events (fst s))[PET_REMOTE := Some arg]\<rparr>, snd s)
        | OPT_DRAM_LOCAL_EVENT \<Rightarrow> Inr ((fst s)\<lparr>dram_pmu_events := (dram_pmu_events (fst s))[PET_LOCAL := Some arg]\<rparr>, snd s)
        | OPT_DRAM_REMOTE_EVENT \<Rightarrow> Inr ((fst s)\<lparr>dram_pmu_events := (dram_pmu_events (fst s))[PET_REMOTE := Some arg]\<rparr>, snd s)
        | OPT_IMC_DRAM_READ_EVENT \<Rightarrow> Inr ((fst s)\<lparr>imc_dram_read := arg\<rparr>, snd s)
        | OPT_IMC_DRAM_WRITE_EVENT \<Rightarrow> Inr ((fst s)\<lparr>imc_dram_write := arg\<rparr>, snd s)
        | OPT_SAMPLE_PERIOD_MIN \<Rightarrow> set_long errno arg (\<lambda>v c. c\<lparr>sample_period_min := v\<rparr>) s
        | Opt_cpu_list \<Rightarrow> (case parse_cpus arg of None \<Rightarrow> Inl Exit_called | Some m \<Rightarrow> Inr ((fst s)\<lparr>cpu_list := Some m\<rparr>, snd s))
        | Opt_pid \<Rightarrow> set_long errno arg (\<lambda>v c. c\<lparr>target_pid := v\<rparr>) s
        | Opt_granularity \<Rightarrow> set_long errno arg (\<lambda>v c. c\<lparr>granularity_order := nat v\<rparr>) s
        | OPT_UNIT_INTERVAL \<Rightarrow> set_long errno arg (\<lambda>v c. c\<lparr>unit_interval_ms := v\<rparr>) s
        | OPT_INTERVAL_MAX \<Rightarrow> set_long errno arg (\<lambda>v c. c\<lparr>interval_max := v\<rparr>) s
        | OPT_EXPECTED_SAMPLES \<Rightarrow> set_long errno arg (\<lambda>v c. c\<lparr>expected_samples := v\<rparr>) s
        | OPT_EXPECTED_SAMPLES_MARGIN_PERCENT \<Rightarrow> set_long errno arg (\<lambda>v c. c\<lparr>expected_samples_margin_percent := v\<rparr>) s
        | Opt_cms_width \<Rightarrow> set_long errno arg (\<lambda>v c. c\<lparr>cmsk_cms_width_order := v\<rparr>) s
        | OPT_HASH_SIZE_ORDER \<Rightarrow> set_long errno arg (\<lambda>v c. c\<lparr>cmsk_achash_size_order := v\<rparr>) s
        | Opt_hash_threshold \<Rightarrow> set_long errno arg (\<lambda>v c. c\<lparr>cmsk_achash_threshold := v\<rparr>) s
        | Opt_aging \<Rightarrow> rbind (parse_name_option arg aging_method_names 0) (\<lambda>i.
            Inr ((fst s)\<lparr>cfg_aging_method := (if i = 0 then CMSK_AGING_CLEAR else CMSK_AGING_HALF)\<rparr>, snd s))
        | OPT_HASH_MODE \<Rightarrow> Inr ((fst s)\<lparr>cfg_hash_mode := True\<rparr>, snd s)
        | Opt_move_pages_max \<Rightarrow> set_long errno arg (\<lambda>v c. c\<lparr>move_pages_max := v\<rparr>) s
        | OPT_DRAM_COUNT_MULTIPLE \<Rightarrow> set_long errno arg (\<lambda>v c. c\<lparr>dram_count_multiple := v\<rparr>) s
        | OPT_DRAM_LIST \<Rightarrow> Inr ((fst s)\<lparr>hw_numa := (hw_numa (fst s))\<lparr>numa_dram_list := arg\<rparr>\<rparr>, snd s)
        | OPT_PMEM_LIST \<Rightarrow> Inr ((fst s)\<lparr>hw_numa := (hw_numa (fst s))\<lparr>numa_pmem_list := arg\<rparr>\<rparr>, snd s)
        | OPT_PMEM_DRAM_MAP \<Rightarrow> Inr ((fst s)\<lparr>hw_numa := (hw_numa (fst s))\<lparr>pmem_dram_map := arg\<rparr>\<rparr>, snd s)
        | OPT_FILTER_ADDR_RANGE \<Rightarrow> rbind (parse_filter_addr_range arg) (\<lambda>a.
            Inr ((fst s)\<lparr>arfilter := arfilter (fst s) @ [a]\<rparr>, insert_range L (ar_pid a) (ar_start a) (ar_size a) (snd s)))
        | OPT_FILTER_RESET_INTERVALS \<Rightarrow> set_long errno arg (\<lambda>v c. c\<lparr>arfilter_reset_intervals := v\<rparr>) s
        | OPT_IMC_COUNTING \<Rightarrow> Inr ((fst s)\<lparr>imc_counting := True\<rparr>, snd s)
        | OPT_SHOW_ONLY \<Rightarrow> Inr ((fst s)\<lparr>show_only := True\<rparr>, snd s)
        | Opt_verbose \<Rightarrow> Inr ((fst s)\<lparr>verbose := True\<rparr>, snd s)
        | OPT_RUNTIME \<Rightarrow> set_long errno arg (\<lambda>v c. c\<lparr>runtime := v\<rparr>) s
        | OPT_HIST_MAX \<Rightarrow> set_long errno arg (\<lambda>v c. c\<lparr>cmsk_achash_hist_max := v\<rparr>) s
        | Opt_help \<Rightarrow> Inl Exit_called)"

text \<open>\<open>extra\<close>: arguments are left over after the options.\<close>

definition parse_options ::
    "(string \<Rightarrow> (nat \<Rightarrow> bool) option) \<Rightarrow> map_lib \<Rightarrow> int \<Rightarrow> (hmd_option \<times> string) list \<Rightarrow> bool \<Rightarrow>
     hmd_config \<times> rmap \<Rightarrow> (hmd_config \<times> rmap) run" where
  "parse_options parse_cpus L errno opts extra s =
     rbind (rfold (parse_one_option parse_cpus L errno) opts s) (\<lambda>s.
       if extra then Inl Exit_called
       else if \<not> show_only (fst s) \<and>
            push_bit (granularity_order (fst s)) 1 > push_bit PAGE_SHIFT (move_pages_max (fst s))
       then Inl Exit_called else Inr s)"

definition reset_arfilter :: "map_lib \<Rightarrow> hmd_config \<Rightarrow> rmap \<Rightarrow> rmap" where
  "reset_arfilter L cfg f = fold (\<lambda>a. insert_range L (ar_pid a) (ar_start a) (ar_size a)) (arfilter cfg) (filter_clear f)"

section \<open>The main loop\<close>

record 'k hmd_env =
  he_perf :: "'k perf_ops"
  he_sys :: "'k move_call"
  he_lib :: map_lib
  he_sort :: "achash_item list \<Rightarrow> achash_item list"
  he_node_size :: "'k \<Rightarrow> int \<Rightarrow> int \<times> int"
  he_interrupted :: "'k \<Rightarrow> bool"

record 'k hmd_state =
  h_cfg :: hmd_config
  h_numa :: numa_collection
  h_pmu :: pmu_state
  h_mig :: migration_state
  h_cmsk :: cmsk
  h_filter :: rmap
  h_resets :: int
  h_kernel :: 'k

definition pmu_part :: "hmd_config \<Rightarrow> pmu_config" where
  "pmu_part cfg = pmu_config.truncate cfg"

definition on_pmu_pmem_sample :: "hmd_config \<Rightarrow> cmsk processor" where
  "on_pmu_pmem_sample cfg val pid tid cpu cm =
     cmsk_update cm (drop_bit (granularity_order cfg) val) (word_of_int pid)"

text \<open>Steps on the PMU state and the kernel.\<close>

definition on_pmu :: "(pmu_state \<times> 'k \<Rightarrow> (pmu_state \<times> 'k) run) \<Rightarrow> 'k hmd_state \<Rightarrow> 'k hmd_state run" where
  "on_pmu f s = rbind (f (h_pmu s, h_kernel s)) (\<lambda>(p, k). Inr (s\<lparr>h_pmu := p, h_kernel := k\<rparr>))"

definition interval_unit :: "'k hmd_env \<Rightarrow> 'k hmd_state \<Rightarrow> (bool \<times> 'k hmd_state) trun" where
  "interval_unit E s =
     (case on_pmu (enable_pmem_events (he_perf E)) (s\<lparr>h_pmu := begin_interval_unit (h_pmu s)\<rparr>) of
        Inl e \<Rightarrow> Some (Inl e)
      | Inr s \<Rightarrow>
          tbind (read_pmem_samples (he_perf E) (on_pmu_pmem_sample (h_cfg s)) (unit_interval_ms (h_cfg s))
                   (h_pmu s, h_cmsk s, h_kernel s)) (\<lambda>(full, p, cm, k).
            Some (rbind (adjust_sample_period_prepare (pmu_part (h_cfg s)) p) (\<lambda>(adjusted, p).
              Inr (full \<or> adjusted, s\<lparr>h_pmu := p, h_cmsk := cm, h_kernel := k\<rparr>)))))"

fun interval_units :: "'k hmd_env \<Rightarrow> nat \<Rightarrow> 'k hmd_state \<Rightarrow> 'k hmd_state trun" where
  "interval_units E 0 s = Some (Inr s)"
| "interval_units E (Suc n) s =
     (if pmem_samples_enough (pmu_part (h_cfg s)) (h_pmu s) \<or> he_interrupted E (h_kernel s) then Some (Inr s)
      else tbind (interval_unit E s) (\<lambda>(stop, s). if stop then Some (Inr s) else interval_units E n s))"

definition begin_hmd_interval :: "'k hmd_env \<Rightarrow> 'k hmd_state \<Rightarrow> 'k hmd_state run" where
  "begin_hmd_interval E s =
     rbind (begin_interval (h_pmu s)) (\<lambda>p.
     rbind (on_pmu (adjust_sample_period_commit (he_perf E))
              (s\<lparr>h_cmsk := cmsk_age (h_cmsk s), h_pmu := p, h_mig := mg_begin_interval (h_mig s)\<rparr>))
       (on_pmu (enable_dram_events (he_perf E))))"

definition measure_counts :: "'k hmd_env \<Rightarrow> 'k hmd_state \<Rightarrow> 'k hmd_state run" where
  "measure_counts E s =
     rbind (on_pmu (read_imc_count (he_perf E) (pmu_part (h_cfg s))) s) (\<lambda>s.
     rbind (on_pmu (disable_dram_events (he_perf E)) s) (\<lambda>s.
     rbind (on_pmu (read_dram_count (he_perf E) (h_numa s)) s) (\<lambda>s.
     rbind (collect_dram_nodes_meminfo (he_node_size E (h_kernel s)) (h_numa s)) (\<lambda>c.
     rbind (check_dram_nodes_watermark (dram_watermark_percent (h_cfg s)) c) (\<lambda>c.
     rbind (calc_dram_count_avg (pmu_part (h_cfg s)) c (h_pmu s)) (\<lambda>p.
       Inr (s\<lparr>h_numa := c, h_pmu := p\<rparr>)))))))"

text \<open>Resetting the filter when its time has come, and migrating.\<close>

definition migrate_interval :: "'k hmd_env \<Rightarrow> 'k hmd_state \<Rightarrow> 'k hmd_state run" where
  "migrate_interval E s =
     (if show_only (h_cfg s) then Inr s
      else
        let s = (if arfilter_reset_intervals (h_cfg s) = 0 then s
                 else let n = h_resets s - 1
                      in if n = 0 then s\<lparr>h_resets := arfilter_reset_intervals (h_cfg s),
                                        h_filter := reset_arfilter (he_lib E) (h_cfg s) (h_filter s)\<rparr>
                         else s\<lparr>h_resets := n\<rparr>);
            M = \<lparr>me_sys = he_sys E, me_cfg = h_cfg s, me_pmu = h_pmu s, me_numa = h_numa s, me_lib = he_lib E\<rparr>
        in rbind (hmd_migrate_pages M (h_cmsk s) (h_mig s, h_filter s, h_kernel s)) (\<lambda>(_, m, f, k).
             Inr (s\<lparr>h_mig := m, h_filter := f, h_kernel := k\<rparr>)))"

definition hmd_interval :: "'k hmd_env \<Rightarrow> 'k hmd_state \<Rightarrow> 'k hmd_state trun" where
  "hmd_interval E s =
     (case begin_hmd_interval E s of
        Inl e \<Rightarrow> Some (Inl e)
      | Inr s \<Rightarrow>
          tbind (interval_units E (nat (interval_max (h_cfg s))) s) (\<lambda>s.
            case measure_counts E s of
              Inl e \<Rightarrow> Some (Inl e)
            | Inr s \<Rightarrow> tbind (cmsk_sort (he_sort E) (h_cmsk s)) (\<lambda>cm.
                Some (migrate_interval E (s\<lparr>h_cmsk := cm\<rparr>)))))"

partial_function (option) hmd_loop :: "'k hmd_env \<Rightarrow> u64 \<Rightarrow> 'k hmd_state \<Rightarrow> 'k hmd_state trun" where
  "hmd_loop E end_ns s =
     (if he_interrupted E (h_kernel s) then Some (Inr s)
      else case hmd_interval E s of
             None \<Rightarrow> None
           | Some r \<Rightarrow>
               (case r of
                  Inl e \<Rightarrow> Some (Inl e)
                | Inr s \<Rightarrow>
                    if runtime (h_cfg s) \<noteq> 0
                    then let (ts, k) = rdclock (he_perf E) (h_kernel s); s = s\<lparr>h_kernel := k\<rparr>
                         in if ts > end_ns then Some (Inr s) else hmd_loop E end_ns s
                    else hmd_loop E end_ns s))"

definition configure_cmsk :: "hmd_config \<Rightarrow> cmsk \<Rightarrow> cmsk" where
  "configure_cmsk cfg cm =
     cm\<lparr>sketch := (sketch cm)\<lparr>width_order := nat (cmsk_cms_width_order cfg), depth := 4\<rparr>,
        table := (table cm)\<lparr>hash_mode := cfg_hash_mode cfg, threshold := word_of_int (cmsk_achash_threshold cfg),
                            size_order := nat (cmsk_achash_size_order cfg), hist_max := cmsk_achash_hist_max cfg\<rparr>\<rparr>"

definition close_hmd :: "'k hmd_env \<Rightarrow> 'k hmd_state \<Rightarrow> 'k hmd_state run" where
  "close_hmd E s =
     rbind (on_pmu (close_imc_events (he_perf E) (pmu_part (h_cfg s))) s) (\<lambda>s.
     rbind (on_pmu (close_pmem_events (he_perf E)) s) (on_pmu (close_dram_events (he_perf E))))"

text \<open>
  After the options: the topology is collected, the PMU opened, the counters and buffers set up, then
  the loop runs. \<open>num_cpus\<close> and \<open>all_cpus\<close> are those of \<open>libnuma\<close>.
\<close>

definition hmd_open :: "'k hmd_env \<Rightarrow> nat \<Rightarrow> (nat \<Rightarrow> bool) \<Rightarrow> numa_collection \<Rightarrow> 'k hmd_state \<Rightarrow> 'k hmd_state trun" where
  "hmd_open E num_cpus all_cpus c s =
     (case pmu_init num_cpus (case cpu_list (h_cfg s) of None \<Rightarrow> all_cpus | Some m \<Rightarrow> m) c (h_pmu s) of
        Inl e \<Rightarrow> Some (Inl e)
      | Inr p \<Rightarrow>
          tbind (open_imc_events (he_perf E) (pmu_part (h_cfg s)) c (p, h_kernel s)) (\<lambda>(p, k).
            Some (
              rbind (open_pmem_events (he_perf E) (pmu_part (h_cfg s)) (p, k)) (\<lambda>(p, k).
              rbind (open_dram_events (he_perf E) (pmu_part (h_cfg s)) (p, k)) (\<lambda>(p, k).
              rbind (cmsk_init (configure_cmsk (h_cfg s) (h_cmsk s))) (\<lambda>(_, cm).
                Inr (s\<lparr>h_numa := c, h_pmu := p, h_cmsk := cm, h_mig := mg_init (h_cfg s) (h_mig s), h_kernel := k\<rparr>)))))))"

definition hmd_main ::
    "'k hmd_env \<Rightarrow> (string \<Rightarrow> (nat \<Rightarrow> bool) option) \<Rightarrow> libnuma \<Rightarrow> (string \<Rightarrow> (int \<times> int) option) \<Rightarrow>
     (int \<Rightarrow> string \<Rightarrow> sysfs_field) \<Rightarrow> nat \<Rightarrow> (nat \<Rightarrow> bool) \<Rightarrow> int \<Rightarrow> (hmd_option \<times> string) list \<Rightarrow> bool \<Rightarrow>
     'k hmd_state \<Rightarrow> 'k hmd_state trun" where
  "hmd_main E parse_cpus lib scan sysfs num_cpus all_cpus errno opts extra s =
     (case rbind (parse_options parse_cpus (he_lib E) errno opts extra (h_cfg s, filter_clear (h_filter s))) (\<lambda>(cfg, f).
             rbind (collect lib scan sysfs (Some (hw_numa cfg)) None (h_numa s)) (\<lambda>c. Inr (cfg, f, c))) of
        Inl e \<Rightarrow> Some (Inl e)
      | Inr (cfg, f, c) \<Rightarrow>
          tbind (hmd_open E num_cpus all_cpus c
                   (s\<lparr>h_cfg := cfg, h_filter := f, h_resets := arfilter_reset_intervals cfg\<rparr>)) (\<lambda>s.
            let (end_ns, k) = (if runtime cfg \<noteq> 0
                               then let (ts, k) = rdclock (he_perf E) (h_kernel s) in (ts + word_of_int (runtime cfg) * NS_PER_SEC, k)
                               else (0, h_kernel s))
            in tbind (hmd_loop E end_ns (s\<lparr>h_kernel := k\<rparr>)) (\<lambda>s. Some (close_hmd E s))))"

end
