(* ===== verification/Pmu_Correct.thy ===== *)
theory Pmu_Correct
  imports Pmu Numa_Topology
begin

text \<open>
  Correctness of the PMU driver: which samples reach the processor, how the sample period follows
  the number of samples, and how the counts of a CPU are spread over the nodes.
\<close>

section \<open>Samples\<close>

definition is_user_sample :: "perf_record option \<Rightarrow> bool" where
  "is_user_sample r \<longleftrightarrow>
     (case r of None \<Rightarrow> False
      | Some h \<Rightarrow> rec_type h = PERF_RECORD_SAMPLE \<and> rec_size h = 24 \<and> 0 < sint (payload h 1) \<and>
                  payload h 0 AND 0xffffffff \<noteq> 0)"

definition sample_of :: "perf_record option \<Rightarrow> u64 \<times> int \<times> int" where
  "sample_of r = (case r of None \<Rightarrow> (0, 0, 0)
     | Some h \<Rightarrow> (payload h 1, to_int (payload h 0 AND 0xffffffff), to_int (drop_bit 32 (payload h 0))))"

definition user_samples :: "perf_record option list \<Rightarrow> (u64 \<times> int \<times> int) list" where
  "user_samples rs = map sample_of (filter is_user_sample rs)"

definition is_type :: "perf_type \<Rightarrow> perf_record option \<Rightarrow> bool" where
  "is_type t r \<longleftrightarrow> (case r of None \<Rightarrow> False | Some h \<Rightarrow> rec_type h = t)"

text \<open>The processor fed with samples until it is full: full, samples taken, state.\<close>

fun feed :: "(u64 \<Rightarrow> int \<Rightarrow> int \<Rightarrow> 'p \<Rightarrow> bool \<times> 'p) \<Rightarrow> (u64 \<times> int \<times> int) list \<Rightarrow> 'p \<Rightarrow> bool \<times> nat \<times> 'p" where
  "feed f [] p = (False, 0, p)"
| "feed f ((v, pid, tid) # ds) p =
     (let (full, q) = f v pid tid p
      in if full then (True, 1, q) else (let (full, n, q) = feed f ds q in (full, n + 1, q)))"

lemma user_samples_Cons:
  "user_samples (r # rs) = (if is_user_sample r then [sample_of r] else []) @ user_samples rs"
  by (simp add: user_samples_def)

definition counts_after :: "perf_record option list \<Rightarrow> 'p sampling \<Rightarrow> 'p sampling \<Rightarrow> bool" where
  "counts_after rs s t \<longleftrightarrow>
     st_samples (sm_stats t) = st_samples (sm_stats s) + int (length (filter (is_type PERF_RECORD_SAMPLE) rs)) \<and>
     st_throttled (sm_stats t) = st_throttled (sm_stats s) + int (length (filter (is_type PERF_RECORD_THROTTLE) rs)) \<and>
     st_others (sm_stats t) = st_others (sm_stats s) + int (length (filter (is_type PERF_RECORD_OTHER) rs)) \<and>
     st_skipped (sm_stats t) = st_skipped (sm_stats s) + int (length (filter (\<lambda>r. r = None) rs)) \<and>
     sm_nr_sample t = sm_nr_sample s + of_nat (length (filter (is_type PERF_RECORD_SAMPLE) rs))"

definition loop_result ::
    "(u64 \<Rightarrow> int \<Rightarrow> int \<Rightarrow> 'p \<Rightarrow> bool \<times> 'p) \<Rightarrow> perf_record option list \<Rightarrow> nat \<Rightarrow> 'p sampling \<Rightarrow>
     bool \<times> nat \<times> 'p sampling \<Rightarrow> bool" where
  "loop_result f rs n s r \<longleftrightarrow>
     (case r of (full, m, t) \<Rightarrow>
        \<exists>k \<le> length rs. m = n + k \<and> (full \<or> k = length rs) \<and>
          feed f (user_samples (take k rs)) (sm_proc s) = (full, length (user_samples (take k rs)), sm_proc t) \<and>
          counts_after (take k rs) s t)"

text \<open>A record that reaches no processor, and one that does.\<close>

lemma loop_result_skip:
  assumes "\<not> is_user_sample r" and "loop_result f rs (n + 1) s' res"
    and "sm_proc s' = sm_proc s" and "\<And>rs t. counts_after rs s' t \<Longrightarrow> counts_after (r # rs) s t"
  shows "loop_result f (r # rs) n s res"
proof -
  obtain full m t where res: "res = (full, m, t)" by (cases res)
  then obtain k where k: "k \<le> length rs" "m = n + 1 + k" "full \<or> k = length rs"
      "feed f (user_samples (take k rs)) (sm_proc s) = (full, length (user_samples (take k rs)), sm_proc t)"
      "counts_after (take k rs) s' t"
    using assms(2,3) by (auto simp: loop_result_def)
  have "user_samples (take (Suc k) (r # rs)) = user_samples (take k rs)"
    using assms(1) by (simp add: user_samples_Cons)
  then show ?thesis using k assms(4) [OF k(5)] unfolding res loop_result_def
    by (auto intro!: exI [of _ "Suc k"])
qed

lemma loop_result_more:
  assumes "is_user_sample r" and "sample_of r = (v, pid, tid)" and "f v pid tid (sm_proc s) = (False, q)"
    and "loop_result f rs (n + 1) (s'\<lparr>sm_proc := q\<rparr>) res"
    and "\<And>rs t. counts_after rs (s'\<lparr>sm_proc := q\<rparr>) t \<Longrightarrow> counts_after (r # rs) s t"
  shows "loop_result f (r # rs) n s res"
proof -
  obtain full m t where res: "res = (full, m, t)" by (cases res)
  then obtain k where k: "k \<le> length rs" "m = n + 1 + k" "full \<or> k = length rs"
      "feed f (user_samples (take k rs)) q = (full, length (user_samples (take k rs)), sm_proc t)"
      "counts_after (take k rs) (s'\<lparr>sm_proc := q\<rparr>) t"
    using assms(4) by (auto simp: loop_result_def)
  have "user_samples (take (Suc k) (r # rs)) = (v, pid, tid) # user_samples (take k rs)"
    using assms(1,2) by (simp add: user_samples_Cons)
  then show ?thesis using k assms(3) assms(5) [OF k(5)] unfolding res loop_result_def
    by (auto intro!: exI [of _ "Suc k"])
qed

lemma loop_result_full:
  assumes "is_user_sample r" and "sample_of r = (v, pid, tid)" and "f v pid tid (sm_proc s) = (True, q)"
    and "counts_after [r] s (s'\<lparr>sm_proc := q\<rparr>)"
  shows "loop_result f (r # rs) n s (True, n + 1, s'\<lparr>sm_proc := q\<rparr>)"
proof -
  have "user_samples (take 1 (r # rs)) = [(v, pid, tid)]" using assms(1,2) by (simp add: user_samples_def)
  then show ?thesis using assms(3,4) unfolding loop_result_def by (auto intro!: exI [of _ "1 :: nat"])
qed

lemmas counts_defs = counts_after_def is_type_def

lemma sample_loop_result:
  assumes "\<And>v pid tid p. proc v pid tid cpu p = Some (Inr (f v pid tid p))"
  shows "\<exists>res. sample_loop proc cpu rs n s = Some (Inr res) \<and> loop_result f rs n s res"
proof (induction rs arbitrary: n s)
  case Nil
  then show ?case by (auto simp: loop_result_def counts_after_def user_samples_def)
next
  case (Cons r rs)
  show ?case
  proof (cases r)
    case None
    let ?s = "s\<lparr>sm_stats := (sm_stats s)\<lparr>st_skipped := st_skipped (sm_stats s) + 1\<rparr>\<rparr>"
    obtain res where res: "sample_loop proc cpu rs (n + 1) ?s = Some (Inr res)" "loop_result f rs (n + 1) ?s res"
      using Cons.IH by blast
    have "loop_result f (r # rs) n s res"
      by (rule loop_result_skip [OF _ res(2)]) (auto simp: None is_user_sample_def counts_defs)
    then show ?thesis using res(1) None by auto
  next
    case (Some h)
    show ?thesis
    proof (cases "rec_type h = PERF_RECORD_SAMPLE")
      case False
      then obtain s' where s': "sample_loop proc cpu (r # rs) n s = sample_loop proc cpu rs (n + 1) s'"
          "sm_proc s' = sm_proc s" "\<And>rs t. counts_after rs s' t \<Longrightarrow> counts_after (r # rs) s t"
        using Some by (cases "rec_type h") (force simp: counts_defs Let_def)+
      obtain res where res: "sample_loop proc cpu rs (n + 1) s' = Some (Inr res)" "loop_result f rs (n + 1) s' res"
        using Cons.IH by blast
      have "loop_result f (r # rs) n s res"
        by (rule loop_result_skip [OF _ res(2) s'(2,3)]) (simp add: is_user_sample_def Some False)
      then show ?thesis using res(1) s'(1) by auto
    next
      case True
      let ?s = "s\<lparr>sm_stats := (sm_stats s)\<lparr>st_samples := st_samples (sm_stats s) + 1\<rparr>, sm_nr_sample := sm_nr_sample s + 1\<rparr>"
      have counts: "counts_after rs (?s\<lparr>sm_proc := q\<rparr>) t \<Longrightarrow> counts_after (r # rs) s t" for rs t q
        by (auto simp: counts_defs Some True)
      show ?thesis
      proof (cases "is_user_sample r")
        case False
        then have step: "sample_loop proc cpu (r # rs) n s = sample_loop proc cpu rs (n + 1) ?s"
          using Some True by (auto simp: is_user_sample_def Let_def not_less)
        obtain res where res: "sample_loop proc cpu rs (n + 1) ?s = Some (Inr res)" "loop_result f rs (n + 1) ?s res"
          using Cons.IH by blast
        have "loop_result f (r # rs) n s res"
          by (rule loop_result_skip [OF False res(2)]) (use counts [of _ "sm_proc s"] in auto)
        then show ?thesis using res(1) step by auto
      next
        case user: True
        obtain v pid tid where d: "sample_of r = (v, pid, tid)" by (cases "sample_of r")
        obtain full q where fq: "f v pid tid (sm_proc s) = (full, q)" by fastforce
        have step: "sample_loop proc cpu (r # rs) n s =
            (if full then Some (Inr (True, n + 1, ?s\<lparr>sm_proc := q\<rparr>)) else sample_loop proc cpu rs (n + 1) (?s\<lparr>sm_proc := q\<rparr>))"
          using user Some True d fq assms by (auto simp: is_user_sample_def sample_of_def Let_def)
        show ?thesis
        proof (cases full)
          case True
          then have "loop_result f (r # rs) n s (True, n + 1, ?s\<lparr>sm_proc := q\<rparr>)"
            using fq by (intro loop_result_full [OF user d]) (auto simp: counts_defs Some \<open>rec_type h = PERF_RECORD_SAMPLE\<close>)
          then show ?thesis using step True by auto
        next
          case False
          obtain res where res: "sample_loop proc cpu rs (n + 1) (?s\<lparr>sm_proc := q\<rparr>) = Some (Inr res)"
              "loop_result f rs (n + 1) (?s\<lparr>sm_proc := q\<rparr>) res"
            using Cons.IH by blast
          have "loop_result f (r # rs) n s res"
            by (rule loop_result_more [OF user d _ res(2) counts]) (use fq False in auto)
          then show ?thesis using res(1) step False by auto
        qed
      qed
    qed
  qed
qed


definition small_sampling :: "nat sampling" where
  "small_sampling = \<lparr>sm_stats = zero_stats, sm_nr_sample = 0, sm_proc = 0\<rparr>"


section \<open>The sample period\<close>

definition unit_samples :: "pmu_state \<Rightarrow> int" where
  "unit_samples s = st_samples (pmu_stats s) - pmem_samples_unit_begin s"

lemma c_div_pos: "0 \<le> a \<Longrightarrow> 0 < b \<Longrightarrow> c_div a b = a div b"
  by (cases "a = 0") (simp_all add: c_div_def)

lemma sint_small: "0 \<le> x \<Longrightarrow> x < 2 ^ 31 \<Longrightarrow> sint (word_of_int x :: 32 word) = x"
  by (simp add: signed_of_int signed_take_bit_int_eq_self)

lemma each_fds_state: "each_fds f s = Inr t \<Longrightarrow> fst t = fst s"
  by (auto simp: each_fds_def)

text \<open>
  C37: The sample period follows the sampling rate and keeps its minimum. With a period of at least the
  minimum, the period is adjusted exactly when an interval unit gave more samples than expected by more
  than the margin, or fewer by more than the margin while the period is above the minimum; the next
  period is then the one that would have given the expected number, or the minimum, it grows in
  the first case, does not grow in the second, and committing it makes it the current one. (The new
  period is taken to fit an \<open>int\<close>, into which the code stores a \<open>long\<close>.)
\<close>

theorem sample_period_follows:
  fixes P :: "'k perf_ops"
  assumes "0 < expected_samples cfg" and "0 \<le> pmem_expected_samples_margin s" and "0 < sample_period_min cfg"
    and "sample_period_min cfg \<le> pmem_sample_period s" and "0 \<le> unit_samples s"
    and "unit_samples s * pmem_sample_period s div expected_samples cfg < 2 ^ 31"
  defines "many \<equiv> unit_samples s > expected_samples cfg + pmem_expected_samples_margin s"
    and "few \<equiv> unit_samples s < expected_samples cfg - pmem_expected_samples_margin s \<and>
                pmem_sample_period s > sample_period_min cfg"
    and "new \<equiv> max (sample_period_min cfg) (unit_samples s * pmem_sample_period s div expected_samples cfg)"
  shows "adjust_sample_period_prepare cfg s =
       Inr (many \<or> few, if many \<or> few then s\<lparr>pmem_sample_period_next := new\<rparr> else s) \<and>
     (many \<longrightarrow> pmem_sample_period s \<le> new) \<and> (few \<longrightarrow> new \<le> pmem_sample_period s) \<and>
     (\<forall>k s' k'. many \<or> few \<longrightarrow>
        adjust_sample_period_commit P (s\<lparr>pmem_sample_period_next := new\<rparr>, k) = Inr (s', k') \<longrightarrow>
        pmem_sample_period s' = new \<and> pmem_sample_period_next s' = 0 \<and> sample_period_min cfg \<le> new)"
proof -
  let ?q = "unit_samples s * pmem_sample_period s div expected_samples cfg"
  have pos: "0 < pmem_sample_period s" using assms(3,4) by linarith
  have q: "c_div (unit_samples s * pmem_sample_period s) (expected_samples cfg) = ?q"
    using assms(1,5) pos by (intro c_div_pos) simp_all
  have "0 \<le> ?q" using assms(1,5) pos by (simp add: pos_imp_zdiv_nonneg_iff)
  then have w: "sint (word_of_int ?q :: 32 word) = ?q" using assms(6) by (rule sint_small)
  have prep: "adjust_sample_period_prepare cfg s =
      Inr (many \<or> few, if many \<or> few then s\<lparr>pmem_sample_period_next := new\<rparr> else s)"
    using assms(1) q w unfolding adjust_sample_period_prepare_def many_def few_def new_def Let_def unit_samples_def
    by (simp add: max_def not_less)
  have up: "pmem_sample_period s \<le> new" if many
  proof -
    have "expected_samples cfg * pmem_sample_period s \<le> unit_samples s * pmem_sample_period s"
      using that assms(2) pos by (intro mult_right_mono) (simp_all add: many_def)
    then have "expected_samples cfg * pmem_sample_period s div expected_samples cfg \<le> ?q"
      using assms(1) by (intro zdiv_mono1) simp_all
    then show ?thesis using assms(1) by (simp add: new_def)
  qed
  have down: "new \<le> pmem_sample_period s" if few
  proof -
    have "unit_samples s * pmem_sample_period s \<le> expected_samples cfg * pmem_sample_period s"
      using that assms(2) pos by (intro mult_right_mono) (simp_all add: few_def)
    then have "?q \<le> expected_samples cfg * pmem_sample_period s div expected_samples cfg"
      using assms(1) by (intro zdiv_mono1) simp_all
    then show ?thesis using assms(1,4) by (simp add: new_def)
  qed
  have "pmem_sample_period s' = new \<and> pmem_sample_period_next s' = 0 \<and> sample_period_min cfg \<le> new"
    if "adjust_sample_period_commit P (s\<lparr>pmem_sample_period_next := new\<rparr>, k) = Inr (s', k')" for k s' k'
  proof -
    have "new \<noteq> 0" using assms(3) by (simp add: new_def)
    then show ?thesis using that
      by (auto simp: adjust_sample_period_commit_def setup_pmem_sample_period_def new_def dest: each_fds_state)
  qed
  then show ?thesis using prep up down by blast
qed

definition idle_perf :: "unit perf_ops" where
  "idle_perf =
     \<lparr>resolve_event = (\<lambda>e. None), perf_fd_open_other = (\<lambda>a b p c k. (None, k)), perf_fd_close = (\<lambda>fd k. k),
      perf_enable = (\<lambda>fd k. (True, k)), perf_disable = (\<lambda>fd k. (True, k)), ioc_period = (\<lambda>fd v k. (True, k)),
      ring_records = (\<lambda>fd k. []), perf_iter_continue = (\<lambda>fd n k. k), read_counter = (\<lambda>fd k. (Some 0, k)),
      rdclock = (\<lambda>k. (0, k)), select_fds = (\<lambda>m fds t k. ((0, {}), k))\<rparr>"

definition small_config :: pmu_config where
  "small_config =
     \<lparr>pmem_pmu_events = [None, None], dram_pmu_events = [None, None], imc_dram_read = [], imc_dram_write = [],
      target_pid = - 1, sample_period_min = 1000, expected_samples = 20000, granularity_order = 12,
      imc_counting = False\<rparr>"

definition small_state :: pmu_state where
  "small_state =
     \<lparr>cpus = [], pmu_nodes = [0, 1], pmu_node_map = [Some (PmuNode_ctor 0), Some (PmuNode_ctor 1)],
      pmem_sample_period = 1000, pmem_sample_period_next = 0, pmem_max_fd = 0, pmem_expected_samples_margin = 0,
      pmem_samples_unit_begin = 0, pmu_stats = zero_stats\<lparr>st_samples := 50000\<rparr>, imc_timestamp = 0,
      pmem_open_fds = {}\<rparr>"

theorem sample_period_follows_witness:
  "adjust_sample_period_prepare small_config small_state = Inr (True, small_state\<lparr>pmem_sample_period_next := 2500\<rparr>)"
  using sample_period_follows [of small_config small_state idle_perf]
  by (simp add: small_config_def small_state_def unit_samples_def zero_stats_def)

section \<open>The counts of the nodes\<close>

lemma pmu_modify_node_get:
  assumes "pmu_get_node s n = Inr p"
  shows "\<exists>s'. pmu_modify_node n f s = Inr s' \<and>
    (\<forall>m. pmu_get_node s' m = (if m = n then Inr (f p) else pmu_get_node s m))"
  using assms by (auto simp: pmu_modify_node_def pmu_get_node_def nth_list_update split: if_splits option.splits)

definition node_ids :: "numa_collection \<Rightarrow> node_ptr list \<Rightarrow> int set" where
  "node_ids c qs = {nn_id n | q n. q \<in> set qs \<and> node_heap c q = Some n}"

text \<open>Every node of the collection has its counters.\<close>

definition pmu_covers :: "numa_collection \<Rightarrow> pmu_state \<Rightarrow> bool" where
  "pmu_covers c s \<longleftrightarrow> (\<forall>m \<in> node_ids c (nodes c). \<exists>p. pmu_get_node s m = Inr p)"

definition adds :: "(int \<Rightarrow> u64) \<Rightarrow> pmu_state \<Rightarrow> pmu_state \<Rightarrow> bool" where
  "adds d s s' \<longleftrightarrow> (\<forall>m. pmu_get_node s' m = map_sum id (add_dram_count (d m)) (pmu_get_node s m))"

lemma add_zero [simp]: "add_dram_count 0 = id" by (rule ext) (simp add: add_dram_count_def)

lemma adds_both:
  assumes "adds d s t" and "adds e t u"
  shows "adds (\<lambda>m. d m + e m) s u"
proof -
  have "pmu_get_node u m = map_sum id (add_dram_count (d m + e m)) (pmu_get_node s m)" for m
    using assms by (cases "pmu_get_node s m") (simp_all add: adds_def add_dram_count_def add.assoc)
  then show ?thesis by (simp add: adds_def)
qed

lemma adds_none: "adds (\<lambda>m. 0) s s"
  by (simp add: adds_def sum.map_id)

lemma adds_one:
  assumes "pmu_get_node s n = Inr p"
  shows "\<exists>s'. pmu_modify_node n (add_dram_count v) s = Inr s' \<and> adds (\<lambda>m. if m = n then v else 0) s s'"
proof -
  obtain s' where "pmu_modify_node n (add_dram_count v) s = Inr s'"
      "\<forall>m. pmu_get_node s' m = (if m = n then Inr (add_dram_count v p) else pmu_get_node s m)"
    using pmu_modify_node_get [OF assms] by blast
  then show ?thesis using assms by (auto simp: adds_def sum.map_id)
qed

lemma adds_covers: "adds d s s' \<Longrightarrow> pmu_covers c s \<Longrightarrow> pmu_covers c s'"
  by (fastforce simp: adds_def pmu_covers_def)

lemma numa_ids_distinct:
  assumes "numa_inv c" and "q \<in> set (nodes c)" and "q' \<in> set (nodes c)"
    and "node_heap c q = Some n" and "node_heap c q' = Some n'" and "nn_id n = nn_id n'"
  shows "q = q'"
proof -
  have "node_ok c q n" "node_ok c q' n'"
    using numa_inv_deref [OF assms(1,2)] numa_inv_deref [OF assms(1,3)] assms(4,5) by auto
  then show ?thesis using assms(6) by (simp add: node_ok_def)
qed

lemma share_remote_all:
  fixes remote :: u64
  assumes "numa_inv c" and "set qs \<subseteq> set (nodes c)" and "distinct qs" and "pmu_covers c s"
  defines "share \<equiv> (if length (dram_nodes c) > 1 then remote div of_nat (length (dram_nodes c) - 1) else 0)"
  shows "\<exists>s'. rfold (share_remote c n remote) qs s = Inr s' \<and>
    adds (\<lambda>m. if m \<in> node_ids c qs - {n} then share else 0) s s'"
  using assms(2-4)
proof (induction qs arbitrary: s)
  case Nil
  then show ?case using adds_none by (simp add: node_ids_def)
next
  case (Cons q qs)
  then obtain k where k: "node_heap c q = Some k" "deref c (Some q) = Inr k"
    using numa_inv_deref [OF assms(1), of q] by auto
  have ids: "node_ids c (q # qs) = insert (nn_id k) (node_ids c qs)" using k(1) by (auto simp: node_ids_def)
  have fresh: "nn_id k \<notin> node_ids c qs"
    using numa_ids_distinct [OF assms(1) _ _ k(1)] Cons.prems(1,2) by (fastforce simp: node_ids_def)
  have "nn_id k \<in> node_ids c (nodes c)" using k(1) Cons.prems(1) by (auto simp: node_ids_def)
  then obtain p where p: "pmu_get_node s (nn_id k) = Inr p" using Cons.prems(3) by (auto simp: pmu_covers_def)
  have "\<exists>t. share_remote c n remote q s = Inr t \<and> adds (\<lambda>m. if m = nn_id k \<and> m \<noteq> n then share else 0) s t"
  proof (cases "nn_id k = n \<or> length (dram_nodes c) \<le> 1")
    case True
    then have "(\<lambda>m. if m = nn_id k \<and> m \<noteq> n then share else 0) = (\<lambda>m. 0)" by (auto simp: share_def fun_eq_iff)
    then show ?thesis using True k(2) p adds_none [of s] by (auto simp: share_remote_def)
  next
    case False
    then have "(\<lambda>m. if m = nn_id k \<and> m \<noteq> n then share else 0) = (\<lambda>m. if m = nn_id k then share else 0)" by auto
    then show ?thesis using False k(2) p adds_one [OF p, of share] by (auto simp: share_remote_def share_def)
  qed
  then obtain t where t: "share_remote c n remote q s = Inr t" "adds (\<lambda>m. if m = nn_id k \<and> m \<noteq> n then share else 0) s t" by blast
  obtain s' where s': "rfold (share_remote c n remote) qs t = Inr s'"
      "adds (\<lambda>m. if m \<in> node_ids c qs - {n} then share else 0) t s'"
    using Cons.IH [of t] Cons.prems adds_covers [OF t(2)] by auto
  have "(\<lambda>m. (if m = nn_id k \<and> m \<noteq> n then share else 0) + (if m \<in> node_ids c qs - {n} then share else 0)) =
      (\<lambda>m. if m \<in> node_ids c (q # qs) - {n} then share else 0)"
    using fresh by (auto simp: ids fun_eq_iff)
  then show ?case using t(1) s' adds_both [OF t(2) s'(2)] by auto
qed

text \<open>
  The local accesses that a CPU counted go to its own node and the remote ones in equal shares to the
  other DRAM nodes: over a topology in order and a PMU state with counters for its nodes the
  distribution does not fault, adds to the node of the CPU its local count and to each other DRAM
  node the remote count divided by the number of DRAM nodes less one, and leaves all other
  counters; when the node of the CPU is itself DRAM, what is shared out is the remote count up to
  the remainder of that division.
\<close>

theorem remote_counts_shared:
  assumes "numa_inv c" and "pmu_covers c s" and "node_of_cpu c cpu = Inr (Some q)" and "q \<in> set (nodes c)"
    and "node_heap c q = Some n"
  defines "others \<equiv> node_ids c (dram_nodes c) - {nn_id n}" and "m \<equiv> length (dram_nodes c) - 1"
  shows "\<exists>s'. distribute_count c cpu local remote s = Inr s' \<and>
    adds (\<lambda>i. (if i = nn_id n then local else 0) + (if i \<in> others \<and> 0 < m then remote div of_nat m else 0)) s s' \<and>
    (nn_type n = NUMA_NODE_DRAM \<longrightarrow> card others = m \<and> m * (unat remote div m) = unat remote - unat remote mod m)"
proof -
  have d: "deref c (Some q) = Inr n" using assms(5) by (simp add: deref_def)
  have "nn_id n \<in> node_ids c (nodes c)" using assms(4,5) by (auto simp: node_ids_def)
  then obtain p where "pmu_get_node s (nn_id n) = Inr p" using assms(2) by (auto simp: pmu_covers_def)
  then obtain t where t: "pmu_modify_node (nn_id n) (add_dram_count local) s = Inr t"
      "adds (\<lambda>i. if i = nn_id n then local else 0) s t"
    using adds_one by blast
  have dn: "dram_nodes c = filter (has_type c NUMA_NODE_DRAM) (nodes c)" "distinct (nodes c)"
    using assms(1) by (simp_all add: numa_inv_def)
  then have sub: "set (dram_nodes c) \<subseteq> set (nodes c)" and dis: "distinct (dram_nodes c)" by auto
  obtain s' where s': "rfold (share_remote c (nn_id n) remote) (dram_nodes c) t = Inr s'"
      "adds (\<lambda>i. if i \<in> others then (if length (dram_nodes c) > 1 then remote div of_nat (length (dram_nodes c) - 1) else 0) else 0) t s'"
    using share_remote_all [OF assms(1) sub dis adds_covers [OF t(2) assms(2)], of "nn_id n" remote]
    unfolding others_def by blast
  have "(\<lambda>i. (if i = nn_id n then local else 0) +
          (if i \<in> others then (if length (dram_nodes c) > 1 then remote div of_nat (length (dram_nodes c) - 1) else 0) else 0)) =
        (\<lambda>i. (if i = nn_id n then local else 0) + (if i \<in> others \<and> 0 < m then remote div of_nat m else 0))"
    by (auto simp: m_def fun_eq_iff)
  then have "adds (\<lambda>i. (if i = nn_id n then local else 0) + (if i \<in> others \<and> 0 < m then remote div of_nat m else 0)) s s'"
    using adds_both [OF t(2) s'(2)] by simp
  moreover have "distribute_count c cpu local remote s = Inr s'"
    using assms(3) d t(1) s'(1) by (simp add: distribute_count_def)
  moreover have "card others = m" if "nn_type n = NUMA_NODE_DRAM"
  proof -
    let ?id = "\<lambda>q. nn_id (the (node_heap c q))"
    have heap: "node_heap c r = Some (the (node_heap c r))" if "r \<in> set (nodes c)" for r
      using numa_inv_deref [OF assms(1) that] by auto
    have "inj_on ?id (set (dram_nodes c))"
      using numa_ids_distinct [OF assms(1)] heap sub by (intro inj_onI) blast
    moreover have "node_ids c (dram_nodes c) = ?id ` set (dram_nodes c)"
      using heap sub by (force simp: node_ids_def image_iff)
    ultimately have "card (node_ids c (dram_nodes c)) = length (dram_nodes c)"
      using dis by (simp add: card_image distinct_card)
    moreover have "nn_id n \<in> node_ids c (dram_nodes c)"
      using that assms(4,5) dn(1) by (auto simp: node_ids_def has_type_def intro!: exI [of _ q] exI [of _ n])
    moreover have "finite (node_ids c (dram_nodes c))" using \<open>node_ids c (dram_nodes c) = _\<close> by simp
    ultimately show ?thesis by (simp add: others_def m_def)
  qed
  moreover have "m * (unat remote div m) = unat remote - unat remote mod m" by (simp add: minus_mod_eq_mult_div)
  ultimately show ?thesis by blast
qed

definition two_dram :: numa_collection where
  "two_dram =
     \<lparr>nr_possible_node = 2, nr_possible_cpu = 1, cpu_node_map = [1], node_map = [Some 0, Some 1], nodes = [0, 1],
      dram_nodes = [0, 1], pmem_nodes = [],
      node_heap = [0 \<mapsto> new_numa_node 0 NUMA_NODE_DRAM, 1 \<mapsto> new_numa_node 1 NUMA_NODE_DRAM], next_node = 2\<rparr>"

lemma two_dram_inv: "numa_inv two_dram"
  by (auto simp: numa_inv_def two_dram_def node_ok_def has_type_def new_numa_node_def less_Suc_eq nth_Cons' numeral_2_eq_2)

lemma two_dram_covered: "pmu_covers two_dram small_state"
  by (auto simp: pmu_covers_def node_ids_def two_dram_def small_state_def pmu_get_node_def new_numa_node_def split: if_splits)

theorem remote_counts_shared_witness:
  "\<exists>s'. distribute_count two_dram 0 5 7 small_state = Inr s' \<and>
     pmu_get_node s' 0 = Inr (add_dram_count 7 (PmuNode_ctor 0)) \<and>
     pmu_get_node s' 1 = Inr (add_dram_count 5 (PmuNode_ctor 1))"
proof -
  have "node_of_cpu two_dram 0 = Inr (Some 1)" by (simp add: node_of_cpu_def two_dram_def get_node_def)
  moreover have "1 \<in> set (nodes two_dram)" "node_heap two_dram 1 = Some (new_numa_node 1 NUMA_NODE_DRAM)"
    by (simp_all add: two_dram_def)
  moreover have "node_ids two_dram (dram_nodes two_dram) = {0, 1}"
    by (force simp: node_ids_def two_dram_def new_numa_node_def split: if_splits)
  ultimately obtain s' where s': "distribute_count two_dram 0 5 7 small_state = Inr s'"
      "adds (\<lambda>i. (if i = 1 then 5 else 0) + (if i \<in> {0, 1} - {1} \<and> 0 < length (dram_nodes two_dram) - 1
              then 7 div of_nat (length (dram_nodes two_dram) - 1) else 0)) small_state s'"
    using remote_counts_shared [OF two_dram_inv two_dram_covered, of 0 1 "new_numa_node 1 NUMA_NODE_DRAM" 5 7]
    by (auto simp: new_numa_node_def)
  have "length (dram_nodes two_dram) = 2" by (simp add: two_dram_def)
  moreover have "pmu_get_node small_state 0 = Inr (PmuNode_ctor 0)" "pmu_get_node small_state 1 = Inr (PmuNode_ctor 1)"
    by (simp_all add: pmu_get_node_def small_state_def)
  ultimately show ?thesis using s' by (auto simp: adds_def)
qed

end
