(* ===== verification/Hmd_Correct.thy ===== *)
theory Hmd_Correct
  imports Hmd Pmu_Correct Cmsk_Counting
begin

text \<open>
  Correctness of the migration of the sampling optimizer: which pages of a batch are moved, where to,
  what becomes of those that could not be moved, and that the batches fit the buffers.
\<close>

section \<open>Compacting a buffer in place\<close>

definition compact :: "'a list \<Rightarrow> 'a list \<Rightarrow> 'a list" where
  "compact as xs = as @ drop (length as) xs"

lemma compact_Nil [simp]: "compact [] xs = xs" by (simp add: compact_def)

lemma compact_nth: "length as \<le> i \<Longrightarrow> i < length xs \<Longrightarrow> compact as xs ! i = xs ! i"
  by (simp add: compact_def nth_append)

lemma compact_put: "length as < length xs \<Longrightarrow> (compact as xs)[length as := v] = compact (as @ [v]) xs"
  by (simp add: compact_def Cons_nth_drop_Suc [symmetric] list_update_append)

lemma length_compact [simp]: "length as \<le> length xs \<Longrightarrow> length (compact as xs) = length xs"
  by (simp add: compact_def)

lemma take_compact [simp]: "take (length as) (compact as xs) = as"
  by (simp add: compact_def)

section \<open>The pages of a batch\<close>

text \<open>A candidate: page, sample count, target node.\<close>

type_synonym candidate = "u64 \<times> int \<times> int"

definition promote_id :: "numa_collection \<Rightarrow> int \<Rightarrow> int option" where
  "promote_id c nid =
     (if \<not> is_valid_nid c nid then None
      else case node_of c nid of
             Inl e \<Rightarrow> None
           | Inr n \<Rightarrow> if is_pmem n then (case deref c (promote_target n) of Inl e \<Rightarrow> None | Inr t \<Rightarrow> Some (nn_id t)) else None)"

definition candidates :: "numa_collection \<Rightarrow> u64 list \<Rightarrow> int list \<Rightarrow> int list \<Rightarrow> candidate list" where
  "candidates c pages counts st =
     concat (map (\<lambda>i. case promote_id c (st ! i) of None \<Rightarrow> [] | Some t \<Rightarrow> [(pages ! i, counts ! i, t)]) [0..<length pages])"

definition is_hot :: "hmd_config \<Rightarrow> pmu_state \<Rightarrow> candidate \<Rightarrow> bool" where
  "is_hot cfg pmu x \<longleftrightarrow> is_page_hot_in_target_dram_node cfg pmu (fst (snd x)) (snd (snd x)) = Inr True"

text \<open>The topology and the counters are in order, and every PMEM node has a target.\<close>

definition env_ok :: "'k move_env \<Rightarrow> bool" where
  "env_ok E \<longleftrightarrow> numa_inv (me_numa E) \<and> pmu_covers (me_numa E) (me_pmu E) \<and>
     (\<forall>p \<in> set (nodes (me_numa E)). \<forall>n. node_heap (me_numa E) p = Some n \<longrightarrow> is_pmem n \<longrightarrow> promote_target n \<noteq> None)"

lemma node_of_mem:
  assumes "numa_inv c" and "is_valid_nid c nid"
  shows "\<exists>p n. get_node c nid = Inr (Some p) \<and> p \<in> set (nodes c) \<and> deref c (Some p) = Inr n \<and> node_heap c p = Some n \<and>
    node_of c nid = Inr n"
proof -
  have i: "nat nid < length (node_map c)" "0 \<le> nid" using assms by (auto simp: numa_inv_def is_valid_nid_def)
  obtain p where p: "node_map c ! nat nid = Some p" using assms(2) by (auto simp: is_valid_nid_def)
  then have "p \<in> set (nodes c)" using assms(1) i(1) unfolding numa_inv_def by blast
  then show ?thesis using numa_inv_deref [OF assms(1)] i p by (fastforce simp: node_of_def get_node_def)
qed

lemma promote_id_known:
  assumes "env_ok E" and "promote_id (me_numa E) nid = Some t"
  shows "\<exists>p. pmu_get_node (me_pmu E) t = Inr p"
proof -
  let ?c = "me_numa E"
  obtain n q m where n: "node_of ?c nid = Inr n" "is_pmem n" "promote_target n = Some q" "node_heap ?c q = Some m" "t = nn_id m"
      and v: "is_valid_nid ?c nid"
    using assms(2) by (auto simp: promote_id_def deref_def split: if_splits sum.splits option.splits)
  obtain p where p: "p \<in> set (nodes ?c)" "node_heap ?c p = Some n"
    using node_of_mem [OF _ v] assms(1) n(1) by (auto simp: env_ok_def)
  have "node_ok ?c p n" using numa_inv_deref [of ?c p] assms(1) p by (auto simp: env_ok_def)
  then have "q \<in> set (nodes ?c)" using n(3) by (simp add: node_ok_def)
  then have "t \<in> node_ids ?c (nodes ?c)" using n(4,5) by (auto simp: node_ids_def)
  then show ?thesis using assms(1) by (simp add: env_ok_def pmu_covers_def)
qed

definition put_candidates :: "candidate list \<Rightarrow> migration_state \<Rightarrow> migration_state" where
  "put_candidates xs m =
     m\<lparr>mg_hot_pages := compact (map fst xs) (mg_hot_pages m),
       mg_sample_counts := compact (map (fst \<circ> snd) xs) (mg_sample_counts m),
       mg_target_nodes := compact (map (snd \<circ> snd) xs) (mg_target_nodes m)\<rparr>"

definition same_buffers :: "nat \<Rightarrow> migration_state \<Rightarrow> bool" where
  "same_buffers n m \<longleftrightarrow> length (mg_hot_pages m) = n \<and> length (mg_sample_counts m) = n \<and>
     length (mg_target_nodes m) = n \<and> length (mg_migrate_status m) = n"

lemma put_more:
  assumes "same_buffers n m" and "length xs < n"
  shows "put_candidates (xs @ [(a, b, t)]) m =
    (put_candidates xs m)\<lparr>mg_hot_pages := (mg_hot_pages (put_candidates xs m))[length xs := a],
       mg_sample_counts := (mg_sample_counts (put_candidates xs m))[length xs := b],
       mg_target_nodes := (mg_target_nodes (put_candidates xs m))[length xs := t]\<rparr>"
  using assms compact_put [of "map fst xs" "mg_hot_pages m" a] compact_put [of "map (fst \<circ> snd) xs" "mg_sample_counts m" b]
    compact_put [of "map (snd \<circ> snd) xs" "mg_target_nodes m" t]
  by (simp add: put_candidates_def same_buffers_def)

definition candidate_at :: "numa_collection \<Rightarrow> migration_state \<Rightarrow> nat \<Rightarrow> candidate list" where
  "candidate_at c m i = (case promote_id c (mg_migrate_status m ! i) of None \<Rightarrow> []
     | Some t \<Rightarrow> [(mg_hot_pages m ! i, mg_sample_counts m ! i, t)])"

lemma length_concat_le: "(\<And>i. i \<in> set is \<Longrightarrow> length (f i) \<le> 1) \<Longrightarrow> length (concat (map f is)) \<le> length is"
proof (induction "is")
  case (Cons a as)
  have "length (f a) \<le> 1" using Cons.prems by simp
  moreover have "length (concat (map f as)) \<le> length as" using Cons by simp
  ultimately show ?case by simp
qed simp

lemma candidate_at_le: "length (candidate_at c m i) \<le> 1"
  by (simp add: candidate_at_def split: option.split)

lemma target_step_put:
  assumes "env_ok E" and "same_buffers n m" and "length xs \<le> i" and "i < n"
  shows "target_step (me_numa E) i (length xs, put_candidates xs m) =
    Inr (length (xs @ candidate_at (me_numa E) m i), put_candidates (xs @ candidate_at (me_numa E) m i) m)"
proof -
  let ?c = "me_numa E" and ?nid = "mg_migrate_status m ! i"
  have st: "mg_migrate_status (put_candidates xs m) = mg_migrate_status m" by (simp add: put_candidates_def)
  have at: "mg_hot_pages (put_candidates xs m) ! i = mg_hot_pages m ! i"
    "mg_sample_counts (put_candidates xs m) ! i = mg_sample_counts m ! i"
    using assms(2-4) by (simp_all add: put_candidates_def same_buffers_def compact_nth)
  show ?thesis
  proof (cases "is_valid_nid ?c ?nid")
    case False
    then show ?thesis by (simp add: target_step_def st candidate_at_def promote_id_def)
  next
    case True
    then obtain p k where k: "get_node ?c ?nid = Inr (Some p)" "p \<in> set (nodes ?c)" "deref ?c (Some p) = Inr k"
        "node_heap ?c p = Some k" "node_of ?c ?nid = Inr k"
      using node_of_mem [of ?c ?nid] assms(1) unfolding env_ok_def by blast
    show ?thesis
    proof (cases "is_pmem k")
      case False
      then show ?thesis using True k by (simp add: target_step_def st candidate_at_def promote_id_def)
    next
      case pm: True
      then obtain q where q: "promote_target k = Some q" using assms(1) k(2,4) by (auto simp: env_ok_def)
      have "node_ok ?c p k" using numa_inv_deref [of ?c p] assms(1) k(2,4) by (auto simp: env_ok_def)
      then have "q \<in> set (nodes ?c)" using q by (simp add: node_ok_def)
      then obtain t where t: "deref ?c (Some q) = Inr t" using numa_inv_deref [of ?c q] assms(1) unfolding env_ok_def by blast
      have cand: "candidate_at ?c m i = [(mg_hot_pages m ! i, mg_sample_counts m ! i, nn_id t)]"
        using True k(5) pm q t by (simp add: candidate_at_def promote_id_def)
      show ?thesis
        using True k pm q t put_more [OF assms(2), of xs "mg_hot_pages m ! i" "mg_sample_counts m ! i" "nn_id t"] assms(3,4)
        by (simp add: target_step_def st cand at)
    qed
  qed
qed

lemma target_steps:
  assumes "env_ok E" and "same_buffers n m" and "k \<le> n"
  shows "rfold (target_step (me_numa E)) [0..<k] (0, m) =
    (let xs = concat (map (candidate_at (me_numa E) m) [0..<k]) in Inr (length xs, put_candidates xs m))"
  using assms(3)
proof (induction k)
  case 0
  then show ?case by (simp add: put_candidates_def)
next
  case (Suc k)
  let ?xs = "concat (map (candidate_at (me_numa E) m) [0..<k])"
  have "length ?xs \<le> length [0..<k]" by (rule length_concat_le) (rule candidate_at_le)
  then have "length ?xs \<le> k" by simp
  then show ?case using Suc target_step_put [OF assms(1,2), of ?xs k] by (simp add: rfold_append Let_def)
qed

lemma get_target_nodes_eq:
  assumes "env_ok E" and "same_buffers n m" and "mg_len m \<le> n"
  shows "get_target_nodes (me_numa E) m =
    (let xs = concat (map (candidate_at (me_numa E) m) [0..<mg_len m]) in Inr ((put_candidates xs m)\<lparr>mg_len := length xs\<rparr>))"
  using target_steps [OF assms] by (simp add: get_target_nodes_def Let_def)

text \<open>The filter works on buffers that begin with the candidates.\<close>

lemma filter_step_put:
  assumes "same_buffers n m" and "length ys \<le> i" and "i < length xs" and "length xs \<le> n"
    and "is_page_hot_in_target_dram_node cfg pmu (fst (snd (xs ! i))) (snd (snd (xs ! i))) = Inr hot"
  defines "zs \<equiv> (if is_hot cfg pmu (xs ! i) then ys @ [xs ! i] else ys)"
  shows "filter_step cfg pmu i (length ys, put_candidates ys (put_candidates xs m)) =
    Inr (length zs, put_candidates zs (put_candidates xs m))"
proof -
  let ?m = "put_candidates xs m"
  obtain a b t where x: "xs ! i = (a, b, t)" by (cases "xs ! i")
  have sb: "same_buffers n ?m" using assms(1,4) by (simp add: same_buffers_def put_candidates_def)
  have "mg_hot_pages ?m ! i = a" "mg_sample_counts ?m ! i = b" "mg_target_nodes ?m ! i = t"
    using assms(3) x by (simp_all add: put_candidates_def compact_def nth_append)
  then have at: "mg_hot_pages (put_candidates ys ?m) ! i = a" "mg_sample_counts (put_candidates ys ?m) ! i = b"
      "mg_target_nodes (put_candidates ys ?m) ! i = t"
    using sb assms(2-4) unfolding put_candidates_def [of ys] same_buffers_def by (simp_all add: compact_nth)
  show ?thesis
  proof (cases hot)
    case True
    then have "zs = ys @ [(a, b, t)]" using assms(5) x by (simp add: zs_def is_hot_def)
    then show ?thesis using True assms(2-5) x at put_more [OF sb, of ys a b t]
      by (simp add: filter_step_def)
  next
    case False
    then show ?thesis using assms(5) x at by (simp add: filter_step_def zs_def is_hot_def)
  qed
qed

lemma filter_steps:
  assumes "same_buffers n m" and "length xs \<le> n" and "k \<le> length xs"
    and "\<And>x. x \<in> set xs \<Longrightarrow> \<exists>p. pmu_get_node pmu (snd (snd x)) = Inr p"
  shows "rfold (filter_step cfg pmu) [0..<k] (0, put_candidates xs m) =
    (let ys = filter (is_hot cfg pmu) (take k xs) in Inr (length ys, put_candidates ys (put_candidates xs m)))"
  using assms(3)
proof (induction k)
  case 0
  then show ?case by (simp add: put_candidates_def)
next
  case (Suc k)
  let ?ys = "filter (is_hot cfg pmu) (take k xs)"
  have "length ?ys \<le> k" using length_filter_le [of "is_hot cfg pmu" "take k xs"] Suc.prems by simp
  moreover obtain p where "pmu_get_node pmu (snd (snd (xs ! k))) = Inr p" using assms(4) [of "xs ! k"] Suc.prems by auto
  then obtain hot where "is_page_hot_in_target_dram_node cfg pmu (fst (snd (xs ! k))) (snd (snd (xs ! k))) = Inr hot"
    by (simp add: is_page_hot_in_target_dram_node_def)
  ultimately have "filter_step cfg pmu k (length ?ys, put_candidates ?ys (put_candidates xs m)) =
      (let zs = (if is_hot cfg pmu (xs ! k) then ?ys @ [xs ! k] else ?ys)
       in Inr (length zs, put_candidates zs (put_candidates xs m)))"
    using filter_step_put [OF assms(1), of ?ys k xs cfg pmu hot] assms(2) Suc.prems by (simp add: Let_def)
  moreover have "filter (is_hot cfg pmu) (take (Suc k) xs) = (if is_hot cfg pmu (xs ! k) then ?ys @ [xs ! k] else ?ys)"
    using Suc.prems by (simp add: take_Suc_conv_app_nth)
  ultimately show ?case using Suc by (simp add: rfold_append Let_def)
qed

lemma mg_filter_eq:
  assumes "same_buffers n m" and "length xs \<le> n"
    and "\<And>x. x \<in> set xs \<Longrightarrow> \<exists>p. pmu_get_node pmu (snd (snd x)) = Inr p"
  shows "mg_filter cfg pmu ((put_candidates xs m)\<lparr>mg_len := length xs\<rparr>) =
    (let ys = filter (is_hot cfg pmu) xs
     in Inr ((put_candidates ys (put_candidates xs m))\<lparr>mg_len := length ys\<rparr>))"
proof -
  have "same_buffers n (m\<lparr>mg_len := length xs\<rparr>)" using assms(1) by (simp add: same_buffers_def)
  moreover have "put_candidates ys (m\<lparr>mg_len := l\<rparr>) = (put_candidates ys m)\<lparr>mg_len := l\<rparr>" for ys l m
    by (simp add: put_candidates_def)
  ultimately show ?thesis using filter_steps [of n "m\<lparr>mg_len := length xs\<rparr>" xs "length xs" pmu cfg] assms(2,3)
    by (simp add: mg_filter_def Let_def)
qed

section \<open>Moving them\<close>

definition moved_pages :: "candidate list \<Rightarrow> int list \<Rightarrow> nat" where
  "moved_pages xs st = length (filter (\<lambda>(x, s). s = snd (snd x)) (zip xs st))"

definition failed_pages :: "candidate list \<Rightarrow> int list \<Rightarrow> u64 list" where
  "failed_pages xs st = map (fst \<circ> fst) (filter (\<lambda>(x, s). s \<noteq> snd (snd x)) (zip xs st))"

definition filter_pages :: "map_lib \<Rightarrow> int \<Rightarrow> u64 list \<Rightarrow> rmap \<Rightarrow> rmap" where
  "filter_pages L pid = fold (\<lambda>a. insert_range L pid a PAGE_SIZE)"

lemma moved_steps:
  assumes "k \<le> length xs" and "length st = length xs"
    and "\<And>i. i < length xs \<Longrightarrow> mg_hot_pages m ! i = fst (xs ! i) \<and> mg_target_nodes m ! i = snd (snd (xs ! i)) \<and>
      mg_migrate_status m ! i = st ! i"
  shows "fold (moved_step E m) [0..<k] (0, f) =
    (moved_pages (take k xs) (take k st), filter_pages (me_lib E) (mg_pid m) (failed_pages (take k xs) (take k st)) f)"
  using assms(1)
proof (induction k)
  case 0
  then show ?case by (simp add: moved_pages_def failed_pages_def filter_pages_def)
next
  case (Suc k)
  have "zip (take (Suc k) xs) (take (Suc k) st) = zip (take k xs) (take k st) @ [(xs ! k, st ! k)]"
    using Suc.prems assms(2) by (simp add: take_Suc_conv_app_nth)
  then show ?case using Suc assms(3) [of k]
    by (auto simp: moved_pages_def failed_pages_def filter_pages_def moved_step_def)
qed

lemma length_overwrite [simp]: "length (overwrite new old) = length old"
  by (simp add: overwrite_def)

lemma overwrite_nth: "i < length new \<Longrightarrow> length new \<le> length old \<Longrightarrow> overwrite new old ! i = new ! i"
  by (simp add: overwrite_def nth_append)

lemma take_overwrite [simp]: "length new \<le> length old \<Longrightarrow> take (length new) (overwrite new old) = new"
  by (simp add: overwrite_def)

text \<open>The buffers once a batch is copied into them and its pages are located.\<close>

definition loaded :: "int \<Rightarrow> u64 list \<Rightarrow> int list \<Rightarrow> int list \<Rightarrow> migration_state \<Rightarrow> migration_state" where
  "loaded pid hot counts st m =
     m\<lparr>mg_pid := pid, mg_len := length hot, mg_hot_pages := overwrite hot (mg_hot_pages m),
       mg_sample_counts := overwrite counts (mg_sample_counts m), mg_migrate_status := overwrite st (mg_migrate_status m)\<rparr>"

lemma loaded_candidates:
  assumes "same_buffers n m" and "length counts = length hot" and "length st = length hot" and "length hot \<le> n"
  shows "concat (map (candidate_at c (loaded pid hot counts st m)) [0..<length hot]) = candidates c hot counts st"
proof -
  have "candidate_at c (loaded pid hot counts st m) i =
      (case promote_id c (st ! i) of None \<Rightarrow> [] | Some t \<Rightarrow> [(hot ! i, counts ! i, t)])" if "i < length hot" for i
    using assms that by (simp add: candidate_at_def loaded_def same_buffers_def overwrite_nth split: option.split)
  then show ?thesis unfolding candidates_def by (intro arg_cong [where f = concat] map_cong) simp_all
qed

lemma candidates_length: "length (candidates c hot counts st) \<le> length hot"
proof -
  have "length (candidates c hot counts st) \<le> length [0..<length hot]"
    unfolding candidates_def by (rule length_concat_le) (simp split: option.split)
  then show ?thesis by simp
qed

lemma candidates_target:
  "x \<in> set (candidates c hot counts st) \<Longrightarrow> \<exists>nid. promote_id c nid = Some (snd (snd x))"
  by (auto simp: candidates_def split: option.splits)

lemma put_put_fields:
  assumes "length xs \<le> length (mg_hot_pages m)" and "same_buffers n m"
  shows "take (length xs) (mg_hot_pages (put_candidates xs m)) = map fst xs"
    "take (length xs) (mg_target_nodes (put_candidates xs m)) = map (snd \<circ> snd) xs"
  using take_compact [of "map fst xs" "mg_hot_pages m"] take_compact [of "map (snd \<circ> snd) xs" "mg_target_nodes m"]
  by (simp_all add: put_candidates_def)

lemma same_put: "same_buffers n m \<Longrightarrow> length xs \<le> n \<Longrightarrow> same_buffers n (put_candidates xs m)"
  by (simp add: same_buffers_def put_candidates_def)

text \<open>The two steps that choose the pages.\<close>

lemma chosen:
  assumes "env_ok E" and "same_buffers n m" and "length counts = length hot" and "length st = length hot"
    and "length hot \<le> n"
  defines "xs \<equiv> filter (is_hot (me_cfg E) (me_pmu E)) (candidates (me_numa E) hot counts st)"
  shows "\<exists>m'. rbind (get_target_nodes (me_numa E) (loaded pid hot counts st m)) (mg_filter (me_cfg E) (me_pmu E)) = Inr m' \<and>
    mg_len m' = length xs \<and> mg_pid m' = pid \<and> nr_moved_page m' = nr_moved_page m \<and> same_buffers n m' \<and>
    take (length xs) (mg_hot_pages m') = map fst xs \<and> take (length xs) (mg_target_nodes m') = map (snd \<circ> snd) xs"
proof -
  let ?m = "loaded pid hot counts st m" and ?c = "candidates (me_numa E) hot counts st"
  have sb: "same_buffers n ?m" using assms(2) by (simp add: same_buffers_def loaded_def)
  have len: "mg_len ?m = length hot" by (simp add: loaded_def)
  have lc: "length ?c \<le> n" using candidates_length [of "me_numa E" hot counts st] assms(5) by linarith
  have lx: "length xs \<le> n" using lc length_filter_le [of _ ?c] unfolding xs_def by (meson order_trans)
  have "get_target_nodes (me_numa E) ?m = Inr ((put_candidates ?c ?m)\<lparr>mg_len := length ?c\<rparr>)"
    using get_target_nodes_eq [OF assms(1) sb] assms(5) loaded_candidates [OF assms(2-5)] by (simp add: len Let_def)
  moreover have "\<exists>p. pmu_get_node (me_pmu E) (snd (snd x)) = Inr p" if "x \<in> set ?c" for x
    using candidates_target [OF that] promote_id_known [OF assms(1)] by blast
  then have "mg_filter (me_cfg E) (me_pmu E) ((put_candidates ?c ?m)\<lparr>mg_len := length ?c\<rparr>) =
      Inr ((put_candidates xs (put_candidates ?c ?m))\<lparr>mg_len := length xs\<rparr>)"
    using mg_filter_eq [OF sb lc] by (simp add: xs_def Let_def)
  moreover have "same_buffers n (put_candidates ?c ?m)" using same_put [OF sb lc] .
  moreover note put_put_fields [of xs "put_candidates ?c ?m" n] same_put [of n "put_candidates ?c ?m" xs]
  ultimately show ?thesis using lx
    by (auto simp: same_buffers_def put_candidates_def loaded_def)
qed

lemma account_moves:
  assumes "take (length xs) (mg_hot_pages m) = map fst xs" and "take (length xs) (mg_target_nodes m) = map (snd \<circ> snd) xs"
    and "same_buffers n m" and "length xs \<le> n" and "length st2 = length xs"
  shows "fold (moved_step E (m\<lparr>mg_migrate_status := overwrite st2 (mg_migrate_status m)\<rparr>)) [0..<length xs] (0, f) =
    (moved_pages xs st2, filter_pages (me_lib E) (mg_pid m) (failed_pages xs st2) f)"
proof -
  let ?m = "m\<lparr>mg_migrate_status := overwrite st2 (mg_migrate_status m)\<rparr>"
  have "mg_hot_pages ?m ! i = fst (xs ! i) \<and> mg_target_nodes ?m ! i = snd (snd (xs ! i)) \<and>
      mg_migrate_status ?m ! i = st2 ! i" if i: "i < length xs" for i
  proof -
    have "mg_hot_pages m ! i = map fst xs ! i" "mg_target_nodes m ! i = map (snd \<circ> snd) xs ! i"
      using assms(1,2) i by (metis nth_take)+
    then show ?thesis using i assms(3-5) by (simp add: same_buffers_def overwrite_nth)
  qed
  then show ?thesis using moved_steps [of "length xs" xs st2 ?m E f] assms(5) by simp
qed

text \<open>
  C39: A batch moves exactly the pages that should be moved: of the pages handed over with their sample
  counts those that lie on a PMEM node and whose accesses reach the configured multiple of the average
  of the DRAM node that is the target of their node; the second system call gets exactly these
  pages, in order, each with that target. The number returned, which is added to the statistics, is the
  number of those that are then on their target; each other one goes into the address
  filter, so that it is not tried again.
\<close>

theorem batch_moves_hot_pages:
  assumes "env_ok E" and "same_buffers n m" and "length counts = length hot" and "length hot \<le> n"
    and "hot \<noteq> []" and "pid \<noteq> 0"
    and "me_sys E pid hot None k = ((r, e, st), k1)" and "0 \<le> r" and "length st = length hot"
  defines "xs \<equiv> filter (is_hot (me_cfg E) (me_pmu E)) (candidates (me_numa E) hot counts st)"
  assumes "me_sys E pid (map fst xs) (Some (map (snd \<circ> snd) xs)) k1 = ((r2, e2, st2), k2)" and "0 \<le> r2"
    and "length st2 = length xs"
  shows "\<exists>m'. mg_move_pages E pid hot counts (m, f, k) =
      Inr (moved_pages xs st2, m', filter_pages (me_lib E) pid (failed_pages xs st2) f, if xs = [] then k1 else k2) \<and>
    nr_moved_page m' = nr_moved_page m + of_nat (moved_pages xs st2) \<and> same_buffers n m'"
proof -
  note sb = assms(2) [unfolded same_buffers_def]
  obtain m' where ch: "rbind (get_target_nodes (me_numa E) (loaded pid hot counts st m)) (mg_filter (me_cfg E) (me_pmu E)) = Inr m'"
    and m': "mg_len m' = length xs" "mg_pid m' = pid" "nr_moved_page m' = nr_moved_page m" "same_buffers n m'"
      "take (length xs) (mg_hot_pages m') = map fst xs" "take (length xs) (mg_target_nodes m') = map (snd \<circ> snd) xs"
    using chosen [OF assms(1-3,9,4), of pid] unfolding xs_def by blast
  let ?l = "m\<lparr>mg_pid := pid, mg_len := length hot, mg_hot_pages := overwrite hot (mg_hot_pages m),
      mg_sample_counts := overwrite counts (mg_sample_counts m)\<rparr>"
  have cur: "get_current_nodes (me_sys E) (?l, k) = Inr (0, loaded pid hot counts st m, k1)"
    using assms(4,7-9) sb by (simp add: get_current_nodes_def sys_move_pages_def loaded_def)
  have start: "mg_move_pages E pid hot counts (m, f, k) =
      rbind (mg_do_move E (?l, f, k)) (\<lambda>(moved, m, f, k).
          Inr (moved, m\<lparr>nr_moved_page := nr_moved_page m + of_nat moved\<rparr>, f, k))"
    using assms(3,4) sb by (simp add: mg_move_pages_def)
  obtain mt where mt: "get_target_nodes (me_numa E) (loaded pid hot counts st m) = Inr mt"
      "mg_filter (me_cfg E) (me_pmu E) mt = Inr m'" using ch by auto
  show ?thesis
  proof (cases "xs = []")
    case True
    then have "mg_do_move E (?l, f, k) = Inr (0, m', f, k1)"
      using assms(5,6) cur mt m'(1) by (simp add: mg_do_move_def)
    then show ?thesis using True start m'(3,4)
      by (simp add: moved_pages_def failed_pages_def filter_pages_def same_buffers_def)
  next
    case False
    let ?m = "m'\<lparr>mg_migrate_status := overwrite st2 (mg_migrate_status m')\<rparr>"
    have lx: "length xs \<le> n"
      using candidates_length [of "me_numa E" hot counts st] length_filter_le [of _ "candidates (me_numa E) hot counts st"] assms(4)
      unfolding xs_def by (meson order_trans)
    have mv: "sys_move_pages (me_sys E) (mg_pid m') (mg_len m') (mg_hot_pages m') (Some (mg_target_nodes m'))
        (mg_migrate_status m') k1 = Inr (0, overwrite st2 (mg_migrate_status m'), k2)"
      using m' assms(11-13) by (simp add: sys_move_pages_def)
    have "fold (moved_step E ?m) [0..<length xs] (0, f) =
        (moved_pages xs st2, filter_pages (me_lib E) pid (failed_pages xs st2) f)"
      using account_moves [OF m'(5,6,4) lx assms(13), of E f] m'(2) by simp
    then have "mg_do_move E (?l, f, k) =
        Inr (moved_pages xs st2, ?m, filter_pages (me_lib E) pid (failed_pages xs st2) f, k2)"
      using False assms(5,6) cur mt m'(1) mv by (simp add: mg_do_move_def)
    then show ?thesis using False start m'(3,4) by (simp add: same_buffers_def)
  qed
qed

section \<open>The batches fit\<close>

text \<open>The system call fails only as it does for a process that is gone or a kernel thread.\<close>

definition sys_soft :: "'k move_call \<Rightarrow> bool" where
  "sys_soft sys \<longleftrightarrow> (\<forall>pid as ts k r e st k'. sys pid as ts k = ((r, e, st), k') \<longrightarrow> r < 0 \<longrightarrow> e = ESRCH \<or> e = MOVE_EINVAL)"

lemma sys_move_pages_soft:
  assumes "sys_soft sys"
  shows "\<exists>r st' k'. sys_move_pages sys pid n as ts st k = Inr (r, st', k') \<and> length st' = length st"
proof -
  obtain r e new k' where "sys pid (take n as) (map_option (take n) ts) k = ((r, e, new), k')" by (metis surj_pair)
  moreover have "r < 0 \<Longrightarrow> e = ESRCH \<or> e = MOVE_EINVAL" using assms calculation unfolding sys_soft_def by blast
  ultimately show ?thesis by (auto simp: sys_move_pages_def Let_def)
qed

lemma choose_returns:
  assumes "env_ok E" and "same_buffers n m" and "mg_len m \<le> n"
  shows "\<exists>mt m'. get_target_nodes (me_numa E) m = Inr mt \<and> mg_filter (me_cfg E) (me_pmu E) mt = Inr m' \<and>
    same_buffers n m' \<and> mg_len m' \<le> mg_len m \<and> nr_moved_page m' = nr_moved_page m"
proof -
  let ?xs = "concat (map (candidate_at (me_numa E) m) [0..<mg_len m])"
  let ?ys = "filter (is_hot (me_cfg E) (me_pmu E)) ?xs"
  have "length ?xs \<le> length [0..<mg_len m]" by (rule length_concat_le) (rule candidate_at_le)
  then have lx: "length ?xs \<le> mg_len m" by simp
  then have lx': "length ?xs \<le> n" using assms(3) by linarith
  have ly: "length ?ys \<le> length ?xs" by (rule length_filter_le)
  have "\<exists>nid. promote_id (me_numa E) nid = Some (snd (snd x))" if "x \<in> set ?xs" for x
    using that by (auto simp: candidate_at_def split: option.splits)
  then have known: "\<exists>p. pmu_get_node (me_pmu E) (snd (snd x)) = Inr p" if "x \<in> set ?xs" for x
    using promote_id_known [OF assms(1)] that by blast
  have "get_target_nodes (me_numa E) m = Inr ((put_candidates ?xs m)\<lparr>mg_len := length ?xs\<rparr>)"
    using get_target_nodes_eq [OF assms] by (simp add: Let_def)
  moreover have "mg_filter (me_cfg E) (me_pmu E) ((put_candidates ?xs m)\<lparr>mg_len := length ?xs\<rparr>) =
      Inr ((put_candidates ?ys (put_candidates ?xs m))\<lparr>mg_len := length ?ys\<rparr>)"
    using mg_filter_eq [OF assms(2) lx' known] by (simp add: Let_def)
  moreover have "same_buffers n ((put_candidates ?ys (put_candidates ?xs m))\<lparr>mg_len := length ?ys\<rparr>)"
    using same_put [OF same_put [OF assms(2) lx'], of ?ys] lx' ly by (simp add: same_buffers_def)
  moreover have "nr_moved_page (put_candidates ?ys (put_candidates ?xs m)) = nr_moved_page m" by (simp add: put_candidates_def)
  moreover have "mg_len ((put_candidates ?ys (put_candidates ?xs m))\<lparr>mg_len := length ?ys\<rparr>) \<le> mg_len m"
    using order_trans [OF ly lx] by simp
  moreover have "nr_moved_page ((put_candidates ?ys (put_candidates ?xs m))\<lparr>mg_len := length ?ys\<rparr>) = nr_moved_page m"
    using calculation(4) by simp
  ultimately show ?thesis by blast
qed

lemma mg_do_move_returns:
  assumes "env_ok E" and "sys_soft (me_sys E)" and "same_buffers n m" and "mg_len m \<le> n"
  shows "\<exists>moved m' f' k'. mg_do_move E (m, f, k) = Inr (moved, m', f', k') \<and> same_buffers n m' \<and>
    nr_moved_page m' = nr_moved_page m"
proof (cases "mg_pid m = 0 \<or> mg_len m = 0")
  case True
  then show ?thesis using assms(3) by (simp add: mg_do_move_def)
next
  case False
  obtain r st k1 where c: "sys_move_pages (me_sys E) (mg_pid m) (mg_len m) (mg_hot_pages m) None (mg_migrate_status m) k = Inr (r, st, k1)"
      "length st = length (mg_migrate_status m)"
    using sys_move_pages_soft [OF assms(2)] by blast
  let ?m = "m\<lparr>mg_migrate_status := st\<rparr>"
  have cur: "get_current_nodes (me_sys E) (m, k) = Inr (r, ?m, k1)" using c by (simp add: get_current_nodes_def)
  have sb: "same_buffers n ?m" using assms(3) c(2) by (simp add: same_buffers_def)
  obtain mt m' where m': "get_target_nodes (me_numa E) ?m = Inr mt" "mg_filter (me_cfg E) (me_pmu E) mt = Inr m'"
      "same_buffers n m'" "nr_moved_page m' = nr_moved_page m"
    using choose_returns [OF assms(1) sb] assms(4) by auto
  obtain r2 st2 k2 where c2: "sys_move_pages (me_sys E) (mg_pid m') (mg_len m') (mg_hot_pages m') (Some (mg_target_nodes m'))
      (mg_migrate_status m') k1 = Inr (r2, st2, k2)" "length st2 = length (mg_migrate_status m')"
    using sys_move_pages_soft [OF assms(2)] by blast
  obtain moved f' where mv: "fold (moved_step E (m'\<lparr>mg_migrate_status := st2\<rparr>)) [0..<mg_len m'] (0, f) = (moved, f')" by fastforce
  show ?thesis
    using False cur m' c2 sb mv by (auto simp: mg_do_move_def same_buffers_def Let_def)
qed

lemma mg_move_pages_returns:
  assumes "env_ok E" and "sys_soft (me_sys E)" and "same_buffers n m" and "length hot \<le> n" and "length counts = length hot"
  shows "\<exists>moved m' f' k'. mg_move_pages E pid hot counts (m, f, k) = Inr (moved, m', f', k') \<and> same_buffers n m' \<and>
    nr_moved_page m' = nr_moved_page m + of_nat moved"
proof -
  let ?l = "m\<lparr>mg_pid := pid, mg_len := length hot, mg_hot_pages := overwrite hot (mg_hot_pages m),
      mg_sample_counts := overwrite counts (mg_sample_counts m)\<rparr>"
  have "same_buffers n ?l" using assms(3) by (simp add: same_buffers_def)
  then obtain moved m' f' k' where "mg_do_move E (?l, f, k) = Inr (moved, m', f', k')" "same_buffers n m'"
      "nr_moved_page m' = nr_moved_page m"
    using mg_do_move_returns [OF assms(1,2), of n ?l f k] assms(4) by auto
  then show ?thesis using assms(3-5) by (simp add: mg_move_pages_def same_buffers_def)
qed

definition batch_inv :: "nat \<Rightarrow> u32 \<Rightarrow> 'k batching \<Rightarrow> bool" where
  "batch_inv n nr b \<longleftrightarrow> same_buffers n (fst (bt_state b)) \<and> length (bt_counts b) = length (bt_pages b) \<and>
     nr_moved_page (fst (bt_state b)) = nr + of_nat (bt_moved b)"

lemma flush_batch_returns:
  assumes "env_ok E" and "sys_soft (me_sys E)" and "batch_inv n nr b" and "length (bt_pages b) \<le> n"
  shows "\<exists>b'. flush_batch E b = Inr b' \<and> batch_inv n nr b' \<and> bt_pages b' = []"
proof -
  obtain m f k where s: "bt_state b = (m, f, k)" by (cases "bt_state b")
  obtain moved m' f' k' where "mg_move_pages E (bt_pid b) (bt_pages b) (bt_counts b) (m, f, k) = Inr (moved, m', f', k')"
      "same_buffers n m'" "nr_moved_page m' = nr_moved_page m + of_nat moved"
    using mg_move_pages_returns [OF assms(1,2), of n m "bt_pages b" "bt_counts b" "bt_pid b" f k] assms(3,4) s
    by (auto simp: batch_inv_def)
  then show ?thesis using assms(3) s by (simp add: flush_batch_def batch_inv_def)
qed

lemma item_pages_length: "length (item_pages cfg L f item) \<le> 2 ^ npg_shift cfg"
  unfolding item_pages_def by (rule order_trans [OF length_filter_le]) simp

lemma batch_step_returns:
  assumes "env_ok E" and "sys_soft (me_sys E)" and "batch_inv n nr b" and "length (bt_pages b) \<le> n"
  shows "\<exists>b'. batch_step E item b = Inr b' \<and> batch_inv n nr b' \<and>
    length (bt_pages b') \<le> length (bt_pages b) + 2 ^ npg_shift (me_cfg E)"
proof -
  let ?new = "\<lambda>b. b\<lparr>bt_pid := uint (it_pid item)\<rparr>"
  have "\<exists>b1. (if uint (it_pid item) \<noteq> bt_pid b
            then rbind (if bt_pid b \<noteq> 0 then flush_batch E b else Inr b) (\<lambda>b. Inr (?new b)) else Inr b) = Inr b1 \<and>
      batch_inv n nr b1 \<and> length (bt_pages b1) \<le> length (bt_pages b)"
    using flush_batch_returns [OF assms] assms(3) by (auto simp: batch_inv_def)
  then obtain b1 where b1: "(if uint (it_pid item) \<noteq> bt_pid b
            then rbind (if bt_pid b \<noteq> 0 then flush_batch E b else Inr b) (\<lambda>b. Inr (?new b)) else Inr b) = Inr b1"
      "batch_inv n nr b1" "length (bt_pages b1) \<le> length (bt_pages b)" by blast
  have "length (item_pages (me_cfg E) (me_lib E) (fst (snd (bt_state b1))) item) \<le> 2 ^ npg_shift (me_cfg E)"
    by (rule item_pages_length)
  then show ?thesis unfolding batch_step_def b1(1) using b1(2,3) by (simp add: batch_inv_def Let_def)
qed

lemma batch_steps_return:
  assumes "env_ok E" and "sys_soft (me_sys E)" and "batch_inv n nr b"
    and "length (bt_pages b) + length its * 2 ^ npg_shift (me_cfg E) \<le> n"
  shows "\<exists>b'. rfold (batch_step E) its b = Inr b' \<and> batch_inv n nr b' \<and> length (bt_pages b') \<le> n"
  using assms(3,4)
proof (induction its arbitrary: b)
  case (Cons item its)
  obtain b' where b': "batch_step E item b = Inr b'" "batch_inv n nr b'"
      "length (bt_pages b') \<le> length (bt_pages b) + 2 ^ npg_shift (me_cfg E)"
    using batch_step_returns [OF assms(1,2) Cons.prems(1)] Cons.prems(2) by auto
  then show ?case using Cons.IH [OF b'(2)] Cons.prems(2) by (auto simp: algebra_simps)
qed simp

lemma mg_init_buffers: "same_buffers (nat (move_pages_max cfg)) (mg_init cfg m)"
  by (auto simp: same_buffers_def mg_init_def resize_def Let_def min_def)

lemma unat_small_int: "0 \<le> x \<Longrightarrow> x < 2 ^ 31 \<Longrightarrow> unat (word_of_int x :: u32) = nat x"
  by (simp add: unat_eq_nat_uint uint_word_of_int)

lemma hot_items_fit:
  assumes "0 \<le> move_pages_max cfg" and "move_pages_max cfg < 2 ^ 31"
  shows "length (cmsk_hot_pages cm (word_of_int (drop_bit (npg_shift cfg) (move_pages_max cfg)))) * 2 ^ npg_shift cfg
           \<le> nat (move_pages_max cfg)"
proof -
  let ?q = "drop_bit (npg_shift cfg) (move_pages_max cfg)" and ?s = "npg_shift cfg"
  have q: "?q = move_pages_max cfg div 2 ^ ?s" by (simp add: drop_bit_eq_div)
  have "0 \<le> ?q" using assms(1) q by (simp add: pos_imp_zdiv_nonneg_iff)
  moreover have "?q \<le> move_pages_max cfg" using zdiv_mono2 [of "move_pages_max cfg" 1 "2 ^ ?s"] assms(1) q by simp
  ultimately have "unat (word_of_int ?q :: u32) = nat ?q"
    using assms(2) by (intro unat_small_int) linarith+
  moreover have "unat (min (word_of_int ?q) (ah_len (table cm))) \<le> unat (word_of_int ?q :: u32)"
    by (simp only: word_le_nat_alt [symmetric] min.cobounded1)
  ultimately have "length (cmsk_hot_pages cm (word_of_int ?q)) \<le> nat ?q"
    by (simp add: cmsk_hot_pages_def min.coboundedI2)
  then have "length (cmsk_hot_pages cm (word_of_int ?q)) * 2 ^ ?s \<le> nat ?q * 2 ^ ?s" by (rule mult_le_mono1)
  also have "nat ?q * 2 ^ ?s \<le> nat (move_pages_max cfg)"
  proof -
    have "?q * 2 ^ ?s \<le> move_pages_max cfg" unfolding q by (simp add: minus_mod_eq_div_mult [symmetric])
    then show ?thesis using \<open>0 \<le> ?q\<close> by (simp add: nat_mult_distrib nat_power_eq le_nat_iff)
  qed
  finally show ?thesis .
qed

text \<open>
  C40: Migrating the hot pages of an interval never writes past the end of the buffers: with a topology
  and counters in order and a system call that fails only softly it returns, whatever the counted
  its, their processes and the granularity are, since a batch holds at most as many pages as the
  buffers that the initialisation sets up, and the statistics grow by the number of pages it
  says it moved.
\<close>

theorem migrate_fits_buffers:
  assumes "env_ok E" and "sys_soft (me_sys E)" and "0 \<le> move_pages_max (me_cfg E)" and "move_pages_max (me_cfg E) < 2 ^ 31"
    and "same_buffers (nat (move_pages_max (me_cfg E))) m"
  shows "(\<exists>moved m' f' k'. hmd_migrate_pages E cm (m, f, k) = Inr (moved, m', f', k') \<and>
      same_buffers (nat (move_pages_max (me_cfg E))) m' \<and> nr_moved_page m' = nr_moved_page m + of_nat moved) \<and>
    same_buffers (nat (move_pages_max (me_cfg E))) (mg_init (me_cfg E) m0)"
proof -
  let ?n = "nat (move_pages_max (me_cfg E))"
  let ?its = "cmsk_hot_pages cm (word_of_int (drop_bit (npg_shift (me_cfg E)) (move_pages_max (me_cfg E))))"
  let ?b = "\<lparr>bt_pid = 0, bt_pages = [], bt_counts = [], bt_moved = 0, bt_state = (m, f, k)\<rparr>"
  have inv: "batch_inv ?n (nr_moved_page m) ?b" using assms(5) by (simp add: batch_inv_def)
  have "length (bt_pages ?b) + length ?its * 2 ^ npg_shift (me_cfg E) \<le> ?n"
    using hot_items_fit [OF assms(3,4)] by simp
  then obtain b1 where b1: "rfold (batch_step E) ?its ?b = Inr b1" "batch_inv ?n (nr_moved_page m) b1" "length (bt_pages b1) \<le> ?n"
    using batch_steps_return [OF assms(1,2) inv] by blast
  obtain b2 where b2: "flush_batch E b1 = Inr b2" "batch_inv ?n (nr_moved_page m) b2"
    using flush_batch_returns [OF assms(1,2) b1(2,3)] by blast
  have "hmd_migrate_pages E cm (m, f, k) = (if ?its = [] then Inr (0, m, f, k) else Inr (bt_moved b2, bt_state b2))"
    unfolding hmd_migrate_pages_def Let_def using b1(1) b2(1) by simp
  then show ?thesis using b2(2) assms(5) mg_init_buffers
    by (cases "bt_state b2") (auto simp: batch_inv_def)
qed

section \<open>Examples\<close>

text \<open>One DRAM and one PMEM node; page 0x1000 is sampled often enough, page 0x2000 is not.\<close>

definition dram_pmem :: numa_collection where
  "dram_pmem =
     \<lparr>nr_possible_node = 2, nr_possible_cpu = 1, cpu_node_map = [0], node_map = [Some 0, Some 1], nodes = [0, 1],
      dram_nodes = [0], pmem_nodes = [1],
      node_heap = [0 \<mapsto> new_numa_node 0 NUMA_NODE_DRAM,
                   1 \<mapsto> (new_numa_node 1 NUMA_NODE_PMEM)\<lparr>promote_target := Some 0\<rparr>], next_node = 2\<rparr>"

lemma dram_pmem_inv: "numa_inv dram_pmem"
  by (auto simp: numa_inv_def dram_pmem_def node_ok_def has_type_def new_numa_node_def less_Suc_eq nth_Cons' numeral_2_eq_2)

definition busy_state :: pmu_state where
  "busy_state = small_state\<lparr>pmem_sample_period := 10,
     pmu_node_map := [Some ((PmuNode_ctor 0)\<lparr>dram_count_avg := 4\<rparr>), Some (PmuNode_ctor 1)]\<rparr>"

definition small_env :: "nat move_env" where
  "small_env =
     \<lparr>me_sys = (\<lambda>pid as ts k. ((0, 0, case ts of None \<Rightarrow> map (\<lambda>_. 1) as | Some ts \<Rightarrow> ts), k + 1)),
      me_cfg = default_config, me_pmu = busy_state, me_numa = dram_pmem,
      me_lib = \<lparr>dec_begin = \<lambda>f. None, end_entry = ((0, 0), 0)\<rparr>\<rparr>"

lemma small_env_ok: "env_ok small_env"
proof -
  have "pmu_covers dram_pmem busy_state"
    by (auto simp: pmu_covers_def node_ids_def dram_pmem_def busy_state_def small_state_def pmu_get_node_def new_numa_node_def
        split: if_splits)
  then show ?thesis using dram_pmem_inv
    by (auto simp: env_ok_def small_env_def) (auto simp: dram_pmem_def new_numa_node_def is_pmem_def split: if_splits)
qed

definition small_mg :: migration_state where
  "small_mg = mg_init default_config
     \<lparr>mg_pid = 0, mg_len = 0, mg_hot_pages = [], mg_sample_counts = [], mg_target_nodes = [], mg_migrate_status = [],
      nr_moved_page = 0\<rparr>"

lemma small_mg_buffers: "same_buffers 1024 small_mg"
  using mg_init_buffers [of default_config] by (simp add: small_mg_def default_config_def)

lemma small_env_fields: "me_cfg small_env = default_config" "me_pmu small_env = busy_state" "me_numa small_env = dram_pmem"
  by (simp_all add: small_env_def)

lemma small_sys:
  "me_sys small_env pid as ts k = ((0, 0, case ts of None \<Rightarrow> map (\<lambda>_. 1) as | Some ts \<Rightarrow> ts), k + 1)"
  by (simp add: small_env_def)

lemma small_candidates:
  "filter (is_hot default_config busy_state) (candidates dram_pmem [4096, 8192] [5, 3] [1, 1]) = [(4096, 5, 0)]"
  by (simp add: candidates_def promote_id_def is_valid_nid_def node_of_def get_node_def deref_def dram_pmem_def new_numa_node_def
      is_pmem_def is_hot_def is_page_hot_in_target_dram_node_def pmu_get_node_def busy_state_def small_state_def
      default_config_def upt_rec)

theorem batch_moves_hot_pages_witness:
  "\<exists>m'. mg_move_pages small_env 7 [4096, 8192] [5, 3] (small_mg, [], 0) = Inr (1, m', [], 2)"
proof -
  have "me_sys small_env 7 [4096, 8192] None 0 = ((0, 0, [1, 1]), 1)" by (simp add: small_sys)
  from batch_moves_hot_pages [OF small_env_ok small_mg_buffers _ _ _ _ this, of "[5, 3]" 0 0 "[0]" 2 "[]"]
  have "\<exists>m'. mg_move_pages small_env 7 [4096, 8192] [5, 3] (small_mg, [], 0) = Inr (1, m', [], 2) \<and>
      nr_moved_page m' = nr_moved_page small_mg + 1 \<and> same_buffers 1024 m'"
    by (simp add: small_env_fields small_sys small_candidates moved_pages_def failed_pages_def filter_pages_def)
  then show ?thesis by blast
qed

theorem migrate_fits_buffers_witness:
  "\<exists>moved m' f' k'. hmd_migrate_pages small_env small_cmsk (small_mg, [], 0) = Inr (moved, m', f', k')"
proof -
  have soft: "sys_soft (me_sys small_env)" by (simp add: sys_soft_def small_sys)
  have max: "move_pages_max (me_cfg small_env) = 1024" by (simp add: small_env_fields default_config_def)
  have "same_buffers (nat (move_pages_max (me_cfg small_env))) small_mg" using small_mg_buffers by (simp add: max)
  from migrate_fits_buffers [OF small_env_ok soft _ _ this] show ?thesis unfolding max by force
qed

end
