(* ===== verification/Options.thy ===== *)
theory Options
  imports Idle_Pages
begin

text \<open>
  The options of the tools: \<open>Option.h\<close>, \<open>Option.cc\<close>, \<open>OptionParser.h\<close>, \<open>OptionParser.cc\<close> and
  \<open>parse_cmdline\<close> of \<open>sys-refs.cc\<close> and \<open>task-refs.cc\<close>. The YAML library, \<open>getopt_long\<close> and
  \<open>atof\<close> are parameters: a node is a value of an arbitrary type \<open>'n\<close>, a floating-point number one
  of type \<open>'f\<close>. A parser that can throw gives the flag of the exception together with the options
  it has changed until then.
\<close>

section \<open>Policies and options\<close>

datatype migrate_what = MIGRATE_NONE | MIGRATE_HOT | MIGRATE_COLD | MIGRATE_BOTH | MIGRATE_END

record policy =
  pol_pid :: int
  pol_name :: string
  pol_migrate_what :: migrate_what
  pol_placement :: placement
  pol_dump_distribution :: bool

definition Policy_ctor :: policy where
  "Policy_ctor =
     \<lparr>pol_pid = - 1, pol_name = '''', pol_migrate_what = MIGRATE_NONE, pol_placement = PLACEMENT_NONE,
      pol_dump_distribution = False\<rparr>"

text \<open>The strings that describe the nodes of the machine, in the old and the new form.\<close>

record numa_strings =
  opt_numa_dram_list :: string
  opt_numa_pmem_list :: string
  opt_pmem_dram_map :: string

definition numa_config_is_valid :: "numa_strings \<Rightarrow> bool" where
  "numa_config_is_valid c \<longleftrightarrow>
     length (opt_numa_dram_list c) \<noteq> 0 \<or> length (opt_numa_pmem_list c) \<noteq> 0 \<or> length (opt_pmem_dram_map c) \<noteq> 0"

type_synonym node_entry = "string \<rightharpoonup> string"

record 'f options =
  opt_debug_level :: int
  opt_pid :: int
  opt_initial_interval :: 'f
  opt_interval :: 'f
  opt_sleep_secs :: 'f
  opt_nr_scans :: int
  opt_nr_scan_rounds :: int
  opt_scan_period :: int
  opt_max_stable_page_sleep :: int
  opt_nr_walks :: int
  opt_nr_loops :: int
  opt_dram_percent :: int
  opt_use_free_dram_first :: bool
  opt_hot_min_refs :: int
  opt_cold_max_refs :: int
  opt_exit_on_stabilized :: int
  opt_exit_on_exceeded :: bool
  opt_dump_options :: bool
  opt_dump_processes :: bool
  opt_hugetlb :: int
  opt_thp :: int
  opt_max_threads :: int
  opt_split_rss_size :: string
  opt_bandwidth_mbps :: 'f
  opt_migrate_what :: migrate_what
  opt_output_file :: string
  opt_config_file :: string
  opt_numa_hw_config :: numa_strings
  opt_numa_hw_config_v2 :: "node_entry list"
  opt_debug_move_pages :: int
  opt_show_numa_stats :: bool
  opt_anti_thrash_threshold :: int
  opt_one_period_migration_size :: int
  opt_exit_on_converged :: bool
  opt_interval_scale :: int
  opt_progressive_profile :: string
  opt_policies :: "policy list"

text \<open>The floating-point constants of the defaults.\<close>

definition Option_ctor :: "'f \<Rightarrow> 'f \<Rightarrow> 'f \<Rightarrow> 'f options" where
  "Option_ctor zero one tenth =
     \<lparr>opt_debug_level = 0, opt_pid = - 1, opt_initial_interval = tenth, opt_interval = zero,
      opt_sleep_secs = one, opt_nr_scans = 3, opt_nr_scan_rounds = 2, opt_scan_period = 1,
      opt_max_stable_page_sleep = 1, opt_nr_walks = 0, opt_nr_loops = 0, opt_dram_percent = 0,
      opt_use_free_dram_first = False, opt_hot_min_refs = - 1, opt_cold_max_refs = - 1,
      opt_exit_on_stabilized = 0, opt_exit_on_exceeded = False, opt_dump_options = False,
      opt_dump_processes = False, opt_hugetlb = 0, opt_thp = 0, opt_max_threads = 0,
      opt_split_rss_size = '''', opt_bandwidth_mbps = zero, opt_migrate_what = MIGRATE_HOT,
      opt_output_file = '''', opt_config_file = '''',
      opt_numa_hw_config = \<lparr>opt_numa_dram_list = '''', opt_numa_pmem_list = '''', opt_pmem_dram_map = ''''\<rparr>,
      opt_numa_hw_config_v2 = [], opt_debug_move_pages = 0, opt_show_numa_stats = False,
      opt_anti_thrash_threshold = 2, opt_one_period_migration_size = 256 * 1024,
      opt_exit_on_converged = False, opt_interval_scale = 100, opt_progressive_profile = '''',
      opt_policies = []\<rparr>"

section \<open>Names\<close>

definition bool_name_map :: "string \<rightharpoonup> bool" where
  "bool_name_map = [''true'' \<mapsto> True, ''yes'' \<mapsto> True, ''false'' \<mapsto> False, ''no'' \<mapsto> False]"

definition migrate_name_map :: "string \<rightharpoonup> migrate_what" where
  "migrate_name_map =
     [''none'' \<mapsto> MIGRATE_NONE, ''hot'' \<mapsto> MIGRATE_HOT, ''cold'' \<mapsto> MIGRATE_COLD, ''both'' \<mapsto> MIGRATE_BOTH]"

definition placement_name_map :: "string \<rightharpoonup> placement" where
  "placement_name_map =
     [''none'' \<mapsto> PLACEMENT_NONE, ''dram'' \<mapsto> PLACEMENT_DRAM, ''pmem'' \<mapsto> PLACEMENT_PMEM]"

text \<open>The values of the enumerations, in their order; \<open>MIGRATE_BOTH\<close> is \<open>1 | 2\<close>.\<close>

definition migrate_enum :: "migrate_what list" where
  "migrate_enum = [MIGRATE_NONE, MIGRATE_HOT, MIGRATE_COLD, MIGRATE_BOTH, MIGRATE_END]"

definition placement_enum :: "placement list" where
  "placement_enum = [PLACEMENT_NONE, PLACEMENT_DRAM, PLACEMENT_PMEM, PLACEMENT_END]"

definition MIGRATE_END_value :: int where "MIGRATE_END_value = 4"
definition PLACEMENT_END_value :: int where "PLACEMENT_END_value = 3"

definition parse_str_from_map :: "(string \<rightharpoonup> 'v) \<Rightarrow> string \<Rightarrow> 'v \<Rightarrow> int \<times> 'v" where
  "parse_str_from_map m name val = (case m name of Some v \<Rightarrow> (0, v) | None \<Rightarrow> (- 1, val))"

text \<open>\<open>cast\<close> is the conversion \<open>(Tval) m\<close>.\<close>

definition parse_name_map ::
    "(string \<rightharpoonup> 'v) \<Rightarrow> (int \<Rightarrow> 'v) \<Rightarrow> string \<Rightarrow> 'v \<Rightarrow> int \<Rightarrow> int \<times> 'v" where
  "parse_name_map m cast name val max_val =
     (if is_digit (char_at name 0) then
        let n = atoi name in if n \<ge> max_val then (- 1, val) else (0, cast n)
      else let (r, v) = parse_str_from_map m name val
           in if r < 0 then (- 2, v) else (0, v))"

definition parse_migrate_name :: "string \<Rightarrow> migrate_what" where
  "parse_migrate_name name =
     snd (parse_name_map migrate_name_map (\<lambda>n. migrate_enum ! nat n) name MIGRATE_NONE MIGRATE_END_value)"

definition parse_placement_name :: "string \<Rightarrow> placement \<Rightarrow> placement" where
  "parse_placement_name name val =
     snd (parse_name_map placement_name_map (\<lambda>n. placement_enum ! nat n) name val PLACEMENT_END_value)"

definition parse_bool_name :: "string \<Rightarrow> bool \<Rightarrow> bool" where
  "parse_bool_name name val = snd (parse_name_map bool_name_map (\<lambda>n. n \<noteq> 0) name val 2)"

section \<open>Setting options\<close>

definition set_dram_percent :: "int \<Rightarrow> 'f options \<Rightarrow> int \<times> 'f options" where
  "set_dram_percent dp op =
     (if dp < 0 \<or> dp > 100 then (- ERANGE, op) else (0, op\<lparr>opt_dram_percent := dp\<rparr>))"

definition add_policy :: "policy \<Rightarrow> 'f options \<Rightarrow> int \<times> 'f options" where
  "add_policy p op =
     (if pol_pid p < 0 \<and> pol_name p = '''' then (- 1, op)
      else (0, op\<lparr>opt_policies := opt_policies op @ [p]\<rparr>))"

section \<open>The configuration file\<close>

text \<open>
  What the parser uses of the YAML library. \<open>None\<close> is an exception. \<open>y_entries\<close> are the pairs a
  \<open>const_iterator\<close> yields, \<open>y_elements\<close> the members of a sequence by index, \<open>y_get\<close> is the
  subscript by a key.
\<close>

record ('n, 'f) yaml_ops =
  y_defined :: "'n \<Rightarrow> bool"
  y_is_map :: "'n \<Rightarrow> bool"
  y_is_sequence :: "'n \<Rightarrow> bool"
  y_entries :: "'n \<Rightarrow> ('n \<times> 'n) list"
  y_elements :: "'n \<Rightarrow> 'n list"
  y_get :: "'n \<Rightarrow> string \<Rightarrow> 'n option"
  y_string :: "'n \<Rightarrow> string option"
  y_int :: "'n \<Rightarrow> int option"
  y_float :: "'n \<Rightarrow> 'f option"

text \<open>A member that \<open>get_value\<close> assigns: the new options, or \<open>None\<close> when the conversion throws.\<close>

definition member :: "('n \<Rightarrow> 'v option) \<Rightarrow> ('v \<Rightarrow> 'o \<Rightarrow> 'o) \<Rightarrow> 'n \<Rightarrow> 'o \<Rightarrow> 'o option" where
  "member as set_to n op = map_option (\<lambda>v. set_to v op) (as n)"

definition option_members :: "('n, 'f) yaml_ops \<Rightarrow> (string \<times> ('n \<Rightarrow> 'f options \<Rightarrow> 'f options option)) list" where
  "option_members Y =
     [(''nr_scans'', member (y_int Y) (\<lambda>v. opt_nr_scans_update (\<lambda>_. v))),
      (''nr_scan_rounds'', member (y_int Y) (\<lambda>v. opt_nr_scan_rounds_update (\<lambda>_. v))),
      (''scan_period'', member (y_int Y) (\<lambda>v. opt_scan_period_update (\<lambda>_. v))),
      (''interval'', member (y_float Y) (\<lambda>v. opt_interval_update (\<lambda>_. v))),
      (''initial_interval'', member (y_float Y) (\<lambda>v. opt_initial_interval_update (\<lambda>_. v))),
      (''sleep'', member (y_float Y) (\<lambda>v. opt_sleep_secs_update (\<lambda>_. v))),
      (''loop'', member (y_int Y) (\<lambda>v. opt_nr_loops_update (\<lambda>_. v))),
      (''max_threads'', member (y_int Y) (\<lambda>v. opt_max_threads_update (\<lambda>_. v))),
      (''split_rss_size'', member (y_string Y) (\<lambda>v. opt_split_rss_size_update (\<lambda>_. v))),
      (''bandwidth_mbps'', member (y_float Y) (\<lambda>v. opt_bandwidth_mbps_update (\<lambda>_. v))),
      (''dram_percent'', member (y_int Y) (\<lambda>v. opt_dram_percent_update (\<lambda>_. v))),
      (''output'', member (y_string Y) (\<lambda>v. opt_output_file_update (\<lambda>_. v))),
      (''hugetlb'', member (y_int Y) (\<lambda>v. opt_hugetlb_update (\<lambda>_. v))),
      (''thp'', member (y_int Y) (\<lambda>v. opt_thp_update (\<lambda>_. v))),
      (''exit_on_stabilized'', member (y_int Y) (\<lambda>v. opt_exit_on_stabilized_update (\<lambda>_. v))),
      (''numa_dram_nodes'', member (y_string Y) (\<lambda>v. opt_numa_hw_config_update (opt_numa_dram_list_update (\<lambda>_. v)))),
      (''numa_pmem_nodes'', member (y_string Y) (\<lambda>v. opt_numa_hw_config_update (opt_numa_pmem_list_update (\<lambda>_. v)))),
      (''numa_peer_nodes'', member (y_string Y) (\<lambda>v. opt_numa_hw_config_update (opt_pmem_dram_map_update (\<lambda>_. v)))),
      (''debug_move_pages'', member (y_int Y) (\<lambda>v. opt_debug_move_pages_update (\<lambda>_. v))),
      (''anti_thrash_threshold'', member (y_int Y) (\<lambda>v. opt_anti_thrash_threshold_update (\<lambda>_. v))),
      (''one_period_migration_size'', member (y_int Y) (\<lambda>v. opt_one_period_migration_size_update (\<lambda>_. v))),
      (''interval_scale'', member (y_int Y) (\<lambda>v. opt_interval_scale_update (\<lambda>_. v))),
      (''progressive_profile'', member (y_string Y) (\<lambda>v. opt_progressive_profile_update (\<lambda>_. v))),
      (''max_stable_page_sleep'', member (y_int Y) (\<lambda>v. opt_max_stable_page_sleep_update (\<lambda>_. v))),
      (''dump_options'', member (y_string Y) (\<lambda>v. opt_dump_options_update (parse_bool_name v))),
      (''dump_processes'', member (y_string Y) (\<lambda>v. opt_dump_processes_update (parse_bool_name v))),
      (''exit_on_exceeded'', member (y_string Y) (\<lambda>v. opt_exit_on_exceeded_update (parse_bool_name v))),
      (''show_numa_stats'', member (y_string Y) (\<lambda>v. opt_show_numa_stats_update (parse_bool_name v))),
      (''exit_on_converged'', member (y_string Y) (\<lambda>v. opt_exit_on_converged_update (parse_bool_name v))),
      (''use_free_dram_first'', member (y_string Y) (\<lambda>v. opt_use_free_dram_first_update (parse_bool_name v)))]"

text \<open>A loop over the pairs of a node whose body may throw; the state is kept.\<close>

fun throwing_loop :: "('x \<Rightarrow> 's \<Rightarrow> bool \<times> 's) \<Rightarrow> 'x list \<Rightarrow> 's \<Rightarrow> bool \<times> 's" where
  "throwing_loop f [] s = (False, s)"
| "throwing_loop f (x # xs) s = (let (threw, s) = f x s in if threw then (True, s) else throwing_loop f xs s)"

definition parse_one_numa_node :: "('n, 'f) yaml_ops \<Rightarrow> 'n \<Rightarrow> node_entry \<Rightarrow> bool \<times> node_entry" where
  "parse_one_numa_node Y n entry =
     throwing_loop (\<lambda>(k, v) entry.
         case (y_string Y k, y_string Y v) of
           (Some k, Some v) \<Rightarrow> (False, entry(k \<mapsto> v))
         | _ \<Rightarrow> (True, entry))
       (y_entries Y n) entry"

definition parse_numa_nodes :: "('n, 'f) yaml_ops \<Rightarrow> 'n \<Rightarrow> 'f options \<Rightarrow> bool \<times> 'f options" where
  "parse_numa_nodes Y n =
     throwing_loop (\<lambda>(k, v) op.
         case y_string Y k of
           None \<Rightarrow> (True, op)
         | Some ident \<Rightarrow>
             let (threw, entry) = parse_one_numa_node Y v Map.empty
             in if threw then (True, op)
                else (False, op\<lparr>opt_numa_hw_config_v2 := opt_numa_hw_config_v2 op @ [entry(''id'' \<mapsto> ident)]\<rparr>))
       (y_entries Y n)"

definition parse_option_entry :: "('n, 'f) yaml_ops \<Rightarrow> 'n \<times> 'n \<Rightarrow> 'f options \<Rightarrow> bool \<times> 'f options" where
  "parse_option_entry Y kv op =
     (case y_string Y (fst kv) of
        None \<Rightarrow> (True, op)
      | Some key \<Rightarrow>
          (case map_of (option_members Y) key of
             Some assign \<Rightarrow> (case assign (snd kv) op of None \<Rightarrow> (True, op) | Some op \<Rightarrow> (False, op))
           | None \<Rightarrow> if key = ''numa_nodes'' then parse_numa_nodes Y (snd kv) op else (False, op)))"

text \<open>The result \<open>None\<close> is an exception.\<close>

definition parse_option :: "('n, 'f) yaml_ops \<Rightarrow> 'n \<Rightarrow> 'f options \<Rightarrow> int option \<times> 'f options" where
  "parse_option Y n op =
     (if \<not> y_defined Y n then (Some (- 1), op)
      else if \<not> y_is_map Y n then (Some (- 1), op)
      else let (threw, op) = throwing_loop (parse_option_entry Y) (y_entries Y n) op
           in (if threw then None else Some 0, op))"

definition parse_common_policy :: "('n, 'f) yaml_ops \<Rightarrow> string \<Rightarrow> 'n \<Rightarrow> policy \<Rightarrow> policy option" where
  "parse_common_policy Y key v p =
     (if key = ''migration'' then
        map_option (\<lambda>s. p\<lparr>pol_migrate_what := parse_migrate_name s\<rparr>) (y_string Y v)
      else if key = ''placement'' then
        map_option (\<lambda>s. p\<lparr>pol_placement := parse_placement_name s (pol_placement p)\<rparr>) (y_string Y v)
      else if key = ''dump_distribution'' then
        map_option (\<lambda>s. p\<lparr>pol_dump_distribution := parse_bool_name s (pol_dump_distribution p)\<rparr>) (y_string Y v)
      else Some p)"

definition parse_policy_entry :: "('n, 'f) yaml_ops \<Rightarrow> 'n \<times> 'n \<Rightarrow> policy \<Rightarrow> bool \<times> policy" where
  "parse_policy_entry Y kv p =
     (case y_string Y (fst kv) of
        None \<Rightarrow> (True, p)
      | Some key \<Rightarrow>
          (case (if key = ''pid'' then map_option (\<lambda>i. p\<lparr>pol_pid := i\<rparr>) (y_int Y (snd kv))
                 else if key = ''name'' then map_option (\<lambda>s. p\<lparr>pol_name := s\<rparr>) (y_string Y (snd kv))
                 else parse_common_policy Y key (snd kv) p) of
             None \<Rightarrow> (True, p)
           | Some p \<Rightarrow> (False, p)))"

definition parse_one_policy :: "('n, 'f) yaml_ops \<Rightarrow> 'n \<Rightarrow> 'f options \<Rightarrow> bool \<times> 'f options" where
  "parse_one_policy Y n op =
     (let (threw, p) = throwing_loop (parse_policy_entry Y) (y_entries Y n) Policy_ctor
      in if threw then (True, op) else (False, snd (add_policy p op)))"

definition parse_policies :: "('n, 'f) yaml_ops \<Rightarrow> 'n \<Rightarrow> 'f options \<Rightarrow> int option \<times> 'f options" where
  "parse_policies Y n op =
     (if \<not> y_defined Y n then (Some (- 1), op)
      else if \<not> y_is_sequence Y n then (Some (- 1), op)
      else let (threw, op) = throwing_loop
                 (\<lambda>e op. if \<not> y_is_map Y e then (False, op) else parse_one_policy Y e op) (y_elements Y n) op
           in (if threw then None else Some 0, op))"

text \<open>\<open>load_file\<close> is the document, \<open>None\<close> when reading it throws.\<close>

definition reparse :: "('n, 'f) yaml_ops \<Rightarrow> (string \<Rightarrow> 'n option) \<Rightarrow> 'f options \<Rightarrow> int \<times> 'f options" where
  "reparse Y load_file op =
     (case load_file (opt_config_file op) of
        None \<Rightarrow> (- 1, op)
      | Some config \<Rightarrow>
          (case y_get Y config ''options'' of
             None \<Rightarrow> (- 1, op)
           | Some node \<Rightarrow>
               (case parse_option Y node op of
                  (None, op) \<Rightarrow> (- 1, op)
                | (Some r, op) \<Rightarrow>
                    if r < 0 then (r, op)
                    else (case y_get Y config ''policies'' of
                            None \<Rightarrow> (- 1, op)
                          | Some node \<Rightarrow>
                              (case parse_policies Y node op of
                                 (None, op) \<Rightarrow> (- 1, op)
                               | (Some r, op) \<Rightarrow> (r, op))))))"

definition parse_file :: "('n, 'f) yaml_ops \<Rightarrow> (string \<Rightarrow> 'n option) \<Rightarrow> string \<Rightarrow> 'f options \<Rightarrow> int \<times> 'f options" where
  "parse_file Y load_file filename op = reparse Y load_file (op\<lparr>opt_config_file := filename\<rparr>)"

section \<open>The command lines\<close>

text \<open>
  The options \<open>getopt_long\<close> finds, with their arguments. \<open>usage\<close> and \<open>-r\<close> end the program.
\<close>

definition sys_refs_option ::
    "('n, 'f) yaml_ops \<Rightarrow> (string \<Rightarrow> 'n option) \<Rightarrow> (string \<Rightarrow> 'f) \<Rightarrow> char \<times> string \<Rightarrow> 'f options \<Rightarrow> 'f options run" where
  "sys_refs_option Y load_file atof c op =
     (let arg = snd c in
      if fst c = CHR 0x00 \<or> fst c = CHR ''c'' then Inr (snd (parse_file Y load_file arg op))
      else if fst c = CHR ''s'' then Inr (op\<lparr>opt_sleep_secs := atof arg\<rparr>)
      else if fst c = CHR ''i'' then Inr (op\<lparr>opt_interval := atof arg\<rparr>)
      else if fst c = CHR ''l'' then Inr (op\<lparr>opt_nr_loops := atoi arg\<rparr>)
      else if fst c = CHR ''o'' then Inr (op\<lparr>opt_output_file := arg\<rparr>)
      else if fst c = CHR ''d'' then Inr (op\<lparr>opt_dram_percent := atoi arg\<rparr>)
      else if fst c = CHR ''m'' then Inr (op\<lparr>opt_migrate_what := parse_migrate_name arg\<rparr>)
      else if fst c = CHR ''p'' then Inr (op\<lparr>opt_progressive_profile := arg\<rparr>)
      else if fst c = CHR ''v'' then Inr (op\<lparr>opt_debug_level := opt_debug_level op + 1\<rparr>)
      else Inl Exit_called)"

definition sys_refs_cmdline ::
    "('n, 'f) yaml_ops \<Rightarrow> (string \<Rightarrow> 'n option) \<Rightarrow> (string \<Rightarrow> 'f) \<Rightarrow> (char \<times> string) list \<Rightarrow> 'f options \<Rightarrow>
     'f options run" where
  "sys_refs_cmdline Y load_file atof args op = rfold (sys_refs_option Y load_file atof) args op"

definition task_refs_option :: "(string \<Rightarrow> 'f) \<Rightarrow> char \<times> string \<Rightarrow> 'f options \<Rightarrow> 'f options run" where
  "task_refs_option atof c op =
     (let arg = snd c in
      if fst c = CHR 0x00 then Inr op
      else if fst c = CHR ''p'' then Inr (op\<lparr>opt_pid := atoi arg\<rparr>)
      else if fst c = CHR ''i'' then Inr (op\<lparr>opt_interval := atof arg\<rparr>)
      else if fst c = CHR ''l'' then Inr (op\<lparr>opt_nr_walks := atoi arg\<rparr>)
      else if fst c = CHR ''o'' then Inr (op\<lparr>opt_output_file := arg\<rparr>)
      else if fst c = CHR ''d'' then Inr (op\<lparr>opt_dram_percent := atoi arg\<rparr>)
      else if fst c = CHR ''H'' then Inr (op\<lparr>opt_hot_min_refs := atoi arg\<rparr>)
      else if fst c = CHR ''c'' then Inr (op\<lparr>opt_cold_max_refs := atoi arg\<rparr>)
      else if fst c = CHR ''m'' then Inr (op\<lparr>opt_migrate_what := parse_migrate_name arg\<rparr>)
      else if fst c = CHR ''v'' then Inr (op\<lparr>opt_debug_level := opt_debug_level op + 1\<rparr>)
      else Inl Exit_called)"

text \<open>\<open>std::to_string\<close> of an \<open>int\<close>.\<close>

fun digits_of :: "nat \<Rightarrow> string" where
  "digits_of n = (if n < 10 then [char_of (48 + n)] else digits_of (n div 10) @ [char_of (48 + n mod 10)])"

declare digits_of.simps [simp del]

definition int_to_string :: "int \<Rightarrow> string" where
  "int_to_string i = (if i < 0 then CHR ''-'' # digits_of (nat (- i)) else digits_of (nat i))"

definition task_refs_cmdline :: "(string \<Rightarrow> 'f) \<Rightarrow> (char \<times> string) list \<Rightarrow> 'f options \<Rightarrow> 'f options run" where
  "task_refs_cmdline atof args op =
     rbind (rfold (task_refs_option atof) args op) (\<lambda>op.
       if opt_pid op = 0 then Inl Exit_called
       else Inr (if opt_output_file op = ''''
                 then op\<lparr>opt_output_file := ''refs-count-'' @ int_to_string (opt_pid op)\<rparr> else op))"

section \<open>Properties of the names\<close>

lemma decimal_nonneg: "0 \<le> decimal s"
proof -
  have "0 \<le> foldl (\<lambda>n c. 10 * n + digit_val c) a ds" if "\<forall>c \<in> set ds. is_digit c" "0 \<le> a" for a ds
    using that
  proof (induction ds arbitrary: a)
    case (Cons d ds)
    from Cons.prems(1) have "is_digit d" by simp
    then have "48 \<le> (of_char d :: nat)"
      by (simp add: is_digit_def less_eq_char_def)
    then have "48 \<le> int (of_char d)" by linarith
    then have "0 \<le> digit_val d" unfolding digit_val_def by (simp only: of_nat_of_char)
    with Cons show ?case by simp
  qed simp
  then show ?thesis by (auto simp: decimal_def dest: set_takeWhileD)
qed

lemma atoi_digit_nonneg: "is_digit (char_at s 0) \<Longrightarrow> 0 \<le> atoi s"
proof (cases s)
  case (Cons c cs)
  assume "is_digit (char_at s 0)"
  then have d: "is_digit c" by (simp add: Cons char_at_def)
  have "\<not> is_space c \<and> c \<noteq> CHR ''-'' \<and> c \<noteq> CHR ''+''"
    using d by (auto simp: is_digit_def is_space_def less_eq_char_def)
  then show ?thesis by (simp add: Cons atoi_def decimal_nonneg)
qed (simp add: char_at_def is_digit_def less_eq_char_def)

text \<open>Every value that \<open>parse_name_map\<close> stores comes from the map or is a cast below \<open>max_val\<close>.\<close>

lemma parse_name_map_cases:
  assumes "\<And>n v. m n = Some v \<Longrightarrow> P v" and "\<And>n. 0 \<le> n \<Longrightarrow> n < max_val \<Longrightarrow> P (cast n)" and "P val"
  shows "P (snd (parse_name_map m cast name val max_val))"
  using assms atoi_digit_nonneg [of name]
  by (auto simp: parse_name_map_def parse_str_from_map_def Let_def split: option.splits)

lemma below_4_cases: "0 \<le> (n::int) \<Longrightarrow> n < 4 \<Longrightarrow> n = 0 \<or> n = 1 \<or> n = 2 \<or> n = 3"
  by arith

lemma parse_migrate_name_not_end: "parse_migrate_name s \<noteq> MIGRATE_END"
  unfolding parse_migrate_name_def
proof (rule parse_name_map_cases)
  fix n :: int
  assume "0 \<le> n" and "n < MIGRATE_END_value"
  then have "n = 0 \<or> n = 1 \<or> n = 2 \<or> n = 3" by (intro below_4_cases) (auto simp: MIGRATE_END_value_def)
  then show "migrate_enum ! nat n \<noteq> MIGRATE_END" by (auto simp: migrate_enum_def)
qed (auto simp: migrate_name_map_def split: if_splits)

lemma parse_placement_name_not_end:
  assumes "q \<noteq> PLACEMENT_END"
  shows "parse_placement_name s q \<noteq> PLACEMENT_END"
  unfolding parse_placement_name_def
proof (rule parse_name_map_cases)
  fix n :: int
  assume "0 \<le> n" and "n < PLACEMENT_END_value"
  then have "n = 0 \<or> n = 1 \<or> n = 2" by (auto simp: PLACEMENT_END_value_def)
  then show "placement_enum ! nat n \<noteq> PLACEMENT_END" by (auto simp: placement_enum_def)
qed (use assms in \<open>auto simp: placement_name_map_def split: if_splits\<close>)

section \<open>The policies of a configuration\<close>

definition policy_typed :: "policy \<Rightarrow> bool" where
  "policy_typed p \<longleftrightarrow> pol_migrate_what p \<noteq> MIGRATE_END \<and> pol_placement p \<noteq> PLACEMENT_END"

definition policy_ok :: "policy \<Rightarrow> bool" where
  "policy_ok p \<longleftrightarrow> policy_typed p \<and> (pol_pid p \<ge> 0 \<or> pol_name p \<noteq> '''')"

lemma throwing_loop_invariant:
  assumes "P s" and "\<And>x s. P s \<Longrightarrow> P (snd (f x s))"
  shows "P (snd (throwing_loop f xs s))"
  using assms(1)
proof (induction xs arbitrary: s)
  case (Cons x xs)
  then show ?case using assms(2) [of s x] by (auto simp: split_beta Let_def)
qed simp

lemma parse_policy_entry_typed: "policy_typed p \<Longrightarrow> policy_typed (snd (parse_policy_entry Y kv p))"
  using parse_migrate_name_not_end parse_placement_name_not_end
  by (auto simp: parse_policy_entry_def parse_common_policy_def policy_typed_def split: option.splits)

text \<open>The policies of the second options are those of the first, followed by well-formed ones.\<close>

definition extends_policies :: "'f options \<Rightarrow> 'f options \<Rightarrow> bool" where
  "extends_policies a b \<longleftrightarrow> (\<exists>added. opt_policies b = opt_policies a @ added \<and> list_all policy_ok added)"

lemma extends_policies_refl [simp]: "extends_policies a a"
  by (auto simp: extends_policies_def)

lemma extends_policies_trans: "extends_policies a b \<Longrightarrow> extends_policies b c \<Longrightarrow> extends_policies a c"
  by (force simp: extends_policies_def)

lemma extends_policies_same: "opt_policies a = opt_policies b \<Longrightarrow> extends_policies a b"
  by (simp add: extends_policies_def)

lemma Policy_ctor_typed: "policy_typed Policy_ctor"
  by (simp add: policy_typed_def Policy_ctor_def)

lemma parse_one_policy_extends: "extends_policies op (snd (parse_one_policy Y n op))"
proof -
  obtain threw p where l: "throwing_loop (parse_policy_entry Y) (y_entries Y n) Policy_ctor = (threw, p)"
    by (cases "throwing_loop (parse_policy_entry Y) (y_entries Y n) Policy_ctor")
  have "policy_typed (snd (throwing_loop (parse_policy_entry Y) (y_entries Y n) Policy_ctor))"
    by (rule throwing_loop_invariant) (auto intro: Policy_ctor_typed parse_policy_entry_typed)
  then show ?thesis
    by (auto simp: l parse_one_policy_def add_policy_def extends_policies_def policy_ok_def)
qed

lemma parse_policies_extends: "extends_policies op (snd (parse_policies Y n op))"
proof -
  have "extends_policies op (snd (throwing_loop
          (\<lambda>e op. if \<not> y_is_map Y e then (False, op) else parse_one_policy Y e op) (y_elements Y n) op))"
    by (rule throwing_loop_invariant [where P = "extends_policies op"])
      (auto intro: extends_policies_trans parse_one_policy_extends)
  then show ?thesis by (simp add: parse_policies_def split_beta Let_def)
qed

lemma parse_numa_nodes_policies: "opt_policies (snd (parse_numa_nodes Y n op)) = opt_policies op"
  unfolding parse_numa_nodes_def
  by (rule throwing_loop_invariant [where P = "\<lambda>s. opt_policies s = opt_policies op"])
    (auto simp: split_beta Let_def split: option.splits)

lemma option_members_policies:
  "map_of (option_members Y) key = Some assign \<Longrightarrow> assign v op = Some op' \<Longrightarrow>
   opt_policies op' = opt_policies op"
  by (drule map_of_SomeD) (auto simp: option_members_def member_def)

lemma parse_option_entry_policies: "opt_policies (snd (parse_option_entry Y kv op)) = opt_policies op"
  using option_members_policies [of Y]
  by (auto simp: parse_option_entry_def parse_numa_nodes_policies split: option.splits)

lemma parse_option_policies: "opt_policies (snd (parse_option Y n op)) = opt_policies op"
proof -
  have "opt_policies (snd (throwing_loop (parse_option_entry Y) (y_entries Y n) op)) = opt_policies op"
    by (rule throwing_loop_invariant [where P = "\<lambda>s. opt_policies s = opt_policies op"])
      (auto simp: parse_option_entry_policies)
  then show ?thesis by (simp add: parse_option_def split_beta Let_def)
qed

lemma reparse_extends: "extends_policies op (snd (reparse Y load_file op))"
proof (cases "load_file (opt_config_file op)")
  case (Some config)
  note c = Some
  show ?thesis
  proof (cases "y_get Y config ''options''")
    case (Some node)
    obtain r op1 where o: "parse_option Y node op = (r, op1)" by (cases "parse_option Y node op")
    have e: "extends_policies op op1"
      using parse_option_policies [of Y node op] by (simp add: o extends_policies_same)
    have "extends_policies op (snd (parse_policies Y m op1))" for m
      by (rule extends_policies_trans [OF e parse_policies_extends])
    from this e show ?thesis
      by (auto simp: reparse_def c Some o split: option.splits prod.splits) (metis snd_conv)+
  qed (simp add: reparse_def c)
qed (simp add: reparse_def)

section \<open>Values the tools do not check\<close>

text \<open>The range that \<open>set_dram_percent\<close> enforces does not hold for a percentage from the file.\<close>

lemma dram_percent_from_file_unchecked:
  assumes "y_string Y key = Some ''dram_percent''" and "y_int Y v = Some n"
  shows "parse_option_entry Y (key, v) op = (False, op\<lparr>opt_dram_percent := n\<rparr>)"
  using assms by (simp add: parse_option_entry_def option_members_def member_def)

text \<open>The default pid is -1, and only the pid 0 makes \<open>task-refs\<close> print its usage.\<close>

lemma task_refs_without_pid:
  "\<exists>op. task_refs_cmdline atof [] (Option_ctor zero one tenth) = Inr op \<and> opt_pid op = - 1"
  by (simp add: task_refs_cmdline_def Option_ctor_def)

end
