(* ===== verification/Processes.thy ===== *)
theory Processes
  imports Options Ept_Migrate
begin

text \<open>
  The processes to scan: \<open>ProcPid\<close>, \<open>ProcStatus\<close>, \<open>PidContext\<close>, \<open>Process\<close>, \<open>memparse\<close> and the part of
  \<open>GlobalScan.cc\<close> that collects their ranges. The file system (\<open>/proc\<close>, \<open>/proc/PID/status\<close> and
  \<open>/proc/PID/maps\<close>) is a parameter with a state \<open>'k\<close> of its own.
\<close>

unbundle bit_operations_syntax

section \<open>Memory sizes\<close>

text \<open>The value of a digit of \<open>strtoull\<close>; letters follow the decimal digits.\<close>

definition digit_number :: "char \<Rightarrow> nat" where
  "digit_number c =
     (let n = (of_char c :: nat)
      in if 48 \<le> n \<and> n \<le> 57 then n - 48
         else if 97 \<le> n \<and> n \<le> 122 then n - 87
         else if 65 \<le> n \<and> n \<le> 90 then n - 55
         else 36)"

definition based_value :: "nat \<Rightarrow> string \<Rightarrow> nat" where
  "based_value base ds = foldl (\<lambda>n c. base * n + digit_number c) 0 ds"

definition ULLONG_MAX :: nat where "ULLONG_MAX = 2 ^ 64 - 1"

text \<open>\<open>strtoull(ptr, &endptr, 0)\<close>: the value and what follows the number.\<close>

definition strtoull :: "string \<Rightarrow> u64 \<times> string" where
  "strtoull str =
     (let t = dropWhile is_space str;
          neg = (char_at t 0 = CHR ''-'');
          u = (if char_at t 0 = CHR ''-'' \<or> char_at t 0 = CHR ''+'' then tl t else t);
          hex = (char_at u 0 = CHR ''0'' \<and> (char_at u 1 = CHR ''x'' \<or> char_at u 1 = CHR ''X'') \<and>
                 digit_number (char_at u 2) < 16);
          base = (if hex then 16 else if char_at u 0 = CHR ''0'' then 8 else 10);
          v = (if hex then drop 2 u else u);
          ds = takeWhile (\<lambda>c. digit_number c < base) v;
          n = based_value base ds
      in if ds = [] then (0, str)
         else (if n > ULLONG_MAX then of_nat ULLONG_MAX else if neg then - of_nat n else of_nat n,
               drop (length ds) v))"

text \<open>How many times the cases of the suffix, which fall through, shift by 10.\<close>

definition suffix_steps :: "char \<Rightarrow> nat" where
  "suffix_steps c =
     (if c = CHR ''E'' \<or> c = CHR ''e'' then 6
      else if c = CHR ''P'' \<or> c = CHR ''p'' then 5
      else if c = CHR ''T'' \<or> c = CHR ''t'' then 4
      else if c = CHR ''G'' \<or> c = CHR ''g'' then 3
      else if c = CHR ''M'' \<or> c = CHR ''m'' then 2
      else if c = CHR ''K'' \<or> c = CHR ''k'' then 1
      else 0)"

definition memparse :: "string \<Rightarrow> u64 \<times> string" where
  "memparse ptr =
     (let (ret, endp) = strtoull ptr; n = suffix_steps (char_at endp 0)
      in ((push_bit 10 ^^ n) ret, if n > 0 then tl endp else endp))"

section \<open>Process ids\<close>

text \<open>
  Reading \<open>/proc\<close>: \<open>opendir\<close> fails with an \<open>errno\<close>, or \<open>readdir\<close> yields entries (is it a directory,
  its name) and a last \<open>errno\<close>, 0 at the end of the directory.
\<close>

datatype proc_dir = Dir_error int | Dir_entries "(bool \<times> string) list" int

record 'k proc_ops =
  po_dir :: "'k \<Rightarrow> proc_dir \<times> 'k"
  po_status :: "int \<Rightarrow> 'k \<Rightarrow> (int + string list) \<times> 'k"
  po_maps :: "int \<Rightarrow> 'k \<Rightarrow> string list option \<times> 'k"
  po_scan :: "string \<Rightarrow> maps_scan"

definition pids_of_entries :: "(bool \<times> string) list \<Rightarrow> int list" where
  "pids_of_entries es = map (\<lambda>(d, name). atoi name) (filter (\<lambda>(d, name). d \<and> is_digit (char_at name 0)) es)"

definition collect_pids :: "'k proc_ops \<Rightarrow> 'k \<Rightarrow> int list \<Rightarrow> int \<times> int list \<times> 'k" where
  "collect_pids P k pids =
     (case po_dir P k of
        (Dir_error err, k) \<Rightarrow> (- err, pids, k)
      | (Dir_entries es err, k) \<Rightarrow> (if err \<noteq> 0 then - err else 0, pids_of_entries es, k))"

definition get_pids :: "'k proc_ops \<Rightarrow> 'k \<Rightarrow> int list \<Rightarrow> int list \<times> 'k" where
  "get_pids P k pids = (if pids = [] then snd (collect_pids P k pids) else (pids, k))"

section \<open>The status of a process\<close>

record proc_status =
  ps_pid :: int
  ps_name :: string
  status_map :: "string \<rightharpoonup> u64"

definition status_clear :: "proc_status \<Rightarrow> proc_status" where
  "status_clear st = st\<lparr>status_map := Map.empty, ps_name := '''', ps_pid := 0\<rparr>"

definition status_empty :: "proc_status \<Rightarrow> bool" where
  "status_empty st \<longleftrightarrow> status_map st = Map.empty"

definition get_number :: "proc_status \<Rightarrow> string \<Rightarrow> u64" where
  "get_number st key = (case status_map st key of Some v \<Rightarrow> v | None \<Rightarrow> 0)"

text \<open>\<open>strstr\<close>: what precedes the first occurrence of the needle, and the rest from it on.\<close>

fun strstr :: "string \<Rightarrow> string \<Rightarrow> (string \<times> string) option" where
  "strstr needle s =
     (if take (length needle) s = needle then Some ([], s)
      else case s of [] \<Rightarrow> None
           | c # cs \<Rightarrow> map_option (\<lambda>(a, b). (c # a, b)) (strstr needle cs))"

declare strstr.simps [simp del]

text \<open>\<open>fgets\<close> keeps the newline, which \<open>pop_back\<close> removes from a name.\<close>

definition parse_line :: "string \<Rightarrow> proc_status \<Rightarrow> int \<times> proc_status" where
  "parse_line line st =
     (case strstr [CHR '':'', CHR 0x09] line of
        None \<Rightarrow> (- EINVAL, st)
      | Some (key, rest) \<Rightarrow>
          let val = dropWhile (\<lambda>c. c = CHR '' '') (drop 2 rest)
          in if key = ''Name'' then (0, st\<lparr>ps_name := butlast val\<rparr>)
             else if is_digit (char_at val 0) then
               (0, st\<lparr>status_map := (status_map st)(key \<mapsto> word_of_int (atoi val))\<rparr>)
             else (0, st))"

fun parse_status_file :: "string list \<Rightarrow> proc_status \<Rightarrow> int \<times> proc_status" where
  "parse_status_file [] st = (0, st)"
| "parse_status_file (line # lines) st =
     (let (rc, st) = parse_line line st in if rc < 0 then (rc, st) else parse_status_file lines st)"

definition status_load :: "'k proc_ops \<Rightarrow> int \<Rightarrow> 'k \<Rightarrow> proc_status \<Rightarrow> int \<times> proc_status \<times> 'k" where
  "status_load P n k st =
     (let st = st\<lparr>ps_pid := n\<rparr>; (file, k) = po_status P (ps_pid st) k
      in case file of
           Inl err \<Rightarrow> (err, st, k)
         | Inr lines \<Rightarrow> let (rc, st) = parse_status_file lines st in (rc, st, k))"

section \<open>A process\<close>

record pid_context =
  ctx_dram_quota :: int
  ctx_pid :: int

definition PidContext_init :: pid_context where
  "PidContext_init = \<lparr>ctx_dram_quota = 0, ctx_pid = - 1\<rparr>"

definition add_dram_quota :: "int \<Rightarrow> pid_context \<Rightarrow> pid_context" where
  "add_dram_quota v c = c\<lparr>ctx_dram_quota := ctx_dram_quota c + v\<rparr>"

definition sub_dram_quota :: "int \<Rightarrow> pid_context \<Rightarrow> pid_context" where
  "sub_dram_quota v c = c\<lparr>ctx_dram_quota := ctx_dram_quota c - v\<rparr>"

definition set_dram_quota :: "int \<Rightarrow> pid_context \<Rightarrow> pid_context" where
  "set_dram_quota v c = c\<lparr>ctx_dram_quota := v\<rparr>"

definition set_ctx_pid :: "int \<Rightarrow> pid_context \<Rightarrow> pid_context" where
  "set_ctx_pid v c = c\<lparr>ctx_pid := v\<rparr>"

record process =
  pr_pid :: int
  pr_policy :: policy
  pr_status :: proc_status
  pr_ranges :: "ept_migrate list"
  pr_context :: pid_context

text \<open>
  \<open>make_shared<Process>()\<close> and \<open>make_shared<EPTMigrate>()\<close>; the members no constructor sets keep
  what \<open>pid\<close> and \<open>raw\<close> hold. Of a policy a range keeps the placement.
\<close>

definition new_process :: "int \<Rightarrow> process" where
  "new_process pid =
     \<lparr>pr_pid = pid, pr_policy = Policy_ctor,
      pr_status = \<lparr>ps_pid = pid, ps_name = '''', status_map = Map.empty\<rparr>, pr_ranges = [],
      pr_context = PidContext_init\<rparr>"

definition update_idle :: "(idle_pages \<Rightarrow> idle_pages) \<Rightarrow> ept_migrate \<Rightarrow> ept_migrate" where
  "update_idle f e = e\<lparr>em_scan := (em_scan e)\<lparr>es_idle := f (es_idle (em_scan e))\<rparr>\<rparr>"

definition EPTMigrate_ctor :: "ept_migrate \<Rightarrow> ept_migrate" where
  "EPTMigrate_ctor raw =
     update_idle (\<lambda>s. (ProcIdlePages_ctor s)\<lparr>ip_placement := PLACEMENT_NONE\<rparr>) raw\<lparr>dram_quota := None\<rparr>"

definition range_set_policy :: "policy \<Rightarrow> ept_migrate \<Rightarrow> ept_migrate" where
  "range_set_policy pol = update_idle (ip_placement_update (\<lambda>_. pol_placement pol))"

definition process_load :: "'k proc_ops \<Rightarrow> int \<Rightarrow> 'k \<Rightarrow> process \<Rightarrow> int \<times> process \<times> 'k" where
  "process_load P n k p =
     (let p = p\<lparr>pr_pid := n\<rparr>; (rc, st, k) = status_load P (pr_pid p) k (pr_status p)
      in (rc, p\<lparr>pr_status := st\<rparr>, k))"

text \<open>The range shares the context of its process: it starts with the quota found there.\<close>

definition add_range :: "ept_migrate \<Rightarrow> u64 \<Rightarrow> u64 \<Rightarrow> process \<Rightarrow> process" where
  "add_range raw a b p =
     (let e = EPTMigrate_ctor raw;
          e = update_idle (\<lambda>s. set_va_range (s\<lparr>ip_pid := pr_pid p\<rparr>) a b) e;
          e = e\<lparr>dram_quota := Some (ctx_dram_quota (pr_context p))\<rparr>
      in p\<lparr>pr_ranges := pr_ranges p @ [e]\<rparr>)"

text \<open>The state of the loops: the process, \<open>start\<close> and \<open>sum\<close>.\<close>

type_synonym splitting = "process \<times> u64 \<times> u64"

text \<open>\<open>for (offset = max_bytes; offset < vma_size; offset += max_bytes)\<close>; the offset may wrap.\<close>

partial_function (option) split_vma ::
    "ept_migrate \<Rightarrow> u64 \<Rightarrow> u64 \<Rightarrow> u64 \<Rightarrow> u64 \<Rightarrow> splitting \<Rightarrow> splitting option" where
  "split_vma raw max_bytes base vma_size offset s =
     (if offset < vma_size then
        case s of (p, start, acc) \<Rightarrow>
          let e = (base + offset) AND NOT (PMD_SIZE - 1)
          in split_vma raw max_bytes base vma_size (offset + max_bytes) (add_range raw start e p, e, 0)
      else Some s)"

definition split_step :: "ept_migrate \<Rightarrow> u64 \<Rightarrow> proc_maps_entry \<Rightarrow> splitting \<Rightarrow> splitting option" where
  "split_step raw max_bytes vma s =
     (if vma_start vma \<ge> TASK_SIZE_MAX then Some s
      else let vma_size = vma_end vma - vma_start vma; (p, start, acc) = s
           in do { (p, start, acc) \<leftarrow> split_vma raw max_bytes (vma_start vma) vma_size max_bytes
                                        (p, start, acc + vma_size);
                   if acc > max_bytes
                   then Some (add_range raw start (vma_end vma) p, vma_end vma, 0)
                   else Some (p, start, acc) })"

fun split_vmas :: "ept_migrate \<Rightarrow> u64 \<Rightarrow> proc_maps_entry list \<Rightarrow> splitting \<Rightarrow> splitting option" where
  "split_vmas raw max_bytes [] s = Some s"
| "split_vmas raw max_bytes (vma # vmas) s =
     do { s \<leftarrow> split_step raw max_bytes vma s; split_vmas raw max_bytes vmas s }"

text \<open>The function always returns 0, which is left out; \<open>None\<close> is a loop that does not end.\<close>

definition rss_bytes :: "'f options \<Rightarrow> process \<Rightarrow> u64" where
  "rss_bytes op p =
     (let rss_anon = push_bit 10 (get_number (pr_status p) ''RssAnon'')
      in if opt_hugetlb op \<noteq> 0 then push_bit 10 (get_number (pr_status p) ''HugetlbPages'') else rss_anon)"

definition split_max_bytes :: "'f options \<Rightarrow> u64" where
  "split_max_bytes op =
     (let max_bytes = fst (memparse (opt_split_rss_size op))
      in if max_bytes = 0 then TASK_SIZE_MAX else max_bytes)"

definition split_ranges ::
    "'k proc_ops \<Rightarrow> 'f options \<Rightarrow> ept_migrate \<Rightarrow> 'k \<Rightarrow> process \<Rightarrow> (process \<times> 'k) option" where
  "split_ranges P op raw k p =
     (let rss_anon = rss_bytes op p; max_bytes = split_max_bytes op
      in if rss_anon = 0 then Some (p, k)
         else if rss_anon < max_bytes then Some (add_range raw 0 TASK_SIZE_MAX p, k)
         else let (lines, k) = po_maps P (pr_pid p) k
              in do { (p, start, acc) \<leftarrow> split_vmas raw max_bytes (maps_load (po_scan P) lines) (p, 0, 0);
                      Some (if acc \<noteq> 0 then add_range raw start TASK_SIZE_MAX p else p, k) })"

definition set_policy :: "policy \<Rightarrow> process \<Rightarrow> process" where
  "set_policy pol p = p\<lparr>pr_policy := pol, pr_ranges := map (range_set_policy pol) (pr_ranges p)\<rparr>"

definition match_policy :: "process \<Rightarrow> policy \<Rightarrow> bool" where
  "match_policy p pol =
     (if pol_pid pol \<ge> 0 \<and> pol_pid pol = pr_pid p then True
      else if pol_name pol \<noteq> '''' \<and> pol_name pol = ps_name (pr_status p) then True
      else False)"

fun match_policies :: "process \<Rightarrow> policy list \<Rightarrow> policy option" where
  "match_policies p [] = None"
| "match_policies p (pol # pols) = (if match_policy p pol then Some pol else match_policies p pols)"

section \<open>The collection\<close>

text \<open>
  One pid of the loop. \<open>policies\<close> is \<open>None\<close> for the overload without policies; \<open>uninit\<close> is the pid a
  new \<open>Process\<close> holds before \<open>load\<close>.
\<close>

record process_collection =
  pc_pids :: "int list"
  process_hash :: "int \<rightharpoonup> process"

definition collect_one ::
    "'k proc_ops \<Rightarrow> 'f options \<Rightarrow> ept_migrate \<Rightarrow> int \<Rightarrow> policy list option \<Rightarrow> int \<Rightarrow>
     'k \<times> (int \<rightharpoonup> process) \<Rightarrow> ('k \<times> (int \<rightharpoonup> process)) option" where
  "collect_one P op raw uninit policies pid s =
     (case s of (k, h) \<Rightarrow>
        let (err, p, k) = process_load P pid k (new_process uninit);
            chosen = (case policies of None \<Rightarrow> Some None
                      | Some pols \<Rightarrow> map_option Some (match_policies p pols))
        in if err \<noteq> 0 then Some (k, h)
           else (case chosen of
                   None \<Rightarrow> Some (k, h)
                 | Some pol \<Rightarrow>
                     do { (p, k) \<leftarrow> split_ranges P op raw k p;
                          let p = (case pol of None \<Rightarrow> p | Some pol \<Rightarrow> set_policy pol p);
                          Some (k, h(pid \<mapsto> p\<lparr>pr_context := set_ctx_pid pid (pr_context p)\<rparr>)) }))"

fun collect_each ::
    "'k proc_ops \<Rightarrow> 'f options \<Rightarrow> ept_migrate \<Rightarrow> int \<Rightarrow> policy list option \<Rightarrow> int list \<Rightarrow>
     'k \<times> (int \<rightharpoonup> process) \<Rightarrow> ('k \<times> (int \<rightharpoonup> process)) option" where
  "collect_each P op raw uninit policies [] s = Some s"
| "collect_each P op raw uninit policies (pid # pids) s =
     do { s \<leftarrow> collect_one P op raw uninit policies pid s; collect_each P op raw uninit policies pids s }"

definition collect_processes ::
    "'k proc_ops \<Rightarrow> 'f options \<Rightarrow> ept_migrate \<Rightarrow> int \<Rightarrow> policy list option \<Rightarrow> 'k \<Rightarrow> process_collection \<Rightarrow>
     (int \<times> 'k \<times> process_collection) option" where
  "collect_processes P op raw uninit policies k c =
     (let c = c\<lparr>process_hash := Map.empty\<rparr>;
          (err, pids, k) = collect_pids P k (pc_pids c)
      in if err \<noteq> 0 then Some (err, k, c\<lparr>pc_pids := pids\<rparr>)
         else let (pids, k) = get_pids P k pids
              in do { (k, h) \<leftarrow> collect_each P op raw uninit policies pids (k, process_hash c);
                      Some (0, k, c\<lparr>pc_pids := pids, process_hash := h\<rparr>) })"

text \<open>
  \<open>GlobalScan::collect\<close>: the ranges of all processes, in the order \<open>order\<close> the hash is traversed in.
  The result is the error and the new ranges.
\<close>

definition gs_collect ::
    "'k proc_ops \<Rightarrow> 'f options \<Rightarrow> ept_migrate \<Rightarrow> int \<Rightarrow> ((int \<rightharpoonup> process) \<Rightarrow> process list) \<Rightarrow> numa_collection \<Rightarrow>
     'k \<Rightarrow> process_collection \<Rightarrow> (int \<times> ept_migrate list \<times> 'k \<times> process_collection) option" where
  "gs_collect P op raw uninit order numa k c =
     do { (err, k, c) \<leftarrow> collect_processes P op raw uninit
                            (if opt_policies op = [] then None else Some (opt_policies op)) k c;
          Some (if err \<noteq> 0 then (err, [], k, c)
                else (0, concat (map (\<lambda>p. map (\<lambda>e. e\<lparr>em_scan := (em_scan e)\<lparr>es_numa := numa\<rparr>\<rparr>) (pr_ranges p))
                                  (order (process_hash c))), k, c)) }"

end
