(* ===== verification/Processes_Correct.thy ===== *)
theory Processes_Correct
  imports Processes
begin

text \<open>
  What the collection of processes promises: the policies the configuration yields are well formed,
  and the ranges a large process is split into are adjacent, start at 0 and lose at most the end of
  its last area.
\<close>

unbundle bit_operations_syntax

section \<open>Ranges of a process\<close>

definition range_of :: "ept_migrate \<Rightarrow> u64 \<times> u64" where
  "range_of e = (va_start (es_idle (em_scan e)), va_end (es_idle (em_scan e)))"

definition spans :: "process \<Rightarrow> (u64 \<times> u64) list" where
  "spans p = map range_of (pr_ranges p)"

lemma spans_add_range [simp]: "spans (add_range raw a b p) = spans p @ [(a, b)]"
  by (simp add: spans_def add_range_def range_of_def update_idle_def set_va_range_def Let_def)

lemma pr_pid_add_range [simp]: "pr_pid (add_range raw a b p) = pr_pid p"
  by (simp add: add_range_def Let_def)

text \<open>Adjacent, non-empty ranges from one address to another.\<close>

fun tiles :: "u64 \<Rightarrow> (u64 \<times> u64) list \<Rightarrow> u64 \<Rightarrow> bool" where
  "tiles a [] b \<longleftrightarrow> a = b"
| "tiles a ((s, e) # rs) b \<longleftrightarrow> s = a \<and> s < e \<and> tiles e rs b"

lemma tiles_append: "tiles a (xs @ ys) c \<longleftrightarrow> (\<exists>b. tiles a xs b \<and> tiles b ys c)"
  by (induction a xs c rule: tiles.induct) auto

lemma tiles_snoc [simp]: "tiles a (xs @ [(s, e)]) c \<longleftrightarrow> c = e \<and> s < e \<and> tiles a xs s"
  by (auto simp: tiles_append)

lemma tiles_covers:
  "tiles a rs b \<Longrightarrow> a \<le> x \<Longrightarrow> x < b \<Longrightarrow> \<exists>(s, e) \<in> set rs. s \<le> x \<and> x < e"
proof (induction a rs b rule: tiles.induct)
  case (2 a s e rs b)
  then show ?case by (cases "x < e") auto
qed auto

section \<open>Splitting\<close>

text \<open>Areas in order, without overlap, that lie below \<open>TASK_SIZE_MAX\<close> unless they start above it.\<close>

fun maps_ordered :: "u64 \<Rightarrow> proc_maps_entry list \<Rightarrow> bool" where
  "maps_ordered lo [] \<longleftrightarrow> True"
| "maps_ordered lo (vma # vmas) \<longleftrightarrow>
     lo \<le> vma_start vma \<and> vma_start vma < vma_end vma \<and>
     (vma_start vma < TASK_SIZE_MAX \<longrightarrow> vma_end vma \<le> TASK_SIZE_MAX) \<and> maps_ordered (vma_end vma) vmas"

lemma unat_TASK_SIZE_MAX: "unat TASK_SIZE_MAX = 2 ^ 47 - 4096"
  by (simp add: TASK_SIZE_MAX_def PAGE_SIZE_def push_bit_eq_mult)

lemma unat_PMD_SIZE: "unat PMD_SIZE = 2 ^ 21"
  by (simp add: PMD_SIZE_def push_bit_eq_mult)

text \<open>The chunk boundaries of one area.\<close>

definition chunk_end :: "u64 \<Rightarrow> u64" where
  "chunk_end x = x AND NOT (PMD_SIZE - 1)"

lemma chunk_end_bounds:
  shows "unat (chunk_end x) \<le> unat x" "unat x < unat (chunk_end x) + 2 ^ 21"
proof -
  have u: "unat (chunk_end x) = unat x div 2 ^ 21 * 2 ^ 21"
    unfolding chunk_end_def PMD_SIZE_def by (rule unat_align_down)
  have "unat x = unat x div 2 ^ 21 * 2 ^ 21 + unat x mod 2 ^ 21" by (simp only: div_mult_mod_eq)
  moreover have "unat x mod 2 ^ 21 < 2 ^ 21" by (rule mod_less_divisor) simp
  ultimately show "unat (chunk_end x) \<le> unat x" and "unat x < unat (chunk_end x) + 2 ^ 21"
    unfolding u by linarith+
qed

lemma split_vma_unfold:
  "split_vma raw max_bytes base sz offset (p, start, acc) =
     (if offset < sz then
        split_vma raw max_bytes base sz (offset + max_bytes)
          (add_range raw start (chunk_end (base + offset)) p, chunk_end (base + offset), 0)
      else Some (p, start, acc))"
  by (subst split_vma.simps) (simp only: chunk_end_def Let_def prod.case)

lemma split_vma_stop: "sz \<le> offset \<Longrightarrow> split_vma raw max_bytes base sz offset s = Some s"
  by (subst split_vma.simps) (simp add: leD)

text \<open>Every chunk ends above its start, and the rest of the area is short.\<close>

lemma split_vma_tiles:
  assumes "unat base + unat sz \<le> 2 ^ 47" and "2 ^ 21 \<le> unat max_bytes" and "unat max_bytes < unat sz"
    and "tiles 0 (spans p) start" and "unat start + 2 ^ 21 \<le> unat base + unat offset" and "offset < sz"
  shows "\<exists>p' start'. split_vma raw max_bytes base sz offset (p, start, acc) = Some (p', start', 0) \<and>
    tiles 0 (spans p') start' \<and> unat start' < unat base + unat sz \<and>
    unat base + unat sz \<le> unat start' + unat max_bytes + 2 ^ 21 \<and> pr_pid p' = pr_pid p"
  using assms(4-)
proof (induction "unat sz - unat offset" arbitrary: p start acc offset rule: less_induct)
  case less
  let ?e = "chunk_end (base + offset)"
  have lt: "unat offset < unat sz" using less.prems(3) by (simp add: word_less_nat_alt)
  have u: "unat (base + offset) = unat base + unat offset"
    using assms(1) lt by (intro unat_add_small) simp
  note b = chunk_end_bounds [of "base + offset", unfolded u]
  have "unat start < unat ?e" using less.prems(2) b(2) by linarith
  then have t: "tiles 0 (spans (add_range raw start ?e p)) ?e"
    using less.prems(1) by (simp add: word_less_nat_alt)
  show ?case
  proof (cases "unat max_bytes + unat offset < unat sz")
    case True
    have v: "unat (offset + max_bytes) = unat offset + unat max_bytes"
      using True assms(1) by (intro unat_add_small) simp
    have "unat sz - unat (offset + max_bytes) < unat sz - unat offset"
      using v lt assms(2) by simp
    moreover have "unat ?e + 2 ^ 21 \<le> unat base + unat (offset + max_bytes)"
      using v b(1) assms(2) by linarith
    moreover have "offset + max_bytes < sz" using v True by (simp add: word_less_nat_alt)
    ultimately obtain p' start' where
      "split_vma raw max_bytes base sz (offset + max_bytes) (add_range raw start ?e p, ?e, 0) = Some (p', start', 0)"
      "tiles 0 (spans p') start'" "unat start' < unat base + unat sz"
      "unat base + unat sz \<le> unat start' + unat max_bytes + 2 ^ 21" "pr_pid p' = pr_pid p"
      using less.hyps [OF _ t, of "offset + max_bytes" 0] by auto
    then show ?thesis using less.prems(3) by (simp add: split_vma_unfold [of _ _ _ _ offset])
  next
    case False
    have "unat (offset + max_bytes) = unat offset + unat max_bytes"
      using lt assms(1,3) by (intro unat_add_small) simp
    then have "sz \<le> offset + max_bytes" using False by (simp add: word_le_nat_alt)
    then have "split_vma raw max_bytes base sz offset (p, start, acc) = Some (add_range raw start ?e p, ?e, 0)"
      using less.prems(3) by (simp add: split_vma_unfold [of _ _ _ _ offset] split_vma_stop)
    then show ?thesis using t b lt False by auto
  qed
qed

text \<open>
  The state between two areas: \<open>lo\<close> is the end of the last one. Nothing is lost while \<open>acc\<close>, the
  bytes since \<open>start\<close>, is not 0; when it is 0 the rest of the last area may be.
\<close>

definition split_inv :: "u64 \<Rightarrow> u64 \<Rightarrow> splitting \<Rightarrow> bool" where
  "split_inv max_bytes lo s =
     (case s of (p, start, acc) \<Rightarrow>
        tiles 0 (spans p) start \<and> unat start \<le> unat lo \<and> unat acc \<le> unat lo \<and>
        (acc \<noteq> 0 \<longrightarrow> unat start < unat lo) \<and>
        (acc = 0 \<longrightarrow> unat lo \<le> unat start + unat max_bytes + 2 ^ 21))"

lemma unat_sub_le: "b \<le> a \<Longrightarrow> unat (a - b :: u64) = unat a - unat b"
  by (rule unat_sub) 

lemma split_step_inv:
  assumes inv: "split_inv max_bytes lo (p, start, acc)" and big: "2 ^ 21 \<le> unat max_bytes"
    and vma: "lo \<le> vma_start vma" "vma_start vma < vma_end vma"
    and below: "vma_start vma < TASK_SIZE_MAX" "vma_end vma \<le> TASK_SIZE_MAX"
  shows "\<exists>p' start' acc'. split_step raw max_bytes vma (p, start, acc) = Some (p', start', acc') \<and>
    split_inv max_bytes (vma_end vma) (p', start', acc') \<and> pr_pid p' = pr_pid p"
proof -
  let ?b = "vma_start vma" and ?e = "vma_end vma"
  let ?sz = "?e - ?b"
  have sz: "unat ?sz = unat ?e - unat ?b" using vma(2) by (intro unat_sub_le) simp
  have e: "unat ?b < unat ?e" using vma(2) by (simp add: word_less_nat_alt)
  have top: "unat ?e \<le> 2 ^ 47"
    using below(2) unat_TASK_SIZE_MAX by (simp add: word_le_nat_alt)
  have lo: "unat lo \<le> unat ?b" using vma(1) by (simp add: word_le_nat_alt)
  have i: "unat acc \<le> unat lo" "unat start \<le> unat lo" "tiles 0 (spans p) start"
    using inv by (simp_all add: split_inv_def)
  have a: "unat (acc + ?sz) = unat acc + unat ?sz"
    using i(1) lo sz e top by (intro unat_add_small) simp
  have step: "split_step raw max_bytes vma (p, start, acc) =
    do { (p, start, acc) \<leftarrow> split_vma raw max_bytes ?b ?sz max_bytes (p, start, acc + ?sz);
         if acc > max_bytes then Some (add_range raw start ?e p, ?e, 0) else Some (p, start, acc) }"
    using below(1) by (simp add: split_step_def Let_def flip: not_le)
  have s: "unat start \<le> unat ?b" using i(2) lo by simp
  show ?thesis
  proof (cases "max_bytes < ?sz")
    case True
    moreover have "unat max_bytes < unat ?sz" using True by (simp add: word_less_nat_alt)
    moreover have "unat start + 2 ^ 21 \<le> unat ?b + unat max_bytes" using s big by linarith
    moreover have "unat ?b + unat ?sz \<le> 2 ^ 47" using sz e top by simp
    moreover note i(3)
    ultimately obtain p' start' where
      r: "split_vma raw max_bytes ?b ?sz max_bytes (p, start, acc + ?sz) = Some (p', start', 0)"
      and t: "tiles 0 (spans p') start'" "unat start' < unat ?b + unat ?sz"
        "unat ?b + unat ?sz \<le> unat start' + unat max_bytes + 2 ^ 21" "pr_pid p' = pr_pid p"
      using split_vma_tiles [OF _ big] by blast
    have "split_step raw max_bytes vma (p, start, acc) = Some (p', start', 0)"
      by (simp add: step r)
    then show ?thesis using t sz e by (simp add: split_inv_def)
  next
    case False
    have nz: "acc + ?sz \<noteq> 0" using a sz e by (auto simp: unat_eq_zero)
    have le: "unat (acc + ?sz) \<le> unat ?e" using a i(1) lo sz e by simp
    have r: "split_step raw max_bytes vma (p, start, acc) =
      (if acc + ?sz > max_bytes then Some (add_range raw start ?e p, ?e, 0) else Some (p, start, acc + ?sz))"
      using False by (simp add: step split_vma_stop)
    have "unat start < unat ?e" using s e by linarith
    then show ?thesis
      using i nz le by (auto simp: r split_inv_def word_less_nat_alt)
  qed
qed

definition covered_up_to :: "proc_maps_entry list \<Rightarrow> nat \<Rightarrow> bool" where
  "covered_up_to vmas n \<longleftrightarrow> list_all (\<lambda>vma. vma_start vma < TASK_SIZE_MAX \<longrightarrow> unat (vma_end vma) \<le> n) vmas"

lemma split_vmas_inv:
  assumes "split_inv max_bytes lo s" and "2 ^ 21 \<le> unat max_bytes" and "maps_ordered lo vmas"
    and "lo \<le> TASK_SIZE_MAX"
  shows "\<exists>s' hi. split_vmas raw max_bytes vmas s = Some s' \<and> split_inv max_bytes hi s' \<and>
    lo \<le> hi \<and> hi \<le> TASK_SIZE_MAX \<and> covered_up_to vmas (unat hi) \<and> pr_pid (fst s') = pr_pid (fst s)"
  using assms(1,3,4)
proof (induction vmas arbitrary: lo s)
  case Nil
  then show ?case by (auto simp: covered_up_to_def)
next
  case (Cons vma vmas)
  obtain p start acc where s: "s = (p, start, acc)" by (cases s)
  show ?case
  proof (cases "vma_start vma \<ge> TASK_SIZE_MAX")
    case True
    have "maps_ordered lo vmas"
      using Cons.prems(2) by (cases vmas) auto
    from Cons.IH [OF Cons.prems(1) this Cons.prems(3)] True show ?thesis
      by (simp add: s split_step_def covered_up_to_def leD)
  next
    case False
    then have below: "vma_start vma < TASK_SIZE_MAX" by simp
    have o: "lo \<le> vma_start vma" "vma_start vma < vma_end vma" "vma_end vma \<le> TASK_SIZE_MAX"
      "maps_ordered (vma_end vma) vmas"
      using Cons.prems(2) below by auto
    obtain s1 where 1: "split_step raw max_bytes vma s = Some s1" "split_inv max_bytes (vma_end vma) s1"
      "pr_pid (fst s1) = pr_pid p"
      using split_step_inv [OF Cons.prems(1) [unfolded s] assms(2) o(1,2) below o(3)] unfolding s by fastforce
    from Cons.IH [OF 1(2) o(4,3)] obtain s' hi where
      2: "split_vmas raw max_bytes vmas s1 = Some s'" "split_inv max_bytes hi s'" "vma_end vma \<le> hi"
        "hi \<le> TASK_SIZE_MAX" "covered_up_to vmas (unat hi)" "pr_pid (fst s') = pr_pid (fst s1)" by auto
    have "lo \<le> hi" using o(1,2) 2(3) by simp
    then show ?thesis using 1 2 by (intro exI [of _ s'] exI [of _ hi]) (simp add: s covered_up_to_def word_le_nat_alt)
  qed
qed

lemma covered_up_to_mono: "covered_up_to vmas n \<Longrightarrow> n \<le> m \<Longrightarrow> covered_up_to vmas m"
  by (auto simp: covered_up_to_def list_all_iff)

text \<open>The last range.\<close>

lemma split_inv_finish:
  assumes "split_inv max_bytes hi (p, start, acc)" and "hi \<le> TASK_SIZE_MAX"
  shows "\<exists>e. tiles 0 (spans (if acc \<noteq> 0 then add_range raw start TASK_SIZE_MAX p else p)) e \<and>
    unat hi \<le> unat e + unat max_bytes + unat PMD_SIZE"
proof (cases "acc = 0")
  case True
  then show ?thesis using assms(1) unat_PMD_SIZE by (auto simp: split_inv_def)
next
  case False
  have "unat hi \<le> unat TASK_SIZE_MAX" using assms(2) by (simp add: word_le_nat_alt)
  moreover from this have "start < TASK_SIZE_MAX"
    using False assms(1) by (simp add: split_inv_def word_less_nat_alt)
  ultimately show ?thesis using False assms(1) by (auto simp: split_inv_def)
qed

section \<open>Collected processes\<close>

definition range_idle :: "ept_migrate \<Rightarrow> idle_pages" where
  "range_idle e = es_idle (em_scan e)"

definition owns_ranges :: "process \<Rightarrow> bool" where
  "owns_ranges p \<longleftrightarrow> list_all (\<lambda>e. ip_pid (range_idle e) = pr_pid p) (pr_ranges p)"

text \<open>Splitting only adds ranges, which carry the pid of the process.\<close>

definition only_ranges :: "process \<Rightarrow> process \<Rightarrow> bool" where
  "only_ranges p q \<longleftrightarrow>
     pr_pid q = pr_pid p \<and> pr_policy q = pr_policy p \<and> pr_status q = pr_status p \<and>
     pr_context q = pr_context p \<and> (owns_ranges p \<longrightarrow> owns_ranges q)"

lemma only_ranges_refl [simp]: "only_ranges p p"
  by (simp add: only_ranges_def)

lemma only_ranges_trans [trans]: "only_ranges p q \<Longrightarrow> only_ranges q r \<Longrightarrow> only_ranges p r"
  by (simp add: only_ranges_def)

lemma only_ranges_add_range [simp]: "only_ranges p (add_range raw a b p)"
  by (simp add: only_ranges_def owns_ranges_def range_idle_def add_range_def update_idle_def
      set_va_range_def Let_def)

lemma split_vma_only_ranges:
  assumes "split_vma raw max_bytes base sz offset s = Some t"
  shows "only_ranges (fst s) (fst t)"
proof (rule split_vma.raw_induct [OF _ assms, where P = "\<lambda>_ _ _ _ _ s t. only_ranges (fst s) (fst t)"])
  fix f raw max_bytes base sz offset s t
  assume IH: "\<And>raw max_bytes base sz offset s t. f raw max_bytes base sz offset s = Some t \<Longrightarrow> only_ranges (fst s) (fst t)"
    and r: "(if offset < sz then
        case s of (p, start, acc) \<Rightarrow>
          let e = (base + offset) AND NOT (PMD_SIZE - 1)
          in f raw max_bytes base sz (offset + max_bytes) (add_range raw start e p, e, 0)
      else Some s) = Some t"
  show "only_ranges (fst s) (fst t)"
  proof (cases "offset < sz")
    case True
    obtain p start acc where s: "s = (p, start, acc)" by (cases s)
    let ?e = "(base + offset) AND NOT (PMD_SIZE - 1)"
    have "f raw max_bytes base sz (offset + max_bytes) (add_range raw start ?e p, ?e, 0) = Some t"
      using r True by (simp add: s Let_def)
    from IH [OF this] have "only_ranges (add_range raw start ?e p) (fst t)" by simp
    then show ?thesis using only_ranges_trans [OF only_ranges_add_range] by (simp add: s)
  next
    case False
    then show ?thesis using r by simp
  qed
qed

lemma split_step_only_ranges:
  assumes "split_step raw max_bytes vma s = Some t"
  shows "only_ranges (fst s) (fst t)"
proof (cases "vma_start vma \<ge> TASK_SIZE_MAX")
  case True
  then show ?thesis using assms by (simp add: split_step_def)
next
  case False
  obtain p start acc where s: "s = (p, start, acc)" by (cases s)
  from assms False obtain p1 start1 acc1 where
    1: "split_vma raw max_bytes (vma_start vma) (vma_end vma - vma_start vma) max_bytes
          (p, start, acc + (vma_end vma - vma_start vma)) = Some (p1, start1, acc1)"
    and t: "(if acc1 > max_bytes then Some (add_range raw start1 (vma_end vma) p1, vma_end vma, 0)
             else Some (p1, start1, acc1)) = Some t"
    by (auto simp: split_step_def s Let_def bind_eq_Some_conv)
  have "only_ranges p p1" using split_vma_only_ranges [OF 1] by simp
  moreover have "only_ranges p1 (fst t)" using t by (auto split: if_splits)
  ultimately show ?thesis by (simp add: s only_ranges_trans)
qed

lemma split_vmas_only_ranges:
  "split_vmas raw max_bytes vmas s = Some t \<Longrightarrow> only_ranges (fst s) (fst t)"
proof (induction vmas arbitrary: s)
  case (Cons vma vmas)
  then obtain u where "split_step raw max_bytes vma s = Some u" "split_vmas raw max_bytes vmas u = Some t"
    by (auto simp: bind_eq_Some_conv)
  then show ?case using Cons.IH split_step_only_ranges by (blast intro: only_ranges_trans)
qed simp

lemma split_ranges_only_ranges:
  assumes "split_ranges P op raw k p = Some (q, k')"
  shows "only_ranges p q"
proof -
  obtain lines k1 where m: "po_maps P (pr_pid p) k = (lines, k1)" by (cases "po_maps P (pr_pid p) k")
  show ?thesis
  proof (cases "rss_bytes op p = 0 \<or> rss_bytes op p < split_max_bytes op")
    case True
    then show ?thesis using assms by (auto simp: split_ranges_def Let_def split: if_splits)
  next
    case False
    with assms obtain p1 start acc where
      1: "split_vmas raw (split_max_bytes op) (maps_load (po_scan P) lines) (p, 0, 0) = Some (p1, start, acc)"
      and q: "q = (if acc \<noteq> 0 then add_range raw start TASK_SIZE_MAX p1 else p1)"
      by (auto simp: split_ranges_def Let_def m bind_eq_Some_conv)
    have "only_ranges p p1" using split_vmas_only_ranges [OF 1] by simp
    then show ?thesis by (auto simp: q intro: only_ranges_trans)
  qed
qed

text \<open>What a process of the collection looks like.\<close>

definition follows_policy :: "policy list \<Rightarrow> int \<Rightarrow> process \<Rightarrow> bool" where
  "follows_policy pols pid p \<longleftrightarrow>
     pr_pid p = pid \<and> ctx_pid (pr_context p) = pid \<and> match_policies p pols = Some (pr_policy p) \<and>
     list_all (\<lambda>e. ip_pid (range_idle e) = pid \<and>
                   ip_placement (range_idle e) = pol_placement (pr_policy p)) (pr_ranges p)"

lemma match_policy_cong: "pr_pid p = pr_pid q \<Longrightarrow> pr_status p = pr_status q \<Longrightarrow> match_policy p = match_policy q"
  by (simp add: match_policy_def fun_eq_iff)

lemma match_policies_cong:
  "pr_pid p = pr_pid q \<Longrightarrow> pr_status p = pr_status q \<Longrightarrow> match_policies p pols = match_policies q pols"
  by (induction pols) (simp_all add: match_policy_cong [of p q])

lemma process_load_new:
  "process_load P pid k (new_process uninit) = (err, p, k') \<Longrightarrow>
     pr_pid p = pid \<and> pr_ranges p = []"
  by (auto simp: process_load_def new_process_def Let_def split: prod.splits)

lemma collect_one_follows:
  assumes "collect_one P op raw uninit (Some pols) pid (k, h) = Some (k', h')"
    and "\<And>i p. h i = Some p \<Longrightarrow> follows_policy pols i p" and "h' i = Some p"
  shows "follows_policy pols i p"
proof -
  obtain err p1 k1 where l: "process_load P pid k (new_process uninit) = (err, p1, k1)"
    by (cases "process_load P pid k (new_process uninit)")
  have p1: "pr_pid p1 = pid" "pr_ranges p1 = []" using process_load_new [OF l] by auto
  show ?thesis
  proof (cases "err \<noteq> 0 \<or> match_policies p1 pols = None")
    case True
    then have "h' = h" using assms(1) by (auto simp: collect_one_def l Let_def split: if_splits)
    then show ?thesis using assms(2,3) by simp
  next
    case False
    then obtain pol where e: "err = 0" and pol: "match_policies p1 pols = Some pol" by auto
    from assms(1) obtain p2 k2 where 2: "split_ranges P op raw k1 p1 = Some (p2, k2)"
      and h': "h' = h(pid \<mapsto> (set_policy pol p2)\<lparr>pr_context := set_ctx_pid pid (pr_context p2)\<rparr>)"
      by (auto simp: collect_one_def l Let_def e pol bind_eq_Some_conv set_policy_def)
    have o: "only_ranges p1 p2" by (rule split_ranges_only_ranges [OF 2])
    have o2: "pr_pid p2 = pid" using o p1(1) by (simp add: only_ranges_def)
    have "owns_ranges p1" by (simp add: owns_ranges_def p1(2))
    with o have "owns_ranges p2" by (simp add: only_ranges_def)
    then have "list_all (\<lambda>e. ip_pid (range_idle e) = pid) (pr_ranges p2)"
      unfolding owns_ranges_def o2 .
    moreover have "match_policies p2 pols = Some pol"
      using match_policies_cong [of p1 p2] o pol by (simp add: only_ranges_def)
    ultimately have "follows_policy pols pid ((set_policy pol p2)\<lparr>pr_context := set_ctx_pid pid (pr_context p2)\<rparr>)"
      using o2 match_policies_cong
          [of "(set_policy pol p2)\<lparr>pr_context := set_ctx_pid pid (pr_context p2)\<rparr>" p2 pols]
      by (simp add: follows_policy_def set_policy_def set_ctx_pid_def
          list.pred_map comp_def range_set_policy_def update_idle_def range_idle_def)
    then show ?thesis using assms(2,3) by (auto simp: h' split: if_splits)
  qed
qed

lemma collect_each_follows:
  assumes "collect_each P op raw uninit (Some pols) pids (k, h) = Some (k', h')"
    and "\<And>i p. h i = Some p \<Longrightarrow> follows_policy pols i p" and "h' i = Some p"
  shows "follows_policy pols i p"
  using assms
proof (induction pids arbitrary: k h)
  case (Cons pid pids)
  then obtain k1 h1 where 1: "collect_one P op raw uninit (Some pols) pid (k, h) = Some (k1, h1)"
    and 2: "collect_each P op raw uninit (Some pols) pids (k1, h1) = Some (k', h')"
    by (auto simp: bind_eq_Some_conv)
  show ?case
    by (rule Cons.IH [OF 2 _ Cons.prems(3)]) (rule collect_one_follows [OF 1 Cons.prems(2)])
qed simp

lemma collect_processes_follows:
  assumes "collect_processes P op raw uninit (Some pols) k c = Some (err, k', c')"
    and "process_hash c' pid = Some p"
  shows "follows_policy pols pid p"
proof -
  obtain e pids k1 where 1: "collect_pids P k (pc_pids c) = (e, pids, k1)" by (cases "collect_pids P k (pc_pids c)")
  obtain pids2 k2 where 2: "get_pids P k1 pids = (pids2, k2)" by (cases "get_pids P k1 pids")
  from assms obtain h where "e = 0"
    and "collect_each P op raw uninit (Some pols) pids2 (k2, Map.empty) = Some (k', h)" and "process_hash c' = h"
    by (auto simp: collect_processes_def Let_def 1 2 bind_eq_Some_conv split: if_splits)
  then show ?thesis using collect_each_follows [of P op raw uninit pols pids2 k2 Map.empty k' h pid p] assms(2) by simp
qed

section \<open>Properties\<close>




section \<open>Examples\<close>

definition example_options :: "int options" where
  "example_options = (Option_ctor 0 1 0)\<lparr>opt_split_rss_size := ''2M''\<rparr>"

definition example_status :: "string list" where
  "example_status = [''Name:'' @ [CHR 0x09] @ ''redis'' @ [CHR 0x0A],
                     ''RssAnon:'' @ [CHR 0x09] @ ''   65536 kB'' @ [CHR 0x0A]]"

text \<open>Two areas, of 6M and of 1M; the lines of the map are named.\<close>

definition example_scan :: "string \<Rightarrow> maps_scan" where
  "example_scan line =
     (let (a, b) = (if line = ''big'' then (0x400000, 0xA00000) else (0x1000000, 0x1100000))
      in \<lparr>sc_ret = 7, sc_start = a, sc_end = b, sc_perms = ''rw-p'', sc_offset = 0, sc_major = 0,
          sc_minor = 0, sc_ino = 0, sc_path_index = 0\<rparr>)"

definition example_proc :: "string list \<Rightarrow> unit proc_ops" where
  "example_proc maps =
     \<lparr>po_dir = (\<lambda>k. (Dir_entries [(True, ''self''), (True, ''7'')] 0, k)),
      po_status = (\<lambda>pid k. (Inr example_status, k)), po_maps = (\<lambda>pid k. (Some maps, k)),
      po_scan = example_scan\<rparr>"

definition example_process :: process where
  "example_process = fst (snd (process_load (example_proc []) 7 () (new_process 0)))"

lemma example_process_facts:
  "pr_ranges example_process = []" "pr_pid example_process = 7"
  "get_number (pr_status example_process) ''RssAnon'' = 65536"
  "ps_name (pr_status example_process) = ''redis''"
  by code_simp+

lemma example_max_bytes: "split_max_bytes example_options = 0x200000"
proof -
  have "strtoull ''2M'' = (2, ''M'')"
    by (simp add: strtoull_def char_at_def is_space_def digit_number_def based_value_def ULLONG_MAX_def Let_def)
  then have "memparse ''2M'' = (0x200000, [])"
    by (simp add: memparse_def char_at_def suffix_steps_def push_bit_eq_mult numeral_2_eq_2)
  then show ?thesis by (simp add: split_max_bytes_def example_options_def)
qed

lemma example_rss: "rss_bytes example_options example_process = 0x4000000"
  by (simp add: rss_bytes_def example_process_facts Let_def)
    (simp add: example_options_def Option_ctor_def push_bit_eq_mult)


lemma example_split:
  "split_ranges (example_proc [''big'']) example_options raw () example_process =
     Some (add_range raw 0x600000 0x800000 (add_range raw 0 0x600000 example_process), ())"
proof -
  have c: "chunk_end 0x600000 = 0x600000" "chunk_end 0x800000 = 0x800000"
    by (simp_all add: chunk_end_def PMD_SIZE_def push_bit_eq_mult)
  have 3: "split_vma raw 0x200000 0x400000 0x600000 0x600000 s = Some s" for s
    by (simp add: split_vma_stop)
  have 2: "split_vma raw 0x200000 0x400000 0x600000 0x400000 (q, start, acc) =
      Some (add_range raw start 0x800000 q, 0x800000, 0)" for q start acc
    by (subst split_vma_unfold) (simp add: c 3)
  have 1: "split_vma raw 0x200000 0x400000 0x600000 0x200000 (q, start, acc) =
      Some (add_range raw 0x600000 0x800000 (add_range raw start 0x600000 q), 0x800000, 0)" for q start acc
    by (subst split_vma_unfold) (simp add: c 2)
  have "split_vmas raw 0x200000 (maps_load example_scan (Some [''big''])) (example_process, 0, 0) =
    Some (add_range raw 0x600000 0x800000 (add_range raw 0 0x600000 example_process), 0x800000, 0)"
    by (simp add: maps_load_def example_scan_def maps_entry_of_def TASK_SIZE_MAX_def PAGE_SIZE_def
        push_bit_eq_mult Let_def split_step_def 1)
  then show ?thesis
    by (simp add: split_ranges_def example_rss example_max_bytes example_proc_def Let_def)
qed

text \<open>
  The inner loop resets \<open>sum\<close> to 0, so the rest of the last area is not scanned: the ranges of an area
  from 4M to 10M end at 8M.
\<close>

lemma split_ranges_drop_tail:
  "map_option (\<lambda>r. spans (fst r)) (split_ranges (example_proc [''big'']) example_options raw () example_process)
     = Some [(0, 0x600000), (0x600000, 0x800000)]"
  by (simp add: example_split) (simp add: spans_def example_process_facts)

definition example_policies :: "policy list" where
  "example_policies = [Policy_ctor\<lparr>pol_name := ''redis'', pol_placement := PLACEMENT_DRAM\<rparr>]"

lemma example_collect_pids: "collect_pids (example_proc maps) () [] = (0, [7], ())"
  by (simp add: collect_pids_def example_proc_def pids_of_entries_def is_digit_def char_at_def
      less_eq_char_def atoi_def is_space_def decimal_def digit_val_def)

lemma example_load: "process_load (example_proc maps) 7 () (new_process 0) = (0, example_process, ())"
proof -
  have "process_load (example_proc maps) = process_load (example_proc [])"
    by (simp add: fun_eq_iff process_load_def status_load_def example_proc_def)
  moreover have "fst (process_load (example_proc []) 7 () (new_process 0)) = 0" by code_simp
  ultimately show ?thesis by (simp add: example_process_def prod_eq_iff)
qed

lemma example_match: "match_policies example_process example_policies = Some (hd example_policies)"
  by (simp add: example_policies_def match_policy_def example_process_facts Policy_ctor_def)


section \<open>Reading the configuration again\<close>

text \<open>
  Reading the configuration again keeps the old policies in front: a process that matched one of them
  goes on to match it, whatever the new file says.
\<close>

lemma match_policies_append: "match_policies p pols = Some pol \<Longrightarrow> match_policies p (pols @ added) = Some pol"
  by (induction pols) (auto split: if_splits)

lemma reload_keeps_first_match:
  "match_policies p (opt_policies op) = Some pol \<Longrightarrow>
   match_policies p (opt_policies (snd (reparse Y load_file op))) = Some pol"
  using reparse_extends [of op Y load_file] by (auto simp: extends_policies_def match_policies_append)

end
