(* ===== verification/Page_Refs.thy ===== *)
theory Page_Refs
  imports Processes
begin

text \<open>
  The tool \<open>page-refs.c\<close>, which counts by the kernel's idle bitmap how often each physical page was
  used. The bitmap file and \<open>/proc/kpageflags\<close> are parameters with a state \<open>'k\<close>; both transfer whole
  64-bit words. So are memory allocation, \<open>sscanf\<close>, \<open>atof\<close> and the page size.
\<close>

unbundle bit_operations_syntax

section \<open>State\<close>

definition IDLEMAP_CHUNK_SIZE :: nat where "IDLEMAP_CHUNK_SIZE = 8"
definition IDLEMAP_BUF_SIZE :: nat where "IDLEMAP_BUF_SIZE = 2 ^ 20"
definition MAX_IDLEMAP_SIZE :: u64 where "MAX_IDLEMAP_SIZE = push_bit 40 1"
definition PFN_IDLE_BITMAP_PATH :: string where "PFN_IDLE_BITMAP_PATH = ''/sys/kernel/mm/page_idle/bitmap''"

text \<open>The global variables; a buffer is the list of its elements.\<close>

record refs_state =
  g_idlebuf :: "u64 list"
  g_idlebuf_size :: int
  g_idlebuf_len :: int
  g_refs_count :: "u16 list"
  g_refs_2m_count :: "u16 list"
  g_start_pfn :: u64
  g_num_pfn :: u64
  g_sim_2m_num_pfn :: u64
  g_setidle_bufsize :: int
  g_kpageflags_buf :: "u64 list option"
  g_kpageflags_buf_size :: int
  g_kpageflags_buf_len :: int
  g_idle_shift :: nat

text \<open>The bit numbers of \<open>linux/kernel-page-flags.h\<close>.\<close>

record kpf_bits =
  KPF_LRU :: nat
  KPF_HUGE :: nat
  KPF_THP :: nat

record 'k page_dev =
  pd_open :: "string \<Rightarrow> 'k \<Rightarrow> bool \<times> 'k"
  pd_seek :: "u64 \<Rightarrow> 'k \<Rightarrow> bool \<times> 'k"
  pd_write :: "int \<Rightarrow> 'k \<Rightarrow> (int + nat) \<times> 'k"
  pd_read :: "u64 \<Rightarrow> 'k \<Rightarrow> (int + u64 list) \<times> 'k"
  pd_flags_open :: "'k \<Rightarrow> bool \<times> 'k"
  pd_flags_seek :: "u64 \<Rightarrow> 'k \<Rightarrow> bool \<times> 'k"
  pd_flags_read :: "u64 \<Rightarrow> 'k \<Rightarrow> (int + u64 list) \<times> 'k"
  pd_alloc :: "u64 \<Rightarrow> 'k \<Rightarrow> bool \<times> 'k"

section \<open>Counting the idle bits\<close>

text \<open>
  The counts of pages and of 2M regions, the last region counted, and whether a region may be
  counted. The inner loop ends at the first page beyond \<open>g_num_pfn\<close> that is not idle.
\<close>

type_synonym accounting = "u16 list \<times> u16 list \<times> nat \<times> bool"

definition account_page :: "nat \<Rightarrow> accounting \<Rightarrow> accounting run" where
  "account_page pfn acc =
     (case acc of (refs, refs_2m, pfn_2m, count_2m) \<Rightarrow>
        if pfn \<ge> length refs then Inl Bad_index
        else let refs = refs[pfn := refs ! pfn + 1]
             in if count_2m then
                  let pfn_2m = pfn div 512
                  in if pfn_2m \<ge> length refs_2m then Inl Bad_index
                     else Inr (refs, refs_2m[pfn_2m := refs_2m ! pfn_2m + 1], pfn_2m, False)
                else Inr (refs, refs_2m, pfn_2m, count_2m))"

fun account_bits :: "u64 \<Rightarrow> nat \<Rightarrow> nat \<Rightarrow> nat list \<Rightarrow> accounting \<Rightarrow> accounting run" where
  "account_bits idlebits num_pfn base [] acc = Inr acc"
| "account_bits idlebits num_pfn base (b # bs) acc =
     (if \<not> bit idlebits b then
        if base + b \<ge> num_pfn then Inr acc
        else rbind (account_page (base + b) acc) (account_bits idlebits num_pfn base bs)
      else account_bits idlebits num_pfn base bs acc)"

function account_loop :: "refs_state \<Rightarrow> nat \<Rightarrow> accounting \<Rightarrow> accounting run" where
  "account_loop st len acc =
     (if int len < g_idlebuf_len st then
        let idlemap = len div IDLEMAP_CHUNK_SIZE
        in if idlemap \<ge> length (g_idlebuf st) then Inl Bad_index
           else rbind (account_bits (g_idlebuf st ! idlemap) (unat (g_num_pfn st)) (idlemap * 64) [0..<64] acc)
             (\<lambda>(refs, refs_2m, pfn_2m, count_2m).
                let len = len + IDLEMAP_CHUNK_SIZE; base_pfn = len div IDLEMAP_CHUNK_SIZE * 64
                in account_loop st len (refs, refs_2m, pfn_2m, if base_pfn div 512 > pfn_2m then True else count_2m))
      else Inr acc)"
  by pat_completeness auto

termination
  by (relation "measure (\<lambda>(st, len, acc). nat (g_idlebuf_len st) - len)") (auto simp: IDLEMAP_CHUNK_SIZE_def)

declare account_loop.simps [simp del]

definition account_refs :: "refs_state \<Rightarrow> refs_state run" where
  "account_refs st =
     rbind (account_loop st 0 (g_refs_count st, g_refs_2m_count st, 0, True))
       (\<lambda>(refs, refs_2m, _, _). Inr (st\<lparr>g_refs_count := refs, g_refs_2m_count := refs_2m\<rparr>))"

section \<open>Histograms\<close>

text \<open>The result is 1 when a count is out of range.\<close>

fun count_refs_loop ::
    "kpf_bits \<Rightarrow> refs_state \<Rightarrow> nat \<Rightarrow> nat list \<Rightarrow> u64 list \<times> u64 list \<Rightarrow> (int \<times> u64 list \<times> u64 list) run" where
  "count_refs_loop K st lim [] c = Inr (0, c)"
| "count_refs_loop K st lim (pfn # pfns) (c4k, c2m) =
     (if pfn \<ge> length (g_refs_count st) then Inl Bad_index
      else let nrefs = unat (g_refs_count st ! pfn)
           in if nrefs > lim then Inr (1, c4k, c2m)
              else case g_kpageflags_buf st of
                None \<Rightarrow> count_refs_loop K st lim pfns (c4k[nrefs := c4k ! nrefs + 1], c2m)
              | Some fl \<Rightarrow>
                  if pfn \<ge> length fl then Inl Bad_index
                  else if \<not> bit (fl ! pfn) (KPF_LRU K) then count_refs_loop K st lim pfns (c4k, c2m)
                  else if bit (fl ! pfn) (KPF_HUGE K) \<or> bit (fl ! pfn) (KPF_THP K) then
                    count_refs_loop K st lim pfns (c4k, c2m[nrefs := c2m ! nrefs + 1])
                  else count_refs_loop K st lim pfns (c4k[nrefs := c4k ! nrefs + 1], c2m))"

definition count_refs_pages :: "kpf_bits \<Rightarrow> refs_state \<Rightarrow> nat \<Rightarrow> (int \<times> u64 list \<times> u64 list) run" where
  "count_refs_pages K st lim =
     count_refs_loop K st lim [0..<unat (g_num_pfn st)] (replicate (lim + 1) 0, replicate (lim + 1) 0)"

fun count_sim_2m_loop ::
    "kpf_bits \<Rightarrow> refs_state \<Rightarrow> nat \<Rightarrow> nat list \<Rightarrow> u64 list \<Rightarrow> (int \<times> u64 list) run" where
  "count_sim_2m_loop K st lim [] c = Inr (0, c)"
| "count_sim_2m_loop K st lim (pfn # pfns) c =
     (if pfn \<ge> length (g_refs_2m_count st) then Inl Bad_index
      else let nrefs = unat (g_refs_2m_count st ! pfn)
           in if nrefs \<le> lim then
                case g_kpageflags_buf st of
                  None \<Rightarrow> count_sim_2m_loop K st lim pfns (c[nrefs := c ! nrefs + 1])
                | Some fl \<Rightarrow>
                    if pfn * 512 \<ge> length fl then Inl Bad_index
                    else if \<not> bit (fl ! (pfn * 512)) (KPF_LRU K) then count_sim_2m_loop K st lim pfns c
                    else count_sim_2m_loop K st lim pfns (c[nrefs := c ! nrefs + 1])
              else Inr (1, c))"

definition count_sim_2m_refs :: "kpf_bits \<Rightarrow> refs_state \<Rightarrow> nat \<Rightarrow> (int \<times> u64 list) run" where
  "count_sim_2m_refs K st lim =
     count_sim_2m_loop K st lim [0..<unat (g_sim_2m_num_pfn st)] (replicate (lim + 1) 0)"

text \<open>\<open>for (nrefs = 0; nrefs <= loop; nrefs++)\<close> with a 16-bit \<open>nrefs\<close>: the rows written to the file.\<close>

partial_function (option) output_rows :: "(u16 \<Rightarrow> 'r) \<Rightarrow> u16 \<Rightarrow> u16 \<Rightarrow> 'r list \<Rightarrow> 'r list option" where
  "output_rows row lim nrefs rows =
     (if nrefs \<le> lim then output_rows row lim (nrefs + 1) (rows @ [row nrefs]) else Some rows)"

definition output_refs_count ::
    "kpf_bits \<Rightarrow> refs_state \<Rightarrow> u16 \<Rightarrow> (int \<times> (u16 \<times> u64 \<times> u64 \<times> u64) list) run option" where
  "output_refs_count K st lim =
     (case count_refs_pages K st (unat lim) of
        Inl e \<Rightarrow> Some (Inl e)
      | Inr (err, c4k, c2m) \<Rightarrow>
          if err \<noteq> 0 then Some (Inr (- 1, []))
          else case count_sim_2m_refs K st (unat lim) of
            Inl e \<Rightarrow> Some (Inl e)
          | Inr (err, sim) \<Rightarrow>
              if err \<noteq> 0 then Some (Inr (- 1, []))
              else do { rows \<leftarrow> output_rows (\<lambda>n. (n, c4k ! unat n, c2m ! unat n, sim ! unat n)) lim 0 [];
                        Some (Inr (0, rows)) })"

section \<open>The bitmap and the page flags\<close>

partial_function (option) setidle_loop ::
    "'k page_dev \<Rightarrow> refs_state \<Rightarrow> u64 \<Rightarrow> 'k \<Rightarrow> (int \<times> 'k) option" where
  "setidle_loop D st size_left k =
     (if size_left \<noteq> 0 then
        case pd_write D (g_setidle_bufsize st) k of
          (Inl errno, k) \<Rightarrow> Some (if errno = ENXIO then (0, k) else (- 1, k))
        | (Inr len, k) \<Rightarrow> setidle_loop D st (size_left - push_bit (g_idle_shift st) (of_nat len)) k
      else Some (0, k))"

definition setidlemap :: "'k page_dev \<Rightarrow> refs_state \<Rightarrow> u64 \<Rightarrow> u64 \<Rightarrow> 'k \<Rightarrow> (int \<times> 'k) run option" where
  "setidlemap D st offset bytes k =
     (let (ok, k) = pd_seek D (drop_bit (g_idle_shift st) offset) k
      in if \<not> ok then Some (Inl Exit_called) else map_option Inr (setidle_loop D st bytes k))"

text \<open>The words that were read go to word \<open>n\<close> of the buffer.\<close>

definition buffer_store :: "nat \<Rightarrow> u64 list \<Rightarrow> u64 list \<Rightarrow> u64 list run" where
  "buffer_store n ws buf =
     (if n + length ws > length buf then Inl Bad_index else Inr (take n buf @ ws @ drop (n + length ws) buf))"

partial_function (option) loadidle_loop ::
    "'k page_dev \<Rightarrow> refs_state \<Rightarrow> u64 \<Rightarrow> 'k \<Rightarrow> (refs_state \<times> 'k) run option" where
  "loadidle_loop D st size_left k =
     (case pd_read D (word_of_int (g_idlebuf_size st - g_idlebuf_len st)) k of
        (Inl errno, k) \<Rightarrow> Some (Inr (st, k))
      | (Inr ws, k) \<Rightarrow>
          if ws = [] then Some (Inr (st, k))
          else case buffer_store (nat (g_idlebuf_len st) div 8) ws (g_idlebuf st) of
            Inl e \<Rightarrow> Some (Inl e)
          | Inr buf \<Rightarrow>
              let len = 8 * length ws;
                  st = st\<lparr>g_idlebuf := buf, g_idlebuf_len := g_idlebuf_len st + int len\<rparr>;
                  size_left = size_left - push_bit (g_idle_shift st) (of_nat len)
              in if size_left = 0 then Some (Inr (st, k)) else loadidle_loop D st size_left k)"

definition loadidlemap ::
    "'k page_dev \<Rightarrow> refs_state \<Rightarrow> u64 \<Rightarrow> u64 \<Rightarrow> 'k \<Rightarrow> (int \<times> refs_state \<times> 'k) run option" where
  "loadidlemap D st offset bytes k =
     (let (ok, k) = pd_seek D (drop_bit (g_idle_shift st) offset) k
      in if \<not> ok then Some (Inr (- 4, st, k))
         else map_option (\<lambda>r. rbind r (\<lambda>(st, k). Inr (0, st, k)))
                (loadidle_loop D (st\<lparr>g_idlebuf_len := 0\<rparr>) bytes k))"

definition int_of_u64 :: "u64 \<Rightarrow> int" where
  "int_of_u64 w = sint (ucast w :: u32)"

partial_function (option) loadflags_loop ::
    "'k page_dev \<Rightarrow> refs_state \<Rightarrow> u64 \<Rightarrow> 'k \<Rightarrow> (refs_state \<times> 'k) run option" where
  "loadflags_loop D st num_pfn k =
     (case pd_flags_read D (word_of_int (g_kpageflags_buf_size st - g_kpageflags_buf_len st)) k of
        (Inl errno, k) \<Rightarrow> Some (Inr (st, k))
      | (Inr ws, k) \<Rightarrow>
          if ws = [] then Some (Inr (st, k))
          else case buffer_store (nat (g_kpageflags_buf_len st) div 8) ws (the (g_kpageflags_buf st)) of
            Inl e \<Rightarrow> Some (Inl e)
          | Inr buf \<Rightarrow>
              let st = st\<lparr>g_kpageflags_buf := Some buf,
                          g_kpageflags_buf_len := g_kpageflags_buf_len st + int (8 * length ws)\<rparr>;
                  num_pfn = num_pfn - 1
              in if num_pfn = 0 then Some (Inr (st, k)) else loadflags_loop D st num_pfn k)"

definition loadflags ::
    "'k page_dev \<Rightarrow> refs_state \<Rightarrow> u64 \<Rightarrow> u64 \<Rightarrow> 'k \<Rightarrow> (int \<times> refs_state \<times> 'k) run option" where
  "loadflags D st pfn num_pfn k =
     (let (ok, k) = pd_flags_open D k
      in if \<not> ok then Some (Inr (- 3, st, k))
         else let st = st\<lparr>g_kpageflags_buf_size := int_of_u64 (g_num_pfn st * 8)\<rparr>;
                  (ok, k) = pd_alloc D (g_num_pfn st * 8) k
              in if \<not> ok then Some (Inr (- 1, st\<lparr>g_kpageflags_buf := None\<rparr>, k))
                 else let st = st\<lparr>g_kpageflags_buf := Some (replicate (unat (g_num_pfn st)) 0)\<rparr>;
                          (ok, k) = pd_flags_seek D (pfn * 8) k
                      in if \<not> ok then Some (Inr (- 4, st, k))
                         else map_option (\<lambda>r. rbind r (\<lambda>(st, k). Inr (0, st, k)))
                                (loadflags_loop D (st\<lparr>g_kpageflags_buf_len := 0\<rparr>) num_pfn k))"

section \<open>The program\<close>

record 'f refs_args =
  ra_offset :: u64
  ra_size :: u64
  ra_interval :: 'f
  ra_loop :: u16
  ra_bitmap_file :: string
  ra_output_file :: string
  ra_debug :: int

definition refs_args_init :: "'f \<Rightarrow> 'f refs_args" where
  "refs_args_init tenth =
     \<lparr>ra_offset = 0, ra_size = 0, ra_interval = tenth, ra_loop = 1, ra_bitmap_file = PFN_IDLE_BITMAP_PATH,
      ra_output_file = ''refs_count'', ra_debug = 0\<rparr>"

text \<open>\<open>scan_range\<close> is \<open>sscanf\<close> with \<open>%lx-%lx\<close>.\<close>

definition refs_option ::
    "(string \<Rightarrow> (u64 \<times> u64) option) \<Rightarrow> (string \<Rightarrow> 'f) \<Rightarrow> char \<times> string \<Rightarrow> 'f refs_args \<Rightarrow> 'f refs_args run" where
  "refs_option scan_range atof c a =
     (let arg = snd c in
      if fst c = CHR 0x00 then Inr a
      else if fst c = CHR ''o'' then Inr (a\<lparr>ra_offset := fst (memparse arg)\<rparr>)
      else if fst c = CHR ''s'' then Inr (a\<lparr>ra_size := fst (memparse arg)\<rparr>)
      else if fst c = CHR ''r'' then
        (case scan_range arg of
           None \<Rightarrow> Inl Exit_called
         | Some (from, to) \<Rightarrow> Inr (a\<lparr>ra_offset := from, ra_size := to - from\<rparr>))
      else if fst c = CHR ''i'' then Inr (a\<lparr>ra_interval := atof arg\<rparr>)
      else if fst c = CHR ''l'' then Inr (a\<lparr>ra_loop := word_of_int (atoi arg)\<rparr>)
      else if fst c = CHR ''b'' then Inr (a\<lparr>ra_bitmap_file := arg\<rparr>)
      else if fst c = CHR ''f'' then Inr (a\<lparr>ra_output_file := arg\<rparr>)
      else if fst c = CHR ''v'' then Inr (a\<lparr>ra_debug := ra_debug a + 1\<rparr>)
      else Inl Exit_called)"

text \<open>\<open>ffs\<close>: one plus the number of the lowest bit that is set, 0 without one.\<close>

definition ffs :: "nat \<Rightarrow> nat" where
  "ffs n = (case filter (bit n) [0..<32] of [] \<Rightarrow> 0 | b # _ \<Rightarrow> b + 1)"

definition align_up :: "u64 \<Rightarrow> u64 \<Rightarrow> u64" where
  "align_up x a = (x + (a - 1)) AND NOT (a - 1)"

definition area_of_args :: "u64 \<Rightarrow> 'f refs_args \<Rightarrow> u64 \<times> u64" where
  "area_of_args pgsize a =
     (let offset = ra_offset a AND NOT (pgsize * 64 - 1);
          bytes = align_up (ra_size a) (pgsize * 64)
      in (offset, if bytes = 0 then MAX_IDLEMAP_SIZE else bytes))"

text \<open>
  The buffers. A negative result is the value \<open>main\<close> returns; otherwise it is 0. \<open>malloc\<close> leaves
  what \<open>garbage\<close> holds in the idle buffer.
\<close>

definition setup_buffers ::
    "'k page_dev \<Rightarrow> (nat \<Rightarrow> u64) \<Rightarrow> u64 \<Rightarrow> u64 \<times> u64 \<Rightarrow> string \<Rightarrow> refs_state \<Rightarrow> 'k \<Rightarrow> (int \<times> refs_state \<times> 'k) run" where
  "setup_buffers D garbage pgsize area bitmap_file st k =
     (let (offset, bytes) = area;
          bufsize = (ucast (bytes div (pgsize * 8)) :: u32);
          st = st\<lparr>g_idle_shift := ffs (unat pgsize) - 1 + 3,
                  g_setidle_bufsize := (if unat bufsize < IDLEMAP_BUF_SIZE then uint bufsize else int IDLEMAP_BUF_SIZE)\<rparr>;
          (ok, k) = pd_open D bitmap_file k
      in if \<not> ok then Inl Exit_called
         else let (ok, k) = pd_alloc D (ucast bufsize) k
              in if \<not> ok then Inr (- 1, st, k)
                 else let st = st\<lparr>g_idlebuf := map garbage [0..<unat bufsize div 8],
                                  g_idlebuf_size := sint bufsize,
                                  g_start_pfn := offset div pgsize, g_num_pfn := bytes div pgsize\<rparr>;
                          (ok, k) = pd_alloc D (2 * g_num_pfn st) k
                      in if \<not> ok then Inr (- 2, st, k)
                         else let st = st\<lparr>g_refs_count := replicate (unat (g_num_pfn st)) 0,
                                          g_sim_2m_num_pfn := (g_num_pfn st + 511) div 512\<rparr>;
                                  (ok, k) = pd_alloc D (2 * g_sim_2m_num_pfn st) k
                              in if \<not> ok then Inr (- 4, st, k)
                                 else Inr (0, st\<lparr>g_refs_2m_count := replicate (unat (g_sim_2m_num_pfn st)) 0\<rparr>, k))"

text \<open>The loop of \<open>main\<close> with the number of rounds that remain; the times are not modelled.\<close>

fun scan_rounds ::
    "'k page_dev \<Rightarrow> bool \<Rightarrow> u64 \<times> u64 \<Rightarrow> nat \<Rightarrow> refs_state \<Rightarrow> 'k \<Rightarrow> (int \<times> refs_state \<times> 'k) run option" where
  "scan_rounds D is_pfn_bitmap area 0 st k = Some (Inr (0, st, k))"
| "scan_rounds D is_pfn_bitmap area (Suc n) st k =
     do { r \<leftarrow> (if is_pfn_bitmap then setidlemap D st (fst area) (snd area) k else Some (Inr (0, k)));
          case r of
            Inl e \<Rightarrow> Some (Inl e)
          | Inr (ret, k) \<Rightarrow>
              if ret \<noteq> 0 then Some (Inr (ret, st, k))
              else do { r \<leftarrow> loadidlemap D st (fst area) (snd area) k;
                        case r of
                          Inl e \<Rightarrow> Some (Inl e)
                        | Inr (ret, st, k) \<Rightarrow>
                            if ret \<noteq> 0 then Some (Inr (ret, st, k))
                            else case account_refs st of
                              Inl e \<Rightarrow> Some (Inl e)
                            | Inr st \<Rightarrow> scan_rounds D is_pfn_bitmap area n st k } }"

text \<open>The result is the value \<open>main\<close> returns and the rows it has written.\<close>

definition page_refs_main ::
    "'k page_dev \<Rightarrow> kpf_bits \<Rightarrow> (nat \<Rightarrow> u64) \<Rightarrow> u64 \<Rightarrow> (string \<Rightarrow> (u64 \<times> u64) option) \<Rightarrow> (string \<Rightarrow> 'f) \<Rightarrow> 'f \<Rightarrow>
     (char \<times> string) list \<Rightarrow> refs_state \<Rightarrow> 'k \<Rightarrow> (int \<times> (u16 \<times> u64 \<times> u64 \<times> u64) list \<times> refs_state \<times> 'k) run option" where
  "page_refs_main D K garbage pgsize scan_range atof tenth args st k =
     (case rfold (refs_option scan_range atof) args (refs_args_init tenth) of
        Inl e \<Rightarrow> Some (Inl e)
      | Inr a \<Rightarrow>
          let is_pfn_bitmap = (ra_bitmap_file a = PFN_IDLE_BITMAP_PATH);
              area = area_of_args pgsize a
          in case setup_buffers D garbage pgsize area (ra_bitmap_file a) st k of
            Inl e \<Rightarrow> Some (Inl e)
          | Inr (ret, st, k) \<Rightarrow>
              if ret \<noteq> 0 then Some (Inr (ret, [], st, k))
              else do { r \<leftarrow> (if is_pfn_bitmap then loadflags D st (g_start_pfn st) (g_num_pfn st) k
                              else Some (Inr (0, st, k)));
                        case r of
                          Inl e \<Rightarrow> Some (Inl e)
                        | Inr (ret, st, k) \<Rightarrow>
                            if ret \<noteq> 0 then Some (Inr (ret, [], st, k))
                            else do { r \<leftarrow> scan_rounds D is_pfn_bitmap area (unat (ra_loop a)) st k;
                                      case r of
                                        Inl e \<Rightarrow> Some (Inl e)
                                      | Inr (ret, st, k) \<Rightarrow>
                                          if ret \<noteq> 0 then Some (Inr (ret, [], st, k))
                                          else do { r \<leftarrow> output_refs_count K st (ra_loop a);
                                                    Some (rbind r (\<lambda>(_, rows). Inr (ret, rows, st, k))) } } })"

end
