(* ===== verification/Page_Refs_Correct.thy ===== *)
theory Page_Refs_Correct
  imports Page_Refs
begin

text \<open>
  What \<open>page-refs.c\<close> counts: after some rounds the count of a page is the number of rounds in which
  its idle bit was clear, that of a 2M region the number of rounds with such a page in it, and the
  histogram counts every page on the LRU lists once.
\<close>

unbundle bit_operations_syntax

section \<open>One round\<close>

text \<open>The page was used: its idle bit is clear.\<close>

definition page_used :: "nat \<Rightarrow> u64 list \<Rightarrow> nat \<Rightarrow> bool" where
  "page_used N buf pfn \<longleftrightarrow> pfn < N \<and> pfn < 64 * length buf \<and> \<not> bit (buf ! (pfn div 64)) (pfn mod 64)"

definition region_used :: "nat \<Rightarrow> u64 list \<Rightarrow> nat \<Rightarrow> nat \<Rightarrow> bool" where
  "region_used N buf p r \<longleftrightarrow> (\<exists>i < p. page_used N buf i \<and> i div 512 = r)"

definition add_flags :: "(nat \<Rightarrow> bool) \<Rightarrow> u16 list \<Rightarrow> u16 list" where
  "add_flags f xs = map (\<lambda>i. xs ! i + of_bool (f i)) [0..<length xs]"

lemma add_flags_length [simp]: "length (add_flags f xs) = length xs"
  by (simp add: add_flags_def)

lemma add_flags_nth [simp]: "i < length xs \<Longrightarrow> add_flags f xs ! i = xs ! i + of_bool (f i)"
  by (simp add: add_flags_def)

lemma add_flags_cong: "(\<And>i. i < length xs \<Longrightarrow> f i = g i) \<Longrightarrow> add_flags f xs = add_flags g xs"
  by (simp add: add_flags_def)

lemma add_flags_none: "(\<And>i. i < length xs \<Longrightarrow> \<not> f i) \<Longrightarrow> add_flags f xs = xs"
  by (rule nth_equalityI) auto

lemma add_flags_upd:
  assumes "k < length xs" and "\<not> f k" and "g k" and "\<And>i. i \<noteq> k \<Longrightarrow> g i = f i"
  shows "(add_flags f xs)[k := add_flags f xs ! k + 1] = add_flags g xs"
  using assms by (intro nth_equalityI) (auto simp: nth_list_update)

text \<open>
  The state of the loops before page \<open>p\<close>, in region \<open>R\<close>: the pages below \<open>p\<close> are counted, and the
  region may still be counted exactly if none of its pages was used yet.
\<close>

definition acc_inv :: "nat \<Rightarrow> u64 list \<Rightarrow> u16 list \<Rightarrow> u16 list \<Rightarrow> nat \<Rightarrow> nat \<Rightarrow> accounting \<Rightarrow> bool" where
  "acc_inv N buf refs0 regions0 R p acc =
     (case acc of (refs, regions, last_2m, may_count) \<Rightarrow>
        refs = add_flags (\<lambda>i. i < p \<and> page_used N buf i) refs0 \<and>
        regions = add_flags (region_used N buf p) regions0 \<and>
        last_2m \<le> R \<and>
        (if may_count then \<forall>i < p. page_used N buf i \<longrightarrow> i div 512 < R
         else last_2m = R \<and> region_used N buf p R))"

lemma region_used_Suc:
  "region_used N buf (Suc p) r \<longleftrightarrow> region_used N buf p r \<or> page_used N buf p \<and> p div 512 = r"
  by (auto simp: region_used_def less_Suc_eq)

lemma acc_inv_idle:
  assumes "acc_inv N buf refs0 regions0 R p acc" and "\<not> page_used N buf p"
  shows "acc_inv N buf refs0 regions0 R (Suc p) acc"
proof -
  have "region_used N buf (Suc p) = region_used N buf p"
    using assms(2) by (auto simp: fun_eq_iff region_used_Suc)
  moreover have "(\<lambda>i. i < Suc p \<and> page_used N buf i) = (\<lambda>i. i < p \<and> page_used N buf i)"
    using assms(2) by (auto simp: fun_eq_iff less_Suc_eq)
  ultimately show ?thesis using assms by (auto simp: acc_inv_def less_Suc_eq)
qed

lemma acc_inv_idle_all:
  assumes "acc_inv N buf refs0 regions0 R p acc" and "p \<le> q" and "\<And>i. p \<le> i \<Longrightarrow> i < q \<Longrightarrow> \<not> page_used N buf i"
  shows "acc_inv N buf refs0 regions0 R q acc"
  using assms(2,1,3)
proof (induction q rule: dec_induct)
  case (step n)
  then show ?case by (intro acc_inv_idle) auto
qed

lemma account_page_inv:
  assumes inv: "acc_inv N buf refs0 regions0 (p div 512) p acc" and u: "page_used N buf p"
    and len: "length refs0 = N" "length regions0 = (N + 511) div 512"
  shows "\<exists>acc'. account_page p acc = Inr acc' \<and> acc_inv N buf refs0 regions0 (p div 512) (Suc p) acc'"
proof -
  obtain refs regions last_2m may_count where acc: "acc = (refs, regions, last_2m, may_count)" by (cases acc)
  let ?R = "p div 512" and ?used = "\<lambda>q i. i < q \<and> page_used N buf i"
  have p: "p < N" using u by (simp add: page_used_def)
  have R: "?R < length regions0" using p len(2) by (simp add: div_less_iff_less_mult)
  have refs: "refs[p := refs ! p + 1] = add_flags (?used (Suc p)) refs0"
  proof -
    have r: "refs = add_flags (?used p) refs0" using inv by (simp add: acc acc_inv_def)
    show ?thesis unfolding r using u p len(1) by (intro add_flags_upd) auto
  qed
  have regs: "regions = add_flags (region_used N buf p) regions0" "length regions = length regions0"
    "length refs = N"
    using inv len(1) by (simp_all add: acc acc_inv_def)
  have used: "region_used N buf (Suc p) ?R" using u by (simp add: region_used_Suc)
  show ?thesis
  proof (cases may_count)
    case True
    have "\<not> region_used N buf p ?R" using inv True by (auto simp: acc acc_inv_def region_used_def)
    then have "regions[?R := regions ! ?R + 1] = add_flags (region_used N buf (Suc p)) regions0"
      using R u unfolding regs(1) by (intro add_flags_upd) (auto simp: region_used_Suc)
    then show ?thesis using True p R refs regs used
      by (simp add: acc account_page_def acc_inv_def Let_def)
  next
    case False
    then have r: "region_used N buf p ?R" "last_2m = ?R" using inv by (simp_all add: acc acc_inv_def)
    then have "region_used N buf (Suc p) = region_used N buf p" by (auto simp: fun_eq_iff region_used_Suc)
    then show ?thesis using False p refs regs used r(2)
      by (simp add: acc account_page_def acc_inv_def Let_def)
  qed
qed

lemma account_bits_inv:
  assumes "acc_inv N buf refs0 regions0 R (64 * w + b) acc" and "w < length buf" and "R = w div 8" and "b \<le> 64"
    and len: "length refs0 = N" "length regions0 = (N + 511) div 512"
  shows "\<exists>acc'. account_bits (buf ! w) N (64 * w) [b..<64] acc = Inr acc' \<and>
    acc_inv N buf refs0 regions0 R (64 * w + 64) acc'"
  using assms(1,4)
proof (induction "64 - b" arbitrary: b acc)
  case 0
  then show ?case by simp
next
  case (Suc n)
  then have b: "b < 64" and bs: "[b..<64] = b # [Suc b..<64]" by (auto simp: upt_conv_Cons)
  let ?p = "64 * w + b"
  have u: "page_used N buf ?p \<longleftrightarrow> ?p < N \<and> \<not> bit (buf ! w) b"
  proof -
    have "?p div 64 = w" and "?p mod 64 = b" using b by simp_all
    moreover have "?p < 64 * length buf" using b assms(2) by linarith
    ultimately show ?thesis by (simp only: page_used_def simp_thms)
  qed
  have "?p div 64 = w" using b by simp
  then have R: "?p div 512 = R" using div_mult2_eq [of ?p 64 8] assms(3) by simp
  have IH: "\<exists>acc'. account_bits (buf ! w) N (64 * w) [Suc b..<64] a = Inr acc' \<and>
    acc_inv N buf refs0 regions0 R (64 * w + 64) acc'"
    if "acc_inv N buf refs0 regions0 R (Suc ?p) a" for a
    using Suc.hyps that b by simp
  show ?case
  proof (cases "bit (buf ! w) b")
    case True
    then show ?thesis using IH acc_inv_idle [OF Suc.prems(1)] u by (simp add: bs)
  next
    case False
    show ?thesis
    proof (cases "?p < N")
      case True
      then have "page_used N buf ?p" using u False by simp
      from account_page_inv [OF Suc.prems(1) [folded R] this len] obtain a where
        "account_page ?p acc = Inr a" "acc_inv N buf refs0 regions0 R (Suc ?p) a" by (auto simp: R)
      then show ?thesis using IH True False by (simp add: bs)
    next
      case gone: False
      have "acc_inv N buf refs0 regions0 R (64 * w + 64) acc"
        by (rule acc_inv_idle_all [OF Suc.prems(1)]) (use b gone in \<open>simp_all add: page_used_def\<close>)
      then show ?thesis using False gone by (simp add: bs)
    qed
  qed
qed

text \<open>At the end of a word the region changes, or not.\<close>

lemma acc_inv_next_word:
  assumes "acc_inv N buf refs0 regions0 (w div 8) (64 * w + 64) (refs, regions, last_2m, may_count)"
  shows "acc_inv N buf refs0 regions0 (Suc w div 8) (64 * Suc w)
    (refs, regions, last_2m, if Suc w div 8 > last_2m then True else may_count)"
proof -
  have n: "64 * Suc w = 64 * w + 64" by simp
  have below: "i div 512 < Suc w div 8" if "Suc w div 8 \<noteq> w div 8" "i < 64 * w + 64" for i
  proof -
    have "Suc w mod 8 = 0" using that(1) by (auto simp: div_Suc split: if_splits)
    then obtain k where k: "Suc w = 8 * k" using mult_div_mod_eq [of 8 "Suc w"] by auto
    then have "64 * w + 64 = k * 512" by simp
    then have "i div 512 < k" using that(2) by (simp add: div_less_iff_less_mult)
    then show ?thesis unfolding k by simp
  qed
  consider (same) "Suc w div 8 = w div 8" | (new) "Suc w div 8 = Suc (w div 8)"
    by (cases "Suc w mod 8 = 0") (auto simp: div_Suc)
  then show ?thesis
  proof cases
    case same
    then show ?thesis using assms unfolding n same by (cases may_count) (auto simp: acc_inv_def)
  next
    case new
    then show ?thesis using assms below unfolding n by (auto simp: acc_inv_def)
  qed
qed

lemma account_loop_inv:
  assumes "acc_inv (unat (g_num_pfn st)) (g_idlebuf st) refs0 regions0 (w div 8) (64 * w) acc"
    and "g_idlebuf_len st = int (8 * length (g_idlebuf st))" and "w \<le> length (g_idlebuf st)"
    and len: "length refs0 = unat (g_num_pfn st)" "length regions0 = (unat (g_num_pfn st) + 511) div 512"
  shows "\<exists>acc' R. account_loop st (8 * w) acc = Inr acc' \<and>
    acc_inv (unat (g_num_pfn st)) (g_idlebuf st) refs0 regions0 R (64 * length (g_idlebuf st)) acc'"
  using assms(1,3)
proof (induction "length (g_idlebuf st) - w" arbitrary: w acc)
  case 0
  then have "w = length (g_idlebuf st)" by simp
  then show ?case using 0 assms(2) by (auto simp: account_loop.simps)
next
  case (Suc n)
  then have w: "w < length (g_idlebuf st)" by simp
  from account_bits_inv [OF _ w refl _ len, of 0 acc] Suc.prems(1) obtain a where
    a: "account_bits (g_idlebuf st ! w) (unat (g_num_pfn st)) (64 * w) [0..<64] acc = Inr a"
      "acc_inv (unat (g_num_pfn st)) (g_idlebuf st) refs0 regions0 (w div 8) (64 * w + 64) a" by auto
  obtain refs regions last_2m may_count where q: "a = (refs, regions, last_2m, may_count)" by (cases a)
  let ?a = "(refs, regions, last_2m, if Suc w div 8 > last_2m then True else may_count)"
  have "account_loop st (8 * w) acc = account_loop st (8 * Suc w) ?a"
  proof -
    have n: "8 * w div 8 = w" "8 * Suc w div 8 * 64 div 512 = Suc w div 8" "8 * w + 8 = 8 * Suc w"
      "w * 64 = 64 * w" by simp_all
    have "int (8 * w) < g_idlebuf_len st" using w assms(2) by simp
    then show ?thesis
      using w a(1) by (subst account_loop.simps) (simp only: IDLEMAP_CHUNK_SIZE_def Let_def n q rbind.simps
        prod.case if_True not_le simp_thms if_not_P)
  qed
  then show ?case
    using Suc.hyps(1) [of "Suc w" ?a] Suc.hyps(2) w acc_inv_next_word [OF a(2) [unfolded q]] by simp
qed

lemma account_refs_round:
  assumes "g_idlebuf_len st = int (8 * length (g_idlebuf st))"
    and "length (g_refs_count st) = unat (g_num_pfn st)"
    and "length (g_refs_2m_count st) = (unat (g_num_pfn st) + 511) div 512"
  shows "account_refs st = Inr (st\<lparr>g_refs_count := add_flags (page_used (unat (g_num_pfn st)) (g_idlebuf st)) (g_refs_count st),
     g_refs_2m_count := add_flags (region_used (unat (g_num_pfn st)) (g_idlebuf st) (unat (g_num_pfn st))) (g_refs_2m_count st)\<rparr>)"
proof -
  let ?N = "unat (g_num_pfn st)" and ?buf = "g_idlebuf st"
  have "acc_inv ?N ?buf (g_refs_count st) (g_refs_2m_count st) 0 0 (g_refs_count st, g_refs_2m_count st, 0, True)"
    by (simp add: acc_inv_def add_flags_none region_used_def)
  with account_loop_inv [of st "g_refs_count st" "g_refs_2m_count st" 0, OF _ assms(1) _ assms(2,3)] obtain a R where
    a: "account_loop st 0 (g_refs_count st, g_refs_2m_count st, 0, True) = Inr a"
      "acc_inv ?N ?buf (g_refs_count st) (g_refs_2m_count st) R (64 * length ?buf) a"
    by (metis div_0 mult_0_right zero_le)
  have "(\<lambda>i. i < 64 * length ?buf \<and> page_used ?N ?buf i) = page_used ?N ?buf"
    "region_used ?N ?buf (64 * length ?buf) = region_used ?N ?buf ?N"
    by (auto simp: fun_eq_iff page_used_def region_used_def)
  then show ?thesis using a by (cases a) (simp add: account_refs_def acc_inv_def)
qed

section \<open>Rounds\<close>

text \<open>The rounds of the main loop, each with the bitmap it has read.\<close>

definition load_buffer :: "u64 list \<Rightarrow> refs_state \<Rightarrow> refs_state" where
  "load_buffer buf st = st\<lparr>g_idlebuf := buf, g_idlebuf_len := int (8 * length buf)\<rparr>"

definition account_rounds :: "u64 list list \<Rightarrow> refs_state \<Rightarrow> refs_state run" where
  "account_rounds bufs st = rfold (\<lambda>buf st. account_refs (load_buffer buf st)) bufs st"

text \<open>The number of rounds with a property.\<close>

definition rounds_with :: "('b \<Rightarrow> bool) \<Rightarrow> 'b list \<Rightarrow> nat" where
  "rounds_with f bufs = length (filter f bufs)"

definition counters_ready :: "refs_state \<Rightarrow> bool" where
  "counters_ready st \<longleftrightarrow>
     length (g_refs_count st) = unat (g_num_pfn st) \<and>
     length (g_refs_2m_count st) = (unat (g_num_pfn st) + 511) div 512"

lemma account_rounds_counts:
  assumes "counters_ready st"
  shows "\<exists>st'. account_rounds bufs st = Inr st' \<and> counters_ready st' \<and> g_num_pfn st' = g_num_pfn st \<and>
    g_kpageflags_buf st' = g_kpageflags_buf st \<and>
    (\<forall>pfn < unat (g_num_pfn st). g_refs_count st' ! pfn = g_refs_count st ! pfn +
       of_nat (rounds_with (\<lambda>buf. page_used (unat (g_num_pfn st)) buf pfn) bufs)) \<and>
    (\<forall>r < (unat (g_num_pfn st) + 511) div 512. g_refs_2m_count st' ! r = g_refs_2m_count st ! r +
       of_nat (rounds_with (\<lambda>buf. region_used (unat (g_num_pfn st)) buf (unat (g_num_pfn st)) r) bufs))"
  using assms
proof (induction bufs arbitrary: st)
  case Nil
  then show ?case by (simp add: account_rounds_def rounds_with_def)
next
  case (Cons buf bufs)
  let ?N = "unat (g_num_pfn st)"
  let ?st = "(load_buffer buf st)\<lparr>g_refs_count := add_flags (page_used ?N buf) (g_refs_count st),
     g_refs_2m_count := add_flags (region_used ?N buf ?N) (g_refs_2m_count st)\<rparr>"
  have "account_refs (load_buffer buf st) = Inr ?st"
    using Cons.prems account_refs_round [of "load_buffer buf st"]
    by (simp add: load_buffer_def counters_ready_def)
  moreover have "counters_ready ?st" using Cons.prems by (simp add: load_buffer_def counters_ready_def)
  ultimately show ?case
    using Cons.IH [of ?st] Cons.prems
    by (auto simp: account_rounds_def rounds_with_def load_buffer_def counters_ready_def)
qed

text \<open>Fewer than 65536 rounds do not wrap the 16-bit counters.\<close>

definition counters_clear :: "refs_state \<Rightarrow> bool" where
  "counters_clear st \<longleftrightarrow> list_all (\<lambda>c. c = 0) (g_refs_count st) \<and> list_all (\<lambda>c. c = 0) (g_refs_2m_count st)"

lemma account_rounds_exact:
  assumes "counters_ready st" and "counters_clear st" and "length bufs < 2 ^ 16"
  shows "\<exists>st'. account_rounds bufs st = Inr st' \<and> counters_ready st' \<and> g_num_pfn st' = g_num_pfn st \<and>
    g_kpageflags_buf st' = g_kpageflags_buf st \<and>
    (\<forall>pfn < unat (g_num_pfn st). unat (g_refs_count st' ! pfn) =
       rounds_with (\<lambda>buf. page_used (unat (g_num_pfn st)) buf pfn) bufs) \<and>
    (\<forall>r < (unat (g_num_pfn st) + 511) div 512. unat (g_refs_2m_count st' ! r) =
       rounds_with (\<lambda>buf. region_used (unat (g_num_pfn st)) buf (unat (g_num_pfn st)) r) bufs)"
proof -
  have "rounds_with f bufs < 2 ^ 16" for f :: "u64 list \<Rightarrow> bool"
    using assms(3) by (auto simp: rounds_with_def intro: le_less_trans [OF length_filter_le])
  then have small: "unat (of_nat (rounds_with f bufs) :: u16) = rounds_with f bufs" for f
    by (intro unat_of_nat_small) simp
  have zero: "\<And>pfn. pfn < unat (g_num_pfn st) \<Longrightarrow> g_refs_count st ! pfn = 0"
    "\<And>r. r < (unat (g_num_pfn st) + 511) div 512 \<Longrightarrow> g_refs_2m_count st ! r = 0"
    using assms(1,2) by (auto simp: counters_ready_def counters_clear_def list_all_length)
  show ?thesis using account_rounds_counts [OF assms(1), of bufs] by (auto simp: zero small)
qed

section \<open>Histogram\<close>

definition lru_page :: "kpf_bits \<Rightarrow> refs_state \<Rightarrow> nat \<Rightarrow> bool" where
  "lru_page K st pfn = (case g_kpageflags_buf st of None \<Rightarrow> True | Some fl \<Rightarrow> bit (fl ! pfn) (KPF_LRU K))"

definition huge_page :: "kpf_bits \<Rightarrow> refs_state \<Rightarrow> nat \<Rightarrow> bool" where
  "huge_page K st pfn = (case g_kpageflags_buf st of None \<Rightarrow> False
     | Some fl \<Rightarrow> bit (fl ! pfn) (KPF_HUGE K) \<or> bit (fl ! pfn) (KPF_THP K))"

text \<open>The pages of a list that are counted as small or as huge, with \<open>n\<close> references.\<close>

definition pages_with :: "kpf_bits \<Rightarrow> refs_state \<Rightarrow> bool \<Rightarrow> nat \<Rightarrow> nat list \<Rightarrow> nat" where
  "pages_with K st huge n pfns =
     length (filter (\<lambda>pfn. lru_page K st pfn \<and> huge_page K st pfn = huge \<and> unat (g_refs_count st ! pfn) = n) pfns)"

lemma count_refs_loop_counts:
  assumes "\<And>pfn. pfn \<in> set pfns \<Longrightarrow> pfn < length (g_refs_count st) \<and> unat (g_refs_count st ! pfn) \<le> lim"
    and "\<And>fl pfn. g_kpageflags_buf st = Some fl \<Longrightarrow> pfn \<in> set pfns \<Longrightarrow> pfn < length fl"
    and "length c4k = lim + 1" and "length c2m = lim + 1"
  shows "\<exists>c4k' c2m'. count_refs_loop K st lim pfns (c4k, c2m) = Inr (0, c4k', c2m') \<and>
    (\<forall>n \<le> lim. c4k' ! n = c4k ! n + of_nat (pages_with K st False n pfns) \<and>
               c2m' ! n = c2m ! n + of_nat (pages_with K st True n pfns))"
  using assms
proof (induction pfns arbitrary: c4k c2m)
  case Nil
  then show ?case by (simp add: pages_with_def)
next
  case (Cons pfn pfns)
  let ?n = "unat (g_refs_count st ! pfn)"
  let ?c4k = "if lru_page K st pfn \<and> \<not> huge_page K st pfn then c4k[?n := c4k ! ?n + 1] else c4k"
  let ?c2m = "if lru_page K st pfn \<and> huge_page K st pfn then c2m[?n := c2m ! ?n + 1] else c2m"
  have n: "pfn < length (g_refs_count st)" "?n \<le> lim" using Cons.prems(1) [of pfn] by auto
  have fl: "\<And>fl. g_kpageflags_buf st = Some fl \<Longrightarrow> pfn < length fl" using Cons.prems(2) by simp
  have step: "count_refs_loop K st lim (pfn # pfns) (c4k, c2m) = count_refs_loop K st lim pfns (?c4k, ?c2m)"
    using n fl by (auto simp: lru_page_def huge_page_def Let_def split: option.splits)
  have lens: "length ?c4k = lim + 1" "length ?c2m = lim + 1" using Cons.prems(3,4) by auto
  have "\<exists>c4k' c2m'. count_refs_loop K st lim pfns (?c4k, ?c2m) = Inr (0, c4k', c2m') \<and>
    (\<forall>n \<le> lim. c4k' ! n = ?c4k ! n + of_nat (pages_with K st False n pfns) \<and>
               c2m' ! n = ?c2m ! n + of_nat (pages_with K st True n pfns))"
    by (rule Cons.IH [OF _ _ lens]) (use Cons.prems(1,2) in simp_all)
  then obtain c4k' c2m' where r: "count_refs_loop K st lim pfns (?c4k, ?c2m) = Inr (0, c4k', c2m')"
    "\<forall>n \<le> lim. c4k' ! n = ?c4k ! n + of_nat (pages_with K st False n pfns) \<and>
               c2m' ! n = ?c2m ! n + of_nat (pages_with K st True n pfns)"
    by blast
  have "c4k' ! m = c4k ! m + of_nat (pages_with K st False m (pfn # pfns)) \<and>
        c2m' ! m = c2m ! m + of_nat (pages_with K st True m (pfn # pfns))" if "m \<le> lim" for m
    using r(2) that Cons.prems(3,4) by (auto simp: pages_with_def nth_list_update)
  then show ?case using step r(1) by auto
qed

text \<open>
  C32: After any number of rounds below 65536, whatever bitmaps they read, no index is out of range, the
  count of every page is the number of rounds in which its idle bit was clear, that of a 2M region the
  number of rounds with such a page in it, and the histogram over these rounds succeeds and counts for
  every number of references the small and the huge pages on the LRU lists that have it.
\<close>

theorem page_refs_histogram:
  assumes "counters_ready st" and "counters_clear st" and "length bufs < 2 ^ 16"
    and "\<And>fl. g_kpageflags_buf st = Some fl \<Longrightarrow> length fl = unat (g_num_pfn st)"
  shows "\<exists>st' c4k c2m. account_rounds bufs st = Inr st' \<and>
    (\<forall>pfn < unat (g_num_pfn st). unat (g_refs_count st' ! pfn) =
       rounds_with (\<lambda>buf. page_used (unat (g_num_pfn st)) buf pfn) bufs) \<and>
    (\<forall>r < (unat (g_num_pfn st) + 511) div 512. unat (g_refs_2m_count st' ! r) =
       rounds_with (\<lambda>buf. region_used (unat (g_num_pfn st)) buf (unat (g_num_pfn st)) r) bufs) \<and>
    count_refs_pages K st' (length bufs) = Inr (0, c4k, c2m) \<and>
    (\<forall>n \<le> length bufs. c4k ! n = of_nat (pages_with K st' False n [0..<unat (g_num_pfn st)]) \<and>
                        c2m ! n = of_nat (pages_with K st' True n [0..<unat (g_num_pfn st)]))"
proof -
  let ?N = "unat (g_num_pfn st)" and ?zero = "replicate (length bufs + 1) 0"
  obtain st' where st': "account_rounds bufs st = Inr st'" "counters_ready st'" "g_num_pfn st' = g_num_pfn st"
      "g_kpageflags_buf st' = g_kpageflags_buf st"
    and c: "\<forall>pfn < ?N. unat (g_refs_count st' ! pfn) = rounds_with (\<lambda>buf. page_used ?N buf pfn) bufs"
      "\<forall>r < (?N + 511) div 512. unat (g_refs_2m_count st' ! r) = rounds_with (\<lambda>buf. region_used ?N buf ?N r) bufs"
    using account_rounds_exact [OF assms(1-3)] by blast
  have le: "rounds_with f bufs \<le> length bufs" for f :: "u64 list \<Rightarrow> bool"
    by (simp add: rounds_with_def)
  have "\<exists>c4k c2m. count_refs_loop K st' (length bufs) [0..<?N] (?zero, ?zero) = Inr (0, c4k, c2m) \<and>
    (\<forall>n \<le> length bufs. c4k ! n = ?zero ! n + of_nat (pages_with K st' False n [0..<?N]) \<and>
                        c2m ! n = ?zero ! n + of_nat (pages_with K st' True n [0..<?N]))"
    by (rule count_refs_loop_counts) (use c le st' assms(4) in \<open>auto simp: counters_ready_def\<close>)
  then obtain c4k c2m where "count_refs_pages K st' (length bufs) = Inr (0, c4k, c2m)"
    "\<forall>n \<le> length bufs. c4k ! n = of_nat (pages_with K st' False n [0..<?N]) \<and>
                        c2m ! n = of_nat (pages_with K st' True n [0..<?N])"
    by (auto simp: count_refs_pages_def st'(3) simp del: replicate_Suc)
  then show ?thesis using st'(1) c by blast
qed

section \<open>Example\<close>

definition example_refs_state :: refs_state where
  "example_refs_state =
     \<lparr>g_idlebuf = [0], g_idlebuf_size = 8, g_idlebuf_len = 0, g_refs_count = replicate 64 0,
      g_refs_2m_count = [0], g_start_pfn = 0, g_num_pfn = 64, g_sim_2m_num_pfn = 1, g_setidle_bufsize = 8,
      g_kpageflags_buf = None, g_kpageflags_buf_size = 0, g_kpageflags_buf_len = 0, g_idle_shift = 15\<rparr>"

lemma page_refs_histogram_witness:
  "\<exists>st' c4k c2m. account_rounds [[NOT 9], [NOT 8]] example_refs_state = Inr st' \<and>
     unat (g_refs_count st' ! 0) = 1 \<and> unat (g_refs_count st' ! 3) = 2 \<and> unat (g_refs_count st' ! 5) = 0 \<and>
     unat (g_refs_2m_count st' ! 0) = 2 \<and>
     count_refs_pages \<lparr>KPF_LRU = 5, KPF_HUGE = 17, KPF_THP = 22\<rparr> st' 2 = Inr (0, c4k, c2m)"
proof -
  have ready: "counters_ready example_refs_state" "counters_clear example_refs_state"
    by (simp_all add: counters_ready_def counters_clear_def example_refs_state_def list_all_iff)
  let ?bufs = "[[NOT 9], [NOT 8]] :: u64 list list" and ?K = "\<lparr>KPF_LRU = 5, KPF_HUGE = 17, KPF_THP = 22\<rparr>"
  have N: "unat (g_num_pfn example_refs_state) = 64" and "g_kpageflags_buf example_refs_state = None"
    by (simp_all add: example_refs_state_def)
  then obtain st' c4k c2m where r: "account_rounds ?bufs example_refs_state = Inr st'"
    "\<forall>pfn < 64. unat (g_refs_count st' ! pfn) = rounds_with (\<lambda>buf. page_used 64 buf pfn) ?bufs"
    "\<forall>r < (64 + 511) div 512. unat (g_refs_2m_count st' ! r) = rounds_with (\<lambda>buf. region_used 64 buf 64 r) ?bufs"
    "count_refs_pages ?K st' (length ?bufs) = Inr (0, c4k, c2m)"
    using page_refs_histogram [OF ready, of ?bufs ?K, unfolded N] by auto
  have used: "page_used 64 [NOT 9] 0" "page_used 64 [NOT 9] 3" "\<not> page_used 64 [NOT 9] 5"
    "\<not> page_used 64 [NOT 8] 0" "page_used 64 [NOT 8] 3" "\<not> page_used 64 [NOT 8] 5"
    by (simp_all add: page_used_def bit_simps)
  have "region_used 64 [NOT 9] 64 0" "region_used 64 [NOT 8] 64 0"
    using used(2,5) unfolding region_used_def by (auto intro!: exI [of _ 3])
  then have "rounds_with (\<lambda>buf. region_used 64 buf 64 0) ?bufs = 2" by (simp add: rounds_with_def)
  moreover have "rounds_with (\<lambda>buf. page_used 64 buf 0) ?bufs = 1"
    "rounds_with (\<lambda>buf. page_used 64 buf 3) ?bufs = 2" "rounds_with (\<lambda>buf. page_used 64 buf 5) ?bufs = 0"
    using used by (simp_all add: rounds_with_def)
  ultimately have "unat (g_refs_count st' ! 0) = 1" "unat (g_refs_count st' ! 3) = 2"
    "unat (g_refs_count st' ! 5) = 0" "unat (g_refs_2m_count st' ! 0) = 2"
    using r(2,3) by auto
  moreover have "count_refs_pages ?K st' 2 = Inr (0, c4k, c2m)" using r(4) by (simp add: numeral_2_eq_2)
  ultimately show ?thesis using r(1) by blast
qed

section \<open>Limits of the program\<close>

text \<open>With 65535 rounds the 16-bit index of the output loop never exceeds the last row.\<close>

lemma output_rows_never_ends: "output_rows row (- 1) n rows = None"
proof (rule ccontr)
  assume "output_rows row (- 1) n rows \<noteq> None"
  then obtain y where "output_rows row (- 1) n rows = Some y" by blast
  then have "(- 1 :: u16) \<noteq> - 1"
  proof (rule output_rows.raw_induct [where P = "\<lambda>_ lim _ _ _. lim \<noteq> - 1", rotated])
    fix f row n rows y and lim :: u16
    assume IH: "\<And>row lim n rows y. f row lim n rows = Some y \<Longrightarrow> lim \<noteq> - 1"
      and r: "(if n \<le> lim then f row lim (n + 1) (rows @ [row n]) else Some rows) = Some y"
    show "lim \<noteq> - 1"
    proof
      assume "lim = - 1"
      then show False using r IH [of row "- 1"] by (auto split: if_splits)
    qed
  qed
  then show False by simp
qed

text \<open>
  Without a size the tool scans 1TB; the number of bytes of its page flags does not fit an \<open>int\<close>, and
  what is passed to \<open>read\<close> is negative as a signed number.
\<close>

lemma default_flags_size_negative: "int_of_u64 (MAX_IDLEMAP_SIZE div 4096 * 8) = - (2 ^ 31)"
  by (simp add: int_of_u64_def MAX_IDLEMAP_SIZE_def push_bit_eq_mult)

end
