(* ===== verification/Tlb_Flush.thy ===== *)
theory Tlb_Flush
  imports Idle_Pages
begin

text \<open>
  Flushing the translations of an address space on all CPUs: \<open>tlb_flush.c\<close>, which
  \<open>ept_idle_release\<close> calls after the accessed bits of a process were cleared, and that function.
  The hardware buffer of a CPU is a parameter of type \<open>'t\<close>; statistics and warnings are left out.
\<close>

unbundle bit_operations_syntax

section \<open>State\<close>

text \<open>\<open>cpu_tlbstate\<close> of a CPU; an address space is a number, 0 is the null pointer.\<close>

record 't cpu_tlb =
  loaded_mm :: nat
  loaded_mm_asid :: nat
  ctx_tlb_gen :: "nat \<Rightarrow> u64"
  is_lazy :: bool
  hw_tlb :: 't

record flush_tlb_info =
  fi_mm :: nat
  fi_start :: u64
  fi_end :: u64
  fi_new_tlb_gen :: u64
  fi_stride_shift :: nat
  fi_freed_tables :: bool

text \<open>What flushes one page, and the whole current address space, of a CPU.\<close>

record 't tlb_ops =
  flush_tlb_one_user :: "u64 \<Rightarrow> 't \<Rightarrow> 't"
  local_flush_tlb :: "'t \<Rightarrow> 't"

text \<open>The generation of every address space and the state of every CPU.\<close>

record 't tlb_system =
  mm_tlb_gen :: "nat \<Rightarrow> u64"
  cpu_tlbstate :: "nat \<Rightarrow> 't cpu_tlb"

definition TLB_FLUSH_ALL :: u64 where "TLB_FLUSH_ALL = - 1"

definition copied_tlb_single_page_flush_ceiling :: u64 where
  "copied_tlb_single_page_flush_ceiling = 33"

section \<open>Flushing on one CPU\<close>

partial_function (option) flush_range_loop :: "'t tlb_ops \<Rightarrow> flush_tlb_info \<Rightarrow> u64 \<Rightarrow> 't \<Rightarrow> 't option" where
  "flush_range_loop H f addr t =
     (if addr < fi_end f
      then flush_range_loop H f (addr + push_bit (fi_stride_shift f) 1) (flush_tlb_one_user H addr t)
      else Some t)"

text \<open>\<open>mm_gen\<close> is the generation of the address space that is loaded.\<close>

definition copied_flush_tlb_func_common ::
    "'t tlb_ops \<Rightarrow> flush_tlb_info \<Rightarrow> (nat \<Rightarrow> u64) \<Rightarrow> 't cpu_tlb \<Rightarrow> 't cpu_tlb option" where
  "copied_flush_tlb_func_common H f gens c =
     (let asid = loaded_mm_asid c; mm_gen = gens (loaded_mm c); local_gen = ctx_tlb_gen c asid
      in if loaded_mm c \<noteq> fi_mm f then Some c
         else if local_gen = mm_gen then Some c
         else do { t \<leftarrow> (if fi_end f \<noteq> TLB_FLUSH_ALL \<and> fi_new_tlb_gen f = local_gen + 1 \<and> fi_new_tlb_gen f = mm_gen
                         then flush_range_loop H f (fi_start f) (hw_tlb c)
                         else Some (local_flush_tlb H (hw_tlb c)));
                   Some (c\<lparr>hw_tlb := t, ctx_tlb_gen := (ctx_tlb_gen c)(asid := mm_gen)\<rparr>) })"

definition copied_flush_tlb_func_remote ::
    "'t tlb_ops \<Rightarrow> flush_tlb_info \<Rightarrow> (nat \<Rightarrow> u64) \<Rightarrow> 't cpu_tlb \<Rightarrow> 't cpu_tlb option" where
  "copied_flush_tlb_func_remote H f gens c =
     (if fi_mm f \<noteq> 0 \<and> fi_mm f \<noteq> loaded_mm c then Some c
      else let saved_lazy = is_lazy c
           in do { c \<leftarrow> copied_flush_tlb_func_common H f gens (c\<lparr>is_lazy := False\<rparr>);
                   Some (c\<lparr>is_lazy := saved_lazy\<rparr>) })"

definition on_cpu ::
    "('t cpu_tlb \<Rightarrow> 't cpu_tlb option) \<Rightarrow> nat \<Rightarrow> 't tlb_system \<Rightarrow> 't tlb_system option" where
  "on_cpu g i s = do { c \<leftarrow> g (cpu_tlbstate s i); Some (s\<lparr>cpu_tlbstate := (cpu_tlbstate s)(i := c)\<rparr>) }"

section \<open>Flushing on all CPUs\<close>

text \<open>
  \<open>smp_call_function_many\<close> reaches the other CPUs of the mask, \<open>on_each_cpu_cond_mask\<close> every CPU of
  it with the condition; both wait until the function has run there.
\<close>

definition copied_tlb_is_not_lazy :: "'t cpu_tlb \<Rightarrow> bool" where
  "copied_tlb_is_not_lazy c \<longleftrightarrow> \<not> is_lazy c"

definition flush_targets :: "nat \<Rightarrow> nat list \<Rightarrow> flush_tlb_info \<Rightarrow> 't tlb_system \<Rightarrow> nat list" where
  "flush_targets this cpumask f s =
     (if fi_freed_tables f then filter (\<lambda>i. i \<noteq> this) cpumask
      else filter (\<lambda>i. copied_tlb_is_not_lazy (cpu_tlbstate s i)) cpumask)"

fun flush_each ::
    "'t tlb_ops \<Rightarrow> flush_tlb_info \<Rightarrow> nat list \<Rightarrow> 't tlb_system \<Rightarrow> 't tlb_system option" where
  "flush_each H f [] s = Some s"
| "flush_each H f (i # is) s =
     do { s \<leftarrow> on_cpu (copied_flush_tlb_func_remote H f (mm_tlb_gen s)) i s; flush_each H f is s }"

definition copied_native_flush_tlb_others ::
    "'t tlb_ops \<Rightarrow> nat \<Rightarrow> nat list \<Rightarrow> flush_tlb_info \<Rightarrow> 't tlb_system \<Rightarrow> 't tlb_system option" where
  "copied_native_flush_tlb_others H this cpumask f s = flush_each H f (flush_targets this cpumask f s) s"

definition flush_request :: "nat \<Rightarrow> u64 \<Rightarrow> u64 \<Rightarrow> nat \<Rightarrow> bool \<Rightarrow> u64 \<Rightarrow> flush_tlb_info" where
  "flush_request mm start end_addr stride_shift freed gen =
     (let ranged = (end_addr \<noteq> TLB_FLUSH_ALL \<and>
                    drop_bit stride_shift (end_addr - start) \<le> copied_tlb_single_page_flush_ceiling)
      in \<lparr>fi_mm = mm, fi_start = (if ranged then start else 0), fi_end = (if ranged then end_addr else TLB_FLUSH_ALL),
          fi_new_tlb_gen = gen, fi_stride_shift = stride_shift, fi_freed_tables = freed\<rparr>)"

text \<open>\<open>this\<close> is the CPU that runs the function, \<open>cpumask\<close> the CPUs that may have the address space loaded.\<close>

definition copied_flush_tlb_mm_range ::
    "'t tlb_ops \<Rightarrow> nat \<Rightarrow> nat list \<Rightarrow> nat \<Rightarrow> u64 \<Rightarrow> u64 \<Rightarrow> nat \<Rightarrow> bool \<Rightarrow> 't tlb_system \<Rightarrow> 't tlb_system option" where
  "copied_flush_tlb_mm_range H this cpumask mm start end_addr stride_shift freed s =
     (let gen = mm_tlb_gen s mm + 1;
          s = s\<lparr>mm_tlb_gen := (mm_tlb_gen s)(mm := gen)\<rparr>;
          f = flush_request mm start end_addr stride_shift freed gen
      in do { s \<leftarrow> (if mm = loaded_mm (cpu_tlbstate s this)
                    then on_cpu (copied_flush_tlb_func_common H f (mm_tlb_gen s)) this s else Some s);
              if \<exists>i \<in> set cpumask. i \<noteq> this then copied_native_flush_tlb_others H this cpumask f s
              else Some s })"

section \<open>Closing the file\<close>

text \<open>
  What \<open>ept_idle_release\<close> does to the kernel, in order. The virtual machine and the address space
  of the file are given when they are set.
\<close>

datatype release_step =
  Kvm_flush_remote_tlbs | Kvm_put_kvm | Flush_mm nat | Mmput nat | Kfree_eic | Module_put

definition ept_idle_release :: "bool \<Rightarrow> bool \<Rightarrow> nat option \<Rightarrow> release_step list" where
  "ept_idle_release has_eic has_kvm mm =
     (if \<not> has_eic then [Module_put]
      else (if has_kvm then [Kvm_flush_remote_tlbs, Kvm_put_kvm]
            else case mm of Some m \<Rightarrow> [Flush_mm m] | None \<Rightarrow> []) @
           (case mm of Some m \<Rightarrow> [Mmput m] | None \<Rightarrow> []) @ [Kfree_eic, Module_put])"

text \<open>
  The files of a process: the name \<open>d_path\<close> gives (none when it does not fit its buffer) and the
  private data. The first file of a virtual machine is taken, whether or not it holds one.
\<close>

fun find_kvm :: "(string option \<times> 'v option) option list \<Rightarrow> 'v option" where
  "find_kvm [] = None"
| "find_kvm (None # fds) = find_kvm fds"
| "find_kvm (Some (None, _) # fds) = find_kvm fds"
| "find_kvm (Some (Some name, priv) # fds) = (if name = ''anon_inode:kvm-vm'' then priv else find_kvm fds)"

text \<open>\<open>find_task\<close> gives the address space, if any, and the file table of a process.\<close>

definition get_mm_and_kvm_by_pid ::
    "(int \<Rightarrow> ('m option \<times> (string option \<times> 'v option) option list) option) \<Rightarrow> int \<Rightarrow> int + 'm \<times> 'v option" where
  "get_mm_and_kvm_by_pid find_task nr =
     (case find_task nr of
        None \<Rightarrow> Inl (- ESRCH)
      | Some (None, _) \<Rightarrow> Inl (- ESRCH)
      | Some (Some mm, fds) \<Rightarrow> Inr (mm, find_kvm fds))"

end
