(* ===== verification/Tlb_Flush_Correct.thy ===== *)
theory Tlb_Flush_Correct
  imports Tlb_Flush
begin

text \<open>
  After a flush no CPU it reaches holds a translation of the flushed addresses that was cached
  before, whatever flushes of other CPUs come in between and in whatever order they arrive.
\<close>

unbundle bit_operations_syntax

section \<open>What the hardware buffer holds\<close>

text \<open>
  \<open>held t a g\<close>: the buffer \<open>t\<close> holds a translation of the address \<open>a\<close> that was cached in generation
  \<open>g\<close> of the address space. Flushing forgets, and never adds.
\<close>

type_synonym 't held = "'t \<Rightarrow> u64 \<Rightarrow> u64 \<Rightarrow> bool"

definition tlb_laws :: "'t tlb_ops \<Rightarrow> 't held \<Rightarrow> bool" where
  "tlb_laws H held \<longleftrightarrow>
     (\<forall>x t a g. held (flush_tlb_one_user H x t) a g \<longrightarrow> held t a g \<and> a \<noteq> x) \<and>
     (\<forall>t a g. \<not> held (local_flush_tlb H t) a g)"

text \<open>The addresses a request is about, and those it flushes.\<close>

definition in_range :: "u64 \<Rightarrow> u64 \<Rightarrow> nat \<Rightarrow> u64 \<Rightarrow> bool" where
  "in_range start end_addr shift a \<longleftrightarrow>
     end_addr = TLB_FLUSH_ALL \<or> a < end_addr \<and> (\<exists>k. unat a = unat start + k * 2 ^ shift)"

definition flushes :: "flush_tlb_info \<Rightarrow> u64 \<Rightarrow> bool" where
  "flushes f = in_range (fi_start f) (fi_end f) (fi_stride_shift f)"

lemma request_flushes: "in_range start end_addr shift a \<Longrightarrow> flushes (flush_request mm start end_addr shift freed gen) a"
  by (auto simp: flushes_def flush_request_def in_range_def Let_def)

lemma request_simps [simp]:
  "fi_mm (flush_request mm start end_addr shift freed gen) = mm"
  "fi_new_tlb_gen (flush_request mm start end_addr shift freed gen) = gen"
  "fi_freed_tables (flush_request mm start end_addr shift freed gen) = freed"
  by (simp_all add: flush_request_def Let_def)

text \<open>The step of the loop does not wrap.\<close>

definition steps_below :: "u64 \<Rightarrow> nat \<Rightarrow> bool" where
  "steps_below end_addr shift \<longleftrightarrow> end_addr = TLB_FLUSH_ALL \<or> unat end_addr + 2 ^ shift < 2 ^ 64"

lemma request_steps_below: "steps_below end_addr shift \<Longrightarrow>
   steps_below (fi_end (flush_request mm start end_addr shift freed gen))
     (fi_stride_shift (flush_request mm start end_addr shift freed gen))"
  by (auto simp: steps_below_def flush_request_def Let_def)

lemma flush_range_loop_flushes:
  assumes laws: "tlb_laws H held" and "unat (fi_end f) + 2 ^ fi_stride_shift f < 2 ^ 64"
  shows "\<exists>t'. flush_range_loop H f addr t = Some t' \<and>
    (\<forall>a g. held t' a g \<longrightarrow> held t a g \<and> \<not> (a < fi_end f \<and> (\<exists>k. unat a = unat addr + k * 2 ^ fi_stride_shift f)))"
proof (induction "unat (fi_end f) - unat addr" arbitrary: addr t rule: less_induct)
  case less
  let ?s = "fi_stride_shift f"
  show ?case
  proof (cases "addr < fi_end f")
    case False
    then have "\<not> (a < fi_end f \<and> unat a = unat addr + k * 2 ^ ?s)" for a k
      by (auto simp: word_less_nat_alt)
    then show ?thesis using False by (subst flush_range_loop.simps) auto
  next
    case True
    have lt: "unat addr < unat (fi_end f)" using True by (simp add: word_less_nat_alt)
    have e: "(2::nat) ^ ?s < 2 ^ 64" using assms(2) by linarith
    then have "?s < 64" using power_less_imp_less_exp [of "2 :: nat" ?s 64, OF one_less_numeral_iff [THEN iffD2]] by simp
    then have p: "unat (push_bit ?s 1 :: u64) = 2 ^ ?s"
      using e by (simp only: unsigned_push_bit_eq) (simp add: push_bit_eq_mult take_bit_nat_eq_self)
    have n: "unat (addr + push_bit ?s 1) = unat addr + 2 ^ ?s"
      using lt assms(2) p by (subst unat_add_small) linarith+
    have "unat (fi_end f) - unat (addr + push_bit ?s 1) < unat (fi_end f) - unat addr"
      unfolding n using lt by (intro diff_less_mono2) simp_all
    from less [OF this, of "flush_tlb_one_user H addr t"] obtain t' where
      t': "flush_range_loop H f (addr + push_bit ?s 1) (flush_tlb_one_user H addr t) = Some t'"
      and h: "\<And>a g. held t' a g \<Longrightarrow> held (flush_tlb_one_user H addr t) a g \<and>
        \<not> (a < fi_end f \<and> (\<exists>k. unat a = unat addr + 2 ^ ?s + k * 2 ^ ?s))"
      unfolding n by blast
    have "held t a g \<and> \<not> (a < fi_end f \<and> (\<exists>k. unat a = unat addr + k * 2 ^ ?s))" if "held t' a g" for a g
    proof -
      have "held t a g" and "a \<noteq> addr" using h [OF that] laws by (auto simp: tlb_laws_def)
      moreover have "unat a \<noteq> unat addr + k * 2 ^ ?s" if "a < fi_end f" for k
      proof (cases k)
        case 0
        then show ?thesis using \<open>a \<noteq> addr\<close> by (simp add: word_unat_eq_iff)
      next
        case (Suc j)
        then show ?thesis using h [OF \<open>held t' a g\<close>] that by auto
      qed
      ultimately show ?thesis by blast
    qed
    then show ?thesis using True t' by (subst flush_range_loop.simps) auto
  qed
qed

section \<open>Consistency\<close>

text \<open>
  \<open>hist m j\<close> is the request that made generation \<open>j\<close> of the address space \<open>m\<close>. A CPU has caught up
  to its generation: it holds nothing that a request up to it was to flush.
\<close>

type_synonym history = "nat \<Rightarrow> u64 \<Rightarrow> flush_tlb_info"

definition caught_up :: "'t held \<Rightarrow> history \<Rightarrow> (nat \<Rightarrow> u64) \<Rightarrow> 't cpu_tlb \<Rightarrow> bool" where
  "caught_up held hist gens c \<longleftrightarrow>
     ctx_tlb_gen c (loaded_mm_asid c) \<le> gens (loaded_mm c) \<and>
     (\<forall>a g j. held (hw_tlb c) a g \<longrightarrow> g < j \<longrightarrow> j \<le> ctx_tlb_gen c (loaded_mm_asid c) \<longrightarrow>
              \<not> flushes (hist (loaded_mm c) j) a)"

definition tlb_consistent :: "'t held \<Rightarrow> history \<Rightarrow> 't tlb_system \<Rightarrow> bool" where
  "tlb_consistent held hist s \<longleftrightarrow> (\<forall>i. caught_up held hist (mm_tlb_gen s) (cpu_tlbstate s i))"

definition up_to_date :: "nat \<Rightarrow> (nat \<Rightarrow> u64) \<Rightarrow> 't cpu_tlb \<Rightarrow> bool" where
  "up_to_date mm gens c \<longleftrightarrow> (loaded_mm c = mm \<longrightarrow> ctx_tlb_gen c (loaded_mm_asid c) = gens mm)"

text \<open>A request that was recorded.\<close>

definition recorded :: "history \<Rightarrow> flush_tlb_info \<Rightarrow> bool" where
  "recorded hist f \<longleftrightarrow> hist (fi_mm f) (fi_new_tlb_gen f) = f \<and> fi_mm f \<noteq> 0 \<and> steps_below (fi_end f) (fi_stride_shift f)"

text \<open>What flushing makes of a CPU.\<close>

definition catches_up ::
    "'t held \<Rightarrow> history \<Rightarrow> (nat \<Rightarrow> u64) \<Rightarrow> nat \<Rightarrow> 't cpu_tlb \<Rightarrow> 't cpu_tlb option \<Rightarrow> bool" where
  "catches_up held hist gens m c r \<longleftrightarrow>
     (\<exists>c'. r = Some c' \<and> caught_up held hist gens c' \<and> loaded_mm c' = loaded_mm c \<and> is_lazy c' = is_lazy c \<and>
        up_to_date m gens c' \<and> (\<forall>mm. up_to_date mm gens c \<longrightarrow> up_to_date mm gens c'))"

lemma flush_common_catches_up:
  assumes laws: "tlb_laws H held" and "recorded hist f" and inv: "caught_up held hist gens c"
  shows "catches_up held hist gens (fi_mm f) c (copied_flush_tlb_func_common H f gens c)"
proof -
  let ?asid = "loaded_mm_asid c" and ?m = "loaded_mm c"
  let ?local = "ctx_tlb_gen c ?asid"
  let ?done = "\<lambda>t. c\<lparr>hw_tlb := t, ctx_tlb_gen := (ctx_tlb_gen c)(?asid := gens ?m)\<rparr>"
  consider (other) "?m \<noteq> fi_mm f" | (nothing) "?m = fi_mm f" "?local = gens ?m"
    | (range) "?m = fi_mm f" "?local \<noteq> gens ?m" "fi_end f \<noteq> TLB_FLUSH_ALL" "fi_new_tlb_gen f = ?local + 1" "fi_new_tlb_gen f = gens ?m"
    | (full) "?m = fi_mm f" "?local \<noteq> gens ?m" "\<not> (fi_end f \<noteq> TLB_FLUSH_ALL \<and> fi_new_tlb_gen f = ?local + 1 \<and> fi_new_tlb_gen f = gens ?m)"
    by blast
  then show ?thesis
  proof cases
    case range
    have "unat (fi_end f) + 2 ^ fi_stride_shift f < 2 ^ 64"
      using assms(2) range(3) by (simp add: recorded_def steps_below_def)
    from flush_range_loop_flushes [OF laws this] obtain t where
      t: "flush_range_loop H f (fi_start f) (hw_tlb c) = Some t"
      and h: "\<And>a g. held t a g \<Longrightarrow> held (hw_tlb c) a g \<and> \<not> flushes f a"
      using range(3) unfolding flushes_def in_range_def by metis
    have "\<not> flushes (hist ?m j) a" if "held t a g" "g < j" "j \<le> gens ?m" for a g j
    proof (cases "j \<le> ?local")
      case True
      then show ?thesis using inv h [OF that(1)] that(2) by (auto simp: caught_up_def)
    next
      case False
      then have "j = fi_new_tlb_gen f"
        using that(3) range(4,5) by (metis antisym inc_le not_le)
      then show ?thesis using assms(2) range(1) h [OF that(1)] by (simp add: recorded_def)
    qed
    then have "caught_up held hist gens (?done t)" by (simp add: caught_up_def)
    then show ?thesis using range t
      by (simp add: catches_up_def copied_flush_tlb_func_common_def Let_def up_to_date_def)
  next
    case full
    have "caught_up held hist gens (?done (local_flush_tlb H (hw_tlb c)))"
      using laws by (simp add: caught_up_def tlb_laws_def)
    moreover have "copied_flush_tlb_func_common H f gens c = Some (?done (local_flush_tlb H (hw_tlb c)))"
      using full by (auto simp: copied_flush_tlb_func_common_def Let_def)
    ultimately show ?thesis using full(1) by (simp add: catches_up_def up_to_date_def)
  qed (use inv in \<open>simp_all add: catches_up_def copied_flush_tlb_func_common_def Let_def up_to_date_def\<close>)
qed

lemma flush_remote_catches_up:
  assumes "tlb_laws H held" and "recorded hist f" and "caught_up held hist gens c"
  shows "catches_up held hist gens (fi_mm f) c (copied_flush_tlb_func_remote H f gens c)"
proof (cases "fi_mm f = loaded_mm c")
  case True
  have "caught_up held hist gens (c\<lparr>is_lazy := False\<rparr>)" using assms(3) by (simp add: caught_up_def)
  from flush_common_catches_up [OF assms(1,2) this] obtain c' where
    "copied_flush_tlb_func_common H f gens (c\<lparr>is_lazy := False\<rparr>) = Some c'" "caught_up held hist gens c'"
    "loaded_mm c' = loaded_mm c" "up_to_date (fi_mm f) gens c'"
    "\<forall>mm. up_to_date mm gens (c\<lparr>is_lazy := False\<rparr>) \<longrightarrow> up_to_date mm gens c'"
    by (auto simp: catches_up_def)
  then show ?thesis using True
    by (simp add: copied_flush_tlb_func_remote_def Let_def catches_up_def caught_up_def up_to_date_def)
next
  case False
  then show ?thesis using assms(2,3)
    by (simp add: copied_flush_tlb_func_remote_def recorded_def catches_up_def up_to_date_def)
qed

section \<open>The whole flush\<close>

text \<open>What a flush leaves alone: the generations and what the CPUs run.\<close>

definition same_contexts :: "'t tlb_system \<Rightarrow> 't tlb_system \<Rightarrow> bool" where
  "same_contexts s t \<longleftrightarrow> mm_tlb_gen t = mm_tlb_gen s \<and>
     (\<forall>i. loaded_mm (cpu_tlbstate t i) = loaded_mm (cpu_tlbstate s i) \<and>
          is_lazy (cpu_tlbstate t i) = is_lazy (cpu_tlbstate s i) \<and>
          (\<forall>mm. up_to_date mm (mm_tlb_gen s) (cpu_tlbstate s i) \<longrightarrow> up_to_date mm (mm_tlb_gen s) (cpu_tlbstate t i)))"

lemma same_contexts_refl [simp]: "same_contexts s s"
  by (simp add: same_contexts_def)

lemma same_contexts_trans: "same_contexts s t \<Longrightarrow> same_contexts t u \<Longrightarrow> same_contexts s u"
  by (simp add: same_contexts_def)

lemma on_cpu_step:
  assumes "catches_up held hist (mm_tlb_gen s) m (cpu_tlbstate s i) (g (cpu_tlbstate s i))"
    and "tlb_consistent held hist s"
  shows "\<exists>t. on_cpu g i s = Some t \<and> tlb_consistent held hist t \<and> same_contexts s t \<and>
    up_to_date m (mm_tlb_gen t) (cpu_tlbstate t i)"
proof -
  obtain c' where c: "g (cpu_tlbstate s i) = Some c'" "caught_up held hist (mm_tlb_gen s) c'"
    "loaded_mm c' = loaded_mm (cpu_tlbstate s i)" "is_lazy c' = is_lazy (cpu_tlbstate s i)"
    "up_to_date m (mm_tlb_gen s) c'"
    "\<forall>mm. up_to_date mm (mm_tlb_gen s) (cpu_tlbstate s i) \<longrightarrow> up_to_date mm (mm_tlb_gen s) c'"
    using assms(1) by (auto simp: catches_up_def)
  let ?t = "s\<lparr>cpu_tlbstate := (cpu_tlbstate s)(i := c')\<rparr>"
  have "on_cpu g i s = Some ?t" by (simp add: on_cpu_def c)
  moreover have "tlb_consistent held hist ?t" "up_to_date m (mm_tlb_gen ?t) (cpu_tlbstate ?t i)"
    using assms(2) c by (auto simp: tlb_consistent_def)
  moreover have "same_contexts s ?t" using c by (simp add: same_contexts_def)
  ultimately show ?thesis by blast
qed

lemma on_cpu_remote:
  assumes "tlb_laws H held" and "recorded hist f" and "tlb_consistent held hist s"
  shows "\<exists>t. on_cpu (copied_flush_tlb_func_remote H f (mm_tlb_gen s)) i s = Some t \<and>
    tlb_consistent held hist t \<and> same_contexts s t \<and> up_to_date (fi_mm f) (mm_tlb_gen t) (cpu_tlbstate t i)"
proof -
  have "caught_up held hist (mm_tlb_gen s) (cpu_tlbstate s i)" using assms(3) by (simp add: tlb_consistent_def)
  from flush_remote_catches_up [OF assms(1,2) this] assms(3) show ?thesis by (rule on_cpu_step)
qed

lemma on_cpu_common:
  assumes "tlb_laws H held" and "recorded hist f" and "tlb_consistent held hist s"
  shows "\<exists>t. on_cpu (copied_flush_tlb_func_common H f (mm_tlb_gen s)) i s = Some t \<and>
    tlb_consistent held hist t \<and> same_contexts s t \<and> up_to_date (fi_mm f) (mm_tlb_gen t) (cpu_tlbstate t i)"
proof -
  have "caught_up held hist (mm_tlb_gen s) (cpu_tlbstate s i)" using assms(3) by (simp add: tlb_consistent_def)
  from flush_common_catches_up [OF assms(1,2) this] assms(3) show ?thesis by (rule on_cpu_step)
qed

lemma flush_each_reaches:
  assumes "tlb_laws H held" and "recorded hist f" and "tlb_consistent held hist s"
  shows "\<exists>t. flush_each H f is s = Some t \<and> tlb_consistent held hist t \<and> same_contexts s t \<and>
    (\<forall>i \<in> set is. up_to_date (fi_mm f) (mm_tlb_gen t) (cpu_tlbstate t i))"
  using assms(3)
proof (induction "is" arbitrary: s)
  case (Cons i "is")
  from on_cpu_remote [OF assms(1,2) Cons.prems, of i] obtain u where
    u: "on_cpu (copied_flush_tlb_func_remote H f (mm_tlb_gen s)) i s = Some u" "tlb_consistent held hist u"
      "same_contexts s u" "up_to_date (fi_mm f) (mm_tlb_gen u) (cpu_tlbstate u i)" by blast
  from Cons.IH [OF u(2)] obtain t where
    t: "flush_each H f is u = Some t" "tlb_consistent held hist t" "same_contexts u t"
      "\<forall>i \<in> set is. up_to_date (fi_mm f) (mm_tlb_gen t) (cpu_tlbstate t i)" by blast
  have "up_to_date (fi_mm f) (mm_tlb_gen t) (cpu_tlbstate t i)"
    using u(4) t(3) by (simp add: same_contexts_def)
  then show ?case using u t same_contexts_trans [OF u(3) t(3)] by simp
qed simp

text \<open>Making a request: a new generation, recorded with the request.\<close>

definition record_request :: "history \<Rightarrow> flush_tlb_info \<Rightarrow> history" where
  "record_request hist f = hist(fi_mm f := (hist (fi_mm f))(fi_new_tlb_gen f := f))"

lemma less_next_word:
  assumes "w \<noteq> (- 1 :: u64)"
  shows "w < w + 1"
proof -
  have "unat w \<noteq> unat (- 1 :: u64)" using assms by (simp add: word_unat_eq_iff)
  moreover have "unat (- 1 :: u64) = 2 ^ 64 - 1" by (simp add: unsigned_minus_1_eq_mask mask_eq_exp_minus_1)
  ultimately have "unat w + unat (1 :: u64) < 2 ^ 64" using unsigned_less [of w, where ?'a = nat] by simp
  from unat_add_small [OF this] show ?thesis by (simp add: word_less_nat_alt)
qed

lemma tlb_consistent_request:
  assumes "tlb_consistent held hist s" and "mm_tlb_gen s mm \<noteq> - 1" and "fi_mm f = mm"
    and "fi_new_tlb_gen f = mm_tlb_gen s mm + 1"
  shows "tlb_consistent held (record_request hist f) (s\<lparr>mm_tlb_gen := (mm_tlb_gen s)(mm := mm_tlb_gen s mm + 1)\<rparr>)"
proof -
  have lt: "mm_tlb_gen s mm < mm_tlb_gen s mm + 1"
    using assms(2) by (rule less_next_word)
  let ?gens = "(mm_tlb_gen s)(mm := mm_tlb_gen s mm + 1)"
  have "caught_up held (record_request hist f) ?gens (cpu_tlbstate s i)" for i
  proof -
    let ?c = "cpu_tlbstate s i"
    have c: "caught_up held hist (mm_tlb_gen s) ?c" using assms(1) by (simp add: tlb_consistent_def)
    have le: "mm_tlb_gen s (loaded_mm ?c) \<le> ?gens (loaded_mm ?c)" using lt by (simp add: less_imp_le)
    have "record_request hist f (loaded_mm ?c) j = hist (loaded_mm ?c) j"
      if "j \<le> ctx_tlb_gen ?c (loaded_mm_asid ?c)" for j
    proof -
      have "j \<le> mm_tlb_gen s (loaded_mm ?c)" using that c unfolding caught_up_def by (meson order_trans)
      then have "loaded_mm ?c = mm \<Longrightarrow> j \<noteq> mm_tlb_gen s mm + 1" using lt by auto
      then show ?thesis by (auto simp: record_request_def assms(3,4))
    qed
    moreover have "ctx_tlb_gen ?c (loaded_mm_asid ?c) \<le> ?gens (loaded_mm ?c)"
      using c le unfolding caught_up_def by (blast intro: order_trans)
    ultimately show ?thesis using c unfolding caught_up_def by simp
  qed
  then show ?thesis by (simp add: tlb_consistent_def)
qed

lemma flush_mm_range_reaches:
  assumes laws: "tlb_laws H held" and inv: "tlb_consistent held hist s" and "mm \<noteq> 0"
    and gen: "mm_tlb_gen s mm \<noteq> - 1" and "steps_below end_addr shift"
    and f: "f = flush_request mm start end_addr shift freed (mm_tlb_gen s mm + 1)"
  shows "\<exists>t. copied_flush_tlb_mm_range H this cpumask mm start end_addr shift freed s = Some t \<and>
    tlb_consistent held (record_request hist f) t \<and> mm_tlb_gen t = (mm_tlb_gen s)(mm := mm_tlb_gen s mm + 1) \<and>
    (\<forall>i. i = this \<or> i \<in> set cpumask \<and> (freed \<or> \<not> is_lazy (cpu_tlbstate s i)) \<longrightarrow>
       up_to_date mm (mm_tlb_gen t) (cpu_tlbstate t i))"
proof -
  let ?hist = "record_request hist f" and ?s = "s\<lparr>mm_tlb_gen := (mm_tlb_gen s)(mm := mm_tlb_gen s mm + 1)\<rparr>"
  have rec: "recorded ?hist f"
    using assms(3,5) by (simp add: recorded_def record_request_def f request_steps_below)
  have inv1: "tlb_consistent held ?hist ?s" using tlb_consistent_request [OF inv gen] by (simp add: f)
  obtain u where u: "(if mm = loaded_mm (cpu_tlbstate ?s this)
      then on_cpu (copied_flush_tlb_func_common H f (mm_tlb_gen ?s)) this ?s else Some ?s) = Some u"
    "tlb_consistent held ?hist u" "same_contexts ?s u" "up_to_date mm (mm_tlb_gen u) (cpu_tlbstate u this)"
  proof (cases "mm = loaded_mm (cpu_tlbstate ?s this)")
    case True
    then show ?thesis using on_cpu_common [OF laws rec inv1, of this] that by (auto simp: f)
  next
    case False
    then show ?thesis using inv1 that [of ?s] by (simp add: up_to_date_def)
  qed
  let ?targets = "flush_targets this cpumask f u"
  obtain t where t: "flush_each H f ?targets u = Some t" "tlb_consistent held ?hist t" "same_contexts u t"
    "\<forall>i \<in> set ?targets. up_to_date mm (mm_tlb_gen t) (cpu_tlbstate t i)"
    using flush_each_reaches [OF laws rec u(2), of ?targets] by (auto simp: f)
  have targets: "i \<in> set ?targets"
    if "i \<noteq> this" "i \<in> set cpumask" "freed \<or> \<not> is_lazy (cpu_tlbstate s i)" for i
    using that u(3) by (auto simp: flush_targets_def f copied_tlb_is_not_lazy_def same_contexts_def)
  have run: "copied_flush_tlb_mm_range H this cpumask mm start end_addr shift freed s =
    (if \<exists>i \<in> set cpumask. i \<noteq> this then flush_each H f ?targets u else Some u)"
    unfolding copied_flush_tlb_mm_range_def Let_def f [symmetric] u(1)
    by (simp add: copied_native_flush_tlb_others_def)
  show ?thesis
  proof (cases "\<exists>i \<in> set cpumask. i \<noteq> this")
    case True
    have "up_to_date mm (mm_tlb_gen t) (cpu_tlbstate t this)" using u(4) t(3) by (simp add: same_contexts_def)
    then have "up_to_date mm (mm_tlb_gen t) (cpu_tlbstate t i)"
      if "i = this \<or> i \<in> set cpumask \<and> (freed \<or> \<not> is_lazy (cpu_tlbstate s i))" for i
      using that t(4) targets by (cases "i = this") blast+
    then show ?thesis using True run t(1-3) u(3) by (simp add: same_contexts_def)
  next
    case False
    then show ?thesis using run u by (auto simp: same_contexts_def)
  qed
qed

section \<open>Flushes that overlap\<close>

text \<open>
  The steps of a machine on which several CPUs flush: a CPU caches a translation, a request gets its
  generation, and the function runs for some recorded request on some CPU, in any order.
\<close>

inductive tlb_step :: "'t tlb_ops \<Rightarrow> 't held \<Rightarrow> 't tlb_system \<times> history \<Rightarrow> 't tlb_system \<times> history \<Rightarrow> bool"
  for H :: "'t tlb_ops" and held :: "'t held" where
  cache: "(\<And>a g. held t a g \<Longrightarrow> held (hw_tlb (cpu_tlbstate s i)) a g \<or> g = mm_tlb_gen s (loaded_mm (cpu_tlbstate s i)))
    \<Longrightarrow> tlb_step H held (s, hist)
          (s\<lparr>cpu_tlbstate := (cpu_tlbstate s)(i := (cpu_tlbstate s i)\<lparr>hw_tlb := t\<rparr>)\<rparr>, hist)"
| request: "mm_tlb_gen s mm \<noteq> - 1 \<Longrightarrow> mm \<noteq> 0 \<Longrightarrow> steps_below end_addr shift \<Longrightarrow>
     f = flush_request mm start end_addr shift freed (mm_tlb_gen s mm + 1) \<Longrightarrow>
     tlb_step H held (s, hist)
       (s\<lparr>mm_tlb_gen := (mm_tlb_gen s)(mm := mm_tlb_gen s mm + 1)\<rparr>, record_request hist f)"
| deliver: "recorded hist f \<Longrightarrow> on_cpu (copied_flush_tlb_func_remote H f (mm_tlb_gen s)) i s = Some t \<Longrightarrow>
     tlb_step H held (s, hist) (t, hist)"

lemma tlb_step_consistent:
  assumes "tlb_step H held (s, hist) (t, hist')" and "tlb_laws H held" and "tlb_consistent held hist s"
  shows "tlb_consistent held hist' t"
  using assms
proof (cases rule: tlb_step.cases)
  case (cache tlb i)
  have c: "caught_up held hist (mm_tlb_gen s) (cpu_tlbstate s i)" using assms(3) by (simp add: tlb_consistent_def)
  have "caught_up held hist (mm_tlb_gen s) ((cpu_tlbstate s i)\<lparr>hw_tlb := tlb\<rparr>)"
    unfolding caught_up_def
  proof (intro conjI allI impI; simp)
    show "ctx_tlb_gen (cpu_tlbstate s i) (loaded_mm_asid (cpu_tlbstate s i)) \<le> mm_tlb_gen s (loaded_mm (cpu_tlbstate s i))"
      using c by (simp add: caught_up_def)
    fix a g j
    assume "held tlb a g" "g < j" and j: "j \<le> ctx_tlb_gen (cpu_tlbstate s i) (loaded_mm_asid (cpu_tlbstate s i))"
    have "j \<le> mm_tlb_gen s (loaded_mm (cpu_tlbstate s i))" using j c unfolding caught_up_def by (blast intro: order_trans)
    with \<open>g < j\<close> have "g \<noteq> mm_tlb_gen s (loaded_mm (cpu_tlbstate s i))" by auto
    with cache(3) [OF \<open>held tlb a g\<close>] have "held (hw_tlb (cpu_tlbstate s i)) a g" by simp
    then show "\<not> flushes (hist (loaded_mm (cpu_tlbstate s i)) j) a"
      using c \<open>g < j\<close> j by (simp add: caught_up_def)
  qed
  then show ?thesis using cache(1,2) assms(3) by (simp add: tlb_consistent_def)
next
  case (request mm end_addr shift f start freed)
  then show ?thesis using tlb_consistent_request [OF assms(3) request(3)] by simp
next
  case (deliver f i)
  then show ?thesis using on_cpu_remote [OF assms(2) _ assms(3), of f i] by auto
qed

lemma tlb_steps_consistent:
  assumes "(tlb_step H held)\<^sup>*\<^sup>* (s, hist) (t, hist')" and "tlb_laws H held" and "tlb_consistent held hist s"
  shows "tlb_consistent held hist' t"
  using assms(1)
proof (induction "(t, hist')" arbitrary: t hist' rule: rtranclp_induct)
  case base
  then show ?case using assms(3) by simp
next
  case (step y)
  then show ?case using tlb_step_consistent [OF _ assms(2)] by (cases y) blast
qed

text \<open>
  C33: On a machine that started consistently and on which CPUs have cached translations and flushed
  in any interleaving, a flush returns, and every CPU it reaches that has the address space loaded
  holds no translation of the requested addresses that is older than the flush: the CPU that calls,
  every CPU of the mask when page tables were freed, and those not in lazy mode otherwise.
\<close>

theorem flush_reaches_every_cpu:
  assumes "(tlb_step H held)\<^sup>*\<^sup>* (s0, hist0) (s, hist)" and "tlb_laws H held" and "tlb_consistent held hist0 s0"
    and "mm \<noteq> 0" and "mm_tlb_gen s mm \<noteq> - 1" and "steps_below end_addr shift"
    and "i = this \<or> i \<in> set cpumask \<and> (freed \<or> \<not> is_lazy (cpu_tlbstate s i))"
  shows "\<exists>t. copied_flush_tlb_mm_range H this cpumask mm start end_addr shift freed s = Some t \<and>
    (loaded_mm (cpu_tlbstate t i) = mm \<longrightarrow>
     (\<forall>a g. held (hw_tlb (cpu_tlbstate t i)) a g \<longrightarrow> in_range start end_addr shift a \<longrightarrow> g > mm_tlb_gen s mm))"
proof -
  let ?f = "flush_request mm start end_addr shift freed (mm_tlb_gen s mm + 1)"
  obtain t where t: "copied_flush_tlb_mm_range H this cpumask mm start end_addr shift freed s = Some t"
    "tlb_consistent held (record_request hist ?f) t" "mm_tlb_gen t mm = mm_tlb_gen s mm + 1"
    "up_to_date mm (mm_tlb_gen t) (cpu_tlbstate t i)"
    using flush_mm_range_reaches [OF assms(2) tlb_steps_consistent [OF assms(1-3)] assms(4-6) refl, where freed = freed and start = start and this = this and cpumask = cpumask]
      assms(7) by auto
  have "g > mm_tlb_gen s mm" if "loaded_mm (cpu_tlbstate t i) = mm" "held (hw_tlb (cpu_tlbstate t i)) a g"
    "in_range start end_addr shift a" for a g
  proof (rule ccontr)
    assume "\<not> g > mm_tlb_gen s mm"
    then have "g < mm_tlb_gen s mm + 1" using less_next_word [OF assms(5)] by (auto intro: le_less_trans)
    moreover have "flushes (record_request hist ?f mm (mm_tlb_gen s mm + 1)) a"
      using request_flushes [OF that(3)] by (simp add: record_request_def)
    ultimately show False
      using t(2-4) that(1,2) unfolding tlb_consistent_def caught_up_def up_to_date_def by (metis order_refl)
  qed
  then show ?thesis using t(1) by blast
qed

text \<open>A buffer that is a list of entries, and a machine on which every CPU runs the same program.\<close>

definition list_tlb :: "(u64 \<times> u64) list tlb_ops" where
  "list_tlb = \<lparr>flush_tlb_one_user = (\<lambda>x. filter (\<lambda>e. fst e \<noteq> x)), local_flush_tlb = (\<lambda>_. [])\<rparr>"

definition list_held :: "(u64 \<times> u64) list held" where
  "list_held t a g \<longleftrightarrow> (a, g) \<in> set t"

lemma list_tlb_laws: "tlb_laws list_tlb list_held"
  by (auto simp: tlb_laws_def list_tlb_def list_held_def)

definition sample_machine :: "(u64 \<times> u64) list tlb_system" where
  "sample_machine = \<lparr>mm_tlb_gen = (\<lambda>_. 0),
     cpu_tlbstate = (\<lambda>_. \<lparr>loaded_mm = 1, loaded_mm_asid = 0, ctx_tlb_gen = (\<lambda>_. 0), is_lazy = False, hw_tlb = [(0x1000, 0)]\<rparr>)\<rparr>"

definition sample_request :: flush_tlb_info where
  "sample_request = flush_request 1 0 0x4000 12 False 1"

lemma sample_machine_step:
  "(tlb_step list_tlb list_held)\<^sup>*\<^sup>* (sample_machine, \<lambda>_ _. sample_request)
     (sample_machine\<lparr>mm_tlb_gen := (\<lambda>_. 0)(1 := 1)\<rparr>, record_request (\<lambda>_ _. sample_request) sample_request)"
  by (rule r_into_rtranclp)
     (use tlb_step.request [of sample_machine 1 "0x4000" 12 sample_request 0 False list_tlb list_held "\<lambda>_ _. sample_request"]
      in \<open>simp add: sample_machine_def sample_request_def steps_below_def\<close>)

lemma sample_machine_consistent: "tlb_consistent list_held (\<lambda>_ _. sample_request) sample_machine"
  by (auto simp: tlb_consistent_def caught_up_def sample_machine_def)

theorem flush_reaches_every_cpu_witness:
  "\<exists>t. copied_flush_tlb_mm_range list_tlb 0 [0, 1] 1 0 0x2000 12 False (sample_machine\<lparr>mm_tlb_gen := (\<lambda>_. 0)(1 := 1)\<rparr>) = Some t \<and>
    (loaded_mm (cpu_tlbstate t 1) = 1 \<longrightarrow>
     (\<forall>a g. list_held (hw_tlb (cpu_tlbstate t 1)) a g \<longrightarrow> in_range 0 0x2000 12 a \<longrightarrow> g > 1))"
  using flush_reaches_every_cpu [OF sample_machine_step list_tlb_laws sample_machine_consistent,
      of 1 "0x2000" 12 1 0 "[0, 1]" False 0]
  by (simp add: steps_below_def sample_machine_def)

end
