(* ===== verification/Self_Test.thy ===== *)
theory Self_Test
  imports Addr_Sequence_Protocol
begin

text \<open>
  The self test at the end of \<open>AddrSequence.cc\<close>, which compares a sequence with an ordered map over
  random walks. The random numbers are a parameter; the time and messages are left out. It returns 0
  except when the random number of walks is 0, which is proved here: the sequence passes its own test
  whatever the random numbers are.
\<close>

unbundle bit_operations_syntax

section \<open>The test\<close>

text \<open>The object under test with its \<open>test_map\<close>, and the source of random numbers.\<close>

type_synonym test_map = "(u64 \<times> u8) list"
type_synonym self_obj = "addr_seq \<times> test_map"
type_synonym 'k rand = "'k \<Rightarrow> nat \<times> 'k"

definition rc_value :: "as_rc \<Rightarrow> int" where
  "rc_value rc = (case rc of RC_OK \<Rightarrow> 0 | RC_REFUSED \<Rightarrow> - 1 | RC_NOMEM \<Rightarrow> - 12
     | ADDR_NOT_FOUND \<Rightarrow> 101 | IGNORE_DUPLICATED_ADDR \<Rightarrow> 102 | END_OF_SEQUENCE \<Rightarrow> 103)"

text \<open>\<open>m[a] = v\<close> and \<open>++m[a]\<close> on the ordered map.\<close>

fun test_map_put :: "u64 \<Rightarrow> u8 \<Rightarrow> test_map \<Rightarrow> test_map" where
  "test_map_put a v [] = [(a, v)]"
| "test_map_put a v ((b, w) # m) =
     (if a < b then (a, v) # (b, w) # m else if a = b then (a, v) # m else (b, w) # test_map_put a v m)"

definition test_map_inc :: "u64 \<Rightarrow> test_map \<Rightarrow> test_map" where
  "test_map_inc a m = map (\<lambda>(b, w). (b, if b = a then w + 1 else w)) m"

definition test_map_report :: "bool \<Rightarrow> as_rc \<Rightarrow> u64 \<Rightarrow> nat \<Rightarrow> test_map \<Rightarrow> test_map" where
  "test_map_report is_first_walk rc addr val m =
     (if is_first_walk then (if rc = RC_OK then test_map_put addr (of_nat val) m else m)
      else if addr \<in> fst ` set m then (if val \<noteq> 0 then test_map_inc addr m else m)
      else m)"

text \<open>\<open>rand() & mask\<close> with a mask of \<open>b\<close> bits, or 1 in a performance run.\<close>

definition draw :: "'k rand \<Rightarrow> bool \<Rightarrow> nat \<Rightarrow> 'k \<Rightarrow> nat \<times> 'k" where
  "draw rnd is_perf b k = (if is_perf then (1, k) else let (r, k) = rnd k in (take_bit b r, k))"

fun self_walk_loop ::
    "'k rand \<Rightarrow> u64 \<Rightarrow> bool \<Rightarrow> bool \<Rightarrow> nat \<Rightarrow> u64 \<Rightarrow> self_obj \<Rightarrow> 'k \<Rightarrow> (int \<times> self_obj \<times> 'k) option" where
  "self_walk_loop rnd ps is_perf is_first_walk 0 addr obj k = Some (0, obj, k)"
| "self_walk_loop rnd ps is_perf is_first_walk (Suc n) addr obj k =
     (let (delta, k) = draw rnd is_perf 8 k;
          addr = addr + of_nat delta * ps;
          (val, k) = draw rnd is_perf 1 k
      in do { (err, s) \<leftarrow> inc_payload (fst obj) addr (int val);
              if rc_negative err then Some (rc_value err, (s, snd obj), k)
              else self_walk_loop rnd ps is_perf is_first_walk n addr
                     (s, if is_perf then snd obj else test_map_report is_first_walk err addr val (snd obj)) k })"

definition do_self_test_walk :: "'k rand \<Rightarrow> u64 \<Rightarrow> bool \<Rightarrow> self_obj \<Rightarrow> 'k \<Rightarrow> (int \<times> self_obj \<times> 'k) option" where
  "do_self_test_walk rnd ps is_perf obj k =
     self_walk_loop rnd ps is_perf (snd obj = []) (2 ^ 20) 0x100000 (rewind (fst obj), snd obj) k"

text \<open>The loop over the map keeps what \<open>get_next\<close> wrote last.\<close>

fun self_compare_loop :: "test_map \<Rightarrow> u64 \<Rightarrow> u8 \<Rightarrow> addr_seq \<Rightarrow> int \<times> addr_seq" where
  "self_compare_loop [] addr payload s = (0, s)"
| "self_compare_loop ((key, v) # m) addr payload s =
     (let (r, s) = get_next s
      in case r of
           Inl rc \<Rightarrow> if rc_negative rc then (rc_value rc, s)
                     else if addr \<noteq> key then (- 1, s) else if payload \<noteq> v then (- 2, s)
                     else self_compare_loop m addr payload s
         | Inr (addr, payload, nid) \<Rightarrow>
             if addr \<noteq> key then (- 1, s) else if payload \<noteq> v then (- 2, s)
             else self_compare_loop m addr payload s)"

definition drain :: "addr_seq \<Rightarrow> addr_seq option" where
  "drain s = (let (rc, s) = get_next s in map_option snd (visit_loop (\<lambda>_ b s. Some (b, s)) rc () s))"

definition do_self_test_compare :: "bool \<Rightarrow> self_obj \<Rightarrow> (int \<times> self_obj) option" where
  "do_self_test_compare is_perf obj =
     (let (ok, s) = prepare_get (fst obj)
      in if \<not> ok then Some (- 1, (s, snd obj))
         else if is_perf then do { s \<leftarrow> drain s; Some (0, (s, snd obj)) }
         else let (err, s) = self_compare_loop (snd obj) 0 0 s in Some (err, (s, snd obj)))"

fun self_test_walks ::
    "'k rand \<Rightarrow> u64 \<Rightarrow> bool \<Rightarrow> nat \<Rightarrow> self_obj \<Rightarrow> 'k \<Rightarrow> (int \<times> self_obj \<times> 'k) option" where
  "self_test_walks rnd ps is_perf 0 obj k = Some (0, obj, k)"
| "self_test_walks rnd ps is_perf (Suc n) obj k =
     do { (err, obj, k) \<leftarrow> do_self_test_walk rnd ps is_perf obj k;
          if err < 0 then Some (err, obj, k) else self_test_walks rnd ps is_perf n obj k }"

definition do_self_test ::
    "'k rand \<Rightarrow> u64 \<Rightarrow> nat \<Rightarrow> bool \<Rightarrow> self_obj \<Rightarrow> 'k \<Rightarrow> (int \<times> self_obj \<times> 'k) option" where
  "do_self_test rnd ps max_loop is_perf obj k =
     do { (err, obj, k) \<leftarrow> self_test_walks rnd ps is_perf max_loop obj k;
          if err < 0 then Some (err, obj, k)
          else do { (err, obj) \<leftarrow> do_self_test_compare is_perf obj;
                    if err < 0 then Some (err, obj, k)
                    else do { (err, obj) \<leftarrow> do_self_test_compare is_perf obj; Some (err, obj, k) } } }"

text \<open>One test on a cleared object; the result of a test ends the run unless it is 0.\<close>

definition cleared_test ::
    "'k rand \<Rightarrow> nat \<Rightarrow> u64 \<Rightarrow> nat \<Rightarrow> bool \<Rightarrow> self_obj \<Rightarrow> 'k \<Rightarrow> (int \<times> self_obj \<times> 'k) option" where
  "cleared_test rnd shift ps max_loop is_perf obj k =
     do_self_test rnd ps max_loop is_perf (set_pageshift (as_clear (fst obj)) shift, []) k"

definition self_test :: "'k rand \<Rightarrow> self_obj \<Rightarrow> 'k \<Rightarrow> (int \<times> self_obj \<times> 'k) option" where
  "self_test rnd obj k =
     do { (ret, obj, k) \<leftarrow> cleared_test rnd 12 4096 30 False obj k;
          if ret \<noteq> 0 then Some (ret, obj, k) else do {
          (ret, obj, k) \<leftarrow> cleared_test rnd 21 (push_bit 21 1) 30 False obj k;
          if ret \<noteq> 0 then Some (ret, obj, k) else
          let (n, k) = draw rnd False 7 k in do {
          (ret, obj, k) \<leftarrow> cleared_test rnd 12 4096 n False obj k;
          if ret \<noteq> 0 then Some (ret, obj, k) else
          let (n, k) = draw rnd False 7 k in do {
          (ret, obj, k) \<leftarrow> cleared_test rnd 12 4096 n False obj k;
          if ret \<noteq> 0 then Some (ret, obj, k)
          else cleared_test rnd 21 (push_bit 21 1) 30 False obj k } } } }"

section \<open>The fixed test\<close>

definition test_static_first :: "(u64 \<times> int) list" where
  "test_static_first = [(0x1000, 0), (0x3000, 0), (0x5000, 0), (0x8000, 0),
     (0x1000 + 4096 * 255, 1), (0x1000 + 4096 * 256, 1)]"

definition test_static_second :: "(u64 \<times> int) list" where
  "test_static_second = [(0x11000, 0), (0x13000, 0), (0x15000, 0), (0x18000, 0), (0x21000, 0),
     (0x23000, 0), (0x25000, 0), (0x28000, 0), (0x30000, 0), (0x32000, 0)]"

definition test_static_third :: "(u64 \<times> int) list" where
  "test_static_third = [(0x11000, 1), (0x13000, 0), (0x15000, 1), (0x18000, 0), (0x21000, 1),
     (0x23000, 0), (0x25000, 1), (0x28000, 1), (0x30000, 0), (0x32000, 1), (0x40000, 1), (0x40000, 1)]"

text \<open>It prints the entries after the third block, and then only measures.\<close>

definition test_static :: "'k rand \<Rightarrow> addr_seq \<Rightarrow> 'k \<Rightarrow> ((u64 \<times> u8) list \<times> int) option" where
  "test_static rnd s k =
     do { s \<leftarrow> inc_all (set_pageshift s 12) test_static_first;
          s \<leftarrow> inc_all (set_pageshift (rewind (as_clear s)) 12) test_static_second;
          s \<leftarrow> inc_all (rewind s) test_static_third;
          (printed, s) \<leftarrow> visit_fold (\<lambda>(a, p, _) l. l @ [(a, p)]) [] s;
          (rc, obj, k) \<leftarrow> cleared_test rnd 12 1 12 True (as_clear s, []) k;
          if rc \<noteq> 0 then Some (printed, rc) else do {
          (rc, obj, k) \<leftarrow> cleared_test rnd 12 4096 17 True obj k;
          if rc \<noteq> 0 then Some (printed, rc) else do {
          (rc, obj, k) \<leftarrow> cleared_test rnd 21 (push_bit 21 1) 30 True obj k;
          Some (printed, rc) } } }"

section \<open>The map mirrors the sequence\<close>

definition mirrors :: "self_obj \<Rightarrow> bool" where
  "mirrors obj \<longleftrightarrow> map (\<lambda>(a, p, _, _). (a, p)) (contents (fst obj)) = snd obj"

lemma test_map_put_last:
  "\<forall>x \<in> set m. fst x < a \<Longrightarrow> test_map_put a v m = m @ [(a, v)]"
  by (induction m) (auto simp: not_less_iff_gr_or_eq)

lemma inc_payload_appending_rc:
  assumes "appending s" and "inc_payload s a n = Some (rc, t)"
  shows "\<not> rc_negative rc" and "rc = RC_OK \<longleftrightarrow> contents s = [] \<or> fst (last (contents s)) < a"
proof -
  have inc: "append_addr s a n = (rc, t)" using assms by (simp add: inc_payload_def appending_def)
  have last: "addrs s = [] \<or> last (addrs s) < a \<longleftrightarrow> contents s = [] \<or> fst (last (contents s)) < a"
    using contents_Nil_iff last_addrs_contents by metis
  have "rc = (if addrs s = [] \<or> last (addrs s) < a then RC_OK else IGNORE_DUPLICATED_ADDR)"
    using append_addr_new [of s a n] append_addr_old [of s a n] assms(1) inc
    by (auto simp: appending_def vec_ok_def buf_ok_def not_less)
  then show "\<not> rc_negative rc" "rc = RC_OK \<longleftrightarrow> contents s = [] \<or> fst (last (contents s)) < a"
    by (auto simp: rc_negative_def last)
qed

lemma find_loop_rc:
  assumes "find_loop s a it = Some r"
  shows "fst r = RC_OK \<or> fst r = ADDR_NOT_FOUND"
proof (rule find_loop.raw_induct [where P = "\<lambda>s a it r. fst r = RC_OK \<or> fst r = ADDR_NOT_FOUND", OF _ assms])
  fix find s a it r
  assume "\<And>s a it r. find s a it = Some r \<Longrightarrow> fst r = RC_OK \<or> fst r = ADDR_NOT_FOUND"
    and "(case do_walk s it of None \<Rightarrow> Some (ADDR_NOT_FOUND, it)
       | Some (next_addr, _, _) \<Rightarrow> if next_addr = a then Some (RC_OK, it)
           else if next_addr > a then Some (ADDR_NOT_FOUND, it) else find s a (do_walk_move_next s it)) = Some r"
  then show "fst r = RC_OK \<or> fst r = ADDR_NOT_FOUND"
    by (cases r) (fastforce split: option.splits if_splits)
qed

lemma inc_payload_counting_rc:
  assumes "counting s" and "inc_payload s a n = Some (rc, t)"
  shows "\<not> rc_negative rc" and "buf_oom t = buf_oom s" and "vec_oom t = vec_oom s"
proof -
  obtain rc' it where it: "find_loop s a (find_iter s) = Some (rc', it)"
    "(rc, t) = (if rc' = RC_OK then (RC_OK, do_walk_update_payload (s\<lparr>find_iter := it\<rparr>) it (word_of_int n) True)
       else (rc', s\<lparr>find_iter := it\<rparr>))"
    using assms by (auto simp: inc_payload_def counting_def update_addr_def Let_def split: Option.bind_splits)
  then show "\<not> rc_negative rc" "buf_oom t = buf_oom s" "vec_oom t = vec_oom s"
    using find_loop_rc [OF it(1)]
    by (auto simp: rc_negative_def do_walk_update_payload_def update_addr_location_count_fields Let_def split: if_splits)
qed

text \<open>What holds of the object between the walks and during a walk.\<close>

definition tested :: "bool \<Rightarrow> phase \<Rightarrow> self_obj \<Rightarrow> bool" where
  "tested is_perf ph obj \<longleftrightarrow> phase_inv ph (fst obj) \<and> buf_oom (fst obj) = [] \<and> vec_oom (fst obj) = [] \<and>
     (is_perf \<or> mirrors obj)"

lemma first_walk_step:
  assumes "tested is_perf Appending (s, m)"
  shows "\<exists>rc t. inc_payload s a (int v) = Some (rc, t) \<and> \<not> rc_negative rc \<and> contents t \<noteq> [] \<and>
    tested is_perf Appending (t, if is_perf then m else test_map_report True rc a v m)"
proof -
  have s: "phase_inv Appending s" "appending s" "seq_inv s"
    using assms by (auto simp: tested_def phase_inv_def appending_def)
  obtain rc t where t: "inc_payload s a (int v) = Some (rc, t)" "appending t"
    "contents t = record_one (contents s) (a, int v)"
    using inc_payload_appending [OF s(2)] by blast
  have ph: "phase_inv Appending t" using inc_payload_phase [OF s(1), of a "int v"] t(1) by simp
  note rc = inc_payload_appending_rc [OF s(2) t(1)]
  have "mirrors (t, test_map_report True rc a v m)" if "mirrors (s, m)"
  proof (cases "rc = RC_OK")
    case True
    then have new: "contents t = contents s @ [(a, of_nat v, - 1, LOC_DRAM)]"
      using rc t(3) by (auto simp: record_one_def)
    have "sorted_wrt (<) (map fst (contents s))" using s(3) by (simp add: seq_inv_def)
    then have "\<forall>e \<in> set (contents s). fst e < a"
      using rc True by (cases "contents s" rule: rev_cases) (auto simp: sorted_wrt_append)
    then have "\<forall>x \<in> set m. fst x < a" using that by (force simp: mirrors_def)
    then show ?thesis using that True new by (simp add: mirrors_def test_map_report_def test_map_put_last)
  next
    case False
    then show ?thesis using that rc t(3) by (auto simp: mirrors_def test_map_report_def record_one_def)
  qed
  then show ?thesis using t ph rc(1) assms by (auto simp: tested_def appending_def record_one_def)
qed

lemma add_hits_one: "add_hits [(a, n)] (b, p, nid, loc) =
   (b, if a = b \<and> word_of_int n \<noteq> (0 :: u8) then p + 1 else p, nid, loc)"
  by (simp add: add_hits_def hits_def)

lemma later_walk_step:
  assumes "tested is_perf Counting (s, m)" and "find_ok s a" and "v < 2"
  shows "\<exists>rc t. inc_payload s a (int v) = Some (rc, t) \<and> \<not> rc_negative rc \<and> length (contents t) = length (contents s) \<and>
    (\<forall>b \<ge> a. find_ok t b) \<and> tested is_perf Counting (t, if is_perf then m else test_map_report False rc a v m)"
proof -
  have s: "phase_inv Counting s" "counting s"
    using assms by (auto simp: tested_def phase_inv_def counting_def in_append_period_def)
  obtain rc t where t: "inc_payload s a (int v) = Some (rc, t)" "report_one a (int v) s t"
    using inc_payload_counting [OF s(2) assms(2)] by blast
  have ph: "phase_inv Counting t" using inc_payload_phase [OF s(1), of a "int v"] t(1) by simp
  note c = report_one_contents [OF t(2)]
  have v: "(of_nat v :: u8) = 0 \<longleftrightarrow> v = 0" using assms(3) by (cases v) auto
  have "mirrors (t, test_map_report False rc a v m)" if "mirrors (s, m)"
  proof -
    have m: "m = map (\<lambda>(a, p, _, _). (a, p)) (contents s)" using that by (simp add: mirrors_def)
    show ?thesis
    proof (cases "a \<in> fst ` set m \<and> v \<noteq> 0")
      case True
      then show ?thesis
        by (auto simp: mirrors_def c test_map_report_def test_map_inc_def m add_hits_one v split: prod.splits)
    next
      case False
      have "add_hits [(a, int v)] e = e" if "e \<in> set (contents s)" for e
        using False that v by (cases e) (force simp: add_hits_one m)
      then show ?thesis using False that
        by (auto simp: mirrors_def c test_map_report_def cong: map_cong)
    qed
  qed
  moreover have "length (contents t) = length (contents s)" by (simp only: c length_map)
  moreover have "\<forall>b \<ge> a. find_ok t b" using t(2) by (simp add: report_one_def)
  ultimately show ?thesis using t(1) ph inc_payload_counting_rc [OF s(2) t(1)] assms(1)
    by (auto simp: tested_def)
qed

lemma draw_less: "draw rnd is_perf b k = (d, k') \<Longrightarrow> 0 < b \<Longrightarrow> d < 2 ^ b"
  using one_less_power [of "2 :: nat" b]
  by (auto simp: draw_def take_bit_nat_less_exp split: if_splits prod.splits)

section \<open>Walks\<close>

lemma first_walk_tested:
  assumes "tested is_perf Appending obj" and "0 < n \<or> contents (fst obj) \<noteq> []"
  shows "\<exists>obj' k'. self_walk_loop rnd ps is_perf True n addr obj k = Some (0, obj', k') \<and>
    tested is_perf Appending obj' \<and> contents (fst obj') \<noteq> []"
  using assms
proof (induction n arbitrary: addr obj k)
  case 0
  then show ?case by simp
next
  case (Suc n)
  obtain s m where obj: "obj = (s, m)" by (cases obj)
  obtain d k1 where d: "draw rnd is_perf 8 k = (d, k1)" by (cases "draw rnd is_perf 8 k")
  obtain v k2 where v: "draw rnd is_perf 1 k1 = (v, k2)" by (cases "draw rnd is_perf 1 k1")
  let ?a = "addr + of_nat d * ps"
  obtain rc t where t: "inc_payload s ?a (int v) = Some (rc, t)" "\<not> rc_negative rc" "contents t \<noteq> []"
    "tested is_perf Appending (t, if is_perf then m else test_map_report True rc ?a v m)"
    using first_walk_step [of is_perf s m ?a v] Suc.prems(1) obj by blast
  have "self_walk_loop rnd ps is_perf True (Suc n) addr obj k = self_walk_loop rnd ps is_perf True n ?a
      (t, if is_perf then m else test_map_report True rc ?a v m) k2"
    using t(1,2) by (simp add: obj d v [unfolded One_nat_def] Let_def)
  with Suc.IH [OF t(4), of ?a k2] t(3) show ?case by simp
qed

lemma later_walk_tested:
  assumes "tested is_perf Counting obj" and "\<forall>b \<ge> addr. find_ok (fst obj) b"
    and "unat addr + n * (255 * unat ps) < 2 ^ 64" and "is_perf \<or> \<not> is_first"
  shows "\<exists>obj' k'. self_walk_loop rnd ps is_perf is_first n addr obj k = Some (0, obj', k') \<and>
    tested is_perf Counting obj' \<and> length (contents (fst obj')) = length (contents (fst obj))"
  using assms
proof (induction n arbitrary: addr obj k)
  case 0
  then show ?case by simp
next
  case (Suc n)
  obtain s m where obj: "obj = (s, m)" by (cases obj)
  obtain d k1 where d: "draw rnd is_perf 8 k = (d, k1)" by (cases "draw rnd is_perf 8 k")
  obtain v k2 where v: "draw rnd is_perf 1 k1 = (v, k2)" by (cases "draw rnd is_perf 1 k1")
  let ?a = "addr + of_nat d * ps"
  have "d \<le> 255" using draw_less [OF d] by simp
  then have dp: "d * unat ps \<le> 255 * unat ps" by (rule mult_le_mono1)
  then have "d * unat ps < 2 ^ 64" and sum: "unat addr + d * unat ps < 2 ^ 64"
    using Suc.prems(3) unfolding mult_Suc by linarith+
  have "unat (of_nat d :: u64) = d" using \<open>d \<le> 255\<close> by (simp add: unsigned_of_nat take_bit_nat_eq_self)
  then have u: "unat (of_nat d * ps) = d * unat ps"
    using \<open>d * unat ps < 2 ^ 64\<close> by (simp add: unat_word_ariths)
  then have a: "unat ?a = unat addr + d * unat ps" using sum by (simp add: unat_add_small)
  then have le: "addr \<le> ?a" by (simp add: word_le_nat_alt)
  obtain rc t where t: "inc_payload s ?a (int v) = Some (rc, t)" "\<not> rc_negative rc"
    "length (contents t) = length (contents s)" "\<forall>b \<ge> ?a. find_ok t b"
    "tested is_perf Counting (t, if is_perf then m else test_map_report False rc ?a v m)"
    using later_walk_step [of is_perf s m ?a v] Suc.prems(1,2) le draw_less [OF v] obj by auto
  have "unat ?a + n * (255 * unat ps) < 2 ^ 64" using Suc.prems(3) dp unfolding a mult_Suc by linarith
  from Suc.IH [OF t(5) _ this Suc.prems(4), of k2] t(3,4) have
    "\<exists>obj' k'. self_walk_loop rnd ps is_perf is_first n ?a (t, if is_perf then m else test_map_report False rc ?a v m) k2 =
       Some (0, obj', k') \<and> tested is_perf Counting obj' \<and> length (contents (fst obj')) = length (contents s)"
    by (simp del: length_contents)
  moreover have "self_walk_loop rnd ps is_perf is_first (Suc n) addr obj k = self_walk_loop rnd ps is_perf is_first n ?a
      (t, if is_perf then m else test_map_report False rc ?a v m) k2"
    using t(1,2) Suc.prems(4) by (auto simp: obj d v [unfolded One_nat_def] Let_def)
  ultimately show ?case by (simp del: length_contents add: obj)
qed

lemma tested_rewind:
  assumes "tested is_perf ph obj"
  shows "tested is_perf Counting (rewind (fst obj), snd obj)" and "\<forall>b. find_ok (rewind (fst obj)) b"
  using assms phase_inv_rewind [of ph "fst obj"] rewind_find_ok [OF phase_inv_seq_inv [of ph "fst obj"]]
  by (auto simp: tested_def mirrors_def rewind_fields)

text \<open>Before the first walk the object is cleared.\<close>

lemma tested_cleared:
  assumes "shift \<le> 30" and "buf_oom s = []" and "vec_oom s = []"
  shows "tested is_perf Appending (rewind (set_pageshift (as_clear s) shift), [])"
proof -
  have "seq_run Appending (rewind (fresh_seq s shift))" using assms by (rule seq_run.start)
  then show ?thesis using seq_run_phase_inv fresh_seq_inv [OF assms(1), of s] assms
    by (fastforce simp: tested_def mirrors_def rewind_fields fresh_seq_def)
qed

definition walked :: "bool \<Rightarrow> self_obj \<Rightarrow> bool" where
  "walked is_perf obj \<longleftrightarrow> (\<exists>ph. tested is_perf ph obj) \<and> contents (fst obj) \<noteq> [] "

lemma walked_again:
  assumes "walked is_perf obj" and "unat ps \<le> 2 ^ 21"
  shows "\<exists>obj' k'. do_self_test_walk rnd ps is_perf obj k = Some (0, obj', k') \<and> walked is_perf obj'"
proof -
  obtain ph where ph: "tested is_perf ph obj" using assms(1) by (auto simp: walked_def)
  have "255 * unat ps \<le> 255 * 2 ^ 21" using assms(2) by simp
  then have "2 ^ 20 * (255 * unat ps) \<le> 2 ^ 20 * (255 * 2 ^ 21)" by (rule mult_le_mono2)
  then have small: "unat (0x100000 :: u64) + 2 ^ 20 * (255 * unat ps) < 2 ^ 64" by simp
  have "is_perf \<or> snd obj \<noteq> []" using assms(1) ph by (auto simp: tested_def mirrors_def walked_def)
  from later_walk_tested [OF tested_rewind(1) [OF ph] _ small, of "snd obj = []" rnd k] this tested_rewind(2) [OF ph]
  show ?thesis using assms(1)
    unfolding do_self_test_walk_def walked_def by (auto simp del: length_contents simp: rewind_fields)
qed

section \<open>Comparing\<close>

lemma walked_walk_iter:
  assumes "walked is_perf (s, m)"
  shows "walked is_perf (s\<lparr>walk_iter := w\<rparr>, m)"
  using assms walk_iter_phase by (auto simp: walked_def tested_def mirrors_def simp del: length_contents)

lemma self_compare_loop_ok:
  assumes "iter_at s (walk_iter s) i" and "sizes_pos s" and "m = drop i (map (\<lambda>(a, p, _). (a, p)) (items s))"
  shows "\<exists>w. self_compare_loop m addr p s = (0, s\<lparr>walk_iter := w\<rparr>)"
  using assms
proof (induction m arbitrary: i addr p s)
  case Nil
  moreover have "s = s\<lparr>walk_iter := walk_iter s\<rparr>" by simp
  ultimately show ?case by (metis self_compare_loop.simps(1))
next
  case (Cons x m)
  obtain key v where x: "x = (key, v)" by (cases x)
  have i: "i < length (cells s)" using Cons.prems(3) by (cases "i < length (cells s)") simp_all
  obtain w where w: "snd (get_next s) = s\<lparr>walk_iter := w\<rparr>" and r: "reports (s\<lparr>walk_iter := w\<rparr>) (fst (get_next s)) i"
    using get_next_reports [OF Cons.prems(1,2)] by auto
  obtain a q nid where it: "items s ! i = (a, q, nid)" by (cases "items s ! i")
  have next_item: "get_next s = (Inr (a, q, nid), s\<lparr>walk_iter := w\<rparr>)"
    using w r i it by (cases "get_next s") (simp add: reports_def)
  have "x # m = (a, q) # drop (Suc i) (map (\<lambda>(a, p, _). (a, p)) (items s))"
    using Cons.prems(3) i it by (simp add: Cons_nth_drop_Suc [symmetric])
  then have eq: "x = (a, q)" and m: "m = drop (Suc i) (map (\<lambda>(a, p, _). (a, p)) (items (s\<lparr>walk_iter := w\<rparr>)))"
    by simp_all
  have "iter_at (s\<lparr>walk_iter := w\<rparr>) (walk_iter (s\<lparr>walk_iter := w\<rparr>)) (Suc i)"
    using r i by (simp add: reports_def)
  moreover have "sizes_pos (s\<lparr>walk_iter := w\<rparr>)" using Cons.prems(2) by (simp add: sizes_pos_def)
  ultimately obtain w' where "self_compare_loop m a q (s\<lparr>walk_iter := w\<rparr>) = (0, s\<lparr>walk_iter := w'\<rparr>)"
    using Cons.IH [of "s\<lparr>walk_iter := w\<rparr>" "Suc i" a q] m by auto
  then show ?case using next_item eq by auto
qed

lemma drain_ok:
  assumes "iter_at s (walk_iter s) 0" and "seq_inv s"
  shows "\<exists>w. drain s = Some (s\<lparr>walk_iter := w\<rparr>)"
proof -
  obtain w where w: "snd (get_next s) = s\<lparr>walk_iter := w\<rparr>" and r: "reports (s\<lparr>walk_iter := w\<rparr>) (fst (get_next s)) 0"
    using get_next_reports [OF assms(1) seq_inv_sizes_pos [OF assms(2)]] by auto
  let ?I = "\<lambda>_ _ t. \<exists>w. t = s\<lparr>walk_iter := w\<rparr>"
  have sh: "same_shape s (s\<lparr>walk_iter := w\<rparr>)" by simp
  have "\<exists>b' t'. visit_loop (\<lambda>_ b s. Some (b, s)) (fst (get_next s)) () (s\<lparr>walk_iter := w\<rparr>) = Some (b', t') \<and>
      same_shape s t' \<and> ?I (length (cells s)) b' t'"
    by (rule visit_loop_rule [where I = ?I, OF r same_shape_inv [OF sh assms(2)] sh]) auto
  then show ?thesis using w by (auto simp: drain_def split_beta)
qed

lemma do_self_test_compare_ok:
  assumes "walked is_perf obj"
  shows "\<exists>obj'. do_self_test_compare is_perf obj = Some (0, obj') \<and> walked is_perf obj'"
proof -
  obtain s m where obj: "obj = (s, m)" by (cases obj)
  have inv: "seq_inv s" and m: "is_perf \<or> m = map (\<lambda>(a, p, _). (a, p)) (items s)"
    using assms phase_inv_seq_inv by (auto simp: walked_def tested_def mirrors_def items_def obj)
  have ne: "addr_clusters s \<noteq> []" using assms by (auto simp: walked_def obj contents_def cells_def addrs_def)
  let ?s = "s\<lparr>walk_iter := reset_iterator s (walk_iter s) 0\<rparr>"
  have get: "prepare_get s = (True, ?s)" using ne by (simp add: prepare_get_def)
  have sh: "same_shape s ?s" by simp
  have inv': "seq_inv ?s" by (rule same_shape_inv [OF sh inv])
  have at: "iter_at ?s (walk_iter ?s) 0"
    using iter_at_reset [OF seq_inv_sizes_pos [OF inv], of "walk_iter s"] by simp
  show ?thesis
  proof (cases is_perf)
    case True
    obtain w where "drain ?s = Some (?s\<lparr>walk_iter := w\<rparr>)" using drain_ok [OF at inv'] by blast
    then show ?thesis using get True walked_walk_iter [of is_perf s m] assms
      by (simp add: do_self_test_compare_def obj)
  next
    case False
    then have "m = drop 0 (map (\<lambda>(a, p, _). (a, p)) (items ?s))" using m by simp
    from self_compare_loop_ok [OF at seq_inv_sizes_pos [OF inv'] this, of 0 0]
    obtain w where "self_compare_loop m 0 0 ?s = (0, ?s\<lparr>walk_iter := w\<rparr>)" by blast
    then show ?thesis using get False walked_walk_iter [of is_perf s m] assms
      by (simp add: do_self_test_compare_def obj)
  qed
qed

section \<open>The test passes\<close>

lemma self_test_walks_ok:
  assumes "unat ps \<le> 2 ^ 21" and "walked is_perf obj"
  shows "\<exists>obj' k'. self_test_walks rnd ps is_perf n obj k = Some (0, obj', k') \<and> walked is_perf obj'"
  using assms(2)
proof (induction n arbitrary: obj k)
  case (Suc n)
  obtain obj1 k1 where "do_self_test_walk rnd ps is_perf obj k = Some (0, obj1, k1)" "walked is_perf obj1"
    using walked_again [OF Suc.prems assms(1), where rnd = rnd and k = k] by blast
  then show ?case using Suc.IH by simp
qed simp

lemma cleared_test_ok:
  assumes "shift \<le> 30" and "unat ps \<le> 2 ^ 21" and "buf_oom (fst obj) = []" and "vec_oom (fst obj) = []"
  shows "\<exists>obj' k'. cleared_test rnd shift ps max_loop is_perf obj k = Some (if max_loop = 0 then - 1 else 0, obj', k') \<and>
    buf_oom (fst obj') = [] \<and> vec_oom (fst obj') = []"
proof (cases max_loop)
  case 0
  let ?s = "set_pageshift (as_clear (fst obj)) shift"
  have "prepare_get ?s = (False, ?s)"
    by (simp add: prepare_get_def set_pageshift_def as_clear_def free_all_buf_def clear_location_count_def Let_def)
  then show ?thesis using 0 fresh_seq_inv(5,6) [OF assms(1), of "fst obj"] assms
    by (simp add: cleared_test_def do_self_test_def do_self_test_compare_def fresh_seq_def)
next
  case (Suc n)
  let ?obj = "(set_pageshift (as_clear (fst obj)) shift, []) :: self_obj"
  obtain obj1 k1 where 1: "do_self_test_walk rnd ps is_perf ?obj k = Some (0, obj1, k1)" "walked is_perf obj1"
    using first_walk_tested [OF tested_cleared [where is_perf = is_perf, OF assms(1,3,4)], where n = "2 ^ 20" and rnd = rnd and ps = ps and addr = "0x100000" and k = k]
    unfolding do_self_test_walk_def walked_def by fastforce
  obtain obj2 k2 where 2: "self_test_walks rnd ps is_perf n obj1 k1 = Some (0, obj2, k2)" "walked is_perf obj2"
    using self_test_walks_ok [OF assms(2) 1(2), where rnd = rnd and n = n and k = k1] by blast
  obtain obj3 where 3: "do_self_test_compare is_perf obj2 = Some (0, obj3)" "walked is_perf obj3"
    using do_self_test_compare_ok [OF 2(2)] by blast
  obtain obj4 where 4: "do_self_test_compare is_perf obj3 = Some (0, obj4)" "walked is_perf obj4"
    using do_self_test_compare_ok [OF 3(2)] by blast
  show ?thesis using 1(1) 2(1) 3(1) 4 Suc
    by (auto simp: cleared_test_def do_self_test_def walked_def tested_def)
qed



section \<open>The fixed test\<close>

lemma constructed_appending:
  assumes "buf_oom raw = []" and "vec_oom raw = []"
  shows "appending (set_pageshift (AddrSequence_ctor raw) 12)"
  using assms
  by (simp add: appending_def append_ready_def in_append_period_def seq_inv_def cells_def addrs_def
      AddrSequence_ctor_def set_pageshift_def clear_location_count_def)

lemma set_pageshift_rewind: "set_pageshift (rewind s) b = rewind (set_pageshift s b)"
  by (simp add: set_pageshift_def rewind_def clear_location_count_def reset_iterator_def do_walk_update_current_ptr_def Let_def)

lemma inc_all_phase:
  assumes "phase_inv ph s" and "ph = Appending \<or> ph = Counting" and "inc_all s xs = Some t"
  shows "phase_inv ph t"
  using assms
proof (induction xs arbitrary: s)
  case (Cons x xs)
  obtain a n where x: "x = (a, n)" by (cases x)
  obtain rc u where "inc_payload s a n = Some (rc, u)" "phase_inv ph u"
    using inc_payload_phase [OF Cons.prems(1,2)] by blast
  then show ?case using Cons x by simp
qed simp

lemma inc_all_no_oom:
  assumes "phase_inv Counting s" and "inc_all s xs = Some t" and "buf_oom s = []" and "vec_oom s = []"
  shows "buf_oom t = [] \<and> vec_oom t = []"
  using assms
proof (induction xs arbitrary: s)
  case (Cons x xs)
  obtain a n where x: "x = (a, n)" by (cases x)
  obtain rc u where u: "inc_payload s a n = Some (rc, u)" "phase_inv Counting u"
    using inc_payload_phase [OF Cons.prems(1), of a n] by blast
  have "counting s" using Cons.prems(1) by (auto simp: phase_inv_def counting_def in_append_period_def)
  then show ?case using Cons u x inc_payload_counting_rc(2,3) [OF _ u(1)] by simp
qed simp

text \<open>
  The fixed test of a new object returns 0 and prints the pages of the second block with the counts of the third.\<close>

theorem test_static_prints:
  assumes "buf_oom raw = []" and "vec_oom raw = []"
  shows "test_static rnd (AddrSequence_ctor raw) k = Some ([(0x11000, 1), (0x13000, 0), (0x15000, 1), (0x18000, 0),
     (0x21000, 1), (0x23000, 0), (0x25000, 1), (0x28000, 1), (0x30000, 0), (0x32000, 1)], 0)"
proof -
  obtain s1 where 1: "inc_all (set_pageshift (AddrSequence_ctor raw) 12) test_static_first = Some s1" "appending s1"
    using inc_all_appending [OF constructed_appending [OF assms]] by blast
  have start: "appending (rewind (fresh_seq s1 12))"
    using 1(2) by (intro appending_rewind_fresh) (simp_all add: appending_def)
  have empty: "contents (rewind (fresh_seq s1 12)) = []" using fresh_seq_inv(2) [of 12 s1] by simp
  obtain s2 where 2: "inc_all (rewind (fresh_seq s1 12)) test_static_second = Some s2" "appending s2"
    "contents s2 = foldl record_one [] test_static_second"
    using inc_all_appending [OF start, of test_static_second] empty by auto
  have inv2: "seq_inv s2" using 2(2) by (simp add: appending_def)
  have ph1: "phase_inv Appending (rewind (fresh_seq s1 12))"
    using start fresh_seq_inv(4) [of 12 s1] by (simp add: phase_inv_def rewind_fields)
  have ph2: "phase_inv Appending s2" using inc_all_phase [OF ph1 _ 2(1)] by simp
  have ph3: "phase_inv Counting (rewind s2)" by (rule phase_inv_rewind [OF ph2])
  have "counting (rewind s2)" using ph3 by (simp add: phase_inv_def counting_def in_append_period_def)
  from inc_all_counting [OF this, of test_static_third] rewind_find_ok [OF inv2]
  obtain s3 where 3: "inc_all (rewind s2) test_static_third = Some s3" "counting s3"
    "contents s3 = map (add_hits test_static_third) (contents s2)"
    by (auto simp: test_static_third_def)
  have oom3: "buf_oom s3 = []" "vec_oom s3 = []"
    using inc_all_no_oom [OF ph3 3(1)] 2(2) by (simp_all add: appending_def rewind_fields)
  have c2: "contents s2 = map (\<lambda>(a, n). (a, word_of_int n, - 1, LOC_DRAM)) test_static_second"
    using 2(3) record_ascending [of test_static_second "[]"] by (simp add: test_static_second_def)
  have items3: "map (\<lambda>(a, p, _). (a, p)) (items s3) = [(0x11000, 1), (0x13000, 0), (0x15000, 1), (0x18000, 0),
     (0x21000, 1), (0x23000, 0), (0x25000, 1), (0x28000, 1), (0x30000, 0), (0x32000, 1)]"
    unfolding items_def 3(3) c2 by (simp add: test_static_second_def test_static_third_def add_hits_def hits_def)
  have collect: "fold (\<lambda>(a, p, _) l. l @ [(a, p)]) xs l = l @ map (\<lambda>(a, p, _). (a, p)) xs"
    for xs :: "(u64 \<times> u8 \<times> int) list" and l by (induction xs arbitrary: l) auto
  obtain w where 4: "visit_fold (\<lambda>(a, p, _) l. l @ [(a, p)]) [] s3 =
      Some (map (\<lambda>(a, p, _). (a, p)) (items s3), s3\<lparr>walk_iter := w\<rparr>)"
    using visit_fold_items [of s3 "\<lambda>(a, p, _) l. l @ [(a, p)]" "[]"] 3(2) by (auto simp: counting_def collect)
  let ?s4 = "as_clear (s3\<lparr>walk_iter := w\<rparr>)"
  have "buf_oom (fst (?s4, [] :: test_map)) = []" "vec_oom (fst (?s4, [] :: test_map)) = []"
    using oom3 by (simp_all add: as_clear_def free_all_buf_def clear_location_count_def Let_def)
  from cleared_test_ok [OF _ _ this, of 12 1 rnd 12 True k]
  obtain obj5 k5 where 5: "cleared_test rnd 12 1 12 True (?s4, []) k = Some (0, obj5, k5)"
    "buf_oom (fst obj5) = []" "vec_oom (fst obj5) = []" by auto
  from cleared_test_ok [OF _ _ this(2,3), of 12 4096 rnd 17 True k5]
  obtain obj6 k6 where 6: "cleared_test rnd 12 4096 17 True obj5 k5 = Some (0, obj6, k6)"
    "buf_oom (fst obj6) = []" "vec_oom (fst obj6) = []" by auto
  from cleared_test_ok [OF _ _ this(2,3), of 21 "push_bit 21 1" rnd 30 True k6]
  obtain obj7 k7 where 7: "cleared_test rnd 21 (push_bit 21 1) 30 True obj6 k6 = Some (0, obj7, k7)" by auto
  have "set_pageshift (rewind (as_clear s1)) 12 = rewind (fresh_seq s1 12)"
    by (simp add: set_pageshift_rewind fresh_seq_def)
  then show ?thesis using 1(1) 2(1) 3(1) 4 5(1) 6(1) 7 items3
    unfolding test_static_def by (simp only: Option.bind.bind_lunit prod.case if_False simp_thms)
qed

end
