(* ===== verification/Interval_Fitting.thy ===== *)
theory Interval_Fitting
  imports MO_Prelude
begin

text \<open>
  Choosing the interval between scans: \<open>IntervalFitting.h\<close> and \<open>BandwidthLimit.h\<close>,
  \<open>BandwidthLimit.cc\<close>. The intervals are values of a linearly ordered type; the floating-point
  expressions on them are parameters, so no NaN is among them. Time is a parameter.
\<close>

unbundle bit_operations_syntax

section \<open>The pool of samples\<close>

text \<open>
  \<open>order_pool\<close> is the ordered map from intervals to samples, \<open>data_pool\<close> the list of its intervals
  in the order they were added.
\<close>

record 'x interval_fitting =
  order_pool :: "('x \<times> u64) list"
  data_pool :: "'x list"
  target_y :: u64

definition TMaxSample :: nat where "TMaxSample = 5"

definition set_target_y :: "u64 \<Rightarrow> 'x interval_fitting \<Rightarrow> 'x interval_fitting" where
  "set_target_y y f = f\<lparr>target_y := y\<rparr>"

fun pool_put :: "'x::linorder \<Rightarrow> u64 \<Rightarrow> ('x \<times> u64) list \<Rightarrow> ('x \<times> u64) list" where
  "pool_put x y [] = [(x, y)]"
| "pool_put x y ((a, b) # m) =
     (if x < a then (x, y) # (a, b) # m else if x = a then (x, y) # m else (a, b) # pool_put x y m)"

definition pool_erase :: "'x \<Rightarrow> ('x \<times> u64) list \<Rightarrow> ('x \<times> u64) list" where
  "pool_erase x m = filter (\<lambda>e. fst e \<noteq> x) m"

text \<open>Erasing the end iterator is a fault, and so is the front of an empty list.\<close>

definition add_pair :: "'x::linorder \<Rightarrow> u64 \<Rightarrow> 'x interval_fitting \<Rightarrow> 'x interval_fitting run" where
  "add_pair x y f =
     (let full = length (data_pool f) \<ge> TMaxSample;
          f = (if full then f\<lparr>order_pool := pool_erase (hd (data_pool f)) (order_pool f), data_pool := tl (data_pool f)\<rparr> else f)
      in rbind (if x \<in> fst ` set (order_pool f)
                then (if x \<in> set (data_pool f) then Inr (f\<lparr>data_pool := remove1 x (data_pool f)\<rparr>) else Inl Bad_index)
                else Inr f)
           (\<lambda>f. Inr (f\<lparr>data_pool := data_pool f @ [x], order_pool := pool_put x y (order_pool f)\<rparr>)))"

section \<open>Estimating\<close>

text \<open>
  \<open>old * ((float)target / ((float)y + 1.0))\<close> with the ratio cut to 0.2 .. 10 and the result to
  0.000001 .. 100, and \<open>(target - b) / a\<close> of the line through two samples.
\<close>

record 'x fit_ops =
  fit_ratio :: "u64 \<Rightarrow> u64 \<Rightarrow> 'x"
  fit_mul :: "'x \<Rightarrow> 'x \<Rightarrow> 'x"
  fit_ratio_min :: 'x
  fit_ratio_max :: 'x
  fit_min :: 'x
  fit_max :: 'x
  fit_default :: 'x
  fit_line :: "'x \<times> u64 \<Rightarrow> 'x \<times> u64 \<Rightarrow> u64 \<Rightarrow> 'x"

definition pure_liner_x :: "'x::linorder fit_ops \<Rightarrow> u64 \<Rightarrow> 'x \<Rightarrow> u64 \<Rightarrow> 'x" where
  "pure_liner_x F target old_x new_y =
     (let ratio = fit_ratio F target new_y;
          ratio = (if ratio > fit_ratio_max F then fit_ratio_max F
                   else if ratio < fit_ratio_min F then fit_ratio_min F else ratio);
          est_x = fit_mul F old_x ratio;
          est_x = (if est_x < fit_min F then fit_min F else est_x)
      in if est_x > fit_max F then fit_max F else est_x)"

text \<open>The closest sample on each side of the target, with its distance, and the one found last.\<close>

definition LONG_MAX :: int where "LONG_MAX = 2 ^ 63 - 1"
definition LONG_MIN :: int where "LONG_MIN = - (2 ^ 63)"

record 'x closest =
  cl_above :: "('x \<times> u64) option"
  cl_below :: "('x \<times> u64) option"
  delta_above :: int
  delta_below :: int
  last_found :: "('x \<times> u64) option"

definition no_closest :: "'x closest" where
  "no_closest = \<lparr>cl_above = None, cl_below = None, delta_above = LONG_MAX, delta_below = LONG_MIN, last_found = None\<rparr>"

definition closest_step :: "u64 \<Rightarrow> 'x \<times> u64 \<Rightarrow> 'x closest \<Rightarrow> 'x closest" where
  "closest_step target e c =
     (let delta = sint (snd e - target)
      in if delta \<ge> 0
         then (if delta \<le> delta_above c then c\<lparr>cl_above := Some e, delta_above := delta, last_found := Some e\<rparr> else c)
         else (if delta \<ge> delta_below c then c\<lparr>cl_below := Some e, delta_below := delta, last_found := Some e\<rparr> else c))"

definition find_closest :: "u64 \<Rightarrow> ('x \<times> u64) list \<Rightarrow> 'x closest" where
  "find_closest target m = fold (closest_step target) m no_closest"

definition estimate_x :: "'x::linorder fit_ops \<Rightarrow> 'x interval_fitting \<Rightarrow> 'x" where
  "estimate_x F f =
     (let c = find_closest (target_y f) (order_pool f)
      in case (cl_above c, cl_below c) of
           (Some p, Some q) \<Rightarrow> fit_line F p q (target_y f)
         | _ \<Rightarrow> (case last_found c of
                   Some (x, y) \<Rightarrow> pure_liner_x F (target_y f) x y
                 | None \<Rightarrow> fit_default F))"

section \<open>Limiting the bandwidth\<close>

text \<open>
  \<open>credit allow seconds limit\<close> is \<open>allow += seconds * limit\<close> in floating point, with the seconds since
  the last call cut to 3. The result is the number of seconds to sleep: the division of a \<open>long\<close> by an
  \<open>unsigned long\<close> is one of integers.
\<close>

record 't bandwidth =
  bwlimit_byteps :: u64
  allow_bytes :: int
  last_time :: "'t option"

definition set_bwlimit_mbps :: "('f \<Rightarrow> u64) \<Rightarrow> 'f \<Rightarrow> 't bandwidth \<Rightarrow> 't bandwidth" where
  "set_bwlimit_mbps byteps mbps b = b\<lparr>bwlimit_byteps := byteps mbps\<rparr>"

definition add_and_sleep ::
    "('t \<Rightarrow> 't \<Rightarrow> 'x::linorder) \<Rightarrow> 'x \<Rightarrow> (int \<Rightarrow> 'x \<Rightarrow> u64 \<Rightarrow> int) \<Rightarrow> 't \<Rightarrow> u64 \<Rightarrow> 't bandwidth \<Rightarrow> u64 \<times> 't bandwidth" where
  "add_and_sleep secs max_history credit now bytes b =
     (if bwlimit_byteps b = 0 then (0, b)
      else case last_time b of
             None \<Rightarrow> (0, b\<lparr>allow_bytes := 0, last_time := Some now\<rparr>)
           | Some before \<Rightarrow>
               (let time_delta = min (secs before now) max_history;
                    allow = credit (allow_bytes b) time_delta (bwlimit_byteps b);
                    allow = sint (word_of_int allow - bytes);
                    b = b\<lparr>last_time := Some now, allow_bytes := allow\<rparr>
                in (if allow < 0 then word_of_int (- allow) div bwlimit_byteps b else 0, b)))"

text \<open>A debt below one second's bytes never makes the thread sleep.\<close>

lemma short_debt_never_sleeps:
  assumes "last_time b = Some before"
    and "- sint (word_of_int (credit (allow_bytes b) (min (secs before now) max_history) (bwlimit_byteps b)) - bytes) < uint (bwlimit_byteps b)"
  shows "fst (add_and_sleep secs max_history credit now bytes b) = 0"
proof -
  define a where "a = sint (word_of_int (credit (allow_bytes b) (min (secs before now) max_history) (bwlimit_byteps b)) - bytes)"
  have uint_of: "uint (word_of_int n :: u64) = n" if "0 \<le> n" "n < 2 ^ 64" for n
    using that by (simp add: uint_word_of_int mod_pos_pos_trivial)
  have "(word_of_int (- a) :: u64) div bwlimit_byteps b = 0" if "a < 0"
  proof -
    have "- a < 2 ^ 64" using assms(2) uint_bounded [of "bwlimit_byteps b"] unfolding a_def by simp
    then have "uint (word_of_int (- a) :: u64) = - a" using uint_of [of "- a"] that by linarith
    then have "(word_of_int (- a) :: u64) < bwlimit_byteps b" using assms(2) unfolding a_def by (simp add: word_less_def)
    then show ?thesis by (rule div_word_less)
  qed
  then show ?thesis using assms(1) by (simp add: add_and_sleep_def Let_def flip: a_def)
qed

section \<open>The pool keeps the last samples\<close>

definition fit_inv :: "'x::linorder interval_fitting \<Rightarrow> bool" where
  "fit_inv f \<longleftrightarrow> sorted_wrt (<) (map fst (order_pool f)) \<and> distinct (data_pool f) \<and>
     set (data_pool f) = fst ` set (order_pool f) \<and> length (data_pool f) \<le> TMaxSample"

lemma pool_put_keys: "fst ` set (pool_put x y m) = insert x (fst ` set m)"
  by (induction x y m rule: pool_put.induct) auto

lemma pool_put_sorted: "sorted_wrt (<) (map fst m) \<Longrightarrow> sorted_wrt (<) (map fst (pool_put x y m))"
proof (induction x y m rule: pool_put.induct)
  case (2 x y a b m)
  have "\<forall>z \<in> fst ` set (pool_put x y m). a < z" if "a < x"
    using 2(2) that unfolding pool_put_keys by auto
  then show ?case using 2 by (force simp: not_less_iff_gr_or_eq)
qed simp

lemma set_pool_put: "sorted_wrt (<) (map fst m) \<Longrightarrow> set (pool_put x y m) = insert (x, y) {e \<in> set m. fst e \<noteq> x}"
  by (induction x y m rule: pool_put.induct) force+

lemma set_pool_erase: "set (pool_erase x m) = {e \<in> set m. fst e \<noteq> x}"
  by (auto simp: pool_erase_def)

lemma pool_erase_sorted: "sorted_wrt (<) (map fst m) \<Longrightarrow> sorted_wrt (<) (map fst (pool_erase x m))"
  by (induction m) (auto simp: pool_erase_def)

text \<open>One sample more: it is in the pool, and what else is there was there before.\<close>

lemma add_pair_ok:
  assumes "fit_inv f"
  shows "\<exists>f'. add_pair x y f = Inr f' \<and> fit_inv f' \<and> target_y f' = target_y f \<and> (x, y) \<in> set (order_pool f') \<and>
    set (order_pool f') \<subseteq> insert (x, y) {e \<in> set (order_pool f). fst e \<noteq> x}"
proof -
  let ?full = "length (data_pool f) \<ge> TMaxSample"
  define g where "g = (if ?full then f\<lparr>order_pool := pool_erase (hd (data_pool f)) (order_pool f), data_pool := tl (data_pool f)\<rparr> else f)"
  have g: "fit_inv g" "length (data_pool g) < TMaxSample" "target_y g = target_y f" "set (order_pool g) \<subseteq> set (order_pool f)"
  proof -
    show "length (data_pool g) < TMaxSample" using assms by (auto simp: g_def fit_inv_def TMaxSample_def)
    show "target_y g = target_y f" "set (order_pool g) \<subseteq> set (order_pool f)" by (auto simp: g_def set_pool_erase)
    show "fit_inv g"
    proof (cases ?full)
      case True
      then obtain z zs where z: "data_pool f = z # zs" by (cases "data_pool f") (auto simp: TMaxSample_def)
      then have "set zs = fst ` set (order_pool f) - {z}" using assms by (auto simp: fit_inv_def)
      then have "set zs = fst ` set (pool_erase z (order_pool f))" by (auto simp: set_pool_erase)
      then show ?thesis using assms z True pool_erase_sorted by (auto simp: fit_inv_def g_def)
    qed (use assms in \<open>simp add: g_def\<close>)
  qed
  let ?data = "if x \<in> fst ` set (order_pool g) then remove1 x (data_pool g) else data_pool g"
  let ?f = "g\<lparr>data_pool := ?data @ [x], order_pool := pool_put x y (order_pool g)\<rparr>"
  have "add_pair x y f = Inr ?f"
    using g(1) by (simp add: add_pair_def fit_inv_def flip: g_def)
  moreover have "length ?data \<le> length (data_pool g)" by (simp add: length_remove1)
  then have "fit_inv ?f" using g(1,2) pool_put_sorted by (auto simp: fit_inv_def pool_put_keys)
  moreover have "set (order_pool ?f) = insert (x, y) {e \<in> set (order_pool g). fst e \<noteq> x}"
    using g(1) set_pool_put [of "order_pool g" x y] by (simp add: fit_inv_def)
  ultimately show ?thesis using g(3,4) by auto
qed

text \<open>All samples: the pool holds at most 5, each the last one of its interval.\<close>

definition last_sample :: "('x \<times> u64) list \<Rightarrow> 'x \<times> u64 \<Rightarrow> bool" where
  "last_sample xs e \<longleftrightarrow> (\<exists>us vs. xs = us @ e # vs \<and> fst e \<notin> fst ` set vs)"

lemma add_pairs_ok:
  assumes "fit_inv f" and "order_pool f = []"
  shows "\<exists>f'. rfold (\<lambda>(x, y). add_pair x y) xs f = Inr f' \<and> fit_inv f' \<and> target_y f' = target_y f \<and>
    (\<forall>e \<in> set (order_pool f'). last_sample xs e) \<and> (xs \<noteq> [] \<longrightarrow> last xs \<in> set (order_pool f'))"
proof (induction xs rule: rev_induct)
  case Nil
  then show ?case using assms by simp
next
  case (snoc e xs)
  obtain x y where e: "e = (x, y)" by (cases e)
  obtain f1 where f1: "rfold (\<lambda>(x, y). add_pair x y) xs f = Inr f1" "fit_inv f1" "target_y f1 = target_y f"
    "\<forall>e \<in> set (order_pool f1). last_sample xs e" using snoc by blast
  obtain f2 where f2: "add_pair x y f1 = Inr f2" "fit_inv f2" "target_y f2 = target_y f1" "(x, y) \<in> set (order_pool f2)"
    "set (order_pool f2) \<subseteq> insert (x, y) {e \<in> set (order_pool f1). fst e \<noteq> x}"
    using add_pair_ok [OF f1(2), of x y] by blast
  have "last_sample (xs @ [e]) d" if "d \<in> set (order_pool f2)" for d
  proof (cases "d = (x, y)")
    case True
    then have "xs @ [e] = xs @ d # []" "fst d \<notin> fst ` set []" by (simp_all add: e)
    then show ?thesis unfolding last_sample_def by blast
  next
    case False
    then have d: "d \<in> set (order_pool f1)" "fst d \<noteq> x" using f2(5) that by blast+
    then obtain us vs where "xs = us @ d # vs" "fst d \<notin> fst ` set vs"
      using f1(4) unfolding last_sample_def by blast
    then have "xs @ [e] = us @ d # (vs @ [e])" "fst d \<notin> fst ` set (vs @ [e])" using d by (simp_all add: e)
    then show ?thesis unfolding last_sample_def by blast
  qed
  then show ?case using f1 f2 by (auto simp: rfold_append e)
qed

section \<open>The samples the estimate is made of\<close>

definition delta_of :: "u64 \<Rightarrow> 'x \<times> u64 \<Rightarrow> int" where
  "delta_of target e = sint (snd e - target)"

definition closest_of :: "u64 \<Rightarrow> ('x \<times> u64) set \<Rightarrow> 'x closest \<Rightarrow> bool" where
  "closest_of target M c \<longleftrightarrow>
     (case cl_above c of None \<Rightarrow> delta_above c = LONG_MAX \<and> (\<forall>e \<in> M. delta_of target e < 0)
      | Some p \<Rightarrow> p \<in> M \<and> 0 \<le> delta_of target p \<and> delta_above c = delta_of target p \<and>
          (\<forall>e \<in> M. 0 \<le> delta_of target e \<longrightarrow> delta_of target p \<le> delta_of target e)) \<and>
     (case cl_below c of None \<Rightarrow> delta_below c = LONG_MIN \<and> (\<forall>e \<in> M. 0 \<le> delta_of target e)
      | Some q \<Rightarrow> q \<in> M \<and> delta_of target q < 0 \<and> delta_below c = delta_of target q \<and>
          (\<forall>e \<in> M. delta_of target e < 0 \<longrightarrow> delta_of target e \<le> delta_of target q)) \<and>
     (last_found c = None \<longleftrightarrow> M = {})"

lemma delta_range: "LONG_MIN \<le> delta_of target e" "delta_of target e \<le> LONG_MAX"
  using sint_ge [of "snd e - target"] sint_lt [of "snd e - target"] by (simp_all add: delta_of_def LONG_MAX_def LONG_MIN_def)

lemma closest_step_of: "closest_of target M c \<Longrightarrow> closest_of target (insert e M) (closest_step target e c)"
  using delta_range [of target e]
  by (auto simp: closest_of_def closest_step_def Let_def simp flip: delta_of_def split: option.splits) fastforce+

lemma find_closest_of: "closest_of target (set m) (find_closest target m)"
proof -
  have "closest_of target (M \<union> set m) (fold (closest_step target) m c)" if "closest_of target M c" for M and c :: "'a closest"
    using that
  proof (induction m arbitrary: M c)
    case (Cons e m)
    from Cons.IH [OF closest_step_of [OF Cons.prems, of e]] show ?case by simp
  qed simp
  from this [of "{}" no_closest] show ?thesis
    by (simp add: find_closest_def closest_of_def no_closest_def)
qed

lemma pure_liner_x_bounds: "fit_min F \<le> fit_max F \<Longrightarrow> fit_min F \<le> pure_liner_x F t x y \<and> pure_liner_x F t x y \<le> fit_max F"
  by (auto simp: pure_liner_x_def Let_def)


definition sample_fit_ops :: "nat fit_ops" where
  "sample_fit_ops = \<lparr>fit_ratio = (\<lambda>t y. unat t div (unat y + 1)), fit_mul = (*), fit_ratio_min = 1, fit_ratio_max = 10,
     fit_min = 1, fit_max = 100, fit_default = 1,
     fit_line = (\<lambda>(x0, y0) (x1, y1) t. (x0 * unat y1 + x1 * unat y0 + unat t) div (unat y0 + unat y1))\<rparr>"


end
