(* ===== verification/Main_Loop.thy ===== *)
theory Main_Loop
  imports Worker_Pool Processes Interval_Fitting
begin

text \<open>
  The main loop of the tool in \<open>GlobalScan.cc\<close>: its rounds, reloading the configuration and the
  interval between scans. The loop is given over a record of the operations it calls, with the state
  they work on, and \<open>scan_loop\<close> puts those of the other theories in. A log of what the loop does is
  kept beside the state; sleeping and the durations are parameters.
\<close>

unbundle bit_operations_syntax

section \<open>The interval between scans\<close>

record 'x scan_interval =
  si_interval :: 'x
  si_real :: 'x
  nr_total_scans :: u64
  intervaler :: "'x interval_fitting \<times> 'x interval_fitting"

definition first_interval :: "'x \<Rightarrow> 'x options \<Rightarrow> 'x" where
  "first_interval zero op = (if opt_interval op \<noteq> zero then opt_interval op else opt_initial_interval op)"

text \<open>
  \<open>half_percent\<close> is \<open>all_bytes * percent / 200.0\<close>. The first fitting is for the young bytes in PMEM,
  the second for all young bytes.
\<close>

definition update_interval ::
    "'x::linorder fit_ops \<Rightarrow> 'x \<Rightarrow> (u64 \<Rightarrow> int \<Rightarrow> u64) \<Rightarrow> 'x options \<Rightarrow> global_option \<Rightarrow> global_scan \<Rightarrow> 'x scan_interval \<Rightarrow>
     'x scan_interval run" where
  "update_interval F zero half_percent op go g si =
     (if opt_interval op \<noteq> zero then Inr si
      else if nr_total_scans si = 0 then Inr si
      else let aep = should_target_aep_young go g;
               target_bytes = (if aep then word_of_int (one_period_migration_size go) * 1024 * word_of_int (opt_interval_scale op) div 100
                               else half_percent (ws_all (gs_stats g)) (go_dram_percent go));
               young = (if aep then ws_pmem_young (gs_stats g) else ws_young (gs_stats g));
               f = (if aep then fst (intervaler si) else snd (intervaler si))
           in rbind (add_pair (si_real si) young (set_target_y target_bytes f)) (\<lambda>f.
                Inr (si\<lparr>intervaler := (if aep then (f, snd (intervaler si)) else (fst (intervaler si), f)),
                        si_interval := estimate_x F f\<rparr>)))"

text \<open>What a scan of \<open>walk_multi\<close> does about the interval; \<open>secs\<close> is the time since the last one began.\<close>

definition next_interval ::
    "'x::linorder fit_ops \<Rightarrow> 'x \<Rightarrow> (u64 \<Rightarrow> int \<Rightarrow> u64) \<Rightarrow> 'x options \<Rightarrow> global_option \<Rightarrow> global_scan \<Rightarrow> 'x \<Rightarrow> 'x scan_interval \<Rightarrow>
     'x scan_interval run" where
  "next_interval F zero half_percent op go g secs si =
     rbind (update_interval F zero half_percent op go g
              (si\<lparr>si_real := if nr_total_scans si > 0 then secs else zero\<rparr>))
       (\<lambda>si. let n = nr_total_scans si + 1 in Inr (si\<lparr>nr_total_scans := if n = 0 then 1 else n\<rparr>))"

section \<open>Reloading the configuration\<close>

definition hw_config_of :: "numa_strings \<Rightarrow> numa_hw_config" where
  "hw_config_of c = \<lparr>numa_dram_list = opt_numa_dram_list c, numa_pmem_list = opt_numa_pmem_list c,
                     pmem_dram_map = opt_pmem_dram_map c\<rparr>"

text \<open>What reading the topology and the bandwidth limit needs.\<close>

record ('n, 'f) config_env =
  ce_lib :: libnuma
  ce_scan :: "string \<Rightarrow> (int \<times> int) option"
  ce_sysfs :: "int \<Rightarrow> string \<Rightarrow> sysfs_field"
  ce_byteps :: "'f \<Rightarrow> u64"
  ce_yaml :: "('n, 'f) yaml_ops"
  ce_load_file :: "string \<Rightarrow> 'n option"

record ('f, 't) config_state =
  conf_reload_flag :: bool
  cs_option :: "'f options"
  throttler :: "'t bandwidth"
  cs_numa :: numa_collection

definition request_reload_conf :: "('f, 't) config_state \<Rightarrow> ('f, 't) config_state" where
  "request_reload_conf s = s\<lparr>conf_reload_flag := True\<rparr>"

definition apply_option :: "('n, 'f) config_env \<Rightarrow> ('f, 't) config_state \<Rightarrow> ('f, 't) config_state run" where
  "apply_option E s =
     rbind (collect (ce_lib E) (ce_scan E) (ce_sysfs E) (Some (hw_config_of (opt_numa_hw_config (cs_option s))))
              (Some (opt_numa_hw_config_v2 (cs_option s))) (cs_numa s))
       (\<lambda>c. Inr (s\<lparr>throttler := set_bwlimit_mbps (ce_byteps E) (opt_bandwidth_mbps (cs_option s)) (throttler s), cs_numa := c\<rparr>))"

definition reload_conf :: "('n, 'f) config_env \<Rightarrow> ('f, 't) config_state \<Rightarrow> ('f, 't) config_state run" where
  "reload_conf E s =
     (if conf_reload_flag s
      then let s = s\<lparr>conf_reload_flag := False\<rparr>;
               (rc, op) = reparse (ce_yaml E) (ce_load_file E) (cs_option s)
           in apply_option E (s\<lparr>cs_option := op\<rparr>)
      else Inr s)"

section \<open>The rounds\<close>

text \<open>
  The operations of the loop on its state \<open>'g\<close>: \<open>lo_finish\<close> is everything from counting the references
  to saving the context, \<open>lo_profile\<close> the same with the progressive profile, \<open>lo_idle\<close> says that there
  is nothing to scan.
\<close>

record ('f, 'g) loop_ops =
  lo_option :: "'g \<Rightarrow> 'f options"
  lo_set_nround :: "u32 \<Rightarrow> 'g \<Rightarrow> 'g"
  lo_reload :: "'g \<Rightarrow> 'g trun"
  lo_collect :: "'g \<Rightarrow> 'g trun"
  lo_idle :: "'g \<Rightarrow> bool"
  lo_prepare :: "'g \<Rightarrow> 'g"
  lo_walk :: "'g \<Rightarrow> 'g trun"
  lo_finish :: "'g \<Rightarrow> 'g trun"
  lo_profile :: "'g \<Rightarrow> 'g trun"
  lo_converged :: "'g \<Rightarrow> bool"

datatype loop_event =
    Ev_create_threads | Ev_reload | Ev_collect | Ev_no_target | Ev_prepare | Ev_walk | Ev_stable_sleep
  | Ev_finish | Ev_profile | Ev_period_sleep | Ev_stop_threads

text \<open>
  The result of a round: \<open>None\<close> when the loop is left, else \<open>nr_scan_rounds\<close>.
\<close>

type_synonym 'g round_result = "(int option \<times> 'g \<times> loop_event list) trun"

definition finish_round :: "('f, 'g) loop_ops \<Rightarrow> 'g \<Rightarrow> loop_event list \<Rightarrow> 'g round_result" where
  "finish_round ops g log =
     (if opt_progressive_profile (lo_option ops g) = ''''
      then tbind (lo_finish ops g) (\<lambda>g.
             if opt_exit_on_converged (lo_option ops g) \<and> lo_converged ops g
             then Some (Inr (None, g, log @ [Ev_finish]))
             else Some (Inr (Some 0, g, log @ [Ev_finish, Ev_period_sleep])))
      else tbind (lo_profile ops g) (\<lambda>g. Some (Inr (None, g, log @ [Ev_profile]))))"

definition walk_round :: "('f, 'g) loop_ops \<Rightarrow> int \<Rightarrow> 'g \<Rightarrow> loop_event list \<Rightarrow> 'g round_result" where
  "walk_round ops nr_scan_rounds g log =
     tbind (lo_walk ops g) (\<lambda>g.
       if nr_scan_rounds + 1 < opt_nr_scan_rounds (lo_option ops g)
       then Some (Inr (Some (nr_scan_rounds + 1), g, log @ [Ev_walk, Ev_stable_sleep]))
       else finish_round ops g (log @ [Ev_walk]))"

definition main_round :: "('f, 'g) loop_ops \<Rightarrow> int \<Rightarrow> 'g \<Rightarrow> loop_event list \<Rightarrow> 'g round_result" where
  "main_round ops nr_scan_rounds g log =
     (if nr_scan_rounds = 0
      then tbind (lo_reload ops g) (\<lambda>g. tbind (lo_collect ops g) (\<lambda>g.
             if lo_idle ops g then Some (Inr (Some 0, g, log @ [Ev_reload, Ev_collect, Ev_no_target]))
             else walk_round ops 0 (lo_prepare ops g) (log @ [Ev_reload, Ev_collect, Ev_prepare])))
      else walk_round ops nr_scan_rounds g log)"

partial_function (option) main_rounds ::
    "('f, 'g) loop_ops \<Rightarrow> u32 \<Rightarrow> u32 \<Rightarrow> int \<Rightarrow> 'g \<Rightarrow> loop_event list \<Rightarrow> ('g \<times> loop_event list) trun" where
  "main_rounds ops max_round nr nr_scan_rounds g log =
     (if nr \<le> max_round
      then do { r \<leftarrow> main_round ops nr_scan_rounds (lo_set_nround ops nr g) log;
                case r of
                  Inl e \<Rightarrow> Some (Inl e)
                | Inr (k, g, log) \<Rightarrow>
                    (case k of None \<Rightarrow> Some (Inr (g, log))
                     | Some k \<Rightarrow> main_rounds ops max_round (nr + 1) k g log) }
      else Some (Inr (g, log)))"

definition max_round_of :: "'f options \<Rightarrow> u32" where
  "max_round_of op = (let n = word_of_int (opt_nr_loops op) in if n = 0 then - 1 else n)"

definition main_loop :: "('f, 'g) loop_ops \<Rightarrow> 'g \<Rightarrow> ('g \<times> loop_event list) trun" where
  "main_loop ops g =
     tbind (main_rounds ops (max_round_of (lo_option ops g)) 0 0 g [Ev_create_threads])
       (\<lambda>(g, log). Some (Inr (g, log @ [Ev_stop_threads])))"

section \<open>The loop of the tool\<close>

definition global_option_of :: "'f options \<Rightarrow> global_option" where
  "global_option_of op =
     \<lparr>go_dram_percent = opt_dram_percent op, one_period_migration_size = opt_one_period_migration_size op,
      anti_thrash_threshold = opt_anti_thrash_threshold op, go_exit_on_stabilized = opt_exit_on_stabilized op,
      go_exit_on_exceeded = opt_exit_on_exceeded op, go_hugetlb = (opt_hugetlb op \<noteq> 0), go_thp = (opt_thp op \<noteq> 0),
      go_progressive_profile = (opt_progressive_profile op \<noteq> ''''), go_split_rss_size = (opt_split_rss_size op \<noteq> '''')\<rparr>"

text \<open>\<open>se_secs\<close> is the time since the last scan began, as the clock of the system gives it.\<close>

record ('k, 'n, 'f) scan_env =
  se_config :: "('n, 'f) config_env"
  se_proc :: "'k proc_ops"
  se_raw :: ept_migrate
  se_uninit :: int
  se_order :: "(int \<rightharpoonup> process) \<Rightarrow> process list"
  se_walk :: "'k range_op"
  se_migrate :: "'k range_op"
  se_locator :: "int \<Rightarrow> u64 list \<Rightarrow> int \<times> int list"
  se_vmstat :: vmstat_files
  se_hugetlb :: hugetlb_files
  se_float :: float_ops
  se_fit :: "'f fit_ops"
  se_zero :: 'f
  se_half_percent :: "u64 \<Rightarrow> int \<Rightarrow> u64"
  se_secs :: "'k \<Rightarrow> 'f"

record ('k, 'f, 't) scan_state =
  ss_config :: "('f, 't) config_state"
  ss_kernel :: 'k
  ss_processes :: process_collection
  ss_scan :: global_scan
  ss_interval :: "'f scan_interval"

definition ss_option :: "('k, 'f, 't) scan_state \<Rightarrow> 'f options" where
  "ss_option s = cs_option (ss_config s)"

definition scan_reload :: "('k, 'n, 'f) scan_env \<Rightarrow> ('k, 'f, 't) scan_state \<Rightarrow> ('k, 'f, 't) scan_state trun" where
  "scan_reload E s = Some (rbind (reload_conf (se_config E) (ss_config s)) (\<lambda>c. Inr (s\<lparr>ss_config := c\<rparr>)))"

text \<open>The error of \<open>collect\<close> is ignored; the ranges refer to the topology of the tool.\<close>

definition scan_collect :: "('k, 'n, 'f) scan_env \<Rightarrow> ('k, 'f, 't) scan_state \<Rightarrow> ('k, 'f, 't) scan_state trun" where
  "scan_collect E s =
     do { (err, ranges, k, c) \<leftarrow> gs_collect (se_proc E) (ss_option s) (se_raw E) (se_uninit E) (se_order E)
                                   (cs_numa (ss_config s)) (ss_kernel s) (ss_processes s);
          Some (Inr (s\<lparr>ss_kernel := k, ss_processes := c,
                       ss_scan := (ss_scan s)\<lparr>idle_ranges := ranges, gs_numa := cs_numa (ss_config s)\<rparr>\<rparr>)) }"

fun timed_scans ::
    "('k, 'n, 'f::linorder) scan_env \<Rightarrow> nat \<Rightarrow> int \<Rightarrow> ('k, 'f, 't) scan_state \<Rightarrow> ('k, 'f, 't) scan_state trun" where
  "timed_scans E 0 scans s = Some (Inr s)"
| "timed_scans E (Suc n) scans s =
     tbind (walk_once (se_walk E) (se_migrate E) (se_locator E) (global_option_of (ss_option s)) (se_vmstat E) (se_hugetlb E)
              (scans + 1) (ss_kernel s) (ss_scan s)) (\<lambda>(k, g).
       tbind (Some (next_interval (se_fit E) (se_zero E) (se_half_percent E) (ss_option s) (global_option_of (ss_option s)) g
                (se_secs E (ss_kernel s)) (ss_interval s))) (\<lambda>si.
         timed_scans E n (scans + 1) (s\<lparr>ss_kernel := k, ss_scan := g, ss_interval := si\<rparr>)))"

definition scan_walk :: "('k, 'n, 'f::linorder) scan_env \<Rightarrow> ('k, 'f, 't) scan_state \<Rightarrow> ('k, 'f, 't) scan_state trun" where
  "scan_walk E s =
     (let n = opt_nr_scans (ss_option s)
      in tbind (timed_scans E (nat n) 0 (s\<lparr>ss_scan := (ss_scan s)\<lparr>nr_acceptable_scans := 0\<rparr>\<rparr>)) (\<lambda>s.
           Some (Inr (s\<lparr>ss_scan := (ss_scan s)\<lparr>nr_walks_done := nr_walks_done (ss_scan s) + max 0 n\<rparr>\<rparr>))))"

definition scan_finish :: "('k, 'n, 'f) scan_env \<Rightarrow> ('k, 'f, 't) scan_state \<Rightarrow> ('k, 'f, 't) scan_state trun" where
  "scan_finish E s =
     tbind (finish_period (se_walk E) (se_migrate E) (se_float E) (global_option_of (ss_option s)) (ss_kernel s) (ss_scan s))
       (\<lambda>(k, g). Some (Inr (s\<lparr>ss_kernel := k, ss_scan := g\<rparr>)))"

definition scan_profile :: "('k, 'n, 'f) scan_env \<Rightarrow> ('k, 'f, 't) scan_state \<Rightarrow> ('k, 'f, 't) scan_state trun" where
  "scan_profile E s =
     tbind (gs_count_refs (ss_scan s)) (\<lambda>g.
     tbind (progressive_profile (se_walk E) (se_migrate E) (ss_kernel s) (calc_memory_size (se_float E) g)) (\<lambda>(k, g).
       Some (Inr (s\<lparr>ss_kernel := k, ss_scan := g\<rparr>))))"

definition scan_loop :: "('k, 'n, 'f::linorder) scan_env \<Rightarrow> ('f, ('k, 'f, 't) scan_state) loop_ops" where
  "scan_loop E =
     \<lparr>lo_option = ss_option, lo_set_nround = (\<lambda>n s. s\<lparr>ss_scan := (ss_scan s)\<lparr>nround := n\<rparr>\<rparr>),
      lo_reload = scan_reload E, lo_collect = scan_collect E, lo_idle = (\<lambda>s. idle_ranges (ss_scan s) = []),
      lo_prepare = (\<lambda>s. s\<lparr>ss_scan := prepare_walk_multi (ss_scan s)\<rparr>), lo_walk = scan_walk E,
      lo_finish = scan_finish E, lo_profile = scan_profile E,
      lo_converged = (\<lambda>s. exit_on_converged (global_option_of (ss_option s)) (ss_scan s))\<rparr>"

text \<open>\<open>sys-refs\<close> after its command line is parsed: the topology is read, then the loop runs.\<close>

definition sys_refs_main :: "('k, 'n, 'f::linorder) scan_env \<Rightarrow> ('k, 'f, 't) scan_state \<Rightarrow> (('k, 'f, 't) scan_state \<times> loop_event list) trun" where
  "sys_refs_main E s =
     tbind (Some (apply_option (se_config E) (ss_config s))) (\<lambda>c.
       main_loop (scan_loop E)
         (s\<lparr>ss_config := c, ss_interval := (ss_interval s)\<lparr>si_interval := first_interval (se_zero E) (cs_option c)\<rparr>\<rparr>))"

end
