(* ===== verification/Main_Loop_Correct.thy ===== *)
theory Main_Loop_Correct
  imports Main_Loop
begin

text \<open>
  What the main loop does whatever its operations do: the order of its steps, as an automaton over its
  log, and the number of its rounds. And what reloading the configuration does to the topology.
\<close>

unbundle bit_operations_syntax

section \<open>The protocol of the loop\<close>

text \<open>
  \<open>Between\<close> periods the configuration is reloaded and the processes are collected; \<open>Scanning n\<close> has
  walked \<open>n\<close> times; \<open>Walked n\<close> has just walked for the \<open>n\<close>-th time. A period is finished after \<open>R\<close>
  walks, and not before.
\<close>

datatype loop_phase =
    Starting | Between | Reloaded | Collected | Scanning nat | Walked nat | Done_period | Profiled | Stopped

definition loop_next :: "nat \<Rightarrow> loop_phase \<Rightarrow> loop_event \<Rightarrow> loop_phase option" where
  "loop_next R ph e =
     (case e of
        Ev_create_threads \<Rightarrow> if ph = Starting then Some Between else None
      | Ev_reload \<Rightarrow> if ph = Between then Some Reloaded else None
      | Ev_collect \<Rightarrow> if ph = Reloaded then Some Collected else None
      | Ev_no_target \<Rightarrow> if ph = Collected then Some Between else None
      | Ev_prepare \<Rightarrow> if ph = Collected then Some (Scanning 0) else None
      | Ev_walk \<Rightarrow> (case ph of Scanning n \<Rightarrow> Some (Walked (n + 1)) | _ \<Rightarrow> None)
      | Ev_stable_sleep \<Rightarrow> (case ph of Walked n \<Rightarrow> if n < R then Some (Scanning n) else None | _ \<Rightarrow> None)
      | Ev_finish \<Rightarrow> (case ph of Walked n \<Rightarrow> if R \<le> n then Some Done_period else None | _ \<Rightarrow> None)
      | Ev_profile \<Rightarrow> (case ph of Walked n \<Rightarrow> if R \<le> n then Some Profiled else None | _ \<Rightarrow> None)
      | Ev_period_sleep \<Rightarrow> if ph = Done_period then Some Between else None
      | Ev_stop_threads \<Rightarrow>
          (case ph of Between \<Rightarrow> Some Stopped | Scanning _ \<Rightarrow> Some Stopped | Done_period \<Rightarrow> Some Stopped
           | Profiled \<Rightarrow> Some Stopped | _ \<Rightarrow> None))"

lemmas loop_next_simps [simp] = loop_next_def [where e = Ev_create_threads, simplified]
  loop_next_def [where e = Ev_reload, simplified] loop_next_def [where e = Ev_collect, simplified]
  loop_next_def [where e = Ev_no_target, simplified] loop_next_def [where e = Ev_prepare, simplified]
  loop_next_def [where e = Ev_walk, simplified] loop_next_def [where e = Ev_stable_sleep, simplified]
  loop_next_def [where e = Ev_finish, simplified] loop_next_def [where e = Ev_profile, simplified]
  loop_next_def [where e = Ev_period_sleep, simplified] loop_next_def [where e = Ev_stop_threads, simplified]

fun loop_phase_after :: "nat \<Rightarrow> loop_phase \<Rightarrow> loop_event list \<Rightarrow> loop_phase option" where
  "loop_phase_after R ph [] = Some ph"
| "loop_phase_after R ph (e # es) = do { ph \<leftarrow> loop_next R ph e; loop_phase_after R ph es }"

lemma loop_phase_after_append [simp]:
  "loop_phase_after R ph (xs @ ys) = do { ph \<leftarrow> loop_phase_after R ph xs; loop_phase_after R ph ys }"
  by (induction xs arbitrary: ph) (auto split: Option.bind_splits)

text \<open>Every round either walks once or finds nothing to scan.\<close>

definition rounds :: "loop_event list \<Rightarrow> nat" where
  "rounds log = length (filter (\<lambda>e. e = Ev_walk \<or> e = Ev_no_target) log)"

lemma rounds_append [simp]: "rounds (xs @ ys) = rounds xs + rounds ys"
  by (simp add: rounds_def)

lemma rounds_simps [simp]:
  "rounds [] = 0" "rounds (e # es) = (if e = Ev_walk \<or> e = Ev_no_target then 1 else 0) + rounds es"
  by (simp_all add: rounds_def)

section \<open>Rounds\<close>

text \<open>Operations that return without a fault, and a number of scan rounds that a reload does not change.\<close>

definition total_ops :: "('f, 'g) loop_ops \<Rightarrow> int \<Rightarrow> bool" where
  "total_ops ops R \<longleftrightarrow>
     (\<forall>g. \<exists>g'. lo_reload ops g = Some (Inr g')) \<and> (\<forall>g. \<exists>g'. lo_collect ops g = Some (Inr g')) \<and>
     (\<forall>g. \<exists>g'. lo_walk ops g = Some (Inr g')) \<and> (\<forall>g. \<exists>g'. lo_finish ops g = Some (Inr g')) \<and>
     (\<forall>g. \<exists>g'. lo_profile ops g = Some (Inr g')) \<and> (\<forall>g. opt_nr_scan_rounds (lo_option ops g) = R)"

definition round_phase :: "int \<Rightarrow> loop_phase" where
  "round_phase k = (if k = 0 then Between else Scanning (nat k))"

text \<open>What a round adds to the log.\<close>

definition round_ok :: "int \<Rightarrow> loop_event list \<Rightarrow> int option \<Rightarrow> loop_event list \<Rightarrow> bool" where
  "round_ok R log k log' \<longleftrightarrow> rounds log' = rounds log + 1 \<and>
     (case k of
        None \<Rightarrow> loop_phase_after (nat R) Starting log' = Some Done_period \<or> loop_phase_after (nat R) Starting log' = Some Profiled
      | Some j \<Rightarrow> 0 \<le> j \<and> loop_phase_after (nat R) Starting log' = Some (round_phase j))"

lemma finish_round_ok:
  assumes "total_ops ops R" and "loop_phase_after (nat R) Starting log = Some (Walked n)" and "nat R \<le> n"
  shows "\<exists>k g' log'. finish_round ops g log = Some (Inr (k, g', log')) \<and> rounds log' = rounds log \<and>
    (case k of
        None \<Rightarrow> loop_phase_after (nat R) Starting log' = Some Done_period \<or> loop_phase_after (nat R) Starting log' = Some Profiled
      | Some j \<Rightarrow> 0 \<le> j \<and> loop_phase_after (nat R) Starting log' = Some (round_phase j))"
proof -
  obtain g1 g2 where "lo_finish ops g = Some (Inr g1)" "lo_profile ops g = Some (Inr g2)"
    using assms(1) unfolding total_ops_def by blast
  then show ?thesis using assms(2,3) by (auto simp: finish_round_def round_phase_def)
qed

lemma walk_round_ok:
  assumes "total_ops ops R" and "loop_phase_after (nat R) Starting log = Some (Scanning (nat k))" and "0 \<le> k"
  shows "\<exists>j g' log'. walk_round ops k g log = Some (Inr (j, g', log')) \<and> round_ok R log j log'"
proof -
  obtain g1 where g1: "lo_walk ops g = Some (Inr g1)" and R: "\<And>g. opt_nr_scan_rounds (lo_option ops g) = R"
    using assms(1) unfolding total_ops_def by blast
  have w: "loop_phase_after (nat R) Starting (log @ [Ev_walk]) = Some (Walked (nat k + 1))" using assms(2) by simp
  show ?thesis
  proof (cases "k + 1 < R")
    case True
    then show ?thesis using g1 R w assms(2,3)
      by (auto simp: walk_round_def round_ok_def round_phase_def nat_add_distrib)
  next
    case False
    then have "nat R \<le> nat k + 1" using assms(3) by simp
    from finish_round_ok [OF assms(1) w this, of g1] show ?thesis
      using g1 R False by (auto simp: walk_round_def round_ok_def)
  qed
qed

lemma main_round_ok:
  assumes "total_ops ops R" and "loop_phase_after (nat R) Starting log = Some (round_phase k)" and "0 \<le> k"
  shows "\<exists>j g' log'. main_round ops k g log = Some (Inr (j, g', log')) \<and> round_ok R log j log'"
proof (cases "k = 0")
  case False
  then show ?thesis using walk_round_ok [OF assms(1) _ assms(3)] assms(2)
    by (simp add: main_round_def round_phase_def)
next
  case True
  obtain g1 g2 where g: "lo_reload ops g = Some (Inr g1)" "lo_collect ops g1 = Some (Inr g2)"
    using assms(1) unfolding total_ops_def by blast
  show ?thesis
  proof (cases "lo_idle ops g2")
    case idle: True
    then show ?thesis using True g assms(2) by (auto simp: main_round_def round_ok_def round_phase_def)
  next
    case False
    let ?log = "log @ [Ev_reload, Ev_collect, Ev_prepare]"
    have "loop_phase_after (nat R) Starting ?log = Some (Scanning (nat 0))"
      using True assms(2) by (simp add: round_phase_def)
    from walk_round_ok [OF assms(1) this, of "lo_prepare ops g2"] obtain j g' log' where
      "walk_round ops 0 (lo_prepare ops g2) ?log = Some (Inr (j, g', log'))" "round_ok R ?log j log'" by auto
    then show ?thesis using True False g by (auto simp: main_round_def round_ok_def)
  qed
qed

lemma unat_all_ones: "unat (- 1 :: u32) = 2 ^ 32 - 1"
  by (simp add: unsigned_minus_1_eq_mask mask_eq_exp_minus_1)

text \<open>All rounds from \<open>nr\<close> on: at least one, at most those that are left.\<close>

lemma main_rounds_ok:
  assumes "total_ops ops R" and "max_round \<noteq> - 1" and "nr \<le> max_round"
    and "loop_phase_after (nat R) Starting log = Some (round_phase k)" and "0 \<le> k"
  shows "\<exists>g' log' ph. main_rounds ops max_round nr k g log = Some (Inr (g', log')) \<and>
     loop_phase_after (nat R) Starting log' = Some ph \<and> loop_next (nat R) ph Ev_stop_threads = Some Stopped \<and>
     rounds log' \<le> rounds log + (unat max_round - unat nr + 1) \<and>
     (ph \<noteq> Done_period \<and> ph \<noteq> Profiled \<longrightarrow> rounds log' = rounds log + (unat max_round - unat nr + 1))"
  using assms(3-5)
proof (induction "unat max_round - unat nr" arbitrary: nr k g log rule: less_induct)
  case less
  obtain j g1 log1 where r: "main_round ops k (lo_set_nround ops nr g) log = Some (Inr (j, g1, log1))" "round_ok R log j log1"
    using main_round_ok [OF assms(1) less.prems(2,3)] by blast
  show ?case
  proof (cases j)
    case None
    then show ?thesis using r less.prems(1)
      by (subst main_rounds.simps) (auto simp: round_ok_def)
  next
    case (Some i)
    then have i: "0 \<le> i" "loop_phase_after (nat R) Starting log1 = Some (round_phase i)" "rounds log1 = rounds log + 1"
      using r(2) by (simp_all add: round_ok_def)
    have step: "main_rounds ops max_round nr k g log = main_rounds ops max_round (nr + 1) i g1 log1"
      using r(1) less.prems(1) Some by (subst main_rounds.simps) simp
    have next_nr: "unat (nr + 1) = unat nr + 1"
    proof -
      have "unat max_round < 2 ^ 32 - 1" using assms(2) unat_all_ones unsigned_less [of max_round, where ?'a = nat]
        by (simp add: word_unat_eq_iff)
      then have "unat nr + unat (1 :: u32) < 2 ^ 32" using less.prems(1) by (simp add: word_le_nat_alt)
      then show ?thesis by (simp add: unat_word_ariths)
    qed
    show ?thesis
    proof (cases "nr + 1 \<le> max_round")
      case True
      then have lt: "unat max_round - unat (nr + 1) < unat max_round - unat nr" "unat nr + 1 \<le> unat max_round"
        using next_nr by (auto simp: word_le_nat_alt)
      from less.hyps [OF lt(1) True i(2,1), of g1] lt(2) i(3) next_nr show ?thesis
        unfolding step by (auto simp: Suc_diff_Suc)
    next
      case False
      then have "unat nr = unat max_round" using less.prems(1) next_nr by (simp add: word_le_nat_alt)
      moreover have "main_rounds ops max_round (nr + 1) i g1 log1 = Some (Inr (g1, log1))"
        using False by (subst main_rounds.simps) simp
      ultimately show ?thesis using i unfolding step by (auto simp: round_phase_def)
    qed
  qed
qed


text \<open>Operations over a counter: they find a process from the third round on.\<close>

definition sample_loop :: "(nat, nat) loop_ops" where
  "sample_loop =
     \<lparr>lo_option = (\<lambda>_. (Option_ctor 0 1 2)\<lparr>opt_nr_loops := 9\<rparr>), lo_set_nround = (\<lambda>_ g. g), lo_reload = (\<lambda>g. Some (Inr g)),
      lo_collect = (\<lambda>g. Some (Inr (g + 1))), lo_idle = (\<lambda>g. g < 3), lo_prepare = (\<lambda>g. g), lo_walk = (\<lambda>g. Some (Inr g)),
      lo_finish = (\<lambda>g. Some (Inr g)), lo_profile = (\<lambda>g. Some (Inr g)), lo_converged = (\<lambda>_. False)\<rparr>"


text \<open>Without a limit, a progressive profile and an exit on convergence the loop does not return.\<close>

theorem main_loop_runs_forever:
  assumes "total_ops ops R" and "opt_nr_loops (lo_option ops g) = 0"
    and "\<And>g. opt_progressive_profile (lo_option ops g) = ''''" and "\<And>g. \<not> opt_exit_on_converged (lo_option ops g)"
  shows "main_loop ops g = None"
proof -
  have go_on: "\<exists>j g' log'. main_round ops k g log = Some (Inr (Some j, g', log'))" for k g log
  proof -
    have finish: "\<exists>j g' log'. finish_round ops g log = Some (Inr (Some j, g', log'))" for g log
    proof -
      obtain g1 where "lo_finish ops g = Some (Inr g1)" using assms(1) unfolding total_ops_def by blast
      then show ?thesis using assms(3,4) by (simp add: finish_round_def)
    qed
    have walk: "\<exists>j g' log'. walk_round ops k g log = Some (Inr (Some j, g', log'))" for k g log
    proof -
      obtain g1 where "lo_walk ops g = Some (Inr g1)" using assms(1) unfolding total_ops_def by blast
      then show ?thesis using finish by (simp add: walk_round_def)
    qed
    obtain g1 g2 where "lo_reload ops g = Some (Inr g1)" "lo_collect ops g1 = Some (Inr g2)"
      using assms(1) unfolding total_ops_def by blast
    then show ?thesis using walk by (simp add: main_round_def)
  qed
  have "ops = ops \<longrightarrow> max_round \<noteq> - 1" if "main_rounds ops max_round nr k g log = Some r" for max_round nr k g log r
  proof (rule main_rounds.raw_induct [where P = "\<lambda>ops' max_round nr k g log r. ops' = ops \<longrightarrow> max_round \<noteq> - 1", OF _ that])
    fix rec ops' max_round nr k g log r
    assume IH: "\<And>ops' max_round nr k g log r. rec ops' max_round nr k g log = Some r \<Longrightarrow> ops' = ops \<longrightarrow> max_round \<noteq> - 1"
      and r: "(if nr \<le> max_round
        then do { r \<leftarrow> main_round ops' k (lo_set_nround ops' nr g) log;
                  case r of Inl e \<Rightarrow> Some (Inl e)
                  | Inr (k, g, log) \<Rightarrow> (case k of None \<Rightarrow> Some (Inr (g, log)) | Some k \<Rightarrow> rec ops' max_round (nr + 1) k g log) }
        else Some (Inr (g, log))) = Some r"
    show "ops' = ops \<longrightarrow> max_round \<noteq> - 1"
    proof (intro impI notI)
      assume "ops' = ops" "max_round = - 1"
      obtain j g' log' where "main_round ops k (lo_set_nround ops nr g) log = Some (Inr (Some j, g', log'))" using go_on by blast
      then have "rec ops (- 1) (nr + 1) j g' log' = Some r" using r \<open>ops' = ops\<close> \<open>max_round = - 1\<close> by simp
      from IH [OF this] show False by simp
    qed
  qed
  then have none: "main_rounds ops (- 1) nr k g log = None" for nr k g log
    by (cases "main_rounds ops (- 1) nr k g log") blast+
  show ?thesis by (simp add: main_loop_def max_round_of_def assms(2) none Let_def)
qed

section \<open>Reloading\<close>

text \<open>
  Reading the topology a second time, as a reload does, creates the nodes of the configuration again
  in the collection that already holds them: the first objects are freed, the lists of nodes keep
  them, and setting the default targets then writes to a freed object.
\<close>

lemma second_collect_faults:
  assumes "collect two_node_lib (\<lambda>_. None) (\<lambda>_ _. Read_failed) None (Some two_nodes) empty_collection = Inr c"
  shows "collect two_node_lib (\<lambda>_. None) (\<lambda>_ _. Read_failed) None (Some two_nodes) c = Inl Freed_object"
proof -
  have "case rbind (collect two_node_lib (\<lambda>_. None) (\<lambda>_ _. Read_failed) None (Some two_nodes) empty_collection)
     (\<lambda>c. collect two_node_lib (\<lambda>_. None) (\<lambda>_ _. Read_failed) None (Some two_nodes) c)
     of Inl e \<Rightarrow> e = Freed_object | Inr _ \<Rightarrow> False" by code_simp
  then show ?thesis using assms by (simp split: sum.splits)
qed

lemma apply_option_twice_faults:
  assumes "ce_lib E = two_node_lib" and "ce_scan E = (\<lambda>_. None)" and "ce_sysfs E = (\<lambda>_ _. Read_failed)"
    and "\<not> hw_config_is_valid (hw_config_of (opt_numa_hw_config (cs_option s)))"
    and "opt_numa_hw_config_v2 (cs_option s) = two_nodes" and "cs_numa s = empty_collection"
    and "apply_option E s = Inr t"
  shows "apply_option E t = Inl Freed_object"
proof -
  have skip: "collect lib scan sysfs (Some o') es c = collect lib scan sysfs None es c"
    if "\<not> hw_config_is_valid o'" for lib scan sysfs o' es c
    using that by (simp add: collect_def Let_def)
  obtain c where c: "collect two_node_lib (\<lambda>_. None) (\<lambda>_ _. Read_failed) None (Some two_nodes) empty_collection = Inr c"
    "cs_numa t = c" "cs_option t = cs_option s"
    using assms by (auto simp: apply_option_def skip)
  show ?thesis using second_collect_faults [OF c(1)] c(2,3) assms(1-5) by (simp add: apply_option_def skip)
qed

section \<open>Walking\<close>

text \<open>Choosing the intervals does not disturb the walks: they are those of a run that does not choose.\<close>

lemma timed_scans_walk:
  assumes "timed_scans E n scans s = Some (Inr t)"
  shows "walk_scans (se_walk E) (se_migrate E) (se_locator E) (global_option_of (ss_option s)) (se_vmstat E) (se_hugetlb E)
     n scans (ss_kernel s) (ss_scan s) = Some (Inr (ss_kernel t, ss_scan t)) \<and> ss_config t = ss_config s"
  using assms
proof (induction n arbitrary: scans s)
  case (Suc n)
  obtain k g si where w: "walk_once (se_walk E) (se_migrate E) (se_locator E) (global_option_of (ss_option s)) (se_vmstat E)
      (se_hugetlb E) (scans + 1) (ss_kernel s) (ss_scan s) = Some (Inr (k, g))"
    "timed_scans E n (scans + 1) (s\<lparr>ss_kernel := k, ss_scan := g, ss_interval := si\<rparr>) = Some (Inr t)"
    using Suc.prems by (auto simp: tbind_def split: option.splits sum.splits)
  from Suc.IH [OF w(2)] w(1) show ?case by (simp add: ss_option_def)
qed simp

lemma scan_walk_is_walk_multi:
  assumes "scan_walk E s = Some (Inr t)"
  shows "gs_walk_multi (se_walk E) (se_migrate E) (se_locator E) (global_option_of (ss_option s)) (se_vmstat E) (se_hugetlb E)
     (opt_nr_scans (ss_option s)) (ss_kernel s) (ss_scan s) = Some (Inr (ss_kernel t, ss_scan t))"
proof -
  obtain u where u: "timed_scans E (nat (opt_nr_scans (ss_option s))) 0 (s\<lparr>ss_scan := (ss_scan s)\<lparr>nr_acceptable_scans := 0\<rparr>\<rparr>) = Some (Inr u)"
    "t = u\<lparr>ss_scan := (ss_scan u)\<lparr>nr_walks_done := nr_walks_done (ss_scan u) + max 0 (opt_nr_scans (ss_option s))\<rparr>\<rparr>"
    using assms by (auto simp: scan_walk_def Let_def)
  show ?thesis using timed_scans_walk [OF u(1)] u(2) by (simp add: gs_walk_multi_def ss_option_def)
qed

end
