(* ===== verification/Page_Info.thy ===== *)
theory Page_Info
  imports Page_Refs
begin

text \<open>
  What the tools know about physical memory: the names of the page flags (\<open>lib/page-types.c\<close>), which
  are written into static buffers, the rows of \<open>output_pfn_refs\<close> in \<open>page-refs.c\<close> that show them,
  and the memory ranges of \<open>/proc/iomem\<close> (\<open>lib/iomem_parse.c\<close>).
\<close>

unbundle bit_operations_syntax

section \<open>The names of the page flags\<close>

text \<open>
  The numbers of \<open>linux/kernel-page-flags.h\<close>, by name; those the source asks for with \<open>#ifdef\<close> may be missing.
\<close>

record kpf_header =
  kpf_bit :: "string \<Rightarrow> nat"
  kpf_pgtable :: "nat option"
  kpf_zero_page :: "nat option"
  kpf_idle :: "nat option"

definition KPF_PGTABLE :: "kpf_header \<Rightarrow> nat" where
  "KPF_PGTABLE H = (case kpf_pgtable H of None \<Rightarrow> 26 | Some i \<Rightarrow> i)"

definition optional_flag :: "nat option \<Rightarrow> string \<Rightarrow> (nat \<times> string) list" where
  "optional_flag i s = (case i of None \<Rightarrow> [] | Some i \<Rightarrow> [(i, s)])"

definition flag_designators :: "kpf_header \<Rightarrow> (nat \<times> string) list" where
  "flag_designators H =
     [(kpf_bit H ''KPF_LOCKED'', ''L:locked''),
      (kpf_bit H ''KPF_ERROR'', ''E:error''),
      (kpf_bit H ''KPF_REFERENCED'', ''R:referenced''),
      (kpf_bit H ''KPF_UPTODATE'', ''U:uptodate''),
      (kpf_bit H ''KPF_DIRTY'', ''D:dirty''),
      (kpf_bit H ''KPF_LRU'', ''l:lru''),
      (kpf_bit H ''KPF_ACTIVE'', ''A:active''),
      (kpf_bit H ''KPF_SLAB'', ''S:slab''),
      (kpf_bit H ''KPF_WRITEBACK'', ''W:writeback''),
      (kpf_bit H ''KPF_RECLAIM'', ''I:reclaim''),
      (kpf_bit H ''KPF_BUDDY'', ''B:buddy''),
      (kpf_bit H ''KPF_MMAP'', ''M:mmap''),
      (kpf_bit H ''KPF_ANON'', ''a:anonymous''),
      (kpf_bit H ''KPF_SWAPCACHE'', ''s:swapcache''),
      (kpf_bit H ''KPF_SWAPBACKED'', ''b:swapbacked''),
      (kpf_bit H ''KPF_COMPOUND_HEAD'', ''H:compound_head''),
      (kpf_bit H ''KPF_COMPOUND_TAIL'', ''T:compound_tail''),
      (kpf_bit H ''KPF_HUGE'', ''G:huge''),
      (kpf_bit H ''KPF_UNEVICTABLE'', ''u:unevictable''),
      (kpf_bit H ''KPF_HWPOISON'', ''X:hwpoison''),
      (kpf_bit H ''KPF_NOPAGE'', ''n:nopage''),
      (kpf_bit H ''KPF_KSM'', ''x:ksm''),
      (kpf_bit H ''KPF_THP'', ''t:thp''),
      (kpf_bit H ''KPF_BALLOON'', ''o:balloon''),
      (KPF_PGTABLE H, ''g:pgtable'')]
     @ optional_flag (kpf_zero_page H) ''z:zero_page''
     @ optional_flag (kpf_idle H) ''i:idle_page''
     @ [(32, ''r:reserved''),
        (33, ''m:mlocked''),
        (34, ''d:mappedtodisk''),
        (35, ''P:private''),
        (36, ''p:private_2''),
        (37, ''O:owner_private''),
        (38, ''h:arch''),
        (39, ''c:uncached''),
        (40, ''f:softdirty'')]"

text \<open>An array with designated initialisers has one element more than its highest designator; the rest is null.\<close>

definition designated_array :: "(nat \<times> 'x) list \<Rightarrow> 'x option list" where
  "designated_array ds =
     fold (\<lambda>d xs. xs[fst d := Some (snd d)]) ds (replicate (Suc (foldr (max \<circ> fst) ds 0)) None)"

definition page_flag_names :: "kpf_header \<Rightarrow> string option list" where
  "page_flag_names H = designated_array (flag_designators H)"

text \<open>
  \<open>page_flag_name\<close>: the static buffer of 65 characters is written from the start; nothing terminates it but the
  zeros it was born with.
\<close>

fun flag_name_loop :: "u64 \<Rightarrow> nat \<Rightarrow> string option list \<Rightarrow> nat \<Rightarrow> string \<Rightarrow> string run" where
  "flag_name_loop flags i [] j buf = Inr buf"
| "flag_name_loop flags i (None # names) j buf = flag_name_loop flags (i + 1) names j buf"
| "flag_name_loop flags i (Some name # names) j buf =
     (if j \<ge> length buf \<or> name = [] then Inl Bad_index
      else flag_name_loop flags (i + 1) names (j + 1)
             (buf[j := (if bit flags i then name ! 0 else CHR ''_'')]))"

definition page_flag_name :: "kpf_header \<Rightarrow> u64 \<Rightarrow> string \<Rightarrow> string run" where
  "page_flag_name H flags buf = flag_name_loop flags 0 (page_flag_names H) 0 buf"

text \<open>The string a buffer holds for its readers, and \<open>snprintf\<close> of a string at an offset.\<close>

definition c_string :: "string \<Rightarrow> string" where
  "c_string buf = takeWhile (\<lambda>c. c \<noteq> CHR 0x00) buf"

definition write_at :: "nat \<Rightarrow> string \<Rightarrow> string \<Rightarrow> string" where
  "write_at n s buf = take n buf @ s @ drop (n + length s) buf"

definition snprintf_at :: "nat \<Rightarrow> string \<Rightarrow> string \<Rightarrow> (nat \<times> string) run" where
  "snprintf_at n s buf =
     (if n > length buf then Inl Bad_index
      else if n = length buf then Inr (length s, buf)
      else Inr (length s, write_at n (take (length buf - n - 1) s @ [CHR 0x00]) buf))"

fun flag_longname_loop :: "u64 \<Rightarrow> nat \<Rightarrow> string option list \<Rightarrow> nat \<Rightarrow> string \<Rightarrow> (nat \<times> string) run" where
  "flag_longname_loop flags i [] n buf = Inr (n, buf)"
| "flag_longname_loop flags i (None # names) n buf = flag_longname_loop flags (i + 1) names n buf"
| "flag_longname_loop flags i (Some name # names) n buf =
     (if bit flags i then
        rbind (snprintf_at n (drop 2 name @ '','') buf) (\<lambda>(len, buf).
          flag_longname_loop flags (i + 1) names (n + len) buf)
      else flag_longname_loop flags (i + 1) names n buf)"

definition page_flag_longname :: "kpf_header \<Rightarrow> u64 \<Rightarrow> string \<Rightarrow> string run" where
  "page_flag_longname H flags buf =
     rbind (flag_longname_loop flags 0 (page_flag_names H) 0 buf) (\<lambda>(n, buf).
       let n = (if n \<noteq> 0 then n - 1 else n)
       in if n \<ge> length buf then Inl Bad_index else Inr (buf[n := CHR 0x00]))"

text \<open>
  \<open>output_pfn_refs\<close>: a row for every page with its count and the names of its flags, or \<open>- 1\<close> without counts.
  The static buffers go from row to row.
\<close>

definition pfn_row ::
    "kpf_header \<Rightarrow> refs_state \<Rightarrow> nat \<Rightarrow> string \<times> string \<times> (u64 \<times> u16 \<times> string \<times> string) list \<Rightarrow>
     (string \<times> string \<times> (u64 \<times> u16 \<times> string \<times> string) list) run" where
  "pfn_row H st pfn s =
     (case s of (buf, lbuf, rows) \<Rightarrow>
        if pfn \<ge> length (g_refs_count st) then Inl Bad_index
        else case g_kpageflags_buf st of
          None \<Rightarrow> Inr (buf, lbuf, rows @ [(g_start_pfn st + of_nat pfn, g_refs_count st ! pfn, [], [])])
        | Some flags \<Rightarrow>
            if pfn \<ge> length flags then Inl Bad_index
            else rbind (page_flag_name H (flags ! pfn) buf) (\<lambda>buf.
                 rbind (page_flag_longname H (flags ! pfn) lbuf) (\<lambda>lbuf.
                   Inr (buf, lbuf, rows @ [(g_start_pfn st + of_nat pfn, g_refs_count st ! pfn, c_string buf, c_string lbuf)]))))"

definition output_pfn_refs ::
    "kpf_header \<Rightarrow> bool \<Rightarrow> refs_state \<Rightarrow> string \<Rightarrow> string \<Rightarrow> (int \<times> (u64 \<times> u16 \<times> string \<times> string) list) run" where
  "output_pfn_refs H can_open st buf lbuf =
     (if g_refs_count st = [] then Inr (- 1, [])
      else if \<not> can_open then Inl Exit_called
      else rbind (rfold (pfn_row H st) [0..<unat (g_num_pfn st)] (buf, lbuf, [])) (\<lambda>(buf, lbuf, rows). Inr (0, rows)))"

section \<open>The ranges of physical memory\<close>

datatype range_type = RANGE_RAM | RANGE_RESERVED | RANGE_ACPI | RANGE_ACPI_NVS | RANGE_PRAM | RANGE_PMEM

record memory_range =
  mr_start :: u64
  mr_end :: u64
  mr_type :: range_type

definition MAX_LINE :: nat where "MAX_LINE = 160"
definition MAX_MEMORY_RANGES :: nat where "MAX_MEMORY_RANGES = 2048"

text \<open>\<open>memcmp\<close> with a text that ends in a newline: the line begins with it.\<close>

definition starts :: "string \<Rightarrow> string \<Rightarrow> bool" where
  "starts str s \<longleftrightarrow> take (length s) str = s"

definition newline :: string where "newline = [CHR 0x0A]"

definition range_type_of :: "string \<Rightarrow> range_type option" where
  "range_type_of str =
     (if starts str (''System RAM'' @ newline) then Some RANGE_RAM
      else if starts str (''reserved'' @ newline) then Some RANGE_RESERVED
      else if starts str (''ACPI Tables'' @ newline) then Some RANGE_ACPI
      else if starts str (''ACPI Non-volatile Storage'' @ newline) then Some RANGE_ACPI_NVS
      else if starts str (''Persistent Memory (legacy)'' @ newline) then Some RANGE_PRAM
      else if starts str (''Persistent Memory'' @ newline) then Some RANGE_PMEM
      else None)"

text \<open>
  The loop over the lines \<open>fgets\<close> delivers. \<open>scan\<close> is \<open>sscanf\<close> with \<open>%llx-%llx : %n\<close>: \<open>None\<close> when it reads
  fewer than two numbers, and no number of consumed characters when the line ends before the colon; the code
  then uses an uninitialised variable. The result is \<open>None\<close> when a line is too long.
\<close>

fun iomem_loop :: "(string \<Rightarrow> (u64 \<times> u64 \<times> nat option) option) \<Rightarrow> string list \<Rightarrow> memory_range list \<Rightarrow>
    memory_range list option run" where
  "iomem_loop scan [] ranges = Inr (Some ranges)"
| "iomem_loop scan (line # lines) ranges =
     (if length ranges \<ge> MAX_MEMORY_RANGES then Inr (Some ranges)
      else case scan line of
        None \<Rightarrow> iomem_loop scan lines ranges
      | Some (start, stop, None) \<Rightarrow> Inl Bad_index
      | Some (start, stop, Some consumed) \<Rightarrow>
          if consumed \<ge> MAX_LINE then Inr None
          else case range_type_of (drop consumed line) of
            None \<Rightarrow> iomem_loop scan lines ranges
          | Some type \<Rightarrow> iomem_loop scan lines (ranges @ [\<lparr>mr_start = start, mr_end = stop, mr_type = type\<rparr>]))"

definition get_memory_ranges_proc_iomem ::
    "(string \<Rightarrow> (u64 \<times> u64 \<times> nat option) option) \<Rightarrow> string list option \<Rightarrow> (int \<times> memory_range list) run" where
  "get_memory_ranges_proc_iomem scan file =
     (case file of
        None \<Rightarrow> Inr (- 1, [])
      | Some lines \<Rightarrow>
          rbind (iomem_loop scan lines []) (\<lambda>r. Inr (case r of None \<Rightarrow> (- 1, []) | Some ranges \<Rightarrow> (0, ranges))))"

section \<open>Tables with designators\<close>

fun named :: "nat \<Rightarrow> 'x option list \<Rightarrow> (nat \<times> 'x) list" where
  "named i [] = []"
| "named i (None # xs) = named (i + 1) xs"
| "named i (Some x # xs) = (i, x) # named (i + 1) xs"

definition weight :: "('x \<Rightarrow> nat) \<Rightarrow> 'x option list \<Rightarrow> nat" where
  "weight f xs = sum_list (map (\<lambda>(i, x). f x) (named 0 xs))"

lemma sum_named: "sum_list (map (\<lambda>(i, x). f x) (named i xs)) = sum_list (map (case_option 0 f) xs)"
  by (induction xs rule: named.induct) auto

lemma weight_update_le: "weight f (xs[i := Some x]) \<le> weight f xs + f x"
  unfolding weight_def sum_named
proof (induction xs arbitrary: i)
  case (Cons y ys)
  then show ?case using Cons.IH [of "i - 1"] by (cases i) (auto simp: algebra_simps)
qed simp

lemma set_named: "snd ` set (named i xs) = {x. Some x \<in> set xs}"
  by (induction i xs rule: named.induct) auto

lemma fold_designators:
  "weight f (fold (\<lambda>d xs. xs[fst d := Some (snd d)]) ds xs) \<le> weight f xs + sum_list (map (f \<circ> snd) ds)"
  "Some x \<in> set (fold (\<lambda>d xs. xs[fst d := Some (snd d)]) ds xs) \<Longrightarrow> Some x \<in> set xs \<or> x \<in> snd ` set ds"
proof (induction ds arbitrary: xs)
  case (Cons d ds)
  {
    case 1
    show ?case using Cons.IH(1) [of "xs[fst d := Some (snd d)]"] weight_update_le [of f xs "fst d" "snd d"]
      by (simp add: case_prod_beta)
  next
    case 2
    then have "Some x \<in> set (fold (\<lambda>d xs. xs[fst d := Some (snd d)]) ds (xs[fst d := Some (snd d)]))" by simp
    from Cons.IH(2) [OF this] show ?case using set_update_subset_insert [of xs "fst d" "Some (snd d)"] by auto
  }
qed simp_all

lemma named_replicate: "named i (replicate n None) = []"
  by (induction n arbitrary: i) auto

lemma designated_array_weight: "weight f (designated_array ds) \<le> sum_list (map (f \<circ> snd) ds)"
  using fold_designators(1) [of f ds "replicate (Suc (foldr (max \<circ> fst) ds 0)) None"]
  by (simp add: designated_array_def weight_def named_replicate del: replicate_Suc)

lemma designated_array_members: "(i, x) \<in> set (named 0 (designated_array ds)) \<Longrightarrow> x \<in> snd ` set ds"
  using fold_designators(2) [of x ds "replicate (Suc (foldr (max \<circ> fst) ds 0)) None"]
    set_named [of 0 "designated_array ds"]
  by (force simp: designated_array_def)

lemma length_named: "length (named 0 (designated_array ds)) \<le> length ds"
proof -
  have "sum_list (map (\<lambda>(i, x). 1) xs) = length xs" for xs :: "(nat \<times> 'a) list" by (induction xs) auto
  then show ?thesis using designated_array_weight [of "\<lambda>_. 1" ds] by (simp add: weight_def o_def sum_list_triv)
qed

section \<open>Writing the names\<close>

definition flag_letters :: "u64 \<Rightarrow> (nat \<times> string) list \<Rightarrow> string" where
  "flag_letters flags = map (\<lambda>(i, s). if bit flags i then s ! 0 else CHR ''_'')"

definition set_flags :: "u64 \<Rightarrow> (nat \<times> string) list \<Rightarrow> string list" where
  "set_flags flags names = map (drop 2 \<circ> snd) (filter (\<lambda>(i, s). bit flags i) names)"

definition terminated :: "string list \<Rightarrow> string" where
  "terminated ss = concat (map (\<lambda>s. s @ '','') ss)"

fun comma_list :: "string list \<Rightarrow> string" where
  "comma_list [] = []"
| "comma_list [s] = s"
| "comma_list (s # ss) = s @ '','' @ comma_list ss"

lemma butlast_terminated: "butlast (terminated ss) = comma_list ss"
  by (induction ss rule: comma_list.induct) (auto simp: terminated_def butlast_append)

lemma write_at_Nil [simp]: "write_at n [] buf = buf"
  by (simp add: write_at_def)

lemma length_write_at [simp]: "n + length s \<le> length buf \<Longrightarrow> length (write_at n s buf) = length buf"
  by (simp add: write_at_def)

lemma write_at_Cons: "n < length buf \<Longrightarrow> write_at (Suc n) s (buf[n := c]) = write_at n (c # s) buf"
  by (simp add: write_at_def take_Suc_conv_app_nth drop_update_swap)

lemma write_at_over:
  assumes "n + length s + length t \<le> length buf" and "length u \<le> length t"
  shows "write_at (n + length s) t (write_at n (s @ u) buf) = write_at n (s @ t) buf"
  using assms by (auto simp: write_at_def drop_drop add_ac)

lemma flag_name_loop_writes:
  assumes "\<forall>s \<in> snd ` set (named i names). s \<noteq> []" and "j + length (named i names) \<le> length buf"
  shows "flag_name_loop flags i names j buf = Inr (write_at j (flag_letters flags (named i names)) buf)"
  using assms
proof (induction flags i names j buf rule: flag_name_loop.induct)
  case (3 flags i name names j buf)
  then show ?case by (auto simp: flag_letters_def write_at_Cons)
qed (auto simp: flag_letters_def)

lemma snprintf_at_fits:
  "n + length s < length buf \<Longrightarrow> snprintf_at n s buf = Inr (length s, write_at n (s @ [CHR 0x00]) buf)"
  by (simp add: snprintf_at_def)

lemma flag_longname_loop_writes:
  assumes "n + length (terminated (set_flags flags (named i names))) < length buf"
  shows "flag_longname_loop flags i names n buf =
     Inr (n + length (terminated (set_flags flags (named i names))),
       if set_flags flags (named i names) = [] then buf
       else write_at n (terminated (set_flags flags (named i names)) @ [CHR 0x00]) buf)"
  using assms
proof (induction flags i names n buf rule: flag_longname_loop.induct)
  case (3 flags i name names n buf)
  let ?rest = "terminated (set_flags flags (named (i + 1) names))" and ?s = "drop 2 name @ '',''"
  show ?case
  proof (cases "bit flags i")
    case True
    then have t: "terminated (set_flags flags (named i (Some name # names))) = ?s @ ?rest"
      by (simp add: set_flags_def terminated_def)
    have fits: "n + length ?s < length buf" and le: "n + length ?s + length ?rest < length buf"
      using 3(3) unfolding t by auto
    let ?buf = "write_at n (?s @ [CHR 0x00]) buf"
    have len: "length ?buf = length buf" using fits by (intro length_write_at) auto
    have IH: "flag_longname_loop flags (i + 1) names (n + length ?s) ?buf =
        Inr (n + length ?s + length ?rest,
          if set_flags flags (named (i + 1) names) = [] then ?buf
          else write_at (n + length ?s) (?rest @ [CHR 0x00]) ?buf)"
      using "3.IH"(1) [OF True snprintf_at_fits [OF fits] refl] le len by (simp only: not_False_eq_True)
    have over: "write_at (n + length ?s) (?rest @ [CHR 0x00]) ?buf = write_at n (?s @ ?rest @ [CHR 0x00]) buf"
      using le by (intro write_at_over) auto
    have ne: "set_flags flags (named i (Some name # names)) \<noteq> []" using True by (simp add: set_flags_def)
    show ?thesis
      unfolding t using True IH over ne snprintf_at_fits [OF fits]
      by (auto simp: terminated_def add.assoc)
  next
    case False
    then show ?thesis using 3 by (simp add: set_flags_def)
  qed
qed (auto simp: set_flags_def terminated_def)

lemma flag_table:
  shows flag_table_names: "s \<in> snd ` set (flag_designators H) \<Longrightarrow> s \<noteq> [] \<and> CHR 0x00 \<notin> set s"
    and flag_table_length: "length (flag_designators H) \<le> 36"
    and flag_table_weight: "sum_list (map ((\<lambda>s. length s - 2 + 1) \<circ> snd) (flag_designators H)) \<le> 400"
  by (auto simp: flag_designators_def optional_flag_def split: option.splits)

lemma length_terminated: "length (terminated ss) = sum_list (map (\<lambda>s. length s + 1) ss)"
  by (induction ss) (auto simp: terminated_def)

lemma set_flags_bound:
  "length (terminated (set_flags flags names)) \<le> sum_list (map (\<lambda>(i, s). length s - 2 + 1) names)"
  unfolding length_terminated by (induction names) (auto simp: set_flags_def)

abbreviation flag_table :: "kpf_header \<Rightarrow> (nat \<times> string) list" where
  "flag_table H \<equiv> named 0 (page_flag_names H)"

lemma flag_table_members: "(i, s) \<in> set (flag_table H) \<Longrightarrow> s \<noteq> [] \<and> CHR 0x00 \<notin> set s"
  using designated_array_members [of i s "flag_designators H"] flag_table_names [of s H]
  by (auto simp: page_flag_names_def)

lemma flag_table_fits:
  shows "length (flag_table H) \<le> 36"
    and "length (terminated (set_flags flags (flag_table H))) \<le> 400"
  using length_named [of "flag_designators H"] flag_table_length [of H]
    set_flags_bound [of flags "flag_table H"]
    designated_array_weight [of "\<lambda>s. length s - 2 + 1" "flag_designators H"] flag_table_weight [of H]
  by (simp_all add: page_flag_names_def weight_def)

text \<open>What the static buffers hold between two calls.\<close>

definition letters_buffer :: "kpf_header \<Rightarrow> string \<Rightarrow> bool" where
  "letters_buffer H buf \<longleftrightarrow> length buf = 65 \<and> (\<forall>c \<in> set (drop (length (flag_table H)) buf). c = CHR 0x00)"

lemma length_letters [simp]: "length (flag_letters flags names) = length names"
  by (simp add: flag_letters_def)

lemma letters_no_nul: "CHR 0x00 \<notin> set (flag_letters flags (flag_table H))"
proof
  assume "CHR 0x00 \<in> set (flag_letters flags (flag_table H))"
  then obtain i s where "(i, s) \<in> set (flag_table H)" "s ! 0 = CHR 0x00"
    by (auto simp: flag_letters_def split: if_splits)
  with flag_table_members [of i s H] show False by (cases s) auto
qed

lemma c_string_append:
  "CHR 0x00 \<notin> set s \<Longrightarrow> c_string (s @ t) = s @ c_string t"
  by (auto simp: c_string_def takeWhile_append)

lemma page_flag_name_result:
  assumes "letters_buffer H buf"
  shows "\<exists>buf'. page_flag_name H flags buf = Inr buf' \<and> letters_buffer H buf' \<and>
           c_string buf' = flag_letters flags (flag_table H)"
proof -
  let ?l = "flag_letters flags (flag_table H)"
  have "page_flag_name H flags buf = Inr (write_at 0 ?l buf)"
    unfolding page_flag_name_def using flag_table_members [of _ _ H] flag_table_fits(1) [of H] assms
    by (intro flag_name_loop_writes) (auto simp: letters_buffer_def)
  moreover have z: "write_at 0 ?l buf = ?l @ drop (length (flag_table H)) buf" by (simp add: write_at_def)
  moreover have "c_string (drop (length (flag_table H)) buf) = []"
    using assms by (cases "drop (length (flag_table H)) buf") (auto simp: c_string_def letters_buffer_def)
  moreover have "letters_buffer H (?l @ drop (length (flag_table H)) buf)"
    using assms flag_table_fits(1) [of H] by (simp add: letters_buffer_def)
  ultimately show ?thesis using c_string_append [OF letters_no_nul] by auto
qed

lemma terminated_no_nul: "CHR 0x00 \<notin> set (terminated (set_flags flags (flag_table H)))"
proof
  assume "CHR 0x00 \<in> set (terminated (set_flags flags (flag_table H)))"
  then obtain i s where "(i, s) \<in> set (flag_table H)" "CHR 0x00 \<in> set (drop 2 s)"
    by (auto simp: terminated_def set_flags_def split: if_splits)
  with flag_table_members [of i s H] in_set_dropD show False by fast
qed

lemma page_flag_longname_result:
  assumes "length buf = 1024"
  shows "\<exists>buf'. page_flag_longname H flags buf = Inr buf' \<and> length buf' = 1024 \<and>
           c_string buf' = comma_list (set_flags flags (flag_table H))"
proof -
  let ?ss = "set_flags flags (flag_table H)"
  let ?t = "terminated ?ss"
  have t: "length ?t \<le> 400" by (rule flag_table_fits)
  have w: "flag_longname_loop flags 0 (page_flag_names H) 0 buf =
      Inr (length ?t, if ?ss = [] then buf else write_at 0 (?t @ [CHR 0x00]) buf)"
    using flag_longname_loop_writes [of 0 flags 0 "page_flag_names H" buf] t assms by simp
  show ?thesis
  proof (cases "?ss = []")
    case True
    then show ?thesis using w assms
      by (cases buf) (auto simp: page_flag_longname_def terminated_def c_string_def)
  next
    case False
    then have ne: "?t \<noteq> []" by (cases ?ss) (auto simp: terminated_def)
    then obtain u c where u: "?t = u @ [c]" by (cases ?t rule: rev_cases) auto
    have nul: "CHR 0x00 \<notin> set u" using terminated_no_nul [of flags H] unfolding u by simp
    have comma: "comma_list ?ss = u" using butlast_terminated [of ?ss] unfolding u by simp
    show ?thesis
      using w False t assms unfolding u comma
      by (auto simp: page_flag_longname_def write_at_def list_update_append c_string_append [OF nul])
         (simp add: c_string_def)
  qed
qed

section \<open>Properties\<close>

text \<open>
  The rows of the pages with their flags: from zeroed static buffers, with a count and a flag word for every page, the
  output has one row per page in order, with its frame number, its count, one letter or an underscore for every
  flag the table names, and the names of exactly the flags that are set, separated by commas. Neither
  buffer overflows, whatever the flag numbers of the kernel are.
\<close>

theorem output_pfn_refs_rows:
  assumes "g_refs_count st \<noteq> []" and "unat (g_num_pfn st) \<le> length (g_refs_count st)"
    and "g_kpageflags_buf st = Some fl" and "unat (g_num_pfn st) \<le> length fl"
  shows "output_pfn_refs H True st (replicate 65 (CHR 0x00)) (replicate 1024 (CHR 0x00)) =
    Inr (0, map (\<lambda>pfn. (g_start_pfn st + of_nat pfn, g_refs_count st ! pfn,
                    flag_letters (fl ! pfn) (flag_table H),
                    comma_list (set_flags (fl ! pfn) (flag_table H))))
              [0..<unat (g_num_pfn st)])"
proof -
  let ?row = "\<lambda>pfn. (g_start_pfn st + of_nat pfn, g_refs_count st ! pfn, flag_letters (fl ! pfn) (flag_table H),
                 comma_list (set_flags (fl ! pfn) (flag_table H)))"
  have step: "\<exists>buf' lbuf'. rfold (pfn_row H st) ps (buf, lbuf, rows) = Inr (buf', lbuf', rows @ map ?row ps)"
    if "letters_buffer H buf" "length lbuf = 1024" "\<forall>p \<in> set ps. p < unat (g_num_pfn st)" for ps buf lbuf rows
    using that
  proof (induction ps arbitrary: buf lbuf rows)
    case (Cons p ps)
    obtain buf1 where b: "page_flag_name H (fl ! p) buf = Inr buf1" "letters_buffer H buf1"
        "c_string buf1 = flag_letters (fl ! p) (flag_table H)"
      using page_flag_name_result [OF Cons.prems(1)] by blast
    obtain lbuf1 where l: "page_flag_longname H (fl ! p) lbuf = Inr lbuf1" "length lbuf1 = 1024"
        "c_string lbuf1 = comma_list (set_flags (fl ! p) (flag_table H))"
      using page_flag_longname_result [OF Cons.prems(2)] by blast
    have "pfn_row H st p (buf, lbuf, rows) = Inr (buf1, lbuf1, rows @ [?row p])"
      using assms Cons.prems(3) b l by (simp add: pfn_row_def)
    then show ?case using Cons.IH [OF b(2) l(2), of "rows @ [?row p]"] Cons.prems(3) by simp
  qed simp
  have "letters_buffer H (replicate 65 (CHR 0x00))" by (simp add: letters_buffer_def)
  from step [OF this, of "replicate 1024 (CHR 0x00)" "[0..<unat (g_num_pfn st)]" "[]"] show ?thesis
    using assms(1) by (auto simp: output_pfn_refs_def)
qed

definition some_header :: kpf_header where
  "some_header = \<lparr>kpf_bit = (\<lambda>s. if s = ''KPF_LRU'' then 5 else 2), kpf_pgtable = None, kpf_zero_page = None, kpf_idle = Some 25\<rparr>"

definition some_refs :: refs_state where
  "some_refs =
     \<lparr>g_idlebuf = [], g_idlebuf_size = 0, g_idlebuf_len = 0, g_refs_count = [3], g_refs_2m_count = [1], g_start_pfn = 7,
      g_num_pfn = 1, g_sim_2m_num_pfn = 1, g_setidle_bufsize = 0, g_kpageflags_buf = Some [0x2000020],
      g_kpageflags_buf_size = 8, g_kpageflags_buf_len = 8, g_idle_shift = 15\<rparr>"

lemma some_table:
  "flag_table some_header =
     [(2, ''o:balloon''), (5, ''l:lru''), (25, ''i:idle_page''), (26, ''g:pgtable''), (32, ''r:reserved''), (33, ''m:mlocked''),
      (34, ''d:mappedtodisk''), (35, ''P:private''), (36, ''p:private_2''), (37, ''O:owner_private''), (38, ''h:arch''),
      (39, ''c:uncached''), (40, ''f:softdirty'')]"
  by (simp add: page_flag_names_def flag_designators_def some_header_def optional_flag_def KPF_PGTABLE_def
      designated_array_def numeral_eq_Suc)

lemma output_pfn_refs_rows_witness:
  "output_pfn_refs some_header True some_refs (replicate 65 (CHR 0x00)) (replicate 1024 (CHR 0x00)) =
   Inr (0, [(7, 3, ''_li__________'', ''lru,idle_page'')])"
proof -
  have "flag_letters 0x2000020 (flag_table some_header) = ''_li__________''"
    and "comma_list (set_flags 0x2000020 (flag_table some_header)) = ''lru,idle_page''"
    unfolding some_table by (simp_all add: flag_letters_def set_flags_def)
  then show ?thesis using output_pfn_refs_rows [of some_refs "[0x2000020]" some_header] by (simp add: some_refs_def)
qed

text \<open>
  Reading \<open>/proc/iomem\<close>: when every line with two numbers goes on to its name within the line buffer, the result is the
  first 2048 lines with one of the six names, in order, each with its addresses and type.
\<close>

definition range_of_line :: "(string \<Rightarrow> (u64 \<times> u64 \<times> nat option) option) \<Rightarrow> string \<Rightarrow> memory_range option" where
  "range_of_line scan line =
     (case scan line of
        Some (start, stop, Some n) \<Rightarrow>
          map_option (\<lambda>t. \<lparr>mr_start = start, mr_end = stop, mr_type = t\<rparr>) (range_type_of (drop n line))
      | _ \<Rightarrow> None)"

definition line_complete :: "(string \<Rightarrow> (u64 \<times> u64 \<times> nat option) option) \<Rightarrow> string \<Rightarrow> bool" where
  "line_complete scan line \<longleftrightarrow>
     (case scan line of None \<Rightarrow> True | Some (_, _, None) \<Rightarrow> False | Some (_, _, Some n) \<Rightarrow> n < MAX_LINE)"

lemma iomem_loop_selects:
  assumes "\<forall>line \<in> set lines. line_complete scan line" and "length ranges \<le> MAX_MEMORY_RANGES"
  shows "iomem_loop scan lines ranges =
           Inr (Some (take MAX_MEMORY_RANGES (ranges @ List.map_filter (range_of_line scan) lines)))"
  using assms
proof (induction scan lines ranges rule: iomem_loop.induct)
  case (2 scan line lines ranges)
  show ?case
  proof (cases "length ranges = MAX_MEMORY_RANGES")
    case False
    then show ?thesis
      using 2 by (auto simp: line_complete_def range_of_line_def map_filter_simps split: option.splits prod.splits)
  qed simp
qed (simp add: map_filter_simps)

theorem memory_ranges_selected:
  assumes "\<forall>line \<in> set lines. line_complete scan line"
  shows "get_memory_ranges_proc_iomem scan (Some lines) =
           Inr (0, take MAX_MEMORY_RANGES (List.map_filter (range_of_line scan) lines))"
  using iomem_loop_selects [OF assms, of "[]"] by (simp add: get_memory_ranges_proc_iomem_def)

lemma memory_ranges_selected_witness:
  "get_memory_ranges_proc_iomem (\<lambda>s. if s = [] then None else Some (16, 31, Some 3))
     (Some [''1-2Persistent Memory'' @ newline, [], ''1-2Reserved'' @ newline]) =
   Inr (0, [\<lparr>mr_start = 16, mr_end = 31, mr_type = RANGE_PMEM\<rparr>])"
  by (subst memory_ranges_selected)
     (simp_all add: line_complete_def MAX_LINE_def MAX_MEMORY_RANGES_def map_filter_simps range_of_line_def range_type_of_def
        starts_def newline_def)

text \<open>A line that breaks off before the colon makes the code use a variable it has not set.\<close>

lemma broken_line_faults:
  "scan line = Some (a, b, None) \<Longrightarrow> get_memory_ranges_proc_iomem scan (Some [line]) = Inl Bad_index"
  by (simp add: get_memory_ranges_proc_iomem_def MAX_MEMORY_RANGES_def)

end
