(* ===== verification/Vma_Inspect.thy ===== *)
theory Vma_Inspect
  imports Processes Move_Pages_Correct
begin

text \<open>
  Where the pages of a process are: \<open>VMAInspect.h\<close>, \<open>VMAInspect.cc\<close> and the DRAM quota that
  \<open>GlobalScan.cc\<close> computes from it. The system call \<open>move_pages\<close> for the process and its memory maps
  are parameters; of the printing, the percentages are kept.
\<close>

unbundle bit_operations_syntax

section \<open>Inspecting an area\<close>

definition fill_addrs :: "nat \<Rightarrow> u64 \<Rightarrow> u64 list" where
  "fill_addrs n start = map (\<lambda>i. start + of_nat i * PAGE_SIZE) [0..<n]"

definition count_at :: "counts \<Rightarrow> int \<Rightarrow> u64" where
  "count_at m key = (case map_of m key of None \<Rightarrow> 0 | Some v \<Rightarrow> v)"

text \<open>The percentage of the located pages that is on DRAM nodes.\<close>

definition dump_node_percent :: "numa_collection option \<Rightarrow> mover \<Rightarrow> int run" where
  "dump_node_percent oc m =
     rbind (case oc of None \<Rightarrow> Inr 0
            | Some c \<Rightarrow> rfold (\<lambda>p n. rbind (deref c (Some p)) (\<lambda>nd. Inr (n + count_at (status_count m) (nn_id nd))))
                          (dram_nodes c) 0)
       (\<lambda>dram_nodes_size. Inr (percent dram_nodes_size (of_nat (length (status m)))))"

text \<open>
  The slots of an area: the pages of each are located and counted. The result is the error, the state
  of the system, the mover, the sums and what is printed for the slots.
\<close>

type_synonym 'k inspection = "int \<times> 'k \<times> mover \<times> counts \<times> (nat \<times> int) list"

fun slot_loop ::
    "'k move_call \<Rightarrow> numa_collection option \<Rightarrow> bool \<Rightarrow> u64 \<Rightarrow> nat \<Rightarrow> nat list \<Rightarrow>
     'k \<Rightarrow> mover \<Rightarrow> counts \<Rightarrow> (nat \<times> int) list \<Rightarrow> 'k inspection run" where
  "slot_loop sys oc show_slots start n [] k m status_sum out = Inr (0, k, m, status_sum, out)"
| "slot_loop sys oc show_slots start n (i # is) k m status_sum out =
     (let as = fill_addrs n (start + of_nat i * of_nat n * PAGE_SIZE);
          m = m\<lparr>status_count := []\<rparr>;
          (err, st, k) = move_pages_status sys (target_nodes m) as True k (status m);
          m = m\<lparr>status := st\<rparr>
      in if err \<noteq> 0 then Inr (err, k, m, status_sum, out)
         else let m = calc_status_count m
              in rbind (if show_slots then rbind (dump_node_percent oc m) (\<lambda>pct. Inr (out @ [(i, pct)])) else Inr out)
                   (\<lambda>out. slot_loop sys oc show_slots start n is k m (add_status_count_to m status_sum) out))"

definition slots_of :: "bool \<Rightarrow> proc_maps_entry \<Rightarrow> nat \<times> nat" where
  "slots_of is_split_vma vma =
     (let size = vma_end vma - vma_start vma; nr_pages = unat (drop_bit PAGE_SHIFT size); total_mb = drop_bit 20 size
      in if total_mb \<ge> push_bit 10 1 \<and> is_split_vma then (10, nr_pages div 10) else (1, nr_pages))"

definition dump_vma_nodes ::
    "'k move_call \<Rightarrow> numa_collection option \<Rightarrow> bool \<Rightarrow> bool \<Rightarrow> proc_maps_entry \<Rightarrow>
     'k \<Rightarrow> mover \<Rightarrow> counts \<Rightarrow> (nat \<times> int) list \<Rightarrow> 'k inspection run" where
  "dump_vma_nodes sys oc fmt is_split_vma vma k m status_sum out =
     (if drop_bit PAGE_SHIFT (vma_end vma - vma_start vma) = 0 then Inr (0, k, m, status_sum, out)
      else let (nr_slots, slot_pages) = slots_of is_split_vma vma
           in slot_loop sys oc (nr_slots \<noteq> 1 \<and> fmt) (vma_start vma) slot_pages [0..<nr_slots] k m status_sum out)"

section \<open>Inspecting a process\<close>

text \<open>The loop over the areas, which stops at the first error.\<close>

fun inspect_vmas ::
    "'k move_call \<Rightarrow> numa_collection option \<Rightarrow> bool \<Rightarrow> bool \<Rightarrow> proc_maps_entry list \<Rightarrow>
     'k \<Rightarrow> mover \<Rightarrow> counts \<Rightarrow> (nat \<times> int) list \<Rightarrow> 'k inspection run" where
  "inspect_vmas sys oc fmt is_split_vma [] k m status_sum out = Inr (0, k, m, status_sum, out)"
| "inspect_vmas sys oc fmt is_split_vma (vma # vmas) k m status_sum out =
     rbind (dump_vma_nodes sys oc fmt is_split_vma vma k m status_sum out) (\<lambda>(err, k, m, status_sum, out).
       if err \<noteq> 0 then Inr (err, k, m, status_sum, out)
       else inspect_vmas sys oc fmt is_split_vma vmas k m status_sum out)"

text \<open>\<open>dump_task_nodes\<close> shows the sums at the end, \<open>VMAInspect::calc_memory_state\<close> adds them up by type.\<close>

definition dump_task_nodes ::
    "'k move_call \<Rightarrow> numa_collection option \<Rightarrow> proc_maps_entry list \<Rightarrow> 'k \<Rightarrow> mover \<Rightarrow> 'k inspection run" where
  "dump_task_nodes sys oc maps k m = inspect_vmas sys oc True True maps k m [] []"

definition inspect_memory_state ::
    "'k move_call \<Rightarrow> numa_collection option \<Rightarrow> proc_maps_entry list \<Rightarrow> 'k \<Rightarrow> mover \<Rightarrow>
     (int \<times> (u64 \<times> u64 \<times> u64) option \<times> 'k \<times> mover) run" where
  "inspect_memory_state sys oc maps k m =
     rbind (inspect_vmas sys oc False False maps k m [] []) (\<lambda>(err, k, m, status_sum, _).
       if err \<noteq> 0 then Inr (err, None, k, m)
       else rbind (calc_memory_state oc (mv_page_shift m) status_sum) (\<lambda>kb. Inr (0, Some kb, k, m)))"

section \<open>The quota of the processes\<close>

text \<open>
  \<open>GlobalScan::update_pid_context\<close>: the new quota of each process, in the order of the list.
  \<open>quota\<close> is the floating-point expression \<open>total * ratio - dram\<close>.
\<close>

fun update_pid_context ::
    "(int \<Rightarrow> 'k move_call) \<Rightarrow> numa_collection \<Rightarrow> (int \<Rightarrow> proc_maps_entry list) \<Rightarrow> (u64 \<Rightarrow> u64 \<Rightarrow> int) \<Rightarrow>
     (int \<times> process) list \<Rightarrow> 'k \<Rightarrow> mover \<Rightarrow> ((int \<times> process) list \<times> 'k \<times> mover) run" where
  "update_pid_context sys c maps quota [] k m = Inr ([], k, m)"
| "update_pid_context sys c maps quota ((pid, p) # ps) k m =
     rbind (inspect_memory_state (sys pid) (Some c) (maps pid) k m) (\<lambda>(err, kb, k, m).
       let p = (case kb of None \<Rightarrow> p
                | Some (tot, dram, pmem) \<Rightarrow> p\<lparr>pr_context := set_dram_quota (quota tot dram) (pr_context p)\<rparr>)
       in rbind (update_pid_context sys c maps quota ps k m) (\<lambda>(ps, k, m). Inr ((pid, p) # ps, k, m)))"

section \<open>Every page is counted once\<close>

text \<open>What a table of counts says about the nodes of a set.\<close>

definition node_total :: "(int \<Rightarrow> bool) \<Rightarrow> counts \<Rightarrow> u64" where
  "node_total P m = (\<Sum>(key, v)\<leftarrow>m. if P key then v else 0)"

lemma node_total_add_count: "node_total P (add_count m key n) = node_total P m + (if P key then n else 0)"
  by (simp add: node_total_def sum_add_count)

lemma node_total_simps [simp]: "node_total P [] = 0" "node_total P ((key, v) # m) = (if P key then v else 0) + node_total P m"
  by (simp_all add: node_total_def)

lemma node_total_inc_counts: "node_total P (foldl inc_count m xs) = node_total P m + of_nat (length (filter P xs))"
  by (induction xs arbitrary: m) (simp_all add: inc_count_def node_total_add_count)

lemma node_total_add_counts: "node_total P (foldl (\<lambda>s (key, v). add_count s key v) s m) = node_total P s + node_total P m"
  by (induction m arbitrary: s) (auto simp: node_total_add_count)

lemma keys_add_counts: "fst ` set (foldl (\<lambda>s (key, v). add_count s key v) s m) = fst ` set s \<union> fst ` set m"
  by (induction m arbitrary: s) (simp_all add: keys_add_count split_beta)

text \<open>The system call reports the node of every page, or a negative error, and changes nothing.\<close>

definition locates :: "'k move_call \<Rightarrow> (u64 \<Rightarrow> int) \<Rightarrow> bool" where
  "locates sys nd \<longleftrightarrow> (\<forall>k as st. sys k as None st = (0, map nd as, k))"

definition pages_of_slots :: "u64 \<Rightarrow> nat \<Rightarrow> nat list \<Rightarrow> u64 list" where
  "pages_of_slots start n is = concat (map (\<lambda>i. fill_addrs n (start + of_nat i * of_nat n * PAGE_SIZE)) is)"

text \<open>Consecutive slots are one range of pages.\<close>

lemma pages_of_slots_upto: "pages_of_slots start n [0..<s] = fill_addrs (s * n) start"
proof (induction s)
  case (Suc s)
  have "fill_addrs (Suc s * n) start = fill_addrs (s * n) start @ map (\<lambda>i. start + of_nat i * PAGE_SIZE) [s * n..<s * n + n]"
  proof -
    have "[0..<Suc s * n] = [0..<s * n] @ [s * n..<s * n + n]"
      using upt_add_eq_append [of 0 "s * n" n] by (simp only: mult_Suc add.commute le0)
    then show ?thesis by (simp only: fill_addrs_def map_append)
  qed
  moreover have "map (\<lambda>i. start + of_nat i * PAGE_SIZE) [s * n..<s * n + n] = fill_addrs n (start + of_nat s * of_nat n * PAGE_SIZE)"
  proof -
    have "[s * n..<s * n + n] = map (\<lambda>i. i + s * n) [0..<n]" by (simp add: map_add_upt add.commute)
    then show ?thesis by (simp add: fill_addrs_def algebra_simps)
  qed
  ultimately show ?case using Suc by (simp add: pages_of_slots_def)
qed (simp add: pages_of_slots_def fill_addrs_def)

lemma dump_node_percent_ok:
  assumes "numa_inv c"
  shows "\<exists>pct. dump_node_percent (Some c) m = Inr pct"
proof -
  have "\<exists>t. rfold (\<lambda>p n. rbind (deref c (Some p)) (\<lambda>nd. Inr (n + count_at (status_count m) (nn_id nd)))) (dram_nodes c) 0 = Inr t \<and> True"
    using assms numa_inv_deref [OF assms] by (intro rfold_total) (force simp: numa_inv_def)+
  then show ?thesis by (auto simp: dump_node_percent_def)
qed

text \<open>Inspecting pages without a fault: each page adds one to the count of its node.\<close>

definition inspected :: "(u64 \<Rightarrow> int) \<Rightarrow> u64 list \<Rightarrow> mover \<Rightarrow> counts \<Rightarrow> 'k \<Rightarrow> 'k inspection run \<Rightarrow> bool" where
  "inspected nd pages m status_sum k r \<longleftrightarrow>
     (\<exists>m' status_sum' out. r = Inr (0, k, m', status_sum', out) \<and> mv_page_shift m' = mv_page_shift m \<and>
        (\<forall>P. node_total P status_sum' = node_total P status_sum + of_nat (length (filter P (map nd pages)))) \<and>
        fst ` set status_sum' = fst ` set status_sum \<union> nd ` set pages)"

lemma slot_loop_inspected:
  assumes "locates sys nd" and "numa_inv c"
  shows "inspected nd (pages_of_slots start n is) m status_sum k
     (slot_loop sys (Some c) show_slots start n is k m status_sum out)"
proof (induction "is" arbitrary: m status_sum out)
  case Nil
  then show ?case by (simp add: inspected_def pages_of_slots_def)
next
  case (Cons i "is")
  let ?as = "fill_addrs n (start + of_nat i * of_nat n * PAGE_SIZE)"
  let ?m = "calc_status_count (m\<lparr>status_count := [], status := map nd ?as\<rparr>)"
  let ?sum = "add_status_count_to ?m status_sum"
  obtain pct where pct: "dump_node_percent (Some c) ?m = Inr pct" using dump_node_percent_ok [OF assms(2)] by blast
  have step: "slot_loop sys (Some c) show_slots start n (i # is) k m status_sum out =
      slot_loop sys (Some c) show_slots start n is k ?m ?sum (if show_slots then out @ [(i, pct)] else out)"
    using assms(1) pct by (simp add: move_pages_status_def locates_def Let_def)
  have tot: "node_total P ?sum = node_total P status_sum + of_nat (length (filter P (map nd ?as)))" for P
    by (simp add: add_status_count_to_def node_total_add_counts calc_status_count_def node_total_inc_counts del: filter_map)
  have keys: "fst ` set ?sum = fst ` set status_sum \<union> nd ` set ?as"
    by (simp add: add_status_count_to_def keys_add_counts calc_status_count_def keys_status_count)
  have shift: "mv_page_shift ?m = mv_page_shift m" by simp
  show ?case
    using Cons.IH [of ?m ?sum "if show_slots then out @ [(i, pct)] else out"]
    unfolding step inspected_def tot keys shift
    by (auto simp: pages_of_slots_def Un_assoc image_Un add.assoc)
qed

text \<open>The pages of an area that are looked at.\<close>

definition area_pages :: "bool \<Rightarrow> proc_maps_entry \<Rightarrow> u64 list" where
  "area_pages is_split_vma vma = (case slots_of is_split_vma vma of (s, n) \<Rightarrow> fill_addrs (s * n) (vma_start vma))"

lemma dump_vma_nodes_inspected:
  assumes "locates sys nd" and "numa_inv c"
  shows "inspected nd (area_pages is_split_vma vma) m status_sum k
     (dump_vma_nodes sys (Some c) fmt is_split_vma vma k m status_sum out)"
proof (cases "drop_bit PAGE_SHIFT (vma_end vma - vma_start vma) = 0")
  case True
  then have "area_pages is_split_vma vma = []"
    by (auto simp: area_pages_def slots_of_def fill_addrs_def Let_def split: if_splits)
  then show ?thesis using True by (simp add: dump_vma_nodes_def inspected_def)
next
  case False
  then show ?thesis using slot_loop_inspected [OF assms]
    by (simp add: dump_vma_nodes_def area_pages_def slot_loop_inspected [OF assms] split_beta flip: pages_of_slots_upto)
qed

lemma inspect_vmas_inspected:
  assumes "locates sys nd" and "numa_inv c"
  shows "inspected nd (concat (map (area_pages is_split_vma) vmas)) m status_sum k
     (inspect_vmas sys (Some c) fmt is_split_vma vmas k m status_sum out)"
proof (induction vmas arbitrary: m status_sum out)
  case Nil
  then show ?case by (simp add: inspected_def)
next
  case (Cons vma vmas)
  obtain m1 sum1 out1 where
    1: "dump_vma_nodes sys (Some c) fmt is_split_vma vma k m status_sum out = Inr (0, k, m1, sum1, out1)"
      "mv_page_shift m1 = mv_page_shift m" "fst ` set sum1 = fst ` set status_sum \<union> nd ` set (area_pages is_split_vma vma)"
    and tot: "\<And>P. node_total P sum1 = node_total P status_sum + of_nat (length (filter P (map nd (area_pages is_split_vma vma))))"
    using dump_vma_nodes_inspected [OF assms, of is_split_vma vma m status_sum k fmt out] by (auto simp: inspected_def)
  show ?case using Cons.IH [of m1 sum1 out1] 1 unfolding inspected_def tot
    by (auto simp: Un_assoc image_Un add.assoc)
qed

section \<open>Adding up by type\<close>

definition on_type :: "numa_collection \<Rightarrow> numa_node_type \<Rightarrow> int \<Rightarrow> bool" where
  "on_type c t nid \<longleftrightarrow> 0 \<le> nid \<and> (case node_of c nid of Inl _ \<Rightarrow> False | Inr n \<Rightarrow> nn_type n = t)"

lemma memory_state_counted:
  assumes "numa_inv c" and "\<forall>key \<in> fst ` set xs. 0 \<le> key \<longrightarrow> is_valid_nid c key"
  shows "rfold (memory_state_step c shift) xs (t, d, p) =
     Inr (t + push_bit shift (node_total (\<lambda>nid. 0 \<le> nid) xs), d + push_bit shift (node_total (on_type c NUMA_NODE_DRAM) xs),
       p + push_bit shift (node_total (on_type c NUMA_NODE_PMEM) xs))"
  using assms(2)
proof (induction xs arbitrary: t d p)
  case (Cons x xs)
  obtain nid n where x: "x = (nid, n)" by (cases x)
  have "memory_state_step c shift x (t, d, p) =
     Inr (t + push_bit shift (if 0 \<le> nid then n else 0), d + push_bit shift (if on_type c NUMA_NODE_DRAM nid then n else 0),
       p + push_bit shift (if on_type c NUMA_NODE_PMEM nid then n else 0))"
  proof (cases "nid < 0")
    case True
    then show ?thesis by (simp add: x memory_state_step_def on_type_def)
  next
    case False
    then have "is_valid_nid c nid" using Cons.prems x by simp
    from get_node_live [OF assms(1) this] obtain q nd where
      q: "get_node c nid = Inr (Some q)" "deref c (Some q) = Inr nd" "node_ok c q nd" by blast
    then have "node_of c nid = Inr nd" "nn_type nd \<noteq> NUMA_NODE_END" by (simp_all add: node_of_def node_ok_def)
    then show ?thesis using False q
      by (cases "nn_type nd") (simp_all add: x memory_state_step_def Let_def on_type_def)
  qed
  then show ?case
    using Cons by (simp only: rfold.simps rbind.simps x node_total_simps push_bit_add add.assoc) simp
qed simp

section \<open>Properties\<close>


definition sample_vma :: proc_maps_entry where
  "sample_vma = \<lparr>vma_start = 0x10000, vma_end = 0x13000, perms = ''rw-p'', vma_read = True, vma_write = True,
     vma_exec = False, mayshare = False, vma_offset = 0, dev_major = 0, dev_minor = 0, ino = 0, vma_path = []\<rparr>"


text \<open>
  Splitting a large area into 10 slots leaves out the pages of the remainder: an area of 2 GB and one
  page is shown without its last 9 pages.
\<close>

lemma length_fill_addrs: "length (fill_addrs n start) = n"
  by (simp add: fill_addrs_def)

lemma split_leaves_pages_out:
  assumes "vma_end vma - vma_start vma = 0x80001000"
  shows "length (area_pages False vma) = 524289" and "length (area_pages True vma) = 524280"
  by (simp_all add: area_pages_def slots_of_def length_fill_addrs assms Let_def PAGE_SHIFT_def)

end
