(* ===== verification/Reports.thy ===== *)
theory Reports
  imports Vma_Inspect Cmsk_Select
begin

text \<open>
  What the reports of the tools say: \<open>show_numa_stats\<close> of \<open>ProcVmstat.cc\<close>, the rows of \<open>MovePages.cc\<close>
  and \<open>EPTMigrate.cc\<close>, and the histogram and hot sizes of \<open>pmu-refs/cmsk.cc\<close>. A definition gives the numbers a report
  prints, row by row; the layout of the text is left out.
\<close>

unbundle bit_operations_syntax

section \<open>Anonymous pages of the nodes\<close>

definition anon_of_node :: "vmstat_map option \<Rightarrow> u64 run" where
  "anon_of_node m =
     rbind (map_at_key m ''nr_inactive_anon'') (\<lambda>a.
     rbind (map_at_key m ''nr_active_anon'') (\<lambda>b.
     rbind (map_at_key m ''nr_isolated_anon'') (\<lambda>d. Inr ((a + b + d) * 4))))"

text \<open>The rows (KB, percentage, node) and the sums for DRAM and PMEM nodes.\<close>

definition numa_stats_step ::
    "numa_collection option \<Rightarrow> u64 \<Rightarrow> nat \<times> vmstat_map option \<Rightarrow> (u64 \<times> int \<times> nat) list \<times> u64 \<times> u64 \<Rightarrow>
     ((u64 \<times> int \<times> nat) list \<times> u64 \<times> u64) run" where
  "numa_stats_step oc total_anon_kb entry acc =
     (case (entry, acc) of ((nid, m), (rows, dram_anon_kb, pmem_anon_kb)) \<Rightarrow>
        rbind (anon_of_node m) (\<lambda>anon_kb.
          let rows = rows @ [(anon_kb, percent anon_kb total_anon_kb, nid)]
          in case oc of
            None \<Rightarrow> Inr (rows, dram_anon_kb, pmem_anon_kb)
          | Some c \<Rightarrow>
              rbind (get_node c (int nid)) (\<lambda>numa_obj. case numa_obj of
                None \<Rightarrow> Inr (rows, dram_anon_kb, pmem_anon_kb)
              | Some _ \<Rightarrow> rbind (deref c numa_obj) (\<lambda>n. Inr (case nn_type n of
                    NUMA_NODE_DRAM \<Rightarrow> (rows, dram_anon_kb + anon_kb, pmem_anon_kb)
                  | NUMA_NODE_PMEM \<Rightarrow> (rows, dram_anon_kb, pmem_anon_kb + anon_kb)
                  | NUMA_NODE_END \<Rightarrow> (rows, dram_anon_kb, pmem_anon_kb))))))"

definition show_numa_stats ::
    "vmstat_files \<Rightarrow> numa_collection option \<Rightarrow> proc_vmstat \<Rightarrow>
     (u64 \<times> (u64 \<times> int \<times> nat) list \<times> ((u64 \<times> int) \<times> (u64 \<times> int)) option \<times> proc_vmstat) run" where
  "show_numa_stats fs oc v =
     (let v = snd (load_numa_vmstat fs (snd (load_vmstat fs v)))
      in rbind (vmstat fs ''nr_inactive_anon'' v) (\<lambda>(a, v).
         rbind (vmstat fs ''nr_active_anon'' v) (\<lambda>(b, v).
         rbind (vmstat fs ''nr_isolated_anon'' v) (\<lambda>(d, v).
           let total_anon_kb = (a + b + d) * 4
           in rbind (rfold (numa_stats_step oc total_anon_kb) (enumerate 0 (pv_numa v)) ([], 0, 0)) (\<lambda>(rows, dram, pmem).
                Inr (total_anon_kb, rows,
                     (if oc = None then None
                      else Some ((dram, percent dram total_anon_kb), (pmem, percent pmem total_anon_kb))), v))))))"

section \<open>Moves\<close>

definition show_move_state :: "move_stats \<Rightarrow> (int \<times> int \<times> u64 \<times> int) list" where
  "show_move_state s =
     map (\<lambda>(key, bytes). case unbox_movestate key of (from, to, result) \<Rightarrow> (from, to, drop_bit 10 bytes, result))
       (move_page_status s)"

definition show_status_count ::
    "numa_collection option \<Rightarrow> bool \<Rightarrow> nat \<Rightarrow> counts \<Rightarrow>
     ((u64 \<times> int \<times> int) list \<times> ((u64 \<times> int) \<times> (u64 \<times> int)) option) run" where
  "show_status_count oc debug page_shift status_sum =
     rbind (calc_memory_state oc page_shift status_sum) (\<lambda>(total_kb, total_dram_kb, total_pmem_kb).
       Inr (map (\<lambda>(nid, n). let kb = push_bit (page_shift - 10) n in (kb, percent kb total_kb, nid))
              (filter (\<lambda>(nid, n). nid \<ge> 0 \<or> debug) status_sum),
            (if oc = None then None
             else Some ((total_dram_kb, percent total_dram_kb total_kb), (total_pmem_kb, percent total_pmem_kb total_kb)))))"

definition dump_target_nodes :: "mover \<Rightarrow> (int \<times> int) list" where
  "dump_target_nodes m =
     (let n = min (length (target_nodes m)) (length (status m))
      in map (\<lambda>i. (status m ! i, target_nodes m ! i)) [0..<n])"

text \<open>\<open>MigrateStats::show\<close>: nothing when nothing was to be moved.\<close>

definition migrate_stats_show ::
    "bool \<Rightarrow> migrate_stats \<Rightarrow> ((u64 \<times> int) list \<times> (int \<times> int \<times> u64 \<times> int) list) option" where
  "migrate_stats_show debug_move_pages s =
     (let mv = ms_move s
      in if to_move_kb mv = 0 then None
         else Some ([(to_move_kb mv, percent (to_move_kb mv) (anon_kb s)),
                     (skip_kb mv, percent (skip_kb mv) (to_move_kb mv)),
                     (move_kb mv, percent (move_kb mv) (to_move_kb mv))],
                    if debug_move_pages then show_move_state mv else []))"

text \<open>
  \<open>call_progressive_profile_script\<close>: the environment the script is started with, or nothing when there is no child. All
  four values are formatted as \<open>long\<close>.
\<close>

definition call_progressive_profile_script ::
    "int \<Rightarrow> bool \<Rightarrow> string \<Rightarrow> int \<Rightarrow> int \<Rightarrow> int \<Rightarrow> (string \<times> (string \<times> int) list) option" where
  "call_progressive_profile_script pid forks script_path_name refs_count page_count page_size =
     (if \<not> forks then None
      else Some (script_path_name,
             [(''REF_COUNT'', refs_count), (''PAGE_SIZE'', page_size), (''PAGE_COUNT'', page_count), (''TARGET_PIDS'', pid)]))"

section \<open>Samples\<close>

text \<open>\<open>hist_print\<close>: the rows from the highest index down, and the sum that is printed last.\<close>

definition hist_print_step :: "achash \<Rightarrow> nat \<Rightarrow> (nat \<times> u32) list \<times> u32 \<Rightarrow> ((nat \<times> u32) list \<times> u32) run" where
  "hist_print_step a i acc =
     (if i \<ge> length (hist a) then Inl Bad_index
      else Inr (if hist a ! i = 0 then acc
                else (fst acc @ [(i, hist a ! i)], snd acc + hist a ! i * of_nat i)))"

definition hist_print :: "achash \<Rightarrow> ((nat \<times> u32) list \<times> u32) run" where
  "hist_print a = rfold (hist_print_step a) (rev [0..<nat (hist_max a)]) ([], 0)"

text \<open>
  \<open>achash_print\<close>: a row has the bound, the number of pages above it and their samples. A weight is
  printed as a percentage of the total.
\<close>

fun hot_size_rows :: "achash \<Rightarrow> nat list \<Rightarrow> u32 \<Rightarrow> u32 \<Rightarrow> (u32 \<times> u32 \<times> u32) list \<Rightarrow> (u32 \<times> u32 \<times> u32) list trun" where
  "hot_size_rows a [] sz w rows = Some (Inr rows)"
| "hot_size_rows a (i # is) sz w rows =
     (let n = push_bit i 1 :: u32
      in tbind (achash_bsearch a sz (ucast n)) (\<lambda>nsize.
           if nsize = sz then hot_size_rows a is sz w rows
           else if unat sz > length (ah_items a) then Some (Inl Bad_index)
           else let w = w - samples_of (drop (unat nsize) (take (unat sz) (ah_items a)))
                in hot_size_rows a is nsize w (rows @ [(n, nsize, w)])))"

text \<open>The result: the size, the samples and the total, the rows, and the first eight pages.\<close>

definition achash_print ::
    "achash \<Rightarrow> u32 \<Rightarrow> ((u32 \<times> u32 \<times> u32) \<times> (u32 \<times> u32 \<times> u32) list \<times> achash_item list) trun" where
  "achash_print a tot =
     (let tot = (if tot = 0 then 1 else tot)
      in tbind (hot_size_rows a [0..<16] (ah_len a) (samples a) []) (\<lambda>rows.
           let n = min 8 (unat (ah_len a))
           in if n > length (ah_items a) then Some (Inl Bad_index)
              else Some (Inr ((ah_len a, samples a, tot), rows, take n (ah_items a)))))"

definition cmsk_print ::
    "cmsk \<Rightarrow> (u32 \<times> (u32 \<times> (u32 \<times> u32 \<times> u32) \<times> (u32 \<times> u32 \<times> u32) list \<times> achash_item list) option) trun" where
  "cmsk_print k =
     (let total = cms_total (sketch k)
      in if total = 0 then Some (Inr (total, None))
         else tbind (achash_print (table k) total) (\<lambda>r. Some (Inr (total, Some (cms_error (sketch k), r)))))"

text \<open>\<open>cmsk_sort_by_pid\<close> hands the first \<open>n\<close> items to \<open>qsort\<close> with the difference of their process ids.\<close>

definition achash_cmp_pid :: "achash_item \<Rightarrow> achash_item \<Rightarrow> int" where
  "achash_cmp_pid a b = uint (it_pid b) - uint (it_pid a)"

definition cmsk_sort_by_pid ::
    "((achash_item \<Rightarrow> achash_item \<Rightarrow> int) \<Rightarrow> achash_item list \<Rightarrow> achash_item list) \<Rightarrow>
     achash_item list \<Rightarrow> nat \<Rightarrow> achash_item list" where
  "cmsk_sort_by_pid qsort xs n = qsort achash_cmp_pid (take n xs) @ drop n xs"

section \<open>Percentages\<close>

lemma sint_of_small_int: "0 \<le> x \<Longrightarrow> x < 2 ^ 31 \<Longrightarrow> sint (word_of_int x :: u32) = x"
  by (simp add: signed_of_int signed_take_bit_int_eq_self)

lemma percent_value:
  assumes "unat n * 100 < 2 ^ 64" and "n \<le> tot"
  shows "percent n tot = int (unat n * 100 div unat tot)" and "percent n tot \<le> 100"
proof -
  have le: "unat n * 100 div unat tot \<le> 100"
    using assms(2) div_le_mono [of "unat n * 100" "unat tot * 100" "unat tot"]
    by (cases "tot = 0") (auto simp: word_le_nat_alt unat_eq_0)
  have "unat (n * 100) = unat n * 100" using assms(1) by (simp add: unat_word_ariths)
  then have "unat (n * 100 div tot) = unat n * 100 div unat tot" by (simp add: unat_div)
  then have "(ucast (n * 100 div tot) :: u32) = word_of_int (int (unat n * 100 div unat tot))"
    by (metis ucast_eq uint_nat)
  then have s: "sint (ucast (n * 100 div tot) :: u32) = int (unat n * 100 div unat tot)"
    using le sint_of_small_int [of "int (unat n * 100 div unat tot)"] by (simp only: of_nat_0_le_iff) simp
  then show "percent n tot = int (unat n * 100 div unat tot)" by (auto simp: percent_def)
  then show "percent n tot \<le> 100" using le by simp
qed


section \<open>Adding up the nodes\<close>

lemma of_type_step:
  assumes "numa_inv c" and "nid < length (node_map c)" and "anon_of_node m = Inr kb"
  shows "numa_stats_step (Some c) tot (nid, m) (rows, d, p) =
    Inr (rows @ [(kb, percent kb tot, nid)], d + (if on_type c NUMA_NODE_DRAM (int nid) then kb else 0),
         p + (if on_type c NUMA_NODE_PMEM (int nid) then kb else 0))"
proof (cases "node_map c ! nid")
  case None
  then show ?thesis using assms
    by (simp add: numa_stats_step_def get_node_def on_type_def node_of_def deref_def)
next
  case (Some q)
  then have "is_valid_nid c (int nid)" using assms(1,2) by (auto simp: is_valid_nid_def numa_inv_def)
  from get_node_live [OF assms(1) this] obtain q nd where
    q: "get_node c (int nid) = Inr (Some q)" "deref c (Some q) = Inr nd" "node_ok c q nd" by blast
  then have "node_of c (int nid) = Inr nd" "nn_type nd \<noteq> NUMA_NODE_END" by (simp_all add: node_of_def node_ok_def)
  then show ?thesis using q assms(3)
    by (cases "nn_type nd") (simp_all add: numa_stats_step_def Let_def on_type_def)
qed

definition type_kb :: "numa_collection \<Rightarrow> numa_node_type \<Rightarrow> (nat \<Rightarrow> u64) \<Rightarrow> nat \<Rightarrow> u64" where
  "type_kb c t kb n = (\<Sum>nid \<leftarrow> filter (\<lambda>nid. on_type c t (int nid)) [0..<n]. kb nid)"

lemma numa_stats_rows:
  assumes "numa_inv c" and "n \<le> length (node_map c)" and "n \<le> length ms"
    and "\<forall>nid < n. anon_of_node (ms ! nid) = Inr (kb nid)"
  shows "rfold (numa_stats_step (Some c) tot) (enumerate 0 (take n ms)) ([], 0, 0) =
    Inr (map (\<lambda>nid. (kb nid, percent (kb nid) tot, nid)) [0..<n], type_kb c NUMA_NODE_DRAM kb n, type_kb c NUMA_NODE_PMEM kb n)"
  using assms(2-4)
proof (induction n)
  case (Suc n)
  have e: "enumerate 0 (take (Suc n) ms) = enumerate 0 (take n ms) @ [(n, ms ! n)]"
    using Suc.prems(2) by (simp add: take_Suc_conv_app_nth enumerate_append_eq)
  have IH: "rfold (numa_stats_step (Some c) tot) (enumerate 0 (take n ms)) ([], 0, 0) =
    Inr (map (\<lambda>nid. (kb nid, percent (kb nid) tot, nid)) [0..<n], type_kb c NUMA_NODE_DRAM kb n, type_kb c NUMA_NODE_PMEM kb n)"
    using Suc by simp
  have last: "n < length (node_map c)" "anon_of_node (ms ! n) = Inr (kb n)" using Suc.prems by auto
  show ?case unfolding e rfold_append IH
    by (simp add: of_type_step [OF assms(1) last] type_kb_def)
qed (simp add: type_kb_def)

section \<open>Hot sizes\<close>

fun hot_rows :: "achash_item list \<Rightarrow> nat list \<Rightarrow> u32 \<Rightarrow> (u32 \<times> u32 \<times> u32) list" where
  "hot_rows xs [] sz = []"
| "hot_rows xs (i # is) sz =
     (let hot = filter (\<lambda>x. 2 ^ i < unat (it_count x)) xs; k = of_nat (length hot)
      in if k = sz then hot_rows xs is sz else (push_bit i 1, k, samples_of hot) # hot_rows xs is k)"

lemma unat_push_small: "i < 16 \<Longrightarrow> unat (ucast (push_bit i 1 :: u32) :: u16) = 2 ^ i"
proof -
  assume "i < 16"
  then have "i \<in> set [0..<16]" by simp
  then show ?thesis by (auto simp: upt_rec)
qed

lemma hot_size_rows_counts:
  assumes "descending (ah_items a)" and "unat (ah_len a) \<le> length (ah_items a)" and "unat (ah_len a) < 2 ^ 31"
    and "sorted is" and "\<forall>i \<in> set is. i < 16" and "sz \<le> ah_len a"
    and "\<forall>i \<in> set is. \<forall>j. unat sz \<le> j \<and> j < unat (ah_len a) \<longrightarrow> unat (it_count (ah_items a ! j)) \<le> 2 ^ i"
  shows "hot_size_rows a is sz (samples_of (take (unat sz) (ah_items a))) rows =
    Some (Inr (rows @ hot_rows (take (unat (ah_len a)) (ah_items a)) is sz))"
  using assms(4-7)
proof (induction "is" arbitrary: sz rows)
  case (Cons i "is")
  let ?xs = "take (unat (ah_len a)) (ah_items a)" and ?hot = "\<lambda>x. 2 ^ i < unat (it_count x)"
  define n :: u16 where "n = ucast (push_bit i 1 :: u32)"
  have len: "length ?xs = unat (ah_len a)" using assms(2) by simp
  have i: "unat n = 2 ^ i" using Cons.prems(2) unat_push_small by (simp add: n_def)
  have sz: "unat sz \<le> unat (ah_len a)" using Cons.prems(3) by (simp add: word_le_nat_alt)
  have "unat sz \<le> length (ah_items a)" "unat sz < 2 ^ 31" using sz assms(2,3) by simp_all
  from bsearch_splits [OF assms(1) _ this, of 0 n]
  obtain m where m: "bsearch_loop (ah_items a) n 0 sz = Some (Inr m)" "unat m \<le> unat sz"
      "\<forall>j < unat m. n < it_count (ah_items a ! j)"
      "\<forall>j. unat m \<le> j \<and> j < unat sz \<longrightarrow> it_count (ah_items a ! j) \<le> n"
    by auto
  have above: "\<forall>j < unat m. ?hot (ah_items a ! j)" using m(3) by (simp add: word_less_nat_alt i)
  have below: "\<forall>j. unat m \<le> j \<and> j < unat (ah_len a) \<longrightarrow> unat (it_count (ah_items a ! j)) \<le> 2 ^ i"
    using m(4) Cons.prems(4) by (auto simp: word_le_nat_alt i not_less) (metis not_le)
  have hot: "filter ?hot ?xs = take (unat m) ?xs"
    using m(2) sz above below len by (intro filter_take) (auto simp: not_less)
  have hl: "length (filter ?hot ?xs) = unat m" unfolding hot using m(2) sz assms(2) by simp
  have m_le: "m \<le> ah_len a" using m(2) sz by (simp add: word_le_nat_alt)
  have rest: "\<forall>i' \<in> set is. \<forall>j. unat m \<le> j \<and> j < unat (ah_len a) \<longrightarrow> unat (it_count (ah_items a ! j)) \<le> 2 ^ i'"
  proof (intro ballI allI impI)
    fix i' j assume "i' \<in> set is" "unat m \<le> j \<and> j < unat (ah_len a)"
    then have "unat (it_count (ah_items a ! j)) \<le> 2 ^ i" "i \<le> i'" using below Cons.prems(1) by auto
    then show "unat (it_count (ah_items a ! j)) \<le> 2 ^ i'"
      by (meson le_trans one_le_numeral power_increasing)
  qed
  note IH = Cons.IH [OF _ _ _ rest]
  have split: "take (unat sz) (ah_items a) = take (unat m) (ah_items a) @ drop (unat m) (take (unat sz) (ah_items a))"
    using append_take_drop_id [of "unat m" "take (unat sz) (ah_items a)"] m(2) by (simp add: min_def)
  have cut: "samples_of (take (unat sz) (ah_items a)) - samples_of (drop (unat m) (take (unat sz) (ah_items a))) =
      samples_of (take (unat m) (ah_items a))"
    using samples_of_append [of "take (unat m) (ah_items a)" "drop (unat m) (take (unat sz) (ah_items a))"]
    unfolding split [symmetric] by simp
  have hs: "samples_of (filter ?hot ?xs) = samples_of (take (unat m) (ah_items a))"
    unfolding hot using m(2) sz by (simp add: min_def)
  show ?case
  proof (cases "m = sz")
    case True
    then show ?thesis using Cons.prems IH m(1) [unfolded n_def] hl sz assms(2)
      by (simp add: achash_bsearch_def Let_def)
  next
    case False
    then show ?thesis using Cons.prems(1,2) IH m(1) [unfolded n_def] hl hs cut sz assms(2) m_le
      by (simp add: achash_bsearch_def Let_def)
  qed
qed simp

text \<open>
  The report of the hot sizes: after sorting, with the samples of the items in use, printing returns, and for each power of
  two that lowers the number of pages it shows that number, which is how many pages have a count above it, with the sum
  of their counts.
\<close>

theorem achash_print_shows_hot_sizes:
  assumes "descending (ah_items a)" and "unat (ah_len a) \<le> length (ah_items a)" and "unat (ah_len a) < 2 ^ 31"
    and "samples a = samples_of (take (unat (ah_len a)) (ah_items a))"
  shows "achash_print a tot =
    Some (Inr ((ah_len a, samples a, if tot = 0 then 1 else tot),
      hot_rows (take (unat (ah_len a)) (ah_items a)) [0..<16] (ah_len a),
      take (min 8 (unat (ah_len a))) (ah_items a)))"
proof -
  have "hot_size_rows a [0..<16] (ah_len a) (samples a) [] =
      Some (Inr (hot_rows (take (unat (ah_len a)) (ah_items a)) [0..<16] (ah_len a)))"
    using hot_size_rows_counts [OF assms(1-3), of "[0..<16]" "ah_len a" "[]"] by (simp add: assms(4))
  then show ?thesis using assms(2) by (simp only: achash_print_def Let_def tbind_simps) simp
qed

lemma achash_print_shows_hot_sizes_witness:
  "achash_print (small_table\<lparr>ah_items := [null_item\<lparr>it_count := 5\<rparr>, null_item\<lparr>it_count := 1\<rparr>], ah_len := 2, samples := 6\<rparr>) 6 =
   Some (Inr ((2, 6, 6), [(1, 1, 5), (8, 0, 0)], [null_item\<lparr>it_count := 5\<rparr>, null_item\<lparr>it_count := 1\<rparr>]))"
  by (subst achash_print_shows_hot_sizes) (simp_all add: descending_def samples_of_def null_item_def small_table_def upt_rec)

section \<open>The sums of the reports\<close>

text \<open>\<open>hist_print\<close> prints every index in use once, from the highest, and the sum of index times count.\<close>

theorem hist_print_shows_histogram:
  assumes "nat (hist_max a) \<le> length (hist a)"
  shows "hist_print a =
    Inr (map (\<lambda>i. (i, hist a ! i)) (filter (\<lambda>i. hist a ! i \<noteq> 0) (rev [0..<nat (hist_max a)])),
         \<Sum>i \<leftarrow> [0..<nat (hist_max a)]. hist a ! i * of_nat i)"
proof -
  have "rfold (hist_print_step a) is acc =
      Inr (fst acc @ map (\<lambda>i. (i, hist a ! i)) (filter (\<lambda>i. hist a ! i \<noteq> 0) is),
           snd acc + (\<Sum>i \<leftarrow> is. hist a ! i * of_nat i))" if "\<forall>i \<in> set is. i < length (hist a)" for "is" acc
    using that by (induction "is" arbitrary: acc) (auto simp: hist_print_step_def add.assoc)
  from this [of "rev [0..<nat (hist_max a)]" "([], 0)"] assms show ?thesis
    by (simp add: hist_print_def sum_list_rev rev_map [symmetric])
qed

lemma hist_print_shows_histogram_witness:
  "hist_print (small_table\<lparr>hist := [0, 3, 2], hist_max := 3\<rparr>) = Inr ([(2, 2), (1, 3)], 7)"
  by (subst hist_print_shows_histogram) (simp_all add: small_table_def upt_rec)

text \<open>
  The report of the nodes: with complete files and a node id for every file, it shows the anonymous pages of every node once and
  adds them up by the type of the node.
\<close>

theorem numa_stats_by_type:
  assumes "numa_inv c" and "n = nat (vf_max_node fs + 1)" and "n \<le> length (node_map c)"
    and "\<forall>nid < n. anon_of_node (vf_node fs nid) = Inr (kb nid)"
    and "vf_proc fs = Some f" and "f ''nr_inactive_anon'' = Some a" and "f ''nr_active_anon'' = Some b"
    and "f ''nr_isolated_anon'' = Some d"
  shows "\<exists>v'. show_numa_stats fs (Some c) v =
    Inr ((a + b + d) * 4, map (\<lambda>nid. (kb nid, percent (kb nid) ((a + b + d) * 4), nid)) [0..<n],
      Some ((type_kb c NUMA_NODE_DRAM kb n, percent (type_kb c NUMA_NODE_DRAM kb n) ((a + b + d) * 4)),
            (type_kb c NUMA_NODE_PMEM kb n, percent (type_kb c NUMA_NODE_PMEM kb n) ((a + b + d) * 4))), v')"
proof -
  let ?ms = "map (vf_node fs) [0..<n]"
  have rows: "rfold (numa_stats_step (Some c) tot) (enumerate 0 ?ms) ([], 0, 0) =
    Inr (map (\<lambda>nid. (kb nid, percent (kb nid) tot, nid)) [0..<n], type_kb c NUMA_NODE_DRAM kb n, type_kb c NUMA_NODE_PMEM kb n)" for tot
    using numa_stats_rows [OF assms(1,3), of ?ms kb tot] assms(4) by simp
  show ?thesis
    using assms(5-8) rows [of "(a + b + d) * 4"]
    by (simp add: show_numa_stats_def load_vmstat_def load_numa_vmstat_def vmstat_def map_at_key_def Let_def flip: assms(2))
qed

end
