(* ===== verification/Spec2Isabelle.thy ===== *)
theory Spec2Isabelle
  imports Ept_Migrate_Correct Cmsk_Select Global_Scan_Correct Drift_Correct Kernel_Walk_Correct Worker_Pool Hmd_Correct Processes_Correct Page_Refs_Correct Tlb_Flush_Correct Self_Test Main_Loop_Correct Page_Info Reports
begin

text \<open>
  Verification development for memory-optimizer, a set of Linux tools that find the hot and cold
  pages of processes and move them between DRAM and PMEM nodes.

  \<^bold>\<open>The program and its parts.\<close>
  A kernel module (\<open>kernel_module/\<close>) offers \<open>/proc/PID/idle_pages\<close>: reading it walks the page tables of
  a process or of its virtual machine, tests and clears the accessed bits and writes a byte stream of
  page types. The tools \<open>sys-refs\<close> and \<open>task-refs\<close> read that file once per walk
  (\<open>ProcIdlePages\<close>), count in a compressed sequence of addresses (\<open>AddrSequence\<close>) in how many walks each page was used, ask
  the kernel on which node it is (\<open>EPTScan\<close>, \<open>MovePages\<close>, \<open>Numa\<close>), and move hot pages of PMEM nodes
  to DRAM nodes and cold ones back (\<open>EPTMigrate\<close>). \<open>GlobalScan\<close> does this for all processes the
  configuration selects (\<open>OptionParser\<close>, \<open>Process\<close>), with worker threads (\<open>Queue\<close>), within limits for
  a period, round after round (\<open>main_loop\<close>), at an interval fitted to the load (\<open>IntervalFitting\<close>).
  \<open>pmu-refs/\<close> is a second tool with the same aim that samples memory accesses with performance
  counters and counts them in a count-min sketch or a hash table. \<open>page-refs.c\<close> is a third,
  which counts by the idle bitmap of the kernel.

  \<^bold>\<open>Conventions\<close> (\<open>MO_Prelude\<close>). \<open>unsigned long\<close>, \<open>unsigned int\<close>, \<open>uint16_t\<close> and \<open>uint8_t\<close> are words
  of 64, 32, 16 and 8 bits, which wrap; signed integers are \<open>int\<close>, with the fault of an overflow
  written out where the code can reach it. What the code does wrong with memory or with a library
  (an access out of bounds, a thrown exception, a division by 0, an overflow of a signed integer) is
  a value of the datatype \<open>fault\<close>: an operation that can fail has type \<open>'a run = fault + 'a\<close>. A loop
  that need not end is a \<open>partial_function (option)\<close>: \<open>None\<close> says that it does not return, and
  \<open>'a trun = 'a run option\<close> combines both. No operation has fuel: a property that something
  returns says that its value is not \<open>None\<close>. C++ objects are records, lists of pointers are lists or ids into a heap
  of objects (\<open>Numa\<close>), \<open>std::map\<close> is a sorted association list or a map.
  What is not in the repository is an argument: records of operations for the kernel
  (\<open>kernel_ops\<close>, \<open>tlb_ops\<close>, \<open>idle_ops\<close>, \<open>proc_ops\<close>, \<open>page_dev\<close>, \<open>vmstat_files\<close>, \<open>hugetlb_files\<close>),
  the performance counters (\<open>perf_ops\<close>), the topology (\<open>libnuma\<close>), the system call
  \<open>move_pages\<close>, the YAML library (\<open>yaml_ops\<close>), the undefined cases of \<open>std::map\<close> (\<open>map_lib\<close>), and
  the floating-point expressions (\<open>float_ops\<close>, \<open>fit_ops\<close>), of which the properties assume at most that a result is
  within bounds they state.

  \<^bold>\<open>Counting pages.\<close>
  \<^item> \<open>Addr_Sequence\<close>: \<open>AddrSequence.h\<close>, \<open>AddrSequence.cc\<close>. Clusters of delta-coded pages, the walk and find iterators,
    every operation. \<open>_View\<close> gives its meaning as a list of entries and the invariant \<open>seq_inv\<close>;
    \<open>_Append\<close>, \<open>_Update\<close> and \<open>_Walk\<close> show each operation against that list; \<open>_Visit\<close> states the loop of the
    clients as the interface \<open>page_ref_source\<close>, interpreted on the sequence as \<open>page_refs\<close>; \<open>_Protocol\<close> is the step
    relation of its life (recording, locating, counting) and holds the properties.
    \<open>Self_Test\<close> is the self test of the class, which compares it with an ordered map.
  \<^item> \<open>Page_Stream\<close>: the control buffer and the run-length encoder of \<open>ept_idle.c\<close>. \<open>Idle_Parse\<close>: the parser of
    \<open>ProcIdlePages.cc\<close>, with the round trip between both. \<open>Idle_Pages\<close>: reading \<open>/proc/PID/maps\<close> and the idle pages of
    a process, area by area.
  \<^item> \<open>Kernel_Walk\<close>, \<open>Kernel_Walk_Correct\<close>: the page table walks of \<open>ept_idle.c\<close> and
    \<open>ept_idle_native_pagewalk.c\<close> and the operations of the file. What every step of the
    walk keeps is stated once in the interface \<open>walk_client\<close>, interpreted on the scan (\<open>mm_scan\<close>).
    \<open>Tlb_Flush\<close>, \<open>Tlb_Flush_Correct\<close>: \<open>tlb_flush.c\<close>, with a step relation in which the flushes of several requests
    interleave on the CPUs.

  \<^bold>\<open>Locating and moving pages.\<close>
  \<^item> \<open>Numa\<close>, \<open>Numa_Topology\<close>: \<open>Numa.h\<close>, \<open>Numa.cc\<close>. The invariant of a collection and the contract
    \<open>numa_nodes\<close> its users rely on, interpreted as \<open>numa\<close>.
  \<^item> \<open>EPT_Scan\<close>, \<open>EPT_Scan_Correct\<close>: \<open>EPTScan.h\<close>, \<open>EPTScan.cc\<close>. Repeated walks, locating pages in batches, histograms.
  \<^item> \<open>Move_Pages\<close>, \<open>Move_Pages_Correct\<close>: \<open>MovePages.h\<close>, \<open>MovePages.cc\<close>, the DRAM quota. \<open>Vma_Inspect\<close>: \<open>VMAInspect.cc\<close>.
  \<^item> \<open>Ept_Migrate\<close>, \<open>Ept_Migrate_Correct\<close>: \<open>EPTMigrate.h\<close>, \<open>EPTMigrate.cc\<close>, \<open>ProcVmstat.cc\<close>. Selecting by
    thresholds, normalising, moving in turns.
  \<^item> \<open>Reports\<close>: the numbers that the reports of nodes, moves and samples show (\<open>show_numa_stats\<close>, \<open>show_status_count\<close>,
    \<open>MigrateStats::show\<close>, \<open>hist_print\<close>, \<open>achash_print\<close>). \<open>Page_Info\<close>: \<open>lib/page-types.c\<close>, \<open>lib/iomem_parse.c\<close>.

  \<^bold>\<open>The global scan.\<close>
  \<^item> \<open>Global_Scan\<close>, \<open>Global_Scan_Correct\<close>, \<open>Drift_Correct\<close>: \<open>GlobalScan.h\<close>, \<open>GlobalScan.cc\<close>, \<open>Sysfs.cc\<close>. A period: statistics,
    the global threshold, parameters and limits, thrashing, the drifting report.
  \<^item> \<open>Worker_Pool\<close>: \<open>Queue.h\<close> and the worker threads, as a step relation in which a queue operation
    is one step.
  \<^item> \<open>Interval_Fitting\<close>: \<open>IntervalFitting.h\<close>, \<open>BandwidthLimit.cc\<close>.
  \<^item> \<open>Main_Loop\<close>, \<open>Main_Loop_Correct\<close>: \<open>main_loop\<close> and its rounds with all operations as parameters, \<open>reload_conf\<close>,
    \<open>update_interval\<close>, and the composition with the walks, statistics and interval of a period;
    \<open>sys-refs.cc\<close>.
  \<^item> \<open>Options\<close>, \<open>Processes\<close>, \<open>Processes_Correct\<close>: \<open>Option.h\<close>, \<open>OptionParser.cc\<close>, the command lines, \<open>Process.cc\<close>, \<open>ProcPid.cc\<close>,
    \<open>ProcStatus.cc\<close>, \<open>PidContext.h\<close>, \<open>lib/memparse.c\<close>.

  \<^bold>\<open>The other tools.\<close>
  \<^item> \<open>Cmsk\<close>, \<open>Cmsk_Table\<close>, \<open>Cmsk_Counting\<close>, \<open>Cmsk_Select\<close>, \<open>Cmsk_Correct\<close>: \<open>pmu-refs/cmsk.h\<close>, \<open>pmu-refs/cmsk.cc\<close>. The contract of a counter
    is the locale \<open>counter\<close>, interpreted on the hash mode (\<open>hash_mode\<close>).
  \<^item> \<open>Pmu\<close>, \<open>Pmu_Correct\<close>: \<open>pmu-refs/pmu.h\<close>, \<open>pmu-refs/pmu.cc\<close>. \<open>Hmd\<close>, \<open>Hmd_Correct\<close>: \<open>pmu-refs/hmd.cc\<close>,
    \<open>pmu-refs/hmd-config.h\<close>, \<open>pmu-refs/migration.cc\<close>. \<open>Address_Filter\<close>: \<open>AddressRangeFilter.cc\<close> against a set of addresses,
    and its test.
  \<^item> \<open>Page_Refs\<close>, \<open>Page_Refs_Correct\<close>: \<open>page-refs.c\<close>.

  \<^bold>\<open>What the lemmas show.\<close> For each part: that its invariant is established and kept (the sequence in every
  reachable phase, the node collection, the counters, the filter), what each operation computes on every branch,
  that its loops return, and that bounds hold (buffers, quotas, limits, intervals). Across parts: the bytes the kernel writes
  are what the parser reports and what the sequence records; the pages a histogram counts are the pages of the sequence; the
  pages selected are the ones handed to the system call, once; a period with worker threads does
  the work of one without. Defects of the code are shown as theorems about the same definitions,
  most of them named after what goes wrong.

  \<^bold>\<open>Not modelled.\<close> The texts the programs print, and with them \<open>Formatter.h\<close> and
  \<open>lib/debug.c\<close>: a definition keeps of an operation that prints what it computes.
  Wall-clock time, which is a parameter where a decision depends on it. Locks of the kernel
  and of the queue, whose operations are atomic steps. The registration of the kernel module, the
  signal handlers. Code that is compiled out (\<open>#if 0\<close>).
  The tools \<open>show-vmstat\<close> and \<open>task-maps\<close>, which only print what \<open>ProcVmstat\<close> and \<open>ProcMaps\<close> read; the shell and Ruby
  scripts around the tools.
\<close>

end
